(* ===== verification/Prelude.thy ===== *)
theory Prelude
  imports Main "HOL-Library.Signed_Division"
begin

text \<open>
  What every component of the development shares: the Go time and integer conventions,
  the standard-library string functions the sources call, finite \<open>float64\<close> values, the
  error values, and the generic lemmas on lists and merges.

  \<^item> A \<open>time.Time\<close> is an \<open>int\<close>: nanoseconds since Go's zero time, so \<open>IsZero\<close> is \<open>t = 0\<close> and
    \<open>Before\<close>, \<open>After\<close>, \<open>Equal\<close> are the order of \<open>int\<close>. A \<open>time.Duration\<close> is an \<open>int\<close> of
    nanoseconds; products of durations wrap at 64 bits and say so with \<open>wrap64\<close>.
  \<^item> Go's \<open>/\<close> on integers truncates: it is \<open>sdiv\<close> of \<open>HOL-Library.Signed_Division\<close>.
  \<^item> Strings are \<open>char list\<close>, one \<open>char\<close> per byte. \<open>TrimSpace\<close> and \<open>ToLower\<close> are modelled on ASCII.
\<close>

named_theorems merge_laws \<open>algebraic laws of the merge operations\<close>
named_theorems state_defs \<open>definitions of state updates, unfolded together\<close>

type_synonym gotime = int
type_synonym duration = int

section \<open>Errors\<close>

text \<open>
  Go errors: sentinels, contextual text, and \<open>%w\<close>-wrapping or \<open>errors.Join\<close>. \<open>errors_is\<close> is
  \<open>errors.Is\<close>: the error itself or something it wraps.
\<close>

datatype gerror =
    ErrClosed
  | ErrLeaseLost
  | ErrLeaseHeld
  | ErrRefreshGenerationContention
  | ErrRefreshGenerationSuperseded
  | ErrBranchRefreshGenerationContention
  | ErrBranchReconciliationSuperseded
  | ErrObservationSuperseded
  | ErrWatermarkLeaseHeld
  | ErrCursorFirstTouchRace
  | ErrListenerUnavailable
  | ErrGapHealLeaseLost
  | ErrNoRows
  | ErrTxClosed
  | ErrResyncRequired string string int int
  | PgError string
  | HTTPError int
  | NetError bool string
  | ErrContext string
  | ErrText string
  | ErrWrap string "gerror list"
  | ErrCursorContention string string gerror
  | TailHandlerError int gerror

fun errors_is :: "gerror \<Rightarrow> gerror \<Rightarrow> bool" where
  "errors_is (ErrWrap m es) t = (ErrWrap m es = t \<or> (\<exists>e \<in> set es. errors_is e t))"
| "errors_is (ErrCursorContention c s e) t = (ErrCursorContention c s e = t \<or> errors_is e t)"
| "errors_is (TailHandlerError n e) t = (TailHandlerError n e = t \<or> errors_is e t)"
| "errors_is e t = (e = t)"

text \<open>\<open>errors.As\<close> with a target type: the first error of the chain, depth first, of that type.\<close>

fun errors_as :: "(gerror \<Rightarrow> bool) \<Rightarrow> gerror \<Rightarrow> gerror option" where
  "errors_as p (ErrWrap m es) =
     (if p (ErrWrap m es) then Some (ErrWrap m es)
      else foldr (\<lambda>e r. case errors_as p e of Some x \<Rightarrow> Some x | None \<Rightarrow> r) es None)"
| "errors_as p (ErrCursorContention c s e) =
     (if p (ErrCursorContention c s e) then Some (ErrCursorContention c s e) else errors_as p e)"
| "errors_as p (TailHandlerError n e) =
     (if p (TailHandlerError n e) then Some (TailHandlerError n e) else errors_as p e)"
| "errors_as p e = (if p e then Some e else None)"

section \<open>64-bit integers\<close>

definition wrap64 :: "int \<Rightarrow> int" where
  "wrap64 x = (x + 2 ^ 63) mod 2 ^ 64 - 2 ^ 63"

text \<open>The conversion \<open>int32(x)\<close>.\<close>

definition wrap32 :: "int \<Rightarrow> int" where
  "wrap32 x = (x + 2 ^ 31) mod 2 ^ 32 - 2 ^ 31"

lemma wrap32_id: "- (2 ^ 31) \<le> x \<Longrightarrow> x < 2 ^ 31 \<Longrightarrow> wrap32 x = x"
  unfolding wrap32_def by (subst mod_pos_pos_trivial) auto

lemma wrap64_id: "- (2 ^ 63) \<le> x \<Longrightarrow> x < 2 ^ 63 \<Longrightarrow> wrap64 x = x"
  unfolding wrap64_def by (subst mod_pos_pos_trivial) auto

lemma wrap64_bounds: "- (2 ^ 63) \<le> wrap64 x" "wrap64 x < 2 ^ 63"
  unfolding wrap64_def by simp_all

section \<open>Time\<close>

definition second :: duration where "second = 1000000000"
definition millisecond :: duration where "millisecond = 1000000"

text \<open>\<open>time.Unix(sec, 0)\<close>: the seconds between the two epochs are added at 64 bits.\<close>

definition time_Unix :: "int \<Rightarrow> gotime" where
  "time_Unix sec = wrap64 (sec + 62135596800) * second"

abbreviation isZero :: "gotime \<Rightarrow> bool" where "isZero t \<equiv> t = 0"

text \<open>A time as Postgres stores it, in microseconds.\<close>

definition pg_timestamp :: "gotime \<Rightarrow> gotime" where
  "pg_timestamp t = (t div 1000) * 1000"

section \<open>Strings\<close>

definition is_space :: "char \<Rightarrow> bool" where
  "is_space c = (let n = (of_char c :: nat) in (9 \<le> n \<and> n \<le> 13) \<or> n = 32)"

definition trim_space :: "string \<Rightarrow> string" where
  "trim_space s = rev (dropWhile is_space (rev (dropWhile is_space s)))"

definition to_lower :: "string \<Rightarrow> string" where
  "to_lower s = map (\<lambda>c. let n = (of_char c :: nat) in
      if 65 \<le> n \<and> n \<le> 90 then char_of (n + 32) else c) s"

fun contains_str :: "string \<Rightarrow> string \<Rightarrow> bool" where
  "contains_str sub [] = (sub = [])"
| "contains_str sub (c # cs) = (take (length sub) (c # cs) = sub \<or> contains_str sub cs)"

lemma contains_str_iff: "contains_str sub s \<longleftrightarrow> (\<exists>a b. s = a @ sub @ b)"
proof (induction s)
  case Nil
  then show ?case by auto
next
  case (Cons c cs)
  show ?case
  proof
    assume "contains_str sub (c # cs)"
    then consider "take (length sub) (c # cs) = sub" | "contains_str sub cs" by auto
    then show "\<exists>a b. c # cs = a @ sub @ b"
    proof cases
      case 1
      then have "c # cs = [] @ sub @ drop (length sub) (c # cs)"
        by (metis append_Nil append_take_drop_id)
      then show ?thesis by blast
    next
      case 2
      with Cons obtain a b where "cs = a @ sub @ b" by blast
      then have "c # cs = (c # a) @ sub @ b" by simp
      then show ?thesis by blast
    qed
  next
    assume "\<exists>a b. c # cs = a @ sub @ b"
    then obtain a b where ab: "c # cs = a @ sub @ b" by blast
    show "contains_str sub (c # cs)"
    proof (cases a)
      case Nil
      with ab have "take (length sub) (c # cs) = sub" by simp
      then show ?thesis by simp
    next
      case (Cons x a')
      with ab have "cs = a' @ sub @ b" by simp
      with Cons.IH have "contains_str sub cs" by blast
      then show ?thesis by simp
    qed
  qed
qed

text \<open>\<open>strconv.ParseInt(s, 10, 64)\<close>: \<open>None\<close> on a syntax or a range error.\<close>

fun digits_val :: "nat \<Rightarrow> string \<Rightarrow> nat option" where
  "digits_val acc [] = Some acc"
| "digits_val acc (c # cs) =
     (let n = (of_char c :: nat) in
      if 48 \<le> n \<and> n \<le> 57 then digits_val (10 * acc + (n - 48)) cs else None)"

definition parse_int64 :: "string \<Rightarrow> int option" where
  "parse_int64 s =
     (let (neg, ds) = (case s of
          [] \<Rightarrow> (False, [])
        | c # cs \<Rightarrow> if c = CHR ''-'' then (True, cs)
                    else if c = CHR ''+'' then (False, cs) else (False, c # cs))
      in if ds = [] then None
         else case digits_val 0 ds of
           None \<Rightarrow> None
         | Some n \<Rightarrow>
             if \<not> neg \<and> 2 ^ 63 \<le> int n then None
             else if neg \<and> 2 ^ 63 < int n then None
             else Some (if neg then - int n else int n))"

lemma parse_int64_range: "parse_int64 s = Some n \<Longrightarrow> - (2 ^ 63) \<le> n \<and> n < 2 ^ 63"
  by (auto simp: parse_int64_def Let_def split: if_splits option.splits prod.splits list.splits)

text \<open>\<open>strconv.Itoa\<close>, and \<open>HasPrefix\<close>/\<open>TrimPrefix\<close>.\<close>

fun nat_digits :: "nat \<Rightarrow> string" where
  "nat_digits n = (if n < 10 then [char_of (48 + n)] else nat_digits (n div 10) @ [char_of (48 + n mod 10)])"

declare nat_digits.simps [simp del]

definition itoa :: "int \<Rightarrow> string" where
  "itoa i = (if i < 0 then CHR ''-'' # nat_digits (nat (- i)) else nat_digits (nat i))"

fun strip_prefix :: "string \<Rightarrow> string \<Rightarrow> string option" where
  "strip_prefix [] s = Some s"
| "strip_prefix (p # ps) [] = None"
| "strip_prefix (p # ps) (c # cs) = (if p = c then strip_prefix ps cs else None)"

lemma strip_prefix_Some: "strip_prefix p s = Some t \<longleftrightarrow> s = p @ t"
  by (induction p s rule: strip_prefix.induct) auto

text \<open>\<open>strings.Split\<close> on one character.\<close>

fun split_char :: "char \<Rightarrow> string \<Rightarrow> string list" where
  "split_char sep [] = [[]]"
| "split_char sep (c # cs) =
     (if c = sep then [] # split_char sep cs
      else case split_char sep cs of [] \<Rightarrow> [[c]] | w # ws \<Rightarrow> (c # w) # ws)"

lemma split_char_none: "c \<notin> set xs \<Longrightarrow> split_char c xs = [xs]"
  by (induction xs) auto

lemma split_char_append: "c \<notin> set xs \<Longrightarrow> split_char c (xs @ c # ys) = xs # split_char c ys"
  by (induction xs) auto

lemma digits_val_append:
  "digits_val acc (xs @ ys) = (case digits_val acc xs of None \<Rightarrow> None | Some n \<Rightarrow> digits_val n ys)"
  by (induction xs arbitrary: acc) (auto simp: Let_def)

lemma digits_val_digits: "digits_val 0 (nat_digits n) = Some n"
proof (induction n rule: nat_digits.induct)
  case (1 n)
  show ?case
  proof (cases "n < 10")
    case True
    then show ?thesis by (simp add: nat_digits.simps [of n] Let_def)
  next
    case False
    with 1 show ?thesis by (simp add: nat_digits.simps [of n] digits_val_append Let_def)
  qed
qed

lemma nat_digits_inj: "nat_digits m = nat_digits n \<Longrightarrow> m = n"
  by (metis digits_val_digits option.inject)

lemma nat_digits_no_colon: "CHR '':'' \<notin> set (nat_digits n)"
proof (induction n rule: nat_digits.induct)
  case (1 n)
  have "(char_of (48 + k) :: char) \<noteq> CHR '':''" if "k < (10::nat)" for k
  proof
    assume "(char_of (48 + k) :: char) = CHR '':''"
    then have "(of_char (char_of (48 + k) :: char) :: nat) = of_char (CHR '':'')" by simp
    with that show False by simp
  qed
  note digit = this
  show ?case
  proof (cases "n < 10")
    case True
    then show ?thesis using digit [of n] by (simp add: nat_digits.simps [of n])
  next
    case False
    with 1 show ?thesis using digit [of "n mod 10"] by (simp add: nat_digits.simps [of n])
  qed
qed

lemma itoa_pos: "0 \<le> i \<Longrightarrow> itoa i = nat_digits (nat i)"
  by (simp add: itoa_def)

lemma itoa_inj: "0 \<le> i \<Longrightarrow> 0 \<le> j \<Longrightarrow> itoa i = itoa j \<Longrightarrow> i = j"
  by (auto simp: itoa_pos dest: nat_digits_inj)

text \<open>A suffix without the separator determines where it starts.\<close>

lemma last_separator_unique:
  assumes "xs @ c # us = ys @ c # vs" and "c \<notin> set us" and "c \<notin> set vs"
  shows "xs = ys \<and> us = vs"
proof -
  have tw: "takeWhile (\<lambda>x. x \<noteq> c) (rev (zs @ c # ws)) = rev ws" if "c \<notin> set ws" for zs ws
    using that by (subst rev_append, simp, subst takeWhile_append2) auto
  note t = tw [OF assms(2), of xs] and t' = tw [OF assms(3), of ys]
  from t t' assms(1) have "us = vs" by (metis rev_rev_ident)
  with assms(1) show ?thesis by simp
qed

section \<open>Finite binary64 values\<close>

text \<open>
  \<open>F64 m k\<close> is the finite float \<open>m / 2 ^ k\<close>. Conversions and products are rounded to 53
  significant bits, ties to even, as IEEE 754 binary64 does away from its overflow range
  (the numerators below are 64-bit limits, so no product of the model reaches it).
\<close>

datatype f64 = F64 int nat

fun f64_pos :: "f64 \<Rightarrow> bool" where "f64_pos (F64 m k) = (0 < m)"
fun f64_lt_one :: "f64 \<Rightarrow> bool" where "f64_lt_one (F64 m k) = (m < 2 ^ k)"
fun f64_le :: "f64 \<Rightarrow> f64 \<Rightarrow> bool" where
  "f64_le (F64 m k) (F64 m' k') = (m * 2 ^ k' \<le> m' * 2 ^ k)"

fun bit_len :: "nat \<Rightarrow> nat" where
  "bit_len n = (if n = 0 then 0 else Suc (bit_len (n div 2)))"

declare bit_len.simps [simp del]

definition round_nat :: "nat \<Rightarrow> nat" where
  "round_nat n =
     (let l = bit_len n in
      if l \<le> 53 then n
      else let s = l - 53; q = n div 2 ^ s; r = n mod 2 ^ s in
           (if 2 ^ (s - 1) < r \<or> (r = 2 ^ (s - 1) \<and> odd q) then q + 1 else q) * 2 ^ s)"

definition round53 :: "int \<Rightarrow> int" where
  "round53 n = sgn n * int (round_nat (nat \<bar>n\<bar>))"

text \<open>\<open>int64(math.Ceil(float64(limit) * f))\<close>.\<close>

fun ceil_product :: "int \<Rightarrow> f64 \<Rightarrow> int" where
  "ceil_product limit (F64 m k) = - ((- round53 (round53 limit * m)) div 2 ^ k)"

lemma bit_len_bounds: "0 < n \<Longrightarrow> 2 ^ (bit_len n - 1) \<le> n \<and> n < 2 ^ bit_len n"
proof (induction n rule: bit_len.induct)
  case (1 n)
  show ?case
  proof (cases "n div 2 = 0")
    case True
    with "1.prems" have "n = 1" by auto
    then show ?thesis by (simp add: bit_len.simps)
  next
    case False
    then have pos: "0 < n div 2" by simp
    then obtain l where l: "bit_len (n div 2) = Suc l"
      by (subst (asm) bit_len.simps [of "n div 2"]) (auto simp: bit_len.simps [of "n div 2"])
    from "1.IH" "1.prems" pos l have "2 ^ l \<le> n div 2" "n div 2 < 2 ^ Suc l" by auto
    moreover from "1.prems" l have "bit_len n = Suc (Suc l)" by (simp add: bit_len.simps [of n])
    ultimately show ?thesis by auto
  qed
qed

lemma bit_len_mono: "m \<le> n \<Longrightarrow> bit_len m \<le> bit_len n"
proof (cases "m = 0")
  case False
  assume le: "m \<le> n"
  with False have "2 ^ (bit_len m - 1) \<le> m" "n < 2 ^ bit_len n"
    using bit_len_bounds by simp_all
  with le have "(2::nat) ^ (bit_len m - 1) < 2 ^ bit_len n" by linarith
  then show ?thesis by simp
qed (simp add: bit_len.simps)

text \<open>Rounding keeps the binade of its argument and is monotone.\<close>

lemma round_quotient_mono:
  fixes a b h t :: nat
  assumes "a \<le> b"
  defines "up \<equiv> \<lambda>n. if h < n mod t \<or> (n mod t = h \<and> odd (n div t)) then n div t + 1 else n div t"
  shows "up a \<le> up b"
proof (cases "a div t = b div t")
  case True
  have "a mod t \<le> b mod t"
    using assms(1) True by (metis add_le_cancel_left mult_div_mod_eq)
  with True show ?thesis by (auto simp: up_def)
next
  case False
  with assms(1) have "a div t + 1 \<le> b div t" using div_le_mono [of a b t] by simp
  then show ?thesis by (auto simp: up_def)
qed

lemma round_nat_large:
  assumes "53 < bit_len n"
  shows "2 ^ (bit_len n - 1) \<le> round_nat n \<and> round_nat n \<le> 2 ^ bit_len n"
proof -
  define s where "s = bit_len n - 53"
  from assms have pos: "0 < n" by (auto simp: bit_len.simps [of n] split: if_splits)
  from bit_len_bounds [OF pos] assms have
    lo: "2 ^ (52 + s) \<le> n" and hi: "n < 2 ^ (53 + s)" by (auto simp: s_def)
  have "2 ^ 52 \<le> n div 2 ^ s"
    using div_le_mono [OF lo, of "2 ^ s"] by (simp add: power_add)
  moreover have "n div 2 ^ s < 2 ^ 53"
    using hi by (simp add: power_add less_mult_imp_div_less)
  moreover have "round_nat n = (n div 2 ^ s) * 2 ^ s \<or> round_nat n = (n div 2 ^ s + 1) * 2 ^ s"
    using assms by (auto simp: round_nat_def Let_def s_def)
  ultimately have "2 ^ 52 * 2 ^ s \<le> round_nat n" "round_nat n \<le> 2 ^ 53 * 2 ^ s"
    by (auto intro: mult_right_mono simp: less_eq_Suc_le)
  moreover have "bit_len n - 1 = 52 + s" "bit_len n = 53 + s" using assms by (auto simp: s_def)
  ultimately show ?thesis by (simp add: power_add)
qed

lemma round_nat_small: "bit_len n \<le> 53 \<Longrightarrow> round_nat n = n"
  by (simp add: round_nat_def)

lemma round_nat_mono: "m \<le> n \<Longrightarrow> round_nat m \<le> round_nat n"
proof -
  assume le: "m \<le> n"
  then have bl: "bit_len m \<le> bit_len n" by (rule bit_len_mono)
  show ?thesis
  proof (cases "bit_len n \<le> 53")
    case True
    with bl le show ?thesis by (simp add: round_nat_small)
  next
    case False
    show ?thesis
    proof (cases "bit_len m = bit_len n")
      case True
      let ?s = "bit_len n - 53"
      have "(if 2 ^ (?s - 1) < m mod 2 ^ ?s \<or> (m mod 2 ^ ?s = 2 ^ (?s - 1) \<and> odd (m div 2 ^ ?s))
              then m div 2 ^ ?s + 1 else m div 2 ^ ?s)
          \<le> (if 2 ^ (?s - 1) < n mod 2 ^ ?s \<or> (n mod 2 ^ ?s = 2 ^ (?s - 1) \<and> odd (n div 2 ^ ?s))
              then n div 2 ^ ?s + 1 else n div 2 ^ ?s)"
        by (rule round_quotient_mono [OF le])
      with True False show ?thesis
        by (simp add: round_nat_def Let_def del: mult_Suc)
    next
      case ne: False
      with bl have lt: "bit_len m \<le> bit_len n - 1" by simp
      have "round_nat m \<le> 2 ^ bit_len m"
      proof (cases "bit_len m \<le> 53")
        case True
        then show ?thesis
          using bit_len_bounds [of m] by (cases "m = 0") (auto simp: round_nat_small)
      next
        case False
        then show ?thesis using round_nat_large [of m] by simp
      qed
      also have "\<dots> \<le> 2 ^ (bit_len n - 1)" using lt by simp
      also have "\<dots> \<le> round_nat n" using round_nat_large [of n] False by simp
      finally show ?thesis .
    qed
  qed
qed

lemma bit_len_shift: "0 < n \<Longrightarrow> bit_len (n * 2 ^ j) = bit_len n + j"
proof (induction j)
  case (Suc j)
  then have "bit_len (n * 2 ^ Suc j) = Suc (bit_len (n * 2 ^ j))"
    by (subst bit_len.simps) (simp add: mult.left_commute)
  with Suc show ?case by simp
qed simp

lemma round_nat_shift: "round_nat (n * 2 ^ j) = round_nat n * 2 ^ j"
proof (cases "n = 0 \<or> bit_len n \<le> 53")
  case small: True
  show ?thesis
  proof (cases "n = 0 \<or> bit_len n + j \<le> 53")
    case True
    with small show ?thesis
      by (cases "n = 0") (simp_all add: round_nat_small bit_len_shift bit_len.simps [of 0])
  next
    case False
    let ?s = "bit_len n + j - 53"
    from False small have "?s \<le> j" by simp
    then obtain d where d: "j = ?s + d" using le_Suc_ex by blast
    have "n * 2 ^ j = (n * 2 ^ d) * 2 ^ ?s"
      by (subst d) (simp add: power_add ac_simps)
    then have "2 ^ ?s dvd n * 2 ^ j" by (metis dvd_triv_right)
    then have "(n * 2 ^ j) mod 2 ^ ?s = 0" "(n * 2 ^ j) div 2 ^ ?s * 2 ^ ?s = n * 2 ^ j"
      by simp_all
    with False small show ?thesis
      by (simp add: round_nat_def Let_def bit_len_shift)
  qed
next
  case False
  define s where "s = bit_len n - 53"
  have bl: "bit_len n = 53 + s" and s0: "0 < s" and n0: "0 < n"
    using False by (auto simp: s_def)
  from s0 obtain t where t: "s = Suc t" by (cases s) auto
  have md: "(n * 2 ^ j) mod (2 * 2 ^ (t + j)) = (n mod (2 * 2 ^ t)) * 2 ^ j"
    by (simp add: power_add mult_mod_left mult.assoc)
  have dv: "(n * 2 ^ j) div (2 * 2 ^ (t + j)) = n div (2 * 2 ^ t)"
    by (simp add: power_add flip: mult.assoc)
  have h: "(2::nat) ^ (t + j) < m * 2 ^ j \<longleftrightarrow> 2 ^ t < m"
    "m * 2 ^ j = 2 ^ (t + j) \<longleftrightarrow> m = 2 ^ t" for m
    by (simp_all add: power_add)
  have "bit_len (n * 2 ^ j) = 54 + (t + j)" using bl n0 t by (simp add: bit_len_shift)
  then have "round_nat (n * 2 ^ j) =
      (if 2 ^ t < n mod (2 * 2 ^ t) \<or> (n mod (2 * 2 ^ t) = 2 ^ t \<and> odd (n div (2 * 2 ^ t)))
       then n div (2 * 2 ^ t) + 1 else n div (2 * 2 ^ t)) * (2 * 2 ^ (t + j))"
    by (simp add: round_nat_def Let_def md dv h)
  also have "\<dots> = round_nat n * 2 ^ j"
    using bl t by (simp add: round_nat_def Let_def power_add)
  finally show ?thesis .
qed

lemma round53_nonneg: "0 \<le> n \<Longrightarrow> round53 n = int (round_nat (nat n))"
  by (cases "n = 0") (simp_all add: round53_def round_nat_def bit_len.simps)

lemma ceil_div_mono:
  fixes a b :: int
  assumes "a * 2 ^ j \<le> b * 2 ^ k"
  shows "- ((- a) div 2 ^ k) \<le> - ((- b) div 2 ^ j)"
proof -
  have "(- b) div 2 ^ j = ((- b) * 2 ^ k) div (2 ^ j * 2 ^ k)"
    by (subst div_mult_mult2) simp_all
  also have "\<dots> \<le> ((- a) * 2 ^ j) div (2 ^ j * 2 ^ k)"
    using assms by (intro zdiv_mono1) auto
  also have "\<dots> = ((- a) * 2 ^ j) div (2 ^ k * 2 ^ j)" by (simp only: mult.commute)
  also have "\<dots> = (- a) div 2 ^ k" by (subst div_mult_mult2) simp_all
  finally show ?thesis by simp
qed

text \<open>A larger fraction of the same limit has at least as large a ceiling, rounding included.\<close>

lemma ceil_product_mono:
  assumes "0 \<le> limit" "f64_pos f" "f64_le f g"
  shows "ceil_product limit f \<le> ceil_product limit g"
proof -
  obtain m k m' k' where fg: "f = F64 m k" "g = F64 m' k'" by (cases f, cases g) auto
  define l where "l = round53 limit"
  have l0: "0 \<le> l" using assms(1) by (simp add: l_def round53_nonneg)
  from assms fg have m0: "0 < m" and le: "m * 2 ^ k' \<le> m' * 2 ^ k" by auto
  have "0 < m' * 2 ^ k" using m0 le by (smt (verit) mult_pos_pos zero_less_power)
  then have m0': "0 < m'" by (simp add: zero_less_mult_iff)
  have "l * m * 2 ^ k' \<le> l * m' * 2 ^ k"
    using mult_left_mono [OF le l0] by (simp add: ac_simps)
  then have "int (nat (l * m) * 2 ^ k') \<le> int (nat (l * m') * 2 ^ k)"
    using l0 m0 m0' by simp
  then have "nat (l * m) * 2 ^ k' \<le> nat (l * m') * 2 ^ k"
    by (simp only: of_nat_le_iff)
  then have "round_nat (nat (l * m)) * 2 ^ k' \<le> round_nat (nat (l * m')) * 2 ^ k"
    using round_nat_mono by (simp flip: round_nat_shift)
  then have "int (round_nat (nat (l * m)) * 2 ^ k') \<le> int (round_nat (nat (l * m')) * 2 ^ k)"
    by (simp only: of_nat_le_iff)
  then have "round53 (l * m) * 2 ^ k' \<le> round53 (l * m') * 2 ^ k"
    using l0 m0 m0' by (simp add: round53_nonneg)
  from ceil_div_mono [OF this] show ?thesis by (simp add: fg l_def)
qed

lemma ceil_product_nonneg: "0 \<le> limit \<Longrightarrow> f64_pos f \<Longrightarrow> 0 \<le> ceil_product limit f"
  by (cases f) (auto simp: round53_nonneg div_nonpos_pos_le0)

section \<open>Merging observations\<close>

text \<open>
  Several components fold observations that may arrive in any order and more than once into
  one stored value (rate-limit headers, backoff deadlines, coalesced schedules). The contract
  such a merge has to satisfy, on the values the callers build, is that of a semilattice; the
  fold then depends on the set of observations only.
\<close>

locale observation_merge =
  fixes merge :: "'a \<Rightarrow> 'a \<Rightarrow> 'a"
    and valid :: "'a \<Rightarrow> bool"
  assumes merge_closed: "valid x \<Longrightarrow> valid y \<Longrightarrow> valid (merge x y)"
    and merge_idem: "valid x \<Longrightarrow> merge x x = x"
    and merge_comm: "valid x \<Longrightarrow> valid y \<Longrightarrow> merge x y = merge y x"
    and merge_assoc: "valid x \<Longrightarrow> valid y \<Longrightarrow> valid z \<Longrightarrow>
      merge (merge x y) z = merge x (merge y z)"
begin

lemma foldl_valid: "valid a \<Longrightarrow> list_all valid xs \<Longrightarrow> valid (foldl merge a xs)"
  by (induction xs arbitrary: a) (auto simp: merge_closed)

lemma foldl_absorbs_start:
  "valid a \<Longrightarrow> list_all valid xs \<Longrightarrow> merge a (foldl merge a xs) = foldl merge a xs"
proof (induction xs arbitrary: a)
  case Nil
  then show ?case by (simp add: merge_idem)
next
  case (Cons x xs)
  then have v: "valid a" "valid x" "valid (merge a x)" "list_all valid xs"
    by (auto simp: merge_closed)
  let ?f = "foldl merge (merge a x) xs"
  have vf: "valid ?f" using v by (simp add: foldl_valid)
  have "merge a ?f = merge a (merge (merge a x) ?f)" using Cons.IH [OF v(3,4)] by simp
  also have "\<dots> = merge (merge a (merge a x)) ?f" using v vf by (simp add: merge_assoc)
  also have "merge a (merge a x) = merge a x"
    using v by (simp add: merge_idem flip: merge_assoc)
  finally show ?case using Cons.IH [OF v(3,4)] by simp
qed

lemma foldl_absorbs_member:
  "valid a \<Longrightarrow> list_all valid xs \<Longrightarrow> x \<in> set xs \<Longrightarrow>
   merge x (foldl merge a xs) = foldl merge a xs"
proof (induction xs arbitrary: a)
  case (Cons y ys)
  then have v: "valid a" "valid y" "valid (merge a y)" "list_all valid ys"
    by (auto simp: merge_closed)
  show ?case
  proof (cases "x \<in> set ys")
    case True
    with Cons.IH [OF v(3,4)] show ?thesis by simp
  next
    case False
    with Cons.prems have x: "x = y" by simp
    let ?f = "foldl merge (merge a y) ys"
    have vf: "valid ?f" using v by (simp add: foldl_valid)
    have f: "merge (merge a y) ?f = ?f" using v by (simp add: foldl_absorbs_start)
    have "merge y ?f = merge y (merge (merge a y) ?f)" using f by simp
    also have "\<dots> = merge (merge y (merge a y)) ?f" using v vf by (simp add: merge_assoc)
    also have "merge y (merge a y) = merge a y"
      using v by (metis merge_assoc merge_comm merge_idem)
    finally show ?thesis using f x by simp
  qed
qed simp

lemma foldl_least:
  "valid a \<Longrightarrow> list_all valid xs \<Longrightarrow> valid u \<Longrightarrow> merge a u = u \<Longrightarrow>
   (\<And>x. x \<in> set xs \<Longrightarrow> merge x u = u) \<Longrightarrow> merge (foldl merge a xs) u = u"
proof (induction xs arbitrary: a)
  case (Cons y ys)
  then have v: "valid a" "valid y" "valid (merge a y)" "list_all valid ys"
    by (auto simp: merge_closed)
  have "merge (merge a y) u = merge a (merge y u)" using v Cons.prems by (simp add: merge_assoc)
  also have "\<dots> = u" using Cons.prems by simp
  finally have "merge (foldl merge (merge a y) ys) u = u"
    using Cons.IH [OF v(3,4)] Cons.prems by simp
  then show ?case by simp
qed simp

text \<open>Neither the order nor the multiplicity of the observations matters.\<close>

lemma foldl_absorbs:
  "valid a \<Longrightarrow> list_all valid xs \<Longrightarrow> x \<in> insert a (set xs) \<Longrightarrow> merge x (foldl merge a xs) = foldl merge a xs"
  using foldl_absorbs_member [of a xs x] foldl_absorbs_start [of a xs] by auto

lemma foldl_members_determined:
  assumes "valid a" "valid b" "list_all valid xs" "list_all valid ys"
    and "insert a (set xs) = insert b (set ys)"
  shows "foldl merge a xs = foldl merge b ys"
proof -
  let ?x = "foldl merge a xs" and ?y = "foldl merge b ys"
  have v: "valid ?x" "valid ?y" using assms by (simp_all add: foldl_valid)
  have m: "z \<in> insert b (set ys)" if "z \<in> insert a (set xs)" for z using that assms(5) by blast
  have m': "z \<in> insert a (set xs)" if "z \<in> insert b (set ys)" for z using that assms(5) by blast
  have "merge ?x ?y = ?y"
    by (rule foldl_least) (use assms(1-4) v m foldl_absorbs [of b ys] in auto)
  moreover have "merge ?y ?x = ?x"
    by (rule foldl_least) (use assms(1-4) v m' foldl_absorbs [of a xs] in auto)
  ultimately show ?thesis using merge_comm v by metis
qed

lemma foldl_set_determined:
  assumes "valid a" "list_all valid xs" "list_all valid ys" "set xs = set ys"
  shows "foldl merge a xs = foldl merge a ys"
  by (rule foldl_members_determined) (use assms in simp_all)

end

text \<open>Optional deadlines merge to the earliest, as the SQL \<open>CASE ... LEAST\<close> of the upserts does.\<close>

fun opt_earliest :: "gotime option \<Rightarrow> gotime option \<Rightarrow> gotime option" where
  "opt_earliest stored None = stored"
| "opt_earliest None (Some x) = Some x"
| "opt_earliest (Some s) (Some x) = Some (min s x)"

interpretation earliest: observation_merge opt_earliest "\<lambda>_. True"
proof
  fix x y z :: "gotime option"
  show "opt_earliest x x = x" by (cases x) auto
  show "opt_earliest x y = opt_earliest y x" by (cases x; cases y) auto
  show "opt_earliest (opt_earliest x y) z = opt_earliest x (opt_earliest y z)"
    by (cases x; cases y; cases z) auto
qed simp

section \<open>Sums over finite maps\<close>

definition map_sum :: "('v \<Rightarrow> int) \<Rightarrow> ('k \<rightharpoonup> 'v) \<Rightarrow> int" where
  "map_sum f m = (\<Sum>k \<in> dom m. f (the (m k)))"

lemma map_sum_empty [simp]: "map_sum f Map.empty = 0"
  by (simp add: map_sum_def)

lemma map_sum_insert:
  assumes "finite (dom m)" "m k = None"
  shows "map_sum f (m(k \<mapsto> v)) = map_sum f m + f v"
proof -
  from assms(2) have k: "k \<notin> dom m" by auto
  then have "(\<Sum>i \<in> dom m. f (the ((m(k \<mapsto> v)) i))) = map_sum f m"
    unfolding map_sum_def by (intro sum.cong) auto
  with assms k show ?thesis by (simp add: map_sum_def)
qed

lemma map_sum_delete:
  assumes "finite (dom m)" "m k = Some v"
  shows "map_sum f (m(k := None)) = map_sum f m - f v"
proof -
  have "(m(k := None)) k = None" by simp
  moreover have "(m(k := None))(k \<mapsto> v) = m" using assms(2) by auto
  ultimately show ?thesis using map_sum_insert [of "m(k := None)" k f v] assms(1) by simp
qed

lemma map_sum_nonneg: "(\<And>k v. m k = Some v \<Longrightarrow> 0 \<le> f v) \<Longrightarrow> 0 \<le> map_sum f m"
  unfolding map_sum_def by (intro sum_nonneg) auto

end
