(* ===== verification/Attribution.thy ===== *)
theory Attribution
  imports Prelude
begin

text \<open>
  \<open>src/internal/budget/types.go\<close> and \<open>attribution.go\<close>: the vocabulary of the budget gate
  (classes, credential contexts, resources, requests) and the reduction of a request to its
  cardinality-bounded endpoint family.

  The Go types are strings with a \<open>valid\<close> method; each datatype has one constructor per
  constant of the source and one for every other string.
\<close>

datatype Class = Interactive | Event | Sweep | OtherClass string
datatype AuthContext = InstallationAuth | AppJWTAuth | OtherAuth string
datatype Resource = REST | GraphQL | OtherResource string

fun class_valid :: "Class \<Rightarrow> bool" where
  "class_valid (OtherClass _) = False"
| "class_valid _ = True"

fun auth_valid :: "AuthContext \<Rightarrow> bool" where
  "auth_valid (OtherAuth _) = False"
| "auth_valid _ = True"

fun resource_valid :: "Resource \<Rightarrow> bool" where
  "resource_valid (OtherResource _) = False"
| "resource_valid _ = True"

text \<open>
  The HTTP request as far as the gate reads it: the URL path and the \<open>If-None-Match\<close> header.
  \<open>rq_observe\<close> says whether a GraphQL rate observer is installed.
\<close>

record http_request =
  hr_path :: string
  hr_if_none_match :: string

record Request =
  rq_http :: "http_request option"
  rq_resource :: Resource
  rq_auth :: AuthContext
  rq_observe :: bool
  rq_mint :: bool

definition NewInstallationRESTRequest :: "http_request option \<Rightarrow> Request" where
  "NewInstallationRESTRequest req = \<lparr>rq_http = req, rq_resource = REST,
     rq_auth = InstallationAuth, rq_observe = False, rq_mint = False\<rparr>"

definition NewRESTRequest :: "http_request option \<Rightarrow> Request" where
  "NewRESTRequest req = NewInstallationRESTRequest req"

definition NewAppRESTRequest :: "http_request option \<Rightarrow> Request" where
  "NewAppRESTRequest req = \<lparr>rq_http = req, rq_resource = REST,
     rq_auth = AppJWTAuth, rq_observe = False, rq_mint = False\<rparr>"

definition NewGraphQLRequest :: "http_request option \<Rightarrow> bool \<Rightarrow> Request" where
  "NewGraphQLRequest req observer = \<lparr>rq_http = req, rq_resource = GraphQL,
     rq_auth = InstallationAuth, rq_observe = observer, rq_mint = False\<rparr>"

definition NewAuthRequest :: "http_request option \<Rightarrow> Request" where
  "NewAuthRequest req = \<lparr>rq_http = req, rq_resource = REST,
     rq_auth = AppJWTAuth, rq_observe = False, rq_mint = True\<rparr>"

section \<open>Endpoint families\<close>

text \<open>\<open>strings.FieldsFunc(path, func(r) r == '/')\<close>: maximal runs without a slash.\<close>

fun fields_slash :: "string \<Rightarrow> string \<Rightarrow> string list" where
  "fields_slash cur [] = (if cur = [] then [] else [rev cur])"
| "fields_slash cur (c # cs) =
     (if c = CHR ''/'' then (if cur = [] then fields_slash [] cs else rev cur # fields_slash [] cs)
      else fields_slash (c # cur) cs)"

fun api_v3_tail :: "string list \<Rightarrow> string list option" where
  "api_v3_tail (a # b # c # rest) =
     (if a = ''api'' \<and> b = ''v3'' \<and> (c = ''repos'' \<or> c = ''app'' \<or> c = ''installation'')
      then Some (c # rest) else api_v3_tail (b # c # rest))"
| "api_v3_tail segs = None"

definition githubAPISegments :: "string list \<Rightarrow> string list" where
  "githubAPISegments segs = (case api_v3_tail segs of None \<Rightarrow> segs | Some t \<Rightarrow> t)"

fun hasSegmentPrefix :: "string list \<Rightarrow> string list \<Rightarrow> bool" where
  "hasSegmentPrefix segs [] = True"
| "hasSegmentPrefix [] (w # ws) = False"
| "hasSegmentPrefix (s # segs) (w # ws) = (s = w \<and> hasSegmentPrefix segs ws)"

definition repo_endpoint :: "string list \<Rightarrow> string" where
  "repo_endpoint tail =
     (case tail of
        [] \<Rightarrow> ''repository_metadata''
      | t # rest \<Rightarrow>
          if t = ''rulesets'' then ''repository_rules''
          else if t = ''stacks'' then ''stacks''
          else if t = ''pulls'' then
            (if rest = [] then ''pull_request_list''
             else if 2 \<le> length rest \<and> rest ! 1 = ''files'' then ''pull_request_files''
             else ''pull_request_metadata'')
          else if t = ''contents'' then ''repository_contents''
          else if t = ''commits'' \<and> 2 \<le> length rest \<and> rest ! 1 = ''check-runs'' then ''check_runs''
          else ''other'')"

definition requestAttribution :: "Request \<Rightarrow> http_request \<Rightarrow> AuthContext \<times> string" where
  "requestAttribution req httpReq =
     (let authContext = rq_auth req;
          segs0 = fields_slash [] (hr_path httpReq)
      in if rq_resource req = GraphQL then (authContext, ''graphql'')
         else let segs = githubAPISegments segs0 in
           if hasSegmentPrefix segs [''app'', ''hook'', ''deliveries'']
             then (authContext, ''app_hook_deliveries'')
           else if 4 \<le> length segs \<and> hasSegmentPrefix segs [''app'', ''installations'']
               \<and> segs ! 3 = ''access_tokens''
             then (authContext, ''installation_tokens'')
           else if hasSegmentPrefix segs [''installation'', ''repositories'']
             then (authContext, ''installation_repositories'')
           else if length segs < 3 \<or> segs ! 0 \<noteq> ''repos'' then (authContext, ''other'')
           else (authContext, repo_endpoint (drop 3 segs)))"

definition endpoint_families :: "string list" where
  "endpoint_families =
     [''other'', ''graphql'', ''installation_repositories'', ''repository_metadata'',
      ''repository_rules'', ''stacks'', ''pull_request_list'', ''pull_request_metadata'',
      ''pull_request_files'', ''repository_contents'', ''check_runs'', ''app_hook_deliveries'',
      ''installation_tokens'']"

lemma repo_endpoint_family: "repo_endpoint tail \<in> set endpoint_families"
  unfolding repo_endpoint_def endpoint_families_def
  by (cases tail) (simp_all split: if_split)

lemma requestAttribution_family: "snd (requestAttribution req httpReq) \<in> set endpoint_families"
  using repo_endpoint_family
  unfolding requestAttribution_def Let_def
  by (auto simp: endpoint_families_def)

end
