(* ===== verification/Budget_Gate.thy ===== *)
theory Budget_Gate
  imports Attribution
begin

text \<open>
  \<open>src/internal/budget/gate.go\<close>: the per-installation choke point every GitHub request passes.
  The \<open>Gate\<close> record has the fields of the struct that a decision reads or writes; the
  \<open>changed\<close> channel is a version number that \<open>signalLocked\<close> advances (closing the channel and
  making a new one). Every operation that holds \<open>g.mu\<close> is one function on the record, so the
  step relation \<open>gate_step\<close>, one rule per critical section, has the interleavings of the
  program. Contexts, tracing, the HTTP transport and response bodies are inputs: a call takes
  what the environment answered (\<open>exchange\<close>) as an argument.
\<close>

section \<open>State\<close>

record ResourceBudget =
  rb_known :: bool
  rb_limit :: int
  rb_remaining :: int
  rb_reset :: gotime

record GraphQLRate =
  gr_cost :: int
  gr_limit :: int
  gr_remaining :: int
  gr_reset :: gotime

record Snapshot =
  sn_rest :: ResourceBudget
  sn_app :: ResourceBudget
  sn_graphql :: ResourceBudget
  sn_backoff :: gotime
  sn_app_backoff :: gotime
  sn_inflight :: int

record Starvation =
  st_class :: Class
  st_resource :: Resource
  st_auth :: AuthContext
  st_remaining :: int
  st_limit :: int
  st_reset :: gotime

record RequestObservation =
  ro_class :: Class
  ro_resource :: Resource
  ro_auth :: AuthContext
  ro_endpoint :: string
  ro_status :: int
  ro_conditional :: bool
  ro_not_modified :: bool
  ro_err :: "gerror option"

record Options =
  op_maxConcurrent :: int
  op_restLimit :: int
  op_graphqlLimit :: int
  op_sweepFloor :: f64
  op_eventFloor :: f64
  op_restEstimate :: int
  op_graphqlEstimate :: int
  op_fallback :: duration

record admission =
  ad_id :: nat
  ad_resource :: Resource
  ad_auth :: AuthContext
  ad_cost :: int
  ad_holds :: bool

text \<open>
  The lease runtime of \<open>lease.go\<close>; \<open>lr_cancelled\<close> is that \<open>cancel\<close> was called, \<open>lr_updates\<close> the
  one-element channel \<open>expiryUpdates\<close>.
\<close>

record leaseRuntime =
  lr_installation :: int
  lr_owner :: string
  lr_token :: string
  lr_ttl :: duration
  lr_renew :: duration
  lr_snapshot :: duration
  lr_timeout :: duration
  lr_cancelled :: bool
  lr_expiry :: gotime
  lr_updates :: "gotime option"

record Gate =
  inFlight :: int
  maxConcurrent :: int
  rest :: ResourceBudget
  appREST :: ResourceBudget
  graphql :: ResourceBudget
  restReserved :: int
  appRESTReserved :: int
  graphqlReserved :: int
  restEstimate :: int
  graphqlEstimate :: int
  sweepFloor :: f64
  eventFloor :: f64
  backoffUntil :: gotime
  appJWTBackoffUntil :: gotime
  secondaryLimitFallback :: duration
  unavailable :: "gerror option"
  leaseUntil :: gotime
  nextAdmissionID :: nat
  admissions :: "nat \<rightharpoonup> admission"
  lease :: "leaseRuntime option"
  changed :: nat

section \<open>Construction\<close>

text \<open>
  The float64 literals \<open>0.20\<close> and \<open>0.10\<close>: the binary64 value nearest to each.
\<close>

definition defaultSweepFloor :: f64 where "defaultSweepFloor = F64 7205759403792794 55"
definition defaultEventFloor :: f64 where "defaultEventFloor = F64 7205759403792794 56"
definition defaultConcurrency :: int where "defaultConcurrency = 40"
definition defaultRESTLimit :: int where "defaultRESTLimit = 5000"
definition defaultGraphQLLimit :: int where "defaultGraphQLLimit = 5000"
definition defaultRESTEstimate :: int where "defaultRESTEstimate = 1"
definition defaultGraphQLEstimate :: int where "defaultGraphQLEstimate = 100"
definition defaultSecondaryBackoff :: duration where "defaultSecondaryBackoff = 60 * second"
definition secondaryBodyInspectSize :: nat where "secondaryBodyInspectSize = 65536"

definition zeroBudget :: ResourceBudget where
  "zeroBudget = \<lparr>rb_known = False, rb_limit = 0, rb_remaining = 0, rb_reset = 0\<rparr>"

definition floor_in_range :: "f64 \<Rightarrow> bool" where
  "floor_in_range f = (f64_pos f \<and> f64_lt_one f)"

definition normalize_floors :: "f64 \<Rightarrow> f64 \<Rightarrow> f64 \<times> f64" where
  "normalize_floors sweep event =
     (let sweep1 = (if floor_in_range sweep then sweep else defaultSweepFloor);
          event1 = (if floor_in_range event then event else defaultEventFloor)
      in if f64_le sweep1 event1 then (defaultSweepFloor, defaultEventFloor) else (sweep1, event1))"

definition New :: "Options \<Rightarrow> Gate" where
  "New opts =
     (let mc = (if op_maxConcurrent opts \<le> 0 then defaultConcurrency else op_maxConcurrent opts);
          rl = (if op_restLimit opts \<le> 0 then defaultRESTLimit else op_restLimit opts);
          gl = (if op_graphqlLimit opts \<le> 0 then defaultGraphQLLimit else op_graphqlLimit opts);
          (sw, ev) = normalize_floors (op_sweepFloor opts) (op_eventFloor opts);
          re = (if op_restEstimate opts \<le> 0 then defaultRESTEstimate else op_restEstimate opts);
          ge = (if op_graphqlEstimate opts \<le> 0 then defaultGraphQLEstimate else op_graphqlEstimate opts);
          fb = (if op_fallback opts \<le> 0 then defaultSecondaryBackoff else op_fallback opts)
      in \<lparr>inFlight = 0, maxConcurrent = mc,
          rest = zeroBudget\<lparr>rb_limit := rl\<rparr>,
          appREST = zeroBudget\<lparr>rb_limit := defaultRESTLimit\<rparr>,
          graphql = zeroBudget\<lparr>rb_limit := gl\<rparr>,
          restReserved = 0, appRESTReserved = 0, graphqlReserved = 0,
          restEstimate = re, graphqlEstimate = ge,
          sweepFloor = sw, eventFloor = ev,
          backoffUntil = 0, appJWTBackoffUntil = 0,
          secondaryLimitFallback = fb,
          unavailable = None, leaseUntil = 0,
          nextAdmissionID = 0, admissions = Map.empty, lease = None, changed = 0\<rparr>)"

section \<open>Accessors of the locked state\<close>

definition signalLocked :: "Gate \<Rightarrow> Gate" where
  "signalLocked g = g\<lparr>changed := Suc (changed g)\<rparr>"

definition cancelLease :: "Gate \<Rightarrow> Gate" where
  "cancelLease g = g\<lparr>lease := map_option (\<lambda>l. l\<lparr>lr_cancelled := True\<rparr>) (lease g)\<rparr>"

fun floorFor :: "Gate \<Rightarrow> Class \<Rightarrow> f64" where
  "floorFor g Sweep = sweepFloor g"
| "floorFor g Event = eventFloor g"
| "floorFor g _ = F64 0 0"

fun estimateLocked :: "Gate \<Rightarrow> Resource \<Rightarrow> int" where
  "estimateLocked g REST = restEstimate g"
| "estimateLocked g GraphQL = graphqlEstimate g"
| "estimateLocked g (OtherResource _) = 0"

definition reservedLocked :: "Gate \<Rightarrow> Resource \<Rightarrow> AuthContext \<Rightarrow> int" where
  "reservedLocked g res auth =
     (if res = GraphQL then graphqlReserved g
      else if res = REST \<and> auth = AppJWTAuth then appRESTReserved g
      else restReserved g)"

fun addReservationLocked :: "Resource \<Rightarrow> AuthContext \<Rightarrow> int \<Rightarrow> Gate \<Rightarrow> Gate" where
  "addReservationLocked REST auth d g =
     (if auth = AppJWTAuth then g\<lparr>appRESTReserved := appRESTReserved g + d\<rparr>
      else g\<lparr>restReserved := restReserved g + d\<rparr>)"
| "addReservationLocked GraphQL auth d g = g\<lparr>graphqlReserved := graphqlReserved g + d\<rparr>"
| "addReservationLocked (OtherResource _) auth d g = g"

definition resourceLocked :: "Gate \<Rightarrow> Resource \<Rightarrow> AuthContext \<Rightarrow> ResourceBudget" where
  "resourceLocked g res auth =
     (if res = GraphQL then graphql g
      else if res = REST \<and> auth = AppJWTAuth then appREST g
      else rest g)"

text \<open>Assignment through the pointer \<open>resourceLocked\<close> returns.\<close>

definition setResource :: "Resource \<Rightarrow> AuthContext \<Rightarrow> ResourceBudget \<Rightarrow> Gate \<Rightarrow> Gate" where
  "setResource res auth b g =
     (if res = GraphQL then g\<lparr>graphql := b\<rparr>
      else if res = REST \<and> auth = AppJWTAuth then g\<lparr>appREST := b\<rparr>
      else g\<lparr>rest := b\<rparr>)"

definition backoffLocked :: "Gate \<Rightarrow> AuthContext \<Rightarrow> gotime" where
  "backoffLocked g auth = (if auth = AppJWTAuth then appJWTBackoffUntil g else backoffUntil g)"

definition setBackoffLocked :: "AuthContext \<Rightarrow> gotime \<Rightarrow> Gate \<Rightarrow> Gate" where
  "setBackoffLocked auth until g =
     (if auth = AppJWTAuth then g\<lparr>appJWTBackoffUntil := until\<rparr> else g\<lparr>backoffUntil := until\<rparr>)"

section \<open>Admission\<close>

datatype admissionDecision =
    Admitted admission
  | WaitFor gotime nat "Starvation option"
  | Refused gerror

text \<open>
  \<open>validateDo\<close>: the nil checks are the \<open>bool\<close> and the \<open>option\<close>.
\<close>

definition validateDo :: "bool \<Rightarrow> Class \<Rightarrow> Request option \<Rightarrow> gerror option" where
  "validateDo ctx_nil cls req =
     (if ctx_nil then Some (ErrText ''budget gate: nil context'')
      else if \<not> class_valid cls then Some (ErrText ''budget gate: invalid class'')
      else case req of
        None \<Rightarrow> Some (ErrText ''budget gate: nil request'')
      | Some r \<Rightarrow>
          if rq_http r = None then Some (ErrText ''budget gate: nil request'')
          else if \<not> resource_valid (rq_resource r) then Some (ErrText ''budget gate: invalid resource'')
          else if \<not> auth_valid (rq_auth r) then Some (ErrText ''budget gate: invalid auth context'')
          else if rq_resource r = GraphQL \<and> rq_auth r \<noteq> InstallationAuth
            then Some (ErrText ''budget gate: GraphQL requires installation auth'')
          else if rq_mint r \<and> (rq_resource r \<noteq> REST \<or> rq_auth r \<noteq> AppJWTAuth)
            then Some (ErrText ''budget gate: token exchange requires App-JWT auth'')
          else if rq_resource r = GraphQL \<and> \<not> rq_observe r
            then Some (ErrText ''budget gate: GraphQL request has no rate observer'')
          else None)"

definition expireLease :: "gotime \<Rightarrow> Gate \<Rightarrow> Gate" where
  "expireLease now g =
     (if unavailable g = None \<and> \<not> isZero (leaseUntil g) \<and> \<not> now < leaseUntil g
      then signalLocked (cancelLease (g\<lparr>unavailable := Some ErrLeaseLost\<rparr>))
      else g)"

definition starved :: "gotime \<Rightarrow> Gate \<Rightarrow> Class \<Rightarrow> Resource \<Rightarrow> AuthContext \<Rightarrow> bool" where
  "starved now g cls res auth =
     (let state = resourceLocked g res auth;
          afterReservation = rb_remaining state - reservedLocked g res auth - estimateLocked g res;
          floor = floorFor g cls
      in rb_known state \<and> now < rb_reset state \<and>
         (afterReservation < 0 \<or>
          (f64_pos floor \<and> afterReservation < ceil_product (rb_limit state) floor)))"

definition reuseSlot :: "Gate \<Rightarrow> admission option \<Rightarrow> bool" where
  "reuseSlot g parent =
     (case parent of None \<Rightarrow> False
      | Some p \<Rightarrow> ad_holds p \<and> admissions g (ad_id p) = Some p)"

definition admitEntry :: "Gate \<Rightarrow> Resource \<Rightarrow> AuthContext \<Rightarrow> bool \<Rightarrow> Gate \<times> admission" where
  "admitEntry g res auth reuse =
     (let cost = estimateLocked g res;
          entry = \<lparr>ad_id = Suc (nextAdmissionID g), ad_resource = res, ad_auth = auth,
                   ad_cost = cost, ad_holds = \<not> reuse\<rparr>;
          g1 = g\<lparr>nextAdmissionID := Suc (nextAdmissionID g)\<rparr>;
          g2 = (if \<not> reuse then g1\<lparr>inFlight := inFlight g1 + 1\<rparr> else g1);
          g3 = addReservationLocked res auth cost g2
      in (g3\<lparr>admissions := (admissions g3)(ad_id entry \<mapsto> entry)\<rparr>, entry))"

definition tryAdmit :: "gotime \<Rightarrow> Class \<Rightarrow> Resource \<Rightarrow> AuthContext \<Rightarrow> admission option \<Rightarrow>
    Gate \<Rightarrow> Gate \<times> admissionDecision" where
  "tryAdmit now cls res auth parent g0 =
     (let reuse = reuseSlot g0 parent;
          g = expireLease now g0
      in case unavailable g of
           Some e \<Rightarrow> (g, Refused e)
         | None \<Rightarrow>
             let until = backoffLocked g auth in
             if now < until then (g, WaitFor until (changed g) None)
             else if \<not> reuse \<and> maxConcurrent g \<le> inFlight g then (g, WaitFor 0 (changed g) None)
             else if starved now g cls res auth then
               let state = resourceLocked g res auth in
               (g, WaitFor (rb_reset state) (changed g) (Some
                 \<lparr>st_class = cls, st_resource = res, st_auth = auth,
                  st_remaining = rb_remaining state - reservedLocked g res auth,
                  st_limit = rb_limit state, st_reset = rb_reset state\<rparr>))
             else let (g', entry) = admitEntry g res auth reuse in (g', Admitted entry))"

text \<open>
  \<open>finishAdmission\<close>; \<open>finish\<close> runs it at most once per admission (\<open>sync.Once\<close>), which the
  lookup in \<open>admissions\<close> repeats. \<open>cancelAdmissions\<close> aborts, hence finishes, every entry of the
  map it copied.
\<close>

definition finishAdmission :: "admission \<Rightarrow> Gate \<Rightarrow> Gate" where
  "finishAdmission a g =
     (case admissions g (ad_id a) of
        None \<Rightarrow> g
      | Some _ \<Rightarrow>
          let g1 = g\<lparr>admissions := (admissions g)(ad_id a := None)\<rparr>;
              g2 = (if ad_holds a then g1\<lparr>inFlight := inFlight g1 - 1\<rparr> else g1);
              g3 = addReservationLocked (ad_resource a) (ad_auth a) (- ad_cost a) g2
          in signalLocked g3)"

definition admission_entries :: "Gate \<Rightarrow> admission list" where
  "admission_entries g =
     concat (map (\<lambda>i. case admissions g i of None \<Rightarrow> [] | Some a \<Rightarrow> [a])
       [0..<Suc (nextAdmissionID g)])"

definition cancelAdmissions :: "Gate \<Rightarrow> Gate" where
  "cancelAdmissions g = fold finishAdmission (admission_entries g) g"

section \<open>Observing responses\<close>

text \<open>
  A response as the gate reads it. \<open>header k\<close> is \<open>Header.Get(k)\<close>, empty when absent; \<open>body\<close> is
  \<open>None\<close> for a nil body or \<open>http.NoBody\<close>; \<open>body_err\<close> is a read failure while the prefix is
  inspected.
\<close>

record http_response =
  status :: int
  header :: "string \<Rightarrow> string"
  body :: "string option"
  body_err :: "gerror option"

definition mergeObservation :: "ResourceBudget \<Rightarrow> ResourceBudget \<Rightarrow> ResourceBudget" where
  "mergeObservation current observed =
     (if \<not> rb_known observed then current
      else if \<not> rb_known current \<or> rb_reset current < rb_reset observed then observed
      else if rb_reset observed < rb_reset current then current
      else current\<lparr>rb_remaining := (if rb_remaining observed < rb_remaining current
                                   then rb_remaining observed else rb_remaining current),
                  rb_limit := max (rb_limit current) (rb_limit observed)\<rparr>)"

definition observeREST :: "AuthContext \<Rightarrow> (string \<Rightarrow> string) \<Rightarrow> Gate \<Rightarrow> Gate \<times> gerror option" where
  "observeREST auth hdr g =
     (let rawLimit = hdr ''X-RateLimit-Limit'';
          rawRemaining = hdr ''X-RateLimit-Remaining'';
          rawReset = hdr ''X-RateLimit-Reset''
      in if rawLimit = [] \<and> rawRemaining = [] \<and> rawReset = [] then (g, None)
         else if rawLimit = [] \<or> rawRemaining = [] \<or> rawReset = []
           then (g, Some (ErrText ''budget gate: incomplete REST rate-limit headers''))
         else case parse_int64 rawLimit of
           None \<Rightarrow> (g, Some (ErrText ''budget gate: invalid X-RateLimit-Limit''))
         | Some limit \<Rightarrow>
           if limit \<le> 0 then (g, Some (ErrText ''budget gate: invalid X-RateLimit-Limit''))
           else case parse_int64 rawRemaining of
             None \<Rightarrow> (g, Some (ErrText ''budget gate: invalid X-RateLimit-Remaining''))
           | Some remaining \<Rightarrow>
             if remaining < 0 then (g, Some (ErrText ''budget gate: invalid X-RateLimit-Remaining''))
             else case parse_int64 rawReset of
               None \<Rightarrow> (g, Some (ErrText ''budget gate: invalid X-RateLimit-Reset''))
             | Some resetUnix \<Rightarrow>
               if resetUnix \<le> 0 then (g, Some (ErrText ''budget gate: invalid X-RateLimit-Reset''))
               else (signalLocked (setResource REST auth
                       (mergeObservation (resourceLocked g REST auth)
                          \<lparr>rb_known = True, rb_limit = limit, rb_remaining = remaining,
                           rb_reset = time_Unix resetUnix\<rparr>) g), None))"

definition observeGraphQL :: "GraphQLRate \<Rightarrow> Gate \<Rightarrow> Gate" where
  "observeGraphQL rate g =
     (if gr_limit rate \<le> 0 \<or> gr_remaining rate < 0 \<or> isZero (gr_reset rate) then g
      else signalLocked (g\<lparr>graphql := mergeObservation (graphql g)
             \<lparr>rb_known = True, rb_limit = gr_limit rate, rb_remaining = gr_remaining rate,
              rb_reset = gr_reset rate\<rparr>\<rparr>))"

text \<open>
  \<open>retryAfterDeadline\<close>. The number of seconds is converted to a \<open>time.Duration\<close> by a 64-bit
  product; \<open>parse_time\<close> is \<open>http.ParseTime\<close>.
\<close>

definition retryAfterDeadline :: "(string \<Rightarrow> gotime option) \<Rightarrow> gotime \<Rightarrow> string \<Rightarrow> gerror + gotime" where
  "retryAfterDeadline parse_time now raw =
     (case parse_int64 raw of
        Some seconds \<Rightarrow>
          if seconds < 0 then Inl (ErrText ''negative Retry-After'')
          else Inr (now + wrap64 (seconds * second))
      | None \<Rightarrow>
          (case parse_time raw of
             None \<Rightarrow> Inl (ErrText ''invalid Retry-After'')
           | Some when \<Rightarrow> Inr when))"

definition usableBody :: "http_response \<Rightarrow> bool" where
  "usableBody resp = (body resp \<noteq> None)"

definition responseHasSecondaryLimitShape :: "http_response \<Rightarrow> gerror + bool" where
  "responseHasSecondaryLimitShape resp =
     (case body resp of
        None \<Rightarrow> Inr False
      | Some bytes \<Rightarrow>
          (case body_err resp of
             Some e \<Rightarrow> Inl (ErrWrap ''inspect GitHub rate-limit response'' [e])
           | None \<Rightarrow>
               let lower = to_lower (take secondaryBodyInspectSize bytes) in
               Inr (contains_str ''secondary rate limit'' lower \<or>
                    contains_str ''abuse detection'' lower)))"

text \<open>Which deadline, if any, a 403 or 429 response asks the gate to close until.\<close>

definition secondaryDeadline :: "(string \<Rightarrow> gotime option) \<Rightarrow> gotime \<Rightarrow> duration \<Rightarrow> http_response \<Rightarrow>
    gerror + gotime option" where
  "secondaryDeadline parse_time now fallback resp =
     (if status resp \<noteq> 403 \<and> status resp \<noteq> 429 then Inr None
      else let raw = trim_space (header resp ''Retry-After'') in
        if raw \<noteq> [] then
          (case retryAfterDeadline parse_time now raw of
             Inl e \<Rightarrow> Inl e | Inr until \<Rightarrow> Inr (Some until))
        else (case responseHasSecondaryLimitShape resp of
             Inl e \<Rightarrow> Inl e
           | Inr isSecondary \<Rightarrow> Inr (if isSecondary then Some (now + fallback) else None)))"

definition raiseBackoff :: "AuthContext \<Rightarrow> gotime \<Rightarrow> Gate \<Rightarrow> Gate \<times> bool" where
  "raiseBackoff auth until g =
     (if backoffLocked g auth < until then (signalLocked (setBackoffLocked auth until g), True)
      else (g, False))"

section \<open>Closing\<close>

definition stopAdmission :: "gerror option \<Rightarrow> Gate \<Rightarrow> Gate" where
  "stopAdmission err g =
     (if unavailable g = None
      then signalLocked (g\<lparr>unavailable := Some (case err of None \<Rightarrow> ErrClosed | Some e \<Rightarrow> e)\<rparr>)
      else g)"

definition loseLease :: "gerror option \<Rightarrow> Gate \<Rightarrow> Gate" where
  "loseLease err g =
     (let e = (case err of None \<Rightarrow> ErrLeaseLost | Some e \<Rightarrow> e)
      in cancelAdmissions (stopAdmission (Some e) (cancelLease g)))"

text \<open>
  \<open>observeSecondaryLimit\<close>; \<open>persist\<close> is \<open>persistBackoff\<close>, the synchronous store write made when
  the gate has a lease.
\<close>

definition observeSecondaryLimit :: "(string \<Rightarrow> gotime option) \<Rightarrow> gotime \<Rightarrow>
    (AuthContext \<Rightarrow> gotime \<Rightarrow> gerror + bool) \<Rightarrow> AuthContext \<Rightarrow> http_response \<Rightarrow> Gate \<Rightarrow>
    Gate \<times> gerror option" where
  "observeSecondaryLimit parse_time now persist auth resp g =
     (case secondaryDeadline parse_time now (secondaryLimitFallback g) resp of
        Inl e \<Rightarrow> (g, Some e)
      | Inr None \<Rightarrow> (g, None)
      | Inr (Some until) \<Rightarrow>
          (case raiseBackoff auth until g of
             (g1, ch) \<Rightarrow>
               if \<not> ch \<or> lease g1 = None then (g1, None)
               else (case persist auth until of
                   Inl e \<Rightarrow> (g1, Some e)
                 | Inr True \<Rightarrow> (g1, None)
                 | Inr False \<Rightarrow>
                     let e = ErrWrap ''persist secondary-limit backoff: ownership lost'' [ErrLeaseLost]
                     in (loseLease (Some e) g1, Some e))))"

definition joinErrors :: "gerror option list \<Rightarrow> gerror option" where
  "joinErrors es = (case concat (map (\<lambda>e. case e of None \<Rightarrow> [] | Some x \<Rightarrow> [x]) es) of
      [] \<Rightarrow> None | xs \<Rightarrow> Some (ErrWrap [] xs))"

section \<open>One admitted exchange\<close>

text \<open>
  What the environment did during one call: the before-send hook (which may itself use the
  gate to mint a token), the transport's response and error, whether the observers drained
  the network body, and what the GraphQL rate observer extracted.
\<close>

record exchange =
  ex_before :: "Gate \<Rightarrow> Gate \<times> gerror option"
  ex_resp :: "http_response option"
  ex_err :: "gerror option"
  ex_drained :: bool
  ex_rate :: "GraphQLRate option"
  ex_rate_err :: "gerror option"

record Response =
  rs_http :: "http_response option"
  rs_rate :: "GraphQLRate option"

definition observeResponse :: "(string \<Rightarrow> gotime option) \<Rightarrow> gotime \<Rightarrow>
    (AuthContext \<Rightarrow> gotime \<Rightarrow> gerror + bool) \<Rightarrow> Request \<Rightarrow> exchange \<Rightarrow> http_response \<Rightarrow> Gate \<Rightarrow>
    Gate \<times> GraphQLRate option \<times> gerror option" where
  "observeResponse parse_time now persist req ex resp g =
     (case observeSecondaryLimit parse_time now persist (rq_auth req) resp g of
        (g1, secondaryErr) \<Rightarrow>
          if rq_resource req = REST then
            (case observeREST (rq_auth req) (header resp) g1 of
               (g2, e) \<Rightarrow> (g2, None, joinErrors [secondaryErr, e]))
          else if rq_resource req = GraphQL then
            (case ex_rate ex of
               Some rate \<Rightarrow> (observeGraphQL rate g1, Some rate, joinErrors [secondaryErr, ex_rate_err ex])
             | None \<Rightarrow> (g1, None, joinErrors [secondaryErr, ex_rate_err ex]))
          else (g1, None, joinErrors [secondaryErr, None]))"

definition doAdmitted :: "(string \<Rightarrow> gotime option) \<Rightarrow> gotime \<Rightarrow>
    (AuthContext \<Rightarrow> gotime \<Rightarrow> gerror + bool) \<Rightarrow> Class \<Rightarrow> Request \<Rightarrow> http_request \<Rightarrow> exchange \<Rightarrow>
    admission \<Rightarrow> Gate \<Rightarrow>
    Gate \<times> Response option \<times> gerror option \<times> RequestObservation option" where
  "doAdmitted parse_time now persist cls req httpReq ex adm g =
     (case ex_before ex g of
        (g1, Some e) \<Rightarrow>
          (finishAdmission adm g1, None, Some (ErrWrap ''budget gate before send'' [e]), None)
      | (g1, None) \<Rightarrow>
          let (g2, rate, observeErr) =
                (case ex_resp ex of
                   None \<Rightarrow> (g1, None, None)
                 | Some resp \<Rightarrow> observeResponse parse_time now persist req ex resp g1);
              over = (case ex_resp ex of
                   None \<Rightarrow> True | Some resp \<Rightarrow> \<not> usableBody resp \<or> ex_drained ex);
              g3 = (if over then finishAdmission adm g2 else g2);
              code = (case ex_resp ex of None \<Rightarrow> 0 | Some resp \<Rightarrow> status resp);
              (auth, endpoint) = requestAttribution req httpReq
          in (g3, Some \<lparr>rs_http = ex_resp ex, rs_rate = rate\<rparr>,
              (case ex_err ex of Some e \<Rightarrow> Some e | None \<Rightarrow> observeErr),
              Some \<lparr>ro_class = cls, ro_resource = rq_resource req, ro_auth = auth,
                    ro_endpoint = endpoint, ro_status = code,
                    ro_conditional = (hr_if_none_match httpReq \<noteq> []),
                    ro_not_modified = (code = 304),
                    ro_err = joinErrors [ex_err ex, observeErr]\<rparr>))"

text \<open>
  The admission loop of \<open>Do\<close>. \<open>clk i\<close> is the clock at attempt \<open>i\<close>; \<open>env i g\<close> is \<open>waitForChange\<close>
  after it: the context's error, or the gate as the other goroutines left it at the wake-up.
  The result has the starvation reports (at most one per call). Fuel bounds the number of
  attempts; \<open>None\<close> is a call that is still waiting.
\<close>

fun admit_loop :: "nat \<Rightarrow> (nat \<Rightarrow> gotime) \<Rightarrow> (nat \<Rightarrow> Gate \<Rightarrow> gerror + Gate) \<Rightarrow> nat \<Rightarrow>
    Class \<Rightarrow> Request \<Rightarrow> admission option \<Rightarrow> bool \<Rightarrow> Gate \<Rightarrow>
    (Gate \<times> Starvation list \<times> (gerror + admission)) option" where
  "admit_loop 0 clk env i cls req parent reported g = None"
| "admit_loop (Suc fuel) clk env i cls req parent reported g =
     (case tryAdmit (clk i) cls (rq_resource req) (rq_auth req) parent g of
        (g1, Refused e) \<Rightarrow> Some (g1, [], Inl e)
      | (g1, Admitted a) \<Rightarrow> Some (g1, [], Inr a)
      | (g1, WaitFor until ch starvation) \<Rightarrow>
          let report = (case starvation of
                None \<Rightarrow> [] | Some st \<Rightarrow> if reported then [] else [st]);
              reported' = (reported \<or> starvation \<noteq> None)
          in case env i g1 of
               Inl e \<Rightarrow> Some (g1, report, Inl e)
             | Inr g2 \<Rightarrow>
                 (case admit_loop fuel clk env (Suc i) cls req parent reported' g2 of
                    None \<Rightarrow> None
                  | Some (g3, reports, r) \<Rightarrow> Some (g3, report @ reports, r)))"

text \<open>
  \<open>Do\<close>: validation, the parent admission for a token mint reached from a before-send hook
  (\<open>outer\<close> is the admission the context carries), the loop, the exchange.
\<close>

definition Do :: "nat \<Rightarrow> (nat \<Rightarrow> gotime) \<Rightarrow> (nat \<Rightarrow> Gate \<Rightarrow> gerror + Gate) \<Rightarrow>
    (string \<Rightarrow> gotime option) \<Rightarrow> gotime \<Rightarrow> (AuthContext \<Rightarrow> gotime \<Rightarrow> gerror + bool) \<Rightarrow>
    bool \<Rightarrow> Class \<Rightarrow> Request option \<Rightarrow> admission option \<Rightarrow> exchange \<Rightarrow> Gate \<Rightarrow>
    (Gate \<times> Starvation list \<times> Response option \<times> gerror option \<times> RequestObservation option) option" where
  "Do fuel clk env parse_time now persist ctx_nil cls reqo outer ex g =
     (case validateDo ctx_nil cls reqo of
        Some e \<Rightarrow> Some (g, [], None, Some e, None)
      | None \<Rightarrow>
          (case reqo of
             None \<Rightarrow> Some (g, [], None, None, None)
           | Some req \<Rightarrow>
               (case rq_http req of
                  None \<Rightarrow> Some (g, [], None, None, None)
                | Some httpReq \<Rightarrow>
                    (case admit_loop fuel clk env 0 cls req (if rq_mint req then outer else None) False g of
                       None \<Rightarrow> None
                     | Some (g1, sts, Inl e) \<Rightarrow> Some (g1, sts, None, Some e, None)
                     | Some (g1, sts, Inr a) \<Rightarrow>
                         (case doAdmitted parse_time now persist cls req httpReq ex a g1 of
                            (g2, rsp, err, obs) \<Rightarrow> Some (g2, sts, rsp, err, obs))))))"

section \<open>Snapshots and lease state\<close>

definition SnapshotOf :: "Gate \<Rightarrow> Snapshot" where
  "SnapshotOf g = \<lparr>sn_rest = rest g, sn_app = appREST g, sn_graphql = graphql g,
     sn_backoff = backoffUntil g, sn_app_backoff = appJWTBackoffUntil g,
     sn_inflight = inFlight g\<rparr>"

definition restore :: "Snapshot \<Rightarrow> Gate \<Rightarrow> Gate" where
  "restore snap g =
     (let g1 = (if rb_known (sn_rest snap) then g\<lparr>rest := sn_rest snap\<rparr> else g);
          g2 = (if rb_known (sn_app snap) then g1\<lparr>appREST := sn_app snap\<rparr> else g1);
          g3 = (if rb_known (sn_graphql snap) then g2\<lparr>graphql := sn_graphql snap\<rparr> else g2);
          g4 = (if backoffUntil g3 < sn_backoff snap
                then g3\<lparr>backoffUntil := sn_backoff snap\<rparr> else g3);
          g5 = (if appJWTBackoffUntil g4 < sn_app_backoff snap
                then g4\<lparr>appJWTBackoffUntil := sn_app_backoff snap\<rparr> else g4)
      in signalLocked g5)"

definition setLeaseUntil :: "gotime \<Rightarrow> Gate \<Rightarrow> Gate" where
  "setLeaseUntil until g =
     (if unavailable g = None then signalLocked (g\<lparr>leaseUntil := until\<rparr>) else g)"

definition idle :: "Gate \<Rightarrow> bool" where
  "idle g = (inFlight g = 0)"

end
