(* ===== verification/Gate_Invariants.thy ===== *)
theory Gate_Invariants
  imports Budget_Gate
begin

text \<open>
  The ledger of the budget gate: every slot and every reserved point is accounted to a live
  admission. One preservation lemma per critical section, the step relation over all of them,
  and the properties of admission, observation and closing.
\<close>

section \<open>The ledger\<close>

datatype pool = PoolREST | PoolApp | PoolGraphQL

fun pool_of :: "Resource \<Rightarrow> AuthContext \<Rightarrow> pool" where
  "pool_of GraphQL auth = PoolGraphQL"
| "pool_of res auth = (if res = REST \<and> auth = AppJWTAuth then PoolApp else PoolREST)"

fun pool_reserved :: "Gate \<Rightarrow> pool \<Rightarrow> int" where
  "pool_reserved g PoolREST = restReserved g"
| "pool_reserved g PoolApp = appRESTReserved g"
| "pool_reserved g PoolGraphQL = graphqlReserved g"

definition slots_held :: "Gate \<Rightarrow> int" where
  "slots_held g = map_sum (\<lambda>a. if ad_holds a then 1 else 0) (admissions g)"

definition points_held :: "Gate \<Rightarrow> pool \<Rightarrow> int" where
  "points_held g p =
     map_sum (\<lambda>a. if pool_of (ad_resource a) (ad_auth a) = p then ad_cost a else 0) (admissions g)"

definition admissions_ok :: "Gate \<Rightarrow> bool" where
  "admissions_ok g \<longleftrightarrow> finite (dom (admissions g)) \<and>
     (\<forall>i a. admissions g i = Some a \<longrightarrow>
        ad_id a = i \<and> i \<le> nextAdmissionID g \<and> 0 < ad_cost a \<and> resource_valid (ad_resource a))"

definition settings_ok :: "Gate \<Rightarrow> bool" where
  "settings_ok g \<longleftrightarrow> 0 < maxConcurrent g \<and> 0 < restEstimate g \<and> 0 < graphqlEstimate g \<and>
     f64_pos (eventFloor g) \<and> f64_pos (sweepFloor g) \<and> f64_lt_one (eventFloor g) \<and>
     f64_lt_one (sweepFloor g) \<and> f64_le (eventFloor g) (sweepFloor g)"

definition gate_inv :: "Gate \<Rightarrow> bool" where
  "gate_inv g \<longleftrightarrow> admissions_ok g \<and> settings_ok g \<and>
     inFlight g = slots_held g \<and> inFlight g \<le> maxConcurrent g \<and>
     (\<forall>p. pool_reserved g p = points_held g p)"

lemmas gate_inv_defs = gate_inv_def admissions_ok_def settings_ok_def slots_held_def points_held_def

text \<open>The fields the invariant reads; operations that leave them alone keep it.\<close>

definition same_ledger :: "Gate \<Rightarrow> Gate \<Rightarrow> bool" where
  "same_ledger g h \<longleftrightarrow>
     inFlight g = inFlight h \<and> maxConcurrent g = maxConcurrent h \<and>
     restReserved g = restReserved h \<and> appRESTReserved g = appRESTReserved h \<and>
     graphqlReserved g = graphqlReserved h \<and> restEstimate g = restEstimate h \<and>
     graphqlEstimate g = graphqlEstimate h \<and> sweepFloor g = sweepFloor h \<and>
     eventFloor g = eventFloor h \<and> nextAdmissionID g = nextAdmissionID h \<and>
     admissions g = admissions h"

lemma same_ledger_refl [simp]: "same_ledger g g"
  by (simp add: same_ledger_def)

lemma same_ledger_inv: "same_ledger g h \<Longrightarrow> gate_inv h \<Longrightarrow> gate_inv g"
proof -
  assume s: "same_ledger g h" and i: "gate_inv h"
  have "pool_reserved g p = pool_reserved h p" for p
    using s by (cases p) (auto simp: same_ledger_def)
  with s i show ?thesis by (auto simp: same_ledger_def gate_inv_defs)
qed

lemmas ledger_frame_defs =
  same_ledger_def signalLocked_def cancelLease_def setResource_def setBackoffLocked_def

lemma expireLease_ledger: "same_ledger (expireLease now g) g"
  by (simp add: expireLease_def ledger_frame_defs)

lemma observeREST_ledger: "same_ledger (fst (observeREST auth hdr g)) g"
  by (simp add: observeREST_def Let_def ledger_frame_defs split: option.split)

lemma observeGraphQL_ledger: "same_ledger (observeGraphQL rate g) g"
  by (simp add: observeGraphQL_def ledger_frame_defs)

lemma raiseBackoff_ledger: "same_ledger (fst (raiseBackoff auth until g)) g"
  by (simp add: raiseBackoff_def ledger_frame_defs)

lemma restore_ledger: "same_ledger (restore snap g) g"
  by (simp add: restore_def Let_def ledger_frame_defs)

lemma setLeaseUntil_ledger: "same_ledger (setLeaseUntil until g) g"
  by (simp add: setLeaseUntil_def ledger_frame_defs)

lemma stopAdmission_ledger: "same_ledger (stopAdmission err g) g"
  by (simp add: stopAdmission_def ledger_frame_defs)

lemma cancelLease_ledger: "same_ledger (cancelLease g) g"
  by (simp add: ledger_frame_defs)

section \<open>Admission and release keep the invariant\<close>

lemma New_inv: "gate_inv (New opts)"
proof -
  have "floor_in_range defaultSweepFloor" "floor_in_range defaultEventFloor"
    "f64_le defaultEventFloor defaultSweepFloor"
    by (simp_all add: floor_in_range_def defaultSweepFloor_def defaultEventFloor_def)
  then have "settings_ok (New opts)"
    by (cases "op_sweepFloor opts"; cases "op_eventFloor opts")
       (auto simp: settings_ok_def New_def normalize_floors_def floor_in_range_def Let_def
          defaultConcurrency_def defaultRESTEstimate_def defaultGraphQLEstimate_def
          defaultSweepFloor_def defaultEventFloor_def)
  moreover have "pool_reserved (New opts) p = points_held (New opts) p" for p
    by (cases p) (simp_all add: New_def points_held_def Let_def split: prod.split)
  moreover have "admissions (New opts) = Map.empty" "inFlight (New opts) = 0"
    by (simp_all add: New_def Let_def split: prod.split)
  ultimately show ?thesis by (auto simp: gate_inv_defs)
qed

lemma addReservationLocked_simps [simp]:
  "inFlight (addReservationLocked res auth d g) = inFlight g"
  "maxConcurrent (addReservationLocked res auth d g) = maxConcurrent g"
  "admissions (addReservationLocked res auth d g) = admissions g"
  "nextAdmissionID (addReservationLocked res auth d g) = nextAdmissionID g"
  "restEstimate (addReservationLocked res auth d g) = restEstimate g"
  "graphqlEstimate (addReservationLocked res auth d g) = graphqlEstimate g"
  "sweepFloor (addReservationLocked res auth d g) = sweepFloor g"
  "eventFloor (addReservationLocked res auth d g) = eventFloor g"
  "unavailable (addReservationLocked res auth d g) = unavailable g"
  "leaseUntil (addReservationLocked res auth d g) = leaseUntil g"
  "lease (addReservationLocked res auth d g) = lease g"
  "backoffUntil (addReservationLocked res auth d g) = backoffUntil g"
  "appJWTBackoffUntil (addReservationLocked res auth d g) = appJWTBackoffUntil g"
  "rest (addReservationLocked res auth d g) = rest g"
  "appREST (addReservationLocked res auth d g) = appREST g"
  "graphql (addReservationLocked res auth d g) = graphql g"
  by (cases res; simp)+

lemma pool_reserved_add:
  "resource_valid res \<Longrightarrow> pool_reserved (addReservationLocked res auth d g) p =
     pool_reserved g p + (if pool_of res auth = p then d else 0)"
  by (cases res; cases p) auto

lemma pool_reserved_cong:
  "restReserved g = restReserved h \<Longrightarrow> appRESTReserved g = appRESTReserved h \<Longrightarrow>
   graphqlReserved g = graphqlReserved h \<Longrightarrow> pool_reserved g p = pool_reserved h p"
  by (cases p) auto

lemma pool_reserved_frame [simp]:
  "pool_reserved (g\<lparr>admissions := m\<rparr>) p = pool_reserved g p"
  "pool_reserved (g\<lparr>inFlight := n\<rparr>) p = pool_reserved g p"
  "pool_reserved (g\<lparr>nextAdmissionID := i\<rparr>) p = pool_reserved g p"
  "pool_reserved (g\<lparr>changed := i\<rparr>) p = pool_reserved g p"
  by (rule pool_reserved_cong; simp)+

lemma estimate_pos: "settings_ok g \<Longrightarrow> resource_valid res \<Longrightarrow> 0 < estimateLocked g res"
  by (cases res) (auto simp: settings_ok_def)

lemma admitEntry_inv:
  assumes inv: "gate_inv g" and res: "resource_valid res"
    and room: "reuse \<or> inFlight g < maxConcurrent g"
  shows "gate_inv (fst (admitEntry g res auth reuse))"
proof -
  let ?i = "Suc (nextAdmissionID g)" and ?c = "estimateLocked g res"
  let ?a = "\<lparr>ad_id = ?i, ad_resource = res, ad_auth = auth, ad_cost = ?c, ad_holds = \<not> reuse\<rparr>"
  let ?g = "fst (admitEntry g res auth reuse)"
  from inv have fin: "finite (dom (admissions g))" by (simp add: gate_inv_defs)
  have new: "admissions g ?i = None"
    using inv by (cases "admissions g ?i") (fastforce simp: gate_inv_defs)+
  have adm: "admissions ?g = (admissions g)(?i \<mapsto> ?a)" "nextAdmissionID ?g = ?i"
    "inFlight ?g = inFlight g + (if reuse then 0 else 1)"
    by (simp_all add: admitEntry_def Let_def)
  have "admissions_ok ?g"
    using inv res estimate_pos [of g res] unfolding admissions_ok_def adm
    by (auto simp: gate_inv_defs le_SucI split: if_splits)
  moreover have "settings_ok ?g"
    using inv by (simp add: gate_inv_def settings_ok_def admitEntry_def Let_def)
  moreover have "inFlight ?g = slots_held ?g"
    using inv by (simp add: adm slots_held_def map_sum_insert [OF fin new] gate_inv_def)
  moreover have "inFlight ?g \<le> maxConcurrent ?g"
    using inv room unfolding adm by (auto simp: admitEntry_def Let_def gate_inv_def)
  moreover have "pool_reserved ?g p = points_held ?g p" for p
  proof -
    have "pool_reserved ?g p = pool_reserved g p + (if pool_of res auth = p then ?c else 0)"
      using res by (simp add: admitEntry_def Let_def pool_reserved_add)
    then show ?thesis
      using inv by (simp add: adm points_held_def map_sum_insert [OF fin new] gate_inv_def)
  qed
  ultimately show ?thesis by (simp add: gate_inv_def)
qed

lemma tryAdmit_inv:
  assumes inv: "gate_inv g" and res: "resource_valid res"
  shows "gate_inv (fst (tryAdmit now cls res auth parent g))"
proof -
  let ?g = "expireLease now g"
  have e: "gate_inv ?g" using inv same_ledger_inv [OF expireLease_ledger] by blast
  show ?thesis
    using e admitEntry_inv [OF e res, of "reuseSlot g parent" auth]
    by (cases "reuseSlot g parent")
       (simp_all add: tryAdmit_def Let_def case_prod_beta not_le split: option.split)
qed

lemma finishAdmission_inv:
  assumes inv: "gate_inv g" and a: "admissions g (ad_id a) \<in> {None, Some a}"
  shows "gate_inv (finishAdmission a g)"
proof (cases "admissions g (ad_id a)")
  case None
  then show ?thesis using inv by (simp add: finishAdmission_def)
next
  case (Some b)
  with a have here: "admissions g (ad_id a) = Some a" by simp
  let ?h = "finishAdmission a g"
  from inv have fin: "finite (dom (admissions g))" by (simp add: gate_inv_defs)
  have res: "resource_valid (ad_resource a)" using inv here by (auto simp: gate_inv_defs)
  have h: "admissions ?h = (admissions g)(ad_id a := None)"
    "inFlight ?h = inFlight g - (if ad_holds a then 1 else 0)"
    "maxConcurrent ?h = maxConcurrent g" "nextAdmissionID ?h = nextAdmissionID g"
    using here by (simp_all add: finishAdmission_def Let_def signalLocked_def)
  have "admissions_ok ?h" using inv unfolding admissions_ok_def h by (auto simp: gate_inv_defs)
  moreover have "settings_ok ?h"
    using inv here by (simp add: gate_inv_def settings_ok_def finishAdmission_def Let_def signalLocked_def)
  moreover have "inFlight ?h = slots_held ?h"
    using inv by (simp add: h slots_held_def map_sum_delete [OF fin here] gate_inv_def)
  moreover have "inFlight ?h \<le> maxConcurrent ?h" using inv by (simp add: h gate_inv_def)
  moreover have "pool_reserved ?h p = points_held ?h p" for p
  proof -
    have "pool_reserved ?h p = pool_reserved g p -
        (if pool_of (ad_resource a) (ad_auth a) = p then ad_cost a else 0)"
      using here res by (simp add: finishAdmission_def Let_def signalLocked_def pool_reserved_add)
    then show ?thesis
      using inv by (simp add: h points_held_def map_sum_delete [OF fin here] gate_inv_def)
  qed
  ultimately show ?thesis by (simp add: gate_inv_def)
qed

section \<open>Draining every admission\<close>

lemma set_admission_entries:
  "set (admission_entries g) = {a. \<exists>i \<le> nextAdmissionID g. admissions g i = Some a}"
proof -
  have "set (case admissions g i of None \<Rightarrow> [] | Some a \<Rightarrow> [a]) = {a. admissions g i = Some a}" for i
    by (auto split: option.split)
  then have "set (admission_entries g) =
      (\<Union>i \<in> {0..<Suc (nextAdmissionID g)}. {a. admissions g i = Some a})"
    by (simp only: admission_entries_def set_concat set_map set_upt image_image)
  then show ?thesis by (auto simp only: atLeastLessThan_iff less_Suc_eq_le zero_le)
qed

lemma finishAdmission_lookup:
  "admissions (finishAdmission a g) i = (if i = ad_id a then None else admissions g i)"
  by (simp add: finishAdmission_def Let_def signalLocked_def split: option.split)

lemma fold_finish_inv:
  assumes "gate_inv g" and "\<And>a. a \<in> set as \<Longrightarrow> admissions g (ad_id a) \<in> {None, Some a}"
    and "\<And>a b. a \<in> set as \<Longrightarrow> b \<in> set as \<Longrightarrow> ad_id a = ad_id b \<Longrightarrow> a = b"
  shows "gate_inv (fold finishAdmission as g)"
  using assms
proof (induction as arbitrary: g)
  case (Cons a as)
  have "gate_inv (finishAdmission a g)" using Cons.prems by (simp add: finishAdmission_inv)
  moreover have "admissions (finishAdmission a g) (ad_id b) \<in> {None, Some b}" if "b \<in> set as" for b
    using Cons.prems(2) [of b] that by (auto simp: finishAdmission_lookup)
  ultimately show ?case using Cons.IH Cons.prems(3) by simp
qed simp

lemma fold_finish_lookup:
  "admissions (fold finishAdmission as g) i = (if i \<in> ad_id ` set as then None else admissions g i)"
  by (induction as arbitrary: g) (auto simp: finishAdmission_lookup)

lemma cancelAdmissions_inv: "gate_inv g \<Longrightarrow> gate_inv (cancelAdmissions g)"
  unfolding cancelAdmissions_def
  by (rule fold_finish_inv) (auto simp: set_admission_entries gate_inv_defs)

lemma cancelAdmissions_empty: "gate_inv g \<Longrightarrow> admissions (cancelAdmissions g) = Map.empty"
proof
  fix i
  assume inv: "gate_inv g"
  show "admissions (cancelAdmissions g) i = None"
  proof (cases "admissions g i")
    case None
    then show ?thesis by (simp add: cancelAdmissions_def fold_finish_lookup)
  next
    case (Some a)
    with inv have "i = ad_id a" "i \<le> nextAdmissionID g" by (auto simp: gate_inv_defs)
    with Some have "i \<in> ad_id ` set (admission_entries g)"
      by (auto simp: set_admission_entries)
    then show ?thesis by (simp add: cancelAdmissions_def fold_finish_lookup)
  qed
qed

lemma loseLease_inv: "gate_inv g \<Longrightarrow> gate_inv (loseLease err g)"
  unfolding loseLease_def Let_def
  by (intro cancelAdmissions_inv same_ledger_inv [OF stopAdmission_ledger]
      same_ledger_inv [OF cancelLease_ledger])

end
