(* ===== verification/Gate_Properties.thy ===== *)
theory Gate_Properties
  imports Gate_Invariants
begin

text \<open>
  The behaviour of the budget gate under every interleaving of its critical sections, and
  what admission, observation, secondary limits and closing guarantee.
\<close>

section \<open>Budgets a gate can hold\<close>

definition budget_ok :: "ResourceBudget \<Rightarrow> bool" where
  "budget_ok b \<longleftrightarrow> (rb_known b \<longrightarrow> 0 < rb_limit b \<and> 0 \<le> rb_remaining b)"

definition budgets_ok :: "Gate \<Rightarrow> bool" where
  "budgets_ok g \<longleftrightarrow> budget_ok (rest g) \<and> budget_ok (appREST g) \<and> budget_ok (graphql g)"

definition snapshot_ok :: "Snapshot \<Rightarrow> bool" where
  "snapshot_ok s \<longleftrightarrow> budget_ok (sn_rest s) \<and> budget_ok (sn_app s) \<and> budget_ok (sn_graphql s)"

lemma mergeObservation_ok: "budget_ok a \<Longrightarrow> budget_ok b \<Longrightarrow> budget_ok (mergeObservation a b)"
  by (auto simp: mergeObservation_def budget_ok_def)

text \<open>The budget a complete and valid set of REST headers announces.\<close>

definition rest_headers :: "(string \<Rightarrow> string) \<Rightarrow> ResourceBudget option" where
  "rest_headers hdr =
     (case (parse_int64 (hdr ''X-RateLimit-Limit''), parse_int64 (hdr ''X-RateLimit-Remaining''),
            parse_int64 (hdr ''X-RateLimit-Reset'')) of
        (Some l, Some r, Some t) \<Rightarrow>
          if 0 < l \<and> 0 \<le> r \<and> 0 < t
          then Some \<lparr>rb_known = True, rb_limit = l, rb_remaining = r, rb_reset = time_Unix t\<rparr>
          else None
      | _ \<Rightarrow> None)"

lemma parse_int64_Nil [simp]: "parse_int64 [] = None"
  by (simp add: parse_int64_def)

lemma observeREST_eq:
  "fst (observeREST auth hdr g) =
     (case rest_headers hdr of None \<Rightarrow> g
      | Some b \<Rightarrow> signalLocked (setResource REST auth
                     (mergeObservation (resourceLocked g REST auth) b) g))"
  by (auto simp: observeREST_def rest_headers_def Let_def split: option.split)

lemma rest_headers_ok: "rest_headers hdr = Some b \<Longrightarrow> rb_known b \<and> budget_ok b"
  by (auto simp: rest_headers_def budget_ok_def split: option.splits if_splits)

section \<open>Steps\<close>

text \<open>
  One rule per critical section of \<open>gate.go\<close> and per gate update of \<open>lease.go\<close>. A finished
  admission is one the map holds or has dropped; a restored snapshot satisfies the CHECK
  constraint of \<open>installation_budgets\<close>.
\<close>

inductive gate_step :: "Gate \<Rightarrow> Gate \<Rightarrow> bool" where
  admit: "resource_valid res \<Longrightarrow> gate_step g (fst (tryAdmit now cls res auth parent g))"
| finish: "admissions g (ad_id a) \<in> {None, Some a} \<Longrightarrow> gate_step g (finishAdmission a g)"
| observe_rest: "gate_step g (fst (observeREST auth hdr g))"
| observe_graphql: "gate_step g (observeGraphQL rate g)"
| backoff: "gate_step g (fst (raiseBackoff auth until g))"
| restored: "snapshot_ok snap \<Longrightarrow> gate_step g (restore snap g)"
| renewed: "gate_step g (setLeaseUntil until g)"
| attached: "gate_step g (g\<lparr>lease := Some l\<rparr>)"
| stopped: "gate_step g (stopAdmission err g)"
| drained: "gate_step g (cancelAdmissions g)"
| lost: "gate_step g (loseLease err g)"

inductive gate_reach :: "Options \<Rightarrow> Gate \<Rightarrow> bool" for opts where
  gate_start: "gate_reach opts (New opts)"
| gate_next: "gate_reach opts g \<Longrightarrow> gate_step g h \<Longrightarrow> gate_reach opts h"

lemma gate_step_inv: "gate_step g h \<Longrightarrow> gate_inv g \<Longrightarrow> gate_inv h"
proof (induction rule: gate_step.induct)
  case (attached g l)
  have "same_ledger (g\<lparr>lease := Some l\<rparr>) g" by (simp add: same_ledger_def)
  with attached show ?case by (rule same_ledger_inv [rotated])
qed (auto intro: tryAdmit_inv finishAdmission_inv cancelAdmissions_inv loseLease_inv
  same_ledger_inv [OF observeREST_ledger] same_ledger_inv [OF observeGraphQL_ledger]
  same_ledger_inv [OF raiseBackoff_ledger] same_ledger_inv [OF restore_ledger]
  same_ledger_inv [OF setLeaseUntil_ledger] same_ledger_inv [OF stopAdmission_ledger])

lemma gate_reach_inv: "gate_reach opts g \<Longrightarrow> gate_inv g"
  by (induction rule: gate_reach.induct) (auto intro: New_inv gate_step_inv)

text \<open>Fields no admission bookkeeping touches.\<close>

lemma finishAdmission_frame [simp]:
  "unavailable (finishAdmission a g) = unavailable g"
  "rest (finishAdmission a g) = rest g"
  "appREST (finishAdmission a g) = appREST g"
  "graphql (finishAdmission a g) = graphql g"
  "backoffUntil (finishAdmission a g) = backoffUntil g"
  "appJWTBackoffUntil (finishAdmission a g) = appJWTBackoffUntil g"
  "leaseUntil (finishAdmission a g) = leaseUntil g"
  "lease (finishAdmission a g) = lease g"
  by (simp_all add: finishAdmission_def Let_def signalLocked_def split: option.split)

lemma fold_finish_frame [simp]:
  "unavailable (fold finishAdmission as g) = unavailable g"
  "rest (fold finishAdmission as g) = rest g"
  "appREST (fold finishAdmission as g) = appREST g"
  "graphql (fold finishAdmission as g) = graphql g"
  "backoffUntil (fold finishAdmission as g) = backoffUntil g"
  "appJWTBackoffUntil (fold finishAdmission as g) = appJWTBackoffUntil g"
  "leaseUntil (fold finishAdmission as g) = leaseUntil g"
  "lease (fold finishAdmission as g) = lease g"
  by (induction as arbitrary: g) simp_all

lemma cancelAdmissions_frame [simp]:
  "unavailable (cancelAdmissions g) = unavailable g"
  "rest (cancelAdmissions g) = rest g"
  "appREST (cancelAdmissions g) = appREST g"
  "graphql (cancelAdmissions g) = graphql g"
  "backoffUntil (cancelAdmissions g) = backoffUntil g"
  "appJWTBackoffUntil (cancelAdmissions g) = appJWTBackoffUntil g"
  "leaseUntil (cancelAdmissions g) = leaseUntil g"
  "lease (cancelAdmissions g) = lease g"
  by (simp_all add: cancelAdmissions_def)

lemma admitEntry_frame:
  assumes "admitEntry g res auth reuse = (h, a)"
  shows "unavailable h = unavailable g" "rest h = rest g" "appREST h = appREST g"
    "graphql h = graphql g" "backoffUntil h = backoffUntil g"
    "appJWTBackoffUntil h = appJWTBackoffUntil g" "leaseUntil h = leaseUntil g" "lease h = lease g"
  using assms by (auto simp: admitEntry_def Let_def)

lemma expireLease_frame [simp]:
  "rest (expireLease now g) = rest g" "appREST (expireLease now g) = appREST g"
  "graphql (expireLease now g) = graphql g" "backoffUntil (expireLease now g) = backoffUntil g"
  "appJWTBackoffUntil (expireLease now g) = appJWTBackoffUntil g"
  "leaseUntil (expireLease now g) = leaseUntil g"
  by (simp_all add: expireLease_def signalLocked_def cancelLease_def)

text \<open>
  What a call of \<open>tryAdmit\<close> did: it refused, it asked the caller to wait (both leave the gate
  as \<open>expireLease\<close> made it), or it admitted, and then all the guards held.
\<close>

lemma tryAdmit_cases:
  assumes "tryAdmit now cls res auth parent g = (h, d)"
  obtains (refused) e where "h = expireLease now g" "d = Refused e" "unavailable h = Some e"
  | (waiting) u c st where "h = expireLease now g" "d = WaitFor u c st" "unavailable h = None"
  | (admitted) a where "d = Admitted a" "unavailable (expireLease now g) = None"
      "backoffLocked (expireLease now g) auth \<le> now"
      "reuseSlot g parent \<or> inFlight g < maxConcurrent g"
      "\<not> starved now (expireLease now g) cls res auth"
      "admitEntry (expireLease now g) res auth (reuseSlot g parent) = (h, a)"
proof -
  have led: "inFlight (expireLease now g) = inFlight g"
    "maxConcurrent (expireLease now g) = maxConcurrent g"
    using expireLease_ledger [of now g] by (simp_all add: same_ledger_def)
  show thesis
    using assms that led
    by (auto simp: tryAdmit_def Let_def not_le split: option.splits if_splits prod.splits)
qed

lemma gate_step_budgets: "gate_step g h \<Longrightarrow> budgets_ok g \<Longrightarrow> budgets_ok h"
proof (induction rule: gate_step.induct)
  case (admit res g now cls auth parent)
  obtain h d where hd: "tryAdmit now cls res auth parent g = (h, d)" by force
  from hd have "rest h = rest g" "appREST h = appREST g" "graphql h = graphql g"
    by (cases rule: tryAdmit_cases; auto dest: admitEntry_frame)+
  with admit hd show ?case by (simp add: budgets_ok_def)
next
  case (observe_rest g auth hdr)
  then have "budget_ok (resourceLocked g REST auth)"
    by (simp add: budgets_ok_def resourceLocked_def)
  with observe_rest show ?case
    by (auto simp: observeREST_eq budgets_ok_def signalLocked_def setResource_def
        dest: rest_headers_ok intro: mergeObservation_ok split: option.split)
next
  case (observe_graphql g rate)
  then show ?case
    by (auto simp: observeGraphQL_def budgets_ok_def signalLocked_def
        intro!: mergeObservation_ok) (simp add: budget_ok_def)
qed (auto simp: budgets_ok_def restore_def Let_def signalLocked_def raiseBackoff_def
    setBackoffLocked_def setLeaseUntil_def stopAdmission_def loseLease_def cancelLease_def
    snapshot_ok_def)

lemma gate_reach_budgets: "gate_reach opts g \<Longrightarrow> budgets_ok g"
proof (induction rule: gate_reach.induct)
  case gate_start
  show ?case by (simp add: New_def Let_def budgets_ok_def budget_ok_def zeroBudget_def split: prod.split)
qed (auto intro: gate_step_budgets)

section \<open>Slots and reservations\<close>

lemma map_sum_indicator:
  assumes "finite (dom m)"
  shows "map_sum (\<lambda>a. if P a then 1 else 0) m = int (card {i. \<exists>a. m i = Some a \<and> P a})"
proof -
  have "{i. \<exists>a. m i = Some a \<and> P a} = {i \<in> dom m. P (the (m i))}" by force
  with assms show ?thesis by (simp add: map_sum_def flip: sum.inter_filter)
qed

definition demo_opts :: Options where
  "demo_opts = \<lparr>op_maxConcurrent = 1, op_restLimit = 0, op_graphqlLimit = 0,
     op_sweepFloor = F64 0 0, op_eventFloor = F64 0 0, op_restEstimate = 0,
     op_graphqlEstimate = 0, op_fallback = 0\<rparr>"

text \<open>C1: in every state the gate can reach, the number of requests in flight is the number of
  live admissions that hold a slot, it never exceeds the concurrency ceiling, and each pool's
  reservation is exactly the sum of the costs of the live admissions charged to it.\<close>

theorem gate_ledger_safe:
  assumes "gate_reach opts g"
  shows "inFlight g = int (card {i. \<exists>a. admissions g i = Some a \<and> ad_holds a}) \<and>
    inFlight g \<le> maxConcurrent g \<and>
    (\<forall>p. pool_reserved g p = points_held g p \<and> 0 \<le> pool_reserved g p)"
proof (intro conjI allI)
  from assms have inv: "gate_inv g" by (rule gate_reach_inv)
  then show "inFlight g = int (card {i. \<exists>a. admissions g i = Some a \<and> ad_holds a})"
    by (simp add: gate_inv_defs map_sum_indicator)
  fix p
  from inv show "inFlight g \<le> maxConcurrent g" "pool_reserved g p = points_held g p"
    by (simp_all add: gate_inv_def)
  with inv show "0 \<le> pool_reserved g p"
    by (auto simp: gate_inv_defs order_less_imp_le intro!: map_sum_nonneg)
qed

lemma demo_admit:
  "fst (tryAdmit 5 Event REST InstallationAuth None (New demo_opts)) =
     (New demo_opts)\<lparr>inFlight := 1, restReserved := 1, nextAdmissionID := 1,
       admissions := [1 \<mapsto> \<lparr>ad_id = 1, ad_resource = REST, ad_auth = InstallationAuth,
         ad_cost = 1, ad_holds = True\<rparr>]\<rparr>"
  by (simp add: tryAdmit_def New_def demo_opts_def normalize_floors_def floor_in_range_def
      expireLease_def reuseSlot_def backoffLocked_def starved_def resourceLocked_def
      zeroBudget_def admitEntry_def Let_def defaultRESTEstimate_def defaultSweepFloor_def
      defaultEventFloor_def)

theorem gate_ledger_safe_witness:
  "gate_reach demo_opts (fst (tryAdmit 5 Event REST InstallationAuth None (New demo_opts))) \<and>
   pool_reserved (fst (tryAdmit 5 Event REST InstallationAuth None (New demo_opts))) PoolREST = 1 \<and>
   0 \<le> pool_reserved (fst (tryAdmit 5 Event REST InstallationAuth None (New demo_opts))) PoolREST"
proof -
  have "gate_reach demo_opts (fst (tryAdmit 5 Event REST InstallationAuth None (New demo_opts)))"
    by (rule gate_next [OF gate_start], rule gate_step.admit) simp
  from this gate_ledger_safe [OF this] show ?thesis
    by (simp add: demo_admit)
qed

section \<open>Reserved floors\<close>

lemma admitEntry_reserved:
  assumes "admitEntry g res auth reuse = (h, a)" and "resource_valid res"
  shows "reservedLocked h res auth = reservedLocked g res auth + estimateLocked g res"
  using assms by (cases res) (auto simp: admitEntry_def Let_def reservedLocked_def)

lemma expireLease_reads [simp]:
  "resourceLocked (expireLease now g) res auth = resourceLocked g res auth"
  "reservedLocked (expireLease now g) res auth = reservedLocked g res auth"
  "estimateLocked (expireLease now g) res = estimateLocked g res"
  "floorFor (expireLease now g) cls = floorFor g cls"
  "backoffLocked (expireLease now g) auth = backoffLocked g auth"
  "starved t (expireLease now g) cls res auth = starved t g cls res auth"
  by (cases res; cases cls; simp add: expireLease_def signalLocked_def cancelLease_def
      resourceLocked_def reservedLocked_def backoffLocked_def starved_def)+

text \<open>C2: an admission into a known, unexpired rate window leaves the pool non-negative after
  every outstanding reservation, and leaves at least the reserved floor of the request's class
  (the ceiling of the fraction of the limit, in binary64 arithmetic).\<close>

theorem admission_keeps_floor:
  assumes "tryAdmit now cls res auth parent g = (h, Admitted a)" and "resource_valid res"
    and "rb_known (resourceLocked g res auth)" and "now < rb_reset (resourceLocked g res auth)"
  shows "0 \<le> rb_remaining (resourceLocked g res auth) - reservedLocked h res auth \<and>
    (f64_pos (floorFor g cls) \<longrightarrow>
      ceil_product (rb_limit (resourceLocked g res auth)) (floorFor g cls)
        \<le> rb_remaining (resourceLocked g res auth) - reservedLocked h res auth)"
proof -
  from assms(1) have adm: "admitEntry (expireLease now g) res auth (reuseSlot g parent) = (h, a)"
    and fed: "\<not> starved now g cls res auth"
    by (cases rule: tryAdmit_cases; simp)+
  have "reservedLocked h res auth = reservedLocked g res auth + estimateLocked g res"
    using admitEntry_reserved [OF adm assms(2)] by simp
  with fed assms(3,4) show ?thesis
    by (auto simp: starved_def Let_def)
qed

text \<open>A gate that has seen 5000 points with 1001 left, and the sweep request it still admits.\<close>

definition demo_budget :: "int \<Rightarrow> Gate" where
  "demo_budget left = (New demo_opts)\<lparr>rest := \<lparr>rb_known = True, rb_limit = 5000,
     rb_remaining = left, rb_reset = 100\<rparr>\<rparr>"

lemma demo_floor: "ceil_product 5000 defaultSweepFloor = 1000" "ceil_product 5000 defaultEventFloor = 500"
  by (simp_all add: defaultSweepFloor_def defaultEventFloor_def round53_def round_nat_def
      bit_len.simps Let_def)

lemmas demo_simps = demo_budget_def New_def demo_opts_def normalize_floors_def
  floor_in_range_def expireLease_def reuseSlot_def backoffLocked_def starved_def
  resourceLocked_def reservedLocked_def zeroBudget_def admitEntry_def Let_def
  defaultRESTEstimate_def

lemma demo_sweep: "\<exists>h a. tryAdmit 5 Sweep REST InstallationAuth None (demo_budget 1001) = (h, Admitted a)"
  using demo_floor by (simp add: tryAdmit_def demo_simps)

theorem admission_keeps_floor_witness:
  "\<exists>h a. tryAdmit 5 Sweep REST InstallationAuth None (demo_budget 1001) = (h, Admitted a) \<and>
     0 \<le> 1001 - reservedLocked h REST InstallationAuth"
proof -
  obtain h a where ha: "tryAdmit 5 Sweep REST InstallationAuth None (demo_budget 1001) = (h, Admitted a)"
    using demo_sweep by blast
  have b: "rb_known (resourceLocked (demo_budget 1001) REST InstallationAuth)"
    "5 < rb_reset (resourceLocked (demo_budget 1001) REST InstallationAuth)"
    "rb_remaining (resourceLocked (demo_budget 1001) REST InstallationAuth) = 1001"
    by (simp_all add: demo_budget_def resourceLocked_def)
  from ha admission_keeps_floor [OF ha _ b(1,2)] b(3) show ?thesis by auto
qed

section \<open>Priority\<close>

fun urgency :: "Class \<Rightarrow> nat" where
  "urgency Sweep = 0"
| "urgency Event = 1"
| "urgency _ = 2"

lemma starved_antimono:
  assumes "settings_ok g" "0 \<le> rb_limit (resourceLocked g res auth)"
    and "urgency c \<le> urgency c'" "starved now g c' res auth"
  shows "starved now g c res auth"
proof -
  let ?l = "rb_limit (resourceLocked g res auth)"
  have "ceil_product ?l (eventFloor g) \<le> ceil_product ?l (sweepFloor g)"
    and "f64_pos (sweepFloor g)" "f64_pos (eventFloor g)"
    using assms(1,2) by (auto simp: settings_ok_def intro: ceil_product_mono)
  then show ?thesis
    using assms(3,4) by (cases c; cases c') (auto simp: starved_def Let_def)
qed

text \<open>Priority classes are ordered: whenever a sweep request would be admitted, the same
  request of class event is admitted with the same effect, and likewise event against
  interactive.\<close>

theorem admission_priority:
  assumes "gate_reach opts g" and "urgency c \<le> urgency c'"
    and "tryAdmit now c res auth parent g = (h, Admitted a)"
  shows "tryAdmit now c' res auth parent g = (h, Admitted a)"
proof -
  let ?b = "resourceLocked g res auth"
  from assms(1) have inv: "settings_ok g" "budgets_ok g"
    using gate_reach_inv gate_reach_budgets by (auto simp: gate_inv_def)
  from assms(3) have fed: "\<not> starved now g c res auth" by (cases rule: tryAdmit_cases) auto
  have fed': "\<not> starved now g c' res auth"
  proof (cases "rb_known ?b")
    case True
    with inv(2) have "0 \<le> rb_limit ?b" by (auto simp: budgets_ok_def budget_ok_def resourceLocked_def)
    with starved_antimono [OF inv(1) _ assms(2)] fed show ?thesis by blast
  qed (simp add: starved_def Let_def)
  from assms(3) show ?thesis
    by (cases rule: tryAdmit_cases) (use fed' in \<open>auto simp: tryAdmit_def Let_def not_le not_less expireLease_ledger [unfolded same_ledger_def]\<close>)
qed

theorem admission_priority_witness:
  "tryAdmit 5 Interactive REST InstallationAuth None (New demo_opts) =
   tryAdmit 5 Sweep REST InstallationAuth None (New demo_opts)"
proof -
  obtain h a where "tryAdmit 5 Sweep REST InstallationAuth None (New demo_opts) = (h, Admitted a)"
    by (simp add: tryAdmit_def demo_simps)
  with admission_priority [OF gate_start _ this, of Interactive] show ?thesis by simp
qed

section \<open>A closed gate stays closed\<close>

lemma tryAdmit_unavailable:
  "unavailable g = Some e \<Longrightarrow> tryAdmit now cls res auth parent g = (g, Refused e)"
  by (simp add: tryAdmit_def expireLease_def Let_def)

lemma gate_step_unavailable: "gate_step g h \<Longrightarrow> unavailable g = Some e \<Longrightarrow> unavailable h = Some e"
proof (induction rule: gate_step.induct)
  case (admit res g now cls auth parent)
  then show ?case by (simp add: tryAdmit_unavailable)
next
  case (observe_rest g auth hdr)
  then show ?case
    by (simp add: observeREST_eq signalLocked_def setResource_def split: option.split)
qed (auto simp: observeGraphQL_def raiseBackoff_def restore_def setLeaseUntil_def stopAdmission_def
    loseLease_def Let_def signalLocked_def setBackoffLocked_def cancelLease_def)

lemma gate_steps_unavailable:
  "gate_step\<^sup>*\<^sup>* g h \<Longrightarrow> unavailable g = Some e \<Longrightarrow> unavailable h = Some e"
  by (induction rule: rtranclp_induct) (auto intro: gate_step_unavailable)

text \<open>once the lease deadline has passed, an admission attempt is refused, and from then on
  every attempt in every later state of the gate is refused with the same error.\<close>

theorem expired_lease_closes_gate:
  assumes "leaseUntil g \<noteq> 0" and "leaseUntil g \<le> now"
  shows "\<exists>h e. tryAdmit now cls res auth parent g = (h, Refused e) \<and>
    (\<forall>k now' cls' res' auth' parent'. gate_step\<^sup>*\<^sup>* h k \<longrightarrow>
      tryAdmit now' cls' res' auth' parent' k = (k, Refused e))"
proof -
  let ?h = "expireLease now g"
  obtain e where e: "unavailable ?h = Some e"
    using assms
    by (cases "unavailable g") (auto simp: expireLease_def signalLocked_def cancelLease_def)
  have "tryAdmit now cls res auth parent g = (?h, Refused e)"
    using e by (simp add: tryAdmit_def Let_def)
  moreover have "tryAdmit now' cls' res' auth' parent' k = (k, Refused e)" if "gate_step\<^sup>*\<^sup>* ?h k"
    for k now' cls' res' auth' parent'
    using gate_steps_unavailable [OF that e] by (rule tryAdmit_unavailable)
  ultimately show ?thesis by blast
qed

theorem expired_lease_closes_gate_witness:
  "\<exists>h e. tryAdmit 30 Interactive REST InstallationAuth None (setLeaseUntil 20 (New demo_opts)) = (h, Refused e)"
proof -
  have l: "leaseUntil (setLeaseUntil 20 (New demo_opts)) = 20"
    by (simp add: setLeaseUntil_def signalLocked_def New_def Let_def split: prod.split)
  then show ?thesis
    using expired_lease_closes_gate [of "setLeaseUntil 20 (New demo_opts)" 30] by (simp only: l) force
qed

text \<open>Losing the lease aborts everything at once: no admission, slot or reservation survives,
  and the gate refuses from then on.\<close>

theorem lost_lease_drains_gate:
  assumes "gate_reach opts g"
  shows "admissions (loseLease err g) = Map.empty \<and> inFlight (loseLease err g) = 0 \<and>
    (\<forall>p. pool_reserved (loseLease err g) p = 0) \<and>
    (\<exists>e. \<forall>now cls res auth parent.
      tryAdmit now cls res auth parent (loseLease err g) = (loseLease err g, Refused e))"
proof -
  let ?h = "loseLease err g"
  from assms have inv: "gate_inv g" by (rule gate_reach_inv)
  then have "gate_inv (stopAdmission e (cancelLease g))" for e
    by (intro same_ledger_inv [OF stopAdmission_ledger] same_ledger_inv [OF cancelLease_ledger])
  then have empty: "admissions ?h = Map.empty"
    by (simp add: loseLease_def cancelAdmissions_empty)
  obtain e where "unavailable ?h = Some e"
    by (cases "unavailable g") (auto simp: loseLease_def Let_def stopAdmission_def signalLocked_def cancelLease_def)
  then have "\<forall>now cls res auth parent. tryAdmit now cls res auth parent ?h = (?h, Refused e)"
    by (simp add: tryAdmit_unavailable)
  with empty loseLease_inv [OF inv, of err] show ?thesis
    by (auto simp: gate_inv_defs)
qed

theorem lost_lease_drains_gate_witness:
  "inFlight (loseLease None (fst (tryAdmit 5 Event REST InstallationAuth None (New demo_opts)))) = 0"
proof -
  have "gate_reach demo_opts (fst (tryAdmit 5 Event REST InstallationAuth None (New demo_opts)))"
    by (rule gate_next [OF gate_start], rule gate_step.admit) simp
  from lost_lease_drains_gate [OF this, of None] show ?thesis by simp
qed

section \<open>Observations in any order\<close>

text \<open>
  On known budgets, together with the one unset budget the gate started from, merging is a
  semilattice: the later window wins, in one window the smaller remainder and the larger limit.
\<close>

definition known_or :: "ResourceBudget \<Rightarrow> ResourceBudget \<Rightarrow> bool" where
  "known_or start b \<longleftrightarrow> rb_known b \<or> (b = start \<and> \<not> rb_known start)"

lemma merge_unset:
  "\<not> rb_known x \<Longrightarrow> rb_known y \<Longrightarrow> mergeObservation x y = y"
  "\<not> rb_known y \<Longrightarrow> mergeObservation x y = x"
  by (simp_all add: mergeObservation_def)

lemma merge_known_eq:
  assumes "rb_known x" "rb_known y"
  shows "mergeObservation x y =
    (if rb_reset x < rb_reset y then y else if rb_reset y < rb_reset x then x
     else x\<lparr>rb_remaining := min (rb_remaining x) (rb_remaining y), rb_limit := max (rb_limit x) (rb_limit y)\<rparr>)"
  using assms by (simp add: mergeObservation_def min_def)

lemma merge_known: "rb_known x \<or> rb_known y \<Longrightarrow> rb_known (mergeObservation x y)"
  by (auto simp: mergeObservation_def)

lemma merge_known_assoc:
  assumes "rb_known x" "rb_known y" "rb_known z"
  shows "mergeObservation (mergeObservation x y) z = mergeObservation x (mergeObservation y z)"
  using assms
  by (cases "rb_reset x" "rb_reset y" rule: linorder_cases;
      cases "rb_reset y" "rb_reset z" rule: linorder_cases)
     (simp_all add: merge_known merge_known_eq max.assoc min.assoc)

interpretation rate_merge: observation_merge mergeObservation "known_or start" for start
proof
  fix x y z :: ResourceBudget
  assume v: "known_or start x"
  show "mergeObservation x x = x" by (simp add: mergeObservation_def)
  assume v': "known_or start y"
  show "known_or start (mergeObservation x y)"
    using v v' by (auto simp: known_or_def merge_known merge_unset)
  show "mergeObservation x y = mergeObservation y x"
    using v v' by (auto simp: known_or_def merge_unset merge_known_eq max.commute min.commute)
  assume "known_or start z"
  with v v' show "mergeObservation (mergeObservation x y) z = mergeObservation x (mergeObservation y z)"
    by (auto simp: known_or_def merge_unset merge_known merge_known_assoc)
qed

definition observe_all :: "AuthContext \<Rightarrow> (string \<Rightarrow> string) list \<Rightarrow> Gate \<Rightarrow> Gate" where
  "observe_all auth hs g = foldl (\<lambda>g h. fst (observeREST auth h g)) g hs"

lemma observeREST_resource:
  "resourceLocked (fst (observeREST auth h g)) REST auth =
     (case rest_headers h of None \<Rightarrow> resourceLocked g REST auth
      | Some b \<Rightarrow> mergeObservation (resourceLocked g REST auth) b)"
  by (simp add: observeREST_eq signalLocked_def setResource_def resourceLocked_def split: option.split)

lemma observe_all_resource:
  "resourceLocked (observe_all auth hs g) REST auth =
     foldl mergeObservation (resourceLocked g REST auth) (List.map_filter rest_headers hs)"
  unfolding observe_all_def
  by (induction hs arbitrary: g)
     (simp_all add: observeREST_resource List.map_filter_simps split: option.split)

lemma set_map_filter_cong: "set xs = set ys \<Longrightarrow> set (List.map_filter f xs) = set (List.map_filter f ys)"
  by (auto simp: List.map_filter_def)

text \<open>C36: the REST budget the gate ends up with depends only on which responses were observed, not
  on the order they arrived in nor on how often.\<close>

theorem rest_observations_commute:
  assumes "set hs = set hs'"
  shows "resourceLocked (observe_all auth hs g) REST auth = resourceLocked (observe_all auth hs' g) REST auth"
proof -
  let ?b = "resourceLocked g REST auth"
  let ?start = "if rb_known ?b then zeroBudget else ?b"
  have v: "list_all (known_or ?start) (List.map_filter rest_headers xs)" for xs
    by (auto simp: list_all_iff List.map_filter_def known_or_def dest: rest_headers_ok)
  have "known_or ?start ?b" by (simp add: known_or_def)
  from rate_merge.foldl_set_determined [OF this v v set_map_filter_cong [OF assms]]
  show ?thesis by (simp add: observe_all_resource)
qed

definition demo_headers :: "string \<Rightarrow> string \<Rightarrow> string \<Rightarrow> string \<Rightarrow> string" where
  "demo_headers l r t k =
     (if k = ''X-RateLimit-Limit'' then l else if k = ''X-RateLimit-Remaining'' then r
      else if k = ''X-RateLimit-Reset'' then t else [])"

theorem rest_observations_commute_witness:
  "resourceLocked (observe_all InstallationAuth
     [demo_headers ''5000'' ''10'' ''7'', demo_headers ''5000'' ''4999'' ''9''] (New demo_opts)) REST InstallationAuth =
   resourceLocked (observe_all InstallationAuth
     [demo_headers ''5000'' ''4999'' ''9'', demo_headers ''5000'' ''10'' ''7'', demo_headers ''5000'' ''10'' ''7'']
       (New demo_opts)) REST InstallationAuth"
  by (rule rest_observations_commute) auto

section \<open>Secondary limits\<close>

lemma gate_step_backoff: "gate_step g h \<Longrightarrow> backoffLocked g auth \<le> backoffLocked h auth"
proof (induction rule: gate_step.induct)
  case (admit res g now cls auth' parent)
  obtain h d where hd: "tryAdmit now cls res auth' parent g = (h, d)" by force
  then have "backoffUntil h = backoffUntil g" "appJWTBackoffUntil h = appJWTBackoffUntil g"
    by (cases rule: tryAdmit_cases; auto dest: admitEntry_frame)+
  with hd show ?case by (simp add: backoffLocked_def)
next
  case (observe_rest g auth' hdr)
  then show ?case
    by (simp add: observeREST_eq signalLocked_def setResource_def backoffLocked_def split: option.split)
qed (auto simp: backoffLocked_def observeGraphQL_def raiseBackoff_def restore_def setLeaseUntil_def
    stopAdmission_def loseLease_def Let_def signalLocked_def setBackoffLocked_def cancelLease_def)

lemma gate_steps_backoff: "gate_step\<^sup>*\<^sup>* g h \<Longrightarrow> backoffLocked g auth \<le> backoffLocked h auth"
  by (induction rule: rtranclp_induct) (auto dest: gate_step_backoff [of _ _ auth])

lemma loseLease_backoff [simp]: "backoffLocked (loseLease err g) auth = backoffLocked g auth"
  by (simp add: loseLease_def Let_def stopAdmission_def signalLocked_def cancelLease_def backoffLocked_def)

lemma raiseBackoff_raises:
  "until \<le> backoffLocked (fst (raiseBackoff auth until g)) auth"
  "auth' \<noteq> auth \<Longrightarrow> auth_valid auth \<Longrightarrow> auth_valid auth' \<Longrightarrow>
     backoffLocked (fst (raiseBackoff auth until g)) auth' = backoffLocked g auth'"
  by (cases auth; cases auth'; simp add: raiseBackoff_def signalLocked_def setBackoffLocked_def backoffLocked_def)+

lemma observeSecondaryLimit_backoff:
  assumes "secondaryDeadline parse_time now (secondaryLimitFallback g) resp = Inr (Some until)"
  shows "backoffLocked (fst (observeSecondaryLimit parse_time now persist auth resp g)) auth' =
    backoffLocked (fst (raiseBackoff auth until g)) auth'"
  using assms
  by (auto simp: observeSecondaryLimit_def Let_def split: prod.split sum.split bool.split)

lemma secondaryDeadline_retry_after:
  assumes "status resp = 403 \<or> status resp = 429"
    and "parse_int64 (trim_space (header resp ''Retry-After'')) = Some n" and "0 \<le> n"
  shows "secondaryDeadline parse_time now fb resp = Inr (Some (now + wrap64 (n * second)))"
proof -
  from assms(2) have "trim_space (header resp ''Retry-After'') \<noteq> []" by (intro notI) simp
  with assms show ?thesis by (auto simp: secondaryDeadline_def retryAfterDeadline_def Let_def)
qed

text \<open>A 403 or 429 response with a \<open>Retry-After\<close> of \<open>n\<close> seconds (below the 64-bit nanosecond
  range) closes its credential context for exactly that long: whatever the store answers and
  whatever the gate does afterwards, no request of that context is admitted before the
  deadline; the other context's backoff is unchanged.\<close>

theorem retry_after_honoured:
  assumes "status resp = 403 \<or> status resp = 429"
    and "parse_int64 (trim_space (header resp ''Retry-After'')) = Some n"
    and "0 \<le> n" "n \<le> 9223372036"
    and "gate_step\<^sup>*\<^sup>* (fst (observeSecondaryLimit parse_time now persist auth resp g)) h"
    and "now' < now + n * second"
  shows "\<not> (\<exists>k a. tryAdmit now' cls res auth parent h = (k, Admitted a)) \<and>
    (\<forall>auth'. auth' \<noteq> auth \<longrightarrow> auth_valid auth \<longrightarrow> auth_valid auth' \<longrightarrow>
       backoffLocked (fst (observeSecondaryLimit parse_time now persist auth resp g)) auth' =
         backoffLocked g auth')"
proof -
  have "wrap64 (n * second) = n * second" using assms(3,4) by (intro wrap64_id) (auto simp: second_def)
  with secondaryDeadline_retry_after [OF assms(1-3)]
  have d: "secondaryDeadline parse_time now (secondaryLimitFallback g) resp = Inr (Some (now + n * second))"
    by simp
  have "now + n * second \<le> backoffLocked h auth"
    using gate_steps_backoff [OF assms(5), of auth] raiseBackoff_raises(1) [of "now + n * second" auth g]
    unfolding observeSecondaryLimit_backoff [OF d] by linarith
  with assms(6) have late: "now' < backoffLocked h auth" by linarith
  have "\<not> (\<exists>k a. tryAdmit now' cls res auth parent h = (k, Admitted a))"
  proof
    assume "\<exists>k a. tryAdmit now' cls res auth parent h = (k, Admitted a)"
    then obtain k a where "tryAdmit now' cls res auth parent h = (k, Admitted a)" by blast
    then show False by (cases rule: tryAdmit_cases) (use late in auto)
  qed
  then show ?thesis by (auto simp: observeSecondaryLimit_backoff [OF d] raiseBackoff_raises(2))
qed

definition demo_429 :: "string \<Rightarrow> http_response" where
  "demo_429 raw = \<lparr>status = 429, header = (\<lambda>k. if k = ''Retry-After'' then raw else []),
     body = None, body_err = None\<rparr>"

theorem retry_after_honoured_witness:
  "\<not> (\<exists>k a. tryAdmit (6 * second) Interactive REST InstallationAuth None
      (fst (observeSecondaryLimit (\<lambda>_. None) (5 * second) (\<lambda>_ _. Inr True) InstallationAuth
        (demo_429 ''60'') (New demo_opts))) = (k, Admitted a))"
proof -
  have p: "parse_int64 (trim_space (header (demo_429 ''60'') ''Retry-After'')) = Some 60"
    by (simp add: demo_429_def trim_space_def is_space_def parse_int64_def Let_def)
  have s: "status (demo_429 ''60'') = 403 \<or> status (demo_429 ''60'') = 429" by (simp add: demo_429_def)
  show ?thesis
    using retry_after_honoured [OF s p _ _ rtranclp.rtrancl_refl, of "6 * second" "5 * second"]
    by (simp add: second_def)
qed

text \<open>Beyond that range the 64-bit product of \<open>retryAfterDeadline\<close> wraps: a \<open>Retry-After\<close> of
  9223372037 seconds yields a deadline almost three centuries in the past, so the gate stays
  open although the server asked it to close.\<close>

theorem retry_after_overflow:
  assumes "0 \<le> now"
  shows "retryAfterDeadline parse_time now ''9223372037'' = Inr (now - 9223372036709551616) \<and>
   (\<exists>a. snd (tryAdmit now Interactive REST InstallationAuth None
      (fst (observeSecondaryLimit parse_time now persist InstallationAuth
        (demo_429 ''9223372037'') (New demo_opts)))) = Admitted a)"
proof -
  have p: "parse_int64 ''9223372037'' = Some 9223372037" by (simp add: parse_int64_def Let_def)
  have w: "wrap64 (9223372037 * second) = - 9223372036709551616" by (simp add: wrap64_def second_def)
  have t: "trim_space (header (demo_429 ''9223372037'') ''Retry-After'') = ''9223372037''"
    by (simp add: demo_429_def trim_space_def is_space_def Let_def)
  have d: "secondaryDeadline parse_time now fb (demo_429 ''9223372037'') =
      Inr (Some (now - 9223372036709551616))" for fb
    using secondaryDeadline_retry_after [of "demo_429 ''9223372037''" 9223372037 parse_time now fb] p t w
    by (simp add: demo_429_def)
  show ?thesis
    using p w d assms
    by (auto simp: retryAfterDeadline_def observeSecondaryLimit_def raiseBackoff_def tryAdmit_def
        demo_simps signalLocked_def setBackoffLocked_def)
qed

theorem retry_after_overflow_witness:
  "retryAfterDeadline (\<lambda>_. None) (63900000000 * second) ''9223372037'' =
     Inr (63900000000 * second - 9223372036709551616)"
proof -
  have "0 \<le> 63900000000 * second" by (simp add: second_def)
  from retry_after_overflow [OF this] show ?thesis by blast
qed

section \<open>Renewing a token inside an admitted request\<close>

text \<open>A token mint issued by the before-send hook of an admitted request reuses that request's
  slot: it is admitted even when every slot is taken, keeps the number of requests in flight,
  and still reserves its own App-JWT points.\<close>

theorem nested_mint_admitted:
  assumes "unavailable (expireLease now g) = None" and "backoffLocked g AppJWTAuth \<le> now"
    and "admissions g (ad_id p) = Some p" and "ad_holds p"
    and "\<not> starved now g cls REST AppJWTAuth"
  shows "\<exists>h a. tryAdmit now cls REST AppJWTAuth (Some p) g = (h, Admitted a) \<and> \<not> ad_holds a \<and>
    inFlight h = inFlight g \<and> appRESTReserved h = appRESTReserved g + restEstimate g"
proof -
  have led: "inFlight (expireLease now g) = inFlight g" "restEstimate (expireLease now g) = restEstimate g"
    "appRESTReserved (expireLease now g) = appRESTReserved g"
    using expireLease_ledger [of now g] by (simp_all add: same_ledger_def)
  with assms show ?thesis
    by (simp add: tryAdmit_def reuseSlot_def Let_def admitEntry_def)
qed

theorem nested_mint_admitted_witness:
  "\<exists>p h a. snd (tryAdmit 5 Event REST InstallationAuth None (New demo_opts)) = Admitted p \<and>
     maxConcurrent (New demo_opts) = 1 \<and>
     tryAdmit 6 Event REST AppJWTAuth (Some p)
       (fst (tryAdmit 5 Event REST InstallationAuth None (New demo_opts))) = (h, Admitted a)"
proof -
  let ?p = "\<lparr>ad_id = 1, ad_resource = REST, ad_auth = InstallationAuth, ad_cost = 1, ad_holds = True\<rparr>"
  let ?g = "fst (tryAdmit 5 Event REST InstallationAuth None (New demo_opts))"
  have p: "snd (tryAdmit 5 Event REST InstallationAuth None (New demo_opts)) = Admitted ?p"
    by (simp add: tryAdmit_def demo_simps)
  have "unavailable (expireLease 6 ?g) = None" "backoffLocked ?g AppJWTAuth \<le> 6"
    "admissions ?g (ad_id ?p) = Some ?p" "ad_holds ?p" "\<not> starved 6 ?g Event REST AppJWTAuth"
    by (simp_all add: demo_admit) (simp_all add: demo_simps)
  from nested_mint_admitted [OF this] p show ?thesis
    by (auto simp: New_def demo_opts_def Let_def split: prod.split)
qed

section \<open>The admission loop\<close>

text \<open>The gate each attempt of the loop sees, when the caller keeps waiting.\<close>

fun gate_at :: "(nat \<Rightarrow> gotime) \<Rightarrow> (nat \<Rightarrow> Gate \<Rightarrow> gerror + Gate) \<Rightarrow> nat \<Rightarrow> Class \<Rightarrow> Request \<Rightarrow>
    admission option \<Rightarrow> Gate \<Rightarrow> nat \<Rightarrow> Gate option" where
  "gate_at clk env i cls req parent g 0 = Some g"
| "gate_at clk env i cls req parent g (Suc n) =
     (case env i (fst (tryAdmit (clk i) cls (rq_resource req) (rq_auth req) parent g)) of
        Inl e \<Rightarrow> None
      | Inr g' \<Rightarrow> gate_at clk env (Suc i) cls req parent g' n)"

definition must_wait :: "admissionDecision \<Rightarrow> bool" where
  "must_wait d = (case d of WaitFor _ _ _ \<Rightarrow> True | _ \<Rightarrow> False)"

text \<open>the admission loop returns as soon as one attempt need not wait (the request is admitted,
  refused, or its context ends before that), and a call reports starvation at most once.\<close>

theorem admit_loop_returns:
  assumes "\<forall>k. gate_at clk env i cls req parent g n = Some k \<longrightarrow>
    \<not> must_wait (snd (tryAdmit (clk (i + n)) cls (rq_resource req) (rq_auth req) parent k))"
  shows "\<exists>h reports r. admit_loop (Suc n) clk env i cls req parent reported g = Some (h, reports, r) \<and>
    length reports \<le> (if reported then 0 else 1)"
  using assms
proof (induction n arbitrary: i g reported)
  case 0
  then show ?case
    by (auto simp: must_wait_def split: prod.split admissionDecision.splits)
next
  case (Suc n)
  obtain g1 d where gd: "tryAdmit (clk i) cls (rq_resource req) (rq_auth req) parent g = (g1, d)" by force
  show ?case
  proof (cases d)
    case (WaitFor u c st)
    show ?thesis
    proof (cases "env i g1")
      case (Inl e)
      with gd WaitFor show ?thesis by (cases st) auto
    next
      case (Inr g2)
      with Suc.prems gd have "\<forall>k. gate_at clk env (Suc i) cls req parent g2 n = Some k \<longrightarrow>
          \<not> must_wait (snd (tryAdmit (clk (Suc i + n)) cls (rq_resource req) (rq_auth req) parent k))"
        by simp
      from Suc.IH [OF this, of "reported \<or> st \<noteq> None"] obtain h reports r where
        rec: "admit_loop (Suc n) clk env (Suc i) cls req parent (reported \<or> st \<noteq> None) g2 = Some (h, reports, r)"
        and len: "length reports \<le> (if reported \<or> st \<noteq> None then 0 else 1)" by blast
      show ?thesis
        using gd WaitFor Inr rec len
        by (simp del: admit_loop.simps add: admit_loop.simps(2) [of "Suc n"] split: option.split if_splits)
    qed
  qed (use gd in auto)
qed

text \<open>A full gate: the second request waits until the first is finished, then is admitted.\<close>

definition demo_request :: Request where
  "demo_request = NewRESTRequest (Some \<lparr>hr_path = ''/repos/o/r'', hr_if_none_match = []\<rparr>)"

definition demo_env :: "nat \<Rightarrow> Gate \<Rightarrow> gerror + Gate" where
  "demo_env i g = Inr (cancelAdmissions g)"

theorem admit_loop_returns_witness:
  "\<exists>h reports r. admit_loop 2 (\<lambda>_. 5) demo_env 0 Event demo_request None False
     (fst (tryAdmit 5 Event REST InstallationAuth None (New demo_opts))) = Some (h, reports, r)"
proof -
  let ?g = "fst (tryAdmit 5 Event REST InstallationAuth None (New demo_opts))"
  have "\<forall>k. gate_at (\<lambda>_. 5) demo_env 0 Event demo_request None ?g 1 = Some k \<longrightarrow>
      \<not> must_wait (snd (tryAdmit 5 Event (rq_resource demo_request) (rq_auth demo_request) None k))"
    by (simp add: demo_admit demo_env_def cancelAdmissions_def admission_entries_def must_wait_def
        finishAdmission_def tryAdmit_def demo_simps demo_request_def NewRESTRequest_def
        NewInstallationRESTRequest_def signalLocked_def)
  then show ?thesis
    using admit_loop_returns [of "\<lambda>_. 5" demo_env 0 Event demo_request None ?g 1 False]
    by (simp only: numeral_2_eq_2 One_nat_def add_0) blast
qed

text \<open>An exchange whose response has no open body (no response at all, no body, a body the
  observers drained, or a failing before-send hook) has released its admission, hence its slot
  and its reservation, when \<open>doAdmitted\<close> returns.\<close>

theorem exchange_releases_admission:
  assumes "doAdmitted parse_time now persist cls req httpReq ex adm g = (h, rsp, err, obs)"
    and "snd (ex_before ex g) \<noteq> None \<or> ex_resp ex = None \<or> ex_drained ex \<or>
      (\<exists>resp. ex_resp ex = Some resp \<and> \<not> usableBody resp)"
  shows "admissions h (ad_id adm) = None"
  using assms
  by (auto simp: doAdmitted_def Let_def finishAdmission_lookup
      split: prod.splits option.splits if_splits)

definition demo_exchange :: exchange where
  "demo_exchange = \<lparr>ex_before = (\<lambda>g. (g, None)), ex_resp = Some (demo_429 ''1''), ex_err = None,
     ex_drained = False, ex_rate = None, ex_rate_err = None\<rparr>"

theorem exchange_releases_admission_witness:
  "\<exists>h rsp err obs. doAdmitted (\<lambda>_. None) 5 (\<lambda>_ _. Inr True) Event demo_request
      \<lparr>hr_path = ''/repos/o/r'', hr_if_none_match = []\<rparr> demo_exchange
      \<lparr>ad_id = 1, ad_resource = REST, ad_auth = InstallationAuth, ad_cost = 1, ad_holds = True\<rparr>
      (fst (tryAdmit 5 Event REST InstallationAuth None (New demo_opts))) = (h, rsp, err, obs) \<and>
    admissions h 1 = None"
proof -
  obtain h rsp err obs where e: "doAdmitted (\<lambda>_. None) 5 (\<lambda>_ _. Inr True) Event demo_request
      \<lparr>hr_path = ''/repos/o/r'', hr_if_none_match = []\<rparr> demo_exchange
      \<lparr>ad_id = 1, ad_resource = REST, ad_auth = InstallationAuth, ad_cost = 1, ad_holds = True\<rparr>
      (fst (tryAdmit 5 Event REST InstallationAuth None (New demo_opts))) = (h, rsp, err, obs)"
    by (metis prod_cases4)
  have "\<exists>resp. ex_resp demo_exchange = Some resp \<and> \<not> usableBody resp"
    by (simp add: demo_exchange_def demo_429_def usableBody_def)
  with exchange_releases_admission [OF e] e show ?thesis by auto
qed

end
