(* ===== verification/Budget_Lease.thy ===== *)
theory Budget_Lease
  imports Gate_Properties
begin

text \<open>
  \<open>src/internal/budget/lease.go\<close> and \<open>src/db/queries/installation_budgets.sql\<close>: the Postgres
  lease that makes one process the budgeter of an installation, the periodic snapshots, and
  the runtime that renews the lease and closes the gate when it is lost.

  The table is a map from \<open>(installation, class)\<close> to rows; its CHECK constraint allows the three
  classes of \<open>budget_classes\<close>. A statement is one function on the table. \<open>clock_timestamp()\<close> is
  volatile: where a query calls it in the WHERE clause, each row has its own reading (\<open>clk\<close>),
  and where a CTE materializes it, all rows share one. Timestamps are stored in microseconds.
\<close>

section \<open>The table\<close>

record budget_row =
  br_remaining :: "int option"
  br_limit :: "int option"
  br_reset :: "gotime option"
  br_owner :: "string option"
  br_until :: "gotime option"
  br_backoff :: "gotime option"

type_synonym budget_table = "int \<times> string \<Rightarrow> budget_row option"

definition appRESTBudgetClass :: string where "appRESTBudgetClass = ''app_jwt_rest''"

definition budget_classes :: "string list" where
  "budget_classes = [''rest'', ''app_jwt_rest'', ''graphql'']"

definition empty_row :: budget_row where
  "empty_row = \<lparr>br_remaining = None, br_limit = None, br_reset = None, br_owner = None,
     br_until = None, br_backoff = None\<rparr>"

text \<open>\<open>ttl_seconds * interval '1 second'\<close>, rounded to the nearest microsecond.\<close>

definition pg_interval :: "duration \<Rightarrow> duration" where
  "pg_interval d = (let q = d div 1000; r = d mod 1000 in
     (if 500 < r \<or> (r = 500 \<and> odd q) then q + 1 else q) * 1000)"

text \<open>The rows of one installation, and an UPDATE of those among them that satisfy a condition.\<close>

definition budget_rows :: "budget_table \<Rightarrow> int \<Rightarrow> (string \<times> budget_row) list" where
  "budget_rows db inst =
     concat (map (\<lambda>c. case db (inst, c) of None \<Rightarrow> [] | Some r \<Rightarrow> [(c, r)]) budget_classes)"

definition update_rows :: "int \<Rightarrow> (string \<Rightarrow> budget_row \<Rightarrow> bool) \<Rightarrow> (string \<Rightarrow> budget_row \<Rightarrow> budget_row) \<Rightarrow>
    budget_table \<Rightarrow> budget_table" where
  "update_rows inst cond f db = (\<lambda>(i, c). case db (i, c) of
       None \<Rightarrow> None
     | Some r \<Rightarrow> if i = inst \<and> c \<in> set budget_classes \<and> cond c r then Some (f c r) else Some r)"

definition affected_rows :: "int \<Rightarrow> (string \<Rightarrow> budget_row \<Rightarrow> bool) \<Rightarrow> budget_table \<Rightarrow> (string \<times> budget_row) list" where
  "affected_rows inst cond db = filter (\<lambda>(c, r). cond c r) (budget_rows db inst)"

section \<open>The queries\<close>

definition pg_ensure :: "int \<Rightarrow> budget_table \<Rightarrow> budget_table" where
  "pg_ensure inst db = (\<lambda>(i, c). case db (i, c) of
       Some r \<Rightarrow> Some r
     | None \<Rightarrow> if i = inst \<and> c \<in> set budget_classes then Some empty_row else None)"

definition until_at_most :: "gotime option \<Rightarrow> gotime \<Rightarrow> bool" where
  "until_at_most u t = (case u of None \<Rightarrow> False | Some x \<Rightarrow> x \<le> t)"

definition until_after :: "gotime option \<Rightarrow> gotime \<Rightarrow> bool" where
  "until_after u t = (case u of None \<Rightarrow> False | Some x \<Rightarrow> t < x)"

definition acquirable :: "string \<Rightarrow> (string \<Rightarrow> gotime) \<Rightarrow> string \<Rightarrow> budget_row \<Rightarrow> bool" where
  "acquirable token clk c r =
     (br_owner r = None \<or> until_at_most (br_until r) (clk c) \<or> br_owner r = Some token)"

definition pg_acquire :: "int \<Rightarrow> string \<Rightarrow> duration \<Rightarrow> gotime \<Rightarrow> (string \<Rightarrow> gotime) \<Rightarrow> budget_table \<Rightarrow>
    budget_table \<times> (string \<times> budget_row) list" where
  "pg_acquire inst token ttl now clk db =
     (let f = (\<lambda>c r. r\<lparr>br_owner := Some token, br_until := Some (now + pg_interval ttl)\<rparr>)
      in (update_rows inst (acquirable token clk) f db,
          map (\<lambda>(c, r). (c, f c r)) (affected_rows inst (acquirable token clk) db)))"

definition renewable :: "string \<Rightarrow> (string \<Rightarrow> gotime) \<Rightarrow> string \<Rightarrow> budget_row \<Rightarrow> bool" where
  "renewable token clk c r = (br_owner r = Some token \<and> until_after (br_until r) (clk c))"

definition pg_renew :: "int \<Rightarrow> string \<Rightarrow> duration \<Rightarrow> gotime \<Rightarrow> (string \<Rightarrow> gotime) \<Rightarrow> budget_table \<Rightarrow>
    budget_table \<times> gotime option list" where
  "pg_renew inst token ttl now clk db =
     (let u = now + pg_interval ttl
      in (update_rows inst (renewable token clk) (\<lambda>c r. r\<lparr>br_until := Some u\<rparr>) db,
          map (\<lambda>_. Some u) (affected_rows inst (renewable token clk) db)))"

fun later_backoff :: "gotime option \<Rightarrow> gotime option \<Rightarrow> gotime option" where
  "later_backoff None new = new"
| "later_backoff (Some old) None = Some old"
| "later_backoff (Some old) (Some new) = Some (if old < new then new else old)"

record saved_budget =
  sb_remaining :: "int option"
  sb_limit :: "int option"
  sb_reset :: "gotime option"

definition pg_save :: "int \<Rightarrow> string \<Rightarrow> gotime \<Rightarrow> (string \<Rightarrow> saved_budget) \<Rightarrow> gotime option \<Rightarrow>
    gotime option \<Rightarrow> budget_table \<Rightarrow> budget_table \<times> nat" where
  "pg_save inst token checked_at values backoff app_backoff db =
     (let f = (\<lambda>c r. r\<lparr>br_remaining := sb_remaining (values c), br_limit := sb_limit (values c),
                      br_reset := sb_reset (values c),
                      br_backoff := later_backoff (br_backoff r)
                        (if c = appRESTBudgetClass then app_backoff else backoff)\<rparr>)
      in (update_rows inst (renewable token (\<lambda>_. checked_at)) f db,
          length (affected_rows inst (renewable token (\<lambda>_. checked_at)) db)))"

definition backoff_classes :: "AuthContext \<Rightarrow> string \<Rightarrow> bool" where
  "backoff_classes auth c =
     ((auth = InstallationAuth \<and> (c = ''rest'' \<or> c = ''graphql'')) \<or>
      (auth = AppJWTAuth \<and> c = appRESTBudgetClass))"

definition pg_save_backoff :: "int \<Rightarrow> string \<Rightarrow> gotime \<Rightarrow> AuthContext \<Rightarrow> gotime option \<Rightarrow> budget_table \<Rightarrow>
    budget_table \<times> nat" where
  "pg_save_backoff inst token checked_at auth until db =
     (let rows = budget_rows db inst;
          active = (length rows = 3 \<and> list_all (\<lambda>(c, r). renewable token (\<lambda>_. checked_at) c r) rows);
          cond = (\<lambda>c r. active \<and> backoff_classes auth c)
      in (update_rows inst cond (\<lambda>c r. r\<lparr>br_backoff := later_backoff (br_backoff r) until\<rparr>) db,
          length (affected_rows inst cond db)))"

definition pg_release :: "int \<Rightarrow> string \<Rightarrow> budget_table \<Rightarrow> budget_table \<times> nat" where
  "pg_release inst token db =
     (let cond = (\<lambda>c r. br_owner r = Some token)
      in (update_rows inst cond (\<lambda>c r. r\<lparr>br_owner := None, br_until := None\<rparr>) db,
          length (affected_rows inst cond db)))"

section \<open>The lease store\<close>

definition validateLeaseIdentity :: "int \<Rightarrow> string \<Rightarrow> duration \<Rightarrow> gerror option" where
  "validateLeaseIdentity inst token ttl =
     (if inst \<le> 0 then Some (ErrText ''installation ID must be positive'')
      else if token = [] then Some (ErrText ''lease token is required'')
      else if ttl \<le> 0 then Some (ErrText ''lease TTL must be positive'')
      else None)"

definition restoredBudget :: "int option \<Rightarrow> int option \<Rightarrow> gotime option \<Rightarrow> ResourceBudget" where
  "restoredBudget remaining limit resetAt =
     (case (remaining, limit, resetAt) of
        (Some r, Some l, Some t) \<Rightarrow>
          \<lparr>rb_known = True, rb_limit = l, rb_remaining = r, rb_reset = t\<rparr>
      | _ \<Rightarrow> zeroBudget)"

definition persistedValues :: "ResourceBudget \<Rightarrow> saved_budget" where
  "persistedValues state =
     (if \<not> rb_known state then \<lparr>sb_remaining = None, sb_limit = None, sb_reset = None\<rparr>
      else \<lparr>sb_remaining = Some (rb_remaining state), sb_limit = Some (rb_limit state),
            sb_reset = Some (pg_timestamp (rb_reset state))\<rparr>)"

definition timestamp :: "gotime \<Rightarrow> gotime option" where
  "timestamp t = (if isZero t then None else Some (pg_timestamp t))"

fun expiry_scan :: "gotime \<Rightarrow> gotime option list \<Rightarrow> gerror + gotime" where
  "expiry_scan first [] = Inr first"
| "expiry_scan first (None # _) = Inl (ErrText ''lease expiry row is invalid'')"
| "expiry_scan first (Some t # ts) =
     (if t \<noteq> first then Inl (ErrText ''inconsistent lease expiries'') else expiry_scan first ts)"

definition authoritativeExpiry :: "gotime option list \<Rightarrow> gerror + gotime option" where
  "authoritativeExpiry values =
     (if values = [] then Inr None
      else if length values \<noteq> 3 then Inl (ErrText ''lease expiry rows: want 3 valid rows'')
      else case hd values of
        None \<Rightarrow> Inl (ErrText ''lease expiry row is invalid'')
      | Some t \<Rightarrow> (case expiry_scan t values of Inl e \<Rightarrow> Inl e | Inr u \<Rightarrow> Inr (Some u)))"

definition emptySnapshot :: Snapshot where
  "emptySnapshot = \<lparr>sn_rest = zeroBudget, sn_app = zeroBudget, sn_graphql = zeroBudget,
     sn_backoff = 0, sn_app_backoff = 0, sn_inflight = 0\<rparr>"

fun scan_row :: "string \<times> budget_row \<Rightarrow> Snapshot \<Rightarrow> gerror + Snapshot" where
  "scan_row (c, r) s =
     (let state = restoredBudget (br_remaining r) (br_limit r) (br_reset r);
          s1 = (if c = ''rest'' then Inr (s\<lparr>sn_rest := state\<rparr>)
                else if c = appRESTBudgetClass then Inr (s\<lparr>sn_app := state\<rparr>)
                else if c = ''graphql'' then Inr (s\<lparr>sn_graphql := state\<rparr>)
                else Inl (ErrText ''unknown persisted budget class''))
      in case s1 of
           Inl e \<Rightarrow> Inl e
         | Inr s' \<Rightarrow>
             (case br_backoff r of
                None \<Rightarrow> Inr s'
              | Some b \<Rightarrow>
                  if c = appRESTBudgetClass then
                    Inr (if sn_app_backoff s' < b then s'\<lparr>sn_app_backoff := b\<rparr> else s')
                  else Inr (if sn_backoff s' < b then s'\<lparr>sn_backoff := b\<rparr> else s')))"

fun scan_rows :: "(string \<times> budget_row) list \<Rightarrow> Snapshot \<Rightarrow> gerror + Snapshot" where
  "scan_rows [] s = Inr s"
| "scan_rows (x # xs) s = (case scan_row x s of Inl e \<Rightarrow> Inl e | Inr s' \<Rightarrow> scan_rows xs s')"

definition scanAcquiredBudgetRows :: "(string \<times> budget_row) list \<Rightarrow> gerror + Snapshot \<times> gotime" where
  "scanAcquiredBudgetRows rows =
     (if length rows \<noteq> 3 then Inl (ErrText ''acquire budget lease: updated rows, want 3'')
      else case scan_rows rows emptySnapshot of
        Inl e \<Rightarrow> Inl e
      | Inr snap \<Rightarrow>
          (case authoritativeExpiry (map (\<lambda>(c, r). br_until r) rows) of
             Inl e \<Rightarrow> Inl (ErrWrap ''acquire budget lease expiry'' [e])
           | Inr None \<Rightarrow> Inl (ErrText ''acquire budget lease expiry'')
           | Inr (Some u) \<Rightarrow> Inr (snap, u)))"

text \<open>
  \<open>Acquire\<close> runs in one transaction: an error after the UPDATE rolls it back. \<open>Inr None\<close> is
  \<open>acquired = false\<close>. The other methods are single statements outside a transaction, so what
  they wrote stays even when the method reports an error.
\<close>

definition Acquire :: "int \<Rightarrow> string \<Rightarrow> duration \<Rightarrow> gotime \<Rightarrow> (string \<Rightarrow> gotime) \<Rightarrow> budget_table \<Rightarrow>
    budget_table \<times> (gerror + (Snapshot \<times> gotime) option)" where
  "Acquire inst token ttl now clk db =
     (case validateLeaseIdentity inst token ttl of
        Some e \<Rightarrow> (db, Inl e)
      | None \<Rightarrow>
          (case pg_acquire inst token ttl now clk (pg_ensure inst db) of
             (db2, rows) \<Rightarrow>
               if rows = [] then (pg_ensure inst db, Inr None)
               else (case scanAcquiredBudgetRows rows of
                   Inl e \<Rightarrow> (db, Inl e)
                 | Inr r \<Rightarrow> (db2, Inr (Some r)))))"

definition Renew :: "int \<Rightarrow> string \<Rightarrow> duration \<Rightarrow> gotime \<Rightarrow> (string \<Rightarrow> gotime) \<Rightarrow> budget_table \<Rightarrow>
    budget_table \<times> (gerror + gotime option)" where
  "Renew inst token ttl now clk db =
     (case validateLeaseIdentity inst token ttl of
        Some e \<Rightarrow> (db, Inl e)
      | None \<Rightarrow> (case pg_renew inst token ttl now clk db of
            (db2, rows) \<Rightarrow> (db2, authoritativeExpiry rows)))"

definition saved_values :: "Snapshot \<Rightarrow> string \<Rightarrow> saved_budget" where
  "saved_values snap c =
     persistedValues (if c = ''rest'' then sn_rest snap
       else if c = appRESTBudgetClass then sn_app snap else sn_graphql snap)"

definition Save :: "int \<Rightarrow> string \<Rightarrow> gotime \<Rightarrow> Snapshot \<Rightarrow> budget_table \<Rightarrow> budget_table \<times> bool" where
  "Save inst token now snap db =
     (case pg_save inst token now (saved_values snap) (timestamp (sn_backoff snap))
         (timestamp (sn_app_backoff snap)) db of
        (db2, affected) \<Rightarrow> (db2, affected = 3))"

definition SaveBackoff :: "int \<Rightarrow> string \<Rightarrow> gotime \<Rightarrow> AuthContext \<Rightarrow> gotime \<Rightarrow> budget_table \<Rightarrow>
    budget_table \<times> (gerror + bool)" where
  "SaveBackoff inst token now auth until db =
     (if \<not> auth_valid auth then (db, Inl (ErrText ''save budget backoff: invalid auth context''))
      else case pg_save_backoff inst token now auth (timestamp until) db of
        (db2, affected) \<Rightarrow> (db2, Inr (affected = (if auth = AppJWTAuth then 1 else 2))))"

definition Release :: "int \<Rightarrow> string \<Rightarrow> budget_table \<Rightarrow> budget_table \<times> gerror option" where
  "Release inst token db =
     (case pg_release inst token db of
        (db2, affected) \<Rightarrow> (db2, if affected \<noteq> 3 then Some ErrLeaseLost else None))"

section \<open>Options and delays\<close>

record LeaseOptions =
  lo_installation :: int
  lo_owner :: string
  lo_ttl :: duration
  lo_renew :: duration
  lo_snapshot :: duration
  lo_timeout :: duration

definition normalizeLeaseOptions :: "LeaseOptions \<Rightarrow> gerror + LeaseOptions" where
  "normalizeLeaseOptions o1 =
     (let o2 = (if lo_ttl o1 \<le> 0 then o1\<lparr>lo_ttl := 30 * second\<rparr> else o1);
          o3 = (if lo_renew o2 \<le> 0 then o2\<lparr>lo_renew := min (10 * second) (lo_ttl o2 sdiv 3)\<rparr> else o2);
          o4 = (if lo_snapshot o3 \<le> 0 then o3\<lparr>lo_snapshot := 30 * second\<rparr> else o3);
          o5 = (if lo_timeout o4 \<le> 0 then o4\<lparr>lo_timeout := min (5 * second) (lo_ttl o4 sdiv 4)\<rparr> else o4)
      in if lo_installation o5 \<le> 0 then Inl (ErrText ''installation ID must be positive'')
         else if lo_owner o5 = [] then Inl (ErrText ''lease owner name is required'')
         else if lo_renew o5 \<le> 0 \<or> lo_ttl o5 \<le> lo_renew o5
           then Inl (ErrText ''budget lease renew interval must be shorter than TTL'')
         else if lo_timeout o5 \<le> 0 \<or> lo_ttl o5 \<le> lo_timeout o5
           then Inl (ErrText ''budget lease store timeout must be shorter than TTL'')
         else Inr o5)"

text \<open>\<open>rnd n\<close> is \<open>rand.Int64N(n)\<close>, a value in \<open>[0, n)\<close>.\<close>

definition standbyRetryDelay :: "(int \<Rightarrow> int) \<Rightarrow> duration \<Rightarrow> duration" where
  "standbyRetryDelay rnd ttl =
     (let maximum = min (ttl sdiv 3) (3 * second)
      in if maximum \<le> 1 then 1
         else let minimum = maximum sdiv 2 in minimum + rnd (maximum - minimum))"

definition renewRetryDelay :: "gotime \<Rightarrow> leaseRuntime \<Rightarrow> duration" where
  "renewRetryDelay now r =
     (let remaining = lr_expiry r - now
      in if remaining \<le> 0 then 0 else min (lr_renew r sdiv 2) (remaining sdiv 2))"

definition setLeaseTransactionTimeouts :: "duration \<Rightarrow> duration option \<Rightarrow> gerror + int" where
  "setLeaseTransactionTimeouts ttl untilDeadline =
     (let t1 = ttl sdiv 3;
          t2 = (case untilDeadline of None \<Rightarrow> t1 | Some d \<Rightarrow> min t1 d)
      in if t2 \<le> 0 then Inl (ErrContext ''context deadline exceeded'')
         else Inr (max millisecond t2 sdiv millisecond))"

section \<open>The runtime\<close>

definition confirmExpiry :: "gotime \<Rightarrow> Gate \<Rightarrow> Gate" where
  "confirmExpiry until g = g\<lparr>lease := map_option (\<lambda>l. l\<lparr>lr_expiry := until\<rparr>) (lease g)\<rparr>"

text \<open>A full \<open>expiryUpdates\<close> channel is emptied first: the newest expiry always replaces the old.\<close>

definition publishExpiry :: "gotime \<Rightarrow> Gate \<Rightarrow> Gate" where
  "publishExpiry until g = g\<lparr>lease := map_option (\<lambda>l. l\<lparr>lr_updates := Some until\<rparr>) (lease g)\<rparr>"

text \<open>
  The branches of \<open>maintainLease\<close>, one per channel; the second component says whether the loop
  goes on. \<open>now\<close> is the runtime's clock when the store has answered.
\<close>

definition renew_tick :: "gotime \<Rightarrow> gerror + gotime option \<Rightarrow> Gate \<Rightarrow> Gate \<times> bool" where
  "renew_tick now result g =
     (case result of
        Inl e \<Rightarrow> (g, True)
      | Inr None \<Rightarrow> (loseLease (Some ErrLeaseLost) g, False)
      | Inr (Some until) \<Rightarrow>
          if isZero until \<or> \<not> now < until then (loseLease (Some ErrLeaseLost) g, False)
          else (publishExpiry until (setLeaseUntil until (confirmExpiry until g)), True))"

definition snapshot_tick :: "gerror + bool \<Rightarrow> Gate \<Rightarrow> Gate \<times> bool" where
  "snapshot_tick result g =
     (case result of
        Inr False \<Rightarrow> (loseLease (Some ErrLeaseLost) g, False)
      | _ \<Rightarrow> (g, True))"

definition lease_context_done :: "gerror \<Rightarrow> Gate \<Rightarrow> Gate" where
  "lease_context_done ctx_err g =
     (if \<not> (case unavailable g of None \<Rightarrow> False | Some e \<Rightarrow> errors_is e ErrClosed)
      then loseLease (Some (ErrWrap [] [ErrLeaseLost, ctx_err])) g else g)"

text \<open>\<open>watchLeaseExpiry\<close>: the timer runs out at the last expiry taken from the channel.\<close>

definition watch_update :: "gotime \<Rightarrow> Gate \<Rightarrow> gotime \<times> Gate" where
  "watch_update expiry g =
     (case lease g of None \<Rightarrow> (expiry, g)
      | Some l \<Rightarrow> (case lr_updates l of None \<Rightarrow> (expiry, g)
           | Some u \<Rightarrow> (u, g\<lparr>lease := Some (l\<lparr>lr_updates := None\<rparr>)\<rparr>)))"

definition watch_expired :: "Gate \<Rightarrow> Gate" where
  "watch_expired g = loseLease (Some ErrLeaseLost) g"

text \<open>\<open>NewLeased\<close>: the nil checks and the token generator are the caller's; \<open>now\<close> is the clock
  after the store answered.\<close>

definition NewLeased :: "Options \<Rightarrow> LeaseOptions \<Rightarrow> string \<Rightarrow> gotime \<Rightarrow> (string \<Rightarrow> gotime) \<Rightarrow> gotime \<Rightarrow>
    budget_table \<Rightarrow> budget_table \<times> (gerror + Gate)" where
  "NewLeased gopts lopts token t_acquire clk now db =
     (case normalizeLeaseOptions lopts of
        Inl e \<Rightarrow> (db, Inl e)
      | Inr lo \<Rightarrow>
          (case Acquire (lo_installation lo) token (lo_ttl lo) t_acquire clk db of
             (db1, Inl e) \<Rightarrow> (db1, Inl e)
           | (db1, Inr None) \<Rightarrow> (db1, Inl ErrLeaseHeld)
           | (db1, Inr (Some (persisted, until))) \<Rightarrow>
               if isZero until \<or> \<not> now < until
               then (fst (Release (lo_installation lo) token db1),
                     Inl (ErrWrap ''acquired lease has expired'' [ErrLeaseLost]))
               else
                 let runtime = \<lparr>lr_installation = lo_installation lo, lr_owner = lo_owner lo,
                       lr_token = token, lr_ttl = lo_ttl lo, lr_renew = lo_renew lo,
                       lr_snapshot = lo_snapshot lo, lr_timeout = lo_timeout lo,
                       lr_cancelled = False, lr_expiry = until, lr_updates = None\<rparr>
                 in (db1, Inr (setLeaseUntil until
                       ((restore persisted (New gopts))\<lparr>lease := Some runtime\<rparr>)))))"

text \<open>
  \<open>Close\<close>: \<open>settle\<close> is what the admitted calls do to the gate while \<open>waitIdle\<close> drains them,
  \<open>drainErr\<close> and \<open>stopErr\<close> are the expiry of the two waits.
\<close>

definition CloseGate :: "(Gate \<Rightarrow> Gate) \<Rightarrow> gerror option \<Rightarrow> gerror option \<Rightarrow> gotime \<Rightarrow> Gate \<Rightarrow> budget_table \<Rightarrow>
    Gate \<times> budget_table \<times> gerror option" where
  "CloseGate settle drainErr stopErr now g db =
     (let g1 = settle (stopAdmission (Some ErrClosed) g);
          g2 = (if drainErr = None then g1 else cancelAdmissions g1)
      in case lease g of
           None \<Rightarrow> (g2, db, drainErr)
         | Some rt \<Rightarrow>
             let g3 = cancelLease g2 in
             (case stopErr of
                Some e \<Rightarrow> (g3, db, joinErrors [drainErr, Some e])
              | None \<Rightarrow>
                  (case Save (lr_installation rt) (lr_token rt) now (SnapshotOf g3) db of
                     (db1, saved) \<Rightarrow>
                       (case Release (lr_installation rt) (lr_token rt) db1 of
                          (db2, releaseErr) \<Rightarrow>
                            (g3, db2, joinErrors
                              [drainErr, if saved then None else Some ErrLeaseLost, releaseErr])))))"

text \<open>
  One iteration of \<open>NewLeasedStandby\<close> as the environment sees it, and the loop. \<open>Inl\<close> of
  \<open>sa_wait\<close> is the cancellation of the retry wait.
\<close>

record standby_attempt =
  sa_before :: "gerror option"
  sa_token :: string
  sa_time :: gotime
  sa_clk :: "string \<Rightarrow> gotime"
  sa_now :: gotime
  sa_after :: "gerror option"
  sa_wait :: "gerror option"

fun standby_loop :: "nat \<Rightarrow> Options \<Rightarrow> LeaseOptions \<Rightarrow> (nat \<Rightarrow> standby_attempt) \<Rightarrow> nat \<Rightarrow> budget_table \<Rightarrow>
    (budget_table \<times> (gerror + Gate)) option" where
  "standby_loop 0 gopts lopts env i db = None"
| "standby_loop (Suc fuel) gopts lopts env i db =
     (case sa_before (env i) of
        Some e \<Rightarrow> Some (db, Inl e)
      | None \<Rightarrow>
          (case NewLeased gopts lopts (sa_token (env i)) (sa_time (env i)) (sa_clk (env i)) (sa_now (env i)) db of
             (db1, Inr g) \<Rightarrow>
               (case sa_after (env i) of
                  None \<Rightarrow> Some (db1, Inr g)
                | Some ctxErr \<Rightarrow>
                    (case CloseGate id None None (sa_now (env i)) g db1 of
                       (g2, db2, None) \<Rightarrow> Some (db2, Inl ctxErr)
                     | (g2, db2, Some closeErr) \<Rightarrow>
                         Some (db2, Inl (ErrWrap [] [ctxErr,
                           ErrWrap ''release budget lease after standby cancellation'' [closeErr]]))))
           | (db1, Inl e) \<Rightarrow>
               if \<not> errors_is e ErrLeaseHeld then Some (db1, Inl e)
               else (case sa_wait (env i) of
                   Some ctxErr \<Rightarrow> Some (db1, Inl ctxErr)
                 | None \<Rightarrow> standby_loop fuel gopts lopts env (Suc i) db1)))"

definition NewLeasedStandby :: "nat \<Rightarrow> Options \<Rightarrow> LeaseOptions \<Rightarrow> (nat \<Rightarrow> standby_attempt) \<Rightarrow> budget_table \<Rightarrow>
    (budget_table \<times> (gerror + Gate)) option" where
  "NewLeasedStandby fuel gopts lopts env db =
     (case normalizeLeaseOptions lopts of
        Inl e \<Rightarrow> Some (db, Inl e)
      | Inr lo \<Rightarrow> standby_loop fuel gopts lo env 0 db)"

section \<open>Row-level facts\<close>

lemma update_rows_lookup:
  "update_rows inst cond f db (i, c) =
     (case db (i, c) of None \<Rightarrow> None
      | Some r \<Rightarrow> if i = inst \<and> c \<in> set budget_classes \<and> cond c r then Some (f c r) else Some r)"
  by (simp add: update_rows_def)

lemma pg_ensure_lookup:
  "pg_ensure inst db (i, c) = (case db (i, c) of Some r \<Rightarrow> Some r
     | None \<Rightarrow> if i = inst \<and> c \<in> set budget_classes then Some empty_row else None)"
  by (simp add: pg_ensure_def)

lemma budget_classes_cases: "c \<in> set budget_classes \<longleftrightarrow> c = ''rest'' \<or> c = ''app_jwt_rest'' \<or> c = ''graphql''"
  by (simp add: budget_classes_def)

lemma affected_all:
  assumes "length (affected_rows inst cond db) = 3" and "c \<in> set budget_classes"
  shows "\<exists>r. db (inst, c) = Some r \<and> cond c r"
proof -
  define n where "n = (\<lambda>c. if \<exists>r. db (inst, c) = Some r \<and> cond c r then 1 else (0::nat))"
  have "length (filter (\<lambda>(c, r). cond c r) (case db (inst, c) of None \<Rightarrow> [] | Some r \<Rightarrow> [(c, r)])) = n c" for c
    by (simp add: n_def split: option.split)
  then have "length (affected_rows inst cond db) = n ''rest'' + n ''app_jwt_rest'' + n ''graphql''"
    by (simp add: affected_rows_def budget_rows_def budget_classes_def)
  with assms have "n c \<noteq> 0" by (auto simp: budget_classes_cases n_def split: if_splits)
  then show ?thesis by (auto simp: n_def split: if_splits)
qed

lemma affected_none_unchanged:
  assumes "\<And>c r. c \<in> set budget_classes \<Longrightarrow> db (inst, c) = Some r \<Longrightarrow> \<not> cond c r"
  shows "update_rows inst cond f db = db" and "affected_rows inst cond db = []"
proof -
  show "update_rows inst cond f db = db"
    using assms by (auto simp: update_rows_def fun_eq_iff split: option.split)
  have "\<not> cond c r" if "(c, r) \<in> set (budget_rows db inst)" for c r
    using that assms by (auto simp: budget_rows_def split: option.splits)
  then show "affected_rows inst cond db = []" by (auto simp: affected_rows_def filter_empty_conv)
qed

end
