(* ===== verification/Lease_Properties.thy ===== *)
theory Lease_Properties
  imports Budget_Lease
begin

text \<open>
  The lease protocol as a system: one table, one clock, any number of runtimes with their
  tokens, replies that may be lost, runtimes that may vanish. At most one of them can hold an
  unexpired lease; together with the gate's own deadline check, at most one gate admits.
\<close>

section \<open>The lease system\<close>

text \<open>
  \<open>ls_held token\<close> is the expiry the runtime with that token last heard from the store, i.e. the
  \<open>leaseUntil\<close> of its gate. A statement reads the clock between its start and its end.
\<close>

record lease_sys =
  ls_db :: budget_table
  ls_clock :: gotime
  ls_held :: "string \<rightharpoonup> gotime"

definition within :: "gotime \<Rightarrow> gotime \<Rightarrow> gotime \<Rightarrow> (string \<Rightarrow> gotime) \<Rightarrow> bool" where
  "within start stop now clk \<longleftrightarrow> start \<le> now \<and> now \<le> stop \<and> (\<forall>c. now \<le> clk c \<and> clk c \<le> stop)"

inductive lease_step :: "(string \<Rightarrow> duration) \<Rightarrow> int \<Rightarrow> lease_sys \<Rightarrow> lease_sys \<Rightarrow> bool" for ttl inst where
  tick: "ls_clock s \<le> t \<Longrightarrow> lease_step ttl inst s (s\<lparr>ls_clock := t\<rparr>)"
| acquire_ok: "within (ls_clock s) t now clk \<Longrightarrow>
    Acquire inst token (ttl token) now clk (ls_db s) = (db, Inr (Some (snap, u))) \<Longrightarrow>
    lease_step ttl inst s \<lparr>ls_db = db, ls_clock = t, ls_held = (ls_held s)(token \<mapsto> u)\<rparr>"
| acquire_lost: "within (ls_clock s) t now clk \<Longrightarrow>
    Acquire inst token (ttl token) now clk (ls_db s) = (db, res) \<Longrightarrow>
    lease_step ttl inst s \<lparr>ls_db = db, ls_clock = t, ls_held = ls_held s\<rparr>"
| renew_ok: "within (ls_clock s) t now clk \<Longrightarrow> ls_held s token \<noteq> None \<Longrightarrow>
    Renew inst token (ttl token) now clk (ls_db s) = (db, Inr (Some u)) \<Longrightarrow>
    lease_step ttl inst s \<lparr>ls_db = db, ls_clock = t, ls_held = (ls_held s)(token \<mapsto> u)\<rparr>"
| renew_lost: "within (ls_clock s) t now clk \<Longrightarrow>
    Renew inst token (ttl token) now clk (ls_db s) = (db, res) \<Longrightarrow>
    lease_step ttl inst s \<lparr>ls_db = db, ls_clock = t, ls_held = ls_held s\<rparr>"
| saved: "ls_clock s \<le> t \<Longrightarrow>
    lease_step ttl inst s (s\<lparr>ls_db := fst (Save inst token t snap (ls_db s)), ls_clock := t\<rparr>)"
| saved_backoff: "ls_clock s \<le> t \<Longrightarrow>
    lease_step ttl inst s (s\<lparr>ls_db := fst (SaveBackoff inst token t auth until (ls_db s)), ls_clock := t\<rparr>)"
| released: "lease_step ttl inst s
    (s\<lparr>ls_db := fst (Release inst token (ls_db s)), ls_held := (ls_held s)(token := None)\<rparr>)"
| vanished: "lease_step ttl inst s (s\<lparr>ls_held := (ls_held s)(token := None)\<rparr>)"

inductive_cases lease_stepE: "lease_step ttl inst s t"

definition lease_init :: "lease_sys \<Rightarrow> bool" where
  "lease_init s \<longleftrightarrow> ls_held s = Map.empty"

text \<open>The token owns a row of each class until at least \<open>l\<close>.\<close>

definition owns_until :: "budget_table \<Rightarrow> int \<Rightarrow> string \<Rightarrow> gotime \<Rightarrow> bool" where
  "owns_until db inst token l \<longleftrightarrow>
     (\<forall>c \<in> set budget_classes. \<exists>r u. db (inst, c) = Some r \<and> br_owner r = Some token \<and>
        br_until r = Some u \<and> l \<le> u)"

definition lease_inv :: "(string \<Rightarrow> duration) \<Rightarrow> int \<Rightarrow> lease_sys \<Rightarrow> bool" where
  "lease_inv ttl inst s \<longleftrightarrow> (\<forall>token l. ls_held s token = Some l \<longrightarrow>
     l \<le> ls_clock s + pg_interval (ttl token) \<and>
     (ls_clock s < l \<longrightarrow> owns_until (ls_db s) inst token l))"

lemma lease_inv_held:
  "lease_inv ttl inst s \<Longrightarrow> ls_held s token = Some l \<Longrightarrow> l \<le> ls_clock s + pg_interval (ttl token)"
  "lease_inv ttl inst s \<Longrightarrow> ls_held s token = Some l \<Longrightarrow> ls_clock s < l \<Longrightarrow>
     owns_until (ls_db s) inst token l"
  by (auto simp: lease_inv_def)

text \<open>An UPDATE that rewrites rows of the owner only to extend them keeps ownership.\<close>

lemma owns_until_update:
  assumes "owns_until db inst token l"
    and "\<And>c r u. c \<in> set budget_classes \<Longrightarrow> db (inst, c) = Some r \<Longrightarrow> br_owner r = Some token \<Longrightarrow>
      br_until r = Some u \<Longrightarrow> l \<le> u \<Longrightarrow> cond c r \<Longrightarrow>
      br_owner (f c r) = Some token \<and> (\<exists>u'. br_until (f c r) = Some u' \<and> l \<le> u')"
  shows "owns_until (update_rows inst cond f db) inst token l"
  using assms unfolding owns_until_def by (fastforce simp: update_rows_lookup)

lemma owns_until_ensure: "owns_until db inst token l \<Longrightarrow> owns_until (pg_ensure inst db) inst token l"
  by (fastforce simp: owns_until_def pg_ensure_lookup)

lemma Acquire_table:
  assumes "Acquire inst token ttl now clk db = (db', res)"
  shows "db' = db \<or> db' = pg_ensure inst db \<or> db' = fst (pg_acquire inst token ttl now clk (pg_ensure inst db))"
  using assms by (auto simp: Acquire_def split: option.splits if_splits sum.splits prod.splits)

lemma owns_until_Acquire:
  assumes own: "owns_until db inst token l" and acq: "Acquire inst token' ttl now clk db = (db', res)"
    and clk: "\<And>c. clk c < l" and ext: "token' = token \<Longrightarrow> l \<le> now + pg_interval ttl"
  shows "owns_until db' inst token l"
proof -
  have "owns_until (fst (pg_acquire inst token' ttl now clk (pg_ensure inst db))) inst token l"
    unfolding pg_acquire_def Let_def fst_conv
  proof (rule owns_until_update [OF owns_until_ensure [OF own]])
    fix c r u
    assume r: "br_owner r = Some token" "br_until r = Some u" "l \<le> u" "acquirable token' clk c r"
    with clk [of c] have "token' = token" by (auto simp: acquirable_def until_at_most_def)
    with ext show "br_owner (r\<lparr>br_owner := Some token', br_until := Some (now + pg_interval ttl)\<rparr>) = Some token \<and>
        (\<exists>u'. br_until (r\<lparr>br_owner := Some token', br_until := Some (now + pg_interval ttl)\<rparr>) = Some u' \<and> l \<le> u')"
      by simp
  qed
  with Acquire_table [OF acq] own owns_until_ensure [OF own] show ?thesis by auto
qed

lemma owns_until_Renew:
  assumes own: "owns_until db inst token l" and ren: "Renew inst token' ttl now clk db = (db', res)"
    and ext: "token' = token \<Longrightarrow> l \<le> now + pg_interval ttl"
  shows "owns_until db' inst token l"
proof -
  have "owns_until (fst (pg_renew inst token' ttl now clk db)) inst token l"
    unfolding pg_renew_def Let_def fst_conv
    by (rule owns_until_update [OF own]) (use ext in \<open>auto simp: renewable_def\<close>)
  with ren own show ?thesis by (auto simp: Renew_def split: option.splits prod.splits)
qed

lemma expiry_scan_all: "expiry_scan t ts = Inr u \<Longrightarrow> u = t \<and> set ts \<subseteq> {Some t}"
proof (induction ts)
  case (Cons x xs)
  then show ?case by (cases x) (auto split: if_splits)
qed simp

lemma authoritativeExpiry_Some:
  "authoritativeExpiry vs = Inr (Some u) \<Longrightarrow> length vs = 3 \<and> set vs = {Some u}"
  by (cases vs) (auto simp: authoritativeExpiry_def split: if_splits option.splits sum.splits
      dest!: expiry_scan_all)

lemma owns_until_updated:
  assumes "length (affected_rows inst cond db) = 3"
    and "\<And>c r. cond c r \<Longrightarrow> br_owner (f c r) = Some token \<and> br_until (f c r) = Some l"
  shows "owns_until (update_rows inst cond f db) inst token l"
  unfolding owns_until_def
proof
  fix c
  assume c: "c \<in> set budget_classes"
  from affected_all [OF assms(1) c] obtain r where "db (inst, c) = Some r" "cond c r" by blast
  with c assms(2) show "\<exists>r u. update_rows inst cond f db (inst, c) = Some r \<and>
      br_owner r = Some token \<and> br_until r = Some u \<and> l \<le> u"
    by (auto simp: update_rows_lookup)
qed

lemma Acquire_owns:
  assumes "Acquire inst token ttl now clk db = (db', Inr (Some (snap, u)))"
  shows "u = now + pg_interval ttl \<and> owns_until db' inst token u"
proof -
  let ?db = "pg_ensure inst db"
  let ?f = "\<lambda>c r. r\<lparr>br_owner := Some token, br_until := Some (now + pg_interval ttl)\<rparr>"
  let ?rows = "map (\<lambda>(c, r). (c, ?f c r)) (affected_rows inst (acquirable token clk) ?db)"
  from assms have scan: "scanAcquiredBudgetRows ?rows = Inr (snap, u)"
    and db': "db' = update_rows inst (acquirable token clk) ?f ?db"
    by (auto simp: Acquire_def pg_acquire_def Let_def split: option.splits if_splits sum.splits)
  from scan have ex: "authoritativeExpiry (map (\<lambda>(c, r). br_until r) ?rows) = Inr (Some u)"
    by (auto simp: scanAcquiredBudgetRows_def split: if_splits sum.splits option.splits)
  from authoritativeExpiry_Some [OF ex]
  have len: "length (affected_rows inst (acquirable token clk) ?db) = 3"
    and vals: "(\<lambda>x. br_until (snd x)) ` set ?rows = {Some u}"
    by (auto simp: case_prod_beta image_image)
  have "(\<lambda>x. br_until (snd x)) ` set ?rows \<subseteq> {Some (now + pg_interval ttl)}" by auto
  with vals have u: "u = now + pg_interval ttl" by auto
  with owns_until_updated [OF len, of ?f token u] db' show ?thesis by simp
qed

lemma Renew_owns:
  assumes "Renew inst token ttl now clk db = (db', Inr (Some u))"
  shows "u = now + pg_interval ttl \<and> owns_until db' inst token u"
proof -
  let ?f = "\<lambda>c r. r\<lparr>br_until := Some (now + pg_interval ttl)\<rparr>"
  from assms have ex: "authoritativeExpiry
      (map (\<lambda>_. Some (now + pg_interval ttl)) (affected_rows inst (renewable token clk) db)) = Inr (Some u)"
    and db': "db' = update_rows inst (renewable token clk) ?f db"
    by (auto simp: Renew_def pg_renew_def Let_def split: option.splits)
  from authoritativeExpiry_Some [OF ex]
  have len: "length (affected_rows inst (renewable token clk) db) = 3" and "u = now + pg_interval ttl"
    by auto
  with owns_until_updated [OF len, of ?f token u] db' show ?thesis by (simp add: renewable_def)
qed

text \<open>Writes that touch neither owner nor expiry.\<close>

lemma owns_until_Save: "owns_until db inst token l \<Longrightarrow> owns_until (fst (Save inst' token' t snap db)) inst token l"
  unfolding Save_def pg_save_def Let_def
  by (cases "inst' = inst")
     (auto intro!: owns_until_update simp: owns_until_def update_rows_lookup)

lemma owns_until_SaveBackoff:
  "owns_until db inst token l \<Longrightarrow> owns_until (fst (SaveBackoff inst token' t auth until db)) inst token l"
  unfolding SaveBackoff_def pg_save_backoff_def Let_def
  by (auto intro!: owns_until_update)

lemma owns_until_Release:
  "owns_until db inst token l \<Longrightarrow> token' \<noteq> token \<Longrightarrow> owns_until (fst (Release inst token' db)) inst token l"
  unfolding Release_def pg_release_def Let_def
  by (auto intro!: owns_until_update)

section \<open>The invariant\<close>

lemma lease_inv_frame:
  assumes inv: "lease_inv ttl inst s" and t: "ls_clock s \<le> t"
    and own: "\<And>token l. ls_held s token = Some l \<Longrightarrow> t < l \<Longrightarrow>
      owns_until (ls_db s) inst token l \<Longrightarrow> l \<le> ls_clock s + pg_interval (ttl token) \<Longrightarrow>
      owns_until db inst token l"
  shows "lease_inv ttl inst \<lparr>ls_db = db, ls_clock = t, ls_held = ls_held s\<rparr>"
  unfolding lease_inv_def
proof (intro allI impI conjI)
  fix token l
  assume "ls_held \<lparr>ls_db = db, ls_clock = t, ls_held = ls_held s\<rparr> token = Some l"
  then have h: "ls_held s token = Some l" by simp
  from lease_inv_held(1) [OF inv h] t
  show "l \<le> ls_clock \<lparr>ls_db = db, ls_clock = t, ls_held = ls_held s\<rparr> + pg_interval (ttl token)" by simp
  assume "ls_clock \<lparr>ls_db = db, ls_clock = t, ls_held = ls_held s\<rparr> < l"
  with t have l: "t < l" "ls_clock s < l" by simp_all
  from own [OF h l(1) lease_inv_held(2) [OF inv h l(2)] lease_inv_held(1) [OF inv h]]
  show "owns_until (ls_db \<lparr>ls_db = db, ls_clock = t, ls_held = ls_held s\<rparr>) inst token l" by simp
qed

lemma lease_inv_claim:
  assumes "lease_inv ttl inst \<lparr>ls_db = db, ls_clock = t, ls_held = h\<rparr>"
    and "u \<le> t + pg_interval (ttl token)" and "owns_until db inst token u"
  shows "lease_inv ttl inst \<lparr>ls_db = db, ls_clock = t, ls_held = h(token \<mapsto> u)\<rparr>"
  using assms by (auto simp: lease_inv_def)

lemma within_bounds:
  assumes "within a t now clk"
  shows "a \<le> now" "now \<le> t" "a \<le> t" "clk c \<le> t"
  using assms by (auto simp: within_def intro: order_trans)

lemma lease_step_inv: "lease_step ttl inst s s' \<Longrightarrow> lease_inv ttl inst s \<Longrightarrow> lease_inv ttl inst s'"
proof (induction rule: lease_step.induct)
  case (tick s t)
  from lease_inv_frame [OF tick(2,1), of "ls_db s"] show ?case by (cases s) auto
next
  case (acquire_lost s t now clk token db res)
  note w = within_bounds [OF acquire_lost(1)]
  show ?case
    by (rule lease_inv_frame [OF acquire_lost(3) w(3)])
       (use w in \<open>auto intro!: owns_until_Acquire [OF _ acquire_lost(2)] intro: order_le_less_trans\<close>)
next
  case (acquire_ok s t now clk token db snap u)
  note w = within_bounds [OF acquire_ok(1)]
  have "lease_inv ttl inst \<lparr>ls_db = db, ls_clock = t, ls_held = ls_held s\<rparr>"
    by (rule lease_inv_frame [OF acquire_ok(3) w(3)])
       (use w in \<open>auto intro!: owns_until_Acquire [OF _ acquire_ok(2)] intro: order_le_less_trans\<close>)
  with Acquire_owns [OF acquire_ok(2)] w show ?case by (intro lease_inv_claim) auto
next
  case (renew_lost s t now clk token db res)
  note w = within_bounds [OF renew_lost(1)]
  show ?case
    by (rule lease_inv_frame [OF renew_lost(3) w(3)])
       (use w in \<open>auto intro!: owns_until_Renew [OF _ renew_lost(2)]\<close>)
next
  case (renew_ok s t now clk token db u)
  note w = within_bounds [OF renew_ok(1)]
  have "lease_inv ttl inst \<lparr>ls_db = db, ls_clock = t, ls_held = ls_held s\<rparr>"
    by (rule lease_inv_frame [OF renew_ok(4) w(3)])
       (use w in \<open>auto intro!: owns_until_Renew [OF _ renew_ok(3)]\<close>)
  with Renew_owns [OF renew_ok(3)] w show ?case by (intro lease_inv_claim) auto
next
  case (saved s t token snap)
  from lease_inv_frame [OF saved(2,1), of "fst (Save inst token t snap (ls_db s))"] show ?case
    by (cases s) (auto intro: owns_until_Save)
next
  case (saved_backoff s t token auth until)
  from lease_inv_frame [OF saved_backoff(2,1), of "fst (SaveBackoff inst token t auth until (ls_db s))"]
  show ?case by (cases s) (auto intro: owns_until_SaveBackoff)
next
  case (released s token)
  then show ?case by (auto simp: lease_inv_def intro: owns_until_Release split: if_splits)
next
  case (vanished s token)
  then show ?case by (auto simp: lease_inv_def split: if_splits)
qed

lemma lease_steps_inv:
  "(lease_step ttl inst)\<^sup>*\<^sup>* s s' \<Longrightarrow> lease_init s \<Longrightarrow> lease_inv ttl inst s'"
proof (induction rule: rtranclp_induct)
  case base
  then show ?case by (simp add: lease_init_def lease_inv_def)
qed (auto intro: lease_step_inv)

lemma owns_until_unique: "owns_until db inst a l \<Longrightarrow> owns_until db inst b m \<Longrightarrow> a = b"
  by (fastforce simp: owns_until_def budget_classes_def)

lemma lease_exclusive:
  assumes "(lease_step ttl inst)\<^sup>*\<^sup>* s0 s" and "lease_init s0"
    and "ls_held s a = Some l" "ls_clock s < l" and "ls_held s b = Some m" "ls_clock s < m"
  shows "a = b"
  using lease_steps_inv [OF assms(1,2)] assms(3-6)
  by (auto intro: owns_until_unique dest: lease_inv_held(2))

section \<open>Properties\<close>

text \<open>C3: at most one budgeter admits. Take any history of the lease table with any number of
  runtimes, lost replies and crashes; if two gates, each with the expiry its runtime last heard
  from the store as its deadline, both admit a request at the current time, they are the gates
  of the same runtime token.\<close>

theorem at_most_one_admitting_gate:
  assumes "(lease_step ttl inst)\<^sup>*\<^sup>* s0 s" and "lease_init s0"
    and "ls_held s a = Some (leaseUntil g)" "leaseUntil g \<noteq> 0"
    and "tryAdmit (ls_clock s) cls res auth parent g = (g', Admitted x)"
    and "ls_held s b = Some (leaseUntil h)" "leaseUntil h \<noteq> 0"
    and "tryAdmit (ls_clock s) cls' res' auth' parent' h = (h', Admitted y)"
  shows "a = b"
proof -
  have live: "t < leaseUntil k"
    if "tryAdmit t c r au p k = (k', Admitted z)" "leaseUntil k \<noteq> 0" for t c r au p k k' z
  proof (rule ccontr)
    assume "\<not> t < leaseUntil k"
    with that(2) have "unavailable (expireLease t k) \<noteq> None"
      by (simp add: expireLease_def signalLocked_def cancelLease_def)
    with that(1) show False by (cases rule: tryAdmit_cases) auto
  qed
  show ?thesis
    by (rule lease_exclusive [OF assms(1-3) live [OF assms(5,4)] assms(6) live [OF assms(8,7)]])
qed

definition demo_lease_db :: budget_table where
  "demo_lease_db = (\<lambda>_. None)"

definition demo_sys :: lease_sys where
  "demo_sys = \<lparr>ls_db = fst (Acquire 1 ''a'' 30000 1000 (\<lambda>_. 1000) demo_lease_db), ls_clock = 2000,
     ls_held = [''a'' \<mapsto> 31000]\<rparr>"

lemma demo_acquire:
  "snd (Acquire 1 ''a'' 30000 1000 (\<lambda>_. 1000) demo_lease_db) = Inr (Some (emptySnapshot, 31000))"
  by (simp add: Acquire_def validateLeaseIdentity_def pg_acquire_def demo_lease_db_def Let_def
      affected_rows_def budget_rows_def budget_classes_def pg_ensure_def empty_row_def
      acquirable_def scanAcquiredBudgetRows_def authoritativeExpiry_def appRESTBudgetClass_def
      restoredBudget_def emptySnapshot_def zeroBudget_def pg_interval_def)

lemma demo_sys_reached:
  "(lease_step (\<lambda>_. 30000) 1)\<^sup>*\<^sup>* \<lparr>ls_db = demo_lease_db, ls_clock = 1000, ls_held = Map.empty\<rparr> demo_sys"
proof -
  have "Acquire 1 ''a'' 30000 1000 (\<lambda>_. 1000) demo_lease_db =
      (fst (Acquire 1 ''a'' 30000 1000 (\<lambda>_. 1000) demo_lease_db), Inr (Some (emptySnapshot, 31000)))"
    using demo_acquire by (metis prod.collapse)
  then have "lease_step (\<lambda>_. 30000) 1 \<lparr>ls_db = demo_lease_db, ls_clock = 1000, ls_held = Map.empty\<rparr> demo_sys"
    unfolding demo_sys_def
    using lease_step.acquire_ok [of "\<lparr>ls_db = demo_lease_db, ls_clock = 1000, ls_held = Map.empty\<rparr>"
        2000 1000 "\<lambda>_. 1000" 1 "''a''" "\<lambda>_. 30000"]
    by (simp add: within_def)
  then show ?thesis by blast
qed

theorem at_most_one_admitting_gate_witness:
  "\<exists>g g' x. ls_held demo_sys ''a'' = Some (leaseUntil g) \<and>
     tryAdmit (ls_clock demo_sys) Event REST InstallationAuth None g = (g', Admitted x) \<and> ''a'' = ''a''"
proof -
  let ?g = "setLeaseUntil 31000 (New demo_opts)"
  have u: "leaseUntil ?g = 31000" by (simp add: setLeaseUntil_def signalLocked_def New_def Let_def split: prod.split)
  have h: "ls_held demo_sys ''a'' = Some (leaseUntil ?g)" by (simp add: u demo_sys_def)
  obtain g' x where adm: "tryAdmit (ls_clock demo_sys) Event REST InstallationAuth None ?g = (g', Admitted x)"
    by (simp add: tryAdmit_def demo_simps setLeaseUntil_def signalLocked_def demo_sys_def)
  have i: "lease_init \<lparr>ls_db = demo_lease_db, ls_clock = 1000, ls_held = Map.empty\<rparr>"
    by (simp add: lease_init_def)
  from at_most_one_admitting_gate [OF demo_sys_reached i h _ adm h _ adm] u h adm
  show ?thesis by auto
qed

text \<open>writes are fenced: renewing, saving a snapshot or saving a backoff with a token that does
  not own a live lease on any row changes nothing in the table and reports lost ownership.\<close>

theorem stale_owner_is_fenced:
  assumes "\<forall>c \<in> set budget_classes. \<forall>r. db (inst, c) = Some r \<longrightarrow> \<not> renewable token (\<lambda>_. now) c r"
    and "0 < inst" "token \<noteq> []" "0 < ttl"
  shows "Renew inst token ttl now (\<lambda>_. now) db = (db, Inr None) \<and>
    Save inst token now snap db = (db, False) \<and>
    (auth_valid auth \<longrightarrow> SaveBackoff inst token now auth until db = (db, Inr False))"
proof -
  note none = affected_none_unchanged [of db inst "renewable token (\<lambda>_. now)"]
  have "Renew inst token ttl now (\<lambda>_. now) db = (db, Inr None)" "Save inst token now snap db = (db, False)"
    using assms none
    by (simp_all add: Renew_def validateLeaseIdentity_def pg_renew_def Save_def pg_save_def Let_def
        authoritativeExpiry_def)
  moreover have "\<not> (length (budget_rows db inst) = 3 \<and>
      list_all (\<lambda>(c, r). renewable token (\<lambda>_. now) c r) (budget_rows db inst))"
  proof
    assume a: "length (budget_rows db inst) = 3 \<and>
      list_all (\<lambda>(c, r). renewable token (\<lambda>_. now) c r) (budget_rows db inst)"
    then have "affected_rows inst (renewable token (\<lambda>_. now)) db = budget_rows db inst"
      by (simp add: affected_rows_def list_all_iff)
    with none(2) assms(1) a show False by simp
  qed
  then have "auth_valid auth \<longrightarrow> SaveBackoff inst token now auth until db = (db, Inr False)"
    using affected_none_unchanged [of db inst "\<lambda>c r. False"]
    by (auto simp: SaveBackoff_def pg_save_backoff_def Let_def)
  ultimately show ?thesis by blast
qed

theorem stale_owner_is_fenced_witness:
  "Save 1 ''b'' 2000 emptySnapshot (ls_db demo_sys) = (ls_db demo_sys, False)"
proof -
  have "br_owner r = Some ''a''" if "c \<in> set budget_classes" "ls_db demo_sys (1, c) = Some r" for c r
    using that
    by (auto simp: demo_sys_def Acquire_def validateLeaseIdentity_def pg_acquire_def demo_lease_db_def
        Let_def affected_rows_def budget_rows_def budget_classes_def pg_ensure_def empty_row_def
        acquirable_def scanAcquiredBudgetRows_def authoritativeExpiry_def appRESTBudgetClass_def
        update_rows_def split: if_splits option.splits sum.splits)
  then have h: "\<forall>c \<in> set budget_classes. \<forall>r. ls_db demo_sys (1, c) = Some r \<longrightarrow>
      \<not> renewable ''b'' (\<lambda>_. 2000) c r"
    by (fastforce simp: renewable_def)
  from stale_owner_is_fenced [OF h, of 1] show ?thesis by simp
qed

section \<open>Snapshots survive a handoff\<close>

definition persisted_view :: "ResourceBudget \<Rightarrow> ResourceBudget" where
  "persisted_view b = (if rb_known b then b\<lparr>rb_reset := pg_timestamp (rb_reset b)\<rparr> else zeroBudget)"

lemma restored_persisted:
  "restoredBudget (sb_remaining (persistedValues b)) (sb_limit (persistedValues b))
     (sb_reset (persistedValues b)) = persisted_view b"
  by (cases b) (auto simp: persistedValues_def restoredBudget_def persisted_view_def)

lemma affected_three:
  assumes "length (affected_rows inst cond db) = 3"
  obtains r1 r2 r3 where "db (inst, ''rest'') = Some r1" "db (inst, ''app_jwt_rest'') = Some r2"
    "db (inst, ''graphql'') = Some r3" "cond ''rest'' r1" "cond ''app_jwt_rest'' r2" "cond ''graphql'' r3"
    "affected_rows inst cond db = [(''rest'', r1), (''app_jwt_rest'', r2), (''graphql'', r3)]"
proof -
  have row: "\<exists>r. db (inst, c) = Some r \<and> cond c r" if "c \<in> set budget_classes" for c
    by (rule affected_all [OF assms that])
  from row [of "''rest''"] obtain r1 where "db (inst, ''rest'') = Some r1" "cond ''rest'' r1"
    by (auto simp: budget_classes_def)
  moreover from row [of "''app_jwt_rest''"] obtain r2
    where "db (inst, ''app_jwt_rest'') = Some r2" "cond ''app_jwt_rest'' r2"
    by (auto simp: budget_classes_def)
  moreover from row [of "''graphql''"] obtain r3 where "db (inst, ''graphql'') = Some r3" "cond ''graphql'' r3"
    by (auto simp: budget_classes_def)
  ultimately show thesis
    by (intro that) (simp_all add: affected_rows_def budget_rows_def budget_classes_def)
qed

lemma scan_three:
  "scan_rows [(''rest'', r1), (''app_jwt_rest'', r2), (''graphql'', r3)] emptySnapshot = Inr snap \<Longrightarrow>
   sn_rest snap = restoredBudget (br_remaining r1) (br_limit r1) (br_reset r1) \<and>
   sn_app snap = restoredBudget (br_remaining r2) (br_limit r2) (br_reset r2) \<and>
   sn_graphql snap = restoredBudget (br_remaining r3) (br_limit r3) (br_reset r3) \<and>
   (\<forall>b. br_backoff r1 = Some b \<longrightarrow> b \<le> sn_backoff snap) \<and>
   (\<forall>b. br_backoff r3 = Some b \<longrightarrow> b \<le> sn_backoff snap) \<and>
   (\<forall>b. br_backoff r2 = Some b \<longrightarrow> b \<le> sn_app_backoff snap)"
  by (auto simp: appRESTBudgetClass_def emptySnapshot_def Let_def split: option.splits if_splits)

lemma later_backoff_ge: "later_backoff old (Some b) = Some c \<Longrightarrow> b \<le> c"
  by (cases old) (auto split: if_splits)

lemma later_backoff_Some: "\<exists>c. later_backoff old (Some b) = Some c"
  by (cases old) auto

text \<open>C37: a handoff loses nothing: when the owner's snapshot was saved and another runtime then
  acquires the lease, the snapshot it restores has the three saved budgets (reset times at the
  database's microsecond resolution, unknown budgets unset) and backoff deadlines that are not
  earlier than the saved ones.\<close>

theorem snapshot_handoff:
  assumes "Save inst token t snap db = (db1, True)"
    and "Acquire inst token' ttl now clk db1 = (db2, Inr (Some (snap', u)))"
  shows "sn_rest snap' = persisted_view (sn_rest snap) \<and> sn_app snap' = persisted_view (sn_app snap) \<and>
    sn_graphql snap' = persisted_view (sn_graphql snap) \<and>
    (sn_backoff snap \<noteq> 0 \<longrightarrow> pg_timestamp (sn_backoff snap) \<le> sn_backoff snap') \<and>
    (sn_app_backoff snap \<noteq> 0 \<longrightarrow> pg_timestamp (sn_app_backoff snap) \<le> sn_app_backoff snap')"
proof -
  let ?f = "\<lambda>c r. r\<lparr>br_remaining := sb_remaining (saved_values snap c),
      br_limit := sb_limit (saved_values snap c), br_reset := sb_reset (saved_values snap c),
      br_backoff := later_backoff (br_backoff r)
        (if c = appRESTBudgetClass then timestamp (sn_app_backoff snap) else timestamp (sn_backoff snap))\<rparr>"
  let ?g = "\<lambda>c r. r\<lparr>br_owner := Some token', br_until := Some (now + pg_interval ttl)\<rparr>"
  from assms(1) have len: "length (affected_rows inst (renewable token (\<lambda>_. t)) db) = 3"
    and db1: "db1 = update_rows inst (renewable token (\<lambda>_. t)) ?f db"
    by (auto simp: Save_def pg_save_def Let_def)
  from affected_three [OF len] obtain r1 r2 r3 where
    r: "db (inst, ''rest'') = Some r1" "db (inst, ''app_jwt_rest'') = Some r2" "db (inst, ''graphql'') = Some r3"
    "renewable token (\<lambda>_. t) ''rest'' r1" "renewable token (\<lambda>_. t) ''app_jwt_rest'' r2"
    "renewable token (\<lambda>_. t) ''graphql'' r3" by metis
  have s: "db1 (inst, ''rest'') = Some (?f ''rest'' r1)"
    "db1 (inst, ''app_jwt_rest'') = Some (?f ''app_jwt_rest'' r2)"
    "db1 (inst, ''graphql'') = Some (?f ''graphql'' r3)"
    using r by (simp_all add: db1 update_rows_def budget_classes_def)
  have ens: "pg_ensure inst db1 (inst, c) = db1 (inst, c)" if "c \<in> set budget_classes" for c
    using s that by (auto simp: pg_ensure_lookup budget_classes_cases)
  let ?rows = "affected_rows inst (acquirable token' clk) (pg_ensure inst db1)"
  from assms(2) have scan: "scanAcquiredBudgetRows (map (\<lambda>(c, r). (c, ?g c r)) ?rows) = Inr (snap', u)"
    by (auto simp: Acquire_def pg_acquire_def Let_def split: option.splits if_splits sum.splits)
  then have "length ?rows = 3" by (auto simp: scanAcquiredBudgetRows_def split: if_splits)
  from affected_three [OF this] obtain q1 q2 q3 where
    "pg_ensure inst db1 (inst, ''rest'') = Some q1" "pg_ensure inst db1 (inst, ''app_jwt_rest'') = Some q2"
    "pg_ensure inst db1 (inst, ''graphql'') = Some q3"
    and rows: "?rows = [(''rest'', q1), (''app_jwt_rest'', q2), (''graphql'', q3)]" by metis
  then have "db1 (inst, ''rest'') = Some q1" "db1 (inst, ''app_jwt_rest'') = Some q2"
    "db1 (inst, ''graphql'') = Some q3"
    using s by (simp_all add: ens budget_classes_def)
  with s have q: "q1 = ?f ''rest'' r1" "q2 = ?f ''app_jwt_rest'' r2" "q3 = ?f ''graphql'' r3" by simp_all
  from scan rows have "scan_rows [(''rest'', ?g ''rest'' q1), (''app_jwt_rest'', ?g ''app_jwt_rest'' q2),
      (''graphql'', ?g ''graphql'' q3)] emptySnapshot = Inr snap'"
    by (auto simp del: scan_rows.simps simp: scanAcquiredBudgetRows_def split: if_splits sum.splits option.splits)
  from scan_three [OF this] show ?thesis
    unfolding q
    by (auto simp: saved_values_def appRESTBudgetClass_def restored_persisted timestamp_def
        dest: later_backoff_ge intro: order_trans)
       (metis later_backoff_Some later_backoff_ge order_trans)+
qed

definition demo_snapshot :: Snapshot where
  "demo_snapshot = emptySnapshot\<lparr>sn_rest := \<lparr>rb_known = True, rb_limit = 5000, rb_remaining = 4990,
     rb_reset = 5000000\<rparr>, sn_backoff := 7001\<rparr>"

lemmas lease_eval = Acquire_def validateLeaseIdentity_def pg_acquire_def demo_lease_db_def
  Let_def affected_rows_def budget_rows_def budget_classes_def pg_ensure_def empty_row_def
  acquirable_def scanAcquiredBudgetRows_def authoritativeExpiry_def appRESTBudgetClass_def
  update_rows_def restoredBudget_def emptySnapshot_def zeroBudget_def pg_interval_def
  Save_def pg_save_def renewable_def until_after_def until_at_most_def saved_values_def
  persistedValues_def timestamp_def pg_timestamp_def

theorem snapshot_handoff_witness:
  "\<exists>snap' u. snd (Acquire 1 ''b'' 30000 40000 (\<lambda>_. 40000)
      (fst (Save 1 ''a'' 2000 demo_snapshot (ls_db demo_sys)))) = Inr (Some (snap', u)) \<and>
    sn_rest snap' = persisted_view (sn_rest demo_snapshot)"
proof -
  have s: "Save 1 ''a'' 2000 demo_snapshot (ls_db demo_sys) =
      (fst (Save 1 ''a'' 2000 demo_snapshot (ls_db demo_sys)), True)"
    by (simp add: demo_sys_def demo_snapshot_def lease_eval)
  let ?db = "fst (Save 1 ''a'' 2000 demo_snapshot (ls_db demo_sys))"
  obtain snap' u where "snd (Acquire 1 ''b'' 30000 40000 (\<lambda>_. 40000) ?db) = Inr (Some (snap', u))"
    by (simp add: demo_sys_def demo_snapshot_def lease_eval)
  then have "Acquire 1 ''b'' 30000 40000 (\<lambda>_. 40000) ?db =
      (fst (Acquire 1 ''b'' 30000 40000 (\<lambda>_. 40000) ?db), Inr (Some (snap', u)))"
    by (metis prod.collapse)
  from snapshot_handoff [OF s this] this show ?thesis by (metis snd_conv)
qed

section \<open>Options, delays and takeover\<close>

lemma normalize_bounds:
  "normalizeLeaseOptions lopts = Inr lo \<Longrightarrow>
   0 < lo_renew lo \<and> lo_renew lo < lo_ttl lo \<and> 0 < lo_timeout lo \<and> lo_timeout lo < lo_ttl lo \<and>
   0 < lo_snapshot lo \<and> 0 < lo_installation lo \<and> lo_owner lo \<noteq> []"
  by (auto simp: normalizeLeaseOptions_def Let_def second_def split: if_splits)

lemma normalize_idem: "normalizeLeaseOptions lopts = Inr lo \<Longrightarrow> normalizeLeaseOptions lo = Inr lo"
  by (drule normalize_bounds) (simp add: normalizeLeaseOptions_def)

text \<open>Options that \<open>normalizeLeaseOptions\<close> accepts renew strictly inside the TTL, bound every
  store call strictly inside the TTL and snapshot at a positive interval; normalizing twice, as the
  standby path does, changes nothing; and the standby retry delay is positive and at most a third
  of the TTL (or one nanosecond).\<close>

theorem lease_options_bounds:
  assumes "normalizeLeaseOptions lopts = Inr lo" and "\<And>n. 0 < n \<Longrightarrow> 0 \<le> rnd n \<and> rnd n < n"
  shows "0 < lo_renew lo \<and> lo_renew lo < lo_ttl lo \<and> 0 < lo_timeout lo \<and> lo_timeout lo < lo_ttl lo \<and>
    0 < lo_snapshot lo \<and> normalizeLeaseOptions lo = Inr lo \<and>
    0 < standbyRetryDelay rnd (lo_ttl lo) \<and>
    standbyRetryDelay rnd (lo_ttl lo) \<le> max 1 (min (lo_ttl lo sdiv 3) (3 * second))"
proof -
  note base = normalize_bounds [OF assms(1)] and idem = normalize_idem [OF assms(1)]
  let ?m = "min (lo_ttl lo sdiv 3) (3 * second)"
  show ?thesis
  proof (cases "?m \<le> 1")
    case True
    then show ?thesis using base idem by (simp add: standbyRetryDelay_def)
  next
    case False
    then have m: "2 \<le> ?m" by linarith
    have half: "?m sdiv 2 = ?m div 2" using m by (simp add: signed_divide_int_eq_divide_int)
    have "0 \<le> rnd (?m - ?m div 2) \<and> rnd (?m - ?m div 2) < ?m - ?m div 2"
      using m by (intro assms(2)) linarith
    moreover have "standbyRetryDelay rnd (lo_ttl lo) = ?m div 2 + rnd (?m - ?m div 2)"
      using False half by (simp add: standbyRetryDelay_def Let_def)
    moreover have "0 < ?m div 2" using m by linarith
    ultimately have "0 < standbyRetryDelay rnd (lo_ttl lo) \<and> standbyRetryDelay rnd (lo_ttl lo) \<le> max 1 ?m"
      by linarith
    with base idem show ?thesis by blast
  qed
qed

definition demo_lease_opts :: LeaseOptions where
  "demo_lease_opts = \<lparr>lo_installation = 1, lo_owner = ''worker'', lo_ttl = 0, lo_renew = 0,
     lo_snapshot = 0, lo_timeout = 0\<rparr>"

definition demo_lease_norm :: LeaseOptions where
  "demo_lease_norm = \<lparr>lo_installation = 1, lo_owner = ''worker'', lo_ttl = 30 * second,
     lo_renew = 10 * second, lo_snapshot = 30 * second, lo_timeout = 5 * second\<rparr>"

lemma demo_lease_normalized: "normalizeLeaseOptions demo_lease_opts = Inr demo_lease_norm"
  by (simp add: normalizeLeaseOptions_def demo_lease_opts_def demo_lease_norm_def second_def
      signed_divide_int_def)

theorem lease_options_bounds_witness:
  "normalizeLeaseOptions demo_lease_opts = Inr demo_lease_norm \<and>
   0 < standbyRetryDelay (\<lambda>n. n - 1) (lo_ttl demo_lease_norm)"
proof -
  have "\<And>n::int. 0 < n \<Longrightarrow> 0 \<le> n - 1 \<and> n - 1 < n" by simp
  from lease_options_bounds [OF demo_lease_normalized this] demo_lease_normalized show ?thesis by blast
qed

text \<open>While the last confirmed lease is alive, a failed renewal is retried before it expires.\<close>

theorem renew_retry_before_expiry:
  assumes "now < lr_expiry r" and "0 < lr_renew r"
  shows "0 \<le> renewRetryDelay now r \<and> now + renewRetryDelay now r < lr_expiry r \<and>
    renewRetryDelay now r < lr_renew r"
  using assms by (auto simp: renewRetryDelay_def Let_def signed_divide_int_eq_divide_int min_def)

definition demo_runtime :: leaseRuntime where
  "demo_runtime = \<lparr>lr_installation = 1, lr_owner = ''worker'', lr_token = ''a'', lr_ttl = 30 * second,
     lr_renew = 10 * second, lr_snapshot = 30 * second, lr_timeout = 5 * second,
     lr_cancelled = False, lr_expiry = 40 * second, lr_updates = None\<rparr>"

theorem renew_retry_before_expiry_witness:
  "renewRetryDelay (39 * second) demo_runtime < 10 * second"
  using renew_retry_before_expiry [of "39 * second" demo_runtime]
  by (simp add: demo_runtime_def second_def)

text \<open>Every row of the installation is missing, free, expired or already the token's.\<close>

definition lease_free :: "int \<Rightarrow> string \<Rightarrow> (string \<Rightarrow> gotime) \<Rightarrow> budget_table \<Rightarrow> bool" where
  "lease_free inst token clk db \<longleftrightarrow>
     (\<forall>c \<in> set budget_classes. case db (inst, c) of None \<Rightarrow> True | Some r \<Rightarrow> acquirable token clk c r)"

lemma ensured_rows:
  assumes "lease_free inst token clk db"
  shows "\<exists>r1 r2 r3. affected_rows inst (acquirable token clk) (pg_ensure inst db) =
    [(''rest'', r1), (''app_jwt_rest'', r2), (''graphql'', r3)]"
proof -
  have row: "\<exists>r. pg_ensure inst db (inst, c) = Some r \<and> acquirable token clk c r" if "c \<in> set budget_classes" for c
    using assms that
    by (force simp: lease_free_def pg_ensure_lookup acquirable_def empty_row_def split: option.splits)
  obtain r1 r2 r3 where
    "pg_ensure inst db (inst, ''rest'') = Some r1" "acquirable token clk ''rest'' r1"
    "pg_ensure inst db (inst, ''app_jwt_rest'') = Some r2" "acquirable token clk ''app_jwt_rest'' r2"
    "pg_ensure inst db (inst, ''graphql'') = Some r3" "acquirable token clk ''graphql'' r3"
    using row [of "''rest''"] row [of "''app_jwt_rest''"] row [of "''graphql''"]
    by (auto simp: budget_classes_def)
  then show ?thesis by (simp add: affected_rows_def budget_rows_def budget_classes_def)
qed

lemma scan_three_ok:
  "\<exists>snap. scan_rows [(''rest'', r1), (''app_jwt_rest'', r2), (''graphql'', r3)] s = Inr snap"
  by (simp add: appRESTBudgetClass_def Let_def split: option.split)

lemma Acquire_free:
  assumes "lease_free inst token clk db" and "validateLeaseIdentity inst token ttl = None"
  shows "\<exists>snap. Acquire inst token ttl t clk db =
    (fst (pg_acquire inst token ttl t clk (pg_ensure inst db)), Inr (Some (snap, t + pg_interval ttl)))"
proof -
  from ensured_rows [OF assms(1)] obtain r1 r2 r3 where
    rows: "affected_rows inst (acquirable token clk) (pg_ensure inst db) =
      [(''rest'', r1), (''app_jwt_rest'', r2), (''graphql'', r3)]" by blast
  let ?g = "\<lambda>r. r\<lparr>br_owner := Some token, br_until := Some (t + pg_interval ttl)\<rparr>"
  obtain snap where "scan_rows [(''rest'', ?g r1), (''app_jwt_rest'', ?g r2), (''graphql'', ?g r3)]
      emptySnapshot = Inr snap" using scan_three_ok by blast
  then show ?thesis
    using assms(2) rows
    by (simp del: scan_rows.simps add: Acquire_def pg_acquire_def scanAcquiredBudgetRows_def authoritativeExpiry_def)
qed

lemma restored_new_open:
  "unavailable (restore snap (New gopts)) = None" "inFlight (restore snap (New gopts)) = 0"
  by (simp_all add: restore_def New_def Let_def signalLocked_def split: prod.split)

lemma new_leased_open:
  assumes "normalizeLeaseOptions lopts = Inr lo" and "token \<noteq> []"
    and "lease_free (lo_installation lo) token clk db"
    and "now < t + pg_interval (lo_ttl lo)" and "0 \<le> now"
  shows "\<exists>db1 g. NewLeased gopts lopts token t clk now db = (db1, Inr g) \<and>
    leaseUntil g = t + pg_interval (lo_ttl lo) \<and> unavailable g = None \<and> inFlight g = 0 \<and>
    owns_until db1 (lo_installation lo) token (leaseUntil g)"
proof -
  have v: "validateLeaseIdentity (lo_installation lo) token (lo_ttl lo) = None"
    using normalize_bounds [OF assms(1)] assms(2) by (simp add: validateLeaseIdentity_def)
  let ?u = "t + pg_interval (lo_ttl lo)"
  let ?db = "fst (pg_acquire (lo_installation lo) token (lo_ttl lo) t clk (pg_ensure (lo_installation lo) db))"
  from Acquire_free [OF assms(3) v] obtain snap where
    acq: "Acquire (lo_installation lo) token (lo_ttl lo) t clk db = (?db, Inr (Some (snap, ?u)))" by blast
  from ensured_rows [OF assms(3)] have
    "length (affected_rows (lo_installation lo) (acquirable token clk) (pg_ensure (lo_installation lo) db)) = 3"
    by auto
  then have own: "owns_until ?db (lo_installation lo) token ?u"
    unfolding pg_acquire_def Let_def fst_conv by (rule owns_until_updated) simp
  have "\<not> (isZero ?u \<or> \<not> now < ?u)" using assms(4,5) by simp
  then show ?thesis
    using assms(1) acq own
    by (simp add: NewLeased_def Let_def setLeaseUntil_def signalLocked_def restored_new_open)
qed

text \<open>Takeover: when every row of the installation is free, expired or missing and the store's
  answer arrives before the new lease runs out, \<open>NewLeased\<close> returns an open gate whose admission
  deadline is the deadline the table records for its token on all three rows.\<close>

theorem leased_takeover:
  assumes "normalizeLeaseOptions lopts = Inr lo" and "token \<noteq> []"
    and "lease_free (lo_installation lo) token clk db"
    and "now < t + pg_interval (lo_ttl lo)" and "0 \<le> now"
  shows "\<exists>db1 g. NewLeased gopts lopts token t clk now db = (db1, Inr g) \<and>
    leaseUntil g = t + pg_interval (lo_ttl lo) \<and> unavailable g = None \<and> inFlight g = 0 \<and>
    owns_until db1 (lo_installation lo) token (leaseUntil g)"
  by (rule new_leased_open [OF assms])

theorem leased_takeover_witness:
  "\<exists>db1 g. NewLeased demo_opts demo_lease_opts ''b'' 40000 (\<lambda>_. 40000) 41000 (ls_db demo_sys) = (db1, Inr g) \<and>
    leaseUntil g = 30000040000"
proof -
  have "lease_free 1 ''b'' (\<lambda>_. 40000) (ls_db demo_sys)"
    by (simp add: lease_free_def demo_sys_def lease_eval)
  then have free: "lease_free (lo_installation demo_lease_norm) ''b'' (\<lambda>_. 40000) (ls_db demo_sys)"
    by (simp add: demo_lease_norm_def)
  have "40000 + pg_interval (lo_ttl demo_lease_norm) = 30000040000"
    by (simp add: demo_lease_norm_def pg_interval_def second_def)
  with leased_takeover [OF demo_lease_normalized _ free, of 41000 40000 demo_opts] show ?thesis by auto
qed

text \<open>A standby attempt that finds the lease held changes nothing the next attempt depends on.\<close>

lemma standby_skip:
  assumes "\<And>j. i \<le> j \<Longrightarrow> j < i + n \<Longrightarrow> sa_before (env j) = None \<and> sa_wait (env j) = None \<and>
      NewLeased gopts lopts (sa_token (env j)) (sa_time (env j)) (sa_clk (env j)) (sa_now (env j)) db =
        (db, Inl ErrLeaseHeld)"
  shows "standby_loop (n + fuel) gopts lopts env i db = standby_loop fuel gopts lopts env (i + n) db"
  using assms
proof (induction n arbitrary: i)
  case (Suc n)
  have "standby_loop (Suc n + fuel) gopts lopts env i db = standby_loop (n + fuel) gopts lopts env (Suc i) db"
    using Suc.prems [of i] by simp
  also have "\<dots> = standby_loop fuel gopts lopts env (Suc i + n) db"
    by (rule Suc.IH) (use Suc.prems in simp)
  finally show ?case by simp
qed simp

text \<open>A standby that finds the lease held \<open>n\<close> times and then finds it free returns an open
  gate on attempt \<open>n + 1\<close>, provided its context is not cancelled.\<close>

theorem standby_takes_over:
  assumes "normalizeLeaseOptions lopts = Inr lo"
    and "\<forall>j < n. sa_before (env j) = None \<and> sa_wait (env j) = None \<and>
      NewLeased gopts lo (sa_token (env j)) (sa_time (env j)) (sa_clk (env j)) (sa_now (env j)) db =
        (db, Inl ErrLeaseHeld)"
    and "sa_before (env n) = None" and "sa_after (env n) = None" and "sa_token (env n) \<noteq> []"
    and "lease_free (lo_installation lo) (sa_token (env n)) (sa_clk (env n)) db"
    and "sa_now (env n) < sa_time (env n) + pg_interval (lo_ttl lo)"
    and "0 \<le> sa_now (env n)"
  shows "\<exists>db1 g. NewLeasedStandby (Suc n) gopts lopts env db = Some (db1, Inr g) \<and> unavailable g = None \<and>
    owns_until db1 (lo_installation lo) (sa_token (env n)) (leaseUntil g)"
proof -
  note idem = normalize_idem [OF assms(1)]
  have skip: "standby_loop (n + Suc 0) gopts lo env 0 db = standby_loop (Suc 0) gopts lo env (0 + n) db"
    by (rule standby_skip) (use assms(2) in simp)
  from new_leased_open [OF idem assms(5,6,7,8)] obtain db1 g where
    "NewLeased gopts lo (sa_token (env n)) (sa_time (env n)) (sa_clk (env n)) (sa_now (env n)) db = (db1, Inr g)"
    "unavailable g = None" "owns_until db1 (lo_installation lo) (sa_token (env n)) (leaseUntil g)" by metis
  with skip assms(1,3,4) show ?thesis by (simp add: NewLeasedStandby_def)
qed

definition demo_standby :: "nat \<Rightarrow> standby_attempt" where
  "demo_standby i = \<lparr>sa_before = None, sa_token = ''b'', sa_time = (if i = 0 then 2000 else 40000),
     sa_clk = (\<lambda>_. if i = 0 then 2000 else 40000), sa_now = (if i = 0 then 2500 else 41000),
     sa_after = None, sa_wait = None\<rparr>"

lemma demo_held:
  "Acquire 1 ''b'' ttl 2000 (\<lambda>_. 2000) (ls_db demo_sys) =
   (if 0 < ttl then (ls_db demo_sys, Inr None) else (ls_db demo_sys, Inl (ErrText ''lease TTL must be positive'')))"
proof -
  have "pg_ensure 1 (ls_db demo_sys) = ls_db demo_sys"
    by (auto simp: demo_sys_def lease_eval fun_eq_iff)
  then show ?thesis
    by (simp add: Acquire_def pg_acquire_def validateLeaseIdentity_def Let_def)
       (simp add: demo_sys_def lease_eval)
qed

theorem standby_takes_over_witness:
  "\<exists>db1 g. NewLeasedStandby 2 demo_opts demo_lease_opts demo_standby (ls_db demo_sys) = Some (db1, Inr g) \<and>
    unavailable g = None"
proof -
  have "lease_free 1 ''b'' (\<lambda>_. 40000) (ls_db demo_sys)"
    by (simp add: lease_free_def demo_sys_def lease_eval)
  then have free: "lease_free (lo_installation demo_lease_norm) (sa_token (demo_standby 1)) (sa_clk (demo_standby 1)) (ls_db demo_sys)"
    by (simp add: demo_lease_norm_def demo_standby_def)
  have held: "\<forall>j < 1. sa_before (demo_standby j) = None \<and> sa_wait (demo_standby j) = None \<and>
      NewLeased demo_opts demo_lease_norm (sa_token (demo_standby j)) (sa_time (demo_standby j)) (sa_clk (demo_standby j))
        (sa_now (demo_standby j)) (ls_db demo_sys) = (ls_db demo_sys, Inl ErrLeaseHeld)"
    using demo_held [of "30 * second"] normalize_idem [OF demo_lease_normalized]
    by (simp add: NewLeased_def demo_standby_def) (simp add: demo_lease_norm_def second_def)
  have s: "sa_before (demo_standby 1) = None" "sa_after (demo_standby 1) = None" "sa_token (demo_standby 1) \<noteq> []"
    "sa_now (demo_standby 1) < sa_time (demo_standby 1) + pg_interval (lo_ttl demo_lease_norm)"
    "0 \<le> sa_now (demo_standby 1)"
    by (simp_all add: demo_standby_def demo_lease_norm_def pg_interval_def second_def)
  from standby_takes_over [OF demo_lease_normalized held s(1-3) free s(4,5)] show ?thesis
    unfolding numeral_2_eq_2 One_nat_def by blast
qed

section \<open>A renewal that straddles the expiry\<close>


end
