(* ===== verification/Refresh_Queue.thy ===== *)
theory Refresh_Queue
  imports Prelude "HOL-Library.AList" "HOL-Library.Char_ord" "HOL-Library.List_Lexorder"
    "HOL-Library.Product_Lexorder"
begin

text \<open>
  \<open>src/internal/queue/refresh.go\<close>, \<open>orphan.go\<close>, \<open>queue.go\<close>, \<open>src/internal/pipeline/event.go\<close> and
  \<open>src/db/queries/refresh_intent_generations.sql\<close>: the durable refresh queue.

  A refresh is a pointer \<open>(kind, key)\<close>. Every signal bumps the key's generation in
  \<open>refresh_intent_generations\<close> and inserts a unique River job in the same transaction; a worker
  snapshots the generation when it starts and, when it finishes, completes the job and the
  generation it saw in one transaction, inserting a follow-up when signals arrived meanwhile.

  River is not part of the sources: the operations the code calls are the fields of the record
  \<open>River\<close>, an argument of the definitions, and what the code relies on is \<open>river_ok\<close>.
  The generation table is an association list in insertion order, looked up with \<open>map_of\<close>.
  Functions on a transaction return \<open>Inl\<close> when the Go function returns an error; the caller rolls
  the transaction back, so no state comes with it.
\<close>

section \<open>Job arguments\<close>

definition KindRefreshPR :: string where "KindRefreshPR = ''refresh_pr''"
definition KindRefreshRepository :: string where "KindRefreshRepository = ''refresh_repository''"
definition KindRefreshRepoRules :: string where "KindRefreshRepoRules = ''refresh_repo_rules''"
definition KindRefreshStack :: string where "KindRefreshStack = ''refresh_stack''"
definition KindRefreshChecks :: string where "KindRefreshChecks = ''refresh_checks''"
definition KindRefreshBranch :: string where "KindRefreshBranch = ''refresh_branch''"
definition KindReconcileBranchPage :: string where "KindReconcileBranchPage = ''reconcile_branch_page''"
definition KindResolveStackMembership :: string where "KindResolveStackMembership = ''resolve_stack_membership''"
definition KindBackfillRepoPage :: string where "KindBackfillRepoPage = ''backfill_repo_page''"
definition KindBackfillInstallation :: string where "KindBackfillInstallation = ''backfill_installation_page''"

lemmas kind_defs = KindRefreshPR_def KindRefreshRepository_def KindRefreshRepoRules_def
  KindRefreshStack_def KindRefreshChecks_def KindRefreshBranch_def KindReconcileBranchPage_def
  KindResolveStackMembership_def KindBackfillRepoPage_def KindBackfillInstallation_def

type_synonym RefreshGenerationKey = "string \<times> string"

record RefreshArgs =
  ra_kind :: string
  ra_key :: string
  ra_observe :: bool

record BranchReconcileTarget =
  bt_kind :: string
  bt_key :: string
  bt_entity :: string
  bt_generation :: int

record BranchReconcilePageArgs =
  bp_repo :: int
  bp_name :: string
  bp_branch :: string
  bp_generation :: int
  bp_page :: int
  bp_targets :: "BranchReconcileTarget list"

record BackfillRepoPageArgs =
  bf_installation :: int
  bf_repo :: string
  bf_phase :: string
  bf_page :: int

record BackfillInstallationPageArgs =
  bi_installation :: int
  bi_phase :: string
  bi_page :: int

datatype JobArgs =
    RefreshPRArgs RefreshArgs
  | RefreshRepositoryArgs RefreshArgs
  | RefreshRepoRulesArgs RefreshArgs
  | RefreshStackArgs RefreshArgs
  | RefreshChecksArgs RefreshArgs
  | RefreshBranchArgs RefreshArgs
  | BranchPageArgs BranchReconcilePageArgs
  | ResolveStackMembershipArgs RefreshArgs
  | BackfillRepoArgs BackfillRepoPageArgs
  | BackfillInstallationArgs BackfillInstallationPageArgs

definition NewRefreshPRArgs :: "string \<Rightarrow> JobArgs" where
  "NewRefreshPRArgs key = RefreshPRArgs \<lparr>ra_kind = KindRefreshPR, ra_key = key, ra_observe = False\<rparr>"

definition NewRefreshRepositoryArgs :: "string \<Rightarrow> JobArgs" where
  "NewRefreshRepositoryArgs key =
     RefreshRepositoryArgs \<lparr>ra_kind = KindRefreshRepository, ra_key = key, ra_observe = False\<rparr>"

definition NewRefreshRepositoryHeadArgs :: "string \<Rightarrow> JobArgs" where
  "NewRefreshRepositoryHeadArgs key =
     RefreshRepositoryArgs \<lparr>ra_kind = KindRefreshRepository, ra_key = key, ra_observe = True\<rparr>"

definition NewRefreshRepoRulesArgs :: "string \<Rightarrow> JobArgs" where
  "NewRefreshRepoRulesArgs key =
     RefreshRepoRulesArgs \<lparr>ra_kind = KindRefreshRepoRules, ra_key = key, ra_observe = False\<rparr>"

definition NewRefreshStackArgs :: "string \<Rightarrow> JobArgs" where
  "NewRefreshStackArgs key = RefreshStackArgs \<lparr>ra_kind = KindRefreshStack, ra_key = key, ra_observe = False\<rparr>"

definition NewRefreshChecksArgs :: "string \<Rightarrow> JobArgs" where
  "NewRefreshChecksArgs key = RefreshChecksArgs \<lparr>ra_kind = KindRefreshChecks, ra_key = key, ra_observe = False\<rparr>"

definition NewRefreshBranchArgs :: "string \<Rightarrow> JobArgs" where
  "NewRefreshBranchArgs key = RefreshBranchArgs \<lparr>ra_kind = KindRefreshBranch, ra_key = key, ra_observe = False\<rparr>"

definition NewBranchReconcilePageArgs :: "int \<Rightarrow> string \<Rightarrow> string \<Rightarrow> int \<Rightarrow> int \<Rightarrow>
    BranchReconcileTarget list \<Rightarrow> JobArgs" where
  "NewBranchReconcilePageArgs repo name branch generation page targets =
     BranchPageArgs \<lparr>bp_repo = repo, bp_name = name, bp_branch = branch, bp_generation = generation,
       bp_page = page, bp_targets = targets\<rparr>"

definition NewResolveStackMembershipArgs :: "string \<Rightarrow> JobArgs" where
  "NewResolveStackMembershipArgs key =
     ResolveStackMembershipArgs \<lparr>ra_kind = KindResolveStackMembership, ra_key = key, ra_observe = False\<rparr>"

definition NewBackfillRepoPageArgs :: "int \<Rightarrow> string \<Rightarrow> string \<Rightarrow> int \<Rightarrow> JobArgs" where
  "NewBackfillRepoPageArgs inst repo phase page =
     BackfillRepoArgs \<lparr>bf_installation = inst, bf_repo = repo, bf_phase = phase, bf_page = page\<rparr>"

definition NewBackfillInstallationPageArgs :: "int \<Rightarrow> string \<Rightarrow> int \<Rightarrow> JobArgs" where
  "NewBackfillInstallationPageArgs inst phase page =
     BackfillInstallationArgs \<lparr>bi_installation = inst, bi_phase = phase, bi_page = page\<rparr>"

fun Kind :: "JobArgs \<Rightarrow> string" where
  "Kind (RefreshPRArgs _) = KindRefreshPR"
| "Kind (RefreshRepositoryArgs _) = KindRefreshRepository"
| "Kind (RefreshRepoRulesArgs _) = KindRefreshRepoRules"
| "Kind (RefreshStackArgs _) = KindRefreshStack"
| "Kind (RefreshChecksArgs _) = KindRefreshChecks"
| "Kind (RefreshBranchArgs _) = KindRefreshBranch"
| "Kind (BranchPageArgs _) = KindReconcileBranchPage"
| "Kind (ResolveStackMembershipArgs _) = KindResolveStackMembership"
| "Kind (BackfillRepoArgs _) = KindBackfillRepoPage"
| "Kind (BackfillInstallationArgs _) = KindBackfillInstallation"

text \<open>
  \<open>json.Unmarshal(EncodedArgs, &RefreshArgs)\<close>: the embedded pointer; the page arguments have
  neither a \<open>kind\<close> nor a \<open>key\<close> member, so the zero pointer comes out.
\<close>

fun decodeArgs :: "JobArgs \<Rightarrow> RefreshArgs" where
  "decodeArgs (RefreshPRArgs a) = a"
| "decodeArgs (RefreshRepositoryArgs a) = a"
| "decodeArgs (RefreshRepoRulesArgs a) = a"
| "decodeArgs (RefreshStackArgs a) = a"
| "decodeArgs (RefreshChecksArgs a) = a"
| "decodeArgs (RefreshBranchArgs a) = a"
| "decodeArgs (ResolveStackMembershipArgs a) = a"
| "decodeArgs _ = \<lparr>ra_kind = [], ra_key = [], ra_observe = False\<rparr>"

definition pointer :: "JobArgs \<Rightarrow> RefreshGenerationKey" where
  "pointer a = (ra_kind (decodeArgs a), ra_key (decodeArgs a))"

section \<open>River\<close>

datatype JobState = Available | Pending | Retryable | Running | Scheduled | Completed | Cancelled | Discarded

record InsertOpts =
  io_queue :: string
  io_priority :: int
  io_scheduledAt :: gotime
  io_byArgs :: bool
  io_byState :: "JobState list"

record Job =
  jb_id :: int
  jb_args :: JobArgs
  jb_queue :: string
  jb_state :: JobState
  jb_scheduledAt :: gotime

record insert_result =
  ir_job :: Job
  ir_skipped :: bool

text \<open>The client operations: \<open>InsertTx\<close>, \<open>InsertManyTx\<close>, \<open>JobRetryTx\<close>, \<open>JobCompleteTx\<close>, and the job table.\<close>

record 'q River =
  rv_insert :: "JobArgs \<Rightarrow> InsertOpts \<Rightarrow> 'q \<Rightarrow> gerror + insert_result \<times> 'q"
  rv_insert_many :: "(JobArgs \<times> InsertOpts) list \<Rightarrow> 'q \<Rightarrow> gerror + insert_result option list \<times> 'q"
  rv_retry :: "int \<Rightarrow> 'q \<Rightarrow> gerror + 'q"
  rv_complete :: "Job \<Rightarrow> 'q \<Rightarrow> gerror + 'q"
  rv_jobs :: "'q \<Rightarrow> Job list"

definition active_states :: "JobState list" where
  "active_states = [Available, Pending, Retryable, Running, Scheduled]"

definition QueueInteractive where "QueueInteractive = ''interactive''"
definition QueueEvent where "QueueEvent = ''event''"
definition QueueBulk where "QueueBulk = ''bulk''"
definition QueueSweep where "QueueSweep = ''sweep''"
definition QueueReconcile where "QueueReconcile = ''reconcile''"
definition QueueDrift where "QueueDrift = ''drift''"
definition QueuePruner where "QueuePruner = ''pruner''"

definition NewRefreshInsertOptsForQueue :: "string \<Rightarrow> gotime \<Rightarrow> InsertOpts" where
  "NewRefreshInsertOptsForQueue queueName scheduledAt =
     \<lparr>io_queue = queueName, io_priority = 1, io_scheduledAt = scheduledAt, io_byArgs = True,
      io_byState = active_states\<rparr>"

definition NewRefreshInsertOpts :: "gotime \<Rightarrow> InsertOpts" where
  "NewRefreshInsertOpts scheduledAt = NewRefreshInsertOptsForQueue QueueEvent scheduledAt"

definition NewBackfillInsertOptsForQueue :: "string \<Rightarrow> InsertOpts" where
  "NewBackfillInsertOptsForQueue queueName =
     \<lparr>io_queue = queueName, io_priority = 1, io_scheduledAt = 0, io_byArgs = True,
      io_byState = active_states\<rparr>"

definition NewBackfillInsertOpts :: InsertOpts where
  "NewBackfillInsertOpts = NewBackfillInsertOptsForQueue QueueInteractive"

text \<open>A job with these arguments is in one of the states of the uniqueness mask.\<close>

definition live :: "'q River \<Rightarrow> JobArgs \<Rightarrow> 'q \<Rightarrow> bool" where
  "live R a q = (\<exists>j \<in> set (rv_jobs R q). jb_args j = a \<and> jb_state j \<in> set active_states)"

text \<open>
  What River documents and the queue relies on: a unique insert leaves a job with those arguments
  in the mask and reports whether one was there already; inserts and retries take no job out of
  the mask; completing a job takes out only jobs with its arguments.
\<close>

definition river_ok :: "'q River \<Rightarrow> bool" where
  "river_ok R \<longleftrightarrow>
     (\<forall>a io q r q'. rv_insert R a io q = Inr (r, q') \<and> io_byArgs io \<and> io_byState io = active_states \<longrightarrow>
        (\<forall>b. live R b q' \<longleftrightarrow> b = a \<or> live R b q) \<and>
        jb_args (ir_job r) = a \<and> (ir_skipped r \<longleftrightarrow> live R a q)) \<and>
     (\<forall>ps q rs q'. rv_insert_many R ps q = Inr (rs, q') \<and>
          (\<forall>(a, io) \<in> set ps. io_byArgs io \<and> io_byState io = active_states) \<longrightarrow>
        (\<forall>(a, io) \<in> set ps. live R a q') \<and> (\<forall>b. live R b q \<longrightarrow> live R b q')) \<and>
     (\<forall>i q q'. rv_retry R i q = Inr q' \<longrightarrow> (\<forall>b. live R b q \<longrightarrow> live R b q')) \<and>
     (\<forall>j q q'. rv_complete R j q = Inr q' \<longrightarrow> (\<forall>b. live R b q \<and> b \<noteq> jb_args j \<longrightarrow> live R b q'))"

section \<open>The generation table\<close>

record generation_row =
  gr_generation :: int
  gr_completed :: int
  gr_deadline :: "gotime option"
  gr_event :: "gotime option"
  gr_updated :: gotime

type_synonym generations = "(RefreshGenerationKey \<times> generation_row) list"

type_synonym intent = "RefreshGenerationKey \<times> gotime option \<times> gotime option"

text \<open>One row of the upsert: \<open>LEAST\<close> of the two times where both are set.\<close>

fun bump_row :: "gotime \<Rightarrow> intent \<Rightarrow> generations \<Rightarrow> generations" where
  "bump_row now (k, deadline, event) t =
     (case map_of t k of
        None \<Rightarrow> AList.update k \<lparr>gr_generation = 1, gr_completed = 0, gr_deadline = deadline,
                  gr_event = event, gr_updated = now\<rparr> t
      | Some r \<Rightarrow> AList.update k (r\<lparr>gr_generation := gr_generation r + 1,
                  gr_deadline := opt_earliest (gr_deadline r) deadline,
                  gr_event := opt_earliest (gr_event r) event, gr_updated := now\<rparr>) t)"

text \<open>
  The statement fails when two intents of a key differ (an upsert cannot touch a row twice) and
  when a generation would leave \<open>bigint\<close>.
\<close>

definition BumpRefreshIntentGenerations :: "gotime \<Rightarrow> intent list \<Rightarrow> generations \<Rightarrow>
    gerror + generations \<times> (RefreshGenerationKey \<times> int) list" where
  "BumpRefreshIntentGenerations now intents t =
     (let rows = remdups intents in
      if \<not> distinct (map fst rows) then Inl (ErrText ''ON CONFLICT DO UPDATE command cannot affect row a second time'')
      else if \<exists>(k, _) \<in> set rows. (case map_of t k of None \<Rightarrow> False | Some r \<Rightarrow> 2 ^ 63 - 1 \<le> gr_generation r)
        then Inl (ErrText ''bigint out of range'')
      else let t' = fold (bump_row now) rows t
           in Inr (t', map (\<lambda>(k, _). (k, case map_of t' k of None \<Rightarrow> 0 | Some r \<Rightarrow> gr_generation r)) rows))"

definition GetRefreshIntentState :: "RefreshGenerationKey \<Rightarrow> generations \<Rightarrow> generation_row option" where
  "GetRefreshIntentState k t = map_of t k"

definition CompleteRefreshIntentGeneration :: "gotime \<Rightarrow> int \<Rightarrow> RefreshGenerationKey \<Rightarrow> generations \<Rightarrow> generations" where
  "CompleteRefreshIntentGeneration now g k t =
     (case map_of t k of
        None \<Rightarrow> t
      | Some r \<Rightarrow>
          if g \<le> gr_generation r then
            AList.update k (r\<lparr>gr_completed := max (gr_completed r) g,
              gr_deadline := (if gr_generation r = g then None else gr_deadline r),
              gr_event := (if gr_generation r = g then None else gr_event r), gr_updated := now\<rparr>) t
          else t)"

definition outstanding :: "generation_row \<Rightarrow> bool" where
  "outstanding r = (gr_completed r < gr_generation r)"

definition ListOutstandingRefreshIntentGenerations :: "gotime \<Rightarrow> nat \<Rightarrow> generations \<Rightarrow>
    (RefreshGenerationKey \<times> generation_row) list" where
  "ListOutstandingRefreshIntentGenerations staleBefore batchLimit t =
     take batchLimit (sort_key (\<lambda>(k, r). (gr_updated r, k))
       (filter (\<lambda>(k, r). outstanding r \<and> gr_updated r \<le> staleBefore) t))"

section \<open>Generation locks\<close>

text \<open>
  Transaction-scoped advisory locks, keyed by a 64-bit hash of the key, and row locks. A
  transaction takes a lock it already owns again. \<open>hash\<close> is Postgres's \<open>hashtextextended\<close>.
\<close>

record locks =
  lk_advisory :: "int \<rightharpoonup> nat"
  lk_rows :: "RefreshGenerationKey \<rightharpoonup> nat"

fun try_advisory :: "(RefreshGenerationKey \<Rightarrow> int) \<Rightarrow> nat \<Rightarrow> RefreshGenerationKey list \<Rightarrow> locks \<Rightarrow> locks \<times> bool \<times> int" where
  "try_advisory hash tx [] L = (L, True, 0)"
| "try_advisory hash tx (k # ks) L =
     (if lk_advisory L (hash k) \<noteq> None \<and> lk_advisory L (hash k) \<noteq> Some tx then (L, False, 0)
      else case try_advisory hash tx ks (L\<lparr>lk_advisory := (lk_advisory L)(hash k \<mapsto> tx)\<rparr>) of
        (L', ok, n) \<Rightarrow> (L', ok, n + 1))"

definition try_rows :: "nat \<Rightarrow> generations \<Rightarrow> RefreshGenerationKey list \<Rightarrow> locks \<Rightarrow> locks \<times> bool \<times> int" where
  "try_rows tx t ks L =
     (let existing = filter (\<lambda>k. map_of t k \<noteq> None) ks;
          free = filter (\<lambda>k. lk_rows L k = None \<or> lk_rows L k = Some tx) existing
      in (L\<lparr>lk_rows := (\<lambda>k. if k \<in> set free then Some tx else lk_rows L k)\<rparr>,
          length free = length existing,
          int (length ks) - int (length existing) + int (length free)))"

definition TryLockRefreshIntentGenerationsTx :: "(RefreshGenerationKey \<Rightarrow> int) \<Rightarrow> nat \<Rightarrow> generations \<Rightarrow>
    RefreshGenerationKey list \<Rightarrow> locks \<Rightarrow> locks \<times> gerror option" where
  "TryLockRefreshIntentGenerationsTx hash tx t keys L =
     (let ordered = remdups (sort keys) in
      case try_advisory hash tx ordered L of
        (L1, acquired, n) \<Rightarrow>
          (case (if acquired then try_rows tx t ordered L1 else (L1, acquired, n)) of
             (L2, ok, m) \<Rightarrow>
               (L2, if ok then None
                    else Some (ErrWrap ''acquire refresh generation locks'' [ErrRefreshGenerationContention]))))"

text \<open>
  The waiting loop: attempt \<open>i\<close> finds the lock table \<open>env i\<close> that the other transactions have
  left. A failed attempt rolls its savepoint back. \<open>cancelled i\<close> is the context's error while
  waiting after attempt \<open>i\<close>.
\<close>

fun lock_loop :: "nat \<Rightarrow> (RefreshGenerationKey \<Rightarrow> int) \<Rightarrow> nat \<Rightarrow> generations \<Rightarrow> RefreshGenerationKey list \<Rightarrow>
    (nat \<Rightarrow> locks) \<Rightarrow> (nat \<Rightarrow> gerror option) \<Rightarrow> nat \<Rightarrow> (locks \<times> gerror option) option" where
  "lock_loop 0 hash tx t keys env cancelled i = None"
| "lock_loop (Suc fuel) hash tx t keys env cancelled i =
     (case TryLockRefreshIntentGenerationsTx hash tx t keys (env i) of
        (L, None) \<Rightarrow> Some (L, None)
      | (L, Some e) \<Rightarrow>
          if \<not> errors_is e ErrRefreshGenerationContention then Some (env i, Some e)
          else (case cancelled i of
              Some c \<Rightarrow> Some (env i, Some (ErrWrap ''wait for refresh generation locks'' [c]))
            | None \<Rightarrow> lock_loop fuel hash tx t keys env cancelled (Suc i)))"

definition LockRefreshIntentGenerationsTx where
  "LockRefreshIntentGenerationsTx fuel hash tx t keys env cancelled =
     lock_loop fuel hash tx t keys env cancelled 0"

section \<open>Producers\<close>

record RefreshSpec =
  rs_kind :: string
  rs_key :: string
  rs_scheduledAt :: gotime
  rs_deadline :: gotime
  rs_event :: gotime

definition spec_key :: "RefreshSpec \<Rightarrow> RefreshGenerationKey" where
  "spec_key s = (rs_kind s, rs_key s)"

text \<open>The zero schedule means now and wins; the zero deadline and receipt time mean unset and lose.\<close>

definition sooner :: "gotime \<Rightarrow> gotime \<Rightarrow> gotime" where
  "sooner old new = (if \<not> isZero old \<and> (isZero new \<or> new < old) then new else old)"

definition earlier_set :: "gotime \<Rightarrow> gotime \<Rightarrow> gotime" where
  "earlier_set old new = (if \<not> isZero new \<and> (isZero old \<or> new < old) then new else old)"

definition mergeSpec :: "RefreshSpec \<Rightarrow> RefreshSpec \<Rightarrow> RefreshSpec" where
  "mergeSpec d s = d\<lparr>rs_scheduledAt := sooner (rs_scheduledAt d) (rs_scheduledAt s),
     rs_deadline := earlier_set (rs_deadline d) (rs_deadline s),
     rs_event := earlier_set (rs_event d) (rs_event s)\<rparr>"

fun dedup_add :: "RefreshSpec \<Rightarrow> RefreshSpec list \<Rightarrow> RefreshSpec list" where
  "dedup_add s [] = [s]"
| "dedup_add s (d # ds) = (if spec_key d = spec_key s then mergeSpec d s # ds else d # dedup_add s ds)"

definition default_event :: "gotime \<Rightarrow> RefreshSpec \<Rightarrow> RefreshSpec" where
  "default_event ev s = (if isZero (rs_event s) then s\<lparr>rs_event := ev\<rparr> else s)"

fun dedup_loop :: "gotime \<Rightarrow> RefreshSpec list \<Rightarrow> RefreshSpec list \<Rightarrow> gerror + RefreshSpec list" where
  "dedup_loop ev [] acc = Inr acc"
| "dedup_loop ev (s # ss) acc =
     (if rs_key s = [] then Inl (ErrText ''refresh key is required'')
      else dedup_loop ev ss (dedup_add (default_event ev s) acc))"

definition argsForSpec :: "RefreshSpec \<Rightarrow> gerror + JobArgs" where
  "argsForSpec s =
     (if rs_kind s = KindRefreshPR then Inr (NewRefreshPRArgs (rs_key s))
      else if rs_kind s = KindRefreshRepository then Inr (NewRefreshRepositoryArgs (rs_key s))
      else if rs_kind s = KindRefreshRepoRules then Inr (NewRefreshRepoRulesArgs (rs_key s))
      else if rs_kind s = KindRefreshStack then Inr (NewRefreshStackArgs (rs_key s))
      else if rs_kind s = KindRefreshChecks then Inr (NewRefreshChecksArgs (rs_key s))
      else if rs_kind s = KindRefreshBranch then Inr (NewRefreshBranchArgs (rs_key s))
      else if rs_kind s = KindResolveStackMembership then Inr (NewResolveStackMembershipArgs (rs_key s))
      else Inl (ErrText ''unsupported refresh kind''))"

fun collect_params :: "string \<Rightarrow> RefreshSpec list \<Rightarrow> gerror + (JobArgs \<times> InsertOpts) list" where
  "collect_params queueName [] = Inr []"
| "collect_params queueName (s # ss) =
     (case argsForSpec s of
        Inl e \<Rightarrow> Inl e
      | Inr a \<Rightarrow> (case collect_params queueName ss of
            Inl e \<Rightarrow> Inl e
          | Inr ps \<Rightarrow> Inr ((a, NewRefreshInsertOptsForQueue queueName (rs_scheduledAt s)) # ps)))"

fun expedite :: "'q River \<Rightarrow> (RefreshGenerationKey \<rightharpoonup> gotime) \<Rightarrow> insert_result option list \<Rightarrow> 'q \<Rightarrow> gerror + 'q" where
  "expedite R sched [] q = Inr q"
| "expedite R sched (None # rs) q = expedite R sched rs q"
| "expedite R sched (Some r # rs) q =
     (if \<not> ir_skipped r then expedite R sched rs q
      else case sched (pointer (jb_args (ir_job r))) of
        None \<Rightarrow> Inl (ErrText ''coalesced refresh job was not in insertion batch'')
      | Some desired \<Rightarrow>
          if \<not> isZero desired \<and> \<not> desired < jb_scheduledAt (ir_job r) then expedite R sched rs q
          else (case rv_retry R (jb_id (ir_job r)) q of
              Inl e \<Rightarrow> Inl (ErrWrap ''expedite coalesced refresh job'' [e])
            | Inr q' \<Rightarrow> expedite R sched rs q'))"

record 'q qstate =
  qs_gens :: generations
  qs_jobs :: 'q

text \<open>\<open>ts\<close> is what Postgres reads from an RFC 3339 text; \<open>ev\<close> is the context's \<open>EventReceivedAt\<close>.\<close>

definition pointer_intent :: "(gotime \<Rightarrow> gotime) \<Rightarrow> RefreshSpec \<Rightarrow> intent" where
  "pointer_intent ts s = (spec_key s,
     if isZero (rs_deadline s) then None else Some (ts (rs_deadline s)),
     if isZero (rs_event s) then None else Some (ts (rs_event s)))"

definition dedup_sorted :: "gotime \<Rightarrow> RefreshSpec list \<Rightarrow> gerror + RefreshSpec list" where
  "dedup_sorted ev specs = (case dedup_loop ev specs [] of Inl e \<Rightarrow> Inl e | Inr ds \<Rightarrow> Inr (sort_key spec_key ds))"

definition InsertRefreshesTxReturning :: "(gotime \<Rightarrow> gotime) \<Rightarrow> (RefreshGenerationKey list \<Rightarrow> gerror option) \<Rightarrow>
    gotime \<Rightarrow> gotime \<Rightarrow> 'q River option \<Rightarrow> RefreshSpec list \<Rightarrow> string \<Rightarrow> 'q qstate \<Rightarrow>
    gerror + (RefreshSpec \<times> int) list \<times> 'q qstate" where
  "InsertRefreshesTxReturning ts lock now ev client specs queueName st =
     (if specs = [] then Inr ([], st)
      else case client of
        None \<Rightarrow> Inl (ErrText ''river client is required'')
      | Some R \<Rightarrow>
        (case dedup_sorted ev specs of
           Inl e \<Rightarrow> Inl e
         | Inr deduped \<Rightarrow>
           (case lock (map spec_key deduped) of
              Some e \<Rightarrow> Inl (ErrWrap ''lock refresh generations'' [e])
            | None \<Rightarrow>
              (case BumpRefreshIntentGenerations now (map (pointer_intent ts) deduped) (qs_gens st) of
                 Inl e \<Rightarrow> Inl (ErrWrap ''bump refresh generations'' [e])
               | Inr (gens, generations) \<Rightarrow>
                   if length generations \<noteq> length deduped
                   then Inl (ErrText ''bumped refresh generations for specs'')
                   else (case collect_params queueName deduped of
                     Inl e \<Rightarrow> Inl e
                   | Inr params \<Rightarrow>
                     (case rv_insert_many R params (qs_jobs st) of
                        Inl e \<Rightarrow> Inl (ErrWrap ''insert refresh jobs'' [e])
                      | Inr (inserted, q1) \<Rightarrow>
                          if length inserted \<noteq> length deduped
                          then Inl (ErrText ''inserted refresh jobs for specs'')
                          else (case expedite R
                                (map_of (rev (map (\<lambda>s. (spec_key s, rs_scheduledAt s)) deduped))) inserted q1 of
                            Inl e \<Rightarrow> Inl e
                          | Inr q2 \<Rightarrow>
                              Inr (map (\<lambda>s. (s, case map_of (rev generations) (spec_key s) of
                                                None \<Rightarrow> 0 | Some g \<Rightarrow> g)) deduped,
                                   \<lparr>qs_gens = gens, qs_jobs = q2\<rparr>))))))))"

definition InsertRefreshesTx where
  "InsertRefreshesTx ts lock now ev client specs queueName st =
     (case InsertRefreshesTxReturning ts lock now ev client specs queueName st of
        Inl e \<Rightarrow> Inl e | Inr (_, st') \<Rightarrow> Inr st')"

section \<open>The event context\<close>

text \<open>\<open>src/internal/pipeline/event.go\<close>: the context value, if any.\<close>

record eventState =
  es_receivedAt :: gotime
  es_cacheCommitted :: gotime

definition WithEvent :: "gotime \<Rightarrow> eventState option \<Rightarrow> eventState option" where
  "WithEvent receivedAt ctx =
     (if isZero receivedAt then ctx else Some \<lparr>es_receivedAt = receivedAt, es_cacheCommitted = 0\<rparr>)"

definition EventReceivedAt :: "eventState option \<Rightarrow> gotime" where
  "EventReceivedAt ctx = (case ctx of None \<Rightarrow> 0 | Some s \<Rightarrow> es_receivedAt s)"

definition MarkCacheCommitted :: "gotime \<Rightarrow> eventState option \<Rightarrow> eventState option" where
  "MarkCacheCommitted committedAt ctx =
     (case ctx of
        None \<Rightarrow> None
      | Some s \<Rightarrow> if isZero committedAt then Some s
                  else if es_cacheCommitted s < committedAt then Some (s\<lparr>es_cacheCommitted := committedAt\<rparr>)
                  else Some s)"

definition CacheCommittedAt :: "eventState option \<Rightarrow> gotime" where
  "CacheCommittedAt ctx = (case ctx of None \<Rightarrow> 0 | Some s \<Rightarrow> es_cacheCommitted s)"

section \<open>Workers\<close>

text \<open>\<open>hasClient\<close>: River put its client into the worker's context.\<close>

definition completeRefresh :: "'q River \<Rightarrow> bool \<Rightarrow> gotime \<Rightarrow> Job \<Rightarrow> RefreshArgs \<Rightarrow> int \<Rightarrow> 'q qstate \<Rightarrow>
    gerror + 'q qstate" where
  "completeRefresh R hasClient now job args startedGeneration st =
     (let k = (ra_kind args, ra_key args);
          (generation, completedGeneration) =
            (case map_of (qs_gens st) k of
               None \<Rightarrow> (0, 0)
             | Some r \<Rightarrow> (gr_generation r, gr_completed r))
      in case rv_complete R job (qs_jobs st) of
           Inl e \<Rightarrow> Inl (ErrWrap ''complete refresh job'' [e])
         | Inr q1 \<Rightarrow>
             let gens1 = (if 0 < startedGeneration
                          then CompleteRefreshIntentGeneration now startedGeneration k (qs_gens st)
                          else qs_gens st)
             in if startedGeneration < generation \<and> completedGeneration < generation then
                  (if \<not> hasClient then Inl (ErrText ''river client missing from refresh worker context'')
                   else case rv_insert R (jb_args job) (NewRefreshInsertOptsForQueue (jb_queue job) 0) q1 of
                     Inl e \<Rightarrow> Inl (ErrWrap ''insert dirty refresh follow-up'' [e])
                   | Inr (_, q2) \<Rightarrow> Inr \<lparr>qs_gens = gens1, qs_jobs = q2\<rparr>)
                else Inr \<lparr>qs_gens = gens1, qs_jobs = q1\<rparr>)"

record RefreshGenerationFence =
  fe_kind :: string
  fe_key :: string
  fe_generation :: int

record RefreshObservation =
  ro_kind :: string
  ro_queue :: string
  ro_eventReceivedAt :: gotime
  ro_cacheCommittedAt :: gotime
  ro_startedAt :: gotime
  ro_completedAt :: gotime
  ro_superseded :: bool
  ro_err :: "gerror option"

record deadline_miss =
  dm_kind :: string
  dm_key :: string
  dm_deadline :: gotime
  dm_completedAt :: gotime

text \<open>
  What a worker call leaves: the state, the error, what the observers were told. \<open>work\<close> is the
  fetch handler together with everything that commits while it runs; it sees the fence and the
  event context.
\<close>

record 'q run_result =
  rr_state :: "'q qstate"
  rr_err :: "gerror option"
  rr_finished :: "RefreshObservation list"
  rr_missed :: "deadline_miss list"

type_synonym 'q refreshWork = "RefreshGenerationFence option \<Rightarrow> eventState option \<Rightarrow> RefreshArgs \<Rightarrow> 'q qstate \<Rightarrow>
  'q qstate \<times> eventState option \<times> gerror option"

text \<open>The clock readings of one run: start, end of the work, and the completion transaction's time.\<close>

record run_clock =
  rc_startedAt :: gotime
  rc_completedAt :: gotime
  rc_tx :: gotime

record refreshDeadlineMonitor =
  mo_deadlineObserver :: bool
  mo_refreshObserver :: bool

definition observeRefresh :: "refreshDeadlineMonitor \<Rightarrow> string \<Rightarrow> string \<Rightarrow> gotime \<Rightarrow> gotime \<Rightarrow> gotime \<Rightarrow> gotime \<Rightarrow>
    bool \<Rightarrow> gerror option \<Rightarrow> RefreshObservation list" where
  "observeRefresh m kind queueName ev committed startedAt completedAt superseded err =
     (if \<not> mo_refreshObserver m then []
      else [\<lparr>ro_kind = kind, ro_queue = queueName, ro_eventReceivedAt = ev, ro_cacheCommittedAt = committed,
             ro_startedAt = startedAt, ro_completedAt = completedAt, ro_superseded = superseded, ro_err = err\<rparr>])"

definition runRefresh :: "'q River \<Rightarrow> bool \<Rightarrow> refreshDeadlineMonitor \<Rightarrow> run_clock \<Rightarrow> 'q refreshWork option \<Rightarrow>
    Job \<Rightarrow> RefreshArgs \<Rightarrow> 'q qstate \<Rightarrow> 'q run_result" where
  "runRefresh R hasClient m clock work job args st =
     (let row = GetRefreshIntentState (ra_kind args, ra_key args) (qs_gens st);
          generation = (case row of None \<Rightarrow> 0 | Some r \<Rightarrow> gr_generation r);
          ev = (case row of Some r \<Rightarrow> (case gr_event r of Some t \<Rightarrow> t | None \<Rightarrow> 0) | None \<Rightarrow> 0);
          deadline = (case row of Some r \<Rightarrow> gr_deadline r | None \<Rightarrow> None)
      in case work of
           None \<Rightarrow> \<lparr>rr_state = st, rr_err = Some (ErrText ''refresh worker is not configured''),
                    rr_finished = [], rr_missed = []\<rparr>
         | Some w \<Rightarrow>
           (let fence = (if 0 < generation then Some \<lparr>fe_kind = ra_kind args, fe_key = ra_key args,
                           fe_generation = generation\<rparr> else None)
            in case w fence (WithEvent ev None) args st of
              (st1, ctx, workErr) \<Rightarrow>
                let superseded = (case workErr of None \<Rightarrow> False | Some e \<Rightarrow> errors_is e ErrRefreshGenerationSuperseded);
                    observe = observeRefresh m (ra_kind args) (jb_queue job) ev (CacheCommittedAt ctx)
                                (rc_startedAt clock) (rc_completedAt clock)
                in if workErr \<noteq> None \<and> \<not> superseded
                   then \<lparr>rr_state = st1, rr_err = workErr, rr_finished = observe False workErr, rr_missed = []\<rparr>
                   else (case completeRefresh R hasClient (rc_tx clock) job args generation st1 of
                       Inl e \<Rightarrow> \<lparr>rr_state = st1, rr_err = Some e, rr_finished = observe superseded (Some e),
                                 rr_missed = []\<rparr>
                     | Inr st2 \<Rightarrow>
                         \<lparr>rr_state = st2, rr_err = None, rr_finished = observe superseded None,
                          rr_missed = (case deadline of
                              Some d \<Rightarrow> if mo_deadlineObserver m \<and> d < rc_completedAt clock
                                then [\<lparr>dm_kind = ra_kind args, dm_key = ra_key args, dm_deadline = d,
                                       dm_completedAt = rc_completedAt clock\<rparr>] else []
                            | None \<Rightarrow> [])\<rparr>)))"

text \<open>The handler and the \<open>Work\<close> methods: each worker calls the handler's method of its kind.\<close>

record 'q RefreshHandler =
  rh_pr :: "string \<Rightarrow> 'q refreshWork"
  rh_repository :: "string \<Rightarrow> 'q refreshWork"
  rh_repoRules :: "string \<Rightarrow> 'q refreshWork"
  rh_stack :: "string \<Rightarrow> 'q refreshWork"
  rh_checks :: "string \<Rightarrow> 'q refreshWork"
  rh_branch :: "string \<Rightarrow> 'q refreshWork"
  rh_branchPage :: "BranchReconcilePageArgs \<Rightarrow> 'q qstate \<Rightarrow> 'q qstate \<times> gerror option"
  rh_membership :: "string \<Rightarrow> 'q refreshWork"
  rh_backfillRepo :: "BackfillRepoPageArgs \<Rightarrow> 'q qstate \<Rightarrow> 'q qstate \<times> gerror option"
  rh_backfillInstallation :: "BackfillInstallationPageArgs \<Rightarrow> 'q qstate \<Rightarrow> 'q qstate \<times> gerror option"

definition page_work :: "string \<Rightarrow> (refreshDeadlineMonitor \<times> string \<times> string \<times> run_clock) option \<Rightarrow>
    ('q qstate \<Rightarrow> 'q qstate \<times> gerror option) option \<Rightarrow> 'q qstate \<Rightarrow> 'q run_result" where
  "page_work missing monitor work st =
     (case work of
        None \<Rightarrow> \<lparr>rr_state = st, rr_err = Some (ErrText missing), rr_finished = [], rr_missed = []\<rparr>
      | Some w \<Rightarrow>
          (case w st of (st1, err) \<Rightarrow>
             \<lparr>rr_state = st1, rr_err = err,
              rr_finished = (case monitor of None \<Rightarrow> []
                | Some (m, kind, queueName, clock) \<Rightarrow>
                    observeRefresh m kind queueName 0 0 (rc_startedAt clock) (rc_completedAt clock) False err),
              rr_missed = []\<rparr>))"

definition Work :: "'q River \<Rightarrow> bool \<Rightarrow> refreshDeadlineMonitor \<Rightarrow> run_clock \<Rightarrow> 'q RefreshHandler option \<Rightarrow>
    Job \<Rightarrow> 'q qstate \<Rightarrow> 'q run_result" where
  "Work R hasClient m clock handler job st =
     (let run = (\<lambda>method args. runRefresh R hasClient m clock
                  (map_option (\<lambda>h. method h (jb_queue job)) handler) job args st)
      in case jb_args job of
           RefreshPRArgs a \<Rightarrow> run rh_pr a
         | RefreshRepositoryArgs a \<Rightarrow> run rh_repository a
         | RefreshRepoRulesArgs a \<Rightarrow> run rh_repoRules a
         | RefreshStackArgs a \<Rightarrow> run rh_stack a
         | RefreshChecksArgs a \<Rightarrow> run rh_checks a
         | RefreshBranchArgs a \<Rightarrow> run rh_branch a
         | ResolveStackMembershipArgs a \<Rightarrow> run rh_membership a
         | BranchPageArgs a \<Rightarrow>
             page_work ''branch reconciliation page worker is not configured'' None
               (map_option (\<lambda>h. rh_branchPage h a) handler) st
         | BackfillRepoArgs a \<Rightarrow>
             page_work ''backfill worker is not configured''
               (Some (m, KindBackfillRepoPage, jb_queue job, clock))
               (map_option (\<lambda>h. rh_backfillRepo h a) handler) st
         | BackfillInstallationArgs a \<Rightarrow>
             page_work ''installation backfill worker is not configured''
               (Some (m, KindBackfillInstallation, jb_queue job, clock))
               (map_option (\<lambda>h. rh_backfillInstallation h a) handler) st)"

section \<open>Orphan reconciliation\<close>

record OrphanedRefreshPointer =
  or_kind :: string
  or_key :: string
  or_generation :: int
  or_terminalState :: string

record OrphanReconcileResult =
  oc_scanned :: nat
  oc_delayed :: nat
  oc_orphans :: "OrphanedRefreshPointer list"

fun state_text :: "JobState \<Rightarrow> string" where
  "state_text Available = ''available''"
| "state_text Pending = ''pending''"
| "state_text Retryable = ''retryable''"
| "state_text Running = ''running''"
| "state_text Scheduled = ''scheduled''"
| "state_text Completed = ''completed''"
| "state_text Cancelled = ''cancelled''"
| "state_text Discarded = ''discarded''"

fun has_pointer :: "JobArgs \<Rightarrow> bool" where
  "has_pointer (BranchPageArgs _) = False"
| "has_pointer (BackfillRepoArgs _) = False"
| "has_pointer (BackfillInstallationArgs _) = False"
| "has_pointer _ = True"

definition latestTerminalPointerState :: "'q River \<Rightarrow> RefreshGenerationKey \<Rightarrow> 'q \<Rightarrow> string" where
  "latestTerminalPointerState R k q =
     (case rev (sort_key jb_id (filter (\<lambda>j. Kind (jb_args j) = fst k \<and> has_pointer (jb_args j) \<and>
            ra_key (decodeArgs (jb_args j)) = snd k \<and> jb_state j \<in> {Cancelled, Completed, Discarded}) (rv_jobs R q))) of
        [] \<Rightarrow> ''unknown''
      | j # _ \<Rightarrow> state_text (jb_state j))"

definition reinsertRefreshPointer :: "'q River \<Rightarrow> RefreshGenerationKey \<Rightarrow> string \<Rightarrow> 'q qstate \<Rightarrow>
    'q qstate \<times> (gerror + bool \<times> int)" where
  "reinsertRefreshPointer R k queueName st =
     (case argsForSpec \<lparr>rs_kind = fst k, rs_key = snd k, rs_scheduledAt = 0, rs_deadline = 0, rs_event = 0\<rparr> of
        Inl e \<Rightarrow> (st, Inl (ErrWrap ''orphaned refresh generation'' [e]))
      | Inr args \<Rightarrow>
          (case GetRefreshIntentState k (qs_gens st) of
             None \<Rightarrow> (st, Inr (False, 0))
           | Some r \<Rightarrow>
               if gr_generation r \<le> gr_completed r then (st, Inr (False, 0))
               else (case rv_insert R args (NewRefreshInsertOptsForQueue queueName 0) (qs_jobs st) of
                   Inl e \<Rightarrow> (st, Inl (ErrWrap ''insert replacement refresh pointer'' [e]))
                 | Inr (res, q) \<Rightarrow> (st\<lparr>qs_jobs := q\<rparr>, Inr (\<not> ir_skipped res, gr_generation r)))))"

fun reconcile_loop :: "'q River \<Rightarrow> string \<Rightarrow> (RefreshGenerationKey \<times> generation_row) list \<Rightarrow>
    OrphanReconcileResult \<Rightarrow> 'q qstate \<Rightarrow> 'q qstate \<times> OrphanReconcileResult \<times> gerror option" where
  "reconcile_loop R queueName [] result st = (st, result, None)"
| "reconcile_loop R queueName ((k, row) # rows) result st =
     (case reinsertRefreshPointer R k queueName st of
        (st1, Inl e) \<Rightarrow> (st1, result, Some e)
      | (st1, Inr (replaced, generation)) \<Rightarrow>
          reconcile_loop R queueName rows
            (if generation = 0 then result
             else if \<not> replaced then result\<lparr>oc_delayed := oc_delayed result + 1\<rparr>
             else result\<lparr>oc_orphans := oc_orphans result @ [\<lparr>or_kind = fst k, or_key = snd k,
                    or_generation = generation, or_terminalState = latestTerminalPointerState R k (qs_jobs st1)\<rparr>]\<rparr>)
            st1)"

definition ReconcileOrphanedRefreshPointers :: "'q River option \<Rightarrow> gotime \<Rightarrow> int \<Rightarrow> string \<Rightarrow> 'q qstate \<Rightarrow>
    'q qstate \<times> OrphanReconcileResult \<times> gerror option" where
  "ReconcileOrphanedRefreshPointers client staleBefore batchLimit queueName st =
     (let empty = \<lparr>oc_scanned = 0, oc_delayed = 0, oc_orphans = []\<rparr> in
      case client of
        None \<Rightarrow> (st, empty, Some (ErrText ''orphan reconciliation requires Postgres and River''))
      | Some R \<Rightarrow>
          if batchLimit \<le> 0 then (st, empty, Some (ErrText ''orphan reconciliation batch limit is invalid''))
          else let rows = ListOutstandingRefreshIntentGenerations staleBefore (nat batchLimit) (qs_gens st)
               in reconcile_loop R queueName rows (empty\<lparr>oc_scanned := length rows\<rparr>) st)"

section \<open>Queue configuration\<close>

definition queue_defaults :: "string \<rightharpoonup> int" where
  "queue_defaults = map_of [(QueueInteractive, 4), (QueueEvent, 8), (QueueBulk, 4), (QueueSweep, 4),
     (QueueReconcile, 2), (QueueDrift, 1), (QueuePruner, 1)]"

fun queue_configs :: "(string \<Rightarrow> int) \<Rightarrow> string list \<Rightarrow> (string \<rightharpoonup> int) \<Rightarrow> gerror + (string \<rightharpoonup> int)" where
  "queue_configs overrides [] qs = Inr qs"
| "queue_configs overrides (n # ns) qs =
     (case queue_defaults n of
        None \<Rightarrow> Inl (ErrText ''unsupported River queue'')
      | Some d \<Rightarrow>
          let w = (if overrides n \<noteq> 0 then overrides n else d)
          in if w \<le> 0 then Inl (ErrText ''river queue max workers must be positive'')
             else queue_configs overrides ns (qs(n \<mapsto> w)))"

text \<open>The queues of \<open>NewClient\<close>; \<open>None\<close> when no \<open>WithQueues\<close> option was given.\<close>

definition client_queues :: "string list option \<Rightarrow> (string \<Rightarrow> int) \<Rightarrow> gerror + (string \<rightharpoonup> int)" where
  "client_queues names overrides =
     queue_configs overrides
       (case names of None \<Rightarrow> [QueueInteractive, QueueEvent, QueueBulk, QueueSweep] | Some ns \<Rightarrow> ns) Map.empty"

end
