(* ===== verification/Classify.thy ===== *)
theory Classify
  imports Refresh_Queue
begin

text \<open>
  \<open>src/internal/dispatch/classify.go\<close>: the rule table and the classification of a webhook
  delivery into refresh intents.

  A \<open>Target\<close> is a string in the sources; \<open>NoTarget\<close> is the empty string and \<open>OtherTarget\<close> any string
  the table does not know. The wire decoding (\<open>gh.DecodeWebhookPayload\<close> followed by
  \<open>json.Unmarshal\<close>) is the argument \<open>decode\<close> of the definitions: it takes the content type and the
  body to the envelope or to an error.
\<close>

section \<open>Rules\<close>

datatype Target =
    TargetPullRequest | TargetStack | TargetChecks | TargetBranch | TargetCodeowners
  | TargetResolveStackMembership | NoTarget | OtherTarget string

definition ActionAny :: string where "ActionAny = ''*''"
definition PriorityEvent :: string where "PriorityEvent = QueueEvent"

record Intent =
  in_kind :: string
  in_key :: string
  in_priority :: string

record Rule =
  ru_event :: string
  ru_action :: string
  ru_target :: Target
  ru_stacked :: Target

definition rule :: "string \<Rightarrow> Target \<Rightarrow> Target \<Rightarrow> Rule" where
  "rule event target stacked = \<lparr>ru_event = event, ru_action = ActionAny, ru_target = target, ru_stacked = stacked\<rparr>"

definition DefaultRules :: "Rule list" where
  "DefaultRules =
     [rule ''pull_request'' TargetPullRequest TargetStack,
      rule ''pull_request'' TargetResolveStackMembership NoTarget,
      rule ''pull_request_review'' TargetPullRequest NoTarget,
      rule ''pull_request_review_comment'' TargetPullRequest NoTarget,
      rule ''pull_request_review_thread'' TargetPullRequest NoTarget,
      rule ''issue_comment'' TargetPullRequest NoTarget,
      rule ''check_run'' TargetChecks NoTarget,
      rule ''check_suite'' TargetChecks NoTarget,
      rule ''push'' TargetBranch TargetStack,
      rule ''push'' TargetCodeowners NoTarget]"

definition isPullRequestEvent :: "string \<Rightarrow> bool" where
  "isPullRequestEvent event = (event \<in> {''pull_request'', ''pull_request_review'',
     ''pull_request_review_comment'', ''pull_request_review_thread'', ''issue_comment''})"

fun validTarget :: "Target \<Rightarrow> bool" where
  "validTarget NoTarget = False"
| "validTarget (OtherTarget _) = False"
| "validTarget _ = True"

definition target_event_error :: "Rule \<Rightarrow> gerror option" where
  "target_event_error r =
     (case ru_target r of
        TargetPullRequest \<Rightarrow> if \<not> isPullRequestEvent (ru_event r)
          then Some (ErrText ''target requires a pull-request event'') else None
      | TargetResolveStackMembership \<Rightarrow> if ru_event r \<noteq> ''pull_request''
          then Some (ErrText ''target requires event pull_request'') else None
      | TargetChecks \<Rightarrow> if ru_event r \<noteq> ''check_run'' \<and> ru_event r \<noteq> ''check_suite''
          then Some (ErrText ''target requires check_run or check_suite'') else None
      | TargetBranch \<Rightarrow> if ru_event r \<noteq> ''push'' then Some (ErrText ''target requires event push'') else None
      | TargetCodeowners \<Rightarrow> if ru_event r \<noteq> ''push'' then Some (ErrText ''target requires event push'') else None
      | TargetStack \<Rightarrow> Some (ErrText ''target stack is only valid as stacked_target'')
      | _ \<Rightarrow> None)"

definition validateRule :: "Rule \<Rightarrow> gerror option" where
  "validateRule r =
     (if ru_event r = [] \<or> trim_space (ru_event r) \<noteq> ru_event r
      then Some (ErrText ''event must be non-empty and trimmed'')
      else if ru_action r = [] \<or> trim_space (ru_action r) \<noteq> ru_action r
      then Some (ErrText ''action must be non-empty and trimmed'')
      else if \<not> validTarget (ru_target r) then Some (ErrText ''unsupported target'')
      else if ru_stacked r \<noteq> NoTarget \<and> \<not> validTarget (ru_stacked r)
      then Some (ErrText ''unsupported stacked target'')
      else case target_event_error r of
        Some e \<Rightarrow> Some e
      | None \<Rightarrow>
          if ru_stacked r \<noteq> NoTarget then
            (if ru_stacked r \<noteq> TargetStack then Some (ErrText ''stacked_target must be stack'')
             else if ru_target r \<noteq> TargetPullRequest \<and> ru_target r \<noteq> TargetBranch
             then Some (ErrText ''stacked_target requires pull_request or branch target'')
             else None)
          else None)"

text \<open>\<open>LoadRulesFile\<close> after the YAML decoding: the document's rules, or its error.\<close>

fun validateRules :: "Rule list \<Rightarrow> gerror option" where
  "validateRules [] = None"
| "validateRules (r # rs) = (case validateRule r of
     Some e \<Rightarrow> Some (ErrWrap ''dispatcher rule'' [e]) | None \<Rightarrow> validateRules rs)"

definition LoadRulesFile :: "gerror + Rule list \<Rightarrow> gerror + Rule list" where
  "LoadRulesFile document =
     (case document of
        Inl e \<Rightarrow> Inl e
      | Inr rules \<Rightarrow>
          if rules = [] then Inl (ErrText ''dispatcher rules file has no rules'')
          else (case validateRules rules of Some e \<Rightarrow> Inl e | None \<Rightarrow> Inr rules))"

section \<open>Payloads\<close>

record payload_commit =
  pc_added :: "string list"
  pc_modified :: "string list"
  pc_removed :: "string list"

record payloadStackRef =
  ps_id :: int
  ps_number :: int
  ps_size :: int
  ps_position :: int
  ps_baseRef :: string
  ps_baseSHA :: string

record payloadEnvelope =
  pl_action :: string
  pl_number :: int
  pl_ref :: string
  pl_before :: string
  pl_after :: string
  pl_created :: bool
  pl_deleted :: bool
  pl_forced :: bool
  pl_repo :: string
  pl_defaultBranch :: string
  pl_commits :: "payload_commit list"
  pl_headCommit :: "payload_commit option"
  pl_prNumber :: int
  pl_prStack :: "payloadStackRef option"
  pl_issueNumber :: int
  pl_issuePullRequest :: bool
  pl_stackNumber :: "int option"
  pl_checkRunSHA :: string
  pl_checkSuiteSHA :: string

record stackSummaryHint =
  sh_repo :: string
  sh_pr :: int
  sh_id :: int
  sh_number :: int
  sh_size :: int
  sh_position :: int
  sh_baseRef :: string
  sh_baseSHA :: string

record branchPushHint =
  bh_repo :: string
  bh_branch :: string
  bh_before :: string
  bh_after :: string
  bh_transitionKnown :: bool
  bh_deleted :: bool
  bh_forced :: bool

record classification =
  cl_intents :: "Intent list"
  cl_matched :: nat
  cl_stackHint :: "stackSummaryHint option"
  cl_branchHint :: "branchPushHint option"

definition empty_classification :: classification where
  "empty_classification = \<lparr>cl_intents = [], cl_matched = 0, cl_stackHint = None, cl_branchHint = None\<rparr>"

definition payloadStack :: "payloadEnvelope \<Rightarrow> int option" where
  "payloadStack p = (case pl_prStack p of Some s \<Rightarrow> Some (ps_number s) | None \<Rightarrow> pl_stackNumber p)"

definition isCodeowners :: "string \<Rightarrow> bool" where
  "isCodeowners path = (path \<in> {''.github/CODEOWNERS'', ''CODEOWNERS'', ''docs/CODEOWNERS''})"

definition commit_touches :: "payload_commit \<Rightarrow> bool" where
  "commit_touches c = (list_ex isCodeowners (pc_added c) \<or> list_ex isCodeowners (pc_modified c) \<or>
     list_ex isCodeowners (pc_removed c))"

definition pushTouchesCodeowners :: "payloadEnvelope \<Rightarrow> bool" where
  "pushTouchesCodeowners p = (list_ex commit_touches (pl_commits p) \<or>
     (case pl_headCommit p of None \<Rightarrow> False | Some c \<Rightarrow> commit_touches c))"

definition branchPrefix :: string where "branchPrefix = ''refs/heads/''"

definition pr_key :: "string \<Rightarrow> int \<Rightarrow> string" where "pr_key repo n = ''pr:'' @ repo @ '':'' @ itoa n"
definition stack_key :: "string \<Rightarrow> int \<Rightarrow> string" where "stack_key repo n = ''stack:'' @ repo @ '':'' @ itoa n"
definition checks_key :: "string \<Rightarrow> string \<Rightarrow> string" where "checks_key repo sha = ''checks:'' @ repo @ '':'' @ sha"
definition branch_key :: "string \<Rightarrow> string \<Rightarrow> string" where "branch_key repo b = ''branch:'' @ repo @ '':'' @ b"

text \<open>The key of a target; \<open>Inr None\<close> is \<open>emit = false\<close>.\<close>

fun intentKey :: "Target \<Rightarrow> string \<Rightarrow> payloadEnvelope \<Rightarrow> gerror + string option" where
  "intentKey target event p =
     (if pl_repo p = [] then Inl (ErrText ''payload is missing repository.full_name'')
      else if target = TargetPullRequest \<or> target = TargetResolveStackMembership then
        (if event = ''issue_comment'' \<and> \<not> pl_issuePullRequest p then Inr None
         else let number = (if event = ''issue_comment'' then pl_issueNumber p
                            else if pl_number p = 0 then pl_prNumber p else pl_number p)
              in if number \<le> 0 then Inl (ErrText ''pull_request payload is missing a PR number'')
                 else Inr (Some (pr_key (pl_repo p) number)))
      else if target = TargetStack then
        (case payloadStack p of
           None \<Rightarrow> Inl (ErrText ''payload is missing stack.number'')
         | Some n \<Rightarrow> if n \<le> 0 then Inl (ErrText ''payload is missing stack.number'')
                     else Inr (Some (stack_key (pl_repo p) n)))
      else if target = TargetChecks then
        (let sha = (if event = ''check_suite'' then pl_checkSuiteSHA p else pl_checkRunSHA p)
         in if sha = [] then Inl (ErrText ''payload is missing head_sha'')
            else Inr (Some (checks_key (pl_repo p) sha)))
      else if target = TargetBranch then
        (case strip_prefix branchPrefix (pl_ref p) of
           None \<Rightarrow> Inr None
         | Some b \<Rightarrow> if b = [] then Inl (ErrText ''push payload has an empty branch ref'')
                     else Inr (Some (branch_key (pl_repo p) b)))
      else if target = TargetCodeowners then
        (case strip_prefix branchPrefix (pl_ref p) of
           None \<Rightarrow> Inr None
         | Some b \<Rightarrow> if b = [] then Inl (ErrText ''push payload has an empty branch ref'')
                     else if pl_defaultBranch p = [] \<or> b \<noteq> pl_defaultBranch p \<or> \<not> pushTouchesCodeowners p
                     then Inr None
                     else Inr (Some (branch_key (pl_repo p) b)))
      else Inl (ErrText ''unsupported dispatch target''))"

fun jobKind :: "Target \<Rightarrow> gerror + string" where
  "jobKind TargetPullRequest = Inr KindRefreshPR"
| "jobKind TargetStack = Inr KindRefreshStack"
| "jobKind TargetChecks = Inr KindRefreshChecks"
| "jobKind TargetBranch = Inr KindRefreshBranch"
| "jobKind TargetCodeowners = Inr KindRefreshBranch"
| "jobKind TargetResolveStackMembership = Inr KindResolveStackMembership"
| "jobKind _ = Inl (ErrText ''unsupported dispatch target'')"

definition normalizePushSHA :: "string \<Rightarrow> string" where
  "normalizePushSHA sha = (if list_ex (\<lambda>c. c \<noteq> CHR ''0'') sha then sha else [])"

definition completeBranchPushHint :: "payloadEnvelope \<Rightarrow> Intent list \<Rightarrow> branchPushHint option" where
  "completeBranchPushHint p intents =
     (if pl_repo p = [] then None
      else case strip_prefix branchPrefix (pl_ref p) of
        None \<Rightarrow> None
      | Some b \<Rightarrow>
          if \<not> list_ex (\<lambda>i. in_kind i = KindRefreshBranch \<and> in_key i = branch_key (pl_repo p) b) intents then None
          else Some \<lparr>bh_repo = pl_repo p, bh_branch = b, bh_before = normalizePushSHA (pl_before p),
                 bh_after = normalizePushSHA (pl_after p),
                 bh_transitionKnown = (pl_before p \<noteq> [] \<and> pl_after p \<noteq> []),
                 bh_deleted = pl_deleted p, bh_forced = pl_forced p\<rparr>)"

definition completeStackSummaryHint :: "payloadEnvelope \<Rightarrow> Intent list \<Rightarrow> stackSummaryHint option" where
  "completeStackSummaryHint p intents =
     (let prNumber = (if pl_number p = 0 then pl_prNumber p else pl_number p) in
      case pl_prStack p of
        None \<Rightarrow> None
      | Some s \<Rightarrow>
          if pl_repo p = [] \<or> prNumber \<le> 0 \<or> ps_id s \<le> 0 \<or> ps_number s \<le> 0 \<or> ps_size s \<le> 0 \<or>
             ps_position s \<le> 0 \<or> ps_size s < ps_position s \<or> ps_baseRef s = [] \<or> ps_baseSHA s = [] then None
          else if \<not> list_ex (\<lambda>i. in_kind i = KindRefreshStack \<and> in_key i = stack_key (pl_repo p) (ps_number s)) intents \<or>
             \<not> list_ex (\<lambda>i. in_kind i = KindResolveStackMembership \<and> in_key i = pr_key (pl_repo p) prNumber) intents
          then None
          else Some \<lparr>sh_repo = pl_repo p, sh_pr = prNumber, sh_id = ps_id s, sh_number = ps_number s,
                 sh_size = ps_size s, sh_position = ps_position s, sh_baseRef = ps_baseRef s,
                 sh_baseSHA = ps_baseSHA s\<rparr>)"

section \<open>Classification\<close>

definition identity :: "string \<Rightarrow> string \<Rightarrow> string" where
  "identity kind key = kind @ [char_of (0::nat)] @ key"

definition rule_targets :: "payloadEnvelope \<Rightarrow> Rule \<Rightarrow> Target list" where
  "rule_targets p r =
     (if ru_stacked r \<noteq> NoTarget \<and> payloadStack p \<noteq> None \<and> ru_target r \<noteq> TargetBranch
      then [ru_target r, ru_stacked r] else [ru_target r])"

fun add_targets :: "string \<Rightarrow> payloadEnvelope \<Rightarrow> Target list \<Rightarrow> Intent list \<Rightarrow> gerror + Intent list" where
  "add_targets event p [] intents = Inr intents"
| "add_targets event p (t # ts) intents =
     (case intentKey t event p of
        Inl e \<Rightarrow> Inl e
      | Inr None \<Rightarrow> add_targets event p ts intents
      | Inr (Some key) \<Rightarrow>
          (case jobKind t of
             Inl e \<Rightarrow> Inl e
           | Inr kind \<Rightarrow>
               if identity kind key \<in> set (map (\<lambda>i. identity (in_kind i) (in_key i)) intents)
               then add_targets event p ts intents
               else add_targets event p ts
                      (intents @ [\<lparr>in_kind = kind, in_key = key, in_priority = PriorityEvent\<rparr>])))"

fun apply_rules :: "string \<Rightarrow> payloadEnvelope \<Rightarrow> Rule list \<Rightarrow> nat \<Rightarrow> Intent list \<Rightarrow> gerror + nat \<times> Intent list" where
  "apply_rules event p [] n intents = Inr (n, intents)"
| "apply_rules event p (r # rs) n intents =
     (if ru_action r \<noteq> ActionAny \<and> ru_action r \<noteq> pl_action p then apply_rules event p rs n intents
      else case add_targets event p (rule_targets p r) intents of
        Inl e \<Rightarrow> Inl e
      | Inr intents' \<Rightarrow> apply_rules event p rs (Suc n) intents')"

definition classifyContent :: "(string \<Rightarrow> string \<Rightarrow> gerror + payloadEnvelope) \<Rightarrow> Rule list \<Rightarrow> string \<Rightarrow> string \<Rightarrow>
    string \<Rightarrow> gerror + classification" where
  "classifyContent decode rules event contentType body =
     (let eventRules = filter (\<lambda>r. ru_event r = event) rules in
      if eventRules = [] then Inr empty_classification
      else case decode contentType body of
        Inl e \<Rightarrow> Inl (ErrWrap ''decode payload'' [e])
      | Inr p \<Rightarrow>
          (case apply_rules event p eventRules 0 [] of
             Inl e \<Rightarrow> Inl e
           | Inr (matched, intents) \<Rightarrow>
               Inr \<lparr>cl_intents = intents, cl_matched = matched,
                    cl_stackHint = completeStackSummaryHint p intents,
                    cl_branchHint = completeBranchPushHint p intents\<rparr>))"

definition WebhookJSONContentType :: string where "WebhookJSONContentType = ''application/json''"

definition Classify :: "(string \<Rightarrow> string \<Rightarrow> gerror + payloadEnvelope) \<Rightarrow> Rule list \<Rightarrow> string \<Rightarrow> string \<Rightarrow>
    gerror + Intent list" where
  "Classify decode rules event body =
     (case classifyContent decode rules event WebhookJSONContentType body of
        Inl e \<Rightarrow> Inl e | Inr c \<Rightarrow> Inr (cl_intents c))"

text \<open>\<open>headers\<close> is \<open>Headers.Get("Content-Type")\<close> of the stored JSON envelope, or the decoding error.\<close>

definition storedWebhookContentType :: "(string \<Rightarrow> gerror + string) \<Rightarrow> string \<Rightarrow> gerror + string" where
  "storedWebhookContentType headers stored =
     (if trim_space stored = [] then Inr WebhookJSONContentType
      else case headers stored of
        Inl e \<Rightarrow> Inl (ErrWrap ''decode stored webhook headers'' [e])
      | Inr ct \<Rightarrow> Inr (if ct = [] then WebhookJSONContentType else ct))"

definition classifyStored :: "(string \<Rightarrow> string \<Rightarrow> gerror + payloadEnvelope) \<Rightarrow> (string \<Rightarrow> gerror + string) \<Rightarrow>
    Rule list \<Rightarrow> string \<Rightarrow> string \<Rightarrow> string \<Rightarrow> gerror + classification" where
  "classifyStored decode headers rules event body stored =
     (case storedWebhookContentType headers stored of
        Inl e \<Rightarrow> Inl e
      | Inr ct \<Rightarrow> classifyContent decode rules event ct body)"

end
