(* ===== verification/Dispatcher.thy ===== *)
theory Dispatcher
  imports Classify
begin

text \<open>
  \<open>src/internal/dispatch/dispatcher.go\<close> and \<open>src/db/queries/webhook_deliveries.sql\<close>: the
  transaction that turns claimed webhook deliveries into refresh generations and River jobs.

  The branch bulk writer and the cache are not modelled here: the calls the dispatcher makes on them
  (\<open>ApplyBranchPushTx\<close>, \<open>RecordBranchReconciliationPagesTx\<close>, \<open>GetStackByKey\<close>, the writer fence) are
  the fields of \<open>EntityWriter\<close>, an argument. An attempt that returns \<open>Inl\<close> rolled its transaction
  back. The rows of a claim come in the order of the candidates.
\<close>

section \<open>Configuration\<close>

definition MaxDebounce :: duration where "MaxDebounce = 15 * second"
definition classificationRetryBaseBackoff :: duration where "classificationRetryBaseBackoff = second"
definition classificationRetryMaxBackoff :: duration where "classificationRetryMaxBackoff = 60 * second"
definition DefaultBranchReconcilePageSize :: int where "DefaultBranchReconcilePageSize = 25"

record Config =
  cf_batchSize :: int
  cf_maxAttempts :: int
  cf_debounce :: duration
  cf_pollInterval :: duration
  cf_rules :: "Rule list"
  cf_pageSize :: int

definition NewDispatcher :: "bool \<Rightarrow> Config \<Rightarrow> gerror + Config" where
  "NewDispatcher clients cfg =
     (if \<not> clients then Inl (ErrText ''dispatcher requires Postgres and River clients'')
      else if cf_batchSize cfg \<le> 0 \<or> cf_maxAttempts cfg \<le> 0 \<or> cf_debounce cfg \<le> 0 \<or> cf_pollInterval cfg \<le> 0
      then Inl (ErrText ''dispatcher sizes and durations must be positive'')
      else if MaxDebounce < cf_debounce cfg then Inl (ErrText ''dispatcher debounce must not exceed'')
      else let cfg1 = (if cf_pageSize cfg = 0 then cfg\<lparr>cf_pageSize := DefaultBranchReconcilePageSize\<rparr> else cfg)
           in if cf_pageSize cfg1 < 0 \<or> DefaultBranchReconcilePageSize < cf_pageSize cfg1
              then Inl (ErrText ''branch reconciliation page size must be in range'')
              else if cf_rules cfg1 = [] then Inl (ErrText ''dispatcher classifier rules are required'')
              else Inr cfg1)"

function backoff_from :: "int \<Rightarrow> int \<Rightarrow> duration \<Rightarrow> duration" where
  "backoff_from current attempt delay =
     (if current < attempt then
        (if classificationRetryMaxBackoff sdiv 2 \<le> delay then classificationRetryMaxBackoff
         else backoff_from (current + 1) attempt (delay * 2))
      else delay)"
  by pat_completeness auto
termination by (relation "measure (\<lambda>(c, a, d). nat (a - c))") auto

declare backoff_from.simps [simp del]

definition classificationRetryBackoff :: "int \<Rightarrow> duration" where
  "classificationRetryBackoff attempt = backoff_from 1 attempt classificationRetryBaseBackoff"

definition jitteredRetryDelay :: "(int \<Rightarrow> int) \<Rightarrow> duration \<Rightarrow> duration" where
  "jitteredRetryDelay rnd interval = (if interval \<le> 1 then interval else interval sdiv 2 + rnd interval)"

section \<open>Deliveries\<close>

datatype delivery_status = DPending | DProcessing | DProcessed | DParked

record delivery =
  dv_event :: string
  dv_body :: string
  dv_headers :: string
  dv_receivedAt :: gotime
  dv_status :: delivery_status
  dv_attempts :: int
  dv_lastError :: "gerror option"
  dv_nextAttempt :: gotime

type_synonym deliveries = "(string \<times> delivery) list"

definition claimed_row :: "delivery \<Rightarrow> delivery" where
  "claimed_row d = d\<lparr>dv_status := DProcessing, dv_attempts := dv_attempts d + 1, dv_lastError := None\<rparr>"

definition claim_candidates :: "gotime \<Rightarrow> string set \<Rightarrow> nat \<Rightarrow> deliveries \<Rightarrow> deliveries" where
  "claim_candidates now locked n t =
     take n (sort_key (\<lambda>(g, d). (dv_nextAttempt d, dv_receivedAt d, g))
       (filter (\<lambda>(g, d). dv_status d = DPending \<and> dv_nextAttempt d \<le> now \<and> g \<notin> locked) t))"

definition ClaimWebhookDeliveries :: "gotime \<Rightarrow> string set \<Rightarrow> nat \<Rightarrow> deliveries \<Rightarrow> deliveries \<times> deliveries" where
  "ClaimWebhookDeliveries now locked n t =
     (let gs = map fst (claim_candidates now locked n t)
      in (map (\<lambda>(g, d). (g, if g \<in> set gs then claimed_row d else d)) t,
          map (\<lambda>(g, d). (g, claimed_row d)) (claim_candidates now locked n t)))"

record deliveryResult =
  re_guid :: string
  re_status :: delivery_status
  re_error :: "gerror option"
  re_retry :: "int option"

definition result_row :: "gotime \<Rightarrow> deliveryResult \<Rightarrow> delivery \<Rightarrow> delivery" where
  "result_row now r d = d\<lparr>dv_status := re_status r, dv_lastError := re_error r,
     dv_nextAttempt := (case re_retry r of None \<Rightarrow> dv_nextAttempt d | Some s \<Rightarrow> now + s * second)\<rparr>"

definition find_result :: "deliveryResult list \<Rightarrow> string \<Rightarrow> deliveryResult option" where
  "find_result rs g = List.find (\<lambda>r. re_guid r = g) rs"

definition SetWebhookDeliveryResults :: "gotime \<Rightarrow> deliveryResult list \<Rightarrow> deliveries \<Rightarrow> deliveries \<times> nat" where
  "SetWebhookDeliveryResults now rs t =
     (map (\<lambda>(g, d). (g, case find_result rs g of
          Some r \<Rightarrow> if dv_status d = DProcessing then result_row now r d else d
        | None \<Rightarrow> d)) t,
      length (filter (\<lambda>(g, d). dv_status d = DProcessing \<and> find_result rs g \<noteq> None) t))"

section \<open>The entity writer\<close>

record BranchReconciliationTarget =
  rt_kind :: string
  rt_key :: string
  rt_entity :: string
  rt_generation :: int

record BranchBulkResult =
  bb_repo :: int
  bb_generation :: int
  bb_targets :: "BranchReconciliationTarget list"
  bb_repositoryKey :: string
  bb_repositories :: int
  bb_pullRequests :: int
  bb_stacks :: int
  bb_superseded :: int

definition no_bulk :: BranchBulkResult where
  "no_bulk = \<lparr>bb_repo = 0, bb_generation = 0, bb_targets = [], bb_repositoryKey = [], bb_repositories = 0,
     bb_pullRequests = 0, bb_stacks = 0, bb_superseded = 0\<rparr>"

record pendingBranchPush =
  pp_hint :: branchPushHint
  pp_guid :: string
  pp_receivedAt :: gotime

record cached_stack =
  ck_tombstoned :: bool
  ck_ghID :: "int option"
  ck_baseRef :: string
  ck_baseSHA :: string
  ck_entries :: "gerror + int list"

record 'c EntityWriter =
  wr_fence :: "'c \<Rightarrow> gerror option"
  wr_apply :: "pendingBranchPush \<Rightarrow> 'c \<times> generations \<Rightarrow> gerror + BranchBulkResult \<times> 'c \<times> generations"
  wr_record :: "int \<Rightarrow> string \<Rightarrow> int \<Rightarrow> nat list \<Rightarrow> 'c \<Rightarrow> gerror + 'c"
  wr_stack :: "string \<Rightarrow> int \<Rightarrow> 'c \<Rightarrow> gerror + cached_stack option"

definition stackSummaryMatchesCache :: "'c EntityWriter \<Rightarrow> 'c \<Rightarrow> stackSummaryHint \<Rightarrow> gerror + bool" where
  "stackSummaryMatchesCache w cache h =
     (if sh_size h < sh_position h then Inr False
      else if sh_baseSHA h = [] then Inr False
      else case wr_stack w (sh_repo h) (wrap32 (sh_number h)) cache of
        Inl e \<Rightarrow> Inl e
      | Inr None \<Rightarrow> Inr False
      | Inr (Some s) \<Rightarrow>
          if ck_tombstoned s \<or> ck_ghID s \<noteq> Some (sh_id h) \<or> ck_baseRef s \<noteq> sh_baseRef h \<or>
             ck_baseSHA s = [] \<or> ck_baseSHA s \<noteq> sh_baseSHA h then Inr False
          else (case ck_entries s of
              Inl e \<Rightarrow> Inl (ErrWrap ''decode cached stack entries'' [e])
            | Inr entries \<Rightarrow>
                Inr (int (length entries) = sh_size h \<and> sh_position h \<le> int (length entries) \<and>
                     entries ! nat (sh_position h - 1) = sh_pr h)))"

definition withoutMatchingStackRefresh :: "Intent list \<Rightarrow> stackSummaryHint \<Rightarrow> Intent list" where
  "withoutMatchingStackRefresh intents h =
     filter (\<lambda>i. \<not> (in_kind i = KindRefreshStack \<and> in_key i = stack_key (sh_repo h) (sh_number h))) intents"

definition withoutBranchRefresh :: "Intent list \<Rightarrow> Intent list" where
  "withoutBranchRefresh intents = filter (\<lambda>i. in_kind i \<noteq> KindRefreshBranch) intents"

section \<open>Branch pages\<close>

definition page_target :: "BranchReconciliationTarget \<Rightarrow> BranchReconcileTarget" where
  "page_target t = \<lparr>bt_kind = rt_kind t, bt_key = rt_key t, bt_entity = rt_entity t, bt_generation = rt_generation t\<rparr>"

definition page_kind_ok :: "BranchReconciliationTarget \<Rightarrow> bool" where
  "page_kind_ok t = (rt_kind t = KindRefreshPR \<or> rt_kind t = KindRefreshStack)"

function pages_from :: "branchPushHint \<Rightarrow> BranchBulkResult \<Rightarrow> nat \<Rightarrow> nat \<Rightarrow> BranchReconciliationTarget list \<Rightarrow>
    gerror + ((JobArgs \<times> InsertOpts) \<times> nat) list" where
  "pages_from h bulk psize page ts =
     (if ts = [] \<or> psize = 0 then Inr []
      else let now = take psize ts in
        if \<not> list_all page_kind_ok now
        then Inl (ErrText ''unsupported branch reconciliation target kind'')
        else (case pages_from h bulk psize (Suc page) (drop psize ts) of
            Inl e \<Rightarrow> Inl e
          | Inr ps \<Rightarrow> Inr (((NewBranchReconcilePageArgs (bb_repo bulk) (bh_repo h) (bh_branch h) (bb_generation bulk)
                (int page) (map page_target now), NewBackfillInsertOptsForQueue QueueBulk), length now) # ps)))"
  by pat_completeness auto
termination by (relation "measure (\<lambda>(h, b, s, p, ts). length ts)") auto

declare pages_from.simps [simp del]

definition branchReconciliationPages :: "branchPushHint \<Rightarrow> BranchBulkResult \<Rightarrow> int \<Rightarrow>
    gerror + (JobArgs \<times> InsertOpts) list \<times> nat list" where
  "branchReconciliationPages h bulk pageSize =
     (if pageSize \<le> 0 then Inl (ErrText ''branch reconciliation page size must be positive'')
      else case pages_from h bulk (nat pageSize) 1 (bb_targets bulk) of
        Inl e \<Rightarrow> Inl e
      | Inr ps \<Rightarrow> Inr (map fst ps, map snd ps))"

section \<open>The batch\<close>

record batch_acc =
  ba_results :: "deliveryResult list"
  ba_intents :: "Intent list"
  ba_received :: "Intent \<rightharpoonup> gotime"
  ba_pushes :: "pendingBranchPush list"
  ba_unmatched :: "string list"

definition empty_acc :: batch_acc where
  "empty_acc = \<lparr>ba_results = [], ba_intents = [], ba_received = Map.empty, ba_pushes = [], ba_unmatched = []\<rparr>"

definition failed_result :: "Config \<Rightarrow> string \<Rightarrow> delivery \<Rightarrow> gerror \<Rightarrow> deliveryResult" where
  "failed_result cfg g d e =
     (if cf_maxAttempts cfg \<le> dv_attempts d
      then \<lparr>re_guid = g, re_status = DParked, re_error = Some e, re_retry = None\<rparr>
      else \<lparr>re_guid = g, re_status = DPending, re_error = Some e,
            re_retry = Some (classificationRetryBackoff (dv_attempts d) sdiv second)\<rparr>)"

fun note_received :: "gotime \<Rightarrow> Intent list \<Rightarrow> (Intent \<rightharpoonup> gotime) \<Rightarrow> (Intent \<rightharpoonup> gotime)" where
  "note_received t [] m = m"
| "note_received t (i # is) m =
     note_received t is (case m i of
         None \<Rightarrow> m(i \<mapsto> t)
       | Some prior \<Rightarrow> if t < prior then m(i \<mapsto> t) else m)"

text \<open>What one classified delivery contributes: its intents without what the bulk path or an
  unchanged stack summary makes superfluous.\<close>

definition kept_intents :: "'c EntityWriter \<Rightarrow> 'c \<Rightarrow> classification \<Rightarrow> gerror + Intent list" where
  "kept_intents w cache c =
     (let is = (case cl_branchHint c of None \<Rightarrow> cl_intents c | Some _ \<Rightarrow> withoutBranchRefresh (cl_intents c))
      in case cl_stackHint c of
           None \<Rightarrow> Inr is
         | Some h \<Rightarrow>
             (case stackSummaryMatchesCache w cache h of
                Inl e \<Rightarrow> Inl (ErrWrap ''compare webhook stack summary'' [e])
              | Inr m \<Rightarrow> Inr (if m then withoutMatchingStackRefresh is h else is)))"

fun classify_deliveries :: "(string \<Rightarrow> string \<Rightarrow> gerror + payloadEnvelope) \<Rightarrow> (string \<Rightarrow> gerror + string) \<Rightarrow>
    Config \<Rightarrow> 'c EntityWriter \<Rightarrow> 'c \<Rightarrow> deliveries \<Rightarrow> batch_acc \<Rightarrow> gerror + batch_acc" where
  "classify_deliveries decode headers cfg w cache [] acc = Inr acc"
| "classify_deliveries decode headers cfg w cache ((g, d) # ds) acc =
     (case classifyStored decode headers (cf_rules cfg) (dv_event d) (dv_body d) (dv_headers d) of
        Inl e \<Rightarrow> classify_deliveries decode headers cfg w cache ds
                   (acc\<lparr>ba_results := ba_results acc @ [failed_result cfg g d e]\<rparr>)
      | Inr c \<Rightarrow>
          (case kept_intents w cache c of
             Inl e \<Rightarrow> Inl e
           | Inr is \<Rightarrow>
               classify_deliveries decode headers cfg w cache ds
                 \<lparr>ba_results = ba_results acc @
                    [\<lparr>re_guid = g, re_status = DProcessed, re_error = None, re_retry = None\<rparr>],
                  ba_intents = ba_intents acc @ is,
                  ba_received = note_received (dv_receivedAt d) is (ba_received acc),
                  ba_pushes = (case cl_branchHint c of None \<Rightarrow> ba_pushes acc
                    | Some h \<Rightarrow> ba_pushes acc @ [\<lparr>pp_hint = h, pp_guid = g, pp_receivedAt = dv_receivedAt d\<rparr>]),
                  ba_unmatched = (if cl_matched c = 0 then ba_unmatched acc @ [dv_event d] else ba_unmatched acc)\<rparr>))"

fun apply_pushes :: "'q River \<Rightarrow> 'c EntityWriter \<Rightarrow> Config \<Rightarrow> pendingBranchPush list \<Rightarrow> 'c \<times> 'q qstate \<Rightarrow>
    gerror + 'c \<times> 'q qstate" where
  "apply_pushes R w cfg [] s = Inr s"
| "apply_pushes R w cfg (p # ps) (cache, q) =
     (case wr_apply w p (cache, qs_gens q) of
        Inl e \<Rightarrow> Inl (ErrWrap ''bulk apply branch push''
          [if errors_is e ErrBranchRefreshGenerationContention then ErrRefreshGenerationContention else e])
      | Inr (bulk, cache1, gens1) \<Rightarrow>
          if bb_repo bulk = 0 then apply_pushes R w cfg ps (cache1, q\<lparr>qs_gens := gens1\<rparr>)
          else (case branchReconciliationPages (pp_hint p) bulk (cf_pageSize cfg) of
              Inl e \<Rightarrow> Inl e
            | Inr (params, counts) \<Rightarrow>
                (case wr_record w (bb_repo bulk) (bh_branch (pp_hint p)) (bb_generation bulk) counts cache1 of
                   Inl e \<Rightarrow> Inl e
                 | Inr cache2 \<Rightarrow>
                     (case (if params = [] then Inr ([], qs_jobs q) else rv_insert_many R params (qs_jobs q)) of
                        Inl e \<Rightarrow> Inl (ErrWrap ''insert branch reconciliation pages'' [e])
                      | Inr (inserted, jobs1) \<Rightarrow>
                          if length inserted \<noteq> length params then Inl (ErrText ''inserted branch pages for specs'')
                          else (case (if bb_repositoryKey bulk = [] then Inr jobs1
                                 else case rv_insert R (NewRefreshRepositoryHeadArgs (bb_repositoryKey bulk))
                                            (NewRefreshInsertOptsForQueue QueueBulk 0) jobs1 of
                                     Inl e \<Rightarrow> Inl e | Inr (_, j) \<Rightarrow> Inr j) of
                              Inl e \<Rightarrow> Inl (ErrWrap ''insert default-branch repository reconciliation'' [e])
                            | Inr jobs2 \<Rightarrow>
                                apply_pushes R w cfg ps (cache2, \<lparr>qs_gens = gens1, qs_jobs = jobs2\<rparr>))))))"

definition refreshArgs :: "Intent \<Rightarrow> gerror + JobArgs" where
  "refreshArgs i =
     (if in_priority i \<noteq> PriorityEvent then Inl (ErrText ''unsupported refresh priority'')
      else if in_kind i = KindRefreshPR then Inr (NewRefreshPRArgs (in_key i))
      else if in_kind i = KindRefreshStack then Inr (NewRefreshStackArgs (in_key i))
      else if in_kind i = KindRefreshChecks then Inr (NewRefreshChecksArgs (in_key i))
      else if in_kind i = KindRefreshBranch then Inr (NewRefreshBranchArgs (in_key i))
      else if in_kind i = KindResolveStackMembership then Inr (NewResolveStackMembershipArgs (in_key i))
      else Inl (ErrText ''unsupported refresh kind''))"

fun insertParams :: "gotime \<Rightarrow> Intent list \<Rightarrow> gerror + (JobArgs \<times> InsertOpts) list" where
  "insertParams scheduledAt [] = Inr []"
| "insertParams scheduledAt (i # is) =
     (case refreshArgs i of
        Inl e \<Rightarrow> Inl e
      | Inr a \<Rightarrow> (case insertParams scheduledAt is of
            Inl e \<Rightarrow> Inl e
          | Inr ps \<Rightarrow> Inr ((a, NewRefreshInsertOpts scheduledAt) # ps)))"

text \<open>First occurrences, then sorted by kind, key and priority.\<close>

fun first_occurrences :: "'a list \<Rightarrow> 'a list \<Rightarrow> 'a list" where
  "first_occurrences seen [] = []"
| "first_occurrences seen (x # xs) =
     (if x \<in> set seen then first_occurrences seen xs else x # first_occurrences (x # seen) xs)"

definition dedupeIntents :: "Intent list \<Rightarrow> Intent list" where
  "dedupeIntents is = sort_key (\<lambda>i. (in_kind i, in_key i, in_priority i)) (first_occurrences [] is)"

definition intent_pointer :: "(gotime \<Rightarrow> gotime) \<Rightarrow> (Intent \<rightharpoonup> gotime) \<Rightarrow> Intent \<Rightarrow> intent" where
  "intent_pointer ts received i = ((in_kind i, in_key i), None,
     case received i of None \<Rightarrow> None | Some t \<Rightarrow> if isZero t then None else Some (ts t))"

text \<open>Bump the generations and insert the jobs of the batch. \<open>lock\<close> is the outcome of the
  nonblocking generation locks; what River reports about coalesced jobs is not looked at.\<close>

definition enqueue_intents :: "(gotime \<Rightarrow> gotime) \<Rightarrow> (RefreshGenerationKey list \<Rightarrow> gerror option) \<Rightarrow> gotime \<Rightarrow>
    gotime \<Rightarrow> 'q River \<Rightarrow> Intent list \<Rightarrow> (Intent \<rightharpoonup> gotime) \<Rightarrow> 'q qstate \<Rightarrow> gerror + 'q qstate" where
  "enqueue_intents ts lock txNow scheduledAt R intents received q =
     (if intents = [] then Inr q
      else let is = dedupeIntents intents in
        (case lock (map (\<lambda>i. (in_kind i, in_key i)) is) of
           Some e \<Rightarrow> Inl (ErrWrap ''lock refresh intent generations'' [e])
         | None \<Rightarrow>
             (case BumpRefreshIntentGenerations txNow (map (intent_pointer ts received) is) (qs_gens q) of
                Inl e \<Rightarrow> Inl (ErrWrap ''bump refresh intent generations'' [e])
              | Inr (gens, generations) \<Rightarrow>
                  if length generations \<noteq> length is then Inl (ErrText ''bump refresh intent generations: rows'')
                  else (case insertParams scheduledAt is of
                      Inl e \<Rightarrow> Inl e
                    | Inr params \<Rightarrow>
                        (case rv_insert_many R params (qs_jobs q) of
                           Inl e \<Rightarrow> Inl (ErrWrap ''insert refresh intents'' [e])
                         | Inr (_, jobs) \<Rightarrow> Inr \<lparr>qs_gens = gens, qs_jobs = jobs\<rparr>)))))"

record ('c, 'q) dispatch_state =
  di_deliveries :: deliveries
  di_cache :: 'c
  di_queue :: "'q qstate"

text \<open>What the surroundings give to one attempt: the clocks (claim, dispatcher, transaction, result
  update), the rows other dispatchers hold, and the generation locks.\<close>

record attempt_env =
  ae_claimNow :: gotime
  ae_now :: gotime
  ae_txNow :: gotime
  ae_setNow :: gotime
  ae_locked :: "string set"
  ae_lock :: "RefreshGenerationKey list \<Rightarrow> gerror option"

definition dispatchBatchAttempt :: "(gotime \<Rightarrow> gotime) \<Rightarrow> (string \<Rightarrow> string \<Rightarrow> gerror + payloadEnvelope) \<Rightarrow>
    (string \<Rightarrow> gerror + string) \<Rightarrow> Config \<Rightarrow> 'q River \<Rightarrow> 'c EntityWriter \<Rightarrow> attempt_env \<Rightarrow>
    ('c, 'q) dispatch_state \<Rightarrow> gerror + nat \<times> string list \<times> ('c, 'q) dispatch_state" where
  "dispatchBatchAttempt ts decode headers cfg R w env st =
     (case ClaimWebhookDeliveries (ae_claimNow env) (ae_locked env) (nat (cf_batchSize cfg)) (di_deliveries st) of
        (table1, claimed) \<Rightarrow>
          if claimed = [] then Inr (0, [], st)
          else (case classify_deliveries decode headers cfg w (di_cache st) claimed empty_acc of
              Inl e \<Rightarrow> Inl e
            | Inr acc \<Rightarrow>
                (case (if ba_pushes acc = [] then Inr (di_cache st, di_queue st)
                       else case wr_fence w (di_cache st) of
                           Some e \<Rightarrow> Inl e
                         | None \<Rightarrow> apply_pushes R w cfg (ba_pushes acc) (di_cache st, di_queue st)) of
                   Inl e \<Rightarrow> Inl e
                 | Inr (cache2, q2) \<Rightarrow>
                     (case enqueue_intents ts (ae_lock env) (ae_txNow env) (ae_now env + cf_debounce cfg) R
                             (ba_intents acc) (ba_received acc) q2 of
                        Inl e \<Rightarrow> Inl e
                      | Inr q3 \<Rightarrow>
                          (case SetWebhookDeliveryResults (ae_setNow env) (ba_results acc) table1 of
                             (table2, updated) \<Rightarrow>
                               if updated \<noteq> length claimed then Inl (ErrText ''finish webhook delivery batch'')
                               else Inr (length claimed, ba_unmatched acc,
                                      \<lparr>di_deliveries = table2, di_cache = cache2, di_queue = q3\<rparr>))))))"

text \<open>\<open>DispatchBatch\<close>: a contended attempt is retried as a whole.\<close>

fun dispatch_loop :: "nat \<Rightarrow> (nat \<Rightarrow> gerror + nat \<times> string list \<times> ('c, 'q) dispatch_state) \<Rightarrow> (nat \<Rightarrow> gerror option) \<Rightarrow>
    nat \<Rightarrow> (gerror + nat \<times> string list \<times> ('c, 'q) dispatch_state) option" where
  "dispatch_loop 0 attempt cancelled i = None"
| "dispatch_loop (Suc fuel) attempt cancelled i =
     (case attempt i of
        Inr r \<Rightarrow> Some (Inr r)
      | Inl e \<Rightarrow>
          if \<not> errors_is e ErrRefreshGenerationContention then Some (Inl e)
          else (case cancelled i of
              Some c \<Rightarrow> Some (Inl (ErrWrap ''retry contended refresh generation batch'' [c]))
            | None \<Rightarrow> dispatch_loop fuel attempt cancelled (Suc i)))"

end
