(* ===== verification/Heartbeat.thy ===== *)
theory Heartbeat
  imports Prelude "HOL-Library.AList"
begin

text \<open>
  Operation heartbeats: \<open>src/internal/opsstate/heartbeat.go\<close> and \<open>src/db/queries/opsstate.sql\<close>. The table
  \<open>operation_heartbeats\<close> counts the successes of an operation; the branch worker and the watermarker
  record one after the work they report.
\<close>

record heartbeat_row =
  hb_successCount :: int
  hb_sampleCount :: int
  hb_lastSuccessAt :: gotime
  hb_lastSampleAt :: "gotime option"

type_synonym heartbeats = "((int \<times> string \<times> string) \<times> heartbeat_row) list"

definition RecordOperationHeartbeat :: "gotime \<Rightarrow> int \<times> string \<times> string \<Rightarrow> int \<Rightarrow> heartbeats \<Rightarrow> heartbeats" where
  "RecordOperationHeartbeat now k samples rows =
     (let sampled = (if 0 < samples then Some now else None);
          row = (case map_of rows k of
            None \<Rightarrow> \<lparr>hb_successCount = 1, hb_sampleCount = samples, hb_lastSuccessAt = now, hb_lastSampleAt = sampled\<rparr>
          | Some r \<Rightarrow> \<lparr>hb_successCount = hb_successCount r + 1, hb_sampleCount = hb_sampleCount r + samples,
              hb_lastSuccessAt = now,
              hb_lastSampleAt = (case sampled of Some t \<Rightarrow> Some t | None \<Rightarrow> hb_lastSampleAt r)\<rparr>)
      in AList.update k row rows)"

definition RecordSuccessN :: "gotime \<Rightarrow> int \<Rightarrow> string \<Rightarrow> string \<Rightarrow> int \<Rightarrow> heartbeats \<Rightarrow> gerror + heartbeats" where
  "RecordSuccessN now inst component operation samples rows =
     (if inst \<le> 0 \<or> component = [] \<or> operation = [] then Inl (ErrText ''invalid operation heartbeat identity'')
      else if samples < 0 then Inl (ErrText ''operation heartbeat sample count cannot be negative'')
      else Inr (RecordOperationHeartbeat now (inst, component, operation) samples rows))"

end
