(* ===== verification/Branch_Writer.thy ===== *)
theory Branch_Writer
  imports Dispatcher Heartbeat
begin

text \<open>
  \<open>src/internal/store/branch.go\<close> and \<open>src/db/queries/branch.sql\<close>: the local transition of a branch
  push. One transaction advances the branch generation, moves the cached SHAs that equal the
  push's \<open>before\<close>, claims the generation of every affected entity and records the pages of remote
  work; \<open>ReconcileBranchPage\<close> of \<open>src/internal/fetch/handler.go\<close> works the pages off.

  The tables are lists of rows in primary-key order of insertion; only the columns these queries
  read or write are fields. Sequence numbers come from a counter. String order is the byte order.
\<close>

section \<open>Tables\<close>

record repo_row =
  rp_id :: int
  rp_installation :: int
  rp_ghID :: int
  rp_defaultBranch :: string
  rp_headSHA :: string
  rp_etag :: string
  rp_tombstoned :: bool

record pull_row =
  pu_repo :: int
  pu_number :: int
  pu_state :: string
  pu_headRef :: string
  pu_headSHA :: string
  pu_baseRef :: string
  pu_baseSHA :: string
  pu_reviewDecision :: string
  pu_mergeableState :: string
  pu_etag :: string
  pu_stack :: "int option"
  pu_tombstoned :: bool

record stack_entry =
  se_number :: int
  se_headRef :: string
  se_headSHA :: string

record stack_row =
  sk_repo :: int
  sk_number :: int
  sk_ghID :: "int option"
  sk_baseRef :: string
  sk_baseSHA :: string
  sk_headSHA :: string
  sk_entries :: "stack_entry list"
  sk_etag :: string
  sk_tombstoned :: bool

record reconciliation_row =
  bn_generation :: int
  bn_before :: string
  bn_after :: string
  bn_transitionKnown :: bool
  bn_deleted :: bool
  bn_forced :: bool
  bn_guid :: string
  bn_receivedAt :: gotime
  bn_appliedAt :: gotime
  bn_targetCount :: int
  bn_pageCount :: int
  bn_completedAt :: "gotime option"

datatype page_status = PagePending | PageCompleted | PageSuperseded

record page_row =
  pn_targetCount :: int
  pn_status :: page_status
  pn_superseded :: int
  pn_attempts :: int
  pn_createdAt :: gotime
  pn_startedAt :: "gotime option"
  pn_heartbeatAt :: "gotime option"
  pn_completedAt :: "gotime option"

record change_event =
  ce_seq :: int
  ce_kind :: string
  ce_entity :: string
  ce_occurredAt :: gotime

type_synonym branch_id = "int \<times> string"
type_synonym page_id = "branch_id \<times> int \<times> int"

record branch_cache =
  bc_aliases :: "(string \<times> int) list"
  bc_repos :: "repo_row list"
  bc_pulls :: "pull_row list"
  bc_stacks :: "stack_row list"
  bc_reconciliations :: "(branch_id \<times> reconciliation_row) list"
  bc_pages :: "(page_id \<times> page_row) list"
  bc_dirty :: "(string \<times> gotime) list"
  bc_events :: "change_event list"
  bc_seq :: int
  bc_heartbeats :: heartbeats

definition find_repository :: "string \<Rightarrow> branch_cache \<Rightarrow> repo_row option" where
  "find_repository name c =
     (case map_of (bc_aliases c) name of
        None \<Rightarrow> None
      | Some i \<Rightarrow> List.find (\<lambda>r. rp_id r = i \<and> \<not> rp_tombstoned r) (bc_repos c))"

section \<open>The branch generation\<close>

definition fresh_reconciliation :: "pendingBranchPush \<Rightarrow> gotime \<Rightarrow> int \<Rightarrow> reconciliation_row" where
  "fresh_reconciliation p appliedAt g =
     \<lparr>bn_generation = g, bn_before = bh_before (pp_hint p), bn_after = bh_after (pp_hint p),
      bn_transitionKnown = bh_transitionKnown (pp_hint p), bn_deleted = bh_deleted (pp_hint p),
      bn_forced = bh_forced (pp_hint p), bn_guid = pp_guid p, bn_receivedAt = pp_receivedAt p,
      bn_appliedAt = appliedAt, bn_targetCount = 0, bn_pageCount = 0, bn_completedAt = None\<rparr>"

definition supersedes :: "branch_id \<Rightarrow> int \<Rightarrow> page_id \<times> page_row \<Rightarrow> bool" where
  "supersedes b g x = (case x of ((b', g', _), r) \<Rightarrow> b' = b \<and> g' < g \<and> pn_status r = PagePending)"

definition supersede_page :: "gotime \<Rightarrow> page_row \<Rightarrow> page_row" where
  "supersede_page now r = r\<lparr>pn_status := PageSuperseded, pn_superseded := pn_targetCount r, pn_completedAt := Some now\<rparr>"

definition BeginBranchReconciliation :: "pendingBranchPush \<Rightarrow> gotime \<Rightarrow> branch_cache \<Rightarrow>
    (int \<times> int \<times> int \<times> branch_cache) option" where
  "BeginBranchReconciliation p appliedAt c =
     (case find_repository (bh_repo (pp_hint p)) c of
        None \<Rightarrow> None
      | Some repo \<Rightarrow>
          let b = (rp_id repo, bh_branch (pp_hint p));
              start = (\<lambda>g. Some (rp_id repo, g, int (length (filter (supersedes b g) (bc_pages c))),
                c\<lparr>bc_reconciliations := AList.update b (fresh_reconciliation p appliedAt g) (bc_reconciliations c),
                  bc_pages := map (\<lambda>x. if supersedes b g x then (fst x, supersede_page appliedAt (snd x)) else x)
                    (bc_pages c)\<rparr>))
          in case map_of (bc_reconciliations c) b of
               None \<Rightarrow> start 1
             | Some old \<Rightarrow> if bn_guid old = pp_guid p then None else start (bn_generation old + 1))"

section \<open>The local transition\<close>

text \<open>The entity keys of \<open>src/internal/outbox/outbox.go\<close>.\<close>

definition RepositoryKey :: "int \<Rightarrow> int \<Rightarrow> string" where
  "RepositoryKey inst gh = ''repo:'' @ itoa inst @ '':'' @ itoa gh"

definition PullRequestKey :: "int \<Rightarrow> int \<Rightarrow> int \<Rightarrow> string" where
  "PullRequestKey inst gh n = ''pr:'' @ itoa inst @ '':'' @ itoa gh @ '':'' @ itoa n"

definition StackKey :: "int \<Rightarrow> int \<Rightarrow> int \<Rightarrow> string" where
  "StackKey inst gh n = ''stack:'' @ itoa inst @ '':'' @ itoa gh @ '':'' @ itoa n"

definition RepositoryChangedKind :: string where "RepositoryChangedKind = ''repository.changed''"
definition PullRequestChangedKind :: string where "PullRequestChangedKind = ''pull_request.changed''"
definition StackChangedKind :: string where "StackChangedKind = ''stack.changed''"

definition moves_repository :: "branchPushHint \<Rightarrow> repo_row \<Rightarrow> bool" where
  "moves_repository h r = (bh_transitionKnown h \<and> rp_defaultBranch r = bh_branch h \<and>
     rp_headSHA r = bh_before h \<and> rp_headSHA r \<noteq> bh_after h)"

definition move_repository :: "branchPushHint \<Rightarrow> repo_row \<Rightarrow> repo_row" where
  "move_repository h r = r\<lparr>rp_headSHA := bh_after h, rp_etag := []\<rparr>"

definition moves_pull :: "branchPushHint \<Rightarrow> repo_row \<Rightarrow> pull_row \<Rightarrow> bool" where
  "moves_pull h repo p = (pu_repo p = rp_id repo \<and> \<not> pu_tombstoned p \<and> pu_state p = ''open'' \<and> bh_transitionKnown h \<and>
     ((pu_headRef p = bh_branch h \<and> pu_headSHA p = bh_before h \<and> pu_headSHA p \<noteq> bh_after h) \<or>
      (pu_baseRef p = bh_branch h \<and> pu_baseSHA p = bh_before h \<and> pu_baseSHA p \<noteq> bh_after h)))"

definition move_pull :: "branchPushHint \<Rightarrow> pull_row \<Rightarrow> pull_row" where
  "move_pull h p = p\<lparr>
     pu_headSHA := (if pu_headRef p = bh_branch h \<and> pu_headSHA p = bh_before h then bh_after h else pu_headSHA p),
     pu_baseSHA := (if pu_baseRef p = bh_branch h \<and> pu_baseSHA p = bh_before h then bh_after h else pu_baseSHA p),
     pu_reviewDecision := [], pu_mergeableState := [], pu_etag := []\<rparr>"

definition move_entry :: "branchPushHint \<Rightarrow> stack_entry \<Rightarrow> stack_entry" where
  "move_entry h e = (if se_headRef e = bh_branch h \<and> se_headSHA e = bh_before h then e\<lparr>se_headSHA := bh_after h\<rparr> else e)"

definition new_base :: "branchPushHint \<Rightarrow> stack_row \<Rightarrow> string" where
  "new_base h s = (if sk_baseRef s = bh_branch h \<and> sk_baseSHA s = bh_before h then bh_after h else sk_baseSHA s)"

definition stack_candidate :: "branchPushHint \<Rightarrow> repo_row \<Rightarrow> stack_row \<Rightarrow> bool" where
  "stack_candidate h repo s = (sk_repo s = rp_id repo \<and> \<not> sk_tombstoned s \<and> bh_transitionKnown h \<and>
     ((sk_baseRef s = bh_branch h \<and> sk_baseSHA s = bh_before h) \<or>
      list_ex (\<lambda>e. se_headRef e = bh_branch h \<and> se_headSHA e = bh_before h) (sk_entries s)))"

definition moves_stack :: "branchPushHint \<Rightarrow> repo_row \<Rightarrow> stack_row \<Rightarrow> bool" where
  "moves_stack h repo s = (stack_candidate h repo s \<and>
     (sk_baseSHA s, sk_entries s) \<noteq> (new_base h s, map (move_entry h) (sk_entries s)))"

definition move_stack :: "branchPushHint \<Rightarrow> stack_row \<Rightarrow> stack_row" where
  "move_stack h s = (let es = map (move_entry h) (sk_entries s) in
     s\<lparr>sk_baseSHA := new_base h s, sk_entries := es,
       sk_headSHA := (if es = [] then new_base h s else se_headSHA (last es)), sk_etag := []\<rparr>)"

definition pull_scope :: "repo_row \<Rightarrow> pull_row \<Rightarrow> string" where
  "pull_scope repo p = (case pu_stack p of
     None \<Rightarrow> PullRequestKey (rp_installation repo) (rp_ghID repo) (pu_number p)
   | Some n \<Rightarrow> StackKey (rp_installation repo) (rp_ghID repo) n)"

definition mark_dirty :: "gotime \<Rightarrow> string \<Rightarrow> (string \<times> gotime) list \<Rightarrow> (string \<times> gotime) list" where
  "mark_dirty now s t = (case map_of t s of
     None \<Rightarrow> AList.update s now t | Some old \<Rightarrow> AList.update s (max old now) t)"

definition event_inputs :: "branchPushHint \<Rightarrow> repo_row \<Rightarrow> branch_cache \<Rightarrow> (string \<times> string) list" where
  "event_inputs h repo c =
     (if moves_repository h repo then [(RepositoryKey (rp_installation repo) (rp_ghID repo), RepositoryChangedKind)] else []) @
     map (\<lambda>p. (PullRequestKey (rp_installation repo) (rp_ghID repo) (pu_number p), PullRequestChangedKind))
       (filter (moves_pull h repo) (bc_pulls c)) @
     map (\<lambda>s. (StackKey (rp_installation repo) (rp_ghID repo) (sk_number s), StackChangedKind))
       (filter (moves_stack h repo) (bc_stacks c))"

fun insert_events :: "gotime \<Rightarrow> int \<Rightarrow> (string \<times> string) list \<Rightarrow> change_event list" where
  "insert_events at n [] = []"
| "insert_events at n ((entity, kind) # xs) =
     \<lparr>ce_seq = n + 1, ce_kind = kind, ce_entity = entity, ce_occurredAt = at\<rparr> # insert_events at (n + 1) xs"

definition ApplyBranchHintTransition :: "branchPushHint \<Rightarrow> gotime \<Rightarrow> branch_cache \<Rightarrow> branch_cache \<times> change_event list" where
  "ApplyBranchHintTransition h appliedAt c =
     (case find_repository (bh_repo h) c of
        None \<Rightarrow> (c, [])
      | Some repo \<Rightarrow>
          let scopes = remdups (map (pull_scope repo) (filter (moves_pull h repo) (bc_pulls c)) @
                map (\<lambda>s. StackKey (rp_installation repo) (rp_ghID repo) (sk_number s))
                  (filter (moves_stack h repo) (bc_stacks c)));
              events = insert_events appliedAt (bc_seq c) (sort (event_inputs h repo c))
          in (c\<lparr>bc_repos := map (\<lambda>r. if rp_id r = rp_id repo \<and> moves_repository h r then move_repository h r else r) (bc_repos c),
                bc_pulls := map (\<lambda>p. if moves_pull h repo p then move_pull h p else p) (bc_pulls c),
                bc_stacks := map (\<lambda>s. if moves_stack h repo s then move_stack h s else s) (bc_stacks c),
                bc_dirty := fold (mark_dirty appliedAt) scopes (bc_dirty c),
                bc_events := bc_events c @ events,
                bc_seq := bc_seq c + int (length events)\<rparr>, events))"

section \<open>Claiming the affected generations\<close>

definition pull_target :: "branchPushHint \<Rightarrow> repo_row \<Rightarrow> pull_row \<Rightarrow> bool" where
  "pull_target h repo p = (pu_repo p = rp_id repo \<and> \<not> pu_tombstoned p \<and> pu_state p = ''open'' \<and>
     (pu_headRef p = bh_branch h \<or> pu_baseRef p = bh_branch h))"

definition stack_target :: "branchPushHint \<Rightarrow> repo_row \<Rightarrow> stack_row \<Rightarrow> bool" where
  "stack_target h repo s = (sk_repo s = rp_id repo \<and> \<not> sk_tombstoned s \<and>
     (sk_baseRef s = bh_branch h \<or> list_ex (\<lambda>e. se_headRef e = bh_branch h) (sk_entries s)))"

definition page_targets :: "branchPushHint \<Rightarrow> branch_cache \<Rightarrow> (RefreshGenerationKey \<times> string) list" where
  "page_targets h c =
     (case find_repository (bh_repo h) c of
        None \<Rightarrow> []
      | Some repo \<Rightarrow> sort (remdups (
          map (\<lambda>p. ((KindRefreshPR, pr_key (bh_repo h) (pu_number p)),
              PullRequestKey (rp_installation repo) (rp_ghID repo) (pu_number p)))
            (filter (pull_target h repo) (bc_pulls c)) @
          map (\<lambda>s. ((KindRefreshStack, stack_key (bh_repo h) (sk_number s)),
              StackKey (rp_installation repo) (rp_ghID repo) (sk_number s)))
            (filter (stack_target h repo) (bc_stacks c)))))"

definition metadata_key :: "string \<Rightarrow> string" where
  "metadata_key name = ''repo:'' @ name @ '':metadata''"

definition ListBranchReconciliationGenerationKeys :: "branchPushHint \<Rightarrow> branch_cache \<Rightarrow> RefreshGenerationKey list" where
  "ListBranchReconciliationGenerationKeys h c =
     sort (remdups (map fst (page_targets h c) @
       (case find_repository (bh_repo h) c of
          None \<Rightarrow> []
        | Some repo \<Rightarrow> if rp_defaultBranch repo = bh_branch h then [(KindRefreshRepository, metadata_key (bh_repo h))] else [])))"

definition claim_generation :: "gotime \<Rightarrow> RefreshGenerationKey \<Rightarrow> generations \<Rightarrow> generations" where
  "claim_generation now k t =
     (let g = (case map_of t k of None \<Rightarrow> 1 | Some r \<Rightarrow> gr_generation r + 1)
      in AList.update k \<lparr>gr_generation = g, gr_completed = g, gr_deadline = None, gr_event = None, gr_updated = now\<rparr> t)"

definition AdvanceBranchReconciliationTargetGenerations :: "branchPushHint \<Rightarrow> gotime \<Rightarrow> branch_cache \<Rightarrow> generations \<Rightarrow>
    gerror + generations \<times> BranchReconciliationTarget list" where
  "AdvanceBranchReconciliationTargetGenerations h now c t =
     (let keys = ListBranchReconciliationGenerationKeys h c in
      if list_ex (\<lambda>k. case map_of t k of None \<Rightarrow> False | Some r \<Rightarrow> 2 ^ 63 - 1 \<le> gr_generation r) keys
      then Inl (ErrText ''bigint out of range'')
      else let t' = fold (claim_generation now) keys t
           in Inr (t', map (\<lambda>(k, entity). \<lparr>rt_kind = fst k, rt_key = snd k, rt_entity = entity,
                rt_generation = (case map_of t' k of None \<Rightarrow> 0 | Some r \<Rightarrow> gr_generation r)\<rparr>) (page_targets h c)))"

section \<open>The push transaction\<close>

text \<open>What the surroundings give to the writer: the database clock of a delivery's transaction and
  of the page manifest, the allocation hook, the outcome of the nonblocking locks, the fence.\<close>

record writer_env =
  we_appliedAt :: "string \<Rightarrow> gotime"
  we_createdAt :: "int \<Rightarrow> string \<Rightarrow> int \<Rightarrow> gotime"
  we_hook :: "int \<Rightarrow> gerror option"
  we_advisory :: "string \<Rightarrow> RefreshGenerationKey list \<Rightarrow> bool"
  we_rows :: "string \<Rightarrow> RefreshGenerationKey list \<Rightarrow> bool"
  we_fence :: "gerror option"

fun tally :: "(int \<Rightarrow> gerror option) \<Rightarrow> change_event list \<Rightarrow> BranchBulkResult \<Rightarrow> gerror + BranchBulkResult" where
  "tally hook [] b = Inr b"
| "tally hook (e # es) b =
     (if ce_kind e = RepositoryChangedKind \<or> ce_kind e = PullRequestChangedKind \<or> ce_kind e = StackChangedKind then
        (case hook (ce_seq e) of
           Some err \<Rightarrow> Inl (ErrWrap ''after branch event sequence allocation'' [err])
         | None \<Rightarrow> tally hook es
             (if ce_kind e = RepositoryChangedKind then b\<lparr>bb_repositories := bb_repositories b + 1\<rparr>
              else if ce_kind e = PullRequestChangedKind then b\<lparr>bb_pullRequests := bb_pullRequests b + 1\<rparr>
              else b\<lparr>bb_stacks := bb_stacks b + 1\<rparr>))
      else Inl (ErrText ''apply branch SHA hint returned unknown event kind''))"

definition repository_key :: "RefreshGenerationKey list \<Rightarrow> string" where
  "repository_key keys = (case List.find (\<lambda>k. fst k = KindRefreshRepository) keys of None \<Rightarrow> [] | Some k \<Rightarrow> snd k)"

definition ApplyBranchPushTx :: "writer_env \<Rightarrow> pendingBranchPush \<Rightarrow> branch_cache \<times> generations \<Rightarrow>
    gerror + BranchBulkResult \<times> branch_cache \<times> generations" where
  "ApplyBranchPushTx env p s =
     (let h = pp_hint p; now = we_appliedAt env (pp_guid p) in
      if bh_repo h = [] \<or> bh_branch h = [] \<or> pp_guid p = [] \<or> isZero (pp_receivedAt p)
      then Inl (ErrText ''invalid branch push hint'')
      else case BeginBranchReconciliation p now (fst s) of
        None \<Rightarrow> Inr (no_bulk, fst s, snd s)
      | Some (repo, generation, superseded, c1) \<Rightarrow>
          (case ApplyBranchHintTransition h now c1 of
             (c2, events) \<Rightarrow>
               (case tally (we_hook env) events
                       (no_bulk\<lparr>bb_repo := repo, bb_generation := generation, bb_superseded := superseded\<rparr>) of
                  Inl e \<Rightarrow> Inl e
                | Inr bulk \<Rightarrow>
                    let keys = ListBranchReconciliationGenerationKeys h c2 in
                    if \<not> we_advisory env (pp_guid p) keys
                    then Inl (ErrWrap ''lock branch generation advisories'' [ErrBranchRefreshGenerationContention])
                    else if \<not> we_rows env (pp_guid p) keys
                    then Inl (ErrWrap ''lock branch generation rows'' [ErrBranchRefreshGenerationContention])
                    else (case AdvanceBranchReconciliationTargetGenerations h now c2 (snd s) of
                        Inl e \<Rightarrow> Inl (ErrWrap ''list branch reconciliation targets'' [e])
                      | Inr (gens, targets) \<Rightarrow>
                          Inr (bulk\<lparr>bb_repositoryKey := repository_key keys,
                                 bb_targets := sort_key (\<lambda>t. (rt_kind t, rt_key t)) targets\<rparr>, c2, gens)))))"

fun page_numbers :: "int \<Rightarrow> nat list \<Rightarrow> (int \<times> int) list" where
  "page_numbers n [] = []"
| "page_numbers n (x # xs) = (n, int x) # page_numbers (n + 1) xs"

definition fresh_page :: "gotime \<Rightarrow> int \<Rightarrow> page_row" where
  "fresh_page now count = \<lparr>pn_targetCount = count, pn_status = PagePending, pn_superseded = 0, pn_attempts = 0,
     pn_createdAt = now, pn_startedAt = None, pn_heartbeatAt = None, pn_completedAt = None\<rparr>"

fun insert_pages :: "branch_id \<Rightarrow> int \<Rightarrow> gotime \<Rightarrow> (int \<times> int) list \<Rightarrow> (page_id \<times> page_row) list \<Rightarrow>
    (page_id \<times> page_row) list" where
  "insert_pages b g now [] t = t"
| "insert_pages b g now ((n, count) # xs) t =
     insert_pages b g now xs (case map_of t (b, g, n) of
         Some _ \<Rightarrow> t | None \<Rightarrow> t @ [((b, g, n), fresh_page now count)])"

definition RecordBranchReconciliationPagesTx :: "writer_env \<Rightarrow> int \<Rightarrow> string \<Rightarrow> int \<Rightarrow> nat list \<Rightarrow> branch_cache \<Rightarrow>
    gerror + branch_cache" where
  "RecordBranchReconciliationPagesTx env repo branch g counts c =
     (if 0 \<in> set counts then Inl (ErrText ''branch reconciliation page must not be empty'')
      else let now = we_createdAt env repo branch g; b = (repo, branch) in
        Inr (c\<lparr>bc_pages := insert_pages b g now (page_numbers 1 counts) (bc_pages c),
          bc_reconciliations := (case map_of (bc_reconciliations c) b of
              None \<Rightarrow> bc_reconciliations c
            | Some r \<Rightarrow> if bn_generation r \<noteq> g then bc_reconciliations c
                else AList.update b (r\<lparr>bn_targetCount := wrap32 (int (sum_list counts)),
                  bn_pageCount := wrap32 (int (length counts)),
                  bn_completedAt := (if wrap32 (int (length counts)) = 0 then Some now else None)\<rparr>) (bc_reconciliations c))\<rparr>))"

definition GetStackByKey :: "string \<Rightarrow> int \<Rightarrow> branch_cache \<Rightarrow> cached_stack option" where
  "GetStackByKey name n c =
     (case map_of (bc_aliases c) name of
        None \<Rightarrow> None
      | Some i \<Rightarrow>
          (case List.find (\<lambda>s. sk_repo s = i \<and> sk_number s = n) (bc_stacks c) of
             None \<Rightarrow> None
           | Some s \<Rightarrow> Some \<lparr>ck_tombstoned = sk_tombstoned s, ck_ghID = sk_ghID s, ck_baseRef = sk_baseRef s,
               ck_baseSHA = sk_baseSHA s, ck_entries = Inr (map se_number (sk_entries s))\<rparr>))"

text \<open>The derivation scopes a branch touches.\<close>

definition ListPRsAffectedByBranch :: "string \<Rightarrow> string \<Rightarrow> branch_cache \<Rightarrow> (int \<times> int option) list" where
  "ListPRsAffectedByBranch name branch c =
     (case map_of (bc_aliases c) name of
        None \<Rightarrow> []
      | Some i \<Rightarrow> sort_key fst (remdups (map (\<lambda>p. (pu_number p, pu_stack p))
          (filter (\<lambda>p. pu_repo p = i \<and> \<not> pu_tombstoned p \<and> pu_state p = ''open'' \<and>
             (pu_headRef p = branch \<or> pu_baseRef p = branch)) (bc_pulls c)))))"

definition ListStacksAffectedByBranch :: "string \<Rightarrow> string \<Rightarrow> branch_cache \<Rightarrow> int list" where
  "ListStacksAffectedByBranch name branch c =
     (case map_of (bc_aliases c) name of
        None \<Rightarrow> []
      | Some i \<Rightarrow> sort (remdups (map sk_number
          (filter (\<lambda>s. sk_repo s = i \<and> \<not> sk_tombstoned s \<and>
             (sk_baseRef s = branch \<or> list_ex (\<lambda>e. se_headRef e = branch) (sk_entries s))) (bc_stacks c)))))"

fun pull_scopes :: "string \<Rightarrow> int list \<Rightarrow> (int \<times> int option) list \<Rightarrow> string list" where
  "pull_scopes name seen [] = []"
| "pull_scopes name seen ((n, None) # ps) = pr_key name n # pull_scopes name seen ps"
| "pull_scopes name seen ((n, Some s) # ps) =
     (if s \<in> set seen then pr_key name n # pull_scopes name seen ps
      else stack_key name s # pr_key name n # pull_scopes name (s # seen) ps)"

definition BranchTargets :: "string \<Rightarrow> string \<Rightarrow> branch_cache \<Rightarrow> string list" where
  "BranchTargets name branch c =
     (let stacks = ListStacksAffectedByBranch name branch c
      in sort (map (stack_key name) stacks @ pull_scopes name stacks (ListPRsAffectedByBranch name branch c)))"

text \<open>The writer the dispatcher calls.\<close>

definition branch_writer :: "writer_env \<Rightarrow> branch_cache EntityWriter" where
  "branch_writer env = \<lparr>wr_fence = (\<lambda>_. we_fence env), wr_apply = ApplyBranchPushTx env,
     wr_record = RecordBranchReconciliationPagesTx env, wr_stack = (\<lambda>name n c. Inr (GetStackByKey name n c))\<rparr>"

end
