(* ===== verification/Branch_Pages.thy ===== *)
theory Branch_Pages
  imports Branch_Writer
begin

text \<open>
  The worker of a branch page: \<open>ReconcileBranchPage\<close> and \<open>healBranchReconciliationCompletion\<close> of
  \<open>src/internal/fetch/handler.go\<close>, the page queries of \<open>src/db/queries/branch.sql\<close>, with the
  operation heartbeat written into the same tables.

  The remote phase runs the target refreshes concurrently with everything else in the system. It
  is the argument \<open>branch_page_work\<close>: what the tables have become meanwhile, the outcome of each target,
  the errors of the page's own heartbeats, and whether a heartbeat found the manifest changed.
\<close>

section \<open>Queries\<close>

definition current_generation :: "branch_id \<Rightarrow> int \<Rightarrow> branch_cache \<Rightarrow> bool" where
  "current_generation b g c = (case map_of (bc_reconciliations c) b of
     None \<Rightarrow> False | Some r \<Rightarrow> bn_generation r = g)"

definition GetBranchReconciliationPage :: "page_id \<Rightarrow> branch_cache \<Rightarrow> page_status option" where
  "GetBranchReconciliationPage i c = map_option pn_status (map_of (bc_pages c) i)"

definition page_live :: "page_id \<Rightarrow> branch_cache \<Rightarrow> page_row option" where
  "page_live i c = (case map_of (bc_pages c) i of
     None \<Rightarrow> None
   | Some r \<Rightarrow> if pn_status r = PagePending \<and> current_generation (fst i) (fst (snd i)) c then Some r else None)"

definition set_page :: "page_id \<Rightarrow> page_row \<Rightarrow> branch_cache \<Rightarrow> branch_cache" where
  "set_page i r c = c\<lparr>bc_pages := AList.update i r (bc_pages c)\<rparr>"

definition StartBranchReconciliationPage :: "gotime \<Rightarrow> page_id \<Rightarrow> branch_cache \<Rightarrow> branch_cache \<times> nat" where
  "StartBranchReconciliationPage now i c = (case page_live i c of
     None \<Rightarrow> (c, 0)
   | Some r \<Rightarrow> (set_page i (r\<lparr>pn_attempts := pn_attempts r + 1, pn_startedAt := Some now,
       pn_heartbeatAt := Some now\<rparr>) c, 1))"

definition HeartbeatBranchReconciliationPage :: "gotime \<Rightarrow> page_id \<Rightarrow> branch_cache \<Rightarrow> branch_cache \<times> nat" where
  "HeartbeatBranchReconciliationPage now i c = (case page_live i c of
     None \<Rightarrow> (c, 0) | Some r \<Rightarrow> (set_page i (r\<lparr>pn_heartbeatAt := Some now\<rparr>) c, 1))"

definition CompleteBranchReconciliationPage :: "gotime \<Rightarrow> int \<Rightarrow> page_id \<Rightarrow> branch_cache \<Rightarrow> branch_cache \<times> nat" where
  "CompleteBranchReconciliationPage now superseded i c = (case map_of (bc_pages c) i of
     None \<Rightarrow> (c, 0)
   | Some r \<Rightarrow> if pn_status r \<noteq> PagePending then (c, 0)
       else (set_page i (r\<lparr>pn_status := PageCompleted, pn_superseded := superseded, pn_heartbeatAt := Some now,
               pn_completedAt := Some now\<rparr>) c, 1))"

definition pages_of :: "branch_id \<Rightarrow> int \<Rightarrow> branch_cache \<Rightarrow> page_row list" where
  "pages_of b g c = map snd (filter (\<lambda>((b', g', _), _). b' = b \<and> g' = g) (bc_pages c))"

definition latest_completion :: "page_row list \<Rightarrow> gotime option" where
  "latest_completion ps = fold (\<lambda>r m. case (pn_completedAt r, m) of
     (None, m) \<Rightarrow> m | (Some t, None) \<Rightarrow> Some t | (Some t, Some u) \<Rightarrow> Some (max t u)) ps None"

definition finalizable :: "branch_id \<Rightarrow> int \<Rightarrow> branch_cache \<Rightarrow> reconciliation_row \<Rightarrow> bool" where
  "finalizable b g c r = (bn_generation r = g \<and> bn_completedAt r = None \<and> 0 < bn_pageCount r \<and>
     bn_pageCount r = int (length (pages_of b g c)) \<and> list_all (\<lambda>p. pn_status p \<noteq> PagePending) (pages_of b g c))"

definition FinalizeBranchReconciliation :: "branch_id \<Rightarrow> int \<Rightarrow> branch_cache \<Rightarrow> branch_cache" where
  "FinalizeBranchReconciliation b g c = (case map_of (bc_reconciliations c) b of
     None \<Rightarrow> c
   | Some r \<Rightarrow> if finalizable b g c r
       then c\<lparr>bc_reconciliations := AList.update b (r\<lparr>bn_completedAt := latest_completion (pages_of b g c)\<rparr>)
               (bc_reconciliations c)\<rparr>
       else c)"

definition record_success :: "gotime \<Rightarrow> int \<Rightarrow> string \<Rightarrow> string \<Rightarrow> int \<Rightarrow> branch_cache \<Rightarrow> gerror + branch_cache" where
  "record_success now inst component operation samples c =
     Sum_Type.map_sum id (\<lambda>rows. c\<lparr>bc_heartbeats := rows\<rparr>) (RecordSuccessN now inst component operation samples (bc_heartbeats c))"

section \<open>The worker\<close>

definition defaultBatchSize :: nat where "defaultBatchSize = 25"

definition healBranchReconciliationCompletion :: "BranchReconcilePageArgs \<Rightarrow> branch_cache \<Rightarrow> branch_cache" where
  "healBranchReconciliationCompletion a c =
     (if \<not> current_generation (bp_repo a, bp_branch a) (bp_generation a) c then c
      else FinalizeBranchReconciliation (bp_repo a, bp_branch a) (bp_generation a) c)"

record branch_page_work =
  pw_cache :: "branch_cache \<Rightarrow> branch_cache"
  pw_results :: "gerror option list"
  pw_heartbeatErrors :: "gerror list"
  pw_manifestChanged :: bool

definition superseded_result :: "gerror option \<Rightarrow> bool" where
  "superseded_result e = (case e of None \<Rightarrow> False | Some e \<Rightarrow> errors_is e ErrBranchReconciliationSuperseded)"

definition page_errors :: "branch_page_work \<Rightarrow> gerror list" where
  "page_errors w = map the (filter (\<lambda>e. e \<noteq> None \<and> \<not> superseded_result e) (pw_results w)) @ pw_heartbeatErrors w"

type_synonym page_observation = "string \<times> nat \<times> nat"

definition completePage :: "gotime \<Rightarrow> int \<Rightarrow> nat \<Rightarrow> BranchReconcilePageArgs \<Rightarrow> branch_cache \<Rightarrow>
    branch_cache \<times> gerror option \<times> page_observation list" where
  "completePage now inst superseded a c =
     (let n = length (bp_targets a); b = (bp_repo a, bp_branch a) in
      if \<not> current_generation b (bp_generation a) c then (c, None, [(''superseded'', n, n)])
      else case CompleteBranchReconciliationPage now (int superseded) (b, bp_generation a, bp_page a) c of
        (c1, completed) \<Rightarrow>
          let c2 = FinalizeBranchReconciliation b (bp_generation a) c1 in
          if completed = 0 then (c2, None, [(''superseded'', n, n)])
          else (case record_success now inst ''fetch'' ''branch_reconciliation'' (int n) c2 of
              Inl e \<Rightarrow> (c, Some e, [])
            | Inr c3 \<Rightarrow> (c3, None,
                [(if 0 < superseded then ''partial_superseded'' else ''success'', n, superseded)])))"

definition ReconcileBranchPage :: "gotime \<Rightarrow> gotime \<Rightarrow> int \<Rightarrow> branch_page_work \<Rightarrow> BranchReconcilePageArgs \<Rightarrow> branch_cache \<Rightarrow>
    branch_cache \<times> gerror option \<times> page_observation list" where
  "ReconcileBranchPage startedAt now inst w a c =
     (let n = length (bp_targets a); i = ((bp_repo a, bp_branch a), bp_generation a, bp_page a) in
      if bp_repo a \<le> 0 \<or> bp_name a = [] \<or> bp_branch a = [] \<or> bp_generation a \<le> 0 \<or> bp_page a \<le> 0 \<or>
         bp_targets a = [] \<or> defaultBatchSize < n
      then (c, Some (ErrText ''invalid branch reconciliation page''), [])
      else case GetBranchReconciliationPage i c of
        None \<Rightarrow> (c, Some (ErrText ''read branch reconciliation page: no rows''), [])
      | Some PageCompleted \<Rightarrow> (healBranchReconciliationCompletion a c, None, [])
      | Some PageSuperseded \<Rightarrow> (c, None, [(''superseded'', n, n)])
      | Some PagePending \<Rightarrow>
          (case StartBranchReconciliationPage startedAt i c of
             (c1, started) \<Rightarrow>
               if started = 0 then (c1, None, [])
               else let c2 = pw_cache w c1;
                        superseded = length (filter superseded_result (pw_results w));
                        rest = (if page_errors w \<noteq> []
                          then (c2, Some (ErrWrap [] (page_errors w)), [(''error'', n, superseded)])
                          else completePage now inst superseded a c2)
                    in if pw_manifestChanged w then
                         (case GetBranchReconciliationPage i c2 of
                            None \<Rightarrow> (c2, Some (ErrText ''re-read branch reconciliation page: no rows''), [])
                          | Some PageCompleted \<Rightarrow> (healBranchReconciliationCompletion a c2, None, [])
                          | Some PageSuperseded \<Rightarrow> (c2, None, [])
                          | Some PagePending \<Rightarrow> rest)
                       else rest))"

end
