(* ===== verification/Queue_Properties.thy ===== *)
theory Queue_Properties
  imports Refresh_Queue
begin

text \<open>
  Correctness of the refresh queue: no signal is lost, a run completes only what it saw, a batch
  is coalesced independently of its order, orphaned pointers are restored, and the generation
  locks are all-or-nothing.
\<close>

section \<open>The generation table\<close>

lemma distinct_bump_row: "distinct (map fst t) \<Longrightarrow> distinct (map fst (bump_row now i t))"
  by (cases i) (auto simp: distinct_update split: option.split)

lemma bump_row_lookup:
  "map_of (bump_row now (k, d, e) t) k' =
     (if k' = k then Some (case map_of t k of
          None \<Rightarrow> \<lparr>gr_generation = 1, gr_completed = 0, gr_deadline = d, gr_event = e, gr_updated = now\<rparr>
        | Some r \<Rightarrow> r\<lparr>gr_generation := gr_generation r + 1, gr_deadline := opt_earliest (gr_deadline r) d,
            gr_event := opt_earliest (gr_event r) e, gr_updated := now\<rparr>)
      else map_of t k')"
  by (auto simp: update_conv split: option.split)

lemma bump_rows_lookup_other:
  "k \<notin> fst ` set is \<Longrightarrow> map_of (fold (bump_row now) is t) k = map_of t k"
  by (induction "is" arbitrary: t) (auto simp: bump_row_lookup simp del: bump_row.simps)

lemma bump_rows_lookup:
  assumes "distinct (map fst is)" and "(k, d, e) \<in> set is"
  shows "map_of (fold (bump_row now) is t) k = map_of (bump_row now (k, d, e) t) k"
  using assms
proof (induction "is" arbitrary: t)
  case (Cons i js)
  show ?case
  proof (cases "i = (k, d, e)")
    case True
    with Cons.prems show ?thesis by (simp del: bump_row.simps add: bump_rows_lookup_other)
  next
    case False
    with Cons.prems have m: "(k, d, e) \<in> set js" by auto
    then have "k \<in> fst ` set js" by force
    with Cons.prems(1) have "fst i \<noteq> k" by auto
    note m this
    then show ?thesis using Cons.IH Cons.prems by (cases i) (simp del: bump_row.simps add: bump_row_lookup)
  qed
qed simp

lemma distinct_bump_rows: "distinct (map fst t) \<Longrightarrow> distinct (map fst (fold (bump_row now) is t))"
  by (induction "is" arbitrary: t) (simp_all add: distinct_bump_row del: bump_row.simps)

lemma Complete_lookup:
  "map_of (CompleteRefreshIntentGeneration now g k t) k' =
     (if k' = k then map_option (\<lambda>r. if g \<le> gr_generation r then r\<lparr>gr_completed := max (gr_completed r) g,
          gr_deadline := (if gr_generation r = g then None else gr_deadline r),
          gr_event := (if gr_generation r = g then None else gr_event r), gr_updated := now\<rparr> else r) (map_of t k)
      else map_of t k')"
  by (auto simp: CompleteRefreshIntentGeneration_def update_conv split: option.split)

lemma distinct_Complete:
  "distinct (map fst t) \<Longrightarrow> distinct (map fst (CompleteRefreshIntentGeneration now g k t))"
  by (auto simp: CompleteRefreshIntentGeneration_def distinct_update split: option.split)

section \<open>Coalescing a batch\<close>

interpretation schedule: observation_merge sooner "\<lambda>_. True"
  by unfold_locales (auto simp: sooner_def)

interpretation deadline: observation_merge earlier_set "\<lambda>_. True"
  by unfold_locales (auto simp: earlier_set_def)

lemma mergeSpec_key [simp]: "spec_key (mergeSpec d s) = spec_key d"
  by (simp add: mergeSpec_def spec_key_def)

lemma default_event_key [simp]: "spec_key (default_event ev s) = spec_key s" "rs_key (default_event ev s) = rs_key s"
  "rs_scheduledAt (default_event ev s) = rs_scheduledAt s" "rs_deadline (default_event ev s) = rs_deadline s"
  by (simp_all add: default_event_def spec_key_def)

lemma dedup_add_keys: "spec_key ` set (dedup_add s ds) = insert (spec_key s) (spec_key ` set ds)"
  by (induction ds) auto

lemma dedup_add_distinct: "distinct (map spec_key ds) \<Longrightarrow> distinct (map spec_key (dedup_add s ds))"
proof (induction ds)
  case (Cons d ds)
  then show ?case using dedup_add_keys [of s ds] by (auto simp flip: image_set)
qed simp

text \<open>The entry of a key: the specs of that key merged.\<close>

definition entry :: "RefreshGenerationKey \<Rightarrow> RefreshSpec list \<Rightarrow> RefreshSpec option" where
  "entry k ds = List.find (\<lambda>d. spec_key d = k) ds"

lemma entry_add: "entry k (dedup_add s ds) =
    (if k = spec_key s then Some (case entry k ds of None \<Rightarrow> s | Some d \<Rightarrow> mergeSpec d s) else entry k ds)"
  by (induction ds) (auto simp: entry_def)

definition merge_entry :: "RefreshSpec \<Rightarrow> RefreshSpec option \<Rightarrow> RefreshSpec option" where
  "merge_entry s x = Some (case x of None \<Rightarrow> s | Some d \<Rightarrow> mergeSpec d s)"

lemma dedup_loop_entry:
  "dedup_loop ev ss acc = Inr ds \<Longrightarrow>
   entry k ds = fold (\<lambda>s. merge_entry (default_event ev s)) (filter (\<lambda>s. spec_key s = k) ss) (entry k acc)"
proof (induction ss arbitrary: acc)
  case (Cons s ss)
  then show ?case by (simp add: entry_add merge_entry_def split: if_splits)
qed simp

lemma dedup_loop_distinct:
  "dedup_loop ev ss acc = Inr ds \<Longrightarrow> distinct (map spec_key acc) \<Longrightarrow>
   distinct (map spec_key ds) \<and> spec_key ` set ds = spec_key ` set ss \<union> spec_key ` set acc"
proof (induction ss arbitrary: acc)
  case (Cons s ss)
  from Cons.prems have "dedup_loop ev ss (dedup_add (default_event ev s) acc) = Inr ds"
    by (simp split: if_splits)
  from Cons.IH [OF this dedup_add_distinct [OF Cons.prems(2)]] show ?case
    by (simp add: dedup_add_keys)
qed simp

lemma dedup_loop_ok: "(\<exists>ds. dedup_loop ev ss acc = Inr ds) \<longleftrightarrow> (\<forall>s \<in> set ss. rs_key s \<noteq> [])"
  by (induction ss arbitrary: acc) auto

text \<open>The merged entry as three independent merges, each determined by the set of its values.\<close>

lemma fold_merge_entry:
  "fold (\<lambda>s. merge_entry (f s)) ss (Some d) = Some (d\<lparr>
     rs_scheduledAt := foldl sooner (rs_scheduledAt d) (map (rs_scheduledAt \<circ> f) ss),
     rs_deadline := foldl earlier_set (rs_deadline d) (map (rs_deadline \<circ> f) ss),
     rs_event := foldl earlier_set (rs_event d) (map (rs_event \<circ> f) ss)\<rparr>)"
  by (induction ss arbitrary: d) (simp_all add: merge_entry_def mergeSpec_def)

lemma spec_eqI:
  "spec_key d = spec_key d' \<Longrightarrow>
   d\<lparr>rs_scheduledAt := a, rs_deadline := b, rs_event := c\<rparr> = d'\<lparr>rs_scheduledAt := a, rs_deadline := b, rs_event := c\<rparr>"
  by (cases d; cases d') (simp add: spec_key_def)

lemma merged_set_determined:
  assumes "set ss = set ss'" and "\<And>s. s \<in> set ss \<Longrightarrow> spec_key (f s) = k"
  shows "fold (\<lambda>s. merge_entry (f s)) ss None = fold (\<lambda>s. merge_entry (f s)) ss' None"
proof (cases ss)
  case Nil
  with assms show ?thesis by simp
next
  case (Cons s xs)
  with assms obtain s' ys where ss': "ss' = s' # ys" by (cases ss') auto
  have img: "insert (g (f s)) (set (map (g \<circ> f) xs)) = insert (g (f s')) (set (map (g \<circ> f) ys))"
    for g :: "RefreshSpec \<Rightarrow> gotime"
  proof -
    have "(g \<circ> f) ` set ss = (g \<circ> f) ` set ss'" using assms(1) by simp
    then show ?thesis by (simp add: Cons ss')
  qed
  have key: "spec_key (f s) = spec_key (f s')" using assms Cons ss' by auto
  have "foldl sooner (rs_scheduledAt (f s)) (map (rs_scheduledAt \<circ> f) xs) =
      foldl sooner (rs_scheduledAt (f s')) (map (rs_scheduledAt \<circ> f) ys)"
    by (rule schedule.foldl_members_determined) (use img [of rs_scheduledAt] in \<open>simp_all add: list_all_iff\<close>)
  moreover have "foldl earlier_set (g (f s)) (map (g \<circ> f) xs) = foldl earlier_set (g (f s')) (map (g \<circ> f) ys)" for g
    by (rule deadline.foldl_members_determined) (use img [of g] in \<open>simp_all add: list_all_iff\<close>)
  ultimately show ?thesis
    unfolding Cons ss' fold.simps comp_def [of "fold _ _"] merge_entry_def option.case
    unfolding merge_entry_def [symmetric] fold_merge_entry
    using spec_eqI [OF key] by simp
qed

lemma entry_iff: "distinct (map spec_key ds) \<Longrightarrow> d \<in> set ds \<longleftrightarrow> entry (spec_key d) ds = Some d"
proof (induction ds)
  case (Cons x xs)
  then show ?case by (auto simp: entry_def rev_image_eqI find_Some_iff)
qed (simp add: entry_def)

lemma sort_key_determined:
  assumes "distinct (map f xs)" and "distinct (map f ys)" and "set xs = set ys"
  shows "sort_key f xs = sort_key f ys"
proof (rule map_sorted_distinct_set_unique)
  show "inj_on f (set (sort_key f xs) \<union> set (sort_key f ys))"
    using assms by (simp add: distinct_map)
  show "distinct (map f (sort_key f xs))" "distinct (map f (sort_key f ys))"
    using assms by (simp_all add: distinct_map)
qed (use assms in simp_all)

lemma dedup_sorted_Inr:
  assumes "dedup_sorted ev specs = Inr ds"
  obtains ds0 where "dedup_loop ev specs [] = Inr ds0" and "ds = sort_key spec_key ds0"
    and "distinct (map spec_key ds0)" and "spec_key ` set ds0 = spec_key ` set specs"
  using assms dedup_loop_distinct [of ev specs "[]"]
  by (auto simp: dedup_sorted_def split: sum.splits)

text \<open>A batch of refresh signals is coalesced to one specification per key, in key order, with
  the earliest schedule (no schedule is now), deadline and receipt time of its signals; the order
  of the batch and repetitions in it do not matter.\<close>

theorem batch_order_irrelevant:
  assumes "dedup_sorted ev specs = Inr ds" and "set specs' = set specs"
  shows "dedup_sorted ev specs' = Inr ds \<and> sorted (map spec_key ds) \<and> distinct (map spec_key ds) \<and>
    spec_key ` set ds = spec_key ` set specs \<and>
    (\<forall>d \<in> set ds. \<forall>s \<in> set specs. spec_key s = spec_key d \<longrightarrow>
      sooner (rs_scheduledAt s) (rs_scheduledAt d) = rs_scheduledAt d \<and>
      earlier_set (rs_deadline s) (rs_deadline d) = rs_deadline d)"
proof -
  from assms(1) obtain ds0 where l: "dedup_loop ev specs [] = Inr ds0" "ds = sort_key spec_key ds0"
    and d: "distinct (map spec_key ds0)" "spec_key ` set ds0 = spec_key ` set specs"
    by (rule dedup_sorted_Inr)
  from l(1) have "\<forall>s \<in> set specs. rs_key s \<noteq> []" by (metis dedup_loop_ok)
  with assms(2) obtain ds1 where l1: "dedup_loop ev specs' [] = Inr ds1" by (metis dedup_loop_ok)
  from dedup_loop_distinct [OF l1] have d1: "distinct (map spec_key ds1)" by simp
  have ent: "entry k ds1 = entry k ds0" for k
    using dedup_loop_entry [OF l1] dedup_loop_entry [OF l(1)]
      merged_set_determined [of "filter (\<lambda>s. spec_key s = k) specs'" "filter (\<lambda>s. spec_key s = k) specs"
        "default_event ev" k] assms(2)
    by (simp add: entry_def)
  then have "set ds1 = set ds0" using entry_iff [OF d(1)] entry_iff [OF d1] by auto
  then have same: "dedup_sorted ev specs' = Inr ds"
    using sort_key_determined [OF d1 d(1)] l1 l(2) by (simp add: dedup_sorted_def)
  have early: "sooner (rs_scheduledAt s) (rs_scheduledAt x) = rs_scheduledAt x \<and>
      earlier_set (rs_deadline s) (rs_deadline x) = rs_deadline x"
    if "x \<in> set ds" "s \<in> set specs" "spec_key s = spec_key x" for x s
  proof -
    let ?ss = "filter (\<lambda>s. spec_key s = spec_key x) specs"
    from that l(2) d(1) have "entry (spec_key x) ds0 = Some x" by (simp add: entry_iff [symmetric])
    with dedup_loop_entry [OF l(1)] have x: "fold (\<lambda>s. merge_entry (default_event ev s)) ?ss None = Some x"
      by (simp add: entry_def)
    from that have "s \<in> set ?ss" by simp
    then obtain y ys where ss: "?ss = y # ys" by (cases ?ss) auto
    with \<open>s \<in> set ?ss\<close> have "s \<in> insert y (set ys)" by simp
    then show ?thesis
      using x schedule.foldl_absorbs [where a = "rs_scheduledAt y" and xs = "map rs_scheduledAt ys" and x = "rs_scheduledAt s"]
        deadline.foldl_absorbs [where a = "rs_deadline y" and xs = "map rs_deadline ys" and x = "rs_deadline s"]
      by (auto simp: ss fold_merge_entry merge_entry_def list_all_iff comp_def)
  qed
  have "sorted (map spec_key ds)" "distinct (map spec_key ds)" "spec_key ` set ds = spec_key ` set specs"
    using l(2) d by (simp_all add: distinct_map)
  with same early show ?thesis by blast
qed

definition demo_spec :: "string \<Rightarrow> gotime \<Rightarrow> gotime \<Rightarrow> RefreshSpec" where
  "demo_spec key sched dl = \<lparr>rs_kind = KindRefreshPR, rs_key = key, rs_scheduledAt = sched, rs_deadline = dl,
     rs_event = 0\<rparr>"

theorem batch_order_irrelevant_witness:
  "dedup_sorted 3 [demo_spec ''b'' 0 0, demo_spec ''a'' 9 5, demo_spec ''b'' 7 4] =
     Inr [(demo_spec ''a'' 9 5)\<lparr>rs_event := 3\<rparr>, (demo_spec ''b'' 0 4)\<lparr>rs_event := 3\<rparr>] \<and>
   dedup_sorted 3 [demo_spec ''b'' 7 4, demo_spec ''b'' 0 0, demo_spec ''a'' 9 5, demo_spec ''a'' 9 5] =
     Inr [(demo_spec ''a'' 9 5)\<lparr>rs_event := 3\<rparr>, (demo_spec ''b'' 0 4)\<lparr>rs_event := 3\<rparr>]"
proof -
  have "dedup_sorted 3 [demo_spec ''b'' 0 0, demo_spec ''a'' 9 5, demo_spec ''b'' 7 4] =
     Inr [(demo_spec ''a'' 9 5)\<lparr>rs_event := 3\<rparr>, (demo_spec ''b'' 0 4)\<lparr>rs_event := 3\<rparr>]"
    by (simp add: dedup_sorted_def demo_spec_def default_event_def spec_key_def mergeSpec_def sooner_def
        earlier_set_def kind_defs less_eq_char_def less_char_def)
  with batch_order_irrelevant [OF this, of "[demo_spec ''b'' 7 4, demo_spec ''b'' 0 0, demo_spec ''a'' 9 5,
      demo_spec ''a'' 9 5]"] show ?thesis by auto
qed

section \<open>What a producer leaves\<close>

lemma river_insert:
  assumes "river_ok R" and "rv_insert R a (NewRefreshInsertOptsForQueue qn t) q = Inr (r, q')"
  shows "live R b q' \<longleftrightarrow> b = a \<or> live R b q" and "ir_skipped r \<longleftrightarrow> live R a q"
proof -
  from assms(1) have law: "\<forall>a io q r q'. rv_insert R a io q = Inr (r, q') \<and> io_byArgs io \<and> io_byState io = active_states \<longrightarrow>
      (\<forall>b. live R b q' \<longleftrightarrow> b = a \<or> live R b q) \<and> jb_args (ir_job r) = a \<and> (ir_skipped r \<longleftrightarrow> live R a q)"
    unfolding river_ok_def by (rule conjunct1)
  have "(\<forall>b. live R b q' \<longleftrightarrow> b = a \<or> live R b q) \<and> (ir_skipped r \<longleftrightarrow> live R a q)"
    using law [rule_format, of a "NewRefreshInsertOptsForQueue qn t" q r q'] assms(2)
    by (simp add: NewRefreshInsertOptsForQueue_def)
  then show "live R b q' \<longleftrightarrow> b = a \<or> live R b q" "ir_skipped r \<longleftrightarrow> live R a q" by blast+
qed

lemma river_insert_many:
  assumes "river_ok R" and "rv_insert_many R ps q = Inr (rs, q')"
    and "\<forall>(a, io) \<in> set ps. io_byArgs io \<and> io_byState io = active_states"
  shows "(a, io) \<in> set ps \<Longrightarrow> live R a q'" and "live R b q \<Longrightarrow> live R b q'"
proof -
  from assms(1) have law: "\<forall>ps q rs q'. rv_insert_many R ps q = Inr (rs, q') \<and>
      (\<forall>(a, io) \<in> set ps. io_byArgs io \<and> io_byState io = active_states) \<longrightarrow>
      (\<forall>(a, io) \<in> set ps. live R a q') \<and> (\<forall>b. live R b q \<longrightarrow> live R b q')"
    unfolding river_ok_def by (elim conjE)
  then have "(\<forall>(a, io) \<in> set ps. live R a q') \<and> (\<forall>b. live R b q \<longrightarrow> live R b q')"
    using assms(2,3) by blast
  then show "(a, io) \<in> set ps \<Longrightarrow> live R a q'" "live R b q \<Longrightarrow> live R b q'" by blast+
qed

lemma river_retry: "river_ok R \<Longrightarrow> rv_retry R i q = Inr q' \<Longrightarrow> live R b q \<Longrightarrow> live R b q'"
  unfolding river_ok_def by blast

lemma river_complete:
  "river_ok R \<Longrightarrow> rv_complete R j q = Inr q' \<Longrightarrow> live R b q \<Longrightarrow> b \<noteq> jb_args j \<Longrightarrow> live R b q'"
  unfolding river_ok_def by blast

lemma argsForSpec_pointer: "argsForSpec s = Inr a \<Longrightarrow> pointer a = spec_key s"
  by (auto simp: argsForSpec_def pointer_def spec_key_def NewRefreshPRArgs_def NewRefreshRepositoryArgs_def
      NewRefreshRepoRulesArgs_def NewRefreshStackArgs_def NewRefreshChecksArgs_def NewRefreshBranchArgs_def
      NewResolveStackMembershipArgs_def split: if_splits)

lemma collect_params_Inr:
  "collect_params qn ss = Inr ps \<Longrightarrow>
   (\<forall>s \<in> set ss. \<exists>a io. (a, io) \<in> set ps \<and> argsForSpec s = Inr a) \<and>
   (\<forall>(a, io) \<in> set ps. io_byArgs io \<and> io_byState io = active_states)"
proof (induction ss arbitrary: ps)
  case (Cons s ss)
  then show ?case by (fastforce simp: NewRefreshInsertOptsForQueue_def split: sum.splits)
qed simp

lemma expedite_live: "river_ok R \<Longrightarrow> expedite R sched rs q = Inr q' \<Longrightarrow> live R b q \<Longrightarrow> live R b q'"
proof (induction R sched rs q rule: expedite.induct)
  case (3 R sched r rs q)
  then show ?case by (auto split: if_splits option.splits sum.splits dest: river_retry)
qed auto

lemma Bump_Inr:
  assumes "BumpRefreshIntentGenerations now is t = Inr (t', gs)"
  shows "distinct (map fst (remdups is))" and "t' = fold (bump_row now) (remdups is) t"
    and "gs = map (\<lambda>(k, _). (k, case map_of t' k of None \<Rightarrow> 0 | Some r \<Rightarrow> gr_generation r)) (remdups is)"
  using assms by (auto simp: BumpRefreshIntentGenerations_def Let_def split: if_splits)

lemma Insert_Inr:
  assumes "InsertRefreshesTxReturning ts lock now ev (Some R) specs qn st = Inr (res, st')" and "specs \<noteq> []"
  obtains ds gs ps rs q1 where "dedup_sorted ev specs = Inr ds"
    and "BumpRefreshIntentGenerations now (map (pointer_intent ts) ds) (qs_gens st) = Inr (qs_gens st', gs)"
    and "collect_params qn ds = Inr ps" and "rv_insert_many R ps (qs_jobs st) = Inr (rs, q1)"
    and "expedite R (map_of (rev (map (\<lambda>s. (spec_key s, rs_scheduledAt s)) ds))) rs q1 = Inr (qs_jobs st')"
    and "res = map (\<lambda>s. (s, case map_of (rev gs) (spec_key s) of None \<Rightarrow> 0 | Some g \<Rightarrow> g)) ds"
  using assms by (auto simp: InsertRefreshesTxReturning_def split: if_splits option.splits sum.splits)

lemma intents_distinct:
  assumes "distinct (map spec_key ds)"
  shows "remdups (map (pointer_intent ts) ds) = map (pointer_intent ts) ds"
proof -
  have "map fst (map (pointer_intent ts) ds) = map spec_key ds" by (simp add: pointer_intent_def comp_def)
  with assms have "distinct (map (pointer_intent ts) ds)" by (metis distinct_map)
  then show ?thesis by (rule distinct_remdups_id)
qed

text \<open>Per key: one bump, and a live pointer.\<close>

lemma Insert_effect:
  assumes ins: "InsertRefreshesTxReturning ts lock now ev (Some R) specs qn st = Inr (res, st')"
    and ne: "specs \<noteq> []" and ok: "river_ok R"
  obtains ds where "dedup_sorted ev specs = Inr ds"
    and "qs_gens st' = fold (bump_row now) (map (pointer_intent ts) ds) (qs_gens st)"
    and "\<forall>b. live R b (qs_jobs st) \<longrightarrow> live R b (qs_jobs st')"
    and "\<forall>d \<in> set ds. \<exists>a. argsForSpec d = Inr a \<and> live R a (qs_jobs st')"
    and "res = map (\<lambda>s. (s, case map_of (qs_gens st') (spec_key s) of None \<Rightarrow> 0 | Some r \<Rightarrow> gr_generation r)) ds"
proof -
  from ins ne obtain ds gs ps rs q1 where a: "dedup_sorted ev specs = Inr ds"
    and b: "BumpRefreshIntentGenerations now (map (pointer_intent ts) ds) (qs_gens st) = Inr (qs_gens st', gs)"
    and c: "collect_params qn ds = Inr ps" and d: "rv_insert_many R ps (qs_jobs st) = Inr (rs, q1)"
    and e: "expedite R (map_of (rev (map (\<lambda>s. (spec_key s, rs_scheduledAt s)) ds))) rs q1 = Inr (qs_jobs st')"
    and f: "res = map (\<lambda>s. (s, case map_of (rev gs) (spec_key s) of None \<Rightarrow> 0 | Some g \<Rightarrow> g)) ds"
    by (rule Insert_Inr)
  from a have dist: "distinct (map spec_key ds)"
    by (rule dedup_sorted_Inr) (simp add: distinct_map)
  note rem = intents_distinct [OF dist, of ts]
  note ps = collect_params_Inr [OF c]
  note many = river_insert_many [OF ok d conjunct2 [OF ps]]
  have gs: "gs = map (\<lambda>s. (spec_key s, case map_of (qs_gens st') (spec_key s) of None \<Rightarrow> 0 | Some r \<Rightarrow> gr_generation r)) ds"
    using Bump_Inr(3) [OF b] by (simp add: rem pointer_intent_def comp_def)
  have look: "map_of (rev gs) (spec_key s) = Some (case map_of (qs_gens st') (spec_key s) of None \<Rightarrow> 0 | Some r \<Rightarrow> gr_generation r)"
    if "s \<in> set ds" for s
  proof -
    have "distinct (map fst (rev gs))" using dist by (simp add: gs comp_def flip: rev_map)
    then show ?thesis using that by (intro map_of_is_SomeI) (auto simp: gs)
  qed
  show thesis
  proof (rule that [OF a])
    show "qs_gens st' = fold (bump_row now) (map (pointer_intent ts) ds) (qs_gens st)"
      using Bump_Inr(2) [OF b] by (simp only: rem)
    show "\<forall>b. live R b (qs_jobs st) \<longrightarrow> live R b (qs_jobs st')"
      using expedite_live [OF ok e] many(2) by blast
    show "\<forall>x \<in> set ds. \<exists>a. argsForSpec x = Inr a \<and> live R a (qs_jobs st')"
      using ps many(1) expedite_live [OF ok e] by meson
    show "res = map (\<lambda>s. (s, case map_of (qs_gens st') (spec_key s) of None \<Rightarrow> 0 | Some r \<Rightarrow> gr_generation r)) ds"
      unfolding f using look by simp
  qed
qed

section \<open>No signal is lost\<close>

text \<open>
  The steps of the queue: a producer commits a batch, a worker snapshots the generation of its
  pointer, a worker commits the completion of what it saw or gives up, a reconciliation pass runs,
  River moves jobs without taking the last one with given arguments out of the mask (fetching,
  scheduling, retrying). A discarded job is the case reconciliation handles; it is not a step here.
\<close>

record 'q qsys =
  sy_state :: "'q qstate"
  sy_runs :: "(Job \<times> int) list"

definition snapshot_generation :: "JobArgs \<Rightarrow> generations \<Rightarrow> int" where
  "snapshot_generation a t = (case GetRefreshIntentState (pointer a) t of None \<Rightarrow> 0 | Some r \<Rightarrow> gr_generation r)"

inductive queue_step :: "'q River \<Rightarrow> 'q qsys \<Rightarrow> 'q qsys \<Rightarrow> bool" for R where
  produce: "InsertRefreshesTxReturning ts lock now ev (Some R) specs qn (sy_state s) = Inr (res, st') \<Longrightarrow>
    queue_step R s (s\<lparr>sy_state := st'\<rparr>)"
| start: "queue_step R s (s\<lparr>sy_runs := (job, snapshot_generation (jb_args job) (qs_gens (sy_state s))) # sy_runs s\<rparr>)"
| finish: "(job, started) \<in> set (sy_runs s) \<Longrightarrow>
    completeRefresh R hasClient now job (decodeArgs (jb_args job)) started (sy_state s) = Inr st' \<Longrightarrow>
    queue_step R s \<lparr>sy_state = st', sy_runs = remove1 (job, started) (sy_runs s)\<rparr>"
| give_up: "queue_step R s (s\<lparr>sy_runs := remove1 run (sy_runs s)\<rparr>)"
| reconcile: "queue_step R s (s\<lparr>sy_state := fst (ReconcileOrphanedRefreshPointers (Some R) stale limit qn (sy_state s))\<rparr>)"
| river: "(\<And>b. live R b (qs_jobs (sy_state s)) \<Longrightarrow> live R b q) \<Longrightarrow>
    queue_step R s (s\<lparr>sy_state := (sy_state s)\<lparr>qs_jobs := q\<rparr>\<rparr>)"

inductive_cases queue_stepE: "queue_step R s s'"

definition row_ok :: "generation_row \<Rightarrow> bool" where
  "row_ok r \<longleftrightarrow> 0 < gr_generation r \<and> 0 \<le> gr_completed r \<and> gr_completed r \<le> gr_generation r"

definition has_live :: "'q River \<Rightarrow> RefreshGenerationKey \<Rightarrow> 'q \<Rightarrow> bool" where
  "has_live R k q \<longleftrightarrow> (\<exists>a. pointer a = k \<and> live R a q)"

definition queue_inv :: "'q River \<Rightarrow> 'q qstate \<Rightarrow> bool" where
  "queue_inv R st \<longleftrightarrow> distinct (map fst (qs_gens st)) \<and>
     (\<forall>k r. map_of (qs_gens st) k = Some r \<longrightarrow> row_ok r \<and> (outstanding r \<longrightarrow> has_live R k (qs_jobs st)))"

lemma queue_invD:
  "queue_inv R st \<Longrightarrow> map_of (qs_gens st) k = Some r \<Longrightarrow> row_ok r"
  "queue_inv R st \<Longrightarrow> map_of (qs_gens st) k = Some r \<Longrightarrow> outstanding r \<Longrightarrow> has_live R k (qs_jobs st)"
  unfolding queue_inv_def by blast+

lemma has_live_mono: "has_live R k q \<Longrightarrow> (\<And>b. live R b q \<Longrightarrow> live R b q') \<Longrightarrow> has_live R k q'"
  by (auto simp: has_live_def)

lemma Insert_row:
  assumes "dedup_sorted ev specs = Inr ds"
    and "gens' = fold (bump_row now) (map (pointer_intent ts) ds) gens"
  shows "map_of gens' k =
    (case List.find (\<lambda>d. spec_key d = k) ds of
       None \<Rightarrow> map_of gens k
     | Some d \<Rightarrow> map_of (bump_row now (pointer_intent ts d) gens) k)"
proof -
  from assms(1) have dist: "distinct (map spec_key ds)" by (rule dedup_sorted_Inr) (simp add: distinct_map)
  have keys: "map fst (map (pointer_intent ts) ds) = map spec_key ds" by (simp add: pointer_intent_def comp_def)
  show ?thesis
  proof (cases "List.find (\<lambda>d. spec_key d = k) ds")
    case None
    then have "k \<notin> fst ` set (map (pointer_intent ts) ds)"
      by (auto simp: find_None_iff pointer_intent_def)
    with None assms(2) show ?thesis by (simp add: bump_rows_lookup_other del: set_map)
  next
    case (Some d)
    then have d: "d \<in> set ds" "spec_key d = k" by (auto simp: find_Some_iff)
    obtain dl e where i: "pointer_intent ts d = (k, dl, e)" using d(2) by (simp add: pointer_intent_def)
    with d(1) have "(k, dl, e) \<in> set (map (pointer_intent ts) ds)" by force
    from bump_rows_lookup [OF _ this] dist keys
    have "map_of (fold (bump_row now) (map (pointer_intent ts) ds) gens) k = map_of (bump_row now (k, dl, e) gens) k"
      by (simp only:)
    with Some assms(2) i show ?thesis by (simp del: bump_row.simps)
  qed
qed

lemma bump_row_ok:
  "map_of (bump_row now (k, d, e) t) k = Some r \<Longrightarrow> (\<And>r. map_of t k = Some r \<Longrightarrow> row_ok r) \<Longrightarrow> row_ok r"
  by (auto simp: bump_row_lookup row_ok_def simp del: bump_row.simps split: option.splits)

lemma Insert_inv:
  assumes "InsertRefreshesTxReturning ts lock now ev (Some R) specs qn st = Inr (res, st')"
    and "river_ok R" and "queue_inv R st"
  shows "queue_inv R st'"
proof (cases "specs = []")
  case True
  with assms show ?thesis by (simp add: InsertRefreshesTxReturning_def)
next
  case False
  from assms(1) this assms(2) obtain ds where ds: "dedup_sorted ev specs = Inr ds"
    and g: "qs_gens st' = fold (bump_row now) (map (pointer_intent ts) ds) (qs_gens st)"
    and mono: "\<forall>b. live R b (qs_jobs st) \<longrightarrow> live R b (qs_jobs st')"
    and lv: "\<forall>d \<in> set ds. \<exists>a. argsForSpec d = Inr a \<and> live R a (qs_jobs st')"
    and "res = map (\<lambda>s. (s, case map_of (qs_gens st') (spec_key s) of None \<Rightarrow> 0 | Some r \<Rightarrow> gr_generation r)) ds"
    by (rule Insert_effect)
  have "row_ok r \<and> (outstanding r \<longrightarrow> has_live R k (qs_jobs st'))" if r: "map_of (qs_gens st') k = Some r" for k r
  proof (cases "List.find (\<lambda>d. spec_key d = k) ds")
    case None
    with r Insert_row [OF ds g, of k] have "map_of (qs_gens st) k = Some r" by simp
    with assms(3) mono show ?thesis by (blast intro: queue_invD has_live_mono)
  next
    case (Some d)
    then have d: "d \<in> set ds" "spec_key d = k" by (auto simp: find_Some_iff)
    from bspec [OF lv d(1)] d(2) have "has_live R k (qs_jobs st')"
      by (auto simp: has_live_def dest: argsForSpec_pointer)
    moreover have "map_of (bump_row now (pointer_intent ts d) (qs_gens st)) k = Some r"
      using r Some Insert_row [OF ds g, of k] by (simp del: bump_row.simps)
    then have "row_ok r"
      unfolding pointer_intent_def d(2) by (rule bump_row_ok) (rule queue_invD(1) [OF assms(3)])
    ultimately show ?thesis by simp
  qed
  moreover have "distinct (map fst (qs_gens st'))"
    using assms(3) by (simp only: g distinct_bump_rows queue_inv_def)
  ultimately show ?thesis by (simp add: queue_inv_def)
qed

text \<open>What a successful completion leaves at its own key and elsewhere.\<close>

lemma completeRefresh_Inr:
  assumes "completeRefresh R hasClient now job args started st = Inr st'"
  obtains q1 where "rv_complete R job (qs_jobs st) = Inr q1"
    and "qs_gens st' = (if 0 < started
       then CompleteRefreshIntentGeneration now started (ra_kind args, ra_key args) (qs_gens st) else qs_gens st)"
    and "\<forall>r. map_of (qs_gens st) (ra_kind args, ra_key args) = Some r \<and>
       started < gr_generation r \<and> gr_completed r < gr_generation r \<longrightarrow>
       (\<exists>res. rv_insert R (jb_args job) (NewRefreshInsertOptsForQueue (jb_queue job) 0) q1 = Inr (res, qs_jobs st'))"
    and "qs_jobs st' = q1 \<or>
       (\<exists>res. rv_insert R (jb_args job) (NewRefreshInsertOptsForQueue (jb_queue job) 0) q1 = Inr (res, qs_jobs st'))"
  using assms by (auto simp: completeRefresh_def Let_def split: if_splits option.splits sum.splits)

lemma complete_inv:
  assumes c: "completeRefresh R hasClient now job (decodeArgs (jb_args job)) started st = Inr st'"
    and ok: "river_ok R" and inv: "queue_inv R st"
    and seen: "\<And>r. map_of (qs_gens st) (pointer (jb_args job)) = Some r \<Longrightarrow> started \<le> gr_generation r"
  shows "queue_inv R st'"
proof -
  let ?k = "(ra_kind (decodeArgs (jb_args job)), ra_key (decodeArgs (jb_args job)))"
  from c obtain q1 where q1: "rv_complete R job (qs_jobs st) = Inr q1"
    and g: "qs_gens st' = (if 0 < started
       then CompleteRefreshIntentGeneration now started ?k (qs_gens st) else qs_gens st)"
    and follow: "\<forall>r. map_of (qs_gens st) ?k = Some r \<and> started < gr_generation r \<and>
       gr_completed r < gr_generation r \<longrightarrow>
       (\<exists>res. rv_insert R (jb_args job) (NewRefreshInsertOptsForQueue (jb_queue job) 0) q1 = Inr (res, qs_jobs st'))"
    and q2: "qs_jobs st' = q1 \<or>
       (\<exists>res. rv_insert R (jb_args job) (NewRefreshInsertOptsForQueue (jb_queue job) 0) q1 = Inr (res, qs_jobs st'))"
    by (rule completeRefresh_Inr)
  have keep: "live R b (qs_jobs st')" if "live R b (qs_jobs st)" "b \<noteq> jb_args job" for b
    using river_complete [OF ok q1 that] q2 river_insert(1) [OF ok] by blast
  have "row_ok r' \<and> (outstanding r' \<longrightarrow> has_live R k (qs_jobs st'))" if r': "map_of (qs_gens st') k = Some r'" for k r'
  proof (cases "k = ?k")
    case False
    with r' have r: "map_of (qs_gens st) k = Some r'" by (simp add: g Complete_lookup split: if_splits)
    have "has_live R k (qs_jobs st')" if "has_live R k (qs_jobs st)"
      using that keep False by (auto simp: has_live_def pointer_def)
    with queue_invD [OF inv r] show ?thesis by blast
  next
    case True
    with r' obtain r where r: "map_of (qs_gens st) ?k = Some r"
      by (auto simp: g Complete_lookup split: if_splits)
    have rok: "row_ok r" by (rule queue_invD(1) [OF inv r])
    have r'_eq: "gr_generation r' = gr_generation r \<and>
        gr_completed r' = (if 0 < started \<and> started \<le> gr_generation r then max (gr_completed r) started else gr_completed r)"
      using r' r True by (auto simp: g Complete_lookup split: if_splits)
    have "has_live R ?k (qs_jobs st')" if "outstanding r'"
    proof (cases "started < gr_generation r \<and> gr_completed r < gr_generation r")
      case True
      with follow r river_insert(1) [OF ok] show ?thesis by (auto simp: has_live_def pointer_def)
    next
      case False
      with that r'_eq rok seen r show ?thesis
        by (auto simp: outstanding_def row_ok_def pointer_def split: if_splits)
    qed
    with rok r'_eq True show ?thesis by (auto simp: row_ok_def)
  qed
  moreover have "distinct (map fst (qs_gens st'))"
    using inv by (simp add: g queue_inv_def distinct_Complete)
  ultimately show ?thesis by (simp add: queue_inv_def)
qed

text \<open>Reconciliation changes jobs only, and only by adding.\<close>

definition key_spec :: "RefreshGenerationKey \<Rightarrow> RefreshSpec" where
  "key_spec k = \<lparr>rs_kind = fst k, rs_key = snd k, rs_scheduledAt = 0, rs_deadline = 0, rs_event = 0\<rparr>"

lemma key_spec_pointer: "argsForSpec (key_spec k) = Inr a \<Longrightarrow> pointer a = k"
  by (drule argsForSpec_pointer) (simp add: key_spec_def spec_key_def)

lemma reinsert_keeps:
  assumes "reinsertRefreshPointer R k qn st = (st', res)" and "river_ok R"
  shows "qs_gens st' = qs_gens st" and "live R b (qs_jobs st) \<Longrightarrow> live R b (qs_jobs st')"
  using assms
  by (auto simp: reinsertRefreshPointer_def river_insert(1) split: sum.splits option.splits if_splits)

lemma reinsert_outstanding:
  assumes "reinsertRefreshPointer R k qn st = (st', Inr (replaced, g))" and "river_ok R"
    and "map_of (qs_gens st) k = Some r" and "outstanding r"
  shows "\<exists>a. argsForSpec (key_spec k) = Inr a \<and> g = gr_generation r \<and> (replaced \<longleftrightarrow> \<not> live R a (qs_jobs st)) \<and>
    (\<forall>b. live R b (qs_jobs st') \<longleftrightarrow> b = a \<or> live R b (qs_jobs st))"
  using assms
  by (auto simp: reinsertRefreshPointer_def GetRefreshIntentState_def outstanding_def key_spec_def
      river_insert split: sum.splits option.splits if_splits prod.splits)

lemma reconcile_keeps:
  assumes "reconcile_loop R qn rows res st = (st', res', err)" and "river_ok R"
  shows "qs_gens st' = qs_gens st \<and> (\<forall>b. live R b (qs_jobs st) \<longrightarrow> live R b (qs_jobs st'))"
  using assms(1)
proof (induction rows arbitrary: res st)
  case (Cons kr rows)
  obtain k row where kr: "kr = (k, row)" by fastforce
  obtain st1 x where x: "reinsertRefreshPointer R k qn st = (st1, x)" by fastforce
  note keep = reinsert_keeps [OF x assms(2)]
  show ?case
  proof (cases x)
    case (Inl e)
    with Cons.prems x keep show ?thesis by (simp add: kr)
  next
    case (Inr p)
    with Cons.prems x obtain res1 where "reconcile_loop R qn rows res1 st1 = (st', res', err)"
      by (cases p) (auto simp: kr)
    from Cons.IH [OF this] keep show ?thesis by simp
  qed
qed simp

lemma Reconcile_keeps:
  assumes "ReconcileOrphanedRefreshPointers (Some R) stale limit qn st = (st', res, err)" and "river_ok R"
  shows "qs_gens st' = qs_gens st \<and> (\<forall>b. live R b (qs_jobs st) \<longrightarrow> live R b (qs_jobs st'))"
  using assms
  by (auto simp: ReconcileOrphanedRefreshPointers_def Let_def split: if_splits dest: reconcile_keeps)

lemma reconcile_inv:
  assumes "river_ok R" and "queue_inv R st"
  shows "queue_inv R (fst (ReconcileOrphanedRefreshPointers (Some R) stale limit qn st))"
proof -
  obtain st' res err where r: "ReconcileOrphanedRefreshPointers (Some R) stale limit qn st = (st', res, err)"
    by (metis prod_cases3)
  note Reconcile_keeps [OF r assms(1)]
  with assms(2) r show ?thesis by (fastforce simp: queue_inv_def has_live_def)
qed

section \<open>A concrete job table\<close>

text \<open>A job list with River's unique insert, for the examples: it satisfies \<open>river_ok\<close>.\<close>

definition lr_insert :: "JobArgs \<Rightarrow> InsertOpts \<Rightarrow> Job list \<Rightarrow> insert_result \<times> Job list" where
  "lr_insert a io q =
     (case List.find (\<lambda>j. jb_args j = a \<and> jb_state j \<in> set (io_byState io)) q of
        Some j \<Rightarrow> (\<lparr>ir_job = j, ir_skipped = True\<rparr>, q)
      | None \<Rightarrow>
          let j = \<lparr>jb_id = int (length q), jb_args = a, jb_queue = io_queue io,
                   jb_state = (if isZero (io_scheduledAt io) then Available else Scheduled),
                   jb_scheduledAt = io_scheduledAt io\<rparr>
          in (\<lparr>ir_job = j, ir_skipped = False\<rparr>, q @ [j]))"

fun lr_insert_many :: "(JobArgs \<times> InsertOpts) list \<Rightarrow> Job list \<Rightarrow> insert_result option list \<times> Job list" where
  "lr_insert_many [] q = ([], q)"
| "lr_insert_many ((a, io) # ps) q =
     (case lr_insert a io q of (r, q1) \<Rightarrow> case lr_insert_many ps q1 of (rs, q2) \<Rightarrow> (Some r # rs, q2))"

definition list_river :: "Job list River" where
  "list_river = \<lparr>rv_insert = (\<lambda>a io q. Inr (lr_insert a io q)),
     rv_insert_many = (\<lambda>ps q. Inr (lr_insert_many ps q)),
     rv_retry = (\<lambda>i q. Inr (map (\<lambda>j. if jb_id j = i \<and> jb_state j \<noteq> Running then j\<lparr>jb_state := Available\<rparr> else j) q)),
     rv_complete = (\<lambda>job q. if job \<in> set q \<and> jb_state job = Running
        then Inr (map (\<lambda>j. if j = job then j\<lparr>jb_state := Completed\<rparr> else j) q)
        else Inl (ErrText ''job must be running'')),
     rv_jobs = (\<lambda>q. q)\<rparr>"

lemma list_river_ops:
  "rv_insert list_river = (\<lambda>a io q. Inr (lr_insert a io q))"
  "rv_insert_many list_river = (\<lambda>ps q. Inr (lr_insert_many ps q))"
  "rv_retry list_river = (\<lambda>i q. Inr (map (\<lambda>j. if jb_id j = i \<and> jb_state j \<noteq> Running
     then j\<lparr>jb_state := Available\<rparr> else j) q))"
  "rv_complete list_river = (\<lambda>job q. if job \<in> set q \<and> jb_state job = Running
     then Inr (map (\<lambda>j. if j = job then j\<lparr>jb_state := Completed\<rparr> else j) q)
     else Inl (ErrText ''job must be running''))"
  "rv_jobs list_river = (\<lambda>q. q)"
  by (simp_all add: list_river_def)

lemma list_live: "live list_river a q \<longleftrightarrow> (\<exists>j \<in> set q. jb_args j = a \<and> jb_state j \<in> set active_states)"
  by (simp add: live_def list_river_def)

lemma lr_insert_live:
  assumes "lr_insert a io q = (r, q')" and "io_byState io = active_states"
  shows "(live list_river b q' \<longleftrightarrow> b = a \<or> live list_river b q) \<and> jb_args (ir_job r) = a \<and>
    (ir_skipped r \<longleftrightarrow> live list_river a q)"
proof (cases "List.find (\<lambda>j. jb_args j = a \<and> jb_state j \<in> set active_states) q")
  case None
  define j where "j = \<lparr>jb_id = int (length q), jb_args = a, jb_queue = io_queue io,
    jb_state = (if isZero (io_scheduledAt io) then Available else Scheduled), jb_scheduledAt = io_scheduledAt io\<rparr>"
  from None assms have "r = \<lparr>ir_job = j, ir_skipped = False\<rparr>" "q' = q @ [j]"
    by (simp_all add: lr_insert_def Let_def j_def)
  moreover have "jb_args j = a" "jb_state j \<in> set active_states" by (simp_all add: j_def active_states_def)
  ultimately show ?thesis using None by (auto simp: list_live find_None_iff)
next
  case (Some j)
  with assms have "r = \<lparr>ir_job = j, ir_skipped = True\<rparr>" "q' = q" by (simp_all add: lr_insert_def)
  moreover from Some have "j \<in> set q" "jb_args j = a" "jb_state j \<in> set active_states"
    by (auto simp: find_Some_iff)
  ultimately show ?thesis by (auto simp: list_live)
qed

lemma lr_insert_many_live:
  "lr_insert_many ps q = (rs, q') \<Longrightarrow> (\<forall>(a, io) \<in> set ps. io_byArgs io \<and> io_byState io = active_states) \<Longrightarrow>
   (\<forall>(a, io) \<in> set ps. live list_river a q') \<and> (\<forall>b. live list_river b q \<longrightarrow> live list_river b q')"
proof (induction ps arbitrary: q rs)
  case (Cons p ps)
  obtain a io where p: "p = (a, io)" by fastforce
  obtain r q1 where r: "lr_insert a io q = (r, q1)" by fastforce
  obtain rs' q2 where rs: "lr_insert_many ps q1 = (rs', q2)" by fastforce
  from Cons.prems p r rs have q2: "q2 = q'" by simp
  have io: "io_byState io = active_states" using Cons.prems p by simp
  note one = lr_insert_live [OF r io]
  have "(\<forall>(a, io) \<in> set ps. live list_river a q') \<and> (\<forall>b. live list_river b q1 \<longrightarrow> live list_river b q')"
    using Cons.IH [OF rs [unfolded q2]] Cons.prems by simp
  then show ?case using one p by (auto simp: split_beta)
qed simp

lemma list_live_map:
  assumes "live list_river b q"
    and "\<And>j. jb_args j = b \<Longrightarrow> jb_state j \<in> set active_states \<Longrightarrow>
      jb_args (f j) = b \<and> jb_state (f j) \<in> set active_states"
  shows "live list_river b (map f q)"
  using assms by (auto simp: list_live)

lemma list_river_ok: "river_ok list_river"
  unfolding river_ok_def
proof (intro conjI)
  show "\<forall>a io q r q'. rv_insert list_river a io q = Inr (r, q') \<and> io_byArgs io \<and> io_byState io = active_states \<longrightarrow>
      (\<forall>b. live list_river b q' \<longleftrightarrow> b = a \<or> live list_river b q) \<and> jb_args (ir_job r) = a \<and>
      (ir_skipped r \<longleftrightarrow> live list_river a q)"
    using lr_insert_live unfolding list_river_ops sum.inject by blast
  show "\<forall>ps q rs q'. rv_insert_many list_river ps q = Inr (rs, q') \<and>
      (\<forall>(a, io) \<in> set ps. io_byArgs io \<and> io_byState io = active_states) \<longrightarrow>
      (\<forall>(a, io) \<in> set ps. live list_river a q') \<and> (\<forall>b. live list_river b q \<longrightarrow> live list_river b q')"
    using lr_insert_many_live unfolding list_river_ops sum.inject by blast
  show "\<forall>i q q'. rv_retry list_river i q = Inr q' \<longrightarrow> (\<forall>b. live list_river b q \<longrightarrow> live list_river b q')"
    by (auto simp: list_river_ops active_states_def intro!: list_live_map)
  show "\<forall>j q q'. rv_complete list_river j q = Inr q' \<longrightarrow>
      (\<forall>b. live list_river b q \<and> b \<noteq> jb_args j \<longrightarrow> live list_river b q')"
    by (auto simp: list_river_ops intro!: list_live_map split: if_splits)
qed

section \<open>The invariant of the system\<close>

definition sys_inv :: "'q River \<Rightarrow> 'q qsys \<Rightarrow> bool" where
  "sys_inv R s \<longleftrightarrow> queue_inv R (sy_state s) \<and>
     (\<forall>(job, started) \<in> set (sy_runs s). started = 0 \<or>
        (\<exists>r. map_of (qs_gens (sy_state s)) (pointer (jb_args job)) = Some r \<and> started \<le> gr_generation r))"

text \<open>Generations only grow and rows never disappear.\<close>

definition grows :: "generations \<Rightarrow> generations \<Rightarrow> bool" where
  "grows t t' \<longleftrightarrow> (\<forall>k r. map_of t k = Some r \<longrightarrow> (\<exists>r'. map_of t' k = Some r' \<and>
     gr_generation r \<le> gr_generation r' \<and> gr_completed r \<le> gr_completed r'))"

lemma grows_refl: "grows t t" by (simp add: grows_def)

lemma Insert_grows:
  assumes "InsertRefreshesTxReturning ts lock now ev (Some R) specs qn st = Inr (res, st')" and "river_ok R"
  shows "grows (qs_gens st) (qs_gens st')"
proof (cases "specs = []")
  case True
  with assms show ?thesis by (simp add: InsertRefreshesTxReturning_def grows_refl)
next
  case False
  from assms(1) this assms(2) obtain ds where ds: "dedup_sorted ev specs = Inr ds"
    and g: "qs_gens st' = fold (bump_row now) (map (pointer_intent ts) ds) (qs_gens st)"
    and "\<forall>b. live R b (qs_jobs st) \<longrightarrow> live R b (qs_jobs st')"
    and "\<forall>d \<in> set ds. \<exists>a. argsForSpec d = Inr a \<and> live R a (qs_jobs st')"
    and "res = map (\<lambda>s. (s, case map_of (qs_gens st') (spec_key s) of None \<Rightarrow> 0 | Some r \<Rightarrow> gr_generation r)) ds"
    by (rule Insert_effect)
  show ?thesis
    unfolding grows_def Insert_row [OF ds g]
    by (auto simp: pointer_intent_def bump_row_lookup simp del: bump_row.simps split: option.split)
qed

lemma complete_grows:
  "completeRefresh R hasClient now job args started st = Inr st' \<Longrightarrow> grows (qs_gens st) (qs_gens st')"
  by (erule completeRefresh_Inr) (auto simp: grows_def Complete_lookup)

lemma sys_inv_grows:
  assumes "sys_inv R s" and "queue_inv R st'" and "grows (qs_gens (sy_state s)) (qs_gens st')"
    and "set runs \<subseteq> set (sy_runs s)"
  shows "sys_inv R \<lparr>sy_state = st', sy_runs = runs\<rparr>"
proof -
  have "started = 0 \<or> (\<exists>r. map_of (qs_gens st') (pointer (jb_args job)) = Some r \<and> started \<le> gr_generation r)"
    if "(job, started) \<in> set runs" for job started
  proof (cases "started = 0")
    case False
    with that assms(1,4) obtain r where r: "map_of (qs_gens (sy_state s)) (pointer (jb_args job)) = Some r"
      "started \<le> gr_generation r" unfolding sys_inv_def by blast
    from assms(3) r(1) obtain r' where "map_of (qs_gens st') (pointer (jb_args job)) = Some r'"
      "gr_generation r \<le> gr_generation r'" unfolding grows_def by blast
    with r(2) show ?thesis by force
  qed simp
  with assms(2) show ?thesis unfolding sys_inv_def by auto
qed

lemma queue_step_inv:
  assumes "queue_step R s s'" and "river_ok R" and "sys_inv R s"
  shows "sys_inv R s'"
  using assms(1)
proof cases
  case (produce ts lock now ev specs qn res st')
  from assms(3) have "queue_inv R (sy_state s)" by (simp add: sys_inv_def)
  from sys_inv_grows [OF assms(3) Insert_inv [OF produce(2) assms(2) this] Insert_grows [OF produce(2) assms(2)], of "sy_runs s"]
  show ?thesis by (simp add: produce(1) sys_inv_def)
next
  case (start job)
  with assms(3) show ?thesis
    by (auto simp: sys_inv_def snapshot_generation_def GetRefreshIntentState_def split: option.splits)
next
  case (finish job started hasClient now st')
  from assms(3) have inv: "queue_inv R (sy_state s)" by (simp add: sys_inv_def)
  have "started \<le> gr_generation r" if "map_of (qs_gens (sy_state s)) (pointer (jb_args job)) = Some r" for r
    using assms(3) finish(2) that queue_invD(1) [OF inv that] by (fastforce simp: sys_inv_def row_ok_def)
  from sys_inv_grows [OF assms(3) complete_inv [OF finish(3) assms(2) inv this] complete_grows [OF finish(3)]]
  show ?thesis by (simp add: finish(1) set_remove1_subset)
next
  case (give_up run)
  with sys_inv_grows [OF assms(3) _ grows_refl, of "remove1 run (sy_runs s)"] assms(3) set_remove1_subset [of run "sy_runs s"]
  show ?thesis by (simp add: sys_inv_def)
next
  case (reconcile stale limit qn)
  from assms(3) have inv: "queue_inv R (sy_state s)" by (simp add: sys_inv_def)
  have "qs_gens (fst (ReconcileOrphanedRefreshPointers (Some R) stale limit qn (sy_state s))) = qs_gens (sy_state s)"
    using Reconcile_keeps [OF _ assms(2)] by (metis prod.collapse)
  with assms(3) reconcile_inv [OF assms(2) inv] show ?thesis by (simp add: reconcile sys_inv_def)
next
  case (river q)
  have inv: "queue_inv R (sy_state s)" using assms(3) by (simp add: sys_inv_def)
  then have "queue_inv R ((sy_state s)\<lparr>qs_jobs := q\<rparr>)"
    using has_live_mono [of R _ "qs_jobs (sy_state s)" q] river(2) by (simp add: queue_inv_def)
  with assms(3) show ?thesis by (simp add: river(1) sys_inv_def)
qed

lemma reachable_sys_inv:
  "(queue_step R)\<^sup>*\<^sup>* s0 s \<Longrightarrow> river_ok R \<Longrightarrow> sys_inv R s0 \<Longrightarrow> sys_inv R s"
  by (induction rule: rtranclp_induct) (auto intro: queue_step_inv)


definition demo_queue :: "Job list qsys" where
  "demo_queue = \<lparr>sy_state = \<lparr>qs_gens = [], qs_jobs = []\<rparr>, sy_runs = []\<rparr>"

definition demo_produced :: "Job list qsys" where
  "demo_produced = \<lparr>sy_state = \<lparr>qs_gens = [((KindRefreshPR, ''a''),
       \<lparr>gr_generation = 1, gr_completed = 0, gr_deadline = Some 5, gr_event = Some 3, gr_updated = 10\<rparr>)],
     qs_jobs = [\<lparr>jb_id = 0, jb_args = NewRefreshPRArgs ''a'', jb_queue = QueueEvent, jb_state = Scheduled,
       jb_scheduledAt = 9\<rparr>]\<rparr>, sy_runs = []\<rparr>"

lemma demo_insert:
  "InsertRefreshesTxReturning id (\<lambda>_. None) 10 3 (Some list_river) [demo_spec ''a'' 9 5] QueueEvent (sy_state demo_queue) =
   Inr ([((demo_spec ''a'' 9 5)\<lparr>rs_event := 3\<rparr>, 1)], sy_state demo_produced)"
  by (simp add: InsertRefreshesTxReturning_def demo_queue_def demo_produced_def demo_spec_def dedup_sorted_def
      default_event_def BumpRefreshIntentGenerations_def pointer_intent_def spec_key_def argsForSpec_def
      NewRefreshInsertOptsForQueue_def list_river_ops lr_insert_def active_states_def Let_def)


text \<open>C8: a run completes exactly the generation it saw when it started. When a signal arrived
  meanwhile, the key stays outstanding and a follow-up job is live; when none did, the key is
  complete and its deadline and receipt time are cleared.\<close>

theorem run_completes_what_it_saw:
  assumes "river_ok R" and "runRefresh R hasClient m clock (Some work) job (decodeArgs (jb_args job)) st = res"
    and "rr_err res = None"
    and "map_of (qs_gens st) (pointer (jb_args job)) = Some r0" and "0 < gr_generation r0"
    and "work fence ctx (decodeArgs (jb_args job)) st = (st1, ctx1, None)"
    and "fence = Some \<lparr>fe_kind = fst (pointer (jb_args job)), fe_key = snd (pointer (jb_args job)),
           fe_generation = gr_generation r0\<rparr>"
    and "ctx = WithEvent (case gr_event r0 of None \<Rightarrow> 0 | Some t \<Rightarrow> t) None"
    and "map_of (qs_gens st1) (pointer (jb_args job)) = Some r1" and "gr_generation r0 \<le> gr_generation r1"
  shows "\<exists>r2. map_of (qs_gens (rr_state res)) (pointer (jb_args job)) = Some r2 \<and>
    gr_generation r2 = gr_generation r1 \<and> gr_completed r2 = max (gr_completed r1) (gr_generation r0) \<and>
    (gr_generation r0 < gr_generation r1 \<and> gr_completed r1 < gr_generation r1 \<longrightarrow>
       outstanding r2 \<and> live R (jb_args job) (qs_jobs (rr_state res))) \<and>
    (gr_generation r0 = gr_generation r1 \<longrightarrow> \<not> outstanding r2 \<and> gr_deadline r2 = None \<and> gr_event r2 = None)"
proof -
  let ?a = "decodeArgs (jb_args job)"
  have p: "pointer (jb_args job) = (ra_kind ?a, ra_key ?a)" by (simp add: pointer_def)
  from assms(2-8) obtain st2 where c: "completeRefresh R hasClient (rc_tx clock) job ?a (gr_generation r0) st1 = Inr st2"
    and st2: "rr_state res = st2"
    by (auto simp: runRefresh_def GetRefreshIntentState_def p Let_def split: sum.splits)
  from c obtain q1 where "rv_complete R job (qs_jobs st1) = Inr q1"
    and g: "qs_gens st2 = (if 0 < gr_generation r0
       then CompleteRefreshIntentGeneration (rc_tx clock) (gr_generation r0) (ra_kind ?a, ra_key ?a) (qs_gens st1) else qs_gens st1)"
    and follow: "\<forall>r. map_of (qs_gens st1) (ra_kind ?a, ra_key ?a) = Some r \<and>
       gr_generation r0 < gr_generation r \<and> gr_completed r < gr_generation r \<longrightarrow>
       (\<exists>res. rv_insert R (jb_args job) (NewRefreshInsertOptsForQueue (jb_queue job) 0) q1 = Inr (res, qs_jobs st2))"
    and "qs_jobs st2 = q1 \<or>
       (\<exists>res. rv_insert R (jb_args job) (NewRefreshInsertOptsForQueue (jb_queue job) 0) q1 = Inr (res, qs_jobs st2))"
    by (rule completeRefresh_Inr)
  have "live R (jb_args job) (qs_jobs st2)"
    if "gr_generation r0 < gr_generation r1" "gr_completed r1 < gr_generation r1"
    using follow assms(9) p that river_insert(1) [OF assms(1)] by auto
  then show ?thesis
    using assms(5,9,10) by (auto simp: st2 g p Complete_lookup outstanding_def)
qed

definition demo_job :: Job where
  "demo_job = \<lparr>jb_id = 0, jb_args = NewRefreshPRArgs ''a'', jb_queue = QueueEvent, jb_state = Running,
     jb_scheduledAt = 9\<rparr>"

definition demo_running :: "Job list qstate" where
  "demo_running = \<lparr>qs_gens = qs_gens (sy_state demo_produced), qs_jobs = [demo_job]\<rparr>"

text \<open>A signal for the same key commits while the refresh works.\<close>

definition demo_work :: "Job list refreshWork" where
  "demo_work fence ctx args st =
     (case InsertRefreshesTxReturning id (\<lambda>_. None) 11 4 (Some list_river) [demo_spec ''a'' 9 0] QueueEvent st of
        Inl e \<Rightarrow> (st, ctx, Some e)
      | Inr (_, st') \<Rightarrow> (st', ctx, None))"

definition demo_row2 :: generation_row where
  "demo_row2 = \<lparr>gr_generation = 2, gr_completed = 0, gr_deadline = Some 5, gr_event = Some 3, gr_updated = 11\<rparr>"

lemma demo_work_result:
  "demo_work fence ctx args demo_running =
     (\<lparr>qs_gens = [((KindRefreshPR, ''a''), demo_row2)], qs_jobs = [demo_job]\<rparr>, ctx, None)"
  by (simp add: demo_work_def demo_running_def demo_row2_def demo_job_def InsertRefreshesTxReturning_def demo_produced_def
      demo_spec_def dedup_sorted_def default_event_def BumpRefreshIntentGenerations_def pointer_intent_def spec_key_def
      argsForSpec_def NewRefreshInsertOptsForQueue_def list_river_ops lr_insert_def active_states_def
      pointer_def NewRefreshPRArgs_def)

definition demo_monitor :: refreshDeadlineMonitor where
  "demo_monitor = \<lparr>mo_deadlineObserver = True, mo_refreshObserver = True\<rparr>"

definition demo_clock :: run_clock where
  "demo_clock = \<lparr>rc_startedAt = 10, rc_completedAt = 12, rc_tx = 12\<rparr>"

lemma demo_pointer: "pointer (jb_args demo_job) = (KindRefreshPR, ''a'')"
  "decodeArgs (jb_args demo_job) = \<lparr>ra_kind = KindRefreshPR, ra_key = ''a'', ra_observe = False\<rparr>"
  by (simp_all add: demo_job_def pointer_def NewRefreshPRArgs_def)

theorem run_completes_what_it_saw_witness:
  "live list_river (jb_args demo_job) (qs_jobs (rr_state
     (runRefresh list_river True demo_monitor demo_clock (Some demo_work) demo_job (decodeArgs (jb_args demo_job)) demo_running)))"
proof -
  let ?res = "runRefresh list_river True demo_monitor demo_clock (Some demo_work) demo_job (decodeArgs (jb_args demo_job)) demo_running"
  let ?r0 = "\<lparr>gr_generation = 1, gr_completed = 0, gr_deadline = Some 5, gr_event = Some 3, gr_updated = 10\<rparr>"
  have r0: "map_of (qs_gens demo_running) (pointer (jb_args demo_job)) = Some ?r0"
    by (simp add: demo_pointer demo_running_def demo_produced_def)
  have err: "rr_err ?res = None"
    by (simp add: runRefresh_def demo_work_result GetRefreshIntentState_def r0 [unfolded demo_pointer] demo_pointer
        completeRefresh_def demo_row2_def list_river_ops)
       (simp add: demo_job_def Let_def split: prod.split)
  show ?thesis
    using run_completes_what_it_saw [OF list_river_ok refl err r0 _ demo_work_result refl refl, of demo_row2]
    by (auto simp: demo_pointer demo_row2_def)
qed

section \<open>One bump per key\<close>

text \<open>a committed batch bumps the generation of each of its keys exactly once, however often the
  batch names the key, leaves every other row alone, returns the new generations, keeps the earliest
  deadline, and leaves a live job for each key.\<close>

theorem batch_bumps_once:
  assumes "river_ok R" and "specs \<noteq> []"
    and "InsertRefreshesTxReturning ts lock now ev (Some R) specs qn st = Inr (res, st')"
  shows "map (spec_key \<circ> fst) res = sorted_list_of_set (spec_key ` set specs) \<and>
    (\<forall>k. k \<notin> spec_key ` set specs \<longrightarrow> map_of (qs_gens st') k = map_of (qs_gens st) k) \<and>
    (\<forall>(s, g) \<in> set res.
       g = (case map_of (qs_gens st) (spec_key s) of None \<Rightarrow> 1 | Some r \<Rightarrow> gr_generation r + 1) \<and>
       (\<exists>r'. map_of (qs_gens st') (spec_key s) = Some r' \<and> gr_generation r' = g \<and>
          gr_completed r' = (case map_of (qs_gens st) (spec_key s) of None \<Rightarrow> 0 | Some r \<Rightarrow> gr_completed r) \<and>
          gr_deadline r' = opt_earliest (case map_of (qs_gens st) (spec_key s) of None \<Rightarrow> None | Some r \<Rightarrow> gr_deadline r)
            (if rs_deadline s = 0 then None else Some (ts (rs_deadline s)))) \<and>
       has_live R (spec_key s) (qs_jobs st'))"
proof -
  from assms(3,2,1) obtain ds where ds: "dedup_sorted ev specs = Inr ds"
    and g: "qs_gens st' = fold (bump_row now) (map (pointer_intent ts) ds) (qs_gens st)"
    and "\<forall>b. live R b (qs_jobs st) \<longrightarrow> live R b (qs_jobs st')"
    and lv: "\<forall>d \<in> set ds. \<exists>a. argsForSpec d = Inr a \<and> live R a (qs_jobs st')"
    and res: "res = map (\<lambda>s. (s, case map_of (qs_gens st') (spec_key s) of None \<Rightarrow> 0 | Some r \<Rightarrow> gr_generation r)) ds"
    by (rule Insert_effect)
  from ds obtain ds0 where d0: "ds = sort_key spec_key ds0" "distinct (map spec_key ds0)"
    "spec_key ` set ds0 = spec_key ` set specs" by (rule dedup_sorted_Inr)
  have dist: "distinct (map spec_key ds)" using d0 by (simp add: distinct_map)
  have keys: "map spec_key ds = sorted_list_of_set (spec_key ` set specs)"
    by (rule sorted_list_of_set.idem_if_sorted_distinct [symmetric, THEN trans])
       (use d0 dist in simp_all)
  have found: "List.find (\<lambda>d. spec_key d = spec_key s) ds = Some s" if "s \<in> set ds" for s
    using entry_iff [OF dist, of s] that by (simp add: entry_def)
  have row: "map_of (qs_gens st') (spec_key s) = map_of (bump_row now (pointer_intent ts s) (qs_gens st)) (spec_key s)"
    if "s \<in> set ds" for s
    using Insert_row [OF ds g, of "spec_key s"] found [OF that] by simp
  have other: "map_of (qs_gens st') k = map_of (qs_gens st) k" if "k \<notin> spec_key ` set specs" for k
  proof -
    have "List.find (\<lambda>d. spec_key d = k) ds = None" using that d0 by (auto simp: find_None_iff)
    with Insert_row [OF ds g, of k] show ?thesis by simp
  qed
  have live: "has_live R (spec_key s) (qs_jobs st')" if "s \<in> set ds" for s
    using bspec [OF lv that] by (auto simp: has_live_def dest: argsForSpec_pointer)
  show ?thesis
    using keys other live
    by (auto simp: res row comp_def pointer_intent_def bump_row_lookup simp del: bump_row.simps split: option.split)
qed

theorem batch_bumps_once_witness:
  "map_of (qs_gens (sy_state demo_produced)) (KindRefreshPR, ''b'') = map_of (qs_gens (sy_state demo_queue)) (KindRefreshPR, ''b'')"
  using batch_bumps_once [OF list_river_ok _ demo_insert]
  by (simp add: demo_spec_def spec_key_def kind_defs)

section \<open>Orphans\<close>

definition orphaned :: "'q River \<Rightarrow> 'q \<Rightarrow> RefreshGenerationKey \<Rightarrow> bool" where
  "orphaned R q k \<longleftrightarrow> (\<exists>a. argsForSpec (key_spec k) = Inr a \<and> \<not> live R a q)"

lemma orphaned_insert:
  assumes "argsForSpec (key_spec k) = Inr a" and "\<forall>b. live R b q' \<longleftrightarrow> b = a \<or> live R b q" and "k' \<noteq> k"
  shows "orphaned R q' k' \<longleftrightarrow> orphaned R q k'"
  using assms by (auto simp: orphaned_def dest: key_spec_pointer)

lemma reconcile_loop_spec:
  assumes "reconcile_loop R qn rows res st = (st', res', None)" and "river_ok R" and "distinct (map fst rows)"
    and "\<And>k r. (k, r) \<in> set rows \<Longrightarrow> map_of (qs_gens st) k = Some r \<and> outstanding r \<and> row_ok r"
  shows "oc_scanned res' = oc_scanned res \<and>
    oc_delayed res' + length (oc_orphans res') = oc_delayed res + length (oc_orphans res) + length rows \<and>
    map (\<lambda>x. ((or_kind x, or_key x), or_generation x)) (oc_orphans res') =
      map (\<lambda>x. ((or_kind x, or_key x), or_generation x)) (oc_orphans res) @
      map (\<lambda>(k, r). (k, gr_generation r)) (filter (\<lambda>(k, r). orphaned R (qs_jobs st) k) rows) \<and>
    (\<forall>(k, r) \<in> set rows. has_live R k (qs_jobs st'))"
  using assms(1,3,4)
proof (induction rows arbitrary: res st)
  case (Cons kr rows)
  obtain k r where kr: "kr = (k, r)" by fastforce
  have row: "map_of (qs_gens st) k = Some r" "outstanding r" "row_ok r"
    using Cons.prems(3) [of k r] by (simp_all add: kr)
  obtain st1 x where x: "reinsertRefreshPointer R k qn st = (st1, x)" by fastforce
  with Cons.prems(1) obtain replaced g where xg: "x = Inr (replaced, g)" by (cases x) (auto simp: kr)
  from reinsert_outstanding [OF x [unfolded xg] assms(2) row(1,2)] obtain a where
    a: "argsForSpec (key_spec k) = Inr a" "g = gr_generation r" "replaced \<longleftrightarrow> \<not> live R a (qs_jobs st)"
    "\<forall>b. live R b (qs_jobs st1) \<longleftrightarrow> b = a \<or> live R b (qs_jobs st)" by blast
  note gens = reinsert_keeps(1) [OF x assms(2)]
  have g0: "g \<noteq> 0" using row(3) a(2) by (simp add: row_ok_def)
  define res1 where "res1 = (if \<not> replaced then res\<lparr>oc_delayed := oc_delayed res + 1\<rparr>
     else res\<lparr>oc_orphans := oc_orphans res @ [\<lparr>or_kind = fst k, or_key = snd k,
        or_generation = g, or_terminalState = latestTerminalPointerState R k (qs_jobs st1)\<rparr>]\<rparr>)"
  have loop: "reconcile_loop R qn rows res1 st1 = (st', res', None)"
    using Cons.prems(1) g0 by (simp add: kr x xg res1_def)
  have same: "filter (\<lambda>(k, r). orphaned R (qs_jobs st1) k) rows = filter (\<lambda>(k, r). orphaned R (qs_jobs st) k) rows"
    using Cons.prems(2) orphaned_insert [OF a(1,4)] by (intro filter_cong) (force simp: kr)+
  have dead: "replaced \<longleftrightarrow> orphaned R (qs_jobs st) k" using a(1,3) by (simp add: orphaned_def)
  have "live R a (qs_jobs st')" using reconcile_keeps [OF loop assms(2)] a(4) by blast
  then have lv: "has_live R k (qs_jobs st')" using key_spec_pointer [OF a(1)] by (auto simp: has_live_def)
  have "distinct (map fst rows)" using Cons.prems(2) by simp
  note IH = Cons.IH [OF loop this] 
  have "oc_scanned res' = oc_scanned res1 \<and>
    oc_delayed res' + length (oc_orphans res') = oc_delayed res1 + length (oc_orphans res1) + length rows \<and>
    map (\<lambda>x. ((or_kind x, or_key x), or_generation x)) (oc_orphans res') =
      map (\<lambda>x. ((or_kind x, or_key x), or_generation x)) (oc_orphans res1) @
      map (\<lambda>(k, r). (k, gr_generation r)) (filter (\<lambda>(k, r). orphaned R (qs_jobs st1) k) rows) \<and>
    (\<forall>(k, r) \<in> set rows. has_live R k (qs_jobs st'))"
    by (rule IH) (use Cons.prems(3) gens in force)
  then show ?case using dead lv a(2) by (simp add: kr res1_def same split: if_splits)
qed simp

lemma list_outstanding_rows:
  assumes "(k, r) \<in> set (ListOutstandingRefreshIntentGenerations stale n t)" and "distinct (map fst t)"
  shows "map_of t k = Some r" and "outstanding r"
  using assms in_set_takeD [of "(k, r)" n]
  by (fastforce simp: ListOutstandingRefreshIntentGenerations_def)+

lemma list_outstanding_distinct:
  "distinct (map fst t) \<Longrightarrow> distinct (map fst (ListOutstandingRefreshIntentGenerations stale n t))"
proof -
  assume "distinct (map fst t)"
  then have "inj_on fst (set t)" "distinct t" by (simp_all add: distinct_map)
  then have "distinct (map fst (sort_key (\<lambda>(k, r). (gr_updated r, k)) (filter (\<lambda>(k, r). outstanding r \<and> gr_updated r \<le> stale) t)))"
    by (auto simp: distinct_map intro: inj_on_subset)
  then show ?thesis
    unfolding ListOutstandingRefreshIntentGenerations_def take_map [symmetric] by (rule distinct_take)
qed

text \<open>A reconciliation pass that succeeds completes nothing, counts every row it scanned as
  delayed or orphaned, reports as orphans exactly the scanned keys that had no live pointer, and
  leaves a live job for every key it scanned; when the batch limit covers the stale outstanding
  rows, that is all of them.\<close>

theorem reconcile_restores_pointers:
  assumes "river_ok R" and "distinct (map fst (qs_gens st))" and "\<forall>(k, r) \<in> set (qs_gens st). row_ok r"
    and "ReconcileOrphanedRefreshPointers (Some R) stale limit qn st = (st', res, None)"
  defines "rows \<equiv> ListOutstandingRefreshIntentGenerations stale (nat limit) (qs_gens st)"
  shows "qs_gens st' = qs_gens st \<and> oc_scanned res = length rows \<and>
    oc_scanned res = oc_delayed res + length (oc_orphans res) \<and>
    map (\<lambda>x. ((or_kind x, or_key x), or_generation x)) (oc_orphans res) =
      map (\<lambda>(k, r). (k, gr_generation r)) (filter (\<lambda>(k, r). orphaned R (qs_jobs st) k) rows) \<and>
    (\<forall>(k, r) \<in> set rows. has_live R k (qs_jobs st')) \<and>
    (length (qs_gens st) \<le> nat limit \<longrightarrow>
      (\<forall>k r. map_of (qs_gens st) k = Some r \<longrightarrow> outstanding r \<longrightarrow> gr_updated r \<le> stale \<longrightarrow> has_live R k (qs_jobs st')))"
proof -
  from assms(4) have loop: "reconcile_loop R qn rows \<lparr>oc_scanned = length rows, oc_delayed = 0, oc_orphans = []\<rparr> st = (st', res, None)"
    by (auto simp: ReconcileOrphanedRefreshPointers_def Let_def rows_def split: if_splits)
  have ok: "map_of (qs_gens st) k = Some r \<and> outstanding r \<and> row_ok r" if "(k, r) \<in> set rows" for k r
    using list_outstanding_rows [OF that [unfolded rows_def] assms(2)] assms(3)
    by (auto dest: map_of_SomeD)
  have dist: "distinct (map fst rows)" unfolding rows_def by (rule list_outstanding_distinct [OF assms(2)])
  note spec = reconcile_loop_spec [OF loop assms(1) dist ok]
  have all: "(k, r) \<in> set rows"
    if "length (qs_gens st) \<le> nat limit" "map_of (qs_gens st) k = Some r" "outstanding r" "gr_updated r \<le> stale" for k r
  proof -
    have "length (filter (\<lambda>(k, r). outstanding r \<and> gr_updated r \<le> stale) (qs_gens st)) \<le> nat limit"
      using that(1) length_filter_le le_trans by blast
    with that show ?thesis
      by (auto simp: rows_def ListOutstandingRefreshIntentGenerations_def dest: map_of_SomeD)
  qed
  from spec reconcile_keeps [OF loop assms(1)] all show ?thesis by force
qed

definition demo_orphaned :: "Job list qstate" where
  "demo_orphaned = \<lparr>qs_gens = qs_gens (sy_state demo_produced), qs_jobs = [demo_job\<lparr>jb_state := Discarded\<rparr>]\<rparr>"

theorem reconcile_restores_pointers_witness:
  "\<exists>st' res. ReconcileOrphanedRefreshPointers (Some list_river) 20 10 QueueEvent demo_orphaned = (st', res, None) \<and>
     oc_orphans res = [\<lparr>or_kind = KindRefreshPR, or_key = ''a'', or_generation = 1, or_terminalState = ''discarded''\<rparr>] \<and>
     has_live list_river (KindRefreshPR, ''a'') (qs_jobs st')"
proof -
  obtain st' res where r: "ReconcileOrphanedRefreshPointers (Some list_river) 20 10 QueueEvent demo_orphaned = (st', res, None)"
    and o: "oc_orphans res = [\<lparr>or_kind = KindRefreshPR, or_key = ''a'', or_generation = 1, or_terminalState = ''discarded''\<rparr>]"
    by (simp add: ReconcileOrphanedRefreshPointers_def demo_orphaned_def demo_produced_def demo_job_def
        ListOutstandingRefreshIntentGenerations_def outstanding_def reinsertRefreshPointer_def GetRefreshIntentState_def
        argsForSpec_def list_river_ops lr_insert_def NewRefreshInsertOptsForQueue_def active_states_def Let_def
        latestTerminalPointerState_def NewRefreshPRArgs_def)
  have "has_live list_river (KindRefreshPR, ''a'') (qs_jobs st')"
    using reconcile_restores_pointers [OF list_river_ok _ _ r]
    by (simp add: demo_orphaned_def demo_produced_def row_ok_def outstanding_def)
  with r o show ?thesis by blast
qed

section \<open>Generation locks\<close>

lemma try_advisory_owned:
  "try_advisory hash tx ks L = (L', ok, n) \<Longrightarrow>
   lk_rows L' = lk_rows L \<and> (\<forall>h. lk_advisory L h = Some tx \<longrightarrow> lk_advisory L' h = Some tx) \<and>
   (\<forall>h w. lk_advisory L h = Some w \<and> w \<noteq> tx \<longrightarrow> lk_advisory L' h = Some w) \<and>
   (ok \<longrightarrow> (\<forall>k \<in> set ks. lk_advisory L' (hash k) = Some tx))"
proof (induction ks arbitrary: L L' n)
  case (Cons k ks)
  show ?case
  proof (cases "lk_advisory L (hash k) \<noteq> None \<and> lk_advisory L (hash k) \<noteq> Some tx")
    case True
    with Cons.prems show ?thesis by auto
  next
    case False
    let ?L = "L\<lparr>lk_advisory := (lk_advisory L)(hash k \<mapsto> tx)\<rparr>"
    from False Cons.prems obtain n' where "try_advisory hash tx ks ?L = (L', ok, n')"
      by (auto split: prod.splits)
    note IH = Cons.IH [OF this]
    have other: "lk_advisory L' h = Some w" if "lk_advisory L h = Some w" "w \<noteq> tx" for h w
      using IH False that by (cases "h = hash k") auto
    have "lk_advisory L' h = Some tx" if "lk_advisory L h = Some tx \<or> h = hash k" for h
      using IH that by auto
    with IH other show ?thesis by simp
  qed
qed simp

lemma try_advisory_free:
  "(\<And>k. k \<in> set ks \<Longrightarrow> lk_advisory L (hash k) \<in> {None, Some tx}) \<Longrightarrow> \<exists>L' n. try_advisory hash tx ks L = (L', True, n)"
proof (induction ks arbitrary: L)
  case (Cons k ks)
  let ?L = "L\<lparr>lk_advisory := (lk_advisory L)(hash k \<mapsto> tx)\<rparr>"
  have "\<exists>L' n. try_advisory hash tx ks ?L = (L', True, n)" by (rule Cons.IH) (use Cons.prems in auto)
  then show ?case using Cons.prems [of k] by auto
qed simp

lemma filter_all_length: "length (filter P xs) = length xs \<longleftrightarrow> (\<forall>x \<in> set xs. P x)"
  by (metis filter_id_conv length_filter_less less_irrefl)

lemma try_lock_spec:
  assumes "TryLockRefreshIntentGenerationsTx hash tx t keys L = (L', err)"
  shows "(err = None \<longrightarrow> (\<forall>k \<in> set keys. lk_advisory L' (hash k) = Some tx \<and>
      (map_of t k \<noteq> None \<longrightarrow> lk_rows L' k = Some tx))) \<and>
    (\<forall>h w. lk_advisory L h = Some w \<and> w \<noteq> tx \<longrightarrow> lk_advisory L' h = Some w) \<and>
    (\<forall>k w. lk_rows L k = Some w \<and> w \<noteq> tx \<longrightarrow> lk_rows L' k = Some w) \<and>
    (\<forall>e. err = Some e \<longrightarrow> errors_is e ErrRefreshGenerationContention)"
proof -
  obtain L1 ok n where a: "try_advisory hash tx (remdups (sort keys)) L = (L1, ok, n)" by (metis prod_cases3)
  note adv = try_advisory_owned [OF a]
  from assms a adv show ?thesis
    by (auto simp: TryLockRefreshIntentGenerationsTx_def try_rows_def Let_def filter_all_length split: if_splits)
qed

text \<open>Generation locks are all-or-nothing and the waiting loop ends: once an attempt finds none of
  the batch's locks held by another transaction, the loop has returned without error, the
  transaction owns the advisory lock of every key of the batch and the row lock of every key that
  has a row, and no lock of another transaction was taken away.\<close>

theorem generation_locks_all_or_nothing:
  assumes "\<forall>k \<in> set keys. lk_advisory (env n) (hash k) \<in> {None, Some tx} \<and> lk_rows (env n) k \<in> {None, Some tx}"
    and "\<forall>i < n. cancelled i = None"
  shows "\<exists>i L. LockRefreshIntentGenerationsTx (Suc n) hash tx t keys env cancelled = Some (L, None) \<and> i \<le> n \<and>
    (\<forall>k \<in> set keys. lk_advisory L (hash k) = Some tx \<and> (map_of t k \<noteq> None \<longrightarrow> lk_rows L k = Some tx)) \<and>
    (\<forall>h w. lk_advisory (env i) h = Some w \<and> w \<noteq> tx \<longrightarrow> lk_advisory L h = Some w) \<and>
    (\<forall>k w. lk_rows (env i) k = Some w \<and> w \<noteq> tx \<longrightarrow> lk_rows L k = Some w)"
proof -
  have free: "snd (TryLockRefreshIntentGenerationsTx hash tx t keys (env n)) = None"
  proof -
    obtain L1 m where a: "try_advisory hash tx (remdups (sort keys)) (env n) = (L1, True, m)"
      using try_advisory_free [of "remdups (sort keys)" "env n" hash tx] assms(1) by auto
    note adv = try_advisory_owned [OF a]
    with a assms(1) show ?thesis
      by (auto simp: TryLockRefreshIntentGenerationsTx_def try_rows_def Let_def filter_all_length)
  qed
  have "\<exists>i L. lock_loop (Suc m) hash tx t keys env cancelled j = Some (L, None) \<and> i \<le> n \<and>
      TryLockRefreshIntentGenerationsTx hash tx t keys (env i) = (L, None)" if "j + m = n" for m j
    using that
  proof (induction m arbitrary: j)
    case 0
    with free show ?case by (cases "TryLockRefreshIntentGenerationsTx hash tx t keys (env n)") auto
  next
    case (Suc m)
    obtain L err where try_eq: "TryLockRefreshIntentGenerationsTx hash tx t keys (env j) = (L, err)" by fastforce
    show ?case
    proof (cases err)
      case None
      with try_eq Suc.prems show ?thesis by (intro exI [of _ j] exI [of _ L]) simp
    next
      case (Some e)
      with try_lock_spec [OF try_eq] have "errors_is e ErrRefreshGenerationContention" by simp
      moreover have "cancelled j = None" using assms(2) Suc.prems by simp
      ultimately show ?thesis using Suc.IH [of "Suc j"] Suc.prems try_eq Some by simp
    qed
  qed
  from this [of 0 n] obtain i L where l: "LockRefreshIntentGenerationsTx (Suc n) hash tx t keys env cancelled = Some (L, None)"
    "i \<le> n" "TryLockRefreshIntentGenerationsTx hash tx t keys (env i) = (L, None)"
    by (auto simp: LockRefreshIntentGenerationsTx_def)
  from try_lock_spec [OF l(3)] l(1,2) show ?thesis by (intro exI [of _ i] exI [of _ L]) simp
qed

definition demo_locks :: "nat \<Rightarrow> locks" where
  "demo_locks i = \<lparr>lk_advisory = (if i = 0 then [7 \<mapsto> 2] else Map.empty), lk_rows = Map.empty\<rparr>"

theorem generation_locks_all_or_nothing_witness:
  "\<exists>L. LockRefreshIntentGenerationsTx 2 (\<lambda>_. 7) 1 [] [(KindRefreshPR, ''a'')] demo_locks (\<lambda>_. None) = Some (L, None) \<and>
    lk_advisory L 7 = Some 1"
proof -
  have "\<forall>k \<in> set [(KindRefreshPR, ''a'')]. lk_advisory (demo_locks 1) ((\<lambda>_. 7) k) \<in> {None, Some 1} \<and>
      lk_rows (demo_locks 1) k \<in> {None, Some 1}" by (simp add: demo_locks_def)
  with generation_locks_all_or_nothing [where keys = "[(KindRefreshPR, ''a'')]" and env = demo_locks and n = 1
      and hash = "\<lambda>_. 7" and tx = 1 and cancelled = "\<lambda>_. None" and t = "[]"] show ?thesis
    by (auto simp: numeral_2_eq_2)
qed

end
