(* ===== verification/Dispatch_Properties.thy ===== *)
theory Dispatch_Properties
  imports Dispatcher Queue_Properties
begin

text \<open>
  Correctness of webhook dispatch: what the classifier emits is what the queue accepts, the default
  rules refresh the pull request and its stack, keys do not collide, a committed batch loses no
  delivery and no signal, branch pages partition their targets, retries back off within bounds.
\<close>

section \<open>Classification\<close>

definition intent_ok :: "Intent \<Rightarrow> bool" where
  "intent_ok i \<longleftrightarrow> in_priority i = PriorityEvent \<and> in_key i \<noteq> [] \<and>
     in_kind i \<in> {KindRefreshPR, KindRefreshStack, KindRefreshChecks, KindRefreshBranch, KindResolveStackMembership}"

lemma intentKey_nonempty: "intentKey t event p = Inr (Some key) \<Longrightarrow> key \<noteq> []"
  by (auto simp: Let_def pr_key_def stack_key_def checks_key_def branch_key_def split: if_splits option.splits)

lemma jobKind_known: "jobKind t = Inr kind \<Longrightarrow>
    kind \<in> {KindRefreshPR, KindRefreshStack, KindRefreshChecks, KindRefreshBranch, KindResolveStackMembership}"
  by (cases t) auto

definition intents_ok :: "Intent list \<Rightarrow> bool" where
  "intents_ok is \<longleftrightarrow> list_all intent_ok is \<and> distinct (map (\<lambda>i. (in_kind i, in_key i)) is)"

lemma add_targets_ok:
  "add_targets event p ts is = Inr is' \<Longrightarrow> intents_ok is \<Longrightarrow> intents_ok is'"
proof (induction event p ts "is" rule: add_targets.induct)
  case (2 event p t ts "is")
  show ?case
  proof (cases "intentKey t event p")
    case (Inl e)
    with 2 show ?thesis by (simp del: intentKey.simps)
  next
    case (Inr mk)
    show ?thesis
    proof (cases mk)
      case None
      with Inr 2 show ?thesis by (simp del: intentKey.simps)
    next
      case (Some key)
      note key = Inr [unfolded Some]
      show ?thesis
      proof (cases "jobKind t")
        case (Inl e)
        with key 2 show ?thesis by (simp del: intentKey.simps)
      next
        case (Inr kind)
        show ?thesis
        proof (cases "identity kind key \<in> set (map (\<lambda>i. identity (in_kind i) (in_key i)) is)")
          case True
          with key Inr 2 show ?thesis by (simp del: intentKey.simps)
        next
          case False
          then have new: "(kind, key) \<notin> set (map (\<lambda>i. (in_kind i, in_key i)) is)" by force
          have "intents_ok (is @ [\<lparr>in_kind = kind, in_key = key, in_priority = PriorityEvent\<rparr>])"
            using 2(5) new intentKey_nonempty [OF key] jobKind_known [OF Inr]
            by (auto simp: intents_ok_def intent_ok_def)
          with key Inr False 2 show ?thesis by (simp del: intentKey.simps)
        qed
      qed
    qed
  qed
qed simp

lemma apply_rules_ok:
  "apply_rules event p rs n is = Inr (m, is') \<Longrightarrow> intents_ok is \<Longrightarrow> intents_ok is'"
  by (induction event p rs n "is" rule: apply_rules.induct)
     (auto split: if_splits sum.splits dest: add_targets_ok)

lemma classify_intents_ok:
  "classifyContent decode rules event ct body = Inr c \<Longrightarrow> intents_ok (cl_intents c)"
  by (auto simp: classifyContent_def Let_def empty_classification_def intents_ok_def
      split: if_splits sum.splits dest: apply_rules_ok [unfolded intents_ok_def])

lemma refreshArgs_ok: "intent_ok i \<Longrightarrow> \<exists>a. refreshArgs i = Inr a \<and> pointer a = (in_kind i, in_key i)"
  by (auto simp: intent_ok_def refreshArgs_def pointer_def NewRefreshPRArgs_def NewRefreshStackArgs_def
      NewRefreshChecksArgs_def NewRefreshBranchArgs_def NewResolveStackMembershipArgs_def kind_defs)

lemma refreshArgs_pointer: "refreshArgs i = Inr a \<Longrightarrow> pointer a = (in_kind i, in_key i)"
  by (auto simp: refreshArgs_def pointer_def NewRefreshPRArgs_def NewRefreshStackArgs_def
      NewRefreshChecksArgs_def NewRefreshBranchArgs_def NewResolveStackMembershipArgs_def split: if_splits)

text \<open>C39: every intent the classifier emits, under any rule table and payload, has a nonempty key
  and becomes a River job for exactly its pointer, no pointer is emitted twice, and an event without
  a rule is a successful no-op whatever its body is.\<close>

theorem classified_intents_accepted:
  assumes "classifyContent decode rules event ct body = Inr c"
  shows "distinct (map (\<lambda>i. (in_kind i, in_key i)) (cl_intents c)) \<and>
    (\<forall>i \<in> set (cl_intents c). in_key i \<noteq> [] \<and>
       (\<exists>a. refreshArgs i = Inr a \<and> pointer a = (in_kind i, in_key i))) \<and>
    (event \<notin> ru_event ` set rules \<longrightarrow> (\<forall>d b. classifyContent d rules event ct b = Inr empty_classification))"
proof -
  note ok = classify_intents_ok [OF assms]
  have "\<exists>a. refreshArgs i = Inr a \<and> pointer a = (in_kind i, in_key i)" if "i \<in> set (cl_intents c)" for i
    using ok that by (intro refreshArgs_ok) (auto simp: intents_ok_def list_all_iff)
  moreover have "filter (\<lambda>r. ru_event r = event) rules = []" if "event \<notin> ru_event ` set rules"
    using that by (auto simp: filter_empty_conv)
  ultimately show ?thesis
    using ok by (auto simp: intents_ok_def list_all_iff intent_ok_def classifyContent_def)
qed

definition demo_payload :: payloadEnvelope where
  "demo_payload = \<lparr>pl_action = ''opened'', pl_number = 7, pl_ref = [], pl_before = [], pl_after = [],
     pl_created = False, pl_deleted = False, pl_forced = False, pl_repo = ''o/r'', pl_defaultBranch = [], pl_commits = [],
     pl_headCommit = None, pl_prNumber = 7, pl_prStack = None, pl_issueNumber = 0,
     pl_issuePullRequest = False, pl_stackNumber = None, pl_checkRunSHA = [], pl_checkSuiteSHA = []\<rparr>"

definition intent_of :: "string \<Rightarrow> string \<Rightarrow> Intent" where
  "intent_of kind key = \<lparr>in_kind = kind, in_key = key, in_priority = PriorityEvent\<rparr>"

text \<open>The default rules for one event.\<close>

lemma pull_request_rules:
  "filter (\<lambda>r. ru_event r = ''pull_request'') DefaultRules =
     [rule ''pull_request'' TargetPullRequest TargetStack, rule ''pull_request'' TargetResolveStackMembership NoTarget]"
  by (simp add: DefaultRules_def rule_def)

text \<open>With the default rules a pull-request delivery refreshes the pull request, resolves its stack
  membership, and refreshes its stack when the payload names one, and nothing else.\<close>

theorem pull_request_intents:
  assumes "decode ct body = Inr p" and "pl_repo p \<noteq> []"
    and "n = (if pl_number p = 0 then pl_prNumber p else pl_number p)" and "0 < n"
    and "\<And>s. payloadStack p = Some s \<Longrightarrow> 0 < s"
  shows "\<exists>c. classifyContent decode DefaultRules ''pull_request'' ct body = Inr c \<and> cl_matched c = 2 \<and>
    cl_branchHint c = None \<and>
    cl_intents c = [intent_of KindRefreshPR (pr_key (pl_repo p) n)] @
      (case payloadStack p of None \<Rightarrow> [] | Some s \<Rightarrow> [intent_of KindRefreshStack (stack_key (pl_repo p) s)]) @
      [intent_of KindResolveStackMembership (pr_key (pl_repo p) n)]"
proof -
  have key: "intentKey t ''pull_request'' p = Inr (Some (pr_key (pl_repo p) n))"
    if "t = TargetPullRequest \<or> t = TargetResolveStackMembership" for t
    using that assms(2-4) by (auto simp: Let_def)
  have skey: "intentKey TargetStack ''pull_request'' p = Inr (Some (stack_key (pl_repo p) s))" if "payloadStack p = Some s" for s
    using that assms(2,5) by auto
  have ids: "identity KindRefreshStack x \<noteq> identity KindRefreshPR y"
    "identity KindResolveStackMembership x \<noteq> identity KindRefreshPR y"
    "identity KindResolveStackMembership x \<noteq> identity KindRefreshStack y" for x y
    by (simp_all add: identity_def kind_defs)
  have "apply_rules ''pull_request'' p (filter (\<lambda>r. ru_event r = ''pull_request'') DefaultRules) 0 [] =
    Inr (2, [intent_of KindRefreshPR (pr_key (pl_repo p) n)] @
      (case payloadStack p of None \<Rightarrow> [] | Some s \<Rightarrow> [intent_of KindRefreshStack (stack_key (pl_repo p) s)]) @
      [intent_of KindResolveStackMembership (pr_key (pl_repo p) n)])"
    unfolding pull_request_rules
    using key [of TargetPullRequest] key [of TargetResolveStackMembership] skey ids
    by (cases "payloadStack p")
       (simp_all add: rule_def rule_targets_def intent_of_def numeral_2_eq_2 del: intentKey.simps)
  then show ?thesis
    using assms(1)
    by (auto simp: classifyContent_def pull_request_rules completeBranchPushHint_def intent_of_def kind_defs
        split: option.splits)
qed

theorem classified_intents_accepted_witness:
  "\<exists>c. classifyContent (\<lambda>_ _. Inr demo_payload) DefaultRules ''check_run_x'' [] [] = Inr c \<and>
    distinct (map (\<lambda>i. (in_kind i, in_key i)) (cl_intents c))"
proof -
  have "classifyContent (\<lambda>_ _. Inr demo_payload) DefaultRules ''check_run_x'' [] [] = Inr empty_classification"
    by (simp add: classifyContent_def DefaultRules_def rule_def)
  from this classified_intents_accepted [OF this] show ?thesis by blast
qed

theorem pull_request_intents_witness:
  "\<exists>c. classifyContent (\<lambda>_ _. Inr demo_payload) DefaultRules ''pull_request'' [] [] = Inr c \<and>
    cl_intents c = [intent_of KindRefreshPR ''pr:o/r:7'', intent_of KindResolveStackMembership ''pr:o/r:7'']"
proof -
  have k: "pr_key ''o/r'' 7 = ''pr:o/r:7''" by code_simp
  have stack: "payloadStack demo_payload = None" by (simp add: payloadStack_def demo_payload_def)
  have p: "pl_repo demo_payload = ''o/r''" "7 = (if pl_number demo_payload = 0 then pl_prNumber demo_payload else pl_number demo_payload)"
    by (simp_all add: demo_payload_def)
  from pull_request_intents [of "\<lambda>_ _. Inr demo_payload", OF refl _ p(2)] show ?thesis
    unfolding p(1) k stack by fastforce
qed

text \<open>Keys identify entities: equal pull-request or stack keys have the same repository and number,
  and, for repository names without a colon, equal branch or checks keys have the same repository
  and branch or commit, so coalescing by key never merges two entities.\<close>

theorem intent_keys_injective:
  assumes "0 \<le> n" and "0 \<le> n'" and "CHR '':'' \<notin> set r" and "CHR '':'' \<notin> set r'"
  shows "(pr_key s n = pr_key s' n' \<longrightarrow> s = s' \<and> n = n') \<and>
    (stack_key s n = stack_key s' n' \<longrightarrow> s = s' \<and> n = n') \<and>
    (branch_key r b = branch_key r' b' \<longrightarrow> r = r' \<and> b = b') \<and>
    (checks_key r b = checks_key r' b' \<longrightarrow> r = r' \<and> b = b')"
proof -
  have num: "s = s' \<and> n = n'" if "s @ '':'' @ itoa n = s' @ '':'' @ itoa n'"
  proof -
    have "s @ CHR '':'' # itoa n = s' @ CHR '':'' # itoa n'" using that by simp
    then have "s = s' \<and> itoa n = itoa n'"
      by (rule last_separator_unique) (use assms nat_digits_no_colon in \<open>simp_all add: itoa_pos\<close>)
    with assms itoa_inj show ?thesis by blast
  qed
  have str: "r = r' \<and> b = b'" if "r @ '':'' @ b = r' @ '':'' @ b'"
  proof -
    have "rev b @ CHR '':'' # rev r = rev b' @ CHR '':'' # rev r'" using arg_cong [OF that, of rev] by simp
    then have "rev b = rev b' \<and> rev r = rev r'"
      by (rule last_separator_unique) (use assms in simp_all)
    then show ?thesis by simp
  qed
  show ?thesis using num str by (auto simp: pr_key_def stack_key_def branch_key_def checks_key_def)
qed

theorem intent_keys_injective_witness:
  "pr_key ''o/r'' 7 \<noteq> pr_key ''o/r'' 71 \<and> branch_key ''o/r'' ''a:b'' \<noteq> branch_key ''o/q'' ''a:b''"
  using intent_keys_injective [of 7 71 "''o/r''" "''o/q''" "''o/r''" "''o/r''" "''a:b''" "''a:b''"] by auto

section \<open>Retry backoff\<close>

lemma backoff_from_capped:
  "30 * second \<le> d \<Longrightarrow> c < a \<Longrightarrow> backoff_from c a d = 60 * second"
  by (simp add: backoff_from.simps [of c a d] classificationRetryMaxBackoff_def second_def signed_divide_int_def)

lemma backoff_from_skip:
  "d * 2 ^ n < 60 * second \<Longrightarrow> 0 < d \<Longrightarrow> c + int n \<le> a \<Longrightarrow> backoff_from c a d = backoff_from (c + int n) a (d * 2 ^ n)"
proof (induction n arbitrary: c d)
  case (Suc n)
  have "d * 1 \<le> d * 2 ^ n" using Suc.prems by (intro mult_left_mono) auto
  moreover have "d * 2 ^ n < 30 * second" using Suc.prems(1) by simp
  ultimately have "d < 30 * second" by linarith
  then have "backoff_from c a d = backoff_from (c + 1) a (d * 2)"
    using Suc.prems by (simp add: backoff_from.simps [of c a d] classificationRetryMaxBackoff_def second_def signed_divide_int_def)
  also have "\<dots> = backoff_from (c + 1 + int n) a (d * 2 * 2 ^ n)" by (rule Suc.IH) (use Suc.prems in simp_all)
  finally show ?case by (simp add: algebra_simps)
qed simp

text \<open>The retry delay of a delivery that fails to classify doubles from one second and stops at
  one minute from the seventh attempt on; it is always whole seconds between one and sixty.\<close>

theorem classification_backoff_bounds:
  assumes "1 \<le> attempt"
  shows "classificationRetryBackoff attempt = (if attempt \<le> 6 then 2 ^ nat (attempt - 1) * second else 60 * second) \<and>
    second \<le> classificationRetryBackoff attempt \<and> classificationRetryBackoff attempt \<le> 60 * second"
proof (cases "attempt \<le> 6")
  case True
  have "(2::int) ^ nat (attempt - 1) \<le> 2 ^ 5" using True by (intro power_increasing) auto
  then have p: "second * 2 ^ nat (attempt - 1) < 60 * second" by (simp add: second_def)
  have "classificationRetryBackoff attempt = second * 2 ^ nat (attempt - 1)"
    unfolding classificationRetryBackoff_def classificationRetryBaseBackoff_def
    using backoff_from_skip [OF p, of 1 attempt] assms
    by (simp add: second_def backoff_from.simps [of attempt])
  with True p show ?thesis by (simp add: second_def)
next
  case False
  have "classificationRetryBackoff attempt = backoff_from (1 + int 5) attempt (second * 2 ^ 5)"
    unfolding classificationRetryBackoff_def classificationRetryBaseBackoff_def
    by (rule backoff_from_skip) (use False in \<open>simp_all add: second_def\<close>)
  also have "\<dots> = 60 * second" by (rule backoff_from_capped) (use False in \<open>simp_all add: second_def\<close>)
  finally show ?thesis using False by (simp add: second_def)
qed

theorem classification_backoff_bounds_witness:
  "classificationRetryBackoff 3 = 4 * second \<and> classificationRetryBackoff 9 = 60 * second"
  using classification_backoff_bounds [of 3] classification_backoff_bounds [of 9] by simp

section \<open>Branch pages\<close>

lemma pages_from_spec:
  assumes "pages_from h bulk psize page ts = Inr ps" and "0 < psize"
  shows "\<exists>pgs. map (fst \<circ> fst) ps = map BranchPageArgs pgs \<and> concat (map bp_targets pgs) = map page_target ts \<and>
    map bp_page pgs = map int [page..<page + length pgs] \<and> map snd ps = map (length \<circ> bp_targets) pgs \<and>
    (\<forall>pg \<in> set pgs. 0 < length (bp_targets pg) \<and> length (bp_targets pg) \<le> psize \<and> bp_repo pg = bb_repo bulk \<and>
       bp_branch pg = bh_branch h \<and> bp_generation pg = bb_generation bulk)"
  using assms
proof (induction h bulk psize page ts arbitrary: ps rule: pages_from.induct)
  case (1 h bulk psize page ts)
  show ?case
  proof (cases "ts = []")
    case True
    with 1(2) show ?thesis by (simp add: pages_from.simps)
  next
    case False
    let ?now = "take psize ts"
    from 1(2,3) False obtain rest where ok: "list_all page_kind_ok ?now"
      and rest: "pages_from h bulk psize (Suc page) (drop psize ts) = Inr rest"
      and ps: "ps = ((NewBranchReconcilePageArgs (bb_repo bulk) (bh_repo h) (bh_branch h) (bb_generation bulk)
          (int page) (map page_target ?now), NewBackfillInsertOptsForQueue QueueBulk), length ?now) # rest"
      by (auto simp: pages_from.simps [of h bulk psize page ts] Let_def split: if_splits sum.splits)
    have "\<not> (ts = [] \<or> psize = 0)" using False 1(3) by simp
    have "\<not> \<not> list_all page_kind_ok ?now" using ok by simp
    from 1(1) [OF \<open>\<not> (ts = [] \<or> psize = 0)\<close> refl this rest 1(3)] obtain pgs where pgs:
      "map (fst \<circ> fst) rest = map BranchPageArgs pgs \<and> concat (map bp_targets pgs) = map page_target (drop psize ts) \<and>
       map bp_page pgs = map int [Suc page..<Suc page + length pgs] \<and> map snd rest = map (length \<circ> bp_targets) pgs \<and>
       (\<forall>pg \<in> set pgs. 0 < length (bp_targets pg) \<and> length (bp_targets pg) \<le> psize \<and> bp_repo pg = bb_repo bulk \<and>
         bp_branch pg = bh_branch h \<and> bp_generation pg = bb_generation bulk)" ..
    let ?pg = "\<lparr>bp_repo = bb_repo bulk, bp_name = bh_repo h, bp_branch = bh_branch h,
      bp_generation = bb_generation bulk, bp_page = int page, bp_targets = map page_target ?now\<rparr>"
    have upt: "[page..<page + Suc (length pgs)] = page # [Suc page..<Suc page + length pgs]"
      using upt_conv_Cons [of page "page + Suc (length pgs)"] by simp
    have "map (fst \<circ> fst) ps = map BranchPageArgs (?pg # pgs)"
      using pgs by (simp add: ps NewBranchReconcilePageArgs_def)
    moreover have "concat (map bp_targets (?pg # pgs)) = map page_target ts"
      using pgs by (simp flip: map_append)
    moreover have "map bp_page (?pg # pgs) = map int [page..<page + length (?pg # pgs)]"
      using pgs by (simp only: length_Cons upt) simp
    moreover have "map snd ps = map (length \<circ> bp_targets) (?pg # pgs)" using pgs by (simp add: ps)
    moreover have "\<forall>pg \<in> set (?pg # pgs). 0 < length (bp_targets pg) \<and> length (bp_targets pg) \<le> psize \<and>
        bp_repo pg = bb_repo bulk \<and> bp_branch pg = bh_branch h \<and> bp_generation pg = bb_generation bulk"
      using pgs False 1(3) by simp
    ultimately show ?thesis by blast
  qed
qed

text \<open>The reconciliation pages of a branch push carry every target exactly once and in order, are
  numbered from one, are never empty and never longer than the page size, and the recorded counts
  are their lengths.\<close>

theorem branch_pages_partition:
  assumes "branchReconciliationPages h bulk pageSize = Inr (params, counts)"
  shows "\<exists>pgs. map fst params = map BranchPageArgs pgs \<and>
    concat (map bp_targets pgs) = map page_target (bb_targets bulk) \<and>
    map bp_page pgs = map int [1..<1 + length pgs] \<and> counts = map (length \<circ> bp_targets) pgs \<and>
    (\<forall>pg \<in> set pgs. 0 < length (bp_targets pg) \<and> int (length (bp_targets pg)) \<le> pageSize \<and>
       bp_repo pg = bb_repo bulk \<and> bp_branch pg = bh_branch h \<and> bp_generation pg = bb_generation bulk)"
proof -
  from assms obtain ps where ps: "pages_from h bulk (nat pageSize) 1 (bb_targets bulk) = Inr ps"
    and "params = map fst ps" "counts = map snd ps" and pos: "0 < nat pageSize"
    by (auto simp: branchReconciliationPages_def split: if_splits sum.splits)
  with pages_from_spec [OF ps pos] show ?thesis by (fastforce simp: comp_def)
qed

definition demo_hint :: branchPushHint where
  "demo_hint = \<lparr>bh_repo = ''o/r'', bh_branch = ''main'', bh_before = ''a'', bh_after = ''b'',
     bh_transitionKnown = True, bh_deleted = False, bh_forced = False\<rparr>"

definition demo_target :: "string \<Rightarrow> BranchReconciliationTarget" where
  "demo_target k = \<lparr>rt_kind = KindRefreshPR, rt_key = k, rt_entity = k, rt_generation = 1\<rparr>"

definition demo_bulk :: BranchBulkResult where
  "demo_bulk = no_bulk\<lparr>bb_repo := 1, bb_generation := 4, bb_targets := map demo_target [''x'', ''y'', ''z'']\<rparr>"

theorem branch_pages_partition_witness:
  "\<exists>params. branchReconciliationPages demo_hint demo_bulk 2 = Inr (params, [2, 1]) \<and>
    (\<exists>pgs. map fst params = map BranchPageArgs pgs \<and>
       concat (map bp_targets pgs) = map page_target (bb_targets demo_bulk))"
proof -
  obtain params where p: "branchReconciliationPages demo_hint demo_bulk 2 = Inr (params, [2, 1])"
    by (simp add: branchReconciliationPages_def demo_bulk_def pages_from.simps demo_target_def page_kind_ok_def
        numeral_2_eq_2)
  from branch_pages_partition [OF p] p show ?thesis by blast
qed

section \<open>The batch\<close>

definition rows_live :: "'q River \<Rightarrow> generations \<Rightarrow> 'q \<Rightarrow> bool" where
  "rows_live R t q \<longleftrightarrow> distinct (map fst t) \<and>
     (\<forall>k r. map_of t k = Some r \<longrightarrow> row_ok r \<and> (outstanding r \<longrightarrow> has_live R k q))"

lemma rows_liveD:
  "rows_live R t q \<Longrightarrow> map_of t k = Some r \<Longrightarrow> row_ok r"
  "rows_live R t q \<Longrightarrow> map_of t k = Some r \<Longrightarrow> outstanding r \<Longrightarrow> has_live R k q"
  unfolding rows_live_def by blast+

lemma queue_inv_rows: "queue_inv R st \<longleftrightarrow> rows_live R (qs_gens st) (qs_jobs st)"
  by (simp add: queue_inv_def rows_live_def)

lemma rows_live_jobs:
  assumes "rows_live R t q" and "\<And>b. live R b q \<Longrightarrow> live R b q'"
  shows "rows_live R t q'"
  using assms(1) has_live_mono [of R _ q q'] assms(2) unfolding rows_live_def by blast

lemma rows_live_bump:
  assumes "BumpRefreshIntentGenerations now is t = Inr (t', gs)" and "rows_live R t q"
    and "\<And>k. k \<in> fst ` set is \<Longrightarrow> has_live R k q"
  shows "rows_live R t' q"
proof -
  note b = Bump_Inr [OF assms(1)]
  have "row_ok r \<and> (outstanding r \<longrightarrow> has_live R k q)" if r: "map_of t' k = Some r" for k r
  proof (cases "k \<in> fst ` set is")
    case False
    then have "map_of t k = Some r" using r b(2) by (simp add: bump_rows_lookup_other)
    with rows_liveD [OF assms(2)] show ?thesis by blast
  next
    case True
    then obtain d e where m: "(k, d, e) \<in> set (remdups is)" by auto
    have "map_of (bump_row now (k, d, e) t) k = Some r"
      using r b(2) bump_rows_lookup [OF b(1) m, of now t] by simp
    then have "row_ok r" by (rule bump_row_ok) (rule rows_liveD(1) [OF assms(2)])
    with assms(3) [OF True] show ?thesis by simp
  qed
  moreover have "distinct (map fst t')" using assms(2) b(2) by (simp add: rows_live_def distinct_bump_rows)
  ultimately show ?thesis by (simp add: rows_live_def)
qed

lemma bumped_outstanding:
  assumes "BumpRefreshIntentGenerations now is t = Inr (t', gs)" and "k \<in> fst ` set is"
    and "\<And>r. map_of t k = Some r \<Longrightarrow> row_ok r"
  shows "\<exists>r. map_of t' k = Some r \<and> outstanding r"
proof -
  note b = Bump_Inr [OF assms(1)]
  from assms(2) obtain d e where m: "(k, d, e) \<in> set (remdups is)" by auto
  show ?thesis
    using b(2) bump_rows_lookup [OF b(1) m, of now t] assms(3)
    by (auto simp: bump_row_lookup outstanding_def row_ok_def simp del: bump_row.simps split: option.split)
qed

lemma insertParams_Inr:
  "insertParams t is = Inr ps \<Longrightarrow>
   (\<forall>i \<in> set is. \<exists>a io. (a, io) \<in> set ps \<and> refreshArgs i = Inr a) \<and>
   (\<forall>(a, io) \<in> set ps. io_byArgs io \<and> io_byState io = active_states)"
proof (induction "is" arbitrary: ps)
  case (Cons i "is")
  then show ?case
    by (fastforce simp: NewRefreshInsertOpts_def NewRefreshInsertOptsForQueue_def split: sum.splits)
qed simp

lemma first_occurrences_set: "set (first_occurrences seen xs) = set xs - set seen"
  by (induction seen xs rule: first_occurrences.induct) auto

lemma dedupeIntents_set: "set (dedupeIntents is) = set is"
  by (simp add: dedupeIntents_def first_occurrences_set)

lemma enqueue_effect:
  assumes enq: "enqueue_intents ts lock txNow sched R intents received q = Inr q'"
    and ok: "river_ok R" and inv: "queue_inv R q"
  shows "queue_inv R q' \<and> (\<forall>b. live R b (qs_jobs q) \<longrightarrow> live R b (qs_jobs q')) \<and>
    (\<forall>i \<in> set intents. has_live R (in_kind i, in_key i) (qs_jobs q') \<and>
      (\<exists>r. map_of (qs_gens q') (in_kind i, in_key i) = Some r \<and> outstanding r))"
proof (cases "intents = []")
  case True
  with enq inv show ?thesis by (simp add: enqueue_intents_def)
next
  case False
  let ?is = "dedupeIntents intents"
  from enq False obtain gs ps rs where
    b: "BumpRefreshIntentGenerations txNow (map (intent_pointer ts received) ?is) (qs_gens q) = Inr (qs_gens q', gs)"
    and p: "insertParams sched ?is = Inr ps" and j: "rv_insert_many R ps (qs_jobs q) = Inr (rs, qs_jobs q')"
    by (auto simp: enqueue_intents_def Let_def split: option.splits sum.splits if_splits)
  note ps = insertParams_Inr [OF p]
  note many = river_insert_many [OF ok j conjunct2 [OF ps]]
  have lv: "has_live R (in_kind i, in_key i) (qs_jobs q')" if "i \<in> set intents" for i
  proof -
    from that ps obtain a io where "(a, io) \<in> set ps" "refreshArgs i = Inr a"
      by (auto simp: dedupeIntents_set)
    with many(1) refreshArgs_pointer show ?thesis unfolding has_live_def by blast
  qed
  have keys: "fst ` set (map (intent_pointer ts received) ?is) = (\<lambda>i. (in_kind i, in_key i)) ` set intents"
    by (auto simp: dedupeIntents_set intent_pointer_def image_iff)
  have "rows_live R (qs_gens q) (qs_jobs q')"
    using inv many(2) by (auto simp: queue_inv_rows intro: rows_live_jobs)
  then have "rows_live R (qs_gens q') (qs_jobs q')"
    by (rule rows_live_bump [OF b]) (use keys lv in auto)
  moreover have "\<exists>r. map_of (qs_gens q') (in_kind i, in_key i) = Some r \<and> outstanding r" if "i \<in> set intents" for i
    by (rule bumped_outstanding [OF b]) (use keys that queue_invD(1) [OF inv] in auto)
  ultimately show ?thesis using lv many(2) by (simp add: queue_inv_rows)
qed

lemma pages_opts:
  "pages_from h bulk psize page ts = Inr ps \<Longrightarrow> x \<in> set ps \<Longrightarrow> snd (fst x) = NewBackfillInsertOptsForQueue QueueBulk"
proof (induction h bulk psize page ts arbitrary: ps rule: pages_from.induct)
  case (1 h bulk psize page ts)
  show ?case
  proof (cases "ts = [] \<or> psize = 0")
    case True
    with 1 show ?thesis by (auto simp: pages_from.simps [of h bulk psize page ts])
  next
    case False
    with 1(2) obtain rest y where k: "list_all page_kind_ok (take psize ts)"
      and r: "pages_from h bulk psize (Suc page) (drop psize ts) = Inr rest"
      and ps: "ps = ((y, NewBackfillInsertOptsForQueue QueueBulk), length (take psize ts)) # rest"
      by (auto simp: pages_from.simps [of h bulk psize page ts] Let_def split: if_splits sum.splits)
    show ?thesis using 1(1) [OF False refl _ r] k 1(3) by (auto simp: ps)
  qed
qed

lemma branch_pages_opts:
  assumes "branchReconciliationPages h bulk psize = Inr (params, counts)"
  shows "\<forall>(a, io) \<in> set params. io_byArgs io \<and> io_byState io = active_states"
proof -
  from assms obtain ps where ps: "pages_from h bulk (nat psize) 1 (bb_targets bulk) = Inr ps" "params = map fst ps"
    by (auto simp: branchReconciliationPages_def split: if_splits sum.splits)
  have "io_byArgs (snd (fst x)) \<and> io_byState (snd (fst x)) = active_states" if "x \<in> set ps" for x
    using pages_opts [OF ps(1) that] by (simp add: NewBackfillInsertOptsForQueue_def)
  then show ?thesis using ps(2) by force
qed

definition delivery_result :: "(string \<Rightarrow> string \<Rightarrow> gerror + payloadEnvelope) \<Rightarrow> (string \<Rightarrow> gerror + string) \<Rightarrow> Config \<Rightarrow>
    string \<Rightarrow> delivery \<Rightarrow> deliveryResult" where
  "delivery_result decode headers cfg g d =
     (case classifyStored decode headers (cf_rules cfg) (dv_event d) (dv_body d) (dv_headers d) of
        Inl e \<Rightarrow> failed_result cfg g d e
      | Inr c \<Rightarrow> \<lparr>re_guid = g, re_status = DProcessed, re_error = None, re_retry = None\<rparr>)"

lemma classify_deliveries_spec:
  "classify_deliveries decode headers cfg w cache ds acc = Inr acc' \<Longrightarrow>
   ba_results acc' = ba_results acc @ map (\<lambda>(g, d). delivery_result decode headers cfg g d) ds \<and>
   set (ba_intents acc) \<subseteq> set (ba_intents acc') \<and>
   (\<forall>(g, d) \<in> set ds. \<forall>c. classifyStored decode headers (cf_rules cfg) (dv_event d) (dv_body d) (dv_headers d) = Inr c \<longrightarrow>
      (\<exists>is. kept_intents w cache c = Inr is \<and> set is \<subseteq> set (ba_intents acc')))"
proof (induction ds arbitrary: acc)
  case (Cons gd ds)
  obtain g d where gd: "gd = (g, d)" by fastforce
  show ?case
  proof (cases "classifyStored decode headers (cf_rules cfg) (dv_event d) (dv_body d) (dv_headers d)")
    case (Inl e)
    let ?acc = "acc\<lparr>ba_results := ba_results acc @ [failed_result cfg g d e]\<rparr>"
    have "classify_deliveries decode headers cfg w cache ds ?acc = Inr acc'" using Cons.prems Inl by (simp add: gd)
    from Cons.IH [OF this] Inl show ?thesis by (auto simp: gd delivery_result_def)
  next
    case (Inr c)
    with Cons.prems obtain "is" where k: "kept_intents w cache c = Inr is" by (auto simp: gd split: sum.splits)
    let ?acc = "\<lparr>ba_results = ba_results acc @ [\<lparr>re_guid = g, re_status = DProcessed, re_error = None, re_retry = None\<rparr>],
       ba_intents = ba_intents acc @ is, ba_received = note_received (dv_receivedAt d) is (ba_received acc),
       ba_pushes = (case cl_branchHint c of None \<Rightarrow> ba_pushes acc
         | Some h \<Rightarrow> ba_pushes acc @ [\<lparr>pp_hint = h, pp_guid = g, pp_receivedAt = dv_receivedAt d\<rparr>]),
       ba_unmatched = (if cl_matched c = 0 then ba_unmatched acc @ [dv_event d] else ba_unmatched acc)\<rparr>"
    have "classify_deliveries decode headers cfg w cache ds ?acc = Inr acc'" using Cons.prems Inr k by (simp add: gd)
    from Cons.IH [OF this] Inr k show ?thesis by (auto simp: gd delivery_result_def)
  qed
qed simp

lemma map_of_map_rows: "map_of (map (\<lambda>(g, d). (g, f g d)) t) g = map_option (f g) (map_of t g)"
  by (induction t) auto

lemma candidates_in_table:
  assumes "distinct (map fst t)" and "(g, d) \<in> set (claim_candidates now locked n t)"
  shows "map_of t g = Some d"
  using assms in_set_takeD [of "(g, d)" n] by (fastforce simp: claim_candidates_def)

lemma candidates_distinct:
  "distinct (map fst t) \<Longrightarrow> distinct (map fst (claim_candidates now locked n t))"
proof -
  assume "distinct (map fst t)"
  then have "inj_on fst (set t)" "distinct t" by (simp_all add: distinct_map)
  then have "distinct (map fst (sort_key (\<lambda>(g, d). (dv_nextAttempt d, dv_receivedAt d, g))
      (filter (\<lambda>(g, d). dv_status d = DPending \<and> dv_nextAttempt d \<le> now \<and> g \<notin> locked) t)))"
    by (auto simp: distinct_map intro: inj_on_subset)
  then show ?thesis unfolding claim_candidates_def take_map [symmetric] by (rule distinct_take)
qed

lemma delivery_result_guid [simp]: "re_guid (delivery_result decode headers cfg g d) = g"
  by (simp add: delivery_result_def failed_result_def split: sum.split)

lemma find_delivery_result:
  "distinct (map fst ds) \<Longrightarrow> (g, d) \<in> set ds \<Longrightarrow>
   find_result (map (\<lambda>(g, d). delivery_result decode headers cfg g d) ds) g = Some (delivery_result decode headers cfg g d)"
proof (induction ds)
  case (Cons x xs)
  then show ?case by (cases x) (auto simp: find_result_def rev_image_eqI)
qed simp

lemma find_delivery_none:
  "g \<notin> fst ` set ds \<Longrightarrow> find_result (map (\<lambda>(g, d). delivery_result decode headers cfg g d) ds) g = None"
  by (induction ds) (auto simp: find_result_def)

lemma settled_row:
  fixes d decode headers cfg g now
  defines "d' \<equiv> result_row now (delivery_result decode headers cfg g (claimed_row d)) (claimed_row d)"
    and "c \<equiv> classifyStored decode headers (cf_rules cfg) (dv_event d) (dv_body d) (dv_headers d)"
  shows "dv_attempts d' = dv_attempts d + 1"
    and "c = Inl e \<Longrightarrow> dv_lastError d' = Some e \<and> (if cf_maxAttempts cfg \<le> dv_attempts d + 1 then dv_status d' = DParked
       else dv_status d' = DPending \<and> dv_nextAttempt d' = now + (classificationRetryBackoff (dv_attempts d + 1) sdiv second) * second)"
    and "c = Inr x \<Longrightarrow> dv_status d' = DProcessed"
  by (simp_all add: d'_def c_def result_row_def delivery_result_def failed_result_def claimed_row_def)

lemma batch_rows:
  assumes t: "distinct (map fst t)" and cand: "cand = claim_candidates claimNow locked k t"
    and res: "rs = map (\<lambda>(g, d). delivery_result decode headers cfg g d) (map (\<lambda>(g, d). (g, claimed_row d)) cand)"
    and t': "t' = fst (SetWebhookDeliveryResults now rs
      (map (\<lambda>(g, d). (g, if g \<in> set (map fst cand) then claimed_row d else d)) t))"
  shows "g \<notin> fst ` set cand \<Longrightarrow> map_of t' g = map_of t g"
    and "(g, d) \<in> set cand \<Longrightarrow>
      map_of t' g = Some (result_row now (delivery_result decode headers cfg g (claimed_row d)) (claimed_row d))"
proof -
  let ?claimed = "map (\<lambda>(g, d). (g, claimed_row d)) cand"
  have "distinct (map fst cand)" unfolding cand by (rule candidates_distinct [OF t])
  then have dist: "distinct (map fst ?claimed)" by (simp add: comp_def split_def)
  have look: "map_of t' g = map_option (\<lambda>d. case find_result rs g of
        Some r \<Rightarrow> if dv_status d = DProcessing then result_row now r d else d | None \<Rightarrow> d)
      (map_option (\<lambda>d. if g \<in> set (map fst cand) then claimed_row d else d) (map_of t g))" for g
    by (simp only: t' SetWebhookDeliveryResults_def fst_conv map_of_map_rows)
  show "map_of t' g = map_of t g" if "g \<notin> fst ` set cand"
  proof -
    have "g \<notin> fst ` set ?claimed" using that by force
    from find_delivery_none [OF this] that show ?thesis by (simp add: look res option.map_comp comp_def option.map_ident)
  qed
  show "map_of t' g = Some (result_row now (delivery_result decode headers cfg g (claimed_row d)) (claimed_row d))"
    if m: "(g, d) \<in> set cand"
  proof -
    have "map_of t g = Some d" using candidates_in_table [OF t] m by (simp add: cand)
    moreover have "(g, claimed_row d) \<in> set ?claimed" using m by force
    from find_delivery_result [OF dist this] have "find_result rs g =
        Some (delivery_result decode headers cfg g (claimed_row d))" by (simp only: res)
    moreover have "g \<in> set (map fst cand)" using m by force
    ultimately show ?thesis by (simp add: look) (simp add: claimed_row_def)
  qed
qed

lemma attempt_Inr:
  assumes "dispatchBatchAttempt ts decode headers cfg R w env st = Inr (n, unmatched, st')"
    and "cand = claim_candidates (ae_claimNow env) (ae_locked env) (nat (cf_batchSize cfg)) (di_deliveries st)"
    and "cand \<noteq> []"
  obtains acc c2 q2 where
    "classify_deliveries decode headers cfg w (di_cache st) (map (\<lambda>(g, d). (g, claimed_row d)) cand) empty_acc = Inr acc"
    and "ba_pushes acc = [] \<and> q2 = di_queue st \<or>
      apply_pushes R w cfg (ba_pushes acc) (di_cache st, di_queue st) = Inr (c2, q2)"
    and "enqueue_intents ts (ae_lock env) (ae_txNow env) (ae_now env + cf_debounce cfg) R
      (ba_intents acc) (ba_received acc) q2 = Inr (di_queue st')"
    and "di_deliveries st' = fst (SetWebhookDeliveryResults (ae_setNow env) (ba_results acc)
      (map (\<lambda>(g, d). (g, if g \<in> set (map fst cand) then claimed_row d else d)) (di_deliveries st)))"
    and "n = length cand"
proof -
  let ?claimed = "map (\<lambda>(g, d). (g, claimed_row d)) cand"
  from assms obtain acc c2 q2 where
    cls: "classify_deliveries decode headers cfg w (di_cache st) ?claimed empty_acc = Inr acc"
    and push: "(if ba_pushes acc = [] then Inr (di_cache st, di_queue st)
       else case wr_fence w (di_cache st) of Some e \<Rightarrow> Inl e
         | None \<Rightarrow> apply_pushes R w cfg (ba_pushes acc) (di_cache st, di_queue st)) = Inr (c2, q2)"
    and rest: "enqueue_intents ts (ae_lock env) (ae_txNow env) (ae_now env + cf_debounce cfg) R
       (ba_intents acc) (ba_received acc) q2 = Inr (di_queue st')"
     "di_deliveries st' = fst (SetWebhookDeliveryResults (ae_setNow env) (ba_results acc)
       (map (\<lambda>(g, d). (g, if g \<in> set (map fst cand) then claimed_row d else d)) (di_deliveries st)))"
     "n = length cand"
    by (auto simp: dispatchBatchAttempt_def ClaimWebhookDeliveries_def Let_def
        split: sum.splits if_splits prod.splits)
  from push have "ba_pushes acc = [] \<and> q2 = di_queue st \<or>
      apply_pushes R w cfg (ba_pushes acc) (di_cache st, di_queue st) = Inr (c2, q2)"
    by (auto split: if_splits option.splits)
  from that [OF cls this rest] show thesis .
qed

text \<open>What a delivery becomes in a committed batch: its row \<open>d\<close> before the claim, its row \<open>d'\<close> after.\<close>

definition delivery_settled :: "'q River \<Rightarrow> 'c EntityWriter \<Rightarrow> 'c \<Rightarrow> Config \<Rightarrow> gotime \<Rightarrow> 'q qstate \<Rightarrow>
    gerror + classification \<Rightarrow> delivery \<Rightarrow> delivery \<Rightarrow> bool" where
  "delivery_settled R w cache cfg now q result d d' \<longleftrightarrow>
     dv_attempts d' = dv_attempts d + 1 \<and>
     (case result of
        Inl e \<Rightarrow> dv_lastError d' = Some e \<and>
          (if cf_maxAttempts cfg \<le> dv_attempts d + 1 then dv_status d' = DParked
           else dv_status d' = DPending \<and>
             dv_nextAttempt d' = now + (classificationRetryBackoff (dv_attempts d + 1) sdiv second) * second)
      | Inr c \<Rightarrow> dv_status d' = DProcessed \<and>
          (\<exists>is. kept_intents w cache c = Inr is \<and>
            (\<forall>i \<in> set is. has_live R (in_kind i, in_key i) (qs_jobs q) \<and>
              (\<exists>r. map_of (qs_gens q) (in_kind i, in_key i) = Some r \<and> outstanding r))))"

lemma settledI:
  fixes d decode headers cfg g now
  defines "c \<equiv> classifyStored decode headers (cf_rules cfg) (dv_event d) (dv_body d) (dv_headers d)"
  assumes "\<And>x. c = Inr x \<Longrightarrow> \<exists>is. kept_intents w cache x = Inr is \<and>
      (\<forall>i \<in> set is. has_live R (in_kind i, in_key i) (qs_jobs q) \<and>
        (\<exists>r. map_of (qs_gens q) (in_kind i, in_key i) = Some r \<and> outstanding r))"
  shows "delivery_settled R w cache cfg now q c d
    (result_row now (delivery_result decode headers cfg g (claimed_row d)) (claimed_row d))"
proof (cases c)
  case (Inl e)
  then show ?thesis unfolding delivery_settled_def
    using settled_row(1,2) [where now = now and decode = decode and headers = headers and cfg = cfg and g = g and d = d] by (simp add: c_def)
next
  case (Inr x)
  have "dv_status (result_row now (delivery_result decode headers cfg g (claimed_row d)) (claimed_row d)) = DProcessed"
    by (rule settled_row(3) [OF Inr [unfolded c_def]])
  with assms(2) [OF Inr] settled_row(1) show ?thesis unfolding delivery_settled_def Inr sum.case by blast
qed

text \<open>What the dispatcher relies on in the branch bulk writer: it keeps the keys of the generation
  table distinct, and every row it writes it claims for itself, complete at its generation.\<close>

locale entity_writer =
  fixes w :: "'c EntityWriter"
  assumes apply_distinct: "wr_apply w p (c, g) = Inr (b, c', g') \<Longrightarrow> distinct (map fst g) \<Longrightarrow> distinct (map fst g')"
    and apply_claims: "wr_apply w p (c, g) = Inr (b, c', g') \<Longrightarrow> \<forall>k r. map_of g k = Some r \<longrightarrow> row_ok r \<Longrightarrow>
      map_of g' k = Some r' \<Longrightarrow> map_of g k = Some r' \<or> (row_ok r' \<and> \<not> outstanding r')"
begin

lemma rows_live_claimed:
  assumes "rows_live R g q" and "wr_apply w p (c, g) = Inr (b, c', g')"
  shows "rows_live R g' q"
proof -
  have ok: "\<forall>k r. map_of g k = Some r \<longrightarrow> row_ok r" using rows_liveD(1) [OF assms(1)] by blast
  have "row_ok r' \<and> (outstanding r' \<longrightarrow> has_live R k q)" if "map_of g' k = Some r'" for k r'
    using apply_claims [OF assms(2) ok that] rows_liveD [OF assms(1)] by blast
  with apply_distinct [OF assms(2)] assms(1) show ?thesis unfolding rows_live_def by blast
qed

lemma pushes_effect:
  assumes "apply_pushes R w cfg ps (c, q) = Inr (c', q')" and "river_ok R" and "queue_inv R q"
  shows "queue_inv R q' \<and> (\<forall>b. live R b (qs_jobs q) \<longrightarrow> live R b (qs_jobs q'))"
  using assms(1,3)
proof (induction ps arbitrary: c q)
  case (Cons p ps)
  from Cons.prems(1) obtain bulk c1 g1 where ap: "wr_apply w p (c, qs_gens q) = Inr (bulk, c1, g1)"
    by (auto split: sum.splits)
  have rl: "rows_live R g1 (qs_jobs q)"
    using rows_live_claimed [OF _ ap] Cons.prems(2) by (simp add: queue_inv_rows)
  show ?case
  proof (cases "bb_repo bulk = 0")
    case True
    with Cons.prems(1) ap have n: "apply_pushes R w cfg ps (c1, q\<lparr>qs_gens := g1\<rparr>) = Inr (c', q')" by simp
    from Cons.IH [OF n] rl show ?thesis by (simp add: queue_inv_rows)
  next
    case False
    with Cons.prems(1) ap obtain params counts c2 rs j1 j2 where
      pg: "branchReconciliationPages (pp_hint p) bulk (cf_pageSize cfg) = Inr (params, counts)"
      and i1: "(if params = [] then Inr ([], qs_jobs q) else rv_insert_many R params (qs_jobs q)) = Inr (rs, j1)"
      and i2: "(if bb_repositoryKey bulk = [] then Inr j1
          else case rv_insert R (NewRefreshRepositoryHeadArgs (bb_repositoryKey bulk))
                 (NewRefreshInsertOptsForQueue QueueBulk 0) j1 of Inl e \<Rightarrow> Inl e | Inr (_, j) \<Rightarrow> Inr j) = Inr j2"
      and n: "apply_pushes R w cfg ps (c2, \<lparr>qs_gens = g1, qs_jobs = j2\<rparr>) = Inr (c', q')"
      by (auto split: sum.splits if_splits)
    have m1: "live R b j1" if "live R b (qs_jobs q)" for b
      using i1 that river_insert_many(2) [OF assms(2) _ branch_pages_opts [OF pg]] by (auto split: if_splits)
    have m2: "live R b j2" if "live R b j1" for b
      using i2 that river_insert(1) [OF assms(2)] by (auto split: if_splits sum.splits)
    have "rows_live R g1 j2" using rl by (rule rows_live_jobs) (use m1 m2 in blast)
    with Cons.IH [OF n] m1 m2 show ?thesis by (auto simp: queue_inv_rows)
  qed
qed simp

theorem batch_outcome:
  assumes "river_ok R" and "queue_inv R (di_queue st)" and "distinct (map fst (di_deliveries st))"
    and "dispatchBatchAttempt ts decode headers cfg R w env st = Inr (n, unmatched, st')"
  defines "cand \<equiv> claim_candidates (ae_claimNow env) (ae_locked env) (nat (cf_batchSize cfg)) (di_deliveries st)"
  shows "queue_inv R (di_queue st') \<and> n = length cand \<and>
    (\<forall>g. g \<notin> fst ` set cand \<longrightarrow> map_of (di_deliveries st') g = map_of (di_deliveries st) g) \<and>
    (\<forall>(g, d) \<in> set cand. \<exists>d'. map_of (di_deliveries st') g = Some d' \<and>
      delivery_settled R w (di_cache st) cfg (ae_setNow env) (di_queue st')
        (classifyStored decode headers (cf_rules cfg) (dv_event d) (dv_body d) (dv_headers d)) d d')"
proof (cases "cand = []")
  case True
  with assms(2,4) show ?thesis by (simp add: dispatchBatchAttempt_def ClaimWebhookDeliveries_def Let_def cand_def)
next
  case False
  let ?claimed = "map (\<lambda>(g, d). (g, claimed_row d)) cand"
  note c = cand_def [THEN meta_eq_to_obj_eq]
  obtain acc c2 q2 where cls: "classify_deliveries decode headers cfg w (di_cache st) ?claimed empty_acc = Inr acc"
    and push: "ba_pushes acc = [] \<and> q2 = di_queue st \<or>
      apply_pushes R w cfg (ba_pushes acc) (di_cache st, di_queue st) = Inr (c2, q2)"
    and enq: "enqueue_intents ts (ae_lock env) (ae_txNow env) (ae_now env + cf_debounce cfg) R
      (ba_intents acc) (ba_received acc) q2 = Inr (di_queue st')"
    and set_eq: "di_deliveries st' = fst (SetWebhookDeliveryResults (ae_setNow env) (ba_results acc)
      (map (\<lambda>(g, d). (g, if g \<in> set (map fst cand) then claimed_row d else d)) (di_deliveries st)))"
    and n: "n = length cand"
    by (rule attempt_Inr [OF assms(4) c False])
  note spec = classify_deliveries_spec [OF cls]
  have "queue_inv R q2" using push pushes_effect [OF _ assms(1,2)] assms(2) by blast
  note eff = enqueue_effect [OF enq assms(1) this]
  have res: "ba_results acc = map (\<lambda>(g, d). delivery_result decode headers cfg g d) ?claimed"
    using spec by (simp add: empty_acc_def)
  note rows = batch_rows [OF assms(3) c res set_eq]
  have "\<exists>d'. map_of (di_deliveries st') g = Some d' \<and>
      delivery_settled R w (di_cache st) cfg (ae_setNow env) (di_queue st')
        (classifyStored decode headers (cf_rules cfg) (dv_event d) (dv_body d) (dv_headers d)) d d'"
    if m: "(g, d) \<in> set cand" for g d
  proof (intro exI conjI, rule rows(2) [OF m], rule settledI)
    fix x assume x: "classifyStored decode headers (cf_rules cfg) (dv_event d) (dv_body d) (dv_headers d) = Inr x"
    have "(g, claimed_row d) \<in> set ?claimed" using m by force
    with spec x obtain "is" where "kept_intents w (di_cache st) x = Inr is" "set is \<subseteq> set (ba_intents acc)"
      by (fastforce simp: claimed_row_def)
    with eff show "\<exists>is. kept_intents w (di_cache st) x = Inr is \<and>
        (\<forall>i \<in> set is. has_live R (in_kind i, in_key i) (qs_jobs (di_queue st')) \<and>
          (\<exists>r. map_of (qs_gens (di_queue st')) (in_kind i, in_key i) = Some r \<and> outstanding r))" by blast
  qed
  with eff n rows(1) show ?thesis by blast
qed

end

text \<open>The dispatcher never moves a pointer that is already queued: when a unique insert of River
  keeps the active jobs as they are, every active job keeps its schedule, also one scheduled later
  than the debounce window of the event. (In the example a sweep has put the pointer ten minutes
  out, and the event that coalesces onto it leaves it there, although the event's own schedule is
  five seconds away; \<open>InsertRefreshesTxReturning\<close> makes such a pointer available at once.)\<close>

theorem dispatch_keeps_schedules:
  assumes "\<And>ps q rs q'. rv_insert_many R ps q = Inr (rs, q') \<Longrightarrow>
      \<forall>j \<in> set (rv_jobs R q). jb_state j \<in> set active_states \<longrightarrow> j \<in> set (rv_jobs R q')"
    and "enqueue_intents ts lock txNow sched R intents received q = Inr q'"
    and "j \<in> set (rv_jobs R (qs_jobs q))" and "jb_state j \<in> set active_states"
  shows "j \<in> set (rv_jobs R (qs_jobs q'))"
proof (cases "intents = []")
  case True
  with assms(2,3) show ?thesis by (simp add: enqueue_intents_def)
next
  case False
  with assms(2) obtain ps rs where "rv_insert_many R ps (qs_jobs q) = Inr (rs, qs_jobs q')"
    by (auto simp: enqueue_intents_def Let_def split: option.splits sum.splits if_splits)
  from assms(1) [OF this] assms(3,4) show ?thesis by blast
qed

lemma lr_insert_keeps: "lr_insert a io q = (r, q') \<Longrightarrow> set q \<subseteq> set q'"
  by (auto simp: lr_insert_def Let_def split: option.splits)

lemma lr_insert_many_keeps: "lr_insert_many ps q = (rs, q') \<Longrightarrow> set q \<subseteq> set q'"
proof (induction ps q arbitrary: rs q' rule: lr_insert_many.induct)
  case (2 a io ps q)
  obtain r q1 where r: "lr_insert a io q = (r, q1)" by fastforce
  obtain rs2 q2 where m: "lr_insert_many ps q1 = (rs2, q2)" by fastforce
  have "set q1 \<subseteq> set q2" by (rule "2.IH" [OF r [symmetric] m])
  with lr_insert_keeps [OF r] "2.prems" r m show ?case by auto
qed simp

definition demo_sweep_job :: Job where
  "demo_sweep_job = \<lparr>jb_id = 0, jb_args = NewRefreshPRArgs ''pr:o/r:7'', jb_queue = QueueEvent,
     jb_state = Scheduled, jb_scheduledAt = 700 * second\<rparr>"

definition demo_intent :: Intent where
  "demo_intent = \<lparr>in_kind = KindRefreshPR, in_key = ''pr:o/r:7'', in_priority = PriorityEvent\<rparr>"

lemma demo_coalesced:
  "case enqueue_intents id (\<lambda>_. None) (100 * second) (105 * second) list_river [demo_intent] Map.empty
     \<lparr>qs_gens = [], qs_jobs = [demo_sweep_job]\<rparr> of
     Inl _ \<Rightarrow> False | Inr q \<Rightarrow> length (qs_jobs q) = 1 \<and> map (gr_generation \<circ> snd) (qs_gens q) = [1]"
  by code_simp

theorem dispatch_keeps_schedules_witness:
  "\<exists>q. enqueue_intents id (\<lambda>_. None) (100 * second) (105 * second) list_river [demo_intent] Map.empty
     \<lparr>qs_gens = [], qs_jobs = [demo_sweep_job]\<rparr> = Inr q \<and> qs_jobs q = [demo_sweep_job] \<and>
     105 * second + MaxDebounce < jb_scheduledAt demo_sweep_job"
proof -
  obtain q where q: "enqueue_intents id (\<lambda>_. None) (100 * second) (105 * second) list_river [demo_intent] Map.empty
     \<lparr>qs_gens = [], qs_jobs = [demo_sweep_job]\<rparr> = Inr q" and l: "length (qs_jobs q) = 1"
    using demo_coalesced by (auto split: sum.splits)
  have "demo_sweep_job \<in> set (rv_jobs list_river (qs_jobs q))"
    by (rule dispatch_keeps_schedules [OF _ q])
      (auto simp: list_river_ops demo_sweep_job_def active_states_def dest: lr_insert_many_keeps)
  with l have "qs_jobs q = [demo_sweep_job]" by (auto simp: list_river_ops length_Suc_conv)
  with q show ?thesis by (simp add: MaxDebounce_def demo_sweep_job_def second_def)
qed

end
