(* ===== verification/Branch_Properties.thy ===== *)
theory Branch_Properties
  imports Branch_Pages Dispatch_Properties
begin

text \<open>
  Properties of the branch bulk path: the writer keeps the contract the dispatcher relies on, a
  push moves exactly the rows that match it and publishes every move, redelivery is a no-op, the
  generations of all targets are claimed, and a reconciliation is complete exactly when none of
  its pages is pending.
\<close>

section \<open>The generation claims\<close>

lemma claim_generation_lookup:
  "map_of (claim_generation now k t) k' =
     (if k' = k then Some (let g = (case map_of t k of None \<Rightarrow> 1 | Some r \<Rightarrow> gr_generation r + 1) in
        \<lparr>gr_generation = g, gr_completed = g, gr_deadline = None, gr_event = None, gr_updated = now\<rparr>)
      else map_of t k')"
  by (simp add: claim_generation_def Let_def AList.update_conv')

lemma claim_generations_other: "k \<notin> set ks \<Longrightarrow> map_of (fold (claim_generation now) ks t) k = map_of t k"
  by (induction ks arbitrary: t) (auto simp: claim_generation_lookup)

lemma claim_generations_lookup:
  "distinct ks \<Longrightarrow> k \<in> set ks \<Longrightarrow>
   map_of (fold (claim_generation now) ks t) k = map_of (claim_generation now k t) k"
proof (induction ks arbitrary: t)
  case (Cons x ks)
  then show ?case
    by (cases "k = x") (auto simp: claim_generations_other claim_generation_lookup)
qed simp

lemma claim_generations_distinct:
  "distinct (map fst t) \<Longrightarrow> distinct (map fst (fold (claim_generation now) ks t))"
  by (induction ks arbitrary: t) (auto simp: claim_generation_def Let_def distinct_update)

lemma claim_row_ok:
  assumes "map_of (claim_generation now k t) k = Some r'" and "\<forall>k r. map_of t k = Some r \<longrightarrow> row_ok r"
  shows "row_ok r' \<and> \<not> outstanding r'"
proof (cases "map_of t k")
  case None
  with assms(1) show ?thesis by (auto simp: claim_generation_lookup row_ok_def outstanding_def)
next
  case (Some r)
  with assms(2) have "row_ok r" by blast
  then have "0 < gr_generation r" by (simp add: row_ok_def)
  with assms(1) Some show ?thesis by (auto simp: claim_generation_lookup row_ok_def outstanding_def Let_def)
qed

lemma keys_distinct: "distinct (ListBranchReconciliationGenerationKeys h c)"
  by (simp add: ListBranchReconciliationGenerationKeys_def)

lemma advance_Inr:
  assumes "AdvanceBranchReconciliationTargetGenerations h now c t = Inr (t', targets)"
  shows "t' = fold (claim_generation now) (ListBranchReconciliationGenerationKeys h c) t"
    and "targets = map (\<lambda>(k, entity). \<lparr>rt_kind = fst k, rt_key = snd k, rt_entity = entity,
      rt_generation = (case map_of t' k of None \<Rightarrow> 0 | Some r \<Rightarrow> gr_generation r)\<rparr>) (page_targets h c)"
  using assms by (auto simp: AdvanceBranchReconciliationTargetGenerations_def Let_def split: if_splits)

lemma push_cases:
  assumes "ApplyBranchPushTx env p (c, g) = Inr (bulk, c', g')"
  obtains (skipped) "BeginBranchReconciliation p (we_appliedAt env (pp_guid p)) c = None" "bulk = no_bulk" "c' = c" "g' = g"
  | (applied) repo gen sup c1 events b1 targets where
    "BeginBranchReconciliation p (we_appliedAt env (pp_guid p)) c = Some (repo, gen, sup, c1)"
    "ApplyBranchHintTransition (pp_hint p) (we_appliedAt env (pp_guid p)) c1 = (c', events)"
    "tally (we_hook env) events (no_bulk\<lparr>bb_repo := repo, bb_generation := gen, bb_superseded := sup\<rparr>) = Inr b1"
    "AdvanceBranchReconciliationTargetGenerations (pp_hint p) (we_appliedAt env (pp_guid p)) c' g = Inr (g', targets)"
    "bulk = b1\<lparr>bb_repositoryKey := repository_key (ListBranchReconciliationGenerationKeys (pp_hint p) c'),
       bb_targets := sort_key (\<lambda>t. (rt_kind t, rt_key t)) targets\<rparr>"
  using assms unfolding ApplyBranchPushTx_def Let_def
  by (auto split: if_splits option.splits prod.splits sum.splits)

lemma push_generations:
  assumes "ApplyBranchPushTx env p (c, g) = Inr (bulk, c', g')"
  shows "g' = g \<or> g' = fold (claim_generation (we_appliedAt env (pp_guid p)))
    (ListBranchReconciliationGenerationKeys (pp_hint p) c') g"
  using assms by (cases rule: push_cases) (auto dest: advance_Inr(1))

interpretation bw: entity_writer "branch_writer env" for env
proof
  fix p c g b c' g' k r'
  assume "wr_apply (branch_writer env) p (c, g) = Inr (b, c', g')"
  then have "ApplyBranchPushTx env p (c, g) = Inr (b, c', g')" by (simp add: branch_writer_def)
  note g' = push_generations [OF this]
  show "distinct (map fst g')" if "distinct (map fst g)" using g' that claim_generations_distinct by auto
  show "map_of g k = Some r' \<or> row_ok r' \<and> \<not> outstanding r'"
    if ok: "\<forall>k r. map_of g k = Some r \<longrightarrow> row_ok r" and look: "map_of g' k = Some r'"
  proof (cases "g' = g \<or> k \<notin> set (ListBranchReconciliationGenerationKeys (pp_hint p) c')")
    case True
    with g' look show ?thesis by (auto simp: claim_generations_other)
  next
    case False
    with g' look have "map_of (claim_generation (we_appliedAt env (pp_guid p)) k g) k = Some r'"
      by (auto simp: claim_generations_lookup [OF keys_distinct])
    with ok show ?thesis using claim_row_ok by blast
  qed
qed

section \<open>The dispatch batch\<close>

text \<open>C9: a committed dispatch batch loses nothing. Every claimed delivery that classifies is processed,
  and each intent it keeps is an outstanding generation with a live job; every claimed delivery that
  does not classify is parked when its attempts are used up and otherwise returns to the queue after
  the backoff; other deliveries are untouched; and the queue invariant (outstanding generations have
  live jobs) holds after the batch.\<close>

theorem dispatch_loses_nothing:
  assumes "river_ok R" and "queue_inv R (di_queue st)" and "distinct (map fst (di_deliveries st))"
    and "dispatchBatchAttempt ts decode headers cfg R (branch_writer wenv) env st = Inr (n, unmatched, st')"
  defines "cand \<equiv> claim_candidates (ae_claimNow env) (ae_locked env) (nat (cf_batchSize cfg)) (di_deliveries st)"
  shows "queue_inv R (di_queue st') \<and> n = length cand \<and>
    (\<forall>g. g \<notin> fst ` set cand \<longrightarrow> map_of (di_deliveries st') g = map_of (di_deliveries st) g) \<and>
    (\<forall>(g, d) \<in> set cand. \<exists>d'. map_of (di_deliveries st') g = Some d' \<and>
      delivery_settled R (branch_writer wenv) (di_cache st) cfg (ae_setNow env) (di_queue st')
        (classifyStored decode headers (cf_rules cfg) (dv_event d) (dv_body d) (dv_headers d)) d d')"
  unfolding cand_def by (rule bw.batch_outcome [OF assms(1-4)])

definition demo_writer_env :: writer_env where
  "demo_writer_env = \<lparr>we_appliedAt = (\<lambda>_. 100 * second), we_createdAt = (\<lambda>_ _ _. 100 * second), we_hook = (\<lambda>_. None),
     we_advisory = (\<lambda>_ _. True), we_rows = (\<lambda>_ _. True), we_fence = None\<rparr>"

definition demo_pull :: pull_row where
  "demo_pull = \<lparr>pu_repo = 1, pu_number = 7, pu_state = ''open'', pu_headRef = ''topic'', pu_headSHA = ''a1'',
     pu_baseRef = ''main'', pu_baseSHA = ''m1'', pu_reviewDecision = ''APPROVED'', pu_mergeableState = ''clean'',
     pu_etag = ''e'', pu_stack = None, pu_tombstoned = False\<rparr>"

definition demo_cache :: branch_cache where
  "demo_cache = \<lparr>bc_aliases = [(''o/r'', 1)],
     bc_repos = [\<lparr>rp_id = 1, rp_installation = 5, rp_ghID = 9, rp_defaultBranch = ''main'', rp_headSHA = ''m1'',
       rp_etag = [], rp_tombstoned = False\<rparr>],
     bc_pulls = [demo_pull], bc_stacks = [], bc_reconciliations = [], bc_pages = [], bc_dirty = [], bc_events = [],
     bc_seq = 41, bc_heartbeats = []\<rparr>"

definition demo_config :: Config where
  "demo_config = \<lparr>cf_batchSize = 10, cf_maxAttempts = 5, cf_debounce = 5 * second, cf_pollInterval = second,
     cf_rules = DefaultRules, cf_pageSize = 25\<rparr>"

definition demo_attempt_env :: attempt_env where
  "demo_attempt_env = \<lparr>ae_claimNow = 100 * second, ae_now = 100 * second, ae_txNow = 100 * second,
     ae_setNow = 100 * second, ae_locked = {}, ae_lock = (\<lambda>_. None)\<rparr>"

definition demo_push_payload :: payloadEnvelope where
  "demo_push_payload = demo_payload\<lparr>pl_action := [], pl_number := 0, pl_prNumber := 0, pl_ref := ''refs/heads/topic'',
     pl_before := ''a1'', pl_after := ''a2''\<rparr>"

definition demo_delivery :: delivery where
  "demo_delivery = \<lparr>dv_event = ''push'', dv_body = [], dv_headers = [], dv_receivedAt = 98 * second,
     dv_status = DPending, dv_attempts = 0, dv_lastError = None, dv_nextAttempt = 98 * second\<rparr>"

definition demo_dispatch :: "(branch_cache, Job list) dispatch_state" where
  "demo_dispatch = \<lparr>di_deliveries = [(''guid-1'', demo_delivery)], di_cache = demo_cache,
     di_queue = \<lparr>qs_gens = [], qs_jobs = []\<rparr>\<rparr>"

lemma demo_attempt:
  "case dispatchBatchAttempt id (\<lambda>_ _. Inr demo_push_payload) (\<lambda>_. Inr WebhookJSONContentType) demo_config list_river
     (branch_writer demo_writer_env) demo_attempt_env demo_dispatch of
     Inl _ \<Rightarrow> False | Inr (n, _, st) \<Rightarrow> n = 1 \<and> length (qs_jobs (di_queue st)) = 1"
  by code_simp

lemma demo_candidates:
  "claim_candidates (ae_claimNow demo_attempt_env) (ae_locked demo_attempt_env) (nat (cf_batchSize demo_config))
    (di_deliveries demo_dispatch) = [(''guid-1'', demo_delivery)]"
  by code_simp

theorem dispatch_loses_nothing_witness:
  "\<exists>unmatched st' d'. dispatchBatchAttempt id (\<lambda>_ _. Inr demo_push_payload) (\<lambda>_. Inr WebhookJSONContentType) demo_config
       list_river (branch_writer demo_writer_env) demo_attempt_env demo_dispatch = Inr (1, unmatched, st') \<and>
     map_of (di_deliveries st') ''guid-1'' = Some d' \<and> dv_attempts d' = 1"
proof -
  obtain n u st' where r: "dispatchBatchAttempt id (\<lambda>_ _. Inr demo_push_payload) (\<lambda>_. Inr WebhookJSONContentType)
      demo_config list_river (branch_writer demo_writer_env) demo_attempt_env demo_dispatch = Inr (n, u, st')" and n: "n = 1"
    using demo_attempt by (auto split: sum.splits prod.splits)
  have inv: "queue_inv list_river (di_queue demo_dispatch)" "distinct (map fst (di_deliveries demo_dispatch))"
    by (simp_all add: queue_inv_def demo_dispatch_def)
  have "\<forall>(g, d) \<in> set [(''guid-1'', demo_delivery)]. \<exists>d'. map_of (di_deliveries st') g = Some d' \<and>
      dv_attempts d' = dv_attempts d + 1"
    using dispatch_loses_nothing [OF list_river_ok inv r] unfolding demo_candidates delivery_settled_def by blast
  then show ?thesis using r n by (simp add: demo_delivery_def)
qed

section \<open>What a push moves\<close>

definition demo_push :: pendingBranchPush where
  "demo_push = \<lparr>pp_hint = \<lparr>bh_repo = ''o/r'', bh_branch = ''topic'', bh_before = ''a1'', bh_after = ''a2'',
     bh_transitionKnown = True, bh_deleted = False, bh_forced = False\<rparr>, pp_guid = ''guid-1'', pp_receivedAt = 98 * second\<rparr>"

lemma demo_push_result:
  "case ApplyBranchPushTx demo_writer_env demo_push (demo_cache, []) of
     Inl _ \<Rightarrow> False | Inr (bulk, c', g') \<Rightarrow> bb_repo bulk = 1 \<and> bb_generation bulk = 1 \<and> map rt_generation (bb_targets bulk) = [1] \<and>
       length (bc_events c') = 1"
  by code_simp

lemma begin_Some:
  assumes "BeginBranchReconciliation p now c = Some (i, g, n, c1)"
  obtains repo where "find_repository (bh_repo (pp_hint p)) c = Some repo" "i = rp_id repo"
    "case map_of (bc_reconciliations c) (i, bh_branch (pp_hint p)) of
       None \<Rightarrow> g = 1 | Some old \<Rightarrow> bn_guid old \<noteq> pp_guid p \<and> g = bn_generation old + 1"
    "c1 = c\<lparr>bc_reconciliations := AList.update (i, bh_branch (pp_hint p)) (fresh_reconciliation p now g) (bc_reconciliations c),
       bc_pages := map (\<lambda>x. if supersedes (i, bh_branch (pp_hint p)) g x then (fst x, supersede_page now (snd x)) else x)
         (bc_pages c)\<rparr>"
  using assms by (auto simp: BeginBranchReconciliation_def Let_def split: option.splits if_splits)

lemma find_repository_cong:
  "bc_aliases c' = bc_aliases c \<Longrightarrow> bc_repos c' = bc_repos c \<Longrightarrow> find_repository name c' = find_repository name c"
  by (simp add: find_repository_def cong: option.case_cong)

lemma find_repository_alias: "find_repository name c = Some r \<Longrightarrow> map_of (bc_aliases c) name = Some (rp_id r)"
  by (auto simp: find_repository_def find_Some_iff split: option.splits)

lemma tally_keeps:
  "tally hook es b = Inr b' \<Longrightarrow> bb_repo b' = bb_repo b \<and> bb_generation b' = bb_generation b \<and>
     bb_repositories b' + bb_pullRequests b' + bb_stacks b' =
     bb_repositories b + bb_pullRequests b + bb_stacks b + int (length es)"
proof (induction hook es b rule: tally.induct)
  case (2 hook e es b)
  then show ?case by (auto split: if_splits option.splits)
qed simp

lemma transition_eq:
  assumes "ApplyBranchHintTransition h now c1 = (c', events)" and "find_repository (bh_repo h) c1 = Some repo"
  shows "bc_repos c' = map (\<lambda>r. if rp_id r = rp_id repo \<and> moves_repository h r then move_repository h r else r) (bc_repos c1)"
    and "bc_pulls c' = map (\<lambda>p. if moves_pull h repo p then move_pull h p else p) (bc_pulls c1)"
    and "bc_stacks c' = map (\<lambda>s. if moves_stack h repo s then move_stack h s else s) (bc_stacks c1)"
    and "bc_events c' = bc_events c1 @ events"
    and "bc_seq c' = bc_seq c1 + int (length events)"
    and "events = insert_events now (bc_seq c1) (sort (event_inputs h repo c1))"
    and "bc_dirty c' = fold (mark_dirty now) (remdups (map (pull_scope repo) (filter (moves_pull h repo) (bc_pulls c1)) @
          map (\<lambda>s. StackKey (rp_installation repo) (rp_ghID repo) (sk_number s)) (filter (moves_stack h repo) (bc_stacks c1))))
          (bc_dirty c1)"
    and "bc_reconciliations c' = bc_reconciliations c1" and "bc_pages c' = bc_pages c1" and "bc_aliases c' = bc_aliases c1"
  using assms by (auto simp: ApplyBranchHintTransition_def Let_def)

text \<open>A push that was applied: its repository, and the tables after it.\<close>

lemma push_applied:
  assumes "ApplyBranchPushTx env p (c, g) = Inr (bulk, c', g')" and "bb_repo bulk \<noteq> 0"
  obtains repo c1 events where "find_repository (bh_repo (pp_hint p)) c = Some repo" "rp_id repo = bb_repo bulk"
    "BeginBranchReconciliation p (we_appliedAt env (pp_guid p)) c = Some (bb_repo bulk, bb_generation bulk, bb_superseded bulk, c1)"
    "ApplyBranchHintTransition (pp_hint p) (we_appliedAt env (pp_guid p)) c1 = (c', events)"
    "find_repository (bh_repo (pp_hint p)) c1 = Some repo"
    "bb_repositories bulk + bb_pullRequests bulk + bb_stacks bulk = int (length events)"
    "bc_repos c1 = bc_repos c" "bc_pulls c1 = bc_pulls c" "bc_stacks c1 = bc_stacks c" "bc_events c1 = bc_events c"
    "bc_seq c1 = bc_seq c" "bc_dirty c1 = bc_dirty c"
  using assms(1)
proof (cases rule: push_cases)
  case skipped
  with assms(2) show ?thesis by (simp add: no_bulk_def)
next
  case (applied repo gen sup c1 events b1 targets)
  have sup: "tally hook es b = Inr b' \<Longrightarrow> bb_superseded b' = bb_superseded b" for hook es b b'
    by (induction hook es b rule: tally.induct) (auto split: if_splits option.splits)
  note t = tally_keeps [OF applied(3)]
  have ids: "bb_repo bulk = repo" "bb_generation bulk = gen" "bb_superseded bulk = sup"
    using t sup [OF applied(3)] applied(5) by simp_all
  from applied(1) obtain r where r: "find_repository (bh_repo (pp_hint p)) c = Some r" "repo = rp_id r"
    and c1: "c1 = c\<lparr>bc_reconciliations := AList.update (repo, bh_branch (pp_hint p))
        (fresh_reconciliation p (we_appliedAt env (pp_guid p)) gen) (bc_reconciliations c),
       bc_pages := map (\<lambda>x. if supersedes (repo, bh_branch (pp_hint p)) gen x
         then (fst x, supersede_page (we_appliedAt env (pp_guid p)) (snd x)) else x) (bc_pages c)\<rparr>"
    by (rule begin_Some) blast
  have "find_repository (bh_repo (pp_hint p)) c1 = Some r"
    using r(1) find_repository_cong [of c1 c] by (simp add: c1)
  with that [OF r(1)] applied ids r(2) t show ?thesis by (simp add: c1 no_bulk_def)
qed

lemma move_pull_shas:
  fixes h repo p
  defines "p' \<equiv> if moves_pull h repo p then move_pull h p else p"
    and "here \<equiv> pu_repo p = rp_id repo \<and> \<not> pu_tombstoned p \<and> pu_state p = ''open'' \<and> bh_transitionKnown h"
  shows "pu_headSHA p' = (if here \<and> pu_headRef p = bh_branch h \<and> pu_headSHA p = bh_before h then bh_after h else pu_headSHA p)"
    and "pu_baseSHA p' = (if here \<and> pu_baseRef p = bh_branch h \<and> pu_baseSHA p = bh_before h then bh_after h else pu_baseSHA p)"
proof -
  consider "moves_pull h repo p" | "\<not> moves_pull h repo p" "p' = p" unfolding p'_def by fastforce
  then have "pu_headSHA p' = (if here \<and> pu_headRef p = bh_branch h \<and> pu_headSHA p = bh_before h then bh_after h else pu_headSHA p) \<and>
    pu_baseSHA p' = (if here \<and> pu_baseRef p = bh_branch h \<and> pu_baseSHA p = bh_before h then bh_after h else pu_baseSHA p)"
  proof cases
    case 1
    then have "p' = move_pull h p" and here unfolding p'_def here_def moves_pull_def by simp_all
    then show ?thesis by (simp add: move_pull_def)
  next
    case 2
    then show ?thesis unfolding here_def moves_pull_def by auto
  qed
  then show "pu_headSHA p' = (if here \<and> pu_headRef p = bh_branch h \<and> pu_headSHA p = bh_before h then bh_after h else pu_headSHA p)"
    and "pu_baseSHA p' = (if here \<and> pu_baseRef p = bh_branch h \<and> pu_baseSHA p = bh_before h then bh_after h else pu_baseSHA p)"
    by simp_all
qed

lemma moved_pull_differs: "moves_pull h repo p \<Longrightarrow> move_pull h p \<noteq> p"
proof
  assume m: "moves_pull h repo p" and eq: "move_pull h p = p"
  from arg_cong [OF eq, of pu_headSHA] arg_cong [OF eq, of pu_baseSHA] m show False
    by (auto simp: moves_pull_def move_pull_def split: if_splits)
qed

lemma move_entries_id:
  "\<not> list_ex (\<lambda>e. se_headRef e = bh_branch h \<and> se_headSHA e = bh_before h) es \<Longrightarrow> map (move_entry h) es = es"
  by (auto simp: move_entry_def list_ex_iff intro!: map_idI)

lemma move_stack_shas:
  fixes h repo s
  defines "s' \<equiv> if moves_stack h repo s then move_stack h s else s"
    and "here \<equiv> sk_repo s = rp_id repo \<and> \<not> sk_tombstoned s \<and> bh_transitionKnown h"
  shows "sk_baseSHA s' = (if here \<and> sk_baseRef s = bh_branch h \<and> sk_baseSHA s = bh_before h then bh_after h else sk_baseSHA s)"
    and "sk_entries s' = (if here then map (move_entry h) (sk_entries s) else sk_entries s)"
proof -
  show "sk_baseSHA s' = (if here \<and> sk_baseRef s = bh_branch h \<and> sk_baseSHA s = bh_before h then bh_after h else sk_baseSHA s)"
    by (auto simp: s'_def here_def moves_stack_def stack_candidate_def move_stack_def new_base_def Let_def)
  show "sk_entries s' = (if here then map (move_entry h) (sk_entries s) else sk_entries s)"
    using move_entries_id [of h "sk_entries s"]
    by (auto simp: s'_def here_def moves_stack_def stack_candidate_def move_stack_def Let_def)
qed



section \<open>What a push publishes\<close>

lemma insert_events_length [simp]: "length (insert_events at n xs) = length xs"
  by (induction at n xs rule: insert_events.induct) auto

lemma insert_events_nth:
  "i < length xs \<Longrightarrow> insert_events at n xs ! i =
     \<lparr>ce_seq = n + 1 + int i, ce_kind = snd (xs ! i), ce_entity = fst (xs ! i), ce_occurredAt = at\<rparr>"
proof (induction at n xs arbitrary: i rule: insert_events.induct)
  case (2 at n entity kind xs)
  then show ?case by (cases i) auto
qed simp

lemma insert_events_member:
  "(entity, kind) \<in> set xs \<Longrightarrow> \<exists>e \<in> set (insert_events at n xs). ce_entity e = entity \<and> ce_kind e = kind \<and> ce_occurredAt e = at"
  by (induction at n xs rule: insert_events.induct) auto

lemma mark_dirty_lookup:
  "map_of (mark_dirty now s t) s' = (if s' = s then Some (case map_of t s of None \<Rightarrow> now | Some old \<Rightarrow> max old now) else map_of t s')"
  by (simp add: mark_dirty_def AList.update_conv' split: option.split)

lemma mark_dirty_keeps: "map_of t s = Some old \<Longrightarrow> \<exists>new. map_of (fold (mark_dirty now) ss t) s = Some new \<and> old \<le> new"
proof (induction ss arbitrary: t old)
  case (Cons x ss)
  show ?case
  proof (cases "s = x")
    case True
    with Cons.prems have "map_of (mark_dirty now x t) s = Some (max old now)" by (simp add: mark_dirty_lookup)
    from Cons.IH [OF this] show ?thesis by auto
  next
    case False
    with Cons.prems have "map_of (mark_dirty now x t) s = Some old" by (simp add: mark_dirty_lookup)
    from Cons.IH [OF this] show ?thesis by simp
  qed
qed auto

lemma mark_dirty_marks: "s \<in> set ss \<Longrightarrow> \<exists>t'. map_of (fold (mark_dirty now) ss t) s = Some t' \<and> now \<le> t'"
proof (induction ss arbitrary: t)
  case (Cons x ss)
  show ?case
  proof (cases "s = x")
    case True
    obtain u where "map_of (mark_dirty now x t) s = Some u" "now \<le> u"
      using True by (auto simp: mark_dirty_lookup split: option.split)
    with mark_dirty_keeps [of "mark_dirty now x t" s u] show ?thesis by fastforce
  next
    case False
    with Cons show ?thesis by simp
  qed
qed simp

text \<open>No silent move. Every row a push changes has its change event of this transaction (the repository,
  each pull request, each stack), with consecutive sequence numbers after those allocated before and
  the transaction's time; and the derivation scope of every changed pull request and stack is marked
  dirty, not earlier than the push. The counts in the result are those of the events.\<close>

theorem push_publishes_moves:
  assumes "ApplyBranchPushTx env p (c, g) = Inr (bulk, c', g')" and "bb_repo bulk \<noteq> 0"
  defines "h \<equiv> pp_hint p" and "now \<equiv> we_appliedAt env (pp_guid p)"
  shows "\<exists>repo events. find_repository (bh_repo h) c = Some repo \<and> bc_events c' = bc_events c @ events \<and>
    (\<forall>i < length events. ce_seq (events ! i) = bc_seq c + 1 + int i \<and> ce_occurredAt (events ! i) = now) \<and>
    bc_seq c' = bc_seq c + int (length events) \<and>
    bb_repositories bulk + bb_pullRequests bulk + bb_stacks bulk = int (length events) \<and>
    (moves_repository h repo \<longrightarrow> (\<exists>e \<in> set events. ce_kind e = RepositoryChangedKind \<and>
       ce_entity e = RepositoryKey (rp_installation repo) (rp_ghID repo))) \<and>
    (\<forall>i < length (bc_pulls c). bc_pulls c' ! i \<noteq> bc_pulls c ! i \<longrightarrow>
       (\<exists>e \<in> set events. ce_kind e = PullRequestChangedKind \<and>
          ce_entity e = PullRequestKey (rp_installation repo) (rp_ghID repo) (pu_number (bc_pulls c ! i))) \<and>
       (\<exists>t. map_of (bc_dirty c') (pull_scope repo (bc_pulls c ! i)) = Some t \<and> now \<le> t)) \<and>
    (\<forall>i < length (bc_stacks c). bc_stacks c' ! i \<noteq> bc_stacks c ! i \<longrightarrow>
       (\<exists>e \<in> set events. ce_kind e = StackChangedKind \<and>
          ce_entity e = StackKey (rp_installation repo) (rp_ghID repo) (sk_number (bc_stacks c ! i))) \<and>
       (\<exists>t. map_of (bc_dirty c') (StackKey (rp_installation repo) (rp_ghID repo) (sk_number (bc_stacks c ! i))) = Some t \<and> now \<le> t))"
proof -
  obtain repo c1 events where f0: "find_repository (bh_repo h) c = Some repo" and f: "find_repository (bh_repo h) c1 = Some repo"
    and t: "ApplyBranchHintTransition h now c1 = (c', events)"
    and n: "bb_repositories bulk + bb_pullRequests bulk + bb_stacks bulk = int (length events)"
    and same: "bc_pulls c1 = bc_pulls c" "bc_stacks c1 = bc_stacks c" "bc_events c1 = bc_events c" "bc_seq c1 = bc_seq c"
    unfolding h_def now_def by (rule push_applied [OF assms(1,2)])
  note eq = transition_eq [OF t f, unfolded same]
  let ?xs = "sort (event_inputs h repo c1)"
  have ev: "\<exists>e \<in> set events. ce_kind e = k \<and> ce_entity e = x" if "(x, k) \<in> set (event_inputs h repo c1)" for x k
    using insert_events_member [of x k ?xs now "bc_seq c"] that by (auto simp: eq(6))
  have pulls: "moves_pull h repo (bc_pulls c ! i)" "bc_pulls c ! i \<in> set (bc_pulls c)"
    if "i < length (bc_pulls c)" "bc_pulls c' ! i \<noteq> bc_pulls c ! i" for i
    using that by (auto simp: eq(2) split: if_splits)
  have stacks: "moves_stack h repo (bc_stacks c ! i)" "bc_stacks c ! i \<in> set (bc_stacks c)"
    if "i < length (bc_stacks c)" "bc_stacks c' ! i \<noteq> bc_stacks c ! i" for i
    using that by (auto simp: eq(3) split: if_splits)
  have dirty: "\<exists>u. map_of (bc_dirty c') s = Some u \<and> now \<le> u"
    if "s \<in> pull_scope repo ` {q \<in> set (bc_pulls c). moves_pull h repo q} \<union>
      (\<lambda>s. StackKey (rp_installation repo) (rp_ghID repo) (sk_number s)) ` {s \<in> set (bc_stacks c). moves_stack h repo s}" for s
    unfolding eq(7) by (rule mark_dirty_marks) (use that in simp)
  have seqs: "ce_seq (events ! i) = bc_seq c + 1 + int i \<and> ce_occurredAt (events ! i) = now" if "i < length events" for i
    using that insert_events_nth [of i ?xs now "bc_seq c"] by (simp add: eq(6))
  have inputs: "set (event_inputs h repo c1) =
      (if moves_repository h repo then {(RepositoryKey (rp_installation repo) (rp_ghID repo), RepositoryChangedKind)} else {}) \<union>
      (\<lambda>q. (PullRequestKey (rp_installation repo) (rp_ghID repo) (pu_number q), PullRequestChangedKind)) `
        {q \<in> set (bc_pulls c). moves_pull h repo q} \<union>
      (\<lambda>s. (StackKey (rp_installation repo) (rp_ghID repo) (sk_number s), StackChangedKind)) `
        {s \<in> set (bc_stacks c). moves_stack h repo s}"
    by (simp add: event_inputs_def same Un_assoc)
  show ?thesis
    by (intro exI [of _ repo] exI [of _ events] conjI allI impI f0 n eq(4,5) ev dirty)
      (use seqs pulls stacks in \<open>auto simp: inputs\<close>)
qed

theorem push_publishes_moves_witness:
  "\<exists>bulk c' g' e. ApplyBranchPushTx demo_writer_env demo_push (demo_cache, []) = Inr (bulk, c', g') \<and>
     bc_events c' = [e] \<and> ce_seq e = 42"
proof -
  obtain bulk c' g' where r: "ApplyBranchPushTx demo_writer_env demo_push (demo_cache, []) = Inr (bulk, c', g')"
    and b: "bb_repo bulk = 1" and l: "length (bc_events c') = 1"
    using demo_push_result by (auto split: sum.splits prod.splits)
  obtain events where ev: "bc_events c' = bc_events demo_cache @ events"
    "\<forall>i < length events. ce_seq (events ! i) = bc_seq demo_cache + 1 + int i"
    using push_publishes_moves [OF r] b by auto
  with l obtain e where "events = [e]" by (auto simp: demo_cache_def length_Suc_conv)
  with r ev show ?thesis by (simp add: demo_cache_def)
qed

section \<open>Redelivery and claims\<close>

lemma begin_recorded:
  assumes "BeginBranchReconciliation p now c = Some (i, g, n, c1)"
  shows "map_of (bc_reconciliations c1) (i, bh_branch (pp_hint p)) = Some (fresh_reconciliation p now g)"
  using assms by (rule begin_Some) (simp add: AList.update_conv')

text \<open>A push is applied once. When the delivery that is the last one recorded for its branch comes again, nothing
  changes: no SHA, no generation, no event, no page.\<close>

theorem redelivered_push_is_noop:
  assumes "ApplyBranchPushTx env p (c, g) = Inr (bulk, c', g')"
  shows "ApplyBranchPushTx env' p (c', g') = Inr (no_bulk, c', g')"
proof -
  have ok: "\<not> (bh_repo (pp_hint p) = [] \<or> bh_branch (pp_hint p) = [] \<or> pp_guid p = [] \<or> isZero (pp_receivedAt p))"
    using assms by (auto simp: ApplyBranchPushTx_def Let_def split: if_splits)
  have "BeginBranchReconciliation p now c' = None" for now
    using assms
  proof (cases rule: push_cases)
    case skipped
    then show ?thesis by (auto simp: BeginBranchReconciliation_def Let_def split: option.splits if_splits)
  next
    case (applied repo gen sup c1 events b1 targets)
    obtain r where r: "find_repository (bh_repo (pp_hint p)) c = Some r" "repo = rp_id r"
      and c1: "bc_aliases c1 = bc_aliases c" "bc_repos c1 = bc_repos c"
      using applied(1) by (rule begin_Some) simp
    have f: "find_repository (bh_repo (pp_hint p)) c1 = Some r" using r(1) find_repository_cong [OF c1] by simp
    note eq = transition_eq [OF applied(2) f]
    have "find_repository (bh_repo (pp_hint p)) c' = None \<or>
        (\<exists>r'. find_repository (bh_repo (pp_hint p)) c' = Some r' \<and> rp_id r' = repo)"
      using find_repository_alias [OF f] find_repository_alias [of "bh_repo (pp_hint p)" c'] r(2)
      by (cases "find_repository (bh_repo (pp_hint p)) c'") (auto simp: eq(10))
    moreover have "map_of (bc_reconciliations c') (repo, bh_branch (pp_hint p)) =
        Some (fresh_reconciliation p (we_appliedAt env (pp_guid p)) gen)"
      using begin_recorded [OF applied(1)] by (simp add: eq(8))
    ultimately show ?thesis by (auto simp: BeginBranchReconciliation_def fresh_reconciliation_def)
  qed
  with ok show ?thesis by (simp add: ApplyBranchPushTx_def Let_def)
qed

theorem redelivered_push_is_noop_witness:
  "\<exists>bulk c' g'. ApplyBranchPushTx demo_writer_env demo_push (demo_cache, []) = Inr (bulk, c', g') \<and> bb_repo bulk = 1 \<and>
     ApplyBranchPushTx demo_writer_env demo_push (c', g') = Inr (no_bulk, c', g')"
proof -
  obtain bulk c' g' where r: "ApplyBranchPushTx demo_writer_env demo_push (demo_cache, []) = Inr (bulk, c', g')"
    and b: "bb_repo bulk = 1"
    using demo_push_result by (auto split: sum.splits prod.splits)
  from r b redelivered_push_is_noop [OF r] show ?thesis by blast
qed

lemma begin_pages:
  assumes "BeginBranchReconciliation p now c = Some (i, g, n, c1)"
    and "(((i, bh_branch (pp_hint p)), g', k), r) \<in> set (bc_pages c1)" and "g' < g"
  shows "pn_status r \<noteq> PagePending"
  using assms(1)
proof (rule begin_Some)
  assume c1: "c1 = c\<lparr>bc_reconciliations := AList.update (i, bh_branch (pp_hint p)) (fresh_reconciliation p now g) (bc_reconciliations c),
       bc_pages := map (\<lambda>x. if supersedes (i, bh_branch (pp_hint p)) g x then (fst x, supersede_page now (snd x)) else x) (bc_pages c)\<rparr>"
  from assms(2) obtain x where "x \<in> set (bc_pages c)" and x: "(((i, bh_branch (pp_hint p)), g', k), r) =
      (if supersedes (i, bh_branch (pp_hint p)) g x then (fst x, supersede_page now (snd x)) else x)"
    by (auto simp: c1)
  then show ?thesis
    using assms(3) by (cases x) (auto simp: supersedes_def supersede_page_def split: if_splits)
qed

lemma old_pages_terminal:
  assumes "BeginBranchReconciliation p now c = Some (i, g, n, c1)" and "ApplyBranchHintTransition (pp_hint p) now c1 = (c', es)"
    and "(((i, bh_branch (pp_hint p)), g', k), r) \<in> set (bc_pages c')" and "g' < g"
  shows "pn_status r \<noteq> PagePending"
proof -
  have "bc_pages c' = bc_pages c1"
    using assms(2) by (auto simp: ApplyBranchHintTransition_def Let_def split: option.splits)
  with begin_pages [OF assms(1)] assms(3,4) show ?thesis by simp
qed

lemma push_claimed:
  assumes "AdvanceBranchReconciliationTargetGenerations (pp_hint p) now c' g = Inr (g', targets)" and "t \<in> set targets"
  shows "\<exists>r. map_of g' (rt_kind t, rt_key t) = Some r \<and>
      gr_generation r = rt_generation t \<and> gr_completed r = rt_generation t \<and> gr_deadline r = None \<and> gr_event r = None \<and>
      (\<forall>old. map_of g (rt_kind t, rt_key t) = Some old \<longrightarrow> gr_generation old < rt_generation t)"
proof -
  let ?h = "pp_hint p"
  let ?ks = "ListBranchReconciliationGenerationKeys ?h c'"
  note adv = advance_Inr [OF assms(1)]
  have sub: "fst ` set (page_targets ?h c') \<subseteq> set ?ks"
    by (auto simp: ListBranchReconciliationGenerationKeys_def split: option.splits)
  have claimed: "map_of g' k = Some (let v = (case map_of g k of None \<Rightarrow> 1 | Some r \<Rightarrow> gr_generation r + 1) in
        \<lparr>gr_generation = v, gr_completed = v, gr_deadline = None, gr_event = None, gr_updated = now\<rparr>)"
    if "k \<in> fst ` set (page_targets ?h c')" for k
    using claim_generations_lookup [OF keys_distinct, of k ?h c' now g] that sub
    by (auto simp: adv(1) claim_generation_lookup)
  from assms(2) obtain k x where m: "(k, x) \<in> set (page_targets ?h c')" and t: "rt_kind t = fst k" "rt_key t = snd k"
      "rt_generation t = (case map_of g' k of None \<Rightarrow> 0 | Some r \<Rightarrow> gr_generation r)"
    by (auto simp: adv(2))
  from m have "k \<in> fst ` set (page_targets ?h c')" by force
  note claimed [OF this]
  then show ?thesis by (simp add: t Let_def)
qed

text \<open>a push claims the refresh of everything it touches. Every target of its pages carries a generation
  newer than the one recorded before, and the row says so: complete at that generation, without
  deadline or event, so that no direct worker that started earlier still counts; the generation of
  every pointer that is neither a target nor the repository of a default branch is left alone; and
  no page of an earlier push to the branch stays pending.\<close>

theorem push_claims_targets:
  assumes "ApplyBranchPushTx env p (c, g) = Inr (bulk, c', g')" and "bb_repo bulk \<noteq> 0"
  shows "(\<forall>t \<in> set (bb_targets bulk). \<exists>r. map_of g' (rt_kind t, rt_key t) = Some r \<and>
      gr_generation r = rt_generation t \<and> gr_completed r = rt_generation t \<and> gr_deadline r = None \<and> gr_event r = None \<and>
      (\<forall>old. map_of g (rt_kind t, rt_key t) = Some old \<longrightarrow> gr_generation old < rt_generation t)) \<and>
    (\<forall>k. k \<notin> set (map (\<lambda>t. (rt_kind t, rt_key t)) (bb_targets bulk)) \<and>
       k \<noteq> (KindRefreshRepository, metadata_key (bh_repo (pp_hint p))) \<longrightarrow> map_of g' k = map_of g k) \<and>
    (\<forall>gen n r. (((bb_repo bulk, bh_branch (pp_hint p)), gen, n), r) \<in> set (bc_pages c') \<and> gen < bb_generation bulk \<longrightarrow>
       pn_status r \<noteq> PagePending)"
  using assms(1)
proof (cases rule: push_cases)
  case skipped
  with assms(2) show ?thesis by (simp add: no_bulk_def)
next
  case (applied repo gen sup c1 events b1 targets)
  let ?h = "pp_hint p"
  let ?ks = "ListBranchReconciliationGenerationKeys ?h c'"
  note adv = advance_Inr [OF applied(4)]
  have keys: "set ?ks \<subseteq> fst ` set (page_targets ?h c') \<union> {(KindRefreshRepository, metadata_key (bh_repo ?h))}"
    by (auto simp: ListBranchReconciliationGenerationKeys_def split: option.splits)
  have tset: "set (bb_targets bulk) = set targets" using applied(5) by simp
  note push_claimed [OF applied(4)]
  moreover have "map_of g' k = map_of g k" if "k \<notin> set (map (\<lambda>t. (rt_kind t, rt_key t)) (bb_targets bulk))"
    "k \<noteq> (KindRefreshRepository, metadata_key (bh_repo ?h))" for k
  proof -
    have "fst ` set (page_targets ?h c') \<subseteq> (\<lambda>t. (rt_kind t, rt_key t)) ` set targets" by (force simp: adv(2))
    with that keys have "k \<notin> set ?ks" unfolding tset set_map by blast
    then show ?thesis by (simp add: adv(1) claim_generations_other)
  qed
  moreover have "pn_status r \<noteq> PagePending"
    if "gen' < bb_generation bulk" "(((bb_repo bulk, bh_branch ?h), gen', n), r) \<in> set (bc_pages c')" for gen' n r
    by (rule old_pages_terminal [OF applied(1,2)])
      (use that tally_keeps [OF applied(3)] applied(5) in \<open>simp_all add: no_bulk_def\<close>)
  ultimately show ?thesis by (auto simp: tset)
qed

definition demo_outstanding :: generations where
  "demo_outstanding = [((KindRefreshPR, ''pr:o/r:7''),
     \<lparr>gr_generation = 3, gr_completed = 2, gr_deadline = Some 5, gr_event = Some 3, gr_updated = 10\<rparr>)]"

lemma demo_claim_result:
  "case ApplyBranchPushTx demo_writer_env demo_push (demo_cache, demo_outstanding) of
     Inl _ \<Rightarrow> False | Inr (bulk, _, _) \<Rightarrow> bb_repo bulk = 1 \<and>
       map (\<lambda>t. (rt_kind t, rt_key t, rt_generation t)) (bb_targets bulk) = [(KindRefreshPR, ''pr:o/r:7'', 4)]"
  by code_simp

theorem push_claims_targets_witness:
  "\<exists>bulk c' g' r. ApplyBranchPushTx demo_writer_env demo_push (demo_cache, demo_outstanding) = Inr (bulk, c', g') \<and>
     map_of g' (KindRefreshPR, ''pr:o/r:7'') = Some r \<and> gr_generation r = 4 \<and> gr_completed r = 4"
proof -
  obtain bulk c' g' where r: "ApplyBranchPushTx demo_writer_env demo_push (demo_cache, demo_outstanding) = Inr (bulk, c', g')"
    and b: "bb_repo bulk \<noteq> 0" and ts: "map (\<lambda>t. (rt_kind t, rt_key t, rt_generation t)) (bb_targets bulk) =
      [(KindRefreshPR, ''pr:o/r:7'', 4)]"
    using demo_claim_result by (fastforce split: sum.splits prod.splits)
  from ts obtain t where m: "t \<in> set (bb_targets bulk)"
    and t: "rt_kind t = KindRefreshPR" "rt_key t = ''pr:o/r:7''" "rt_generation t = 4"
    by (cases "bb_targets bulk") auto
  have "\<exists>r. map_of g' (rt_kind t, rt_key t) = Some r \<and> gr_generation r = rt_generation t \<and> gr_completed r = rt_generation t"
    using push_claims_targets [OF r b] m by blast
  with r show ?thesis unfolding t by blast
qed

end
