(* ===== verification/Page_Properties.thy ===== *)
theory Page_Properties
  imports Branch_Properties
begin

text \<open>
  The life of a branch reconciliation: pushes, page workers and repairs as steps on the tables, and
  the invariant that a reconciliation is complete exactly when none of its pages is pending.
\<close>

section \<open>Steps\<close>

text \<open>One committed transaction of the branch path. A push and the record of its pages commit together.\<close>

inductive branch_step :: "branch_cache \<Rightarrow> branch_cache \<Rightarrow> bool" where
  push: "ApplyBranchPushTx env p (c, g) = Inr (bulk, c1, g1) \<Longrightarrow> bb_repo bulk \<noteq> 0 \<Longrightarrow>
     RecordBranchReconciliationPagesTx env (bb_repo bulk) (bh_branch (pp_hint p)) (bb_generation bulk) counts c1 = Inr c2 \<Longrightarrow>
     length counts < 2 ^ 31 \<Longrightarrow> branch_step c c2"
| start: "branch_step c (fst (StartBranchReconciliationPage now i c))"
| heartbeat: "branch_step c (fst (HeartbeatBranchReconciliationPage now i c))"
| finish: "branch_step c (fst (completePage now inst superseded a c))"
| heal: "branch_step c (healBranchReconciliationCompletion a c)"

inductive_cases branch_stepE: "branch_step c c'"

definition page_keys :: "branch_id \<Rightarrow> int \<Rightarrow> branch_cache \<Rightarrow> page_id list" where
  "page_keys b g c = filter (\<lambda>i. fst i = b \<and> fst (snd i) = g) (map fst (bc_pages c))"

definition no_pending :: "branch_id \<Rightarrow> int \<Rightarrow> branch_cache \<Rightarrow> bool" where
  "no_pending b g c \<longleftrightarrow> (\<forall>n r. map_of (bc_pages c) (b, g, n) = Some r \<longrightarrow> pn_status r \<noteq> PagePending)"

definition page_ok :: "branch_cache \<Rightarrow> page_id \<Rightarrow> page_row \<Rightarrow> bool" where
  "page_ok c i r \<longleftrightarrow> (pn_status r = PagePending \<longleftrightarrow> pn_completedAt r = None) \<and>
     (\<exists>row. map_of (bc_reconciliations c) (fst i) = Some row \<and> fst (snd i) \<le> bn_generation row \<and>
       (pn_status r = PagePending \<longrightarrow> fst (snd i) = bn_generation row))"

definition reconciliation_ok :: "branch_cache \<Rightarrow> branch_id \<Rightarrow> reconciliation_row \<Rightarrow> bool" where
  "reconciliation_ok c b row \<longleftrightarrow> bn_pageCount row = int (length (page_keys b (bn_generation row) c)) \<and>
     (bn_completedAt row \<noteq> None \<longleftrightarrow> no_pending b (bn_generation row) c)"

definition branch_inv :: "branch_cache \<Rightarrow> bool" where
  "branch_inv c \<longleftrightarrow> distinct (map fst (bc_pages c)) \<and>
     (\<forall>i r. map_of (bc_pages c) i = Some r \<longrightarrow> page_ok c i r) \<and>
     (\<forall>b row. map_of (bc_reconciliations c) b = Some row \<longrightarrow> reconciliation_ok c b row)"

lemma branch_invD:
  assumes "branch_inv c"
  shows "distinct (map fst (bc_pages c))"
    and "map_of (bc_pages c) i = Some r \<Longrightarrow> page_ok c i r"
    and "map_of (bc_reconciliations c) b = Some row \<Longrightarrow> reconciliation_ok c b row"
  using assms unfolding branch_inv_def by blast+

lemma branch_invI:
  assumes "distinct (map fst (bc_pages c))" and "\<And>i r. map_of (bc_pages c) i = Some r \<Longrightarrow> page_ok c i r"
    and "\<And>b row. map_of (bc_reconciliations c) b = Some row \<Longrightarrow> reconciliation_ok c b row"
  shows "branch_inv c"
  using assms unfolding branch_inv_def by blast

lemma pages_of_length: "length (pages_of b g c) = length (page_keys b g c)"
proof -
  have "page_keys b g c = map fst (filter (\<lambda>((b', g', _), _). b' = b \<and> g' = g) (bc_pages c))"
    by (induction "bc_pages c") (auto simp: page_keys_def filter_map comp_def split_def)
  then show ?thesis by (simp add: pages_of_def)
qed

lemma pages_of_member:
  assumes "distinct (map fst (bc_pages c))"
  shows "r \<in> set (pages_of b g c) \<longleftrightarrow> (\<exists>n. map_of (bc_pages c) (b, g, n) = Some r)"
  unfolding map_of_eq_Some_iff [OF assms] pages_of_def by force

lemma pages_of_no_pending:
  "distinct (map fst (bc_pages c)) \<Longrightarrow>
   list_all (\<lambda>p. pn_status p \<noteq> PagePending) (pages_of b g c) \<longleftrightarrow> no_pending b g c"
  unfolding no_pending_def list_all_iff by (auto simp: pages_of_member)

lemma latest_completion_some:
  "\<exists>p \<in> set ps. pn_completedAt p \<noteq> None \<Longrightarrow> latest_completion ps \<noteq> None"
proof -
  let ?f = "\<lambda>r m. case (pn_completedAt r, m) of
     (None, m) \<Rightarrow> m | (Some t, None) \<Rightarrow> Some t | (Some t, Some u) \<Rightarrow> Some (max t u)"
  have "(\<exists>p \<in> set ps. pn_completedAt p \<noteq> None) \<or> m \<noteq> None \<Longrightarrow> fold ?f ps m \<noteq> None" for m
    by (induction ps arbitrary: m) (auto split: option.splits)
  then show "\<exists>p \<in> set ps. pn_completedAt p \<noteq> None \<Longrightarrow> latest_completion ps \<noteq> None"
    unfolding latest_completion_def by blast
qed

section \<open>Preservation\<close>

text \<open>A change of the pages and of one reconciliation row, as the invariant sees it.\<close>

lemma page_keys_cong: "map fst (bc_pages c') = map fst (bc_pages c) \<Longrightarrow> page_keys b g c' = page_keys b g c"
  by (simp add: page_keys_def)

lemma set_page_keys: "map_of (bc_pages c) i = Some r0 \<Longrightarrow> map fst (bc_pages (set_page i r c)) = map fst (bc_pages c)"
  by (auto simp: set_page_def update_keys dest: map_of_SomeD intro: rev_image_eqI)

lemma set_page_lookup: "map_of (bc_pages (set_page i r c)) j = (if j = i then Some r else map_of (bc_pages c) j)"
  by (simp add: set_page_def AList.update_conv')

lemma set_page_reconciliations [simp]: "bc_reconciliations (set_page i r c) = bc_reconciliations c"
  by (simp add: set_page_def)

lemma page_ok_cong:
  assumes "bc_reconciliations c' = bc_reconciliations c" and "pn_status r' = pn_status r" and "pn_completedAt r' = pn_completedAt r"
  shows "page_ok c' i r' \<longleftrightarrow> page_ok c i r"
  unfolding page_ok_def assms by (rule refl)

text \<open>Marking a pending page keeps everything.\<close>

lemma touch_inv:
  assumes "branch_inv c" and "map_of (bc_pages c) i = Some r0" and "pn_status r = pn_status r0"
    and "pn_completedAt r = pn_completedAt r0"
  shows "branch_inv (set_page i r c)"
proof (rule branch_invI)
  note keys = set_page_keys [OF assms(2), of r]
  show "distinct (map fst (bc_pages (set_page i r c)))" using branch_invD(1) [OF assms(1)] by (simp add: keys)
  fix j r' assume "map_of (bc_pages (set_page i r c)) j = Some r'"
  note look = this [unfolded set_page_lookup]
  show "page_ok (set_page i r c) j r'"
  proof (cases "j = i")
    case True
    with look have "r' = r" by simp
    moreover have "page_ok (set_page i r c) i r"
      by (rule page_ok_cong [THEN iffD2, OF set_page_reconciliations assms(3,4) branch_invD(2) [OF assms(1,2)]])
    ultimately show ?thesis using True by simp
  next
    case False
    with look have "map_of (bc_pages c) j = Some r'" by simp
    then show ?thesis
      by (rule page_ok_cong [THEN iffD2, OF set_page_reconciliations refl refl branch_invD(2) [OF assms(1)]])
  qed
next
  have np: "no_pending b g (set_page i r c) = no_pending b g c" for b g
    using assms(2,3) by (auto simp: no_pending_def set_page_lookup)
  fix b row assume "map_of (bc_reconciliations (set_page i r c)) b = Some row"
  then show "reconciliation_ok (set_page i r c) b row"
    using branch_invD(3) [OF assms(1)] page_keys_cong [OF set_page_keys [OF assms(2)]]
    by (simp add: reconciliation_ok_def np)
qed

lemma page_live_Some:
  "page_live i c = Some r \<Longrightarrow> map_of (bc_pages c) i = Some r \<and> pn_status r = PagePending \<and> current_generation (fst i) (fst (snd i)) c"
  by (auto simp: page_live_def split: option.splits if_splits)

lemma start_inv: "branch_inv c \<Longrightarrow> branch_inv (fst (StartBranchReconciliationPage now i c))"
  by (auto simp: StartBranchReconciliationPage_def split: option.split dest!: page_live_Some intro: touch_inv)

lemma heartbeat_inv: "branch_inv c \<Longrightarrow> branch_inv (fst (HeartbeatBranchReconciliationPage now i c))"
  by (auto simp: HeartbeatBranchReconciliationPage_def split: option.split dest!: page_live_Some intro: touch_inv)

lemma branch_inv_cong:
  assumes "bc_pages c' = bc_pages c" and "bc_reconciliations c' = bc_reconciliations c"
  shows "branch_inv c' \<longleftrightarrow> branch_inv c"
  unfolding branch_inv_def page_ok_def reconciliation_ok_def no_pending_def page_keys_def assms by (rule refl)

text \<open>Setting the completion of a row whose pages are all terminal.\<close>

lemma finalize_inv:
  assumes d: "distinct (map fst (bc_pages c))" and pages: "\<And>i r. map_of (bc_pages c) i = Some r \<Longrightarrow> page_ok c i r"
    and others: "\<And>b' row. b' \<noteq> b \<Longrightarrow> map_of (bc_reconciliations c) b' = Some row \<Longrightarrow> reconciliation_ok c b' row"
    and row: "map_of (bc_reconciliations c) b = Some row" "bn_generation row = g"
      "bn_pageCount row = int (length (page_keys b g c))" "bn_completedAt row \<noteq> None \<Longrightarrow> no_pending b g c"
      "bn_completedAt row = None \<Longrightarrow> no_pending b g c \<Longrightarrow> 0 < bn_pageCount row"
  shows "branch_inv (FinalizeBranchReconciliation b g c)"
proof (cases "finalizable b g c row")
  case False
  then have eq: "FinalizeBranchReconciliation b g c = c" using row(1) by (simp add: FinalizeBranchReconciliation_def)
  have "bn_completedAt row \<noteq> None \<longleftrightarrow> no_pending b g c"
    using False row(2-5) pages_of_no_pending [OF d, of b g] by (auto simp: finalizable_def pages_of_length)
  then have "reconciliation_ok c b row" using row(2,3) by (simp add: reconciliation_ok_def)
  then have "reconciliation_ok c b' row'" if "map_of (bc_reconciliations c) b' = Some row'" for b' row'
    using others that row(1) by (cases "b' = b") simp_all
  with d pages show ?thesis unfolding eq by (intro branch_invI) auto
next
  case True
  let ?row = "row\<lparr>bn_completedAt := latest_completion (pages_of b g c)\<rparr>"
  let ?c = "FinalizeBranchReconciliation b g c"
  have eq: "bc_pages ?c = bc_pages c" "bc_reconciliations ?c = AList.update b ?row (bc_reconciliations c)"
    using True row(1) by (simp_all add: FinalizeBranchReconciliation_def)
  have np: "no_pending b g c" using True pages_of_no_pending [OF d] by (simp add: finalizable_def)
  have "pages_of b g c \<noteq> []" using True by (auto simp: finalizable_def)
  then obtain r where r: "r \<in> set (pages_of b g c)" by (meson list.set_sel(1))
  with np pages have "pn_completedAt r \<noteq> None"
    unfolding no_pending_def page_ok_def pages_of_member [OF d] by blast
  with r have lc: "latest_completion (pages_of b g c) \<noteq> None" by (intro latest_completion_some bexI)
  have keep: "no_pending b' g' ?c = no_pending b' g' c" "page_keys b' g' ?c = page_keys b' g' c" for b' g'
    by (simp_all add: no_pending_def page_keys_def eq)
  have gens: "map_of (bc_reconciliations ?c) b' = Some x \<Longrightarrow>
      \<exists>y. map_of (bc_reconciliations c) b' = Some y \<and> bn_generation y = bn_generation x" for b' x
    using row(1) by (auto simp: eq AList.update_conv' split: if_splits)
  show ?thesis
  proof (rule branch_invI)
    show "distinct (map fst (bc_pages ?c))" using d by (simp add: eq)
  next
    fix i r assume "map_of (bc_pages ?c) i = Some r"
    then have "page_ok c i r" using pages by (simp add: eq)
    then show "page_ok ?c i r" using row(1) by (auto simp: page_ok_def eq AList.update_conv')
  next
    fix b' x assume x: "map_of (bc_reconciliations ?c) b' = Some x"
    show "reconciliation_ok ?c b' x"
    proof (cases "b' = b")
      case True
      with x have "x = ?row" by (simp add: eq AList.update_conv')
      with True row(2,3) lc np show ?thesis by (simp add: reconciliation_ok_def keep)
    next
      case False
      with x have "map_of (bc_reconciliations c) b' = Some x" by (simp add: eq AList.update_conv')
      with others [OF False] show ?thesis by (simp add: reconciliation_ok_def keep)
    qed
  qed
qed

lemma heal_inv:
  assumes "branch_inv c"
  shows "branch_inv (healBranchReconciliationCompletion a c)"
proof (cases "current_generation (bp_repo a, bp_branch a) (bp_generation a) c")
  case True
  then obtain row where row: "map_of (bc_reconciliations c) (bp_repo a, bp_branch a) = Some row" "bn_generation row = bp_generation a"
    by (auto simp: current_generation_def split: option.splits)
  note ok = branch_invD(3) [OF assms row(1), unfolded reconciliation_ok_def row(2)]
  show ?thesis
    unfolding healBranchReconciliationCompletion_def
    using True ok branch_invD [OF assms] by (auto intro!: finalize_inv [OF _ _ _ row])
qed (simp add: healBranchReconciliationCompletion_def assms)

lemma completed_page_inv:
  assumes inv: "branch_inv c" and page: "map_of (bc_pages c) (b, g, n) = Some r" and pend: "pn_status r = PagePending"
    and st: "pn_status r' = PageCompleted" and cp: "pn_completedAt r' \<noteq> None"
  shows "branch_inv (FinalizeBranchReconciliation b g (set_page (b, g, n) r' c))"
proof -
  let ?i = "(b, g, n)" and ?c = "set_page (b, g, n) r' c"
  note keys = set_page_keys [OF page, of r']
  obtain row where row: "map_of (bc_reconciliations c) b = Some row" "bn_generation row = g"
    using branch_invD(2) [OF inv page] pend by (auto simp: page_ok_def)
  note ok = branch_invD(3) [OF inv row(1), unfolded reconciliation_ok_def row(2)]
  have "\<not> no_pending b g c" using page pend by (auto simp: no_pending_def)
  with ok have open_row: "bn_completedAt row = None" by blast
  have "?i \<in> set (map fst (bc_pages c))" using map_of_SomeD [OF page] by force
  then have "?i \<in> set (page_keys b g c)" by (simp add: page_keys_def)
  then have ne: "page_keys b g c \<noteq> []" by auto
  show ?thesis
  proof (rule finalize_inv)
    show "distinct (map fst (bc_pages ?c))" using branch_invD(1) [OF inv] by (simp add: keys)
    show "map_of (bc_reconciliations ?c) b = Some row" using row(1) by simp
    show "bn_generation row = g" by (rule row(2))
    show "bn_pageCount row = int (length (page_keys b g ?c))" using ok by (simp add: page_keys_cong [OF keys])
    show "no_pending b g ?c" if "bn_completedAt row \<noteq> None" using that open_row by simp
    show "0 < bn_pageCount row" using ok ne by simp
  next
    fix j q assume q: "map_of (bc_pages ?c) j = Some q"
    show "page_ok ?c j q"
    proof (cases "j = ?i")
      case True
      with q have "q = r'" by (simp add: set_page_lookup)
      with True row st cp show ?thesis by (simp add: page_ok_def)
    next
      case False
      with q have "map_of (bc_pages c) j = Some q" by (simp add: set_page_lookup)
      then show ?thesis by (rule page_ok_cong [THEN iffD2, OF set_page_reconciliations refl refl branch_invD(2) [OF inv]])
    qed
  next
    fix b' row' assume b': "b' \<noteq> b" and "map_of (bc_reconciliations ?c) b' = Some row'"
    then have "reconciliation_ok c b' row'" using branch_invD(3) [OF inv] by simp
    moreover have "no_pending b' g' ?c = no_pending b' g' c" for g' using b' by (simp add: no_pending_def set_page_lookup)
    ultimately show "reconciliation_ok ?c b' row'" by (simp add: reconciliation_ok_def page_keys_cong [OF keys])
  qed
qed

lemma record_success_tables:
  "record_success now inst component operation samples c = Inr c' \<Longrightarrow>
   bc_pages c' = bc_pages c \<and> bc_reconciliations c' = bc_reconciliations c"
  by (auto simp: record_success_def RecordSuccessN_def Let_def split: if_splits)

lemma finish_inv:
  assumes inv: "branch_inv c"
  shows "branch_inv (fst (completePage now inst superseded a c))"
proof (cases "current_generation (bp_repo a, bp_branch a) (bp_generation a) c")
  case False
  with inv show ?thesis by (simp add: completePage_def Let_def)
next
  case cur: True
  let ?b = "(bp_repo a, bp_branch a)" and ?g = "bp_generation a"
  obtain c1 k where k: "CompleteBranchReconciliationPage now (int superseded) (?b, ?g, bp_page a) c = (c1, k)" by fastforce
  have fin: "branch_inv (FinalizeBranchReconciliation ?b ?g c1)"
  proof (cases "c1 = c")
    case True
    then show ?thesis using heal_inv [OF inv, of a] cur by (simp add: healBranchReconciliationCompletion_def)
  next
    case False
    with k obtain r where "map_of (bc_pages c) (?b, ?g, bp_page a) = Some r" "pn_status r = PagePending"
      and c1: "c1 = set_page (?b, ?g, bp_page a) (r\<lparr>pn_status := PageCompleted, pn_superseded := int superseded,
        pn_heartbeatAt := Some now, pn_completedAt := Some now\<rparr>) c"
      by (auto simp: CompleteBranchReconciliationPage_def split: option.splits if_splits)
    then show ?thesis by (simp add: completed_page_inv [OF inv])
  qed
  show ?thesis
  proof (cases "record_success now inst ''fetch'' ''branch_reconciliation'' (int (length (bp_targets a))) (FinalizeBranchReconciliation ?b ?g c1)")
    case (Inl e)
    with cur k fin inv show ?thesis by (simp add: completePage_def Let_def)
  next
    case (Inr c3)
    note branch_inv_cong [of c3 "FinalizeBranchReconciliation ?b ?g c1"] record_success_tables [OF Inr]
    with Inr cur k fin show ?thesis by (simp add: completePage_def Let_def)
  qed
qed

lemma page_numbers_keys: "map fst (page_numbers n xs) = map (\<lambda>i. n + int i) [0..<length xs]"
proof (induction n xs rule: page_numbers.induct)
  case (2 n x xs)
  have "map (\<lambda>i. n + int i) [0..<length (x # xs)] = n # map (\<lambda>i. n + 1 + int i) [0..<length xs]"
    by (simp add: upt_conv_Cons map_Suc_upt [symmetric] comp_def del: upt_Suc)
  with 2 show ?case by simp
qed simp

lemma page_numbers_distinct: "distinct (map fst (page_numbers n xs))"
  by (simp add: page_numbers_keys distinct_map inj_on_def)

lemma page_numbers_length [simp]: "length (page_numbers n xs) = length xs"
  by (induction n xs rule: page_numbers.induct) auto

lemma page_numbers_Nil [simp]: "page_numbers n xs = [] \<longleftrightarrow> xs = []"
  by (cases xs) simp_all

lemma insert_pages_append:
  "distinct (map fst xs) \<Longrightarrow> \<forall>n \<in> fst ` set xs. (b, g, n) \<notin> fst ` set t \<Longrightarrow>
   insert_pages b g now xs t = t @ map (\<lambda>(n, k). ((b, g, n), fresh_page now k)) xs"
proof (induction xs arbitrary: t)
  case (Cons x xs)
  obtain n k where x: "x = (n, k)" by fastforce
  have "map_of t (b, g, n) = None" using Cons.prems(2) by (simp add: x map_of_eq_None_iff)
  moreover have "\<forall>m \<in> fst ` set xs. (b, g, m) \<notin> fst ` set (t @ [((b, g, n), fresh_page now k)])"
    using Cons.prems by (auto simp: x image_iff)
  ultimately show ?case using Cons.IH [of "t @ [((b, g, n), fresh_page now k)]"] Cons.prems(1) by (simp add: x)
qed simp

text \<open>The tables after a push and the record of its pages.\<close>

lemma push_tables:
  assumes "ApplyBranchPushTx env p (c, gs) = Inr (bulk, c1, g1)" and "bb_repo bulk \<noteq> 0"
    and "RecordBranchReconciliationPagesTx env (bb_repo bulk) (bh_branch (pp_hint p)) (bb_generation bulk) counts c1 = Inr c2"
    and "length counts < 2 ^ 31"
  obtains b g sup row fresh where
    "case map_of (bc_reconciliations c) b of None \<Rightarrow> True | Some old \<Rightarrow> bn_generation old < g"
    "bc_reconciliations c2 = AList.update b row (AList.update b fresh (bc_reconciliations c))"
    "bn_generation row = g" "bn_pageCount row = int (length counts)" "bn_completedAt row \<noteq> None \<longleftrightarrow> counts = []"
    "bc_pages c2 = insert_pages b g (we_createdAt env (fst b) (snd b) g) (page_numbers 1 counts)
       (map (\<lambda>x. if supersedes b g x then (fst x, supersede_page sup (snd x)) else x) (bc_pages c))"
proof -
  let ?b = "(bb_repo bulk, bh_branch (pp_hint p))" and ?now = "we_appliedAt env (pp_guid p)"
  obtain repo c0 events where begin_eq: "BeginBranchReconciliation p ?now c = Some (bb_repo bulk, bb_generation bulk, bb_superseded bulk, c0)"
    and t: "ApplyBranchHintTransition (pp_hint p) ?now c0 = (c1, events)" and f: "find_repository (bh_repo (pp_hint p)) c0 = Some repo"
    by (rule push_applied [OF assms(1,2)])
  note keep = transition_eq(8,9) [OF t f]
  obtain old: "case map_of (bc_reconciliations c) ?b of None \<Rightarrow> True | Some old \<Rightarrow> bn_generation old < bb_generation bulk"
    and c0: "bc_reconciliations c0 = AList.update ?b (fresh_reconciliation p ?now (bb_generation bulk)) (bc_reconciliations c)"
      "bc_pages c0 = map (\<lambda>x. if supersedes ?b (bb_generation bulk) x then (fst x, supersede_page ?now (snd x)) else x) (bc_pages c)"
    using begin_eq by (rule begin_Some) (auto split: option.splits)
  have w: "wrap32 (int (length counts)) = int (length counts)" using assms(4) by (simp add: wrap32_def)
  let ?fresh = "fresh_reconciliation p ?now (bb_generation bulk)"
  have look: "map_of (bc_reconciliations c1) ?b = Some ?fresh" by (simp add: keep c0 AList.update_conv')
  have gen: "bn_generation ?fresh = bb_generation bulk" by (simp add: fresh_reconciliation_def)
  have c2: "bc_reconciliations c2 = AList.update ?b (?fresh\<lparr>bn_targetCount := wrap32 (int (sum_list counts)),
        bn_pageCount := int (length counts), bn_completedAt := (if counts = [] then Some (we_createdAt env (bb_repo bulk)
          (bh_branch (pp_hint p)) (bb_generation bulk)) else None)\<rparr>) (bc_reconciliations c1)"
     "bc_pages c2 = insert_pages ?b (bb_generation bulk) (we_createdAt env (fst ?b) (snd ?b) (bb_generation bulk))
        (page_numbers 1 counts) (bc_pages c1)"
    using assms(3) look gen by (auto simp: RecordBranchReconciliationPagesTx_def Let_def w split: if_splits)
  show thesis
    by (rule that [OF old c2(1) [unfolded keep(1) c0(1)] _ _ _ c2(2) [unfolded keep(2) c0(2)]]) (simp_all add: gen)
qed

text \<open>The pages after a push: those of earlier generations superseded, the new ones pending.\<close>

definition pushed_pages :: "branch_id \<Rightarrow> int \<Rightarrow> gotime \<Rightarrow> gotime \<Rightarrow> (int \<times> int) list \<Rightarrow> (page_id \<times> page_row) list \<Rightarrow>
    (page_id \<times> page_row) list" where
  "pushed_pages b g at now ks t =
     map (\<lambda>(i, r). (i, if supersedes b g (i, r) then supersede_page at r else r)) t @
     map (\<lambda>(n, k). ((b, g, n), fresh_page now k)) ks"

lemma pushed_keys: "map fst (pushed_pages b g at now ks t) = map fst t @ map (\<lambda>n. (b, g, n)) (map fst ks)"
  by (simp add: pushed_pages_def comp_def split_def)

lemma pushed_lookup:
  "map_of (pushed_pages b g at now ks t) i =
     (case map_of t i of
        Some r \<Rightarrow> Some (if supersedes b g (i, r) then supersede_page at r else r)
      | None \<Rightarrow> map_of (map (\<lambda>(n, k). ((b, g, n), fresh_page now k)) ks) i)"
  by (simp add: pushed_pages_def map_add_def map_of_map_rows split: option.split)

lemma fresh_lookup: "map_of (map (\<lambda>(n, k). ((b, g, n), fresh_page now k)) ks) (b, g, n) = map_option (fresh_page now) (map_of ks n)"
  by (induction ks) auto

lemma fresh_lookup_other: "fst i \<noteq> b \<or> fst (snd i) \<noteq> g \<Longrightarrow> map_of (map (\<lambda>(n, k). ((b, g, n), fresh_page now k)) ks) i = None"
  by (auto simp: map_of_eq_None_iff)

lemma pushed_other:
  assumes "fst i \<noteq> b"
  shows "map_of (pushed_pages b g at now ks t) i = map_of t i"
  using assms fresh_lookup_other [of i b g now ks]
  by (cases i) (simp add: pushed_lookup supersedes_def split: option.split)

lemma pushed_old:
  assumes "fst i = b" and "fst (snd i) \<noteq> g" and "map_of (pushed_pages b g at now ks t) i = Some r"
  shows "\<exists>r0. map_of t i = Some r0 \<and> r = (if supersedes b g (i, r0) then supersede_page at r0 else r0)"
  using assms(3) fresh_lookup_other [of i b g now ks] assms(2) by (auto simp: pushed_lookup split: option.splits)

lemma pushed_new:
  assumes "\<And>n. map_of t (b, g, n) = None"
  shows "map_of (pushed_pages b g at now ks t) (b, g, n) = map_option (fresh_page now) (map_of ks n)"
  by (simp add: pushed_lookup assms fresh_lookup)

lemma page_ok_row_cong:
  "map_of (bc_reconciliations c') (fst i) = map_of (bc_reconciliations c) (fst i) \<Longrightarrow> page_ok c' i r \<longleftrightarrow> page_ok c i r"
  by (simp add: page_ok_def)

lemma inv_older:
  assumes inv: "branch_inv c" and old: "case map_of (bc_reconciliations c) b of None \<Rightarrow> True | Some old \<Rightarrow> bn_generation old < g"
    and r: "map_of (bc_pages c) i = Some r" "fst i = b"
  shows "fst (snd i) < g"
  using branch_invD(2) [OF inv r(1)] r(2) old by (auto simp: page_ok_def)

text \<open>A fresh reconciliation row together with its pages keeps the invariant.\<close>

lemma pushed_inv:
  assumes inv: "branch_inv c" and old: "case map_of (bc_reconciliations c) b of None \<Rightarrow> True | Some old \<Rightarrow> bn_generation old < g"
    and rec: "\<And>b'. map_of (bc_reconciliations c2) b' = (if b' = b then Some row else map_of (bc_reconciliations c) b')"
    and row: "bn_generation row = g" "bn_pageCount row = int (length ks)" "bn_completedAt row \<noteq> None \<longleftrightarrow> ks = []"
    and pages: "bc_pages c2 = pushed_pages b g at now ks (bc_pages c)" and dk: "distinct (map fst ks)"
  shows "branch_inv c2"
proof (rule branch_invI)
  note older = inv_older [OF inv old]
  have none: "map_of (bc_pages c) (b, g, n) = None" for n
    using older [of "(b, g, n)"] by (cases "map_of (bc_pages c) (b, g, n)") auto
  note new = pushed_new [OF none]
  have inj: "inj_on (\<lambda>n. (b, g, n)) S" for S by (simp add: inj_on_def)
  have "(b, g, n) \<notin> set (map fst (bc_pages c))" for n using none [of n] by (simp add: map_of_eq_None_iff)
  then show "distinct (map fst (bc_pages c2))"
    unfolding pages pushed_keys distinct_append distinct_map [of "\<lambda>n. (b, g, n)"]
    using branch_invD(1) [OF inv] dk inj by auto
  show "page_ok c2 i r" if r: "map_of (bc_pages c2) i = Some r" for i r
  proof -
    consider "fst i \<noteq> b" | "fst i = b" "fst (snd i) \<noteq> g" | n where "i = (b, g, n)" by (metis prod.collapse)
    then show ?thesis
    proof cases
      case 1
      then have "page_ok c i r" using r branch_invD(2) [OF inv] by (simp add: pages pushed_other)
      with 1 show ?thesis by (simp add: page_ok_row_cong [of c2 i c] rec)
    next
      case 2
      then obtain r0 where r0: "map_of (bc_pages c) i = Some r0"
        and eq: "r = (if supersedes b g (i, r0) then supersede_page at r0 else r0)"
        using pushed_old r pages by metis
      from older [OF r0 2(1)] branch_invD(2) [OF inv r0] 2 row(1) show ?thesis
        by (cases i) (auto simp: page_ok_def eq rec supersedes_def supersede_page_def)
    next
      case 3
      with r obtain k where "r = fresh_page now k" by (auto simp: pages new)
      with 3 row(1) show ?thesis by (simp add: page_ok_def rec fresh_page_def)
    qed
  qed
  show "reconciliation_ok c2 b' x" if x: "map_of (bc_reconciliations c2) b' = Some x" for b' x
  proof (cases "b' = b")
    case True
    have "\<not> (fst i = b \<and> fst (snd i) = g)" if "i \<in> set (map fst (bc_pages c))" for i
    proof
      assume "fst i = b \<and> fst (snd i) = g"
      then obtain n where "i = (b, g, n)" by (metis prod.collapse)
      with that none [of n] show False by (simp add: map_of_eq_None_iff)
    qed
    then have "page_keys b g c = []" by (simp add: page_keys_def filter_empty_conv)
    then have "length (page_keys b g c2) = length ks"
      by (simp add: page_keys_def pages pushed_keys filter_empty_conv comp_def)
    moreover have "no_pending b g c2 \<longleftrightarrow> ks = []"
      using map_of_eq_None_iff [of ks] by (cases ks) (auto simp: no_pending_def pages new fresh_page_def)
    ultimately show ?thesis using x True row by (simp add: rec reconciliation_ok_def)
  next
    case False
    with x have "reconciliation_ok c b' x" using branch_invD(3) [OF inv] by (simp add: rec)
    moreover have "page_keys b' g' c2 = page_keys b' g' c" for g'
      using False by (simp add: page_keys_def pages pushed_keys filter_empty_conv)
    ultimately show ?thesis using False by (simp add: reconciliation_ok_def no_pending_def pages pushed_other)
  qed
qed

lemma push_inv:
  assumes inv: "branch_inv c" and "ApplyBranchPushTx env p (c, gs) = Inr (bulk, c1, g1)" and "bb_repo bulk \<noteq> 0"
    and "RecordBranchReconciliationPagesTx env (bb_repo bulk) (bh_branch (pp_hint p)) (bb_generation bulk) counts c1 = Inr c2"
    and "length counts < 2 ^ 31"
  shows "branch_inv c2"
proof -
  obtain b g at row fresh where
    old: "case map_of (bc_reconciliations c) b of None \<Rightarrow> True | Some old \<Rightarrow> bn_generation old < g"
    and recs: "bc_reconciliations c2 = AList.update b row (AList.update b fresh (bc_reconciliations c))"
    and row: "bn_generation row = g" "bn_pageCount row = int (length counts)" "bn_completedAt row \<noteq> None \<longleftrightarrow> counts = []"
    and pages: "bc_pages c2 = insert_pages b g (we_createdAt env (fst b) (snd b) g) (page_numbers 1 counts)
       (map (\<lambda>x. if supersedes b g x then (fst x, supersede_page at (snd x)) else x) (bc_pages c))"
    by (rule push_tables [OF assms(2-5)])
  let ?t = "map (\<lambda>(i, r). (i, if supersedes b g (i, r) then supersede_page at r else r)) (bc_pages c)"
  have t: "map (\<lambda>x. if supersedes b g x then (fst x, supersede_page at (snd x)) else x) (bc_pages c) = ?t"
    by (auto intro!: map_cong)
  have "map_of ?t (b, g, n) = None" for n
    using inv_older [OF inv old, of "(b, g, n)"] unfolding map_of_map_rows by (cases "map_of (bc_pages c) (b, g, n)") auto
  then have p: "bc_pages c2 = pushed_pages b g at (we_createdAt env (fst b) (snd b) g) (page_numbers 1 counts) (bc_pages c)"
    unfolding pages t pushed_pages_def by (intro insert_pages_append [OF page_numbers_distinct]) (simp add: map_of_eq_None_iff)
  show ?thesis
    by (rule pushed_inv [OF inv old _ row(1) _ _ p page_numbers_distinct]) (use row recs in \<open>auto simp: AList.update_conv'\<close>)
qed

section \<open>Reachable states\<close>

lemma branch_step_inv: "branch_step c c' \<Longrightarrow> branch_inv c \<Longrightarrow> branch_inv c'"
  by (induction rule: branch_step.induct) (blast intro: push_inv start_inv heartbeat_inv finish_inv heal_inv)+

lemma branch_steps_inv: "branch_step\<^sup>*\<^sup>* c c' \<Longrightarrow> branch_inv c \<Longrightarrow> branch_inv c'"
  by (induction rule: rtranclp_induct) (blast intro: branch_step_inv)+

lemma branch_inv_init: "bc_reconciliations c = [] \<Longrightarrow> bc_pages c = [] \<Longrightarrow> branch_inv c"
  by (simp add: branch_inv_def)

text \<open>C10: however pushes, page workers, heartbeats, retries and repairs interleave, a branch
  reconciliation is marked complete exactly when none of the pages of its current generation is
  pending; its page count is the number of its pages; and every page of an earlier generation is
  completed or superseded.\<close>

theorem reconciliation_complete_iff_no_page_pending:
  assumes "bc_reconciliations c0 = []" and "bc_pages c0 = []" and "branch_step\<^sup>*\<^sup>* c0 c"
    and "map_of (bc_reconciliations c) b = Some row"
  shows "(bn_completedAt row \<noteq> None \<longleftrightarrow>
      (\<forall>n r. map_of (bc_pages c) (b, bn_generation row, n) = Some r \<longrightarrow> pn_status r \<noteq> PagePending)) \<and>
    bn_pageCount row = int (card {n. map_of (bc_pages c) (b, bn_generation row, n) \<noteq> None}) \<and>
    (\<forall>g n r. map_of (bc_pages c) (b, g, n) = Some r \<and> g \<noteq> bn_generation row \<longrightarrow>
       g < bn_generation row \<and> pn_status r \<noteq> PagePending)"
proof -
  have inv: "branch_inv c" by (rule branch_steps_inv [OF assms(3) branch_inv_init [OF assms(1,2)]])
  note ok = branch_invD(3) [OF inv assms(4), unfolded reconciliation_ok_def]
  let ?g = "bn_generation row"
  have "set (page_keys b ?g c) = (\<lambda>n. (b, ?g, n)) ` {n. map_of (bc_pages c) (b, ?g, n) \<noteq> None}"
    by (auto simp: page_keys_def map_of_eq_None_iff image_iff) force+
  moreover have "distinct (page_keys b ?g c)" using branch_invD(1) [OF inv] by (simp add: page_keys_def)
  ultimately have "length (page_keys b ?g c) = card {n. map_of (bc_pages c) (b, ?g, n) \<noteq> None}"
    by (simp add: distinct_card [symmetric] card_image inj_on_def)
  moreover have "g < ?g \<and> pn_status r \<noteq> PagePending" if "map_of (bc_pages c) (b, g, n) = Some r" "g \<noteq> ?g" for g n r
    using branch_invD(2) [OF inv that(1)] assms(4) that(2) by (auto simp: page_ok_def)
  ultimately show ?thesis using ok by (auto simp: no_pending_def)
qed

definition demo_pushed :: branch_cache where
  "demo_pushed = (case ApplyBranchPushTx demo_writer_env demo_push (demo_cache, []) of
     Inr (bulk, c, g) \<Rightarrow> (case RecordBranchReconciliationPagesTx demo_writer_env (bb_repo bulk) (bh_branch (pp_hint demo_push))
       (bb_generation bulk) [1] c of Inr c' \<Rightarrow> c' | Inl _ \<Rightarrow> demo_cache) | Inl _ \<Rightarrow> demo_cache)"

lemma demo_pushed_step: "branch_step demo_cache demo_pushed"
proof -
  obtain bulk c g where r: "ApplyBranchPushTx demo_writer_env demo_push (demo_cache, []) = Inr (bulk, c, g)"
    and b: "bb_repo bulk \<noteq> 0"
    using demo_push_result by (auto split: sum.splits prod.splits)
  obtain c' where c': "RecordBranchReconciliationPagesTx demo_writer_env (bb_repo bulk) (bh_branch (pp_hint demo_push))
      (bb_generation bulk) [1] c = Inr c'"
    by (simp add: RecordBranchReconciliationPagesTx_def Let_def)
  have "demo_pushed = c'" unfolding demo_pushed_def r sum.case prod.case c' by (rule refl)
  with branch_step.push [OF r b c'] show ?thesis by simp
qed

lemma demo_pushed_row:
  "(case map_of (bc_reconciliations demo_pushed) (1, ''topic'') of None \<Rightarrow> False
    | Some row \<Rightarrow> bn_generation row = 1 \<and> bn_completedAt row = None)"
  by code_simp

theorem reconciliation_complete_iff_no_page_pending_witness:
  "\<exists>row n r. map_of (bc_reconciliations demo_pushed) (1, ''topic'') = Some row \<and> bn_completedAt row = None \<and>
     map_of (bc_pages demo_pushed) ((1, ''topic''), bn_generation row, n) = Some r \<and> pn_status r = PagePending"
proof -
  obtain row where row: "map_of (bc_reconciliations demo_pushed) (1, ''topic'') = Some row" and o: "bn_completedAt row = None"
    using demo_pushed_row by (auto split: option.splits)
  have init: "bc_reconciliations demo_cache = []" "bc_pages demo_cache = []" by (simp_all add: demo_cache_def)
  have steps: "branch_step\<^sup>*\<^sup>* demo_cache demo_pushed" using demo_pushed_step by (rule r_into_rtranclp)
  from reconciliation_complete_iff_no_page_pending [OF init steps row] row o
  show ?thesis by blast
qed

section \<open>The page worker\<close>

lemma finalize_pages [simp]: "bc_pages (FinalizeBranchReconciliation b g c) = bc_pages c"
  by (simp add: FinalizeBranchReconciliation_def split: option.split)

lemma complete_page_live:
  assumes "page_live (b, g, n) c = Some r"
  shows "CompleteBranchReconciliationPage now k (b, g, n) c = (set_page (b, g, n) (r\<lparr>pn_status := PageCompleted,
    pn_superseded := k, pn_heartbeatAt := Some now, pn_completedAt := Some now\<rparr>) c, 1)"
  using page_live_Some [OF assms] by (simp add: CompleteBranchReconciliationPage_def)

lemma reconciliation_closed:
  assumes "branch_inv c" and "no_pending b g c" and "current_generation b g c"
  shows "\<exists>row. map_of (bc_reconciliations c) b = Some row \<and> bn_generation row = g \<and> bn_completedAt row \<noteq> None"
proof -
  from assms(3) obtain row where row: "map_of (bc_reconciliations c) b = Some row" "bn_generation row = g"
    by (auto simp: current_generation_def split: option.splits)
  with branch_invD(3) [OF assms(1) row(1)] assms(2) show ?thesis by (simp add: reconciliation_ok_def)
qed

lemma finalize_current: "current_generation b' g' (FinalizeBranchReconciliation b g c) \<longleftrightarrow> current_generation b' g' c"
  by (auto simp: current_generation_def FinalizeBranchReconciliation_def AList.update_conv' split: option.splits)

text \<open>a page worker finishes its page. When the page is pending in the current generation before and
  after the remote phase and every target was refreshed or superseded, the run returns without
  error, the page is completed with the number of superseded targets, and if no other page of the
  generation is pending the reconciliation is complete.\<close>

theorem page_worker_completes:
  fixes a :: BranchReconcilePageArgs and w :: branch_page_work and c :: branch_cache and startedAt now :: gotime
  assumes args: "0 < bp_repo a" "bp_name a \<noteq> []" "bp_branch a \<noteq> []" "0 < bp_generation a" "0 < bp_page a"
      "bp_targets a \<noteq> []" "length (bp_targets a) \<le> defaultBatchSize" "0 < inst"
  defines "b \<equiv> (bp_repo a, bp_branch a)" and "g \<equiv> bp_generation a"
  assumes live1: "page_live (b, g, bp_page a) c = Some r1"
  defines "c2 \<equiv> pw_cache w (fst (StartBranchReconciliationPage startedAt (b, g, bp_page a) c))"
  assumes inv: "branch_inv c2" and live2: "page_live (b, g, bp_page a) c2 = Some r2" and ok: "page_errors w = []"
  shows "\<exists>c' obs r. ReconcileBranchPage startedAt now inst w a c = (c', None, obs) \<and> branch_inv c' \<and>
    map_of (bc_pages c') (b, g, bp_page a) = Some r \<and> pn_status r = PageCompleted \<and>
    pn_superseded r = int (length (filter superseded_result (pw_results w))) \<and>
    ((\<forall>n q. n \<noteq> bp_page a \<and> map_of (bc_pages c2) (b, g, n) = Some q \<longrightarrow> pn_status q \<noteq> PagePending) \<longrightarrow>
       (\<exists>row. map_of (bc_reconciliations c') b = Some row \<and> bn_generation row = g \<and> bn_completedAt row \<noteq> None))"
proof -
  let ?i = "(b, g, bp_page a)" and ?k = "length (filter superseded_result (pw_results w))"
  let ?r = "r2\<lparr>pn_status := PageCompleted, pn_superseded := int ?k, pn_heartbeatAt := Some now, pn_completedAt := Some now\<rparr>"
  let ?c3 = "FinalizeBranchReconciliation b g (set_page ?i ?r c2)"
  note l1 = page_live_Some [OF live1] and l2 = page_live_Some [OF live2]
  have cur: "current_generation b g c2" using l2 by simp
  obtain c4 where c4: "record_success now inst ''fetch'' ''branch_reconciliation'' (int (length (bp_targets a))) ?c3 = Inr c4"
    using args(8) by (simp add: record_success_def RecordSuccessN_def Let_def)
  note same = record_success_tables [OF c4]
  obtain obs where fin: "completePage now inst ?k a c2 = (c4, None, obs)"
    using cur complete_page_live [OF live2] c4 by (simp add: completePage_def Let_def b_def g_def)
  have run: "ReconcileBranchPage startedAt now inst w a c = (c4, None, obs)"
  proof -
    obtain c1 where st: "StartBranchReconciliationPage startedAt ?i c = (c1, 1)"
      using live1 by (simp add: StartBranchReconciliationPage_def)
    then have c1: "pw_cache w c1 = c2" by (simp add: c2_def)
    have pend: "GetBranchReconciliationPage ?i c = Some PagePending" "GetBranchReconciliationPage ?i c2 = Some PagePending"
      using l1 l2 by (simp_all add: GetBranchReconciliationPage_def)
    show ?thesis
      using args st pend fin ok unfolding ReconcileBranchPage_def Let_def b_def [symmetric] g_def [symmetric]
      by (simp add: c1)
  qed
  have "branch_inv ?c3" by (rule completed_page_inv [OF inv l2 [THEN conjunct1]]) (use l2 in auto)
  then have inv4: "branch_inv c4" using branch_inv_cong [of c4 ?c3] same by blast
  have look: "map_of (bc_pages c4) j = (if j = ?i then Some ?r else map_of (bc_pages c2) j)" for j
    using same by (simp add: set_page_lookup)
  have "\<exists>row. map_of (bc_reconciliations c4) b = Some row \<and> bn_generation row = g \<and> bn_completedAt row \<noteq> None"
    if "\<forall>n q. n \<noteq> bp_page a \<and> map_of (bc_pages c2) (b, g, n) = Some q \<longrightarrow> pn_status q \<noteq> PagePending"
  proof (rule reconciliation_closed [OF inv4])
    show "no_pending b g c4" using that unfolding no_pending_def look by simp
    have "current_generation b g (set_page ?i ?r c2)" using cur by (simp add: current_generation_def)
    then have "current_generation b g ?c3" by (simp only: finalize_current)
    then show "current_generation b g c4" using same by (simp add: current_generation_def)
  qed
  with run inv4 look [of ?i] show ?thesis by auto
qed

definition demo_page :: BranchReconcilePageArgs where
  "demo_page = \<lparr>bp_repo = 1, bp_name = ''o/r'', bp_branch = ''topic'', bp_generation = 1, bp_page = 1,
     bp_targets = [\<lparr>bt_kind = KindRefreshPR, bt_key = ''pr:o/r:7'', bt_entity = ''pr:5:9:7'', bt_generation = 1\<rparr>]\<rparr>"

definition demo_page_work :: branch_page_work where
  "demo_page_work = \<lparr>pw_cache = (\<lambda>c. c), pw_results = [None], pw_heartbeatErrors = [], pw_manifestChanged = False\<rparr>"

definition demo_started :: branch_cache where
  "demo_started = fst (StartBranchReconciliationPage (101 * second) ((1, ''topic''), 1, 1) demo_pushed)"

lemma demo_page_live:
  "page_live ((1, ''topic''), 1, 1) demo_pushed \<noteq> None \<and> page_live ((1, ''topic''), 1, 1) demo_started \<noteq> None"
  by code_simp

theorem page_worker_completes_witness:
  "\<exists>c' obs r. ReconcileBranchPage (101 * second) (102 * second) 5 demo_page_work demo_page demo_pushed = (c', None, obs) \<and>
     map_of (bc_pages c') ((1, ''topic''), 1, 1) = Some r \<and> pn_status r = PageCompleted"
proof -
  obtain r1 r2 where live: "page_live ((bp_repo demo_page, bp_branch demo_page), bp_generation demo_page, bp_page demo_page) demo_pushed = Some r1"
    "page_live ((bp_repo demo_page, bp_branch demo_page), bp_generation demo_page, bp_page demo_page) demo_started = Some r2"
    using demo_page_live by (auto simp: demo_page_def)
  have started: "pw_cache demo_page_work (fst (StartBranchReconciliationPage (101 * second)
      ((bp_repo demo_page, bp_branch demo_page), bp_generation demo_page, bp_page demo_page) demo_pushed)) = demo_started"
    by (simp add: demo_started_def demo_page_def demo_page_work_def)
  have "branch_inv demo_cache" by (rule branch_inv_init) (simp_all add: demo_cache_def)
  from start_inv [OF branch_step_inv [OF demo_pushed_step this]] have inv: "branch_inv demo_started" unfolding demo_started_def .
  have ok: "page_errors demo_page_work = []" by (simp add: page_errors_def demo_page_work_def)
  have args: "0 < bp_repo demo_page" "bp_name demo_page \<noteq> []" "bp_branch demo_page \<noteq> []" "0 < bp_generation demo_page"
    "0 < bp_page demo_page" "bp_targets demo_page \<noteq> []" "length (bp_targets demo_page) \<le> defaultBatchSize" "0 < (5::int)"
    by (simp_all add: demo_page_def defaultBatchSize_def)
  note run = page_worker_completes [OF args live(1), of demo_page_work "101 * second", unfolded started, OF inv live(2) ok, of "102 * second"]
  have id: "((bp_repo demo_page, bp_branch demo_page), bp_generation demo_page, bp_page demo_page) = ((1, ''topic''), 1, 1)"
    by (simp add: demo_page_def)
  from run show ?thesis unfolding id by blast
qed

end
