(* ===== verification/Entity_Writer.thy ===== *)
theory Entity_Writer
  imports Branch_Writer
begin

text \<open>
  The cache writer's compare-and-set, \<open>src/internal/store/observation.go\<close> with
  \<open>src/db/queries/observation_versions.sql\<close>, and the repository writes on top of it,
  \<open>src/internal/store/repository.go\<close> with the repository statements of \<open>src/db/queries/cache.sql\<close>.

  A fetch takes an observation of the entity's committed version before its remote reads and carries it
  into a short transaction that holds the entity's advisory lock; the transaction is one step. Generation
  fences ride in the context. The cached rows are of any type in the first part.
\<close>

section \<open>Observations and fences\<close>

record Observation =
  ob_key :: string
  ob_version :: int

record BranchReconciliationFence =
  bf_repo :: int
  bf_branch :: string
  bf_branchGeneration :: int
  bf_kind :: string
  bf_key :: string
  bf_generation :: int
  bf_entity :: string

record 'c entity_state =
  es_versions :: "(string \<times> int) list"
  es_gens :: generations
  es_branches :: "(branch_id \<times> reconciliation_row) list"
  es_cache :: 'c

definition entity_version :: "string \<Rightarrow> 'c entity_state \<Rightarrow> int" where
  "entity_version key s = (case map_of (es_versions s) key of None \<Rightarrow> 0 | Some v \<Rightarrow> v)"

definition BeginObservation :: "string \<Rightarrow> 'c entity_state \<Rightarrow> gerror + Observation" where
  "BeginObservation key s =
     (if key = [] then Inl (ErrText ''observation entity key is required'')
      else Inr \<lparr>ob_key = key, ob_version = entity_version key s\<rparr>)"

definition AdvanceEntityObservationVersion :: "string \<Rightarrow> (string \<times> int) list \<Rightarrow> (string \<times> int) list" where
  "AdvanceEntityObservationVersion key t =
     AList.update key (case map_of t key of None \<Rightarrow> 1 | Some v \<Rightarrow> v + 1) t"

definition requireObservation :: "Observation option \<Rightarrow> string \<Rightarrow> gerror option" where
  "requireObservation ob wantKey =
     (case ob of
        None \<Rightarrow> Some (ErrText ''observation is required'')
      | Some x \<Rightarrow> if ob_key x \<noteq> wantKey then Some (ErrText ''observation key does not match'') else None)"

definition verifyObservationVersion :: "Observation \<Rightarrow> 'c entity_state \<Rightarrow> gerror option" where
  "verifyObservationVersion ob s =
     (if entity_version (ob_key ob) s \<noteq> ob_version ob then Some ErrObservationSuperseded else None)"

definition checkRefreshGenerationFence :: "RefreshGenerationFence \<Rightarrow> 'c entity_state \<Rightarrow> gerror option" where
  "checkRefreshGenerationFence f s =
     (if fe_kind f = [] \<or> fe_key f = [] \<or> fe_generation f < 0 then Some (ErrText ''invalid refresh generation fence'')
      else case map_of (es_gens s) (fe_kind f, fe_key f) of
        None \<Rightarrow> if fe_generation f = 0 then None else Some ErrRefreshGenerationSuperseded
      | Some r \<Rightarrow>
          if fe_generation f = 0 \<or> (gr_generation r \<noteq> fe_generation f \<and> fe_generation f < gr_completed r)
          then Some ErrRefreshGenerationSuperseded else None)"

definition RefreshGeneration :: "string \<Rightarrow> string \<Rightarrow> 'c entity_state \<Rightarrow> gerror + int" where
  "RefreshGeneration kind key s =
     (if kind = [] \<or> key = [] then Inl (ErrText ''invalid refresh generation identity'')
      else Inr (case map_of (es_gens s) (kind, key) of None \<Rightarrow> 0 | Some r \<Rightarrow> gr_generation r))"

definition checkBranchReconciliationFence :: "string \<Rightarrow> BranchReconciliationFence \<Rightarrow> 'c entity_state \<Rightarrow> gerror option" where
  "checkBranchReconciliationFence entityKey f s =
     (if bf_repo f \<le> 0 \<or> bf_branch f = [] \<or> bf_branchGeneration f \<le> 0 \<or> bf_kind f = [] \<or> bf_key f = [] \<or>
         bf_generation f \<le> 0 \<or> bf_entity f = [] \<or> bf_entity f \<noteq> entityKey
      then Some (ErrText ''invalid branch reconciliation fence'')
      else case map_of (es_gens s) (bf_kind f, bf_key f) of
        None \<Rightarrow> Some ErrBranchReconciliationSuperseded
      | Some r \<Rightarrow>
          (case map_of (es_branches s) (bf_repo f, bf_branch f) of
             None \<Rightarrow> Some ErrBranchReconciliationSuperseded
           | Some b \<Rightarrow>
               if gr_generation r \<noteq> bf_generation f \<or> bn_generation b \<noteq> bf_branchGeneration f
               then Some ErrBranchReconciliationSuperseded else None))"

section \<open>The entity transaction\<close>

text \<open>The context of a write: the two fences it may carry and the database clock of its transaction.\<close>

record entity_ctx =
  cx_refresh :: "RefreshGenerationFence option"
  cx_branch :: "BranchReconciliationFence option"
  cx_clock :: gotime
  cx_hook :: "int \<Rightarrow> gerror option"

definition beginEntityTx :: "Observation option \<Rightarrow> string \<Rightarrow> gerror option" where
  "beginEntityTx ob key = (case ob of None \<Rightarrow> None | Some x \<Rightarrow> requireObservation (Some x) key)"

definition fence_errors :: "entity_ctx \<Rightarrow> string \<Rightarrow> 'c entity_state \<Rightarrow> gerror option" where
  "fence_errors cx key s =
     (case (case cx_refresh cx of None \<Rightarrow> None | Some f \<Rightarrow> checkRefreshGenerationFence f s) of
        Some e \<Rightarrow> Some e
      | None \<Rightarrow> (case cx_branch cx of None \<Rightarrow> None | Some f \<Rightarrow> checkBranchReconciliationFence key f s))"

text \<open>\<open>fn\<close> is the callback on the cached rows; its second result is what it tells its caller.\<close>

definition withEntityTx ::
  "entity_ctx \<Rightarrow> Observation option \<Rightarrow> string \<Rightarrow> (gotime \<Rightarrow> 'c \<Rightarrow> gerror + 'c \<times> 'r) \<Rightarrow> 'c entity_state \<Rightarrow>
   'c entity_state \<times> (gerror + 'r)" where
  "withEntityTx cx ob key fn s =
     (case beginEntityTx ob key of
        Some e \<Rightarrow> (s, Inl (ErrWrap ''begin entity transaction'' [e]))
      | None \<Rightarrow>
          (case (case ob of None \<Rightarrow> None | Some x \<Rightarrow> verifyObservationVersion x s) of
             Some e \<Rightarrow> (s, Inl (if cx_branch cx \<noteq> None then ErrBranchReconciliationSuperseded else ErrObservationSuperseded))
           | None \<Rightarrow>
               (case fn (cx_clock cx) (es_cache s) of
                  Inl e \<Rightarrow> (s, Inl e)
                | Inr (c, r) \<Rightarrow>
                    (case fence_errors cx key s of
                       Some e \<Rightarrow> (s, Inl e)
                     | None \<Rightarrow> (s\<lparr>es_cache := c, es_versions := AdvanceEntityObservationVersion key (es_versions s)\<rparr>, Inr r)))))"

text \<open>\<open>WithObservationTransaction\<close>: the same lock and version check for state outside the cache.\<close>

definition WithObservationTransaction ::
  "Observation option \<Rightarrow> ('c \<Rightarrow> gerror + 'c) \<Rightarrow> 'c entity_state \<Rightarrow> 'c entity_state \<times> gerror option" where
  "WithObservationTransaction ob fn s =
     (case ob of
        None \<Rightarrow> (s, Some (ErrText ''observation is required''))
      | Some x \<Rightarrow>
          (case verifyObservationVersion x s of
             Some e \<Rightarrow> (s, Some e)
           | None \<Rightarrow> (case fn (es_cache s) of Inl e \<Rightarrow> (s, Some e) | Inr c \<Rightarrow> (s\<lparr>es_cache := c\<rparr>, None))))"

section \<open>Repositories\<close>

record repository_row =
  rr_id :: int
  rr_installation :: int
  rr_org :: int
  rr_ghID :: int
  rr_nodeID :: string
  rr_owner :: string
  rr_name :: string
  rr_fullName :: string
  rr_defaultBranch :: string
  rr_archived :: bool
  rr_ghUpdatedAt :: "gotime option"
  rr_headSHA :: string
  rr_syncedAt :: gotime
  rr_lastCheckedAt :: gotime
  rr_etag :: string
  rr_source :: string
  rr_tombstonedAt :: "gotime option"

record alias_row =
  al_repo :: int
  al_firstSeen :: gotime
  al_lastSeen :: gotime

text \<open>\<open>rc_serial\<close> is the last identity \<open>repos\<close> gave out.\<close>

record repository_cache =
  rc_repos :: "repository_row list"
  rc_serial :: int
  rc_aliases :: "(string \<times> alias_row) list"
  rc_pulls :: "pull_row list"
  rc_stacks :: "stack_row list"
  rc_dirty :: "(string \<times> gotime) list"
  rc_events :: "change_event list"
  rc_seq :: int

record RepositoryRecord =
  rd_installation :: int
  rd_org :: int
  rd_ghID :: int
  rd_nodeID :: string
  rd_owner :: string
  rd_name :: string
  rd_fullName :: string
  rd_defaultBranch :: string
  rd_defaultHeadSHA :: string
  rd_archived :: bool
  rd_ghUpdatedAt :: gotime

definition source_valid :: "string \<Rightarrow> bool" where
  "source_valid s = (s \<in> {''webhook'', ''reconcile'', ''backfill'', ''manual'', ''interactive''})"

definition validateRepository :: "RepositoryRecord \<Rightarrow> string \<Rightarrow> gerror option" where
  "validateRepository r source =
     (if \<not> source_valid source \<or> rd_installation r \<le> 0 \<or> rd_org r \<le> 0 \<or> rd_ghID r \<le> 0 \<or> rd_owner r = [] \<or>
         rd_name r = [] \<or> rd_fullName r \<noteq> rd_owner r @ ''/'' @ rd_name r \<or> isZero (rd_ghUpdatedAt r)
      then Some (ErrText ''invalid repository record'') else None)"

definition GetRepoByGitHubID :: "int \<Rightarrow> repository_cache \<Rightarrow> repository_row option" where
  "GetRepoByGitHubID gh c = List.find (\<lambda>r. rr_ghID r = gh) (rc_repos c)"

definition set_repository :: "repository_row \<Rightarrow> repository_cache \<Rightarrow> repository_cache" where
  "set_repository row c = c\<lparr>rc_repos := map (\<lambda>r. if rr_ghID r = rr_ghID row then row else r) (rc_repos c)\<rparr>"

text \<open>The columns a repository write compares, with the head it would keep.\<close>

definition repository_head :: "RepositoryRecord \<Rightarrow> repository_row \<Rightarrow> string" where
  "repository_head r row = (if rd_defaultHeadSHA r = [] then rr_headSHA row else rd_defaultHeadSHA r)"

definition same_repository :: "RepositoryRecord \<Rightarrow> repository_row \<Rightarrow> bool" where
  "same_repository r row = (rd_installation r = rr_installation row \<and> rd_org r = rr_org row \<and> rd_nodeID r = rr_nodeID row \<and>
     rd_owner r = rr_owner row \<and> rd_name r = rr_name row \<and> rd_fullName r = rr_fullName row \<and>
     rd_defaultBranch r = rr_defaultBranch row \<and> rd_archived r = rr_archived row \<and> repository_head r row = rr_headSHA row)"

definition writes_repository :: "RepositoryRecord \<Rightarrow> gotime \<Rightarrow> repository_row \<Rightarrow> bool" where
  "writes_repository r checkedAt row =
     (case rr_ghUpdatedAt row of
        None \<Rightarrow> True
      | Some t \<Rightarrow> t < pg_timestamp (rd_ghUpdatedAt r) \<or> (pg_timestamp (rd_ghUpdatedAt r) = t \<and> \<not> same_repository r row) \<or>
          (case rr_tombstonedAt row of None \<Rightarrow> False | Some dead \<Rightarrow> dead < checkedAt))"

definition repository_columns :: "int \<Rightarrow> string \<Rightarrow> RepositoryRecord \<Rightarrow> string \<Rightarrow> string \<Rightarrow> gotime \<Rightarrow> repository_row" where
  "repository_columns i head r source etag at =
     \<lparr>rr_id = i, rr_installation = rd_installation r, rr_org = rd_org r, rr_ghID = rd_ghID r, rr_nodeID = rd_nodeID r,
      rr_owner = rd_owner r, rr_name = rd_name r, rr_fullName = rd_fullName r, rr_defaultBranch = rd_defaultBranch r,
      rr_archived = rd_archived r, rr_ghUpdatedAt = Some (pg_timestamp (rd_ghUpdatedAt r)), rr_headSHA = head, rr_syncedAt = at,
      rr_lastCheckedAt = at, rr_etag = etag, rr_source = source, rr_tombstonedAt = None\<rparr>"

definition UpsertRepositoryWriteIfNewer ::
  "RepositoryRecord \<Rightarrow> string \<Rightarrow> string \<Rightarrow> gotime \<Rightarrow> repository_cache \<Rightarrow> (repository_cache \<times> repository_row) option" where
  "UpsertRepositoryWriteIfNewer r source etag at c =
     (case GetRepoByGitHubID (rd_ghID r) c of
        None \<Rightarrow>
          let row = repository_columns (rc_serial c + 1) (rd_defaultHeadSHA r) r source etag at
          in Some (c\<lparr>rc_repos := rc_repos c @ [row], rc_serial := rc_serial c + 1\<rparr>, row)
      | Some old \<Rightarrow>
          if writes_repository r at old then
            let row = repository_columns (rr_id old) (repository_head r old) r source etag at
            in Some (set_repository row c, row)
          else None)"

definition TouchRepositoryCheckedAt :: "gotime \<Rightarrow> int \<Rightarrow> string \<Rightarrow> repository_cache \<Rightarrow> repository_cache" where
  "TouchRepositoryCheckedAt at gh etag c =
     c\<lparr>rc_repos := map (\<lambda>r. if rr_ghID r = gh
         then r\<lparr>rr_lastCheckedAt := max (rr_lastCheckedAt r) at, rr_etag := (if etag = [] then rr_etag r else etag)\<rparr> else r)
       (rc_repos c)\<rparr>"

definition UpsertRepositoryAlias :: "string \<Rightarrow> int \<Rightarrow> gotime \<Rightarrow> repository_cache \<Rightarrow> repository_cache" where
  "UpsertRepositoryAlias name i at c =
     (case map_of (rc_aliases c) name of
        None \<Rightarrow> c\<lparr>rc_aliases := AList.update name \<lparr>al_repo = i, al_firstSeen = at, al_lastSeen = at\<rparr> (rc_aliases c)\<rparr>
      | Some a \<Rightarrow>
          if al_lastSeen a \<le> at
          then c\<lparr>rc_aliases := AList.update name (a\<lparr>al_repo := i, al_lastSeen := max (al_lastSeen a) at\<rparr>) (rc_aliases c)\<rparr>
          else c)"

definition ListRepositoryDerivationScopes :: "repository_row \<Rightarrow> repository_cache \<Rightarrow> string list" where
  "ListRepositoryDerivationScopes row c =
     sort (remdups
       (map (\<lambda>s. StackKey (rr_installation row) (rr_ghID row) (sk_number s))
          (filter (\<lambda>s. sk_repo s = rr_id row \<and> \<not> sk_tombstoned s) (rc_stacks c)) @
        map (\<lambda>p. PullRequestKey (rr_installation row) (rr_ghID row) (pu_number p))
          (filter (\<lambda>p. pu_repo p = rr_id row \<and> \<not> pu_tombstoned p \<and> pu_stack p = None) (rc_pulls c))))"

definition RepositoryTombstonedKind :: string where "RepositoryTombstonedKind = ''repository.tombstoned''"

definition markAndEmit :: "(int \<Rightarrow> gerror option) \<Rightarrow> string list \<Rightarrow> string \<Rightarrow> string \<Rightarrow> gotime \<Rightarrow> repository_cache \<Rightarrow> gerror + repository_cache" where
  "markAndEmit hook scopes kind entity at c =
     (let c1 = c\<lparr>rc_dirty := fold (mark_dirty at) (remdups scopes) (rc_dirty c)\<rparr>;
          e = \<lparr>ce_seq = rc_seq c + 1, ce_kind = kind, ce_entity = entity, ce_occurredAt = at\<rparr>
      in case hook (ce_seq e) of
           Some err \<Rightarrow> Inl (ErrWrap ''after entity change sequence allocation'' [err])
         | None \<Rightarrow> Inr (c1\<lparr>rc_events := rc_events c1 @ [e], rc_seq := rc_seq c + 1\<rparr>))"

text \<open>A row that was not written is read back by its GitHub identity, which the write conflicted on.\<close>

definition applyRepositoryTx ::
  "(int \<Rightarrow> gerror option) \<Rightarrow> RepositoryRecord \<Rightarrow> string \<Rightarrow> string \<Rightarrow> gotime \<Rightarrow> repository_cache \<Rightarrow>
   gerror + repository_cache \<times> repository_row \<times> bool" where
  "applyRepositoryTx hook r source etag at c =
     (case validateRepository r source of
        Some e \<Rightarrow> Inl e
      | None \<Rightarrow>
          (case (case UpsertRepositoryWriteIfNewer r source etag at c of
                   Some (c1, row) \<Rightarrow> Some (c1, row, True)
                 | None \<Rightarrow> map_option (\<lambda>row. (c, row, False)) (GetRepoByGitHubID (rd_ghID r) c)) of
             None \<Rightarrow> Inl (ErrWrap ''upsert repository'' [ErrNoRows])
           | Some (c1, row, applied) \<Rightarrow>
               let c3 = UpsertRepositoryAlias (rd_fullName r) (rr_id row) at (TouchRepositoryCheckedAt at (rd_ghID r) etag c1) in
               if \<not> applied then Inr (c3, row, False)
               else Sum_Type.map_sum id (\<lambda>c4. (c4, row, True))
                 (markAndEmit hook (ListRepositoryDerivationScopes row c3) RepositoryChangedKind
                   (RepositoryKey (rr_installation row) (rr_ghID row)) at c3)))"


text \<open>
  \<open>applyRepository\<close> and its two entries. On success the last result is what the cache observer is told:
  the entity, whether the write was applied, whether it was a tombstone.
\<close>

type_synonym cache_write = "string \<times> bool \<times> bool"

definition applyRepository ::
  "entity_ctx \<Rightarrow> Observation option \<Rightarrow> RepositoryRecord \<Rightarrow> string \<Rightarrow> string \<Rightarrow> repository_cache entity_state \<Rightarrow>
   repository_cache entity_state \<times> (gerror + bool) \<times> cache_write list" where
  "applyRepository cx ob r source etag s =
     (case withEntityTx cx ob (RepositoryKey (rd_installation r) (rd_ghID r))
             (\<lambda>at c. Sum_Type.map_sum id (\<lambda>(c', row, applied). (c', applied)) (applyRepositoryTx (cx_hook cx) r source etag at c)) s of
        (s', Inl e) \<Rightarrow> (s', Inl (ErrWrap ''apply repository'' [e]), [])
      | (s', Inr applied) \<Rightarrow> (s', Inr applied, [(''repository'', applied, False)]))"

definition ApplyRepository :: "entity_ctx \<Rightarrow> RepositoryRecord \<Rightarrow> string \<Rightarrow> string \<Rightarrow> repository_cache entity_state \<Rightarrow>
   repository_cache entity_state \<times> (gerror + bool) \<times> cache_write list" where
  "ApplyRepository cx = applyRepository cx None"

definition ApplyRepositoryObserved ::
  "entity_ctx \<Rightarrow> Observation option \<Rightarrow> RepositoryRecord \<Rightarrow> string \<Rightarrow> string \<Rightarrow> repository_cache entity_state \<Rightarrow>
   repository_cache entity_state \<times> (gerror + bool) \<times> cache_write list" where
  "ApplyRepositoryObserved cx ob r source etag s =
     (case requireObservation ob (RepositoryKey (rd_installation r) (rd_ghID r)) of
        Some e \<Rightarrow> (s, Inl e, [])
      | None \<Rightarrow> applyRepository cx ob r source etag s)"

definition TombstoneRepository :: "gotime \<Rightarrow> string \<Rightarrow> int \<Rightarrow> repository_cache \<Rightarrow> repository_cache option" where
  "TombstoneRepository at source gh c =
     (case GetRepoByGitHubID gh c of
        None \<Rightarrow> None
      | Some row \<Rightarrow>
          if rr_tombstonedAt row = None \<and> rr_lastCheckedAt row \<le> at then
            Some (set_repository (row\<lparr>rr_tombstonedAt := Some at, rr_syncedAt := at, rr_lastCheckedAt := max (rr_lastCheckedAt row) at,
              rr_etag := [], rr_source := source\<rparr>) c)
          else None)"

definition tombstoneRepositoryTx ::
  "(int \<Rightarrow> gerror option) \<Rightarrow> RepositoryRecord \<Rightarrow> string \<Rightarrow> gotime \<Rightarrow> repository_cache \<Rightarrow> gerror + repository_cache \<times> bool" where
  "tombstoneRepositoryTx hook r source at c =
     (case GetRepoByGitHubID (rd_ghID r) c of
        None \<Rightarrow> Inr (c, False)
      | Some current \<Rightarrow>
          (case TombstoneRepository at source (rd_ghID r) c of
             None \<Rightarrow> Inr (c, False)
           | Some c1 \<Rightarrow> Sum_Type.map_sum id (\<lambda>c2. (c2, True))
               (markAndEmit hook (ListRepositoryDerivationScopes current c) RepositoryTombstonedKind
                 (RepositoryKey (rd_installation r) (rd_ghID r)) at c1)))"

definition TombstoneRepositoryObserved ::
  "entity_ctx \<Rightarrow> Observation option \<Rightarrow> RepositoryRecord \<Rightarrow> string \<Rightarrow> repository_cache entity_state \<Rightarrow>
   repository_cache entity_state \<times> (gerror + bool) \<times> cache_write list" where
  "TombstoneRepositoryObserved cx ob r source s =
     (if \<not> source_valid source then (s, Inl (ErrText ''invalid repository tombstone source''), [])
      else case requireObservation ob (RepositoryKey (rd_installation r) (rd_ghID r)) of
        Some e \<Rightarrow> (s, Inl e, [])
      | None \<Rightarrow>
          (case withEntityTx cx ob (RepositoryKey (rd_installation r) (rd_ghID r)) (tombstoneRepositoryTx (cx_hook cx) r source) s of
             (s', Inl e) \<Rightarrow> (s', Inl (ErrWrap ''tombstone repository'' [e]), [])
           | (s', Inr applied) \<Rightarrow> (s', Inr applied, [(''repository'', applied, True)])))"

end
