(* ===== verification/Deriver.thy ===== *)
theory Deriver
  imports Entity_Writer
begin

text \<open>
  \<open>src/internal/derive/derive.go\<close> and \<open>snapshot.go\<close> with \<open>src/db/queries/derive.sql\<close>: a pass claims dirty
  scopes, loads their cached rows, calls the pure deriver once and replaces the work items of every
  claimed scope, with one change event per work item that changed or went away.

  A pass is one transaction; other transactions commit between its statements. A payload is its JSON
  value, not its text. The deriver is the \<open>Deriver\<close> interface: an argument.
\<close>

section \<open>Tables\<close>

text \<open>\<open>th_rest\<close>, \<open>cr_rest\<close> and \<open>rz_rest\<close> are the columns the snapshot only copies.\<close>

record review_thread_row =
  th_id :: string
  th_repo :: int
  th_pr :: int
  th_headSHA :: string
  th_tombstoned :: bool
  th_rest :: string

record check_run_row =
  cr_ghID :: int
  cr_repo :: int
  cr_headSHA :: string
  cr_tombstoned :: bool
  cr_rest :: string

record repo_rule_row =
  rz_repo :: int
  rz_key :: string
  rz_tombstoned :: bool
  rz_rest :: string

record 'v work_item_row =
  wi_scope :: string
  wi_org :: int
  wi_payload :: 'v
  wi_updatedAt :: gotime

text \<open>A row of \<open>change_events\<close> on the work-item stream, with the two keys of its payload.\<close>

record work_event =
  wv_seq :: int
  wv_kind :: string
  wv_identity :: string
  wv_scope :: string
  wv_occurredAt :: gotime

text \<open>The work items have their identity as the primary key; the sequence is that of the cache.\<close>

record 'v derive_db =
  dd_cache :: repository_cache
  dd_threads :: "review_thread_row list"
  dd_checks :: "check_run_row list"
  dd_rules :: "repo_rule_row list"
  dd_items :: "(string \<times> 'v work_item_row) list"
  dd_events :: "work_event list"
  dd_heartbeats :: heartbeats

definition WorkItemChangedKind :: string where "WorkItemChangedKind = ''work_item.changed''"
definition WorkItemRemovedKind :: string where "WorkItemRemovedKind = ''work_item.removed''"

section \<open>Scopes\<close>

record parsedScope =
  pa_key :: string
  pa_kind :: string
  pa_installation :: int
  pa_repository :: int
  pa_number :: int

definition positive_int :: "string \<Rightarrow> int option" where
  "positive_int s = (case parse_int64 s of None \<Rightarrow> None | Some n \<Rightarrow> if n \<le> 0 then None else Some n)"

definition parseScope :: "string \<Rightarrow> gerror + parsedScope" where
  "parseScope key =
     (case split_char CHR '':'' key of
        [kind, a, b, c] \<Rightarrow>
          if kind \<noteq> ''stack'' \<and> kind \<noteq> ''pr'' then Inl (ErrText ''invalid derivation scope key'')
          else (case positive_int a of
                  None \<Rightarrow> Inl (ErrText ''invalid derivation installation'')
                | Some installation \<Rightarrow>
                    (case positive_int b of
                       None \<Rightarrow> Inl (ErrText ''invalid derivation repository'')
                     | Some repository \<Rightarrow>
                         (case positive_int c of
                            None \<Rightarrow> Inl (ErrText ''invalid derivation number'')
                          | Some number \<Rightarrow>
                              Inr \<lparr>pa_key = key, pa_kind = kind, pa_installation = installation,
                                    pa_repository = repository, pa_number = number\<rparr>)))
      | _ \<Rightarrow> Inl (ErrText ''invalid derivation scope key''))"

definition StackIdentity :: "int \<Rightarrow> int \<Rightarrow> string" where
  "StackIdentity repo n = ''repo:'' @ itoa repo @ '':stack:'' @ itoa n"

definition PullRequestIdentity :: "int \<Rightarrow> int \<Rightarrow> string" where
  "PullRequestIdentity repo n = ''repo:'' @ itoa repo @ '':pr:'' @ itoa n"

definition identityForScope :: "parsedScope \<Rightarrow> string" where
  "identityForScope p =
     (if pa_kind p = ''stack'' then StackIdentity (pa_repository p) (pa_number p)
      else PullRequestIdentity (pa_repository p) (pa_number p))"

section \<open>The snapshot\<close>

text \<open>\<open>Data\<close>: the JSON document, with the rows it is built from.\<close>

record scope_data =
  sq_kind :: string
  sq_number :: int
  sq_repository :: "repository_row option"
  sq_rules :: "repo_rule_row list"
  sq_stack :: "stack_row option"
  sq_pulls :: "pull_row list"
  sq_threads :: "review_thread_row list"
  sq_checks :: "check_run_row list"

record ScopeSnapshot =
  zs_key :: string
  zs_org :: int
  zs_repo :: int
  zs_data :: scope_data

definition scope_repository :: "parsedScope \<Rightarrow> 'v derive_db \<Rightarrow> repository_row option" where
  "scope_repository p db = List.find (\<lambda>r. rr_installation r = pa_installation p \<and> rr_ghID r = pa_repository p \<and>
     rr_tombstonedAt r = None) (rc_repos (dd_cache db))"

definition selected_prs :: "parsedScope \<Rightarrow> int \<Rightarrow> 'v derive_db \<Rightarrow> pull_row list" where
  "selected_prs p repo db = sort_key pu_number (filter (\<lambda>q. pu_repo q = repo \<and> \<not> pu_tombstoned q \<and>
     ((pa_kind p = ''stack'' \<and> pu_stack q = Some (pa_number p)) \<or>
      (pa_kind p = ''pr'' \<and> pu_number q = pa_number p \<and> pu_stack q = None))) (rc_pulls (dd_cache db)))"

definition scope_threads :: "pull_row list \<Rightarrow> 'v derive_db \<Rightarrow> review_thread_row list" where
  "scope_threads pulls db = sort_key th_id (filter (\<lambda>t. \<not> th_tombstoned t \<and>
     (\<exists>q \<in> set pulls. th_repo t = pu_repo q \<and> th_pr t = pu_number q \<and> th_headSHA t = pu_headSHA q)) (dd_threads db))"

definition scope_checks :: "pull_row list \<Rightarrow> 'v derive_db \<Rightarrow> check_run_row list" where
  "scope_checks pulls db = sort_key cr_ghID (filter (\<lambda>c. \<not> cr_tombstoned c \<and>
     (\<exists>q \<in> set pulls. cr_repo c = pu_repo q \<and> cr_headSHA c = pu_headSHA q)) (dd_checks db))"

definition load_scope :: "'v derive_db \<Rightarrow> parsedScope \<Rightarrow> ScopeSnapshot" where
  "load_scope db p =
     (let repo = scope_repository p db;
          pulls = (case repo of None \<Rightarrow> [] | Some r \<Rightarrow> selected_prs p (rr_id r) db)
      in \<lparr>zs_key = pa_key p, zs_org = (case repo of None \<Rightarrow> 0 | Some r \<Rightarrow> rr_org r), zs_repo = pa_repository p,
          zs_data = \<lparr>sq_kind = pa_kind p, sq_number = pa_number p, sq_repository = repo,
            sq_rules = (case repo of None \<Rightarrow> [] | Some r \<Rightarrow>
              sort_key rz_key (filter (\<lambda>u. rz_repo u = rr_id r \<and> \<not> rz_tombstoned u) (dd_rules db))),
            sq_stack = (case repo of None \<Rightarrow> None | Some r \<Rightarrow>
              if pa_kind p = ''stack'' then
                List.find (\<lambda>s. sk_repo s = rr_id r \<and> sk_number s = pa_number p \<and> \<not> sk_tombstoned s) (rc_stacks (dd_cache db))
              else None),
            sq_pulls = pulls, sq_threads = scope_threads pulls db, sq_checks = scope_checks pulls db\<rparr>\<rparr>)"

text \<open>The query casts the number to a 32-bit \<open>int\<close>.\<close>

definition LoadDerivationSnapshot :: "parsedScope list \<Rightarrow> 'v derive_db \<Rightarrow> gerror + ScopeSnapshot list" where
  "LoadDerivationSnapshot ps db =
     (if list_ex (\<lambda>p. 2 ^ 31 \<le> pa_number p) ps then Inl (PgError ''22003'')
      else Inr (sort_key zs_key (map (load_scope db) ps)))"

fun parse_scopes :: "string list \<Rightarrow> gerror + parsedScope list" where
  "parse_scopes [] = Inr []"
| "parse_scopes (k # ks) =
     (case parseScope k of
        Inl e \<Rightarrow> Inl e
      | Inr p \<Rightarrow> (case parse_scopes ks of Inl e \<Rightarrow> Inl e | Inr ps \<Rightarrow> Inr (p # ps)))"

definition Load :: "string list \<Rightarrow> 'v derive_db \<Rightarrow> gerror + ScopeSnapshot list" where
  "Load keys db =
     (case parse_scopes keys of
        Inl e \<Rightarrow> Inl e
      | Inr ps \<Rightarrow>
          (case LoadDerivationSnapshot ps db of
             Inl e \<Rightarrow> Inl (ErrWrap ''load derivation snapshot'' [e])
           | Inr scopes \<Rightarrow> Inr scopes))"

section \<open>Derived work items\<close>

text \<open>A payload text: not JSON at all, JSON that \<open>jsonb\<close> refuses (an escaped NUL), or its \<open>jsonb\<close> value.\<close>

datatype 'v payload = NotJSON | NotJsonb | Jsonb 'v

record 'v WorkItem =
  it_identity :: string
  it_org :: int
  it_payload :: "'v payload"

record 'v ScopeResult =
  sz_key :: string
  sz_items :: "'v WorkItem list"

record 'v ownedWorkItem =
  ow_scope :: string
  ow_identity :: string
  ow_org :: int
  ow_payload :: "'v payload"

definition NoopDeriver :: "ScopeSnapshot list \<Rightarrow> 'v ScopeResult list" where
  "NoopDeriver scopes = map (\<lambda>s. \<lparr>sz_key = zs_key s, sz_items = []\<rparr>) scopes"

definition item_error :: "int \<Rightarrow> string \<Rightarrow> string list \<Rightarrow> 'v WorkItem \<Rightarrow> gerror option" where
  "item_error org expected seen item =
     (if it_identity item = [] then Some (ErrText ''derived work item identity is required'')
      else if it_identity item \<noteq> expected then Some (ErrText ''derived work item identity is not owned by scope'')
      else if it_org item \<le> 0 \<or> it_org item \<noteq> org then Some (ErrText ''derived work item has org ID of another scope'')
      else if it_payload item = NotJSON then Some (ErrText ''derived work item has invalid JSON payload'')
      else if it_identity item \<in> set seen then Some (ErrText ''deriver returned duplicate identity'')
      else None)"

definition own_item :: "string \<Rightarrow> 'v WorkItem \<Rightarrow> 'v ownedWorkItem" where
  "own_item key item = \<lparr>ow_scope = key, ow_identity = it_identity item, ow_org = it_org item, ow_payload = it_payload item\<rparr>"

fun validate_items :: "string \<Rightarrow> int \<Rightarrow> string \<Rightarrow> string list \<Rightarrow> 'v WorkItem list \<Rightarrow> gerror + 'v ownedWorkItem list" where
  "validate_items key org expected seen [] = Inr []"
| "validate_items key org expected seen (item # rest) =
     (case item_error org expected seen item of
        Some e \<Rightarrow> Inl e
      | None \<Rightarrow>
          (case validate_items key org expected (it_identity item # seen) rest of
             Inl e \<Rightarrow> Inl e
           | Inr os \<Rightarrow> Inr (own_item key item # os)))"

text \<open>The loop over the results; the last snapshot entry of a key is the one the map keeps.\<close>

fun validate_results ::
  "(string \<times> ScopeSnapshot) list \<Rightarrow> string list \<Rightarrow> string list \<Rightarrow> 'v ScopeResult list \<Rightarrow> gerror + string list \<times> 'v ownedWorkItem list" where
  "validate_results claimed seenScopes seenItems [] = Inr (seenScopes, [])"
| "validate_results claimed seenScopes seenItems (r # rs) =
     (case map_of claimed (sz_key r) of
        None \<Rightarrow> Inl (ErrText ''deriver returned unclaimed scope'')
      | Some scope \<Rightarrow>
          if sz_key r \<in> set seenScopes then Inl (ErrText ''deriver returned duplicate scope'')
          else (case parseScope (sz_key r) of
                  Inl e \<Rightarrow> Inl e
                | Inr p \<Rightarrow>
                    (case validate_items (sz_key r) (zs_org scope) (identityForScope p) seenItems (sz_items r) of
                       Inl e \<Rightarrow> Inl e
                     | Inr os \<Rightarrow>
                         (case validate_results claimed (sz_key r # seenScopes) (map ow_identity os @ seenItems) rs of
                            Inl e \<Rightarrow> Inl e
                          | Inr (seen, os') \<Rightarrow> Inr (seen, os @ os')))))"

definition validateScopeResults :: "ScopeSnapshot list \<Rightarrow> 'v ScopeResult list \<Rightarrow> gerror + 'v ownedWorkItem list" where
  "validateScopeResults scopes results =
     (let claimed = rev (map (\<lambda>s. (zs_key s, s)) scopes) in
      case validate_results claimed [] [] results of
        Inl e \<Rightarrow> Inl e
      | Inr (seen, os) \<Rightarrow>
          if list_all (\<lambda>s. zs_key s \<in> set seen) scopes then Inr os
          else Inl (ErrText ''deriver omitted claimed scope''))"

section \<open>The statements of a pass\<close>

text \<open>\<open>locked\<close> are the rows another transaction holds, which \<open>SKIP LOCKED\<close> leaves out.\<close>

definition ClaimDerivationDirtyScopes :: "(string \<Rightarrow> bool) \<Rightarrow> int \<Rightarrow> 'v derive_db \<Rightarrow> gerror + string list" where
  "ClaimDerivationDirtyScopes locked cap db =
     (if cap < 0 then Inl (PgError ''2201W'')
      else Inr (take (nat cap) (filter (\<lambda>k. \<not> locked k) (map fst (sort_key snd (sort_key fst (rc_dirty (dd_cache db))))))))"

text \<open>Row \<open>k\<close> of the inputs with its \<open>jsonb\<close> value; a text \<open>jsonb\<close> refuses fails the statement.\<close>

fun input_rows :: "(string \<Rightarrow> gotime) \<Rightarrow> 'v ownedWorkItem list \<Rightarrow> (string \<times> 'v work_item_row) list option" where
  "input_rows clk [] = Some []"
| "input_rows clk (i # is) =
     (case ow_payload i of
        Jsonb v \<Rightarrow> map_option (\<lambda>rows. (ow_identity i, \<lparr>wi_scope = ow_scope i, wi_org = ow_org i, wi_payload = v,
            wi_updatedAt = clk (ow_identity i)\<rparr>) # rows) (input_rows clk is)
      | _ \<Rightarrow> None)"

definition same_item :: "'v work_item_row \<Rightarrow> 'v work_item_row \<Rightarrow> bool" where
  "same_item a b = (wi_scope a = wi_scope b \<and> wi_org a = wi_org b \<and> wi_payload a = wi_payload b)"

definition upserted :: "(string \<times> 'v work_item_row) list \<Rightarrow> 'v derive_db \<Rightarrow> (string \<times> 'v work_item_row) list" where
  "upserted rows db = filter (\<lambda>(i, r). case map_of (dd_items db) i of None \<Rightarrow> True | Some old \<Rightarrow> \<not> same_item old r) rows"

definition removed :: "string list \<Rightarrow> (string \<times> 'v work_item_row) list \<Rightarrow> 'v derive_db \<Rightarrow> (string \<times> 'v work_item_row) list" where
  "removed keys rows db = filter (\<lambda>(i, r). wi_scope r \<in> set keys \<and> i \<notin> fst ` set rows) (dd_items db)"

fun number_events :: "(string \<Rightarrow> gotime) \<Rightarrow> int \<Rightarrow> (string \<times> string \<times> string) list \<Rightarrow> work_event list" where
  "number_events clk n [] = []"
| "number_events clk n ((i, k, s) # es) =
     \<lparr>wv_seq = n + 1, wv_kind = k, wv_identity = i, wv_scope = s, wv_occurredAt = clk i\<rparr> # number_events clk (n + 1) es"

definition item_events :: "(string \<times> 'v work_item_row) list \<Rightarrow> (string \<times> 'v work_item_row) list \<Rightarrow> (string \<times> string \<times> string) list" where
  "item_events up rm = sort_key fst (sort_key (fst \<circ> snd)
     (map (\<lambda>(i, r). (i, WorkItemChangedKind, wi_scope r)) up @ map (\<lambda>(i, r). (i, WorkItemRemovedKind, wi_scope r)) rm))"

text \<open>The identities of \<open>items\<close> are distinct. \<open>clk\<close> and \<open>eclk\<close> are the readings of \<open>clock_timestamp()\<close>.\<close>

definition ApplyDerivedWorkItemBatch ::
  "(string \<Rightarrow> gotime) \<Rightarrow> (string \<Rightarrow> gotime) \<Rightarrow> string list \<Rightarrow> 'v ownedWorkItem list \<Rightarrow> 'v derive_db \<Rightarrow> gerror + 'v derive_db \<times> int list" where
  "ApplyDerivedWorkItemBatch clk eclk keys items db =
     (case input_rows clk items of
        None \<Rightarrow> Inl (PgError ''22P05'')
      | Some rows \<Rightarrow>
          let up = upserted rows db;
              rm = removed keys rows db;
              seq = rc_seq (dd_cache db);
              es = number_events eclk seq (item_events up rm)
          in Inr (db\<lparr>dd_items := filter (\<lambda>(i, r). i \<notin> fst ` set rm) (fold (\<lambda>(i, r). AList.update i r) up (dd_items db)),
                     dd_events := dd_events db @ es,
                     dd_cache := (dd_cache db)\<lparr>rc_seq := seq + int (length es)\<rparr>\<rparr>,
                  map wv_seq es))"

definition ClearDerivationDirtyScopes :: "string list \<Rightarrow> 'v derive_db \<Rightarrow> 'v derive_db" where
  "ClearDerivationDirtyScopes keys db =
     db\<lparr>dd_cache := (dd_cache db)\<lparr>rc_dirty := filter (\<lambda>(k, t). k \<notin> set keys) (rc_dirty (dd_cache db))\<rparr>\<rparr>"

section \<open>The service\<close>

definition defaultDirtyCap :: int where "defaultDirtyCap = 500"
definition defaultPollInterval :: duration where "defaultPollInterval = 500 * millisecond"
definition minListenerBackoff :: duration where "minListenerBackoff = 100 * millisecond"
definition maxListenerBackoff :: duration where "maxListenerBackoff = 5 * second"

record DeriveOptions =
  do_dirtyCap :: int
  do_pollInterval :: duration
  do_installationID :: int

text \<open>\<open>getenv\<close> is the value of \<open>GITHUB_INSTALLATION_ID\<close>.\<close>

definition resolveInstallationID :: "string \<Rightarrow> int \<Rightarrow> gerror + int" where
  "resolveInstallationID getenv configured =
     (if 0 < configured then Inr configured
      else if configured < 0 then Inl (ErrText ''deriver installation ID must be positive'')
      else let raw = trim_space getenv in
        if raw = [] then Inl (ErrText ''deriver installation ID is required'')
        else case positive_int raw of
          None \<Rightarrow> Inl (ErrText ''deriver installation ID must be positive'')
        | Some n \<Rightarrow> Inr n)"

definition NewDeriver :: "string \<Rightarrow> DeriveOptions \<Rightarrow> gerror + DeriveOptions" where
  "NewDeriver getenv opts =
     (let cap = (if do_dirtyCap opts = 0 then defaultDirtyCap else do_dirtyCap opts);
          poll = (if do_pollInterval opts = 0 then defaultPollInterval else do_pollInterval opts)
      in if cap < 0 then Inl (ErrText ''deriver dirty cap must be positive'')
         else if poll < 0 then Inl (ErrText ''deriver poll interval must be positive'')
         else case resolveInstallationID getenv (do_installationID opts) of
           Inl e \<Rightarrow> Inl e
         | Inr i \<Rightarrow> Inr \<lparr>do_dirtyCap = cap, do_pollInterval = poll, do_installationID = i\<rparr>)"

text \<open>
  What a pass meets: the answer to the fence, rows locked by others, what commits between its
  statements, the clocks, and the hook of every sequence number.
\<close>

record 'v derive_env =
  dn_fence :: "gerror option"
  dn_locked :: "string \<Rightarrow> bool"
  dn_beforeLoad :: "'v derive_db \<Rightarrow> 'v derive_db"
  dn_beforeApply :: "'v derive_db \<Rightarrow> 'v derive_db"
  dn_clk :: "string \<Rightarrow> gotime"
  dn_eclk :: "string \<Rightarrow> gotime"
  dn_now :: gotime
  dn_hook :: "int \<Rightarrow> gerror option"

definition recordHeartbeat :: "gotime \<Rightarrow> DeriveOptions \<Rightarrow> int \<Rightarrow> 'v derive_db \<Rightarrow> gerror + 'v derive_db" where
  "recordHeartbeat now svc samples db =
     (case RecordSuccessN now (do_installationID svc) ''deriver'' ''dirty_sets'' samples (dd_heartbeats db) of
        Inl e \<Rightarrow> Inl (ErrWrap ''record deriver pass heartbeat'' [e])
      | Inr rows \<Rightarrow> Inr (db\<lparr>dd_heartbeats := rows\<rparr>))"

fun after_sequences :: "(int \<Rightarrow> gerror option) \<Rightarrow> int list \<Rightarrow> gerror option" where
  "after_sequences hook [] = None"
| "after_sequences hook (n # ns) =
     (case hook n of
        Some e \<Rightarrow> Some (ErrWrap ''after derived change sequence allocation'' [e])
      | None \<Rightarrow> after_sequences hook ns)"

text \<open>The writes of a pass, from the derived items to the commit.\<close>

definition finish_pass :: "'v derive_env \<Rightarrow> DeriveOptions \<Rightarrow> string list \<Rightarrow> 'v ownedWorkItem list \<Rightarrow> 'v derive_db \<Rightarrow> gerror + 'v derive_db" where
  "finish_pass env svc keys items db =
     (case ApplyDerivedWorkItemBatch (dn_clk env) (dn_eclk env) keys (sort_key ow_identity items) db of
        Inl e \<Rightarrow> Inl (ErrWrap ''apply derived work-item batch'' [e])
      | Inr (db1, seqs) \<Rightarrow>
          (case after_sequences (dn_hook env) seqs of
             Some e \<Rightarrow> Inl e
           | None \<Rightarrow> recordHeartbeat (dn_now env) svc (int (length keys)) (ClearDerivationDirtyScopes keys db1)))"

text \<open>A failed pass rolls back; what others committed meanwhile stays.\<close>

definition runOnce ::
  "(ScopeSnapshot list \<Rightarrow> 'v ScopeResult list) \<Rightarrow> 'v derive_env \<Rightarrow> DeriveOptions \<Rightarrow> 'v derive_db \<Rightarrow> 'v derive_db \<times> (gerror + nat)" where
  "runOnce derive env svc db =
     (case dn_fence env of
        Some e \<Rightarrow> (db, Inl e)
      | None \<Rightarrow>
          (case ClaimDerivationDirtyScopes (dn_locked env) (wrap32 (do_dirtyCap svc)) db of
             Inl e \<Rightarrow> (db, Inl (ErrWrap ''claim derivation dirty set'' [e]))
           | Inr keys \<Rightarrow>
               if keys = [] then
                 (case recordHeartbeat (dn_now env) svc 0 db of Inl e \<Rightarrow> (db, Inl e) | Inr db1 \<Rightarrow> (db1, Inr 0))
               else let db1 = dn_beforeLoad env db in
                 (case Load keys db1 of
                    Inl e \<Rightarrow> (db1, Inl e)
                  | Inr snapshot \<Rightarrow>
                      (case validateScopeResults snapshot (derive snapshot) of
                         Inl e \<Rightarrow> (db1, Inl e)
                       | Inr items \<Rightarrow>
                           let db2 = dn_beforeApply env db1 in
                           (case finish_pass env svc keys items db2 of
                              Inl e \<Rightarrow> (db2, Inl e)
                            | Inr db3 \<Rightarrow> (db3, Inr (length keys)))))))"

section \<open>The loop\<close>

definition growListenerBackoff :: "duration \<Rightarrow> duration" where
  "growListenerBackoff current = (let c = wrap64 (current * 2) in if maxListenerBackoff < c then maxListenerBackoff else c)"

record derive_loop_state =
  lo_listener :: bool
  lo_listenerBackoff :: duration
  lo_nextAttempt :: gotime

datatype listen_wait = Notified | PollElapsed | WaitFailed

text \<open>What a turn meets: whether the context has ended, the clocks, the listener's connection, its wait, the poll timer.\<close>

record derive_turn_env =
  tu_ctxDone :: bool
  tu_ctxDoneLater :: bool
  tu_now :: gotime
  tu_later :: gotime
  tu_connect :: bool
  tu_wait :: listen_wait
  tu_pollElapsed :: bool

datatype derive_next = Return "gerror option" | Again derive_loop_state

definition connect_deriver :: "derive_turn_env \<Rightarrow> derive_loop_state \<Rightarrow> derive_loop_state option" where
  "connect_deriver e st =
     (if \<not> lo_listener st \<and> lo_nextAttempt st \<le> tu_now e then
        if tu_connect e then Some (st\<lparr>lo_listener := True, lo_listenerBackoff := minListenerBackoff\<rparr>)
        else if tu_ctxDone e then None
        else Some (st\<lparr>lo_nextAttempt := tu_now e + lo_listenerBackoff st, lo_listenerBackoff := growListenerBackoff (lo_listenerBackoff st)\<rparr>)
      else Some st)"

definition derive_turn :: "DeriveOptions \<Rightarrow> derive_turn_env \<Rightarrow> gerror + nat \<Rightarrow> derive_loop_state \<Rightarrow> derive_next" where
  "derive_turn svc e result st =
     (case result of
        Inl err \<Rightarrow> Return (if tu_ctxDone e then None else Some err)
      | Inr count \<Rightarrow>
          if int count = do_dirtyCap svc then Again st
          else (case connect_deriver e st of
                  None \<Rightarrow> Return None
                | Some st1 \<Rightarrow>
                    if \<not> lo_listener st1 then (if tu_pollElapsed e then Again st1 else Return None)
                    else (case tu_wait e of
                            Notified \<Rightarrow> Again st1
                          | PollElapsed \<Rightarrow> Again st1
                          | WaitFailed \<Rightarrow>
                              if tu_ctxDoneLater e then Return None
                              else Again (st1\<lparr>lo_listener := False, lo_nextAttempt := tu_later e + lo_listenerBackoff st1,
                                               lo_listenerBackoff := growListenerBackoff (lo_listenerBackoff st1)\<rparr>))))"

text \<open>The loop over the passes it makes and the turns they meet; \<open>None\<close>: still running.\<close>

fun derive_loop :: "(ScopeSnapshot list \<Rightarrow> 'v ScopeResult list) \<Rightarrow> DeriveOptions \<Rightarrow> ('v derive_env \<times> derive_turn_env) list \<Rightarrow>
    derive_loop_state \<Rightarrow> 'v derive_db \<Rightarrow> 'v derive_db \<times> gerror option option" where
  "derive_loop derive svc [] st db = (db, None)"
| "derive_loop derive svc ((env, turn) # rest) st db =
     (case runOnce derive env svc db of
        (db', result) \<Rightarrow>
          (case derive_turn svc turn result st of
             Return r \<Rightarrow> (db', Some r)
           | Again st' \<Rightarrow> derive_loop derive svc rest st' db'))"

definition Run_deriver :: "(ScopeSnapshot list \<Rightarrow> 'v ScopeResult list) \<Rightarrow> DeriveOptions \<Rightarrow> ('v derive_env \<times> derive_turn_env) list \<Rightarrow>
    'v derive_db \<Rightarrow> 'v derive_db \<times> gerror option option" where
  "Run_deriver derive svc turns db =
     derive_loop derive svc turns \<lparr>lo_listener = False, lo_listenerBackoff = minListenerBackoff, lo_nextAttempt = 0\<rparr> db"

end
