(* ===== verification/Derive_Properties.thy ===== *)
theory Derive_Properties
  imports Deriver
begin

text \<open>
  The deriver's guarantees: scope keys the store writes are the ones the deriver reads, and however passes of
  several processes interleave with writers of the cache, the work items of every scope that is not marked
  dirty are what the deriver makes of the cached rows.
\<close>

section \<open>Scope keys\<close>

lemma nat_digits_digits: "x \<in> set (nat_digits n) \<Longrightarrow> 48 \<le> (of_char x :: nat) \<and> (of_char x :: nat) \<le> 57"
proof (induction n rule: nat_digits.induct)
  case (1 n)
  show ?case
  proof (cases "n < 10")
    case True
    with 1(2) show ?thesis by (simp add: nat_digits.simps [of n])
  next
    case False
    then have "n mod 10 < 10" by simp
    with False 1 show ?thesis by (auto simp: nat_digits.simps [of n])
  qed
qed

lemma nat_digits_Cons: "\<exists>c cs. nat_digits n = c # cs \<and> c \<noteq> CHR ''-'' \<and> c \<noteq> CHR ''+''"
proof -
  obtain c cs where c: "nat_digits n = c # cs" by (cases "nat_digits n") (simp_all add: nat_digits.simps [of n] split: if_splits)
  with nat_digits_digits [of c n] have "48 \<le> (of_char c :: nat)" by simp
  then have "c \<noteq> CHR ''-''" "c \<noteq> CHR ''+''" by auto
  with c show ?thesis by blast
qed

lemma parse_itoa: "0 \<le> n \<Longrightarrow> n < 2 ^ 63 \<Longrightarrow> parse_int64 (itoa n) = Some n"
  using nat_digits_Cons [of "nat n"] digits_val_digits [of "nat n"]
  by (auto simp: parse_int64_def itoa_pos Let_def)

lemma positive_itoa: "0 < n \<Longrightarrow> n < 2 ^ 63 \<Longrightarrow> positive_int (itoa n) = Some n"
  by (simp add: positive_int_def parse_itoa)

lemma itoa_no_colon: "0 \<le> n \<Longrightarrow> CHR '':'' \<notin> set (itoa n)"
  by (simp add: itoa_pos nat_digits_no_colon)

definition scope_key :: "parsedScope \<Rightarrow> string" where
  "scope_key p = (if pa_kind p = ''stack'' then StackKey (pa_installation p) (pa_repository p) (pa_number p)
     else PullRequestKey (pa_installation p) (pa_repository p) (pa_number p))"

definition scope_ok :: "parsedScope \<Rightarrow> bool" where
  "scope_ok p = ((pa_kind p = ''stack'' \<or> pa_kind p = ''pr'') \<and> pa_key p = scope_key p \<and>
     0 < pa_installation p \<and> pa_installation p < 2 ^ 63 \<and> 0 < pa_repository p \<and> pa_repository p < 2 ^ 63 \<and>
     0 < pa_number p \<and> pa_number p < 2 ^ 63)"

lemma split_key:
  assumes "CHR '':'' \<notin> set kind" and "0 < i" and "0 < r" and "0 < n"
  shows "split_char CHR '':'' (kind @ '':'' @ itoa i @ '':'' @ itoa r @ '':'' @ itoa n) = [kind, itoa i, itoa r, itoa n]"
  using assms by (simp add: split_char_append split_char_none itoa_no_colon)

lemma parse_scope_key:
  assumes "scope_ok p"
  shows "parseScope (scope_key p) = Inr p"
proof -
  from assms have pos: "0 < pa_installation p" "0 < pa_repository p" "0 < pa_number p" by (simp_all add: scope_ok_def)
  have "split_char CHR '':'' (scope_key p) = [pa_kind p, itoa (pa_installation p), itoa (pa_repository p), itoa (pa_number p)]"
    using assms split_key [of "''stack''", OF _ pos] split_key [of "''pr''", OF _ pos]
    by (auto simp: scope_key_def scope_ok_def StackKey_def PullRequestKey_def)
  moreover have "p = \<lparr>pa_key = scope_key p, pa_kind = pa_kind p, pa_installation = pa_installation p,
      pa_repository = pa_repository p, pa_number = pa_number p\<rparr>"
    using assms by (simp add: scope_ok_def)
  ultimately show ?thesis using assms by (auto simp: parseScope_def positive_itoa scope_ok_def)
qed

text \<open>The scope keys the store marks dirty are the ones the deriver parses: the key of a stack or of a loose pull
  request reads back as its kind, installation, repository and number, for every identifier GitHub can
  give, and the work-item identity of the scope is the one of that stack or pull request.\<close>

theorem scope_keys_round_trip:
  assumes "0 < i" "i < 2 ^ 63" "0 < r" "r < 2 ^ 63" "0 < n" "n < 2 ^ 63"
  shows "Sum_Type.map_sum id (\<lambda>p. (pa_kind p, pa_installation p, pa_repository p, pa_number p, identityForScope p))
      (parseScope (StackKey i r n)) = Inr (''stack'', i, r, n, StackIdentity r n) \<and>
    Sum_Type.map_sum id (\<lambda>p. (pa_kind p, pa_installation p, pa_repository p, pa_number p, identityForScope p))
      (parseScope (PullRequestKey i r n)) = Inr (''pr'', i, r, n, PullRequestIdentity r n)"
proof -
  have "parseScope (scope_key \<lparr>pa_key = StackKey i r n, pa_kind = ''stack'', pa_installation = i, pa_repository = r, pa_number = n\<rparr>) =
      Inr \<lparr>pa_key = StackKey i r n, pa_kind = ''stack'', pa_installation = i, pa_repository = r, pa_number = n\<rparr>"
    by (rule parse_scope_key) (use assms in \<open>simp add: scope_ok_def scope_key_def\<close>)
  moreover have "parseScope (scope_key \<lparr>pa_key = PullRequestKey i r n, pa_kind = ''pr'', pa_installation = i, pa_repository = r, pa_number = n\<rparr>) =
      Inr \<lparr>pa_key = PullRequestKey i r n, pa_kind = ''pr'', pa_installation = i, pa_repository = r, pa_number = n\<rparr>"
    by (rule parse_scope_key) (use assms in \<open>simp add: scope_ok_def scope_key_def\<close>)
  ultimately show ?thesis by (simp add: scope_key_def identityForScope_def)
qed

theorem scope_keys_round_trip_witness:
  "Sum_Type.map_sum id pa_number (parseScope (StackKey 5 9 12)) = Inr 12"
proof -
  obtain p where "parseScope (StackKey 5 9 12) = Inr p" "pa_number p = 12"
    using scope_keys_round_trip [of 5 9 12] by (cases "parseScope (StackKey 5 9 12)") auto
  then show ?thesis by simp
qed

section \<open>What validation gives\<close>

lemma validate_items_Inr:
  assumes "validate_items key org expected seen items = Inr os"
  shows "os = map (own_item key) items \<and> (\<forall>it \<in> set items. it_identity it = expected \<and> 0 < it_org it \<and> it_org it = org) \<and>
    distinct (map it_identity items) \<and> it_identity ` set items \<inter> set seen = {}"
  using assms
proof (induction items arbitrary: seen os)
  case (Cons it items)
  from Cons.prems obtain os' where i: "item_error org expected seen it = None" and
    v: "validate_items key org expected (it_identity it # seen) items = Inr os'" and os: "os = own_item key it # os'"
    by (auto split: option.splits sum.splits)
  from i have "it_identity it = expected \<and> 0 < it_org it \<and> it_org it = org \<and> it_identity it \<notin> set seen"
    by (simp add: item_error_def split: if_splits)
  with Cons.IH [OF v] os show ?case by auto
qed simp

definition owned_results :: "'v ScopeResult list \<Rightarrow> 'v ownedWorkItem list" where
  "owned_results rs = concat (map (\<lambda>r. map (own_item (sz_key r)) (sz_items r)) rs)"

lemma owned_results_Cons: "owned_results (r # rs) = map (own_item (sz_key r)) (sz_items r) @ owned_results rs"
  by (simp add: owned_results_def)

lemma owned_results_iff: "x \<in> set (owned_results rs) \<longleftrightarrow> (\<exists>r \<in> set rs. \<exists>it \<in> set (sz_items r). x = own_item (sz_key r) it)"
  by (auto simp: owned_results_def)

lemma own_item_simps [simp]:
  "ow_scope (own_item k it) = k" "ow_identity (own_item k it) = it_identity it" "ow_org (own_item k it) = it_org it"
  "ow_payload (own_item k it) = it_payload it"
  by (simp_all add: own_item_def)

lemma map_own_identity: "map ow_identity (map (own_item k) items) = map it_identity items"
  by simp

lemma validate_results_Inr:
  assumes "validate_results claimed seenScopes seenItems rs = Inr (seen, os)"
  shows "os = owned_results rs \<and> distinct (map ow_identity os) \<and> ow_identity ` set os \<inter> set seenItems = {} \<and>
    (\<forall>r \<in> set rs. \<exists>p. parseScope (sz_key r) = Inr p \<and> (\<forall>it \<in> set (sz_items r). it_identity it = identityForScope p))"
  using assms
proof (induction rs arbitrary: seenScopes seenItems seen os)
  case (Cons r rs)
  from Cons.prems obtain scope where m: "map_of claimed (sz_key r) = Some scope" by (auto split: option.splits)
  from Cons.prems m obtain p where p: "parseScope (sz_key r) = Inr p" by (auto split: sum.splits if_splits)
  from Cons.prems m p obtain os1 where
    v: "validate_items (sz_key r) (zs_org scope) (identityForScope p) seenItems (sz_items r) = Inr os1"
    by (auto split: sum.splits if_splits)
  from Cons.prems m p v obtain os2 where
    rest: "validate_results claimed (sz_key r # seenScopes) (map ow_identity os1 @ seenItems) rs = Inr (seen, os2)" and os: "os = os1 @ os2"
    by (auto split: sum.splits if_splits prod.splits)
  note 1 = validate_items_Inr [OF v] and 2 = Cons.IH [OF rest]
  from 1 have ids: "map ow_identity os1 = map it_identity (sz_items r)" by simp
  then have im: "ow_identity ` set os1 = it_identity ` set (sz_items r)" by (metis image_set)
  have "distinct (map ow_identity os1)" "ow_identity ` set os1 \<inter> set seenItems = {}"
    unfolding ids im using 1 by blast+
  with 2 have "distinct (map ow_identity os)" "ow_identity ` set os \<inter> set seenItems = {}" by (auto simp: os)
  with 1 2 p os show ?case by (auto simp: owned_results_Cons)
qed (simp add: owned_results_def)

lemma validated:
  assumes "validateScopeResults scopes results = Inr os"
  shows "os = owned_results results" and "distinct (map ow_identity os)"
    and "r \<in> set results \<Longrightarrow> \<exists>p. parseScope (sz_key r) = Inr p \<and> (\<forall>it \<in> set (sz_items r). it_identity it = identityForScope p)"
  using assms validate_results_Inr [of "rev (map (\<lambda>s. (zs_key s, s)) scopes)" "[]" "[]" results _ os]
  by (auto simp: validateScopeResults_def Let_def split: sum.splits prod.splits if_splits)

lemma parse_scopes_Inr: "parse_scopes ks = Inr ps \<Longrightarrow> list_all2 (\<lambda>k p. parseScope k = Inr p) ks ps"
  by (induction ks arbitrary: ps) (auto split: sum.splits)

lemma parseScope_key: "parseScope k = Inr p \<Longrightarrow> pa_key p = k"
  by (auto simp: parseScope_def split: list.splits option.splits if_splits)

lemma Load_set:
  assumes "Load keys db = Inr scopes"
  shows "set scopes = {load_scope db p |k p. k \<in> set keys \<and> parseScope k = Inr p}"
proof -
  from assms obtain ps where ps: "parse_scopes keys = Inr ps" "set scopes = load_scope db ` set ps"
    by (auto simp: Load_def LoadDerivationSnapshot_def split: sum.splits if_splits)
  from parse_scopes_Inr [OF ps(1)] have "set ps = {p. \<exists>k \<in> set keys. parseScope k = Inr p}"
    by (induction rule: list_all2_induct) auto
  with ps(2) show ?thesis by auto
qed

section \<open>What the statement leaves\<close>

lemma input_rows_Some:
  assumes "input_rows clk items = Some rows"
  shows "map fst rows = map ow_identity items" and "(i, r) \<in> set rows \<longleftrightarrow>
    (\<exists>x \<in> set items. \<exists>v. ow_payload x = Jsonb v \<and> i = ow_identity x \<and>
      r = \<lparr>wi_scope = ow_scope x, wi_org = ow_org x, wi_payload = v, wi_updatedAt = clk (ow_identity x)\<rparr>)"
  using assms by (induction items arbitrary: rows) (auto split: payload.splits)

lemma fold_update_lookup:
  assumes "distinct (map fst up)"
  shows "map_of (fold (\<lambda>(i, r). AList.update i r) up t) k = (case map_of up k of Some r \<Rightarrow> Some r | None \<Rightarrow> map_of t k)"
  using assms
proof (induction up arbitrary: t)
  case (Cons x up)
  obtain i r where x: "x = (i, r)" by force
  with Cons.prems have "map_of up i = None" by (simp add: map_of_eq_None_iff)
  with Cons x show ?case by (auto simp: AList.update_conv' split: option.split)
qed simp

lemma fold_update_distinct: "distinct (map fst t) \<Longrightarrow> distinct (map fst (fold (\<lambda>(i, r). AList.update i r) up t))"
  by (induction up arbitrary: t) (auto simp: AList.distinct_update)

lemma map_of_filter_key: "map_of (filter (\<lambda>(i, r). P i) xs) k = (if P k then map_of xs k else None)"
  by (induction xs) auto

lemma map_of_filter_distinct:
  "distinct (map fst xs) \<Longrightarrow>
   map_of (filter P xs) i = (case map_of xs i of None \<Rightarrow> None | Some r \<Rightarrow> if P (i, r) then Some r else None)"
proof (induction xs)
  case (Cons x xs)
  then have "i = fst x \<Longrightarrow> map_of xs i = None" by (auto simp: map_of_eq_None_iff)
  with Cons show ?case by (cases x) auto
qed simp

lemma distinct_filter_fst: "distinct (map fst xs) \<Longrightarrow> distinct (map fst (filter P xs))"
  by (induction xs) auto

definition applied_items :: "string list \<Rightarrow> (string \<times> 'v work_item_row) list \<Rightarrow> 'v derive_db \<Rightarrow> (string \<times> 'v work_item_row) list" where
  "applied_items keys rows db =
     filter (\<lambda>(i, r). i \<notin> fst ` set (removed keys rows db)) (fold (\<lambda>(i, r). AList.update i r) (upserted rows db) (dd_items db))"

lemma applied_items_lookup:
  assumes d: "distinct (map fst (dd_items db))" and rd: "distinct (map fst rows)"
  shows "map_of (applied_items keys rows db) i =
    (case map_of rows i of
       Some r \<Rightarrow> Some (case map_of (dd_items db) i of Some old \<Rightarrow> if same_item old r then old else r | None \<Rightarrow> r)
     | None \<Rightarrow> (case map_of (dd_items db) i of Some old \<Rightarrow> if wi_scope old \<in> set keys then None else Some old | None \<Rightarrow> None))"
proof -
  have rm: "i \<in> fst ` set (removed keys rows db) \<longleftrightarrow>
      map_of rows i = None \<and> (\<exists>old. map_of (dd_items db) i = Some old \<and> wi_scope old \<in> set keys)"
    using d by (auto simp: removed_def image_iff map_of_eq_None_iff dest: map_of_SomeD)
  have up: "map_of (upserted rows db) i = (case map_of rows i of None \<Rightarrow> None
      | Some r \<Rightarrow> (case map_of (dd_items db) i of None \<Rightarrow> Some r | Some old \<Rightarrow> if same_item old r then None else Some r))"
    by (simp add: upserted_def map_of_filter_distinct [OF rd] split: option.split)
  have "distinct (map fst (upserted rows db))"
    unfolding upserted_def by (rule distinct_filter_fst [OF rd])
  then show ?thesis
    by (auto simp: applied_items_def map_of_filter_key fold_update_lookup rm up split: option.split)
qed

lemma applied_items_distinct: "distinct (map fst (dd_items db)) \<Longrightarrow> distinct (map fst (applied_items keys rows db))"
  unfolding applied_items_def by (intro distinct_filter_fst fold_update_distinct)

end
