(* ===== verification/Derive_Steps.thy ===== *)
theory Derive_Steps
  imports Derive_Properties
begin

text \<open>
  Passes of any number of deriver processes interleaved with the transactions of the store. The locale
  \<open>scope_deriver\<close> is what a pass relies on in the \<open>Deriver\<close> interface: results scope by scope, with the
  organisation of the scope. The property: work items agree with the cache wherever nothing is marked dirty.
\<close>

section \<open>The interface\<close>

definition scope_items :: "(ScopeSnapshot list \<Rightarrow> 'v ScopeResult list) \<Rightarrow> ScopeSnapshot \<Rightarrow> 'v WorkItem list" where
  "scope_items derive s = concat (map sz_items (derive [s]))"

locale scope_deriver =
  fixes derive :: "ScopeSnapshot list \<Rightarrow> 'v ScopeResult list"
  assumes per_scope: "derive scopes = map (\<lambda>s. \<lparr>sz_key = zs_key s, sz_items = scope_items derive s\<rparr>) scopes"
    and own_org: "it \<in> set (scope_items derive s) \<Longrightarrow> 0 < it_org it \<and> it_org it = zs_org s"

interpretation noop: scope_deriver NoopDeriver
  by unfold_locales (simp_all add: NoopDeriver_def scope_items_def)

text \<open>What the deriver makes of the cached rows of a scope, for the keys the store writes.\<close>

definition derived :: "(ScopeSnapshot list \<Rightarrow> 'v ScopeResult list) \<Rightarrow> 'v derive_db \<Rightarrow> string \<Rightarrow> 'v WorkItem list" where
  "derived derive db k = (case parseScope k of
     Inl _ \<Rightarrow> [] | Inr p \<Rightarrow> if scope_ok p then scope_items derive (load_scope db p) else [])"

definition expected_items :: "(ScopeSnapshot list \<Rightarrow> 'v ScopeResult list) \<Rightarrow> 'v derive_db \<Rightarrow> string \<Rightarrow> (string \<times> int \<times> 'v) set" where
  "expected_items derive db k = {(it_identity it, it_org it, v) |it v. it \<in> set (derived derive db k) \<and> it_payload it = Jsonb v}"

definition items_of :: "'v derive_db \<Rightarrow> string \<Rightarrow> (string \<times> int \<times> 'v) set" where
  "items_of db k = {(i, wi_org r, wi_payload r) |i r. map_of (dd_items db) i = Some r \<and> wi_scope r = k}"

definition dirty_keys :: "'v derive_db \<Rightarrow> string set" where
  "dirty_keys db = fst ` set (rc_dirty (dd_cache db))"

section \<open>Steps\<close>

text \<open>A pass holds the locks of its keys from the claim to its end; after loading it has its items.\<close>

datatype 'v pass = Claimed "string list" | Loaded "string list" "'v ownedWorkItem list"

fun pass_keys :: "'v pass \<Rightarrow> string list" where
  "pass_keys (Claimed ks) = ks"
| "pass_keys (Loaded ks items) = ks"

record 'v derive_system =
  dy_db :: "'v derive_db"
  dy_passes :: "nat \<rightharpoonup> 'v pass"

definition locked_by :: "(nat \<rightharpoonup> 'v pass) \<Rightarrow> string \<Rightarrow> bool" where
  "locked_by ps k = (\<exists>i p. ps i = Some p \<and> k \<in> set (pass_keys p))"

text \<open>
  A transaction of another component: it leaves the work items alone, keeps \<open>gh_id\<close> unique, marks scope keys
  of the store, marks every scope whose derived items it changes, and waits for a lock before it
  marks.
\<close>

definition store_write :: "(ScopeSnapshot list \<Rightarrow> 'v ScopeResult list) \<Rightarrow> (string \<Rightarrow> bool) \<Rightarrow> 'v derive_db \<Rightarrow> 'v derive_db \<Rightarrow> bool" where
  "store_write derive locked db db' =
     (dd_items db' = dd_items db \<and> distinct (map rr_ghID (rc_repos (dd_cache db'))) \<and>
      dirty_keys db \<subseteq> dirty_keys db' \<and> (\<forall>k \<in> dirty_keys db' - dirty_keys db. \<exists>p. scope_ok p \<and> k = scope_key p) \<and>
      (\<forall>k. derived derive db' k \<noteq> derived derive db k \<longrightarrow> k \<in> dirty_keys db' \<and> \<not> locked k))"

inductive derive_step :: "(ScopeSnapshot list \<Rightarrow> 'v ScopeResult list) \<Rightarrow> 'v derive_system \<Rightarrow> 'v derive_system \<Rightarrow> bool" for derive where
  claim: "dy_passes s i = None \<Longrightarrow> ClaimDerivationDirtyScopes (locked_by (dy_passes s)) cap (dy_db s) = Inr ks \<Longrightarrow>
    derive_step derive s (s\<lparr>dy_passes := (dy_passes s)(i \<mapsto> Claimed ks)\<rparr>)"
| load: "dy_passes s i = Some (Claimed ks) \<Longrightarrow> Load ks (dy_db s) = Inr scopes \<Longrightarrow>
    validateScopeResults scopes (derive scopes) = Inr items \<Longrightarrow>
    derive_step derive s (s\<lparr>dy_passes := (dy_passes s)(i \<mapsto> Loaded ks items)\<rparr>)"
| finish: "dy_passes s i = Some (Loaded ks items) \<Longrightarrow> finish_pass env svc ks items (dy_db s) = Inr db' \<Longrightarrow>
    derive_step derive s \<lparr>dy_db = db', dy_passes = (dy_passes s)(i := None)\<rparr>"
| abort: "dy_passes s i = Some p \<Longrightarrow> derive_step derive s (s\<lparr>dy_passes := (dy_passes s)(i := None)\<rparr>)"
| store: "store_write derive (locked_by (dy_passes s)) (dy_db s) db' \<Longrightarrow> derive_step derive s (s\<lparr>dy_db := db'\<rparr>)"

text \<open>The start: no pass, no work item, and nothing derived from a scope that is not marked.\<close>

definition derive_start :: "(ScopeSnapshot list \<Rightarrow> 'v ScopeResult list) \<Rightarrow> 'v derive_db \<Rightarrow> bool" where
  "derive_start derive db = (dd_items db = [] \<and> distinct (map rr_ghID (rc_repos (dd_cache db))) \<and>
     (\<forall>k \<in> dirty_keys db. \<exists>p. scope_ok p \<and> k = scope_key p) \<and> (\<forall>k. k \<notin> dirty_keys db \<longrightarrow> derived derive db k = []))"

section \<open>The invariant\<close>

definition pass_inv :: "(ScopeSnapshot list \<Rightarrow> 'v ScopeResult list) \<Rightarrow> 'v derive_db \<Rightarrow> 'v pass \<Rightarrow> bool" where
  "pass_inv derive db p = (set (pass_keys p) \<subseteq> dirty_keys db \<and>
     (case p of Claimed ks \<Rightarrow> True | Loaded ks items \<Rightarrow>
        distinct (map ow_identity items) \<and> set items = (\<Union>k \<in> set ks. own_item k ` set (derived derive db k)) \<and>
        (\<forall>x \<in> set items. \<exists>q. parseScope (ow_scope x) = Inr q \<and> ow_identity x = identityForScope q)))"

definition derive_inv :: "(ScopeSnapshot list \<Rightarrow> 'v ScopeResult list) \<Rightarrow> 'v derive_system \<Rightarrow> bool" where
  "derive_inv derive s =
     (distinct (map fst (dd_items (dy_db s))) \<and> distinct (map rr_ghID (rc_repos (dd_cache (dy_db s)))) \<and>
      (\<forall>k \<in> dirty_keys (dy_db s). \<exists>p. scope_ok p \<and> k = scope_key p) \<and>
      (\<forall>i r. map_of (dd_items (dy_db s)) i = Some r \<longrightarrow> (\<exists>p. scope_ok p \<and> wi_scope r = scope_key p \<and> i = identityForScope p)) \<and>
      (\<forall>i p. dy_passes s i = Some p \<longrightarrow> pass_inv derive (dy_db s) p) \<and>
      (\<forall>i j p q. dy_passes s i = Some p \<and> dy_passes s j = Some q \<and> i \<noteq> j \<longrightarrow> set (pass_keys p) \<inter> set (pass_keys q) = {}) \<and>
      (\<forall>k. k \<notin> dirty_keys (dy_db s) \<longrightarrow> items_of (dy_db s) k = expected_items derive (dy_db s) k))"

lemma derive_invD:
  assumes "derive_inv derive s"
  shows "distinct (map fst (dd_items (dy_db s)))" and "distinct (map rr_ghID (rc_repos (dd_cache (dy_db s))))"
    and "k \<in> dirty_keys (dy_db s) \<Longrightarrow> \<exists>p. scope_ok p \<and> k = scope_key p"
    and "map_of (dd_items (dy_db s)) x = Some r \<Longrightarrow> \<exists>p. scope_ok p \<and> wi_scope r = scope_key p \<and> x = identityForScope p"
    and "dy_passes s i = Some p \<Longrightarrow> pass_inv derive (dy_db s) p"
    and "dy_passes s i = Some p \<Longrightarrow> dy_passes s j = Some q \<Longrightarrow> i \<noteq> j \<Longrightarrow> set (pass_keys p) \<inter> set (pass_keys q) = {}"
    and "k \<notin> dirty_keys (dy_db s) \<Longrightarrow> items_of (dy_db s) k = expected_items derive (dy_db s) k"
  using assms unfolding derive_inv_def by blast+

lemma derive_invI:
  assumes "distinct (map fst (dd_items (dy_db s)))" and "distinct (map rr_ghID (rc_repos (dd_cache (dy_db s))))"
    and "\<And>k. k \<in> dirty_keys (dy_db s) \<Longrightarrow> \<exists>p. scope_ok p \<and> k = scope_key p"
    and "\<And>x r. map_of (dd_items (dy_db s)) x = Some r \<Longrightarrow> \<exists>p. scope_ok p \<and> wi_scope r = scope_key p \<and> x = identityForScope p"
    and "\<And>i p. dy_passes s i = Some p \<Longrightarrow> pass_inv derive (dy_db s) p"
    and "\<And>i p j q. dy_passes s i = Some p \<Longrightarrow> dy_passes s j = Some q \<Longrightarrow> i \<noteq> j \<Longrightarrow> set (pass_keys p) \<inter> set (pass_keys q) = {}"
    and "\<And>k. k \<notin> dirty_keys (dy_db s) \<Longrightarrow> items_of (dy_db s) k = expected_items derive (dy_db s) k"
  shows "derive_inv derive s"
  unfolding derive_inv_def using assms by blast

lemma derive_inv_start:
  assumes "derive_start derive db"
  shows "derive_inv derive \<lparr>dy_db = db, dy_passes = Map.empty\<rparr>"
  using assms by (auto simp: derive_inv_def derive_start_def items_of_def expected_items_def)

lemma claim_keys:
  assumes "ClaimDerivationDirtyScopes locked cap db = Inr ks"
  shows "set ks \<subseteq> dirty_keys db" and "k \<in> set ks \<Longrightarrow> \<not> locked k"
  using assms by (auto simp: ClaimDerivationDirtyScopes_def dirty_keys_def split: if_splits dest!: in_set_takeD)

lemma inv_claim:
  assumes inv: "derive_inv derive s" and c: "ClaimDerivationDirtyScopes (locked_by (dy_passes s)) cap (dy_db s) = Inr ks"
  shows "derive_inv derive (s\<lparr>dy_passes := (dy_passes s)(i \<mapsto> Claimed ks)\<rparr>)"
proof -
  note d = derive_invD [OF inv]
  have new: "pass_inv derive (dy_db s) (Claimed ks)" using claim_keys(1) [OF c] by (simp add: pass_inv_def)
  have disj: "set ks \<inter> set (pass_keys q) = {}" if "dy_passes s j = Some q" for j q
    using claim_keys(2) [OF c] that by (auto simp: locked_by_def)
  show ?thesis
    unfolding derive_inv_def using d new disj
    by (simp add: Int_commute) (metis (no_types, lifting) Int_commute)
qed

lemma inv_abort:
  assumes "derive_inv derive s"
  shows "derive_inv derive (s\<lparr>dy_passes := (dy_passes s)(i := None)\<rparr>)"
  using assms unfolding derive_inv_def by (simp split: if_splits)

lemma pass_inv_mono:
  assumes "pass_inv derive db p" and "\<And>k. k \<in> set (pass_keys p) \<Longrightarrow> derived derive db' k = derived derive db k"
    and "set (pass_keys p) \<subseteq> dirty_keys db'"
  shows "pass_inv derive db' p"
proof (cases p)
  case (Loaded ks items)
  then have "(\<Union>k \<in> set ks. own_item k ` set (derived derive db' k)) = (\<Union>k \<in> set ks. own_item k ` set (derived derive db k))"
    using assms(2) by simp
  with assms(1,3) Loaded show ?thesis by (simp add: pass_inv_def)
qed (use assms in \<open>simp add: pass_inv_def\<close>)

lemma derived_scope_items: "scope_ok p \<Longrightarrow> derived derive db (scope_key p) = scope_items derive (load_scope db p)"
  by (simp add: derived_def parse_scope_key)

lemma load_scope_key: "zs_key (load_scope db p) = pa_key p"
  by (simp add: load_scope_def Let_def)

context scope_deriver
begin

lemma inv_load:
  assumes inv: "derive_inv derive s" and p: "dy_passes s i = Some (Claimed ks)" and l: "Load ks (dy_db s) = Inr scopes"
    and v: "validateScopeResults scopes (derive scopes) = Inr items"
  shows "derive_inv derive (s\<lparr>dy_passes := (dy_passes s)(i \<mapsto> Loaded ks items)\<rparr>)"
proof -
  note d = derive_invD [OF inv]
  have sub: "set ks \<subseteq> dirty_keys (dy_db s)" using d(5) [OF p] by (simp add: pass_inv_def)
  have keys: "\<exists>q. scope_ok q \<and> k = scope_key q" if "k \<in> set ks" for k
    using d(3) sub that by blast
  have scopes: "set (derive scopes) = (\<lambda>k. \<lparr>sz_key = k, sz_items = derived derive (dy_db s) k\<rparr>) ` set ks"
  proof -
    have "set scopes = (\<lambda>k. load_scope (dy_db s) (projr (parseScope k))) ` set ks"
    proof (unfold Load_set [OF l], intro set_eqI iffI)
      fix x
      assume "x \<in> (\<lambda>k. load_scope (dy_db s) (projr (parseScope k))) ` set ks"
      then obtain k where k: "k \<in> set ks" "x = load_scope (dy_db s) (projr (parseScope k))" by blast
      moreover obtain p where "parseScope k = Inr p" using keys [OF k(1)] parse_scope_key by blast
      ultimately show "x \<in> {load_scope (dy_db s) p |k p. k \<in> set ks \<and> parseScope k = Inr p}" by auto
    qed force
    moreover have "zs_key (load_scope (dy_db s) (projr (parseScope k))) = k"
      "scope_items derive (load_scope (dy_db s) (projr (parseScope k))) = derived derive (dy_db s) k" if "k \<in> set ks" for k
      using keys [OF that] by (auto simp: parse_scope_key load_scope_key derived_scope_items scope_ok_def)
    ultimately show ?thesis unfolding per_scope [of scopes] by (simp add: image_image)
  qed
  have items: "set items = (\<Union>k \<in> set ks. own_item k ` set (derived derive (dy_db s) k))"
    unfolding set_eq_iff validated(1) [OF v] owned_results_iff scopes by auto
  have ids: "\<exists>q. parseScope (ow_scope x) = Inr q \<and> ow_identity x = identityForScope q" if "x \<in> set items" for x
    using that validated(3) [OF v] unfolding validated(1) [OF v] owned_results_iff by fastforce
  have new: "pass_inv derive (dy_db s) (Loaded ks items)"
    unfolding pass_inv_def using sub validated(2) [OF v] items ids by simp
  have disj: "set ks \<inter> set (pass_keys q) = {}" if "dy_passes s j = Some q" "j \<noteq> i" for j q
    using d(6) [OF p that(1)] that(2) by auto
  show ?thesis
    unfolding derive_inv_def using d new disj
    by (simp add: Int_commute) (metis (no_types, lifting) Int_commute)
qed

lemma inv_store:
  assumes inv: "derive_inv derive s" and w: "store_write derive (locked_by (dy_passes s)) (dy_db s) db'"
  shows "derive_inv derive (s\<lparr>dy_db := db'\<rparr>)"
proof -
  note d = derive_invD [OF inv]
  from w have w: "dd_items db' = dd_items (dy_db s)" "distinct (map rr_ghID (rc_repos (dd_cache db')))" "dirty_keys (dy_db s) \<subseteq> dirty_keys db'"
    "\<And>k. k \<in> dirty_keys db' \<Longrightarrow> k \<notin> dirty_keys (dy_db s) \<Longrightarrow> \<exists>p. scope_ok p \<and> k = scope_key p"
    "\<And>k. derived derive db' k \<noteq> derived derive (dy_db s) k \<Longrightarrow> k \<in> dirty_keys db' \<and> \<not> locked_by (dy_passes s) k"
    unfolding store_write_def by blast+
  have pass: "pass_inv derive db' p" if p: "dy_passes s i = Some p" for i p
  proof -
    have "derived derive db' k = derived derive (dy_db s) k" if "k \<in> set (pass_keys p)" for k
      using w(5) [of k] p that by (auto simp: locked_by_def)
    moreover have "set (pass_keys p) \<subseteq> dirty_keys db'" using d(5) [OF p] w(3) by (auto simp: pass_inv_def)
    ultimately show ?thesis by (rule pass_inv_mono [OF d(5) [OF p]])
  qed
  have clean: "items_of db' k = expected_items derive db' k" if k: "k \<notin> dirty_keys db'" for k
  proof -
    have "derived derive db' k = derived derive (dy_db s) k" using w(5) [of k] k by blast
    moreover have "items_of (dy_db s) k = expected_items derive (dy_db s) k" using d(7) [of k] k w(3) by blast
    ultimately show ?thesis by (simp add: items_of_def expected_items_def w(1))
  qed
  show ?thesis
  proof (rule derive_invI, goal_cases)
    case (3 k)
    then show ?case using w(4) [of k] d(3) [of k] by fastforce
  next
    case (6 i p j q)
    then show ?case using d(6) [of i p j q] by simp
  qed (use d w(1,2) pass clean in simp_all)
qed

lemma derived_has_repository:
  assumes "scope_ok p" and "derived derive db (scope_key p) \<noteq> []"
  shows "\<exists>r \<in> set (rc_repos (dd_cache db)). rr_installation r = pa_installation p \<and> rr_ghID r = pa_repository p"
proof -
  obtain it where "it \<in> set (scope_items derive (load_scope db p))"
    using assms by (cases "derived derive db (scope_key p)") (auto simp: derived_scope_items)
  from own_org [OF this] have "0 < zs_org (load_scope db p)" by auto
  then obtain r where "scope_repository p db = Some r"
    by (cases "scope_repository p db") (simp_all add: load_scope_def Let_def)
  then show ?thesis unfolding scope_repository_def find_Some_iff by fastforce
qed

end

lemma itoa_pos_inj: "0 < i \<Longrightarrow> 0 < j \<Longrightarrow> itoa i = itoa j \<longleftrightarrow> i = j"
  using itoa_inj [of i j] by auto

lemma split_identity:
  assumes "scope_ok p"
  shows "split_char CHR '':'' (identityForScope p) = [''repo'', itoa (pa_repository p), pa_kind p, itoa (pa_number p)]"
proof -
  have "split_char CHR '':'' (''repo:'' @ itoa r @ '':'' @ kind @ '':'' @ itoa n) = [''repo'', itoa r, kind, itoa n]"
    if "0 < r" "0 < n" "CHR '':'' \<notin> set kind" for r n kind
    using that by (simp add: split_char_append split_char_none itoa_no_colon)
  from this [of "pa_repository p" "pa_number p" "''stack''"] this [of "pa_repository p" "pa_number p" "''pr''"] assms
  show ?thesis by (auto simp: identityForScope_def scope_ok_def StackIdentity_def PullRequestIdentity_def)
qed

lemma identity_inj:
  assumes "scope_ok p" and "scope_ok q" and "identityForScope p = identityForScope q"
  shows "pa_kind p = pa_kind q \<and> pa_repository p = pa_repository q \<and> pa_number p = pa_number q"
  using split_identity [OF assms(1)] split_identity [OF assms(2)] assms by (simp add: itoa_pos_inj scope_ok_def)

lemma distinct_map_eq: "distinct (map f xs) \<Longrightarrow> x \<in> set xs \<Longrightarrow> y \<in> set xs \<Longrightarrow> f x = f y \<Longrightarrow> x = y"
  by (auto simp: distinct_map inj_on_def)

context scope_deriver
begin

text \<open>Two scopes with derived items and the same identity are one scope: a repository has one installation.\<close>

lemma identity_scope:
  assumes "scope_ok p" "scope_ok q" and "identityForScope p = identityForScope q"
    and "derived derive db (scope_key p) \<noteq> []" "derived derive db (scope_key q) \<noteq> []"
    and "distinct (map rr_ghID (rc_repos (dd_cache db)))"
  shows "scope_key p = scope_key q"
proof -
  note same = identity_inj [OF assms(1-3)]
  obtain r r' where "r \<in> set (rc_repos (dd_cache db))" "rr_installation r = pa_installation p" "rr_ghID r = pa_repository p"
    "r' \<in> set (rc_repos (dd_cache db))" "rr_installation r' = pa_installation q" "rr_ghID r' = pa_repository q"
    using derived_has_repository assms(1,2,4,5) by metis
  with distinct_map_eq [OF assms(6), of r r'] same show ?thesis by (simp add: scope_key_def)
qed

end

section \<open>The end of a pass\<close>

lemma load_scope_cong:
  assumes "rc_repos (dd_cache a) = rc_repos (dd_cache b)" "rc_pulls (dd_cache a) = rc_pulls (dd_cache b)"
    "rc_stacks (dd_cache a) = rc_stacks (dd_cache b)" "dd_rules a = dd_rules b" "dd_threads a = dd_threads b" "dd_checks a = dd_checks b"
  shows "load_scope a p = load_scope b p"
  unfolding load_scope_def scope_repository_def selected_prs_def scope_threads_def scope_checks_def Let_def assms by (rule refl)

lemma finish_pass_Inr:
  assumes "finish_pass env svc ks items db = Inr db'"
  shows "\<exists>rows. input_rows (dn_clk env) (sort_key ow_identity items) = Some rows \<and> dd_items db' = applied_items ks rows db \<and>
    dirty_keys db' = dirty_keys db - set ks \<and> derived derive db' = derived derive db \<and>
    rc_repos (dd_cache db') = rc_repos (dd_cache db)"
proof -
  from assms obtain db1 seqs where a: "ApplyDerivedWorkItemBatch (dn_clk env) (dn_eclk env) ks (sort_key ow_identity items) db = Inr (db1, seqs)"
    and h: "recordHeartbeat (dn_now env) svc (int (length ks)) (ClearDerivationDirtyScopes ks db1) = Inr db'"
    by (auto simp: finish_pass_def split: sum.splits prod.splits option.splits)
  from h obtain beats where db': "db' = (ClearDerivationDirtyScopes ks db1)\<lparr>dd_heartbeats := beats\<rparr>"
    by (auto simp: recordHeartbeat_def split: sum.splits)
  from a obtain rows es where rows: "input_rows (dn_clk env) (sort_key ow_identity items) = Some rows"
    and db1: "db1 = db\<lparr>dd_items := applied_items ks rows db, dd_events := dd_events db @ es,
      dd_cache := (dd_cache db)\<lparr>rc_seq := rc_seq (dd_cache db) + int (length es)\<rparr>\<rparr>"
    by (auto simp: ApplyDerivedWorkItemBatch_def applied_items_def Let_def split: option.splits)
  have load: "load_scope db' p = load_scope db p" for p
    by (rule load_scope_cong) (simp_all add: db' db1 ClearDerivationDirtyScopes_def)
  have "derived derive db' = derived derive db"
    by (rule ext) (simp add: derived_def load split: sum.split)
  moreover have "dirty_keys db' = dirty_keys db - set ks"
    by (force simp: db' db1 ClearDerivationDirtyScopes_def dirty_keys_def)
  ultimately show ?thesis using rows by (auto simp: db' db1 ClearDerivationDirtyScopes_def)
qed

lemma loaded_rows:
  assumes "pass_inv derive db (Loaded ks items)" and "input_rows clk (sort_key ow_identity items) = Some rows"
  shows "distinct (map fst rows)"
    and "map_of rows i = Some r \<Longrightarrow> \<exists>k it. k \<in> set ks \<and> it \<in> set (derived derive db k) \<and> it_payload it = Jsonb (wi_payload r) \<and>
      i = it_identity it \<and> wi_scope r = k \<and> wi_org r = it_org it \<and> (\<exists>q. parseScope k = Inr q \<and> i = identityForScope q)"
    and "k \<in> set ks \<Longrightarrow> it \<in> set (derived derive db k) \<Longrightarrow> it_payload it = Jsonb v \<Longrightarrow>
      \<exists>t. map_of rows (it_identity it) = Some \<lparr>wi_scope = k, wi_org = it_org it, wi_payload = v, wi_updatedAt = t\<rparr>"
proof -
  from assms(1) have items: "distinct (map ow_identity items)"
      "set items = (\<Union>k \<in> set ks. own_item k ` set (derived derive db k))"
    and ids: "\<And>x. x \<in> set items \<Longrightarrow> \<exists>q. parseScope (ow_scope x) = Inr q \<and> ow_identity x = identityForScope q"
    unfolding pass_inv_def by simp_all
  note rows = input_rows_Some [OF assms(2)]
  have "distinct (map ow_identity (sort_key ow_identity items))" using items(1) by (simp add: distinct_map)
  then show d: "distinct (map fst rows)" by (simp add: rows(1))
  show "\<exists>k it. k \<in> set ks \<and> it \<in> set (derived derive db k) \<and> it_payload it = Jsonb (wi_payload r) \<and>
      i = it_identity it \<and> wi_scope r = k \<and> wi_org r = it_org it \<and> (\<exists>q. parseScope k = Inr q \<and> i = identityForScope q)"
    if "map_of rows i = Some r"
  proof -
    from map_of_SomeD [OF that] obtain x v where x: "x \<in> set items" "ow_payload x = Jsonb v" "i = ow_identity x"
      "r = \<lparr>wi_scope = ow_scope x, wi_org = ow_org x, wi_payload = v, wi_updatedAt = clk (ow_identity x)\<rparr>"
      unfolding rows(2) by auto
    from x(1) items(2) obtain k it where "x = own_item k it" "k \<in> set ks" "it \<in> set (derived derive db k)" by blast
    with x ids [OF x(1)] show ?thesis by auto
  qed
  show "\<exists>t. map_of rows (it_identity it) = Some \<lparr>wi_scope = k, wi_org = it_org it, wi_payload = v, wi_updatedAt = t\<rparr>"
    if "k \<in> set ks" "it \<in> set (derived derive db k)" "it_payload it = Jsonb v"
  proof -
    have "own_item k it \<in> set items" using items(2) that by blast
    then have "(it_identity it, \<lparr>wi_scope = k, wi_org = it_org it, wi_payload = v, wi_updatedAt = clk (it_identity it)\<rparr>) \<in> set rows"
      unfolding rows(2) using that(3) by (intro bexI [of _ "own_item k it"]) auto
    with map_of_is_SomeI [OF d] show ?thesis by blast
  qed
qed

context scope_deriver
begin

lemma finish_items:
  assumes inv: "derive_inv derive s" and p: "dy_passes s i = Some (Loaded ks items)"
    and rows: "input_rows clk (sort_key ow_identity items) = Some rows" and k: "k \<in> set ks \<or> k \<notin> dirty_keys (dy_db s)"
    and db': "dd_items db' = applied_items ks rows (dy_db s)"
  shows "items_of db' k = expected_items derive (dy_db s) k"
proof -
  note d = derive_invD [OF inv] and l = loaded_rows [OF derive_invD(5) [OF inv p] rows]
  note look = applied_items_lookup [OF d(1) l(1), of ks, folded db']
  have sub: "set ks \<subseteq> dirty_keys (dy_db s)" using d(5) [OF p] by (simp add: pass_inv_def)
  show ?thesis
  proof (cases "k \<in> set ks")
    case True
    have "x \<in> items_of db' k \<longleftrightarrow> (\<exists>y r. map_of rows y = Some r \<and> wi_scope r = k \<and> x = (y, wi_org r, wi_payload r))" for x
      using True by (fastforce simp: items_of_def look same_item_def split: option.splits if_splits)
    then show ?thesis using l(2,3) True by (fastforce simp: expected_items_def)
  next
    case False
    with k have clean: "k \<notin> dirty_keys (dy_db s)" by blast
    have free: "map_of rows y = None" if y: "map_of (dd_items (dy_db s)) y = Some old" "wi_scope old = k" for y old
    proof (rule ccontr)
      assume "map_of rows y \<noteq> None"
      then obtain r where "map_of rows y = Some r" by blast
      from l(2) [OF this] obtain j it q where j: "j \<in> set ks" "it \<in> set (derived derive (dy_db s) j)"
        "parseScope j = Inr q" "y = identityForScope q" by blast
      from j(1) sub d(3) obtain q' where q': "scope_ok q'" "j = scope_key q'" by blast
      with j(3) parse_scope_key have [simp]: "q = q'" by simp
      from d(4) [OF y(1)] obtain q2 where q2: "scope_ok q2" "k = scope_key q2" "y = identityForScope q2" using y(2) by blast
      have "(y, wi_org old, wi_payload old) \<in> items_of (dy_db s) k" using y by (auto simp: items_of_def)
      then have "(y, wi_org old, wi_payload old) \<in> expected_items derive (dy_db s) k" using d(7) [OF clean] by simp
      then have "derived derive (dy_db s) (scope_key q2) \<noteq> []" by (auto simp: expected_items_def q2(2))
      moreover from j(2) q'(2) have "derived derive (dy_db s) (scope_key q') \<noteq> []" by auto
      ultimately have "scope_key q2 = scope_key q'"
        using identity_scope [OF q2(1) q'(1)] q2(3) j(4) d(2) by simp
      with q'(2) q2(2) j(1) False show False by simp
    qed
    have rows_ks: "wi_scope r \<in> set ks" if "map_of rows y = Some r" for y r using l(2) [OF that] by blast
    have "items_of db' k = items_of (dy_db s) k"
      using False free rows_ks
      by (fastforce simp: items_of_def look same_item_def split: option.splits if_splits)
    then show ?thesis using d(7) [OF clean] by simp
  qed
qed

end

context scope_deriver
begin

lemma inv_finish:
  assumes inv: "derive_inv derive s" and p: "dy_passes s i = Some (Loaded ks items)"
    and f: "finish_pass env svc ks items (dy_db s) = Inr db'"
  shows "derive_inv derive \<lparr>dy_db = db', dy_passes = (dy_passes s)(i := None)\<rparr>"
proof -
  note d = derive_invD [OF inv]
  from finish_pass_Inr [OF f, of derive] obtain rows where rows: "input_rows (dn_clk env) (sort_key ow_identity items) = Some rows"
    and db': "dd_items db' = applied_items ks rows (dy_db s)" "dirty_keys db' = dirty_keys (dy_db s) - set ks"
      "derived derive db' = derived derive (dy_db s)" "rc_repos (dd_cache db') = rc_repos (dd_cache (dy_db s))"
    by blast
  note l = loaded_rows [OF d(5) [OF p] rows]
  have sub: "set ks \<subseteq> dirty_keys (dy_db s)" using d(5) [OF p] by (simp add: pass_inv_def)
  have new: "\<exists>q. scope_ok q \<and> wi_scope r = scope_key q \<and> x = identityForScope q" if "map_of rows x = Some r" for x r
  proof -
    from l(2) [OF that] obtain q where q: "wi_scope r \<in> set ks" "parseScope (wi_scope r) = Inr q" "x = identityForScope q" by blast
    with sub d(3) obtain q' where "scope_ok q'" "wi_scope r = scope_key q'" by blast
    with q parse_scope_key show ?thesis by fastforce
  qed
  show ?thesis
  proof (rule derive_invI, goal_cases)
    case (4 x r)
    then show ?case
      using new [of x] d(4) [of x] unfolding derive_system.simps db'(1) applied_items_lookup [OF d(1) l(1)]
      by (auto simp: same_item_def split: option.splits if_splits)
  next
    case (5 j q)
    then have q: "dy_passes s j = Some q" "j \<noteq> i" by (simp_all split: if_splits)
    have "set (pass_keys q) \<subseteq> dirty_keys db'"
      using d(6) [OF p q(1)] q(2) d(5) [OF q(1)] by (auto simp: db'(2) pass_inv_def)
    then show ?case using pass_inv_mono [OF d(5) [OF q(1)]] by (simp add: db'(3))
  next
    case (6 j q j' q')
    then show ?case using d(6) [of j q j' q'] by (simp split: if_splits)
  next
    case (7 k)
    then have "items_of db' k = expected_items derive (dy_db s) k"
      using finish_items [OF inv p rows _ db'(1), of k] by (auto simp: db'(2))
    then show ?case by (simp add: expected_items_def db'(3))
  qed (use d(1-3) applied_items_distinct [OF d(1)] db' in auto)
qed

lemma derive_inv_step: "derive_step derive s s' \<Longrightarrow> derive_inv derive s \<Longrightarrow> derive_inv derive s'"
  by (induction rule: derive_step.induct) (auto intro: inv_claim inv_load inv_finish inv_abort inv_store)

lemma derive_inv_steps: "(derive_step derive)\<^sup>*\<^sup>* s s' \<Longrightarrow> derive_inv derive s \<Longrightarrow> derive_inv derive s'"
  by (induction rule: rtranclp_induct) (auto intro: derive_inv_step)

end

end
