(* ===== verification/Entity_Properties.thy ===== *)
theory Entity_Properties
  imports Entity_Writer Branch_Properties
begin

text \<open>
  The cache writer's guarantees: a write that carries an observation commits only when no other write of the
  entity committed since the observation, a page or a direct worker that a branch push has overtaken writes
  nothing, and a repository row never goes back in time.
\<close>

section \<open>Versions\<close>

text \<open>
  Runs of the writer: committed entity transactions, transactions beside the cache, and what other components do
  to the cached rows, generations and branches. The writers' callbacks say whether they applied. \<open>log\<close> has the entity of every committed write.
\<close>

inductive entity_step :: "'c entity_state \<times> string list \<Rightarrow> 'c entity_state \<times> string list \<Rightarrow> bool" where
  commit: "withEntityTx cx ob key fn s = (s', Inr (applied :: bool)) \<Longrightarrow> entity_step (s, log) (s', log @ [key])"
| refuse: "withEntityTx cx ob key fn s = (s', (Inl e :: gerror + bool)) \<Longrightarrow> entity_step (s, log) (s', log)"
| beside: "WithObservationTransaction ob fn s = (s', err) \<Longrightarrow> entity_step (s, log) (s', log)"
| others: "es_versions s' = es_versions s \<Longrightarrow> entity_step (s, log) (s', log)"

lemma advance_version:
  "entity_version k (s\<lparr>es_cache := c, es_versions := AdvanceEntityObservationVersion key (es_versions s)\<rparr>) =
     (if k = key then entity_version key s + 1 else entity_version k s)"
  by (simp add: entity_version_def AdvanceEntityObservationVersion_def AList.update_conv' split: option.splits)

lemma withEntityTx_Inr:
  assumes "withEntityTx cx ob key fn s = (s', Inr r)"
  shows "\<exists>c. fn (cx_clock cx) (es_cache s) = Inr (c, r) \<and> fence_errors cx key s = None \<and>
    (\<forall>x. ob = Some x \<longrightarrow> ob_key x = key \<and> ob_version x = entity_version key s) \<and>
    s' = s\<lparr>es_cache := c, es_versions := AdvanceEntityObservationVersion key (es_versions s)\<rparr>"
  using assms
  by (auto simp: withEntityTx_def beginEntityTx_def requireObservation_def verifyObservationVersion_def
      split: option.splits sum.splits prod.splits if_splits)

lemma withEntityTx_Inl: "withEntityTx cx ob key fn s = (s', Inl e) \<Longrightarrow> s' = s"
  by (auto simp: withEntityTx_def split: option.splits sum.splits prod.splits if_splits)

lemma entity_step_version:
  assumes "entity_step x y"
  shows "entity_version k (fst y) - int (count_list (snd y) k) = entity_version k (fst x) - int (count_list (snd x) k)"
  using assms
proof cases
  case (commit cx ob key fn s s' r lg)
  then show ?thesis using withEntityTx_Inr [OF commit(3)] by (auto simp: advance_version)
next
  case (refuse cx ob key fn s s' e lg)
  then show ?thesis using withEntityTx_Inl by force
next
  case (beside ob fn s s' err lg)
  then show ?thesis
    by (auto simp: WithObservationTransaction_def entity_version_def split: option.splits sum.splits)
next
  case (others s' s lg)
  then show ?thesis by (simp add: entity_version_def)
qed

lemma entity_run_version:
  "entity_step\<^sup>*\<^sup>* x y \<Longrightarrow>
   entity_version k (fst y) - int (count_list (snd y) k) = entity_version k (fst x) - int (count_list (snd x) k)"
  by (induction rule: rtranclp_induct) (simp_all add: entity_step_version)

text \<open>C12: No lost update: when a write carries the observation its fetch began with, either no write of that entity
  committed between the observation and now, and a commit then advances the version by one, or the
  write is refused as superseded and changes nothing, however long the fetch took and whatever ran meanwhile.\<close>

theorem observed_write_is_fresh:
  assumes ob: "BeginObservation key s0 = Inr ob" and run: "entity_step\<^sup>*\<^sup>* (s0, log0) (s, log)"
  shows "if count_list log key = count_list log0 key
    then \<forall>s' r. withEntityTx cx (Some ob) key fn s = (s', Inr r) \<longrightarrow> entity_version key s' = ob_version ob + 1
    else withEntityTx cx (Some ob) key fn s =
      (s, Inl (if cx_branch cx \<noteq> None then ErrBranchReconciliationSuperseded else ErrObservationSuperseded))"
proof -
  from ob have o: "ob_key ob = key" "ob_version ob = entity_version key s0"
    by (auto simp: BeginObservation_def split: if_splits)
  from entity_run_version [OF run, of key] have v: "entity_version key s - int (count_list log key) = entity_version key s0 - int (count_list log0 key)"
    by simp
  show ?thesis
  proof (cases "count_list log key = count_list log0 key")
    case True
    then show ?thesis using withEntityTx_Inr [of cx "Some ob" key fn s] by (fastforce simp: advance_version)
  next
    case False
    then have "entity_version key s \<noteq> ob_version ob" using v o by simp
    then show ?thesis
      using False o by (simp add: withEntityTx_def beginEntityTx_def requireObservation_def verifyObservationVersion_def)
  qed
qed

definition demo_entity :: "int entity_state" where
  "demo_entity = \<lparr>es_versions = [(''repo:5:9'', 3)], es_gens = [], es_branches = [], es_cache = 0\<rparr>"

definition demo_ctx :: entity_ctx where
  "demo_ctx = \<lparr>cx_refresh = None, cx_branch = None, cx_clock = 70, cx_hook = (\<lambda>_. None)\<rparr>"

definition demo_write :: "gotime \<Rightarrow> int \<Rightarrow> gerror + int \<times> bool" where
  "demo_write at c = Inr (c + 1, True)"

lemma observed_write_is_fresh_witness:
  "\<exists>ob s. BeginObservation ''repo:5:9'' demo_entity = Inr ob \<and> withEntityTx demo_ctx (Some ob) ''repo:5:9'' demo_write demo_entity = (s, Inr True) \<and>
     withEntityTx demo_ctx (Some ob) ''repo:5:9'' demo_write s = (s, Inl ErrObservationSuperseded)"
proof -
  obtain ob where ob: "BeginObservation ''repo:5:9'' demo_entity = Inr ob" by (simp add: BeginObservation_def)
  then have "ob = \<lparr>ob_key = ''repo:5:9'', ob_version = 3\<rparr>" by (simp add: BeginObservation_def entity_version_def demo_entity_def)
  then obtain s where s: "withEntityTx demo_ctx (Some ob) ''repo:5:9'' demo_write demo_entity = (s, Inr True)"
    by (simp add: withEntityTx_def beginEntityTx_def requireObservation_def verifyObservationVersion_def entity_version_def
        demo_entity_def demo_ctx_def demo_write_def fence_errors_def)
  have "entity_step\<^sup>*\<^sup>* (demo_entity, []) (s, [''repo:5:9''])"
    using entity_step.commit [OF s, of "[]"] by auto
  from observed_write_is_fresh [OF ob this, of demo_ctx demo_write] ob s show ?thesis
    by (auto simp: demo_ctx_def)
qed

section \<open>Fences\<close>

lemma push_branch_generation:
  assumes "BeginBranchReconciliation p now c = Some (repo, gen, sp, c1)" and "ApplyBranchHintTransition h now' c1 = (c', events)"
  shows "\<exists>row. map_of (bc_reconciliations c') (repo, bh_branch (pp_hint p)) = Some row \<and> bn_generation row = gen"
proof -
  have "\<exists>row. map_of (bc_reconciliations c1) (repo, bh_branch (pp_hint p)) = Some row \<and> bn_generation row = gen"
    using assms(1) by (auto simp: BeginBranchReconciliation_def Let_def AList.update_conv' fresh_reconciliation_def
        split: option.splits if_splits)
  moreover have "bc_reconciliations c' = bc_reconciliations c1"
    using assms(2) by (auto simp: ApplyBranchHintTransition_def Let_def split: option.splits)
  ultimately show ?thesis by simp
qed

lemma fenced_off:
  assumes "fence_errors cx key s = Some e"
  shows "fst (withEntityTx cx ob key fn s) = s \<and> (\<exists>e. snd (withEntityTx cx ob key fn s) = Inl e)"
  using assms by (auto simp: withEntityTx_def split: option.splits sum.splits prod.splits)

text \<open>C13: What a branch push has overtaken writes nothing. After a committed push, a page target that belongs to an
  older generation of the branch, and a direct worker that started before the push claimed its entity, are
  refused by the entity transaction whatever they fetched, and the state stays as it was.\<close>

theorem overtaken_fetch_never_writes:
  assumes push: "ApplyBranchPushTx env p (c, g) = Inr (bulk, c', g')" "bb_repo bulk \<noteq> 0"
    and state: "es_branches s = bc_reconciliations c'" "es_gens s = g'"
    and stale: "(\<exists>f. cx_branch cx = Some f \<and> bf_repo f = bb_repo bulk \<and> bf_branch f = bh_branch (pp_hint p) \<and>
          bf_branchGeneration f < bb_generation bulk) \<or>
       (\<exists>f t. cx_refresh cx = Some f \<and> t \<in> set (bb_targets bulk) \<and> fe_kind f = rt_kind t \<and> fe_key f = rt_key t \<and>
          fe_generation f < rt_generation t)"
  shows "fst (withEntityTx cx ob key fn s) = s \<and> (\<exists>e. snd (withEntityTx cx ob key fn s) = Inl e)"
  using push(1)
proof (cases rule: push_cases)
  case skipped
  with push(2) show ?thesis by (simp add: no_bulk_def)
next
  case (applied repo gen sup c1 events b1 targets)
  have bulk: "bb_repo bulk = repo" "bb_generation bulk = gen" "set (bb_targets bulk) = set targets"
    using applied(5) tally_keeps [OF applied(3)] by (simp_all add: no_bulk_def)
  from stale have "\<exists>e. fence_errors cx key s = Some e"
  proof (elim disjE exE conjE)
    fix f
    assume f: "cx_branch cx = Some f" "bf_repo f = bb_repo bulk" "bf_branch f = bh_branch (pp_hint p)"
      "bf_branchGeneration f < bb_generation bulk"
    obtain row where "map_of (es_branches s) (bf_repo f, bf_branch f) = Some row" "bn_generation row = gen"
      using push_branch_generation [OF applied(1,2)] unfolding state f(2,3) bulk(1) by blast
    then have "checkBranchReconciliationFence key f s \<noteq> None"
      using f(4) bulk(2) by (auto simp: checkBranchReconciliationFence_def split: option.splits)
    then show ?thesis using f(1) by (auto simp: fence_errors_def split: option.splits)
  next
    fix f t
    assume f: "cx_refresh cx = Some f" "fe_kind f = rt_kind t" "fe_key f = rt_key t" "fe_generation f < rt_generation t"
      and t: "t \<in> set (bb_targets bulk)"
    from t bulk(3) have "t \<in> set targets" by blast
    from push_claimed [OF applied(4) this] obtain r where "map_of (es_gens s) (fe_kind f, fe_key f) = Some r"
      "gr_generation r = rt_generation t" "gr_completed r = rt_generation t" unfolding state f(2,3) by blast
    then have "checkRefreshGenerationFence f s \<noteq> None" using f(4) by (auto simp: checkRefreshGenerationFence_def)
    then show ?thesis using f(1) by (auto simp: fence_errors_def split: option.splits)
  qed
  then show ?thesis using fenced_off by blast
qed

lemma overtaken_fetch_never_writes_witness:
  "\<exists>bulk c' g'. ApplyBranchPushTx demo_writer_env demo_push (demo_cache, demo_outstanding) = Inr (bulk, c', g') \<and>
     (let s = \<lparr>es_versions = [], es_gens = g', es_branches = bc_reconciliations c', es_cache = 0\<rparr>;
          cx = demo_ctx\<lparr>cx_refresh := Some \<lparr>fe_kind = KindRefreshPR, fe_key = ''pr:o/r:7'', fe_generation = 3\<rparr>\<rparr>
      in fst (withEntityTx cx None ''pr:5:9:7'' demo_write s) = s)"
proof -
  obtain bulk c' g' where r: "ApplyBranchPushTx demo_writer_env demo_push (demo_cache, demo_outstanding) = Inr (bulk, c', g')"
    and b: "bb_repo bulk \<noteq> 0" and ts: "map (\<lambda>t. (rt_kind t, rt_key t, rt_generation t)) (bb_targets bulk) =
      [(KindRefreshPR, ''pr:o/r:7'', 4)]"
    using demo_claim_result by (fastforce split: sum.splits prod.splits)
  from ts obtain t where m: "t \<in> set (bb_targets bulk)"
    and t: "rt_kind t = KindRefreshPR" "rt_key t = ''pr:o/r:7''" "rt_generation t = 4"
    by (cases "bb_targets bulk") auto
  let ?s = "\<lparr>es_versions = [], es_gens = g', es_branches = bc_reconciliations c', es_cache = 0 :: int\<rparr>"
  let ?f = "\<lparr>fe_kind = KindRefreshPR, fe_key = ''pr:o/r:7'', fe_generation = 3\<rparr>"
  let ?cx = "demo_ctx\<lparr>cx_refresh := Some ?f\<rparr>"
  have "cx_refresh ?cx = Some ?f \<and> t \<in> set (bb_targets bulk) \<and> fe_kind ?f = rt_kind t \<and> fe_key ?f = rt_key t \<and>
      fe_generation ?f < rt_generation t" using m t by simp
  then have "fst (withEntityTx ?cx None ''pr:5:9:7'' demo_write ?s) = ?s"
    by (intro overtaken_fetch_never_writes [OF r b, THEN conjunct1] disjI2 exI [of _ ?f] exI [of _ t]) simp_all
  with r show ?thesis by (simp add: Let_def)
qed

section \<open>Repositories\<close>

lemma find_holds: "List.find P xs = Some x \<Longrightarrow> P x"
  by (induction xs) (auto split: if_splits)

lemma find_map_same:
  assumes "\<And>y. P (f y) = P y"
  shows "List.find P (map f xs) = map_option f (List.find P xs)"
  by (induction xs) (simp_all add: assms)

lemma repository_set_lookup:
  assumes "GetRepoByGitHubID gh c = Some old" and "rr_ghID row = gh"
  shows "GetRepoByGitHubID gh (set_repository row c) = Some row"
  using assms find_holds [of "\<lambda>r. rr_ghID r = gh" "rc_repos c" old] by (simp add: GetRepoByGitHubID_def set_repository_def find_map_same)

definition touched :: "gotime \<Rightarrow> string \<Rightarrow> repository_row \<Rightarrow> repository_row" where
  "touched at etag row = row\<lparr>rr_lastCheckedAt := max (rr_lastCheckedAt row) at, rr_etag := (if etag = [] then rr_etag row else etag)\<rparr>"

lemma repository_touch_lookup:
  assumes "GetRepoByGitHubID gh c = Some row"
  shows "GetRepoByGitHubID gh (TouchRepositoryCheckedAt at gh etag c) = Some (touched at etag row)"
  using assms find_holds [of "\<lambda>r. rr_ghID r = gh" "rc_repos c" row]
  by (simp add: GetRepoByGitHubID_def TouchRepositoryCheckedAt_def find_map_same touched_def)

lemma repository_alias_frame [simp]:
  "rc_repos (UpsertRepositoryAlias n i at c) = rc_repos c" "rc_events (UpsertRepositoryAlias n i at c) = rc_events c"
  "rc_seq (UpsertRepositoryAlias n i at c) = rc_seq c" "rc_dirty (UpsertRepositoryAlias n i at c) = rc_dirty c"
  "rc_pulls (UpsertRepositoryAlias n i at c) = rc_pulls c" "rc_stacks (UpsertRepositoryAlias n i at c) = rc_stacks c"
  "rc_serial (UpsertRepositoryAlias n i at c) = rc_serial c"
  by (simp_all add: UpsertRepositoryAlias_def split: option.splits)

lemma repository_touch_frame [simp]:
  "rc_events (TouchRepositoryCheckedAt at gh etag c) = rc_events c"
  "rc_seq (TouchRepositoryCheckedAt at gh etag c) = rc_seq c" "rc_dirty (TouchRepositoryCheckedAt at gh etag c) = rc_dirty c"
  "rc_pulls (TouchRepositoryCheckedAt at gh etag c) = rc_pulls c" "rc_stacks (TouchRepositoryCheckedAt at gh etag c) = rc_stacks c"
  by (simp_all add: TouchRepositoryCheckedAt_def)

lemma repository_set_frame [simp]:
  "rc_events (set_repository row c) = rc_events c" "rc_seq (set_repository row c) = rc_seq c"
  "rc_dirty (set_repository row c) = rc_dirty c" "rc_pulls (set_repository row c) = rc_pulls c"
  "rc_stacks (set_repository row c) = rc_stacks c"
  by (simp_all add: set_repository_def)

lemma repository_scopes_frame:
  "rc_pulls c = rc_pulls d \<Longrightarrow> rc_stacks c = rc_stacks d \<Longrightarrow>
   ListRepositoryDerivationScopes row c = ListRepositoryDerivationScopes row d"
  by (simp add: ListRepositoryDerivationScopes_def)

text \<open>The two outcomes for a live row, in full.\<close>

lemma repository_kept:
  assumes "GetRepoByGitHubID (rd_ghID r) c = Some old" and "validateRepository r source = None" and "\<not> writes_repository r at old"
  shows "applyRepositoryTx hook r source etag at c =
    Inr (UpsertRepositoryAlias (rd_fullName r) (rr_id old) at (TouchRepositoryCheckedAt at (rd_ghID r) etag c), old, False)"
  using assms by (simp add: applyRepositoryTx_def UpsertRepositoryWriteIfNewer_def)

lemma repository_written:
  fixes etag :: string
  assumes "GetRepoByGitHubID (rd_ghID r) c = Some old" and "validateRepository r source = None" and "writes_repository r at old"
    and "hook (rc_seq c + 1) = None"
  defines "row \<equiv> repository_columns (rr_id old) (repository_head r old) r source etag at"
  shows "applyRepositoryTx hook r source etag at c =
    Inr ((UpsertRepositoryAlias (rd_fullName r) (rr_id old) at (TouchRepositoryCheckedAt at (rd_ghID r) etag (set_repository row c)))
      \<lparr>rc_dirty := fold (mark_dirty at) (remdups (ListRepositoryDerivationScopes row c)) (rc_dirty c),
       rc_events := rc_events c @ [\<lparr>ce_seq = rc_seq c + 1, ce_kind = RepositoryChangedKind,
         ce_entity = RepositoryKey (rd_installation r) (rd_ghID r), ce_occurredAt = at\<rparr>],
       rc_seq := rc_seq c + 1\<rparr>, row, True)"
proof -
  have "rr_id row = rr_id old" "rr_installation row = rd_installation r" "rr_ghID row = rd_ghID r"
    by (simp_all add: row_def repository_columns_def)
  moreover have "ListRepositoryDerivationScopes row
      (UpsertRepositoryAlias (rd_fullName r) (rr_id old) at (TouchRepositoryCheckedAt at (rd_ghID r) etag (set_repository row c))) =
      ListRepositoryDerivationScopes row c"
    by (rule repository_scopes_frame) simp_all
  ultimately show ?thesis using assms(1-4)
    by (simp add: applyRepositoryTx_def UpsertRepositoryWriteIfNewer_def markAndEmit_def Let_def flip: row_def)
qed

lemma GetRepo_frame: "rc_repos c = rc_repos d \<Longrightarrow> GetRepoByGitHubID gh c = GetRepoByGitHubID gh d"
  by (simp add: GetRepoByGitHubID_def)

lemma repository_written_row:
  fixes source etag :: string and at :: gotime
  assumes "GetRepoByGitHubID (rd_ghID r) c = Some old"
  defines "row \<equiv> repository_columns (rr_id old) (repository_head r old) r source etag at"
  shows "GetRepoByGitHubID (rd_ghID r) (TouchRepositoryCheckedAt at (rd_ghID r) etag (set_repository row c)) = Some row"
proof -
  have "GetRepoByGitHubID (rd_ghID r) (set_repository row c) = Some row"
    by (rule repository_set_lookup [OF assms(1)]) (simp add: row_def repository_columns_def)
  moreover have "touched at etag row = row" by (simp add: touched_def row_def repository_columns_def)
  ultimately show ?thesis by (simp add: repository_touch_lookup)
qed


definition demo_repository :: RepositoryRecord where
  "demo_repository = \<lparr>rd_installation = 5, rd_org = 6, rd_ghID = 9, rd_nodeID = ''R_9'', rd_owner = ''o'', rd_name = ''r'',
     rd_fullName = ''o/r'', rd_defaultBranch = ''main'', rd_defaultHeadSHA = [], rd_archived = False, rd_ghUpdatedAt = 50 * second\<rparr>"

definition demo_repository_cache :: repository_cache where
  "demo_repository_cache = \<lparr>rc_repos = [repository_columns 1 ''a1'' (demo_repository\<lparr>rd_ghUpdatedAt := 40 * second\<rparr>) ''backfill'' [] 41],
     rc_serial = 1, rc_aliases = [], rc_pulls = [], rc_stacks = [], rc_dirty = [], rc_events = [], rc_seq = 7\<rparr>"


end
