(* ===== verification/Derive_Runs.thy ===== *)
theory Derive_Runs
  imports Derive_Steps Entity_Properties
begin

text \<open>
  Passes as the service runs them: every call of \<open>runOnce\<close> is a run of the steps of \<open>Derive_Steps\<close>, repository writes
  are steps of the store, passes drain the dirty set, and a pass publishes exactly what it changed.
\<close>

section \<open>Calls are runs of steps\<close>

lemma store_writes_steps:
  assumes "(store_write derive (locked_by (dy_passes s)))\<^sup>*\<^sup>* (dy_db s) db'"
  shows "(derive_step derive)\<^sup>*\<^sup>* s (s\<lparr>dy_db := db'\<rparr>)"
  using assms
proof (induction rule: rtranclp_induct)
  case (step y z)
  have "derive_step derive (s\<lparr>dy_db := y\<rparr>) ((s\<lparr>dy_db := y\<rparr>)\<lparr>dy_db := z\<rparr>)"
    by (rule derive_step.store) (use step(2) in simp)
  with step(3) show ?case by simp
qed simp

text \<open>What commits between the statements of a pass respects its locks.\<close>

definition respects_locks :: "(ScopeSnapshot list \<Rightarrow> 'v ScopeResult list) \<Rightarrow> 'v derive_env \<Rightarrow> (nat \<rightharpoonup> 'v pass) \<Rightarrow> bool" where
  "respects_locks derive env ps = (dn_locked env = locked_by ps \<and> (\<forall>i ks db.
     ps i = None \<longrightarrow> (store_write derive (locked_by (ps(i \<mapsto> Claimed ks))))\<^sup>*\<^sup>* db (dn_beforeLoad env db) \<and>
       (store_write derive (locked_by (ps(i \<mapsto> Claimed ks))))\<^sup>*\<^sup>* db (dn_beforeApply env db)))"

lemma locked_by_Loaded: "locked_by (ps(i \<mapsto> Loaded ks items)) = locked_by (ps(i \<mapsto> Claimed ks))"
  by (rule ext) (auto simp: locked_by_def)

lemma heartbeat_write:
  assumes "recordHeartbeat now svc n db = Inr db'" and "distinct (map rr_ghID (rc_repos (dd_cache db)))"
  shows "store_write derive locked db db'"
proof -
  from assms(1) obtain beats where db': "db' = db\<lparr>dd_heartbeats := beats\<rparr>" by (auto simp: recordHeartbeat_def split: sum.splits)
  have "load_scope db' p = load_scope db p" for p by (rule load_scope_cong) (simp_all add: db')
  then have "derived derive db' k = derived derive db k" for k by (simp add: derived_def split: sum.split)
  with assms(2) show ?thesis by (simp add: store_write_def db' dirty_keys_def)
qed

lemma claimed_aborts:
  assumes "dy_passes s i = None" and "ClaimDerivationDirtyScopes (locked_by (dy_passes s)) cap (dy_db s) = Inr ks"
    and "(derive_step derive)\<^sup>*\<^sup>* (s\<lparr>dy_passes := (dy_passes s)(i \<mapsto> Claimed ks)\<rparr>) \<lparr>dy_db = db', dy_passes = (dy_passes s)(i \<mapsto> p)\<rparr>"
  shows "(derive_step derive)\<^sup>*\<^sup>* s (s\<lparr>dy_db := db'\<rparr>)"
proof -
  have "derive_step derive s (s\<lparr>dy_passes := (dy_passes s)(i \<mapsto> Claimed ks)\<rparr>)" using assms(1,2) by (rule derive_step.claim)
  moreover have "derive_step derive \<lparr>dy_db = db', dy_passes = (dy_passes s)(i \<mapsto> p)\<rparr>
      (\<lparr>dy_db = db', dy_passes = (dy_passes s)(i \<mapsto> p)\<rparr>\<lparr>dy_passes := ((dy_passes s)(i \<mapsto> p))(i := None)\<rparr>)"
    using derive_step.abort [of "\<lparr>dy_db = db', dy_passes = (dy_passes s)(i \<mapsto> p)\<rparr>" i p derive] by simp
  moreover have "((dy_passes s)(i \<mapsto> p))(i := None) = dy_passes s" using assms(1) by auto
  ultimately show ?thesis using assms(3) by (cases s) (simp add: rtranclp.rtrancl_into_rtrancl converse_rtranclp_into_rtranclp)
qed

text \<open>From the claim to the moment before the writes, with what others commit meanwhile.\<close>

lemma loaded_run:
  fixes ps :: "nat \<rightharpoonup> 'v pass"
  assumes i: "ps i = None" and r: "respects_locks derive env ps"
    and l: "Load ks (dn_beforeLoad env db) = Inr scopes" "validateScopeResults scopes (derive scopes) = Inr items"
  shows "(derive_step derive)\<^sup>*\<^sup>* \<lparr>dy_db = dn_beforeLoad env db, dy_passes = ps(i \<mapsto> Claimed ks)\<rparr>
    \<lparr>dy_db = dn_beforeApply env (dn_beforeLoad env db), dy_passes = ps(i \<mapsto> Loaded ks items)\<rparr>"
proof -
  let ?db1 = "dn_beforeLoad env db"
  have "derive_step derive \<lparr>dy_db = ?db1, dy_passes = ps(i \<mapsto> Claimed ks)\<rparr> \<lparr>dy_db = ?db1, dy_passes = ps(i \<mapsto> Loaded ks items)\<rparr>"
    using derive_step.load [of "\<lparr>dy_db = ?db1, dy_passes = ps(i \<mapsto> Claimed ks)\<rparr>" i ks scopes derive items] l by simp
  moreover have "(store_write derive (locked_by (ps(i \<mapsto> Claimed ks))))\<^sup>*\<^sup>* ?db1 (dn_beforeApply env ?db1)"
    using r i by (simp add: respects_locks_def)
  then have "(derive_step derive)\<^sup>*\<^sup>* \<lparr>dy_db = ?db1, dy_passes = ps(i \<mapsto> Loaded ks items)\<rparr>
      \<lparr>dy_db = dn_beforeApply env ?db1, dy_passes = ps(i \<mapsto> Loaded ks items)\<rparr>"
    using store_writes_steps [of derive "\<lparr>dy_db = ?db1, dy_passes = ps(i \<mapsto> Loaded ks items)\<rparr>"] by (simp add: locked_by_Loaded)
  ultimately show ?thesis by (rule converse_rtranclp_into_rtranclp)
qed

lemma run_once_is_steps:
  assumes i: "dy_passes s i = None" and r: "respects_locks derive env (dy_passes s)"
    and d: "distinct (map rr_ghID (rc_repos (dd_cache (dy_db s))))"
  shows "(derive_step derive)\<^sup>*\<^sup>* s (s\<lparr>dy_db := fst (runOnce derive env svc (dy_db s))\<rparr>)"
proof -
  let ?db = "dy_db s" and ?ps = "dy_passes s"
  let ?claimed = "\<lambda>ks. s\<lparr>dy_passes := ?ps(i \<mapsto> Claimed ks)\<rparr>"
  from r have locked: "dn_locked env = locked_by ?ps"
    and before: "\<And>ks db. (store_write derive (locked_by (?ps(i \<mapsto> Claimed ks))))\<^sup>*\<^sup>* db (dn_beforeLoad env db)"
    using i by (auto simp: respects_locks_def)
  have load: "(derive_step derive)\<^sup>*\<^sup>* (?claimed ks) \<lparr>dy_db = dn_beforeLoad env ?db, dy_passes = ?ps(i \<mapsto> Claimed ks)\<rparr>" for ks
    using store_writes_steps [of derive "?claimed ks"] before [of ks ?db] by (cases s) simp
  show ?thesis
  proof (cases "dn_fence env")
    case None
    show ?thesis
    proof (cases "ClaimDerivationDirtyScopes (dn_locked env) (wrap32 (do_dirtyCap svc)) ?db")
      case (Inr ks)
      note claim = claimed_aborts [OF i Inr [unfolded locked]]
      let ?db1 = "dn_beforeLoad env ?db" and ?db2 = "dn_beforeApply env (dn_beforeLoad env ?db)"
      show ?thesis
      proof (cases "ks = []")
        case True
        show ?thesis
        proof (cases "recordHeartbeat (dn_now env) svc 0 ?db")
          case (Inr db')
          then show ?thesis
            using None \<open>ClaimDerivationDirtyScopes _ _ _ = _\<close> True derive_step.store [OF heartbeat_write [OF Inr d]]
            by (simp add: runOnce_def r_into_rtranclp)
        qed (use None Inr True in \<open>simp add: runOnce_def\<close>)
      next
        case False
        show ?thesis
        proof (cases "\<exists>scopes items. Load ks ?db1 = Inr scopes \<and> validateScopeResults scopes (derive scopes) = Inr items")
          case True
          then obtain scopes items where l: "Load ks ?db1 = Inr scopes" "validateScopeResults scopes (derive scopes) = Inr items" by blast
          have run: "(derive_step derive)\<^sup>*\<^sup>* (?claimed ks) \<lparr>dy_db = ?db2, dy_passes = ?ps(i \<mapsto> Loaded ks items)\<rparr>"
            using load [of ks] loaded_run [OF i r l] by (rule rtranclp_trans)
          show ?thesis
          proof (cases "finish_pass env svc ks items ?db2")
            case (Inl e)
            then show ?thesis using claim [OF run] None Inr False l by (simp add: runOnce_def Let_def)
          next
            case fin: (Inr db3)
            have "derive_step derive \<lparr>dy_db = ?db2, dy_passes = ?ps(i \<mapsto> Loaded ks items)\<rparr> \<lparr>dy_db = db3, dy_passes = ?ps\<rparr>"
              using derive_step.finish [of "\<lparr>dy_db = ?db2, dy_passes = ?ps(i \<mapsto> Loaded ks items)\<rparr>" i ks items env svc db3 derive] fin i
              by (simp add: fun_upd_idem)
            moreover have "derive_step derive s (?claimed ks)" using i Inr [unfolded locked] by (rule derive_step.claim)
            ultimately have "(derive_step derive)\<^sup>*\<^sup>* s \<lparr>dy_db = db3, dy_passes = ?ps\<rparr>"
              using run by (meson converse_rtranclp_into_rtranclp rtranclp.rtrancl_into_rtrancl)
            then show ?thesis using None Inr False l fin by (cases s) (simp add: runOnce_def Let_def)
          qed
        next
          case False
          then show ?thesis
            using claim [OF load [of ks]] None Inr \<open>ks \<noteq> []\<close> by (auto simp: runOnce_def Let_def split: sum.splits)
        qed
      qed
    qed (use None in \<open>simp add: runOnce_def\<close>)
  qed (simp add: runOnce_def)
qed

section \<open>Repository writes are writes of the store\<close>

text \<open>
  A deriver that ignores when a repository row was checked, and derives nothing from a stack scope without its
  stack or from a pull-request scope without its pull request.
\<close>

definition touch_scope :: "gotime \<Rightarrow> string \<Rightarrow> ScopeSnapshot \<Rightarrow> ScopeSnapshot" where
  "touch_scope at etag s = s\<lparr>zs_data := (zs_data s)\<lparr>sq_repository := map_option (touched at etag) (sq_repository (zs_data s))\<rparr>\<rparr>"

definition content_deriver :: "(ScopeSnapshot list \<Rightarrow> 'v ScopeResult list) \<Rightarrow> bool" where
  "content_deriver derive = ((\<forall>s at etag. scope_items derive (touch_scope at etag s) = scope_items derive s) \<and>
     (\<forall>s. (if sq_kind (zs_data s) = ''stack'' then sq_stack (zs_data s) = None else sq_pulls (zs_data s) = []) \<longrightarrow>
       scope_items derive s = []))"

lemma find_map_fixed:
  assumes "\<And>y. P (f y) = P y" and "\<And>y. P y \<Longrightarrow> f y = y"
  shows "List.find P (map f xs) = List.find P xs"
  using find_map_same [of P f, OF assms(1)] assms(2) find_holds [of P xs]
  by (cases "List.find P xs") auto

lemma find_append_none: "\<not> P x \<Longrightarrow> List.find P (xs @ [x]) = List.find P xs"
  by (induction xs) auto

definition touch_rows :: "gotime \<Rightarrow> int \<Rightarrow> string \<Rightarrow> repository_row list \<Rightarrow> repository_row list" where
  "touch_rows at gh etag rows = map (\<lambda>r. if rr_ghID r = gh then touched at etag r else r) rows"

lemma TouchRepository_rows: "rc_repos (TouchRepositoryCheckedAt at gh etag c) = touch_rows at gh etag (rc_repos c)"
  by (simp add: TouchRepositoryCheckedAt_def touch_rows_def touched_def)

lemma touched_columns [simp]:
  "rr_ghID (touched at etag r) = rr_ghID r" "rr_id (touched at etag r) = rr_id r" "rr_org (touched at etag r) = rr_org r"
  "rr_installation (touched at etag r) = rr_installation r" "rr_tombstonedAt (touched at etag r) = rr_tombstonedAt r"
  by (simp_all add: touched_def)

lemma repository_inserted:
  fixes etag :: string and at :: gotime
  assumes "GetRepoByGitHubID (rd_ghID r) c = None" and "validateRepository r source = None" and "hook (rc_seq c + 1) = None"
  defines "row \<equiv> repository_columns (rc_serial c + 1) (rd_defaultHeadSHA r) r source etag at"
  shows "applyRepositoryTx hook r source etag at c =
    Inr ((UpsertRepositoryAlias (rd_fullName r) (rr_id row) at (TouchRepositoryCheckedAt at (rd_ghID r) etag
        (c\<lparr>rc_repos := rc_repos c @ [row], rc_serial := rc_serial c + 1\<rparr>)))
      \<lparr>rc_dirty := fold (mark_dirty at) (remdups (ListRepositoryDerivationScopes row c)) (rc_dirty c),
       rc_events := rc_events c @ [\<lparr>ce_seq = rc_seq c + 1, ce_kind = RepositoryChangedKind,
         ce_entity = RepositoryKey (rr_installation row) (rr_ghID row), ce_occurredAt = at\<rparr>],
       rc_seq := rc_seq c + 1\<rparr>, row, True)"
proof -
  have "ListRepositoryDerivationScopes row
      (UpsertRepositoryAlias (rd_fullName r) (rr_id row) at (TouchRepositoryCheckedAt at (rd_ghID r) etag
        (c\<lparr>rc_repos := rc_repos c @ [row], rc_serial := rc_serial c + 1\<rparr>))) = ListRepositoryDerivationScopes row c"
    by (rule repository_scopes_frame) simp_all
  then show ?thesis using assms(1-3)
    by (simp add: applyRepositoryTx_def UpsertRepositoryWriteIfNewer_def markAndEmit_def Let_def flip: row_def)
qed

lemma apply_repository_cases:
  assumes a: "applyRepositoryTx hook r source etag at c = Inr (c', row, applied)"
  obtains (inserted) "validateRepository r source = None" "GetRepoByGitHubID (rd_ghID r) c = None" "applied" "hook (rc_seq c + 1) = None"
  | (written) old where "validateRepository r source = None" "GetRepoByGitHubID (rd_ghID r) c = Some old" "applied" "writes_repository r at old"
      "hook (rc_seq c + 1) = None"
  | (kept) old where "validateRepository r source = None" "GetRepoByGitHubID (rd_ghID r) c = Some old" "\<not> applied" "\<not> writes_repository r at old"
proof -
  have v: "validateRepository r source = None" using a by (auto simp: applyRepositoryTx_def split: option.splits)
  show thesis
  proof (cases "GetRepoByGitHubID (rd_ghID r) c")
    case None
    with a v have "applied" "hook (rc_seq c + 1) = None"
      by (cases "hook (rc_seq c + 1)"; simp add: applyRepositoryTx_def UpsertRepositoryWriteIfNewer_def markAndEmit_def Let_def)+
    with v None show thesis by (rule inserted)
  next
    case (Some old)
    show thesis
    proof (cases "writes_repository r at old")
      case True
      with a v Some have "applied" "hook (rc_seq c + 1) = None"
        by (cases "hook (rc_seq c + 1)"; simp add: applyRepositoryTx_def UpsertRepositoryWriteIfNewer_def markAndEmit_def Let_def)+
      with v Some True show thesis by (intro written)
    next
      case False
      with a v Some have "\<not> applied" by (simp add: applyRepositoryTx_def UpsertRepositoryWriteIfNewer_def Let_def)
      with v Some False show thesis by (intro kept)
    qed
  qed
qed

text \<open>What a repository write leaves in the tables the snapshot reads.\<close>

lemma repository_write_tables:
  assumes a: "applyRepositoryTx hook r source etag at c = Inr (c', row, applied)"
  shows "rc_pulls c' = rc_pulls c \<and> rc_stacks c' = rc_stacks c \<and>
      (if \<not> applied then rc_repos c' = touch_rows at (rd_ghID r) etag (rc_repos c) \<and> rc_dirty c' = rc_dirty c
       else rc_dirty c' = fold (mark_dirty at) (remdups (ListRepositoryDerivationScopes row c)) (rc_dirty c) \<and>
        rr_installation row = rd_installation r \<and> rr_ghID row = rd_ghID r \<and>
        rc_repos c' = touch_rows at (rd_ghID r) etag (case GetRepoByGitHubID (rd_ghID r) c of
          None \<Rightarrow> rc_repos c @ [row] | Some old \<Rightarrow> map (\<lambda>x. if rr_ghID x = rd_ghID r then row else x) (rc_repos c)) \<and>
        (case GetRepoByGitHubID (rd_ghID r) c of None \<Rightarrow> rr_id row = rc_serial c + 1 | Some old \<Rightarrow> rr_id row = rr_id old))"
  using a
proof (cases rule: apply_repository_cases)
  case inserted
  with a repository_inserted [where hook = hook and etag = etag and at = at, OF inserted(2,1,4)] show ?thesis
    by (auto simp: TouchRepository_rows repository_columns_def)
next
  case (written old)
  with a repository_written [where hook = hook and etag = etag, OF written(2,1,4,5)] show ?thesis
    by (auto simp: TouchRepository_rows set_repository_def repository_columns_def)
next
  case (kept old)
  with a repository_kept [OF kept(2,1,4), of hook etag] show ?thesis by (auto simp: TouchRepository_rows)
qed

text \<open>The identifiers are 64-bit, and numbers of stacks and pull requests are positive, as the tables check.\<close>

definition numbers_ok :: "RepositoryRecord \<Rightarrow> repository_cache \<Rightarrow> bool" where
  "numbers_ok r c = (rd_installation r < 2 ^ 63 \<and> rd_ghID r < 2 ^ 63 \<and> list_all (\<lambda>s. 0 < sk_number s \<and> sk_number s < 2 ^ 63) (rc_stacks c) \<and>
     list_all (\<lambda>q. 0 < pu_number q \<and> pu_number q < 2 ^ 63) (rc_pulls c))"

lemma repository_scopes_canonical:
  assumes "k \<in> set (ListRepositoryDerivationScopes row c)" and "numbers_ok r c" and "validateRepository r source = None"
    and "rr_installation row = rd_installation r" "rr_ghID row = rd_ghID r"
  shows "\<exists>p. scope_ok p \<and> k = scope_key p"
proof -
  have pos: "0 < rd_installation r" "0 < rd_ghID r" using assms(3) by (auto simp: validateRepository_def split: if_splits)
  have "\<exists>p. scope_ok p \<and> StackKey (rd_installation r) (rd_ghID r) n = scope_key p"
    "\<exists>p. scope_ok p \<and> PullRequestKey (rd_installation r) (rd_ghID r) n = scope_key p" if "0 < n" "n < 2 ^ 63" for n
  proof -
    show "\<exists>p. scope_ok p \<and> StackKey (rd_installation r) (rd_ghID r) n = scope_key p"
      by (rule exI [of _ "\<lparr>pa_key = StackKey (rd_installation r) (rd_ghID r) n, pa_kind = ''stack'', pa_installation = rd_installation r,
         pa_repository = rd_ghID r, pa_number = n\<rparr>"]) (use that pos assms(2) in \<open>simp add: scope_ok_def scope_key_def numbers_ok_def\<close>)
    show "\<exists>p. scope_ok p \<and> PullRequestKey (rd_installation r) (rd_ghID r) n = scope_key p"
      by (rule exI [of _ "\<lparr>pa_key = PullRequestKey (rd_installation r) (rd_ghID r) n, pa_kind = ''pr'', pa_installation = rd_installation r,
         pa_repository = rd_ghID r, pa_number = n\<rparr>"]) (use that pos assms(2) in \<open>simp add: scope_ok_def scope_key_def numbers_ok_def\<close>)
  qed
  with assms show ?thesis by (auto simp: ListRepositoryDerivationScopes_def numbers_ok_def list_all_iff)
qed

lemma unmarked_empty:
  assumes p: "scope_ok p" "pa_installation p = rr_installation row" "pa_repository p = rr_ghID row"
    and k: "scope_key p \<notin> set (ListRepositoryDerivationScopes row c)"
    and db: "rc_pulls (dd_cache db) = rc_pulls c" "rc_stacks (dd_cache db) = rc_stacks c"
      "\<And>x. scope_repository p db = Some x \<Longrightarrow> rr_id x = rr_id row"
    and content: "content_deriver derive"
  shows "scope_items derive (load_scope db p) = []"
proof -
  have stack: "\<not> (sk_repo s = rr_id row \<and> sk_number s = pa_number p \<and> \<not> sk_tombstoned s)" if "pa_kind p = ''stack''" "s \<in> set (rc_stacks c)" for s
    using k that p by (auto simp: ListRepositoryDerivationScopes_def scope_key_def image_iff)
  have pull: "\<not> (pu_repo q = rr_id row \<and> \<not> pu_tombstoned q \<and> pu_number q = pa_number p \<and> pu_stack q = None)"
    if "pa_kind p = ''pr''" "q \<in> set (rc_pulls c)" for q
    using k that p by (auto simp: ListRepositoryDerivationScopes_def scope_key_def image_iff)
  have "if pa_kind p = ''stack'' then sq_stack (zs_data (load_scope db p)) = None else sq_pulls (zs_data (load_scope db p)) = []"
  proof (cases "scope_repository p db")
    case (Some x)
    with db p(1) stack pull show ?thesis
      by (auto simp: load_scope_def Let_def selected_prs_def find_None_iff filter_empty_conv scope_ok_def)
  qed (simp add: load_scope_def Let_def)
  moreover have "sq_kind (zs_data (load_scope db p)) = pa_kind p" by (simp add: load_scope_def Let_def)
  ultimately show ?thesis using content unfolding content_deriver_def by simp
qed

lemma scope_repository_touch:
  "List.find (\<lambda>r. rr_installation r = i \<and> rr_ghID r = g \<and> rr_tombstonedAt r = None) (touch_rows at gh etag rows) =
   map_option (\<lambda>r. if rr_ghID r = gh then touched at etag r else r)
     (List.find (\<lambda>r. rr_installation r = i \<and> rr_ghID r = g \<and> rr_tombstonedAt r = None) rows)"
  unfolding touch_rows_def by (rule find_map_same) simp

lemma touch_rows_gh: "map rr_ghID (touch_rows at gh etag rows) = map rr_ghID rows"
  by (simp add: touch_rows_def)

lemma load_scope_touched:
  assumes "rc_pulls (dd_cache a) = rc_pulls (dd_cache b)" "rc_stacks (dd_cache a) = rc_stacks (dd_cache b)"
    "dd_rules a = dd_rules b" "dd_threads a = dd_threads b" "dd_checks a = dd_checks b"
    and "scope_repository p a = map_option (touched at etag) (scope_repository p b)"
  shows "load_scope a p = touch_scope at etag (load_scope b p)"
  using assms by (cases "scope_repository p b")
    (simp_all add: load_scope_def touch_scope_def selected_prs_def scope_threads_def scope_checks_def Let_def)

lemma load_scope_same:
  assumes "rc_pulls (dd_cache a) = rc_pulls (dd_cache b)" "rc_stacks (dd_cache a) = rc_stacks (dd_cache b)"
    "dd_rules a = dd_rules b" "dd_threads a = dd_threads b" "dd_checks a = dd_checks b"
    and "scope_repository p a = scope_repository p b"
  shows "load_scope a p = load_scope b p"
  using assms by (cases "scope_repository p b")
    (simp_all add: load_scope_def selected_prs_def scope_threads_def scope_checks_def Let_def)

lemma find_distinct:
  assumes "distinct (map f xs)" and "\<And>x. P x \<Longrightarrow> f x = v"
  shows "List.find P xs = Some x \<longleftrightarrow> x \<in> set xs \<and> P x"
  using assms(1)
proof (induction xs)
  case (Cons y ys)
  then show ?case using assms(2) by (auto simp: image_iff)
qed simp

lemma scope_repository_iff:
  assumes "distinct (map rr_ghID (rc_repos (dd_cache db)))"
  shows "scope_repository p db = Some x \<longleftrightarrow> x \<in> set (rc_repos (dd_cache db)) \<and> rr_installation x = pa_installation p \<and>
    rr_ghID x = pa_repository p \<and> rr_tombstonedAt x = None"
  unfolding scope_repository_def by (rule find_distinct [OF assms]) simp

lemma GetRepo_iff:
  assumes "distinct (map rr_ghID (rc_repos c))"
  shows "GetRepoByGitHubID g c = Some x \<longleftrightarrow> x \<in> set (rc_repos c) \<and> rr_ghID x = g"
  unfolding GetRepoByGitHubID_def by (rule find_distinct [OF assms]) simp

lemma touch_rows_set:
  "x \<in> set (touch_rows at g etag rows) \<longleftrightarrow>
     (if rr_ghID x = g then \<exists>y \<in> set rows. rr_ghID y = g \<and> x = touched at etag y else x \<in> set rows)"
  by (auto simp: touch_rows_def image_iff)

text \<open>The rows after the write: those of other repositories as before, and one row of this repository.\<close>

lemma repository_rows_after:
  assumes a: "applyRepositoryTx hook r source etag at c = Inr (c', row, applied)" and d: "distinct (map rr_ghID (rc_repos c))"
  shows "distinct (map rr_ghID (rc_repos c'))"
    and "rr_ghID x \<noteq> rd_ghID r \<Longrightarrow> x \<in> set (rc_repos c') \<longleftrightarrow> x \<in> set (rc_repos c)"
    and "applied \<Longrightarrow> x \<in> set (rc_repos c') \<Longrightarrow> rr_ghID x = rd_ghID r \<Longrightarrow> rr_installation x = rd_installation r \<and> rr_id x = rr_id row"
    and "\<not> applied \<Longrightarrow> rr_ghID x = rd_ghID r \<Longrightarrow>
      x \<in> set (rc_repos c') \<longleftrightarrow> (\<exists>y \<in> set (rc_repos c). rr_ghID y = rd_ghID r \<and> x = touched at etag y)"
    and "applied \<Longrightarrow> x \<in> set (rc_repos c) \<Longrightarrow> rr_ghID x = rd_ghID r \<Longrightarrow> rr_id x = rr_id row"
proof -
  note t = repository_write_tables [OF a] and g = GetRepo_iff [OF d, of "rd_ghID r"]
  let ?new = "case GetRepoByGitHubID (rd_ghID r) c of None \<Rightarrow> rc_repos c @ [row]
    | Some old \<Rightarrow> map (\<lambda>x. if rr_ghID x = rd_ghID r then row else x) (rc_repos c)"
  have none: "rd_ghID r \<notin> rr_ghID ` set (rc_repos c)" if "GetRepoByGitHubID (rd_ghID r) c = None" using g that by fastforce
  have gh: "map rr_ghID ?new = map rr_ghID (rc_repos c) @ (if GetRepoByGitHubID (rd_ghID r) c = None then [rd_ghID r] else [])"
    if applied using t that by (auto split: option.splits)
  show "distinct (map rr_ghID (rc_repos c'))"
    using t d gh none by (cases applied) (auto simp: touch_rows_gh split: if_splits)
  show "rr_ghID x \<noteq> rd_ghID r \<Longrightarrow> x \<in> set (rc_repos c') \<longleftrightarrow> x \<in> set (rc_repos c)"
    using t by (auto simp: touch_rows_set image_iff split: if_splits option.splits)
  show "applied \<Longrightarrow> x \<in> set (rc_repos c') \<Longrightarrow> rr_ghID x = rd_ghID r \<Longrightarrow> rr_installation x = rd_installation r \<and> rr_id x = rr_id row"
    using t none by (auto simp: touch_rows_set image_iff split: if_splits option.splits)
  show "\<not> applied \<Longrightarrow> rr_ghID x = rd_ghID r \<Longrightarrow>
      x \<in> set (rc_repos c') \<longleftrightarrow> (\<exists>y \<in> set (rc_repos c). rr_ghID y = rd_ghID r \<and> x = touched at etag y)"
    using t by (simp add: touch_rows_set)
  show "applied \<Longrightarrow> x \<in> set (rc_repos c) \<Longrightarrow> rr_ghID x = rd_ghID r \<Longrightarrow> rr_id x = rr_id row"
    using t g [of x] by auto
qed

lemma mark_dirty_fold_keys: "fst ` set (fold (mark_dirty at) ks t) = set ks \<union> fst ` set t"
proof (induction ks arbitrary: t)
  case (Cons k ks)
  have "fst ` set (mark_dirty at k t) = insert k (fst ` set t)"
    by (simp add: mark_dirty_def dom_update split: option.split)
  with Cons show ?case by auto
qed simp

lemma parse_scope_key_iff: "parseScope k = Inr p \<Longrightarrow> scope_ok p \<Longrightarrow> k = scope_key p"
  using parseScope_key [of k p] by (simp add: scope_ok_def)

lemma repository_write_scope:
  assumes a: "applyRepositoryTx hook r source etag at (dd_cache db) = Inr (c', row, applied)"
    and d: "distinct (map rr_ghID (rc_repos (dd_cache db)))" and content: "content_deriver derive"
    and inst: "\<forall>old. GetRepoByGitHubID (rd_ghID r) (dd_cache db) = Some old \<longrightarrow> rr_installation old = rd_installation r"
    and p: "scope_ok p" and k: "applied \<Longrightarrow> scope_key p \<notin> set (ListRepositoryDerivationScopes row (dd_cache db))"
  shows "scope_items derive (load_scope (db\<lparr>dd_cache := c'\<rparr>) p) = scope_items derive (load_scope db p)"
proof -
  let ?db' = "db\<lparr>dd_cache := c'\<rparr>"
  note t = repository_write_tables [OF a] and rows = repository_rows_after [OF a d]
  note repo = scope_repository_iff [OF d] and repo' = scope_repository_iff [of ?db', simplified, OF rows(1)]
  have home: "rr_installation y = rd_installation r" if "y \<in> set (rc_repos (dd_cache db))" "rr_ghID y = rd_ghID r" for y
    using inst that GetRepo_iff [OF d] by blast
  have home': "rr_installation y = rd_installation r" if "y \<in> set (rc_repos c')" "rr_ghID y = rd_ghID r" for y
    using rows(3) rows(4) [OF _ that(2)] that home by (cases applied) auto
  show ?thesis
  proof (cases "pa_repository p = rd_ghID r \<and> pa_installation p = rd_installation r")
    case False
    have "scope_repository p ?db' = Some x \<longleftrightarrow> scope_repository p db = Some x" for x
      unfolding repo repo' using False rows(2) [of x] home home' by (cases "rr_ghID x = rd_ghID r") auto
    then have "scope_repository p ?db' = scope_repository p db" by (metis not_Some_eq)
    then have "load_scope ?db' p = load_scope db p" by (intro load_scope_same) (use t in simp_all)
    then show ?thesis by simp
  next
    case True
    show ?thesis
    proof (cases applied)
      case app: True
      have "pa_installation p = rr_installation row" "pa_repository p = rr_ghID row" using True t app by simp_all
      note empty = unmarked_empty [OF p this k [OF app] _ _ _ content]
      have "scope_items derive (load_scope db p) = []"
        by (rule empty) (use rows(5) app repo True in auto)
      moreover have "scope_items derive (load_scope ?db' p) = []"
        by (rule empty) (use t rows(3) app repo' True in auto)
      ultimately show ?thesis by simp
    next
      case False
      have "scope_repository p ?db' = Some x \<longleftrightarrow> map_option (touched at etag) (scope_repository p db) = Some x" for x
        using True rows(4) [OF False, of x] by (auto simp: repo repo', blast)
      then have "scope_repository p ?db' = map_option (touched at etag) (scope_repository p db)" by (metis not_Some_eq)
      then have "load_scope ?db' p = touch_scope at etag (load_scope db p)" by (intro load_scope_touched) (use t in simp_all)
      then show ?thesis using content by (simp add: content_deriver_def)
    qed
  qed
qed


section \<open>A deriver, its database and a pass\<close>

definition demo_items :: "ScopeSnapshot \<Rightarrow> string list WorkItem list" where
  "demo_items s = (if 0 < zs_org s \<and> sq_kind (zs_data s) = ''pr'' \<and> sq_pulls (zs_data s) \<noteq> [] then
     [\<lparr>it_identity = (case parseScope (zs_key s) of Inl _ \<Rightarrow> [] | Inr p \<Rightarrow> identityForScope p), it_org = zs_org s,
       it_payload = Jsonb (map pu_headSHA (sq_pulls (zs_data s)))\<rparr>] else [])"

definition demo_deriver :: "ScopeSnapshot list \<Rightarrow> string list ScopeResult list" where
  "demo_deriver scopes = map (\<lambda>s. \<lparr>sz_key = zs_key s, sz_items = demo_items s\<rparr>) scopes"

lemma demo_scope_items: "scope_items demo_deriver s = demo_items s"
  by (simp add: scope_items_def demo_deriver_def)

lemma demo_scope_deriver: "scope_deriver demo_deriver"
  by unfold_locales (auto simp: demo_scope_items demo_deriver_def demo_items_def split: if_splits)

lemma demo_content_deriver: "content_deriver demo_deriver"
  by (auto simp: content_deriver_def demo_scope_items demo_items_def touch_scope_def)

definition demo_pr :: pull_row where
  "demo_pr = \<lparr>pu_repo = 1, pu_number = 7, pu_state = ''open'', pu_headRef = ''topic'', pu_headSHA = ''a1'', pu_baseRef = ''main'',
     pu_baseSHA = ''b1'', pu_reviewDecision = [], pu_mergeableState = [], pu_etag = [], pu_stack = None, pu_tombstoned = False\<rparr>"

definition demo_derive_db :: "string list derive_db" where
  "demo_derive_db = \<lparr>dd_cache = demo_repository_cache\<lparr>rc_pulls := [demo_pr], rc_dirty := [(''pr:5:9:7'', 40)]\<rparr>,
     dd_threads = [], dd_checks = [], dd_rules = [], dd_items = [], dd_events = [], dd_heartbeats = []\<rparr>"

definition demo_derive_env :: "string list derive_env" where
  "demo_derive_env = \<lparr>dn_fence = None, dn_locked = (\<lambda>_. False), dn_beforeLoad = id, dn_beforeApply = id, dn_clk = (\<lambda>_. 90),
     dn_eclk = (\<lambda>_. 91), dn_now = 92, dn_hook = (\<lambda>_. None)\<rparr>"

definition demo_derive_opts :: DeriveOptions where
  "demo_derive_opts = \<lparr>do_dirtyCap = 500, do_pollInterval = 500 * millisecond, do_installationID = 5\<rparr>"

lemma demo_pass:
  "case runOnce demo_deriver demo_derive_env demo_derive_opts demo_derive_db of (db', res) \<Rightarrow>
     res = Inr 1 \<and> rc_dirty (dd_cache db') = [] \<and> map_option wi_payload (map_of (dd_items db') ''repo:9:pr:7'') = Some [''a1''] \<and>
     map wv_seq (dd_events db') = [8]"
  by code_simp

lemma demo_key: "PullRequestKey 5 9 7 = ''pr:5:9:7''"
  by code_simp

lemma demo_derive_start: "derive_start demo_deriver demo_derive_db"
proof -
  let ?p = "\<lparr>pa_key = ''pr:5:9:7'', pa_kind = ''pr'', pa_installation = 5, pa_repository = 9, pa_number = 7\<rparr>"
  have p: "scope_ok ?p \<and> ''pr:5:9:7'' = scope_key ?p" by (simp add: scope_ok_def scope_key_def demo_key)
  have dirty: "dirty_keys demo_derive_db = {''pr:5:9:7''}" by (simp add: dirty_keys_def demo_derive_db_def)
  have only: "k = ''pr:5:9:7''" if k: "derived demo_deriver demo_derive_db k \<noteq> []" for k
  proof -
    from k obtain q where q: "parseScope k = Inr q" "scope_ok q" "demo_items (load_scope demo_derive_db q) \<noteq> []"
      by (auto simp: derived_def demo_scope_items split: sum.splits if_splits)
    then have items: "pa_kind q = ''pr''" "sq_pulls (zs_data (load_scope demo_derive_db q)) \<noteq> []"
      by (auto simp: demo_items_def load_scope_def Let_def split: if_splits)
    then obtain r where r: "scope_repository q demo_derive_db = Some r" "selected_prs q (rr_id r) demo_derive_db \<noteq> []"
      by (auto simp: load_scope_def Let_def split: option.splits)
    from r(1) have "pa_installation q = 5" "pa_repository q = 9"
      by (simp_all add: scope_repository_def demo_derive_db_def demo_repository_cache_def repository_columns_def demo_repository_def split: if_splits)
    moreover from r(2) items(1) have "pa_number q = 7"
      by (simp add: selected_prs_def demo_derive_db_def demo_pr_def split: if_splits)
    ultimately have "scope_key q = ''pr:5:9:7''" using items(1) by (simp add: scope_key_def demo_key)
    with parse_scope_key_iff [OF q(1,2)] show ?thesis by simp
  qed
  have "dd_items demo_derive_db = [] \<and> distinct (map rr_ghID (rc_repos (dd_cache demo_derive_db)))"
    by (simp add: demo_derive_db_def demo_repository_cache_def)
  with p only show ?thesis unfolding derive_start_def dirty by blast
qed

lemma demo_respects: "respects_locks derive demo_derive_env Map.empty"
  by (auto simp: respects_locks_def demo_derive_env_def locked_by_def)



lemma demo_repository_write:
  "case applyRepositoryTx (\<lambda>_. None) demo_repository ''webhook'' ''e2'' 90 (dd_cache demo_derive_db) of
     Inl _ \<Rightarrow> False | Inr (c', row, applied) \<Rightarrow> applied \<and> map_of (rc_dirty c') ''pr:5:9:7'' = Some 90"
  by code_simp


lemma distinct_map_sort_key: "distinct (map f (sort_key g xs)) \<longleftrightarrow> distinct (map f xs)"
  by (simp add: distinct_map)

section \<open>What a pass publishes\<close>

lemma number_events_fields:
  "map wv_identity (number_events clk n es) = map fst es" "map wv_kind (number_events clk n es) = map (fst \<circ> snd) es"
  by (induction clk n es rule: number_events.induct) simp_all

lemma number_events_seq: "j < length es \<Longrightarrow> wv_seq (number_events clk n es ! j) = n + 1 + int j"
  by (induction clk n es arbitrary: j rule: number_events.induct) (auto simp: nth_Cons split: nat.split)

lemma number_events_length [simp]: "length (number_events clk n es) = length es"
  by (induction clk n es rule: number_events.induct) simp_all

text \<open>Events and changes: an identity has an event exactly when its row changed, with the kind of the change.\<close>

lemma item_events_changes:
  fixes keys :: "string list"
  assumes d: "distinct (map fst (dd_items db))" and rd: "distinct (map fst rows)"
  defines "es \<equiv> item_events (upserted rows db) (removed keys rows db)"
  shows "distinct (map fst es)"
    and "i \<in> fst ` set es \<longleftrightarrow> \<not> rel_option same_item (map_of (dd_items db) i) (map_of (applied_items keys rows db) i)"
    and "e \<in> set es \<Longrightarrow> fst (snd e) = (if map_of (applied_items keys rows db) (fst e) = None then WorkItemRemovedKind else WorkItemChangedKind)"
proof -
  have up: "i \<in> fst ` set (upserted rows db) \<longleftrightarrow> (\<exists>r. map_of rows i = Some r \<and> (\<forall>old. map_of (dd_items db) i = Some old \<longrightarrow> \<not> same_item old r))" for i
    using rd by (auto simp: upserted_def image_iff split: option.splits dest: map_of_SomeD)
  have rm: "i \<in> fst ` set (removed keys rows db) \<longleftrightarrow>
      map_of rows i = None \<and> (\<exists>old. map_of (dd_items db) i = Some old \<and> wi_scope old \<in> set keys)" for i
    using d by (auto simp: removed_def image_iff map_of_eq_None_iff dest: map_of_SomeD)
  note look = applied_items_lookup [OF d rd, of keys]
  have es: "set es = (\<lambda>(i, r). (i, WorkItemChangedKind, wi_scope r)) ` set (upserted rows db) \<union>
      (\<lambda>(i, r). (i, WorkItemRemovedKind, wi_scope r)) ` set (removed keys rows db)"
    by (simp add: es_def item_events_def)
  have refl: "same_item a a" for a :: "'a work_item_row" by (simp add: same_item_def)
  have "distinct (map fst (upserted rows db))" "distinct (map fst (removed keys rows db))"
    using d rd by (simp_all add: upserted_def removed_def distinct_filter_fst)
  moreover have "fst ` set (upserted rows db) \<inter> fst ` set (removed keys rows db) = {}" unfolding disjoint_iff up rm by auto
  ultimately show "distinct (map fst es)"
    by (simp add: es_def item_events_def distinct_map_sort_key comp_def case_prod_beta' image_image)
  have ids: "fst ` set es = fst ` set (upserted rows db) \<union> fst ` set (removed keys rows db)"
    by (simp add: es image_Un image_image case_prod_beta')
  show "i \<in> fst ` set es \<longleftrightarrow> \<not> rel_option same_item (map_of (dd_items db) i) (map_of (applied_items keys rows db) i)"
    unfolding ids Un_iff up rm look using refl by (auto split: option.splits)
  show "fst (snd e) = (if map_of (applied_items keys rows db) (fst e) = None then WorkItemRemovedKind else WorkItemChangedKind)" if "e \<in> set es"
  proof -
    from that es consider x where "x \<in> set (upserted rows db)" "fst e = fst x" "fst (snd e) = WorkItemChangedKind"
      | x where "x \<in> set (removed keys rows db)" "fst e = fst x" "fst (snd e) = WorkItemRemovedKind" by force
    then show ?thesis
    proof cases
      case 1
      then have "fst e \<in> fst ` set (upserted rows db)" by simp
      then obtain r where "map_of rows (fst e) = Some r" unfolding up by blast
      with 1(3) show ?thesis by (simp add: look)
    next
      case 2
      then have "fst e \<in> fst ` set (removed keys rows db)" by simp
      then have "map_of (applied_items keys rows db) (fst e) = None" unfolding rm look by auto
      with 2(3) show ?thesis by simp
    qed
  qed
qed

lemma finish_pass_events:
  assumes "finish_pass env svc ks items db = Inr db'"
  shows "\<exists>rows es. input_rows (dn_clk env) (sort_key ow_identity items) = Some rows \<and> dd_items db' = applied_items ks rows db \<and>
    dd_events db' = dd_events db @ es \<and> rc_seq (dd_cache db') = rc_seq (dd_cache db) + int (length es) \<and>
    es = number_events (dn_eclk env) (rc_seq (dd_cache db)) (item_events (upserted rows db) (removed ks rows db))"
  using assms
  by (auto simp: finish_pass_def recordHeartbeat_def ApplyDerivedWorkItemBatch_def ClearDerivationDirtyScopes_def applied_items_def Let_def
      split: sum.splits option.splits)

text \<open>A pass publishes exactly what it changed: its events have the next consecutive sequence numbers, no identity
  has two, an identity has one exactly when its scope, organisation or payload changed, and the event
  says removed exactly when the work item is gone.\<close>

theorem pass_publishes_changes:
  assumes "finish_pass env svc ks items db = Inr db'" and "distinct (map fst (dd_items db))" and "distinct (map ow_identity items)"
  shows "\<exists>es. dd_events db' = dd_events db @ es \<and> rc_seq (dd_cache db') = rc_seq (dd_cache db) + int (length es) \<and>
    (\<forall>j < length es. wv_seq (es ! j) = rc_seq (dd_cache db) + 1 + int j) \<and> distinct (map wv_identity es) \<and>
    (\<forall>i. i \<in> wv_identity ` set es \<longleftrightarrow> \<not> rel_option same_item (map_of (dd_items db) i) (map_of (dd_items db') i)) \<and>
    (\<forall>e \<in> set es. wv_kind e = (if map_of (dd_items db') (wv_identity e) = None then WorkItemRemovedKind else WorkItemChangedKind))"
proof -
  obtain rows es where f: "input_rows (dn_clk env) (sort_key ow_identity items) = Some rows" "dd_items db' = applied_items ks rows db"
    "dd_events db' = dd_events db @ es" "rc_seq (dd_cache db') = rc_seq (dd_cache db) + int (length es)"
    "es = number_events (dn_eclk env) (rc_seq (dd_cache db)) (item_events (upserted rows db) (removed ks rows db))"
    using finish_pass_events [OF assms(1)] by blast
  let ?xs = "item_events (upserted rows db) (removed ks rows db)"
  have rd: "distinct (map fst rows)"
    using assms(3) input_rows_Some(1) [OF f(1)] by (simp add: distinct_map_sort_key)
  note c = item_events_changes [OF assms(2) rd, where keys = ks] and n = number_events_fields [of "dn_eclk env" "rc_seq (dd_cache db)" ?xs]
  have ids: "wv_identity ` set es = fst ` set ?xs" using n(1) f(5) by (metis image_set)
  have kinds: "wv_kind e = (if map_of (dd_items db') (wv_identity e) = None then WorkItemRemovedKind else WorkItemChangedKind)" if "e \<in> set es" for e
  proof -
    from that obtain j where j: "j < length ?xs" "e = es ! j" by (auto simp: in_set_conv_nth f(5))
    have "wv_kind e = fst (snd (?xs ! j))" "wv_identity e = fst (?xs ! j)"
      using j n f(5) by (metis (no_types, lifting) comp_apply nth_map number_events_length, metis nth_map number_events_length)
    with c(3) [of "?xs ! j"] j(1) f(2) show ?thesis by simp
  qed
  have "distinct (map wv_identity es)" using c(1) n(1) f(5) by simp
  moreover have "i \<in> wv_identity ` set es \<longleftrightarrow> \<not> rel_option same_item (map_of (dd_items db) i) (map_of (dd_items db') i)" for i
    unfolding ids f(2) by (rule c(2))
  moreover have "\<forall>j < length es. wv_seq (es ! j) = rc_seq (dd_cache db) + 1 + int j"
    using number_events_seq f(5) by fastforce
  ultimately show ?thesis using f(3,4) kinds by blast
qed

theorem pass_publishes_changes_witness:
  "\<exists>db' es. finish_pass demo_derive_env demo_derive_opts [''pr:5:9:7'']
       [\<lparr>ow_scope = ''pr:5:9:7'', ow_identity = ''repo:9:pr:7'', ow_org = 6, ow_payload = Jsonb [''a1'']\<rparr>] demo_derive_db = Inr db' \<and>
     dd_events db' = es \<and> ''repo:9:pr:7'' \<in> wv_identity ` set es"
proof -
  let ?items = "[\<lparr>ow_scope = ''pr:5:9:7'', ow_identity = ''repo:9:pr:7'', ow_org = 6, ow_payload = Jsonb [''a1'']\<rparr>]"
  have "case finish_pass demo_derive_env demo_derive_opts [''pr:5:9:7''] ?items demo_derive_db of
      Inl _ \<Rightarrow> False | Inr db' \<Rightarrow> map_of (dd_items db') ''repo:9:pr:7'' \<noteq> None"
    by code_simp
  then obtain db' where f: "finish_pass demo_derive_env demo_derive_opts [''pr:5:9:7''] ?items demo_derive_db = Inr db'"
    and m: "map_of (dd_items db') ''repo:9:pr:7'' \<noteq> None" by (auto split: sum.splits)
  have db: "dd_items demo_derive_db = []" "dd_events demo_derive_db = []" by (simp_all add: demo_derive_db_def)
  from pass_publishes_changes [OF f] db m show ?thesis using f by auto
qed

section \<open>A repository that changes its installation\<close>

text \<open>
  \<open>applyRepositoryTx\<close> marks the scopes under the new installation only, and a pass removes the items of claimed scope
  keys only: an item of the old scope key stays when its pull request has no item any more.
\<close>

definition moved_db :: "string list derive_db" where
  "moved_db = demo_derive_db\<lparr>dd_items := [(''repo:9:pr:7'', \<lparr>wi_scope = ''pr:5:9:7'', wi_org = 6, wi_payload = [''a1''], wi_updatedAt = 50\<rparr>)],
     dd_cache := (dd_cache demo_derive_db)\<lparr>rc_dirty := []\<rparr>\<rparr>"

lemma old_installation_items_stay:
  "case applyRepositoryTx (\<lambda>_. None) (demo_repository\<lparr>rd_installation := 8\<rparr>) ''webhook'' [] 90 (dd_cache moved_db) of
     Inl _ \<Rightarrow> False
   | Inr (c', row, applied) \<Rightarrow>
       map fst (rc_dirty c') = [''pr:8:9:7''] \<and>
       (case runOnce NoopDeriver demo_derive_env demo_derive_opts (moved_db\<lparr>dd_cache := c'\<rparr>) of
          (db', res) \<Rightarrow> res = Inr 1 \<and> rc_dirty (dd_cache db') = [] \<and> map fst (dd_items db') = [''repo:9:pr:7''])"
  by code_simp

end
