(* ===== verification/Derive_Drain.thy ===== *)
theory Derive_Drain
  imports Derive_Runs
begin

text \<open>
  The service's loop drains the dirty set: for a deriver whose results validate, undisturbed passes succeed, each
  clears up to a full batch, and once nothing is marked the work items agree with the cache everywhere.
\<close>

section \<open>Results that validate\<close>

locale valid_deriver = scope_deriver +
  assumes identity: "parseScope (zs_key s) = Inr p \<Longrightarrow> it \<in> set (scope_items derive s) \<Longrightarrow> it_identity it = identityForScope p"
    and storable: "it \<in> set (scope_items derive s) \<Longrightarrow> \<exists>v. it_payload it = Jsonb v"
    and at_most_one: "length (scope_items derive s) \<le> 1"

interpretation noop_valid: valid_deriver NoopDeriver
  by unfold_locales (simp_all add: scope_items_def NoopDeriver_def)

lemma identity_nonempty: "identityForScope p \<noteq> []"
  by (simp add: identityForScope_def StackIdentity_def PullRequestIdentity_def)

lemma short_list_cases: "length xs \<le> 1 \<Longrightarrow> xs = [] \<or> (\<exists>x. xs = [x])"
  by (cases xs) auto

context valid_deriver
begin

lemma validate_items_ok:
  assumes "parseScope (zs_key s) = Inr p" and "it_identity ` set (scope_items derive s) \<inter> set seen = {}"
  shows "validate_items (zs_key s) (zs_org s) (identityForScope p) seen (scope_items derive s) = Inr (map (own_item (zs_key s)) (scope_items derive s))"
  using short_list_cases [OF at_most_one [of s]]
proof (elim disjE exE)
  fix it
  assume it: "scope_items derive s = [it]"
  then have m: "it \<in> set (scope_items derive s)" by simp
  obtain v where "it_payload it = Jsonb v" using storable [OF m] by blast
  with identity [OF assms(1) m] own_org [OF m] assms(2) identity_nonempty [of p] show ?thesis
    by (simp add: it item_error_def)
qed simp

lemma validate_results_ok:
  assumes "\<And>s. s \<in> set ss \<Longrightarrow> map_of claimed (zs_key s) = Some s \<and> (\<exists>p. parseScope (zs_key s) = Inr p)"
    and "distinct (map zs_key ss)" and "zs_key ` set ss \<inter> set seen = {}"
    and "\<And>s t x y. s \<in> set ss \<Longrightarrow> t \<in> set ss \<Longrightarrow> x \<in> set (scope_items derive s) \<Longrightarrow> y \<in> set (scope_items derive t) \<Longrightarrow>
      it_identity x = it_identity y \<Longrightarrow> s = t"
    and "\<And>s x. s \<in> set ss \<Longrightarrow> x \<in> set (scope_items derive s) \<Longrightarrow> it_identity x \<notin> set seenItems"
  shows "\<exists>os. validate_results claimed seen seenItems (map (\<lambda>s. \<lparr>sz_key = zs_key s, sz_items = scope_items derive s\<rparr>) ss) =
    Inr (rev (map zs_key ss) @ seen, os)"
  using assms
proof (induction ss arbitrary: seen seenItems)
  case (Cons s ss)
  obtain p where p: "map_of claimed (zs_key s) = Some s" "parseScope (zs_key s) = Inr p" using Cons.prems(1) [of s] by auto
  have "it_identity ` set (scope_items derive s) \<inter> set seenItems = {}" using Cons.prems(5) [of s] by auto
  note v = validate_items_ok [OF p(2) this]
  let ?seenItems = "map ow_identity (map (own_item (zs_key s)) (scope_items derive s)) @ seenItems"
  have fresh: "it_identity x \<notin> set ?seenItems" if t: "t \<in> set ss" "x \<in> set (scope_items derive t)" for t x
  proof -
    have "s \<noteq> t" using Cons.prems(2) t(1) by auto
    then have "it_identity x \<noteq> it_identity y" if "y \<in> set (scope_items derive s)" for y
      using Cons.prems(4) [of s t y x] t that by auto
    with Cons.prems(5) [of t x] t show ?thesis by auto
  qed
  have "\<exists>os. validate_results claimed (zs_key s # seen) ?seenItems
      (map (\<lambda>s. \<lparr>sz_key = zs_key s, sz_items = scope_items derive s\<rparr>) ss) = Inr (rev (map zs_key ss) @ zs_key s # seen, os)"
  proof (rule Cons.IH)
    show "distinct (map zs_key ss)" "zs_key ` set ss \<inter> set (zs_key s # seen) = {}" using Cons.prems(2,3) by auto
    show "map_of claimed (zs_key t) = Some t \<and> (\<exists>p. parseScope (zs_key t) = Inr p)" if "t \<in> set ss" for t
      using Cons.prems(1) that by simp
    show "t = u" if "t \<in> set ss" "u \<in> set ss" "x \<in> set (scope_items derive t)" "y \<in> set (scope_items derive u)"
      "it_identity x = it_identity y" for t u x y
      using Cons.prems(4) [of t u x y] that by simp
  qed (rule fresh)
  then obtain os where "validate_results claimed (zs_key s # seen) ?seenItems
      (map (\<lambda>s. \<lparr>sz_key = zs_key s, sz_items = scope_items derive s\<rparr>) ss) = Inr (rev (map zs_key ss) @ zs_key s # seen, os)" by blast
  with v p Cons.prems(3) show ?case by auto
qed simp

end

section \<open>An undisturbed pass\<close>

definition quiet :: "'v derive_env \<Rightarrow> bool" where
  "quiet env = (dn_fence env = None \<and> dn_locked env = (\<lambda>_. False) \<and> dn_beforeLoad env = id \<and> dn_beforeApply env = id \<and> dn_hook env = (\<lambda>_. None))"

definition derive_options_ok :: "DeriveOptions \<Rightarrow> bool" where
  "derive_options_ok svc = (0 < do_dirtyCap svc \<and> do_dirtyCap svc < 2 ^ 31 \<and> 0 < do_installationID svc)"

text \<open>The marks: one per scope key of the store, with a number that fits the query's cast.\<close>

definition marks_ok :: "'v derive_db \<Rightarrow> bool" where
  "marks_ok db = (distinct (map fst (rc_dirty (dd_cache db))) \<and> distinct (map rr_ghID (rc_repos (dd_cache db))) \<and>
     (\<forall>k \<in> dirty_keys db. \<exists>p. scope_ok p \<and> k = scope_key p \<and> pa_number p < 2 ^ 31))"

lemma parse_scopes_ok:
  assumes "\<And>k. k \<in> set ks \<Longrightarrow> \<exists>p. parseScope k = Inr p"
  shows "parse_scopes ks = Inr (map (\<lambda>k. projr (parseScope k)) ks)"
  using assms by (induction ks) (force split: sum.splits)+

lemma claim_quiet:
  assumes "marks_ok db" and "0 < cap"
  shows "\<exists>ks. ClaimDerivationDirtyScopes (\<lambda>_. False) cap db = Inr ks \<and> set ks \<subseteq> dirty_keys db \<and> distinct ks \<and>
    length ks = min (nat cap) (length (rc_dirty (dd_cache db)))"
proof -
  let ?all = "map fst (sort_key snd (sort_key fst (rc_dirty (dd_cache db))))"
  have "distinct ?all" using assms(1) by (simp add: marks_ok_def distinct_map_sort_key)
  moreover have "set ?all = dirty_keys db" by (simp add: dirty_keys_def)
  ultimately show ?thesis
    using assms(2) by (auto simp: ClaimDerivationDirtyScopes_def dest: in_set_takeD)
qed

lemma input_rows_ok: "\<forall>x \<in> set items. \<exists>v. ow_payload x = Jsonb v \<Longrightarrow> \<exists>rows. input_rows clk items = Some rows"
  by (induction items) auto

lemma after_sequences_quiet: "after_sequences (\<lambda>_. None) ns = None"
  by (induction ns) auto

lemma length_filter_keys:
  assumes "distinct (map fst xs)" and "distinct ks" and "set ks \<subseteq> fst ` set xs" and "length ks = n"
  shows "length (filter (\<lambda>(k, t). k \<notin> set ks) xs) = length xs - n"
proof -
  have "length (filter (\<lambda>(k, t). k \<in> set ks) xs) = card (fst ` set (filter (\<lambda>(k, t). k \<in> set ks) xs))"
    using distinct_filter_fst [OF assms(1)] by (metis (no_types, lifting) distinct_card image_set length_map)
  also have "fst ` set (filter (\<lambda>(k, t). k \<in> set ks) xs) = set ks" using assms(3) by force
  finally have "length (filter (\<lambda>(k, t). k \<in> set ks) xs) = n" using assms(2,4) by (simp add: distinct_card)
  moreover have "length (filter (\<lambda>(k, t). k \<in> set ks) xs) + length (filter (\<lambda>x. \<not> (\<lambda>(k, t). k \<in> set ks) x) xs) = length xs"
    by (rule sum_length_filter_compl)
  moreover have "filter (\<lambda>x. \<not> (\<lambda>(k, t). k \<in> set ks) x) xs = filter (\<lambda>(k, t). k \<notin> set ks) xs"
    by (rule filter_cong) auto
  ultimately show ?thesis by simp
qed

context valid_deriver
begin

lemma load_validates:
  fixes db :: "'a derive_db"
  assumes m: "marks_ok db" and ks: "set ks \<subseteq> dirty_keys db" "distinct ks"
  shows "\<exists>scopes items. Load ks db = Inr scopes \<and> validateScopeResults scopes (derive scopes) = Inr items \<and>
    (\<forall>x \<in> set items. \<exists>v. ow_payload x = Jsonb v)"
proof -
  define scope where "scope k = load_scope db (projr (parseScope k))" for k
  have keys: "\<exists>p. scope_ok p \<and> k = scope_key p \<and> pa_number p < 2 ^ 31" if "k \<in> set ks" for k
    using m ks(1) that by (auto simp: marks_ok_def)
  have parse: "\<exists>p. parseScope k = Inr p \<and> scope_ok p \<and> pa_number p < 2 ^ 31 \<and> k = scope_key p" if "k \<in> set ks" for k
    using keys [OF that] parse_scope_key by blast
  have key: "zs_key (scope k) = k" if "k \<in> set ks" for k
    using parse [OF that] by (auto simp: scope_def load_scope_key parseScope_key)
  let ?ss = "sort_key zs_key (map scope ks)"
  have load: "Load ks db = Inr ?ss"
  proof -
    have "parse_scopes ks = Inr (map (\<lambda>k. projr (parseScope k)) ks)" by (rule parse_scopes_ok) (use parse in blast)
    moreover have "\<not> 2 ^ 31 \<le> pa_number (projr (parseScope k))" if "k \<in> set ks" for k using parse [OF that] by auto
    ultimately show ?thesis by (auto simp: Load_def LoadDerivationSnapshot_def scope_def [abs_def] list_ex_iff comp_def)
  qed
  have "map zs_key (map scope ks) = ks" using key by (simp add: map_idI)
  then have d: "distinct (map zs_key ?ss)" by (simp only: distinct_map_sort_key ks(2))
  have same: "s = t" if st: "s \<in> set ?ss" "t \<in> set ?ss" and xy: "x \<in> set (scope_items derive s)" "y \<in> set (scope_items derive t)"
    "it_identity x = it_identity y" for s t x y
  proof -
    obtain k l where k: "k \<in> set ks" "s = scope k" and l: "l \<in> set ks" "t = scope l" using st by auto
    from parse [OF k(1)] obtain p where p: "parseScope k = Inr p" "scope_ok p" "k = scope_key p" by blast
    from parse [OF l(1)] obtain q where q: "parseScope l = Inr q" "scope_ok q" "l = scope_key q" by blast
    have "identityForScope p = identityForScope q"
      using identity [of s p x] identity [of t q y] key [OF k(1)] key [OF l(1)] k l p q xy by simp
    moreover have "derived derive db (scope_key p) \<noteq> []" "derived derive db (scope_key q) \<noteq> []"
      using xy k(2) l(2) p q by (auto simp: derived_scope_items scope_def)
    ultimately have "scope_key p = scope_key q" using identity_scope [OF p(2) q(2)] m by (simp add: marks_ok_def)
    with k l p q show ?thesis by simp
  qed
  have claimed: "map_of (rev (map (\<lambda>s. (zs_key s, s)) ?ss)) (zs_key s) = Some s" if "s \<in> set ?ss" for s
    using that d by (intro map_of_is_SomeI) (auto simp: comp_def rev_map [symmetric])
  have "\<exists>os. validate_results (rev (map (\<lambda>s. (zs_key s, s)) ?ss)) [] [] (derive ?ss) = Inr (rev (map zs_key ?ss) @ [], os)"
    unfolding per_scope [of ?ss]
  proof (rule validate_results_ok)
    show "s = t" if "s \<in> set ?ss" "t \<in> set ?ss" "x \<in> set (scope_items derive s)" "y \<in> set (scope_items derive t)"
      "it_identity x = it_identity y" for s t x y using that by (rule same)
    show "map_of (rev (map (\<lambda>s. (zs_key s, s)) ?ss)) (zs_key s) = Some s \<and> (\<exists>p. parseScope (zs_key s) = Inr p)" if "s \<in> set ?ss" for s
      using claimed [OF that] that parse key by fastforce
  qed (use d in simp_all)
  then obtain items where v: "validateScopeResults ?ss (derive ?ss) = Inr items"
    by (auto simp: validateScopeResults_def Let_def list_all_iff)
  have "\<exists>v. ow_payload x = Jsonb v" if "x \<in> set items" for x
    using that storable unfolding validated(1) [OF v] owned_results_iff per_scope [of ?ss] by fastforce
  with load v show ?thesis by blast
qed

lemma quiet_pass_succeeds:
  assumes m: "marks_ok db" and q: "quiet env" and ok: "derive_options_ok svc"
  defines "n \<equiv> min (nat (do_dirtyCap svc)) (length (rc_dirty (dd_cache db)))"
  shows "\<exists>db'. runOnce derive env svc db = (db', Inr n) \<and> marks_ok db' \<and> length (rc_dirty (dd_cache db')) = length (rc_dirty (dd_cache db)) - n"
proof -
  have cap: "wrap32 (do_dirtyCap svc) = do_dirtyCap svc" using ok by (intro wrap32_id) (auto simp: derive_options_ok_def)
  obtain ks where ks: "ClaimDerivationDirtyScopes (\<lambda>_. False) (do_dirtyCap svc) db = Inr ks" "set ks \<subseteq> dirty_keys db" "distinct ks" "length ks = n"
    using claim_quiet [OF m, of "do_dirtyCap svc"] ok by (auto simp: derive_options_ok_def n_def)
  have beat: "\<exists>rows. recordHeartbeat now svc (int k) d = Inr (d\<lparr>dd_heartbeats := rows\<rparr>)" for now k and d :: "'a derive_db"
    using ok by (auto simp: recordHeartbeat_def RecordSuccessN_def derive_options_ok_def)
  show ?thesis
  proof (cases "ks = []")
    case True
    obtain rows where "recordHeartbeat (dn_now env) svc 0 db = Inr (db\<lparr>dd_heartbeats := rows\<rparr>)" using beat [of "dn_now env" 0 db] by auto
    with q ks True cap m show ?thesis by (auto simp: runOnce_def quiet_def marks_ok_def dirty_keys_def)
  next
    case False
    obtain scopes items where l: "Load ks db = Inr scopes" "validateScopeResults scopes (derive scopes) = Inr items"
      "\<forall>x \<in> set items. \<exists>v. ow_payload x = Jsonb v" using load_validates [OF m ks(2,3)] by blast
    obtain rows where r: "input_rows (dn_clk env) (sort_key ow_identity items) = Some rows" using input_rows_ok [of "sort_key ow_identity items"] l(3) by auto
    obtain db1 seqs where a: "ApplyDerivedWorkItemBatch (dn_clk env) (dn_eclk env) ks (sort_key ow_identity items) db = Inr (db1, seqs)"
      and c: "rc_dirty (dd_cache db1) = rc_dirty (dd_cache db)" "rc_repos (dd_cache db1) = rc_repos (dd_cache db)"
      using r by (simp add: ApplyDerivedWorkItemBatch_def Let_def)
    obtain beats where b: "recordHeartbeat (dn_now env) svc (int (length ks)) (ClearDerivationDirtyScopes ks db1) =
        Inr ((ClearDerivationDirtyScopes ks db1)\<lparr>dd_heartbeats := beats\<rparr>)" using beat by blast
    let ?db' = "(ClearDerivationDirtyScopes ks db1)\<lparr>dd_heartbeats := beats\<rparr>"
    have run: "runOnce derive env svc db = (?db', Inr n)"
      using q ks False cap l a b by (simp add: runOnce_def quiet_def finish_pass_def after_sequences_quiet)
    have dirty: "rc_dirty (dd_cache ?db') = filter (\<lambda>(k, t). k \<notin> set ks) (rc_dirty (dd_cache db))"
      by (simp add: ClearDerivationDirtyScopes_def c)
    have "length (rc_dirty (dd_cache ?db')) = length (rc_dirty (dd_cache db)) - n"
      unfolding dirty using m ks by (intro length_filter_keys) (auto simp: marks_ok_def dirty_keys_def)
    moreover have "marks_ok ?db'"
      using m dirty by (auto simp: marks_ok_def dirty_keys_def distinct_filter_fst ClearDerivationDirtyScopes_def c)
    ultimately show ?thesis using run by blast
  qed
qed

end

section \<open>Draining\<close>

definition live_turn :: "derive_turn_env \<Rightarrow> bool" where
  "live_turn t = (\<not> tu_ctxDone t \<and> \<not> tu_ctxDoneLater t \<and> tu_pollElapsed t)"

lemma live_turn_goes_on: "live_turn t \<Longrightarrow> \<exists>st'. derive_turn svc t (Inr n) st = Again st'"
  by (auto simp: derive_turn_def connect_deriver_def live_turn_def split: option.splits listen_wait.splits)

lemma quiet_respects: "quiet env \<Longrightarrow> respects_locks derive env Map.empty"
  by (auto simp: respects_locks_def quiet_def locked_by_def)

context valid_deriver
begin

lemma loop_drains:
  assumes "marks_ok db" and "derive_options_ok svc" and "\<forall>(env, t) \<in> set turns. quiet env \<and> live_turn t"
    and "int (length (rc_dirty (dd_cache db))) \<le> int (length turns) * do_dirtyCap svc"
  shows "\<exists>db'. derive_loop derive svc turns st db = (db', None) \<and> rc_dirty (dd_cache db') = [] \<and>
    (derive_step derive)\<^sup>*\<^sup>* \<lparr>dy_db = db, dy_passes = Map.empty\<rparr> \<lparr>dy_db = db', dy_passes = Map.empty\<rparr>"
  using assms(1,3,4)
proof (induction turns arbitrary: st db)
  case (Cons x turns)
  obtain env t where x: "x = (env, t)" by force
  with Cons.prems have q: "quiet env" "live_turn t" by auto
  let ?n = "min (nat (do_dirtyCap svc)) (length (rc_dirty (dd_cache db)))"
  obtain db1 where r: "runOnce derive env svc db = (db1, Inr ?n)" "marks_ok db1"
    "length (rc_dirty (dd_cache db1)) = length (rc_dirty (dd_cache db)) - ?n"
    using quiet_pass_succeeds [OF Cons.prems(1) q(1) assms(2)] by blast
  obtain st' where st': "derive_turn svc t (Inr ?n) st = Again st'" using live_turn_goes_on [OF q(2)] by blast
  have "int (length (rc_dirty (dd_cache db1))) \<le> int (length turns) * do_dirtyCap svc"
  proof -
    have "0 \<le> do_dirtyCap svc * int (length turns)" using assms(2) by (simp add: derive_options_ok_def)
    then show ?thesis using r(3) Cons.prems(3) assms(2) by (simp add: derive_options_ok_def algebra_simps min_def)
  qed
  with Cons.IH [of db1 st'] r(2) Cons.prems(2) obtain db' where IH: "derive_loop derive svc turns st' db1 = (db', None)"
    "rc_dirty (dd_cache db') = []" "(derive_step derive)\<^sup>*\<^sup>* \<lparr>dy_db = db1, dy_passes = Map.empty\<rparr> \<lparr>dy_db = db', dy_passes = Map.empty\<rparr>"
    by (auto simp: x)
  have "(derive_step derive)\<^sup>*\<^sup>* \<lparr>dy_db = db, dy_passes = Map.empty\<rparr> \<lparr>dy_db = db1, dy_passes = Map.empty\<rparr>"
    using run_once_is_steps [of "\<lparr>dy_db = db, dy_passes = Map.empty\<rparr>" 0 derive env svc] quiet_respects [OF q(1)] Cons.prems(1) r(1)
    by (simp add: marks_ok_def)
  with IH r st' show ?case by (auto simp: x intro: rtranclp_trans)
qed simp

end

text \<open>C17: The deriver catches up: from a database without work items, undisturbed passes of the service's loop, enough
  of them for the number of marks, clear every mark whatever the listener does, and then the work items
  of every scope are the ones derived from the cache. The default deriver is one of those this holds for.\<close>

theorem deriver_catches_up:
  assumes "valid_deriver derive" and "derive_start derive db" and "marks_ok db" and "derive_options_ok svc"
    and "\<forall>(env, t) \<in> set turns. quiet env \<and> live_turn t"
    and "int (length (rc_dirty (dd_cache db))) \<le> int (length turns) * do_dirtyCap svc"
  shows "\<exists>db'. Run_deriver derive svc turns db = (db', None) \<and> rc_dirty (dd_cache db') = [] \<and>
    (\<forall>k. items_of db' k = expected_items derive db' k)"
proof -
  obtain db' where r: "Run_deriver derive svc turns db = (db', None)" "rc_dirty (dd_cache db') = []"
    "(derive_step derive)\<^sup>*\<^sup>* \<lparr>dy_db = db, dy_passes = Map.empty\<rparr> \<lparr>dy_db = db', dy_passes = Map.empty\<rparr>"
    using valid_deriver.loop_drains [OF assms(1,3-6)] unfolding Run_deriver_def by blast
  have "scope_deriver derive" using assms(1) by (simp add: valid_deriver_def)
  note inv = scope_deriver.derive_inv_steps [OF this r(3) derive_inv_start [OF assms(2)]]
  have "items_of db' k = expected_items derive db' k" for k
    using derive_invD(7) [OF inv, of k] r(2) by (simp add: dirty_keys_def)
  with r show ?thesis by blast
qed

lemma demo_valid_deriver: "valid_deriver demo_deriver"
  unfolding valid_deriver_def valid_deriver_axioms_def
  using demo_scope_deriver by (auto simp: demo_scope_items demo_items_def)

lemma demo_marks: "marks_ok demo_derive_db"
  unfolding marks_ok_def
proof (intro conjI ballI)
  fix k
  assume "k \<in> dirty_keys demo_derive_db"
  then have "k = ''pr:5:9:7''" by (simp add: dirty_keys_def demo_derive_db_def)
  then show "\<exists>p. scope_ok p \<and> k = scope_key p \<and> pa_number p < 2 ^ 31"
    by (intro exI [of _ "\<lparr>pa_key = ''pr:5:9:7'', pa_kind = ''pr'', pa_installation = 5, pa_repository = 9, pa_number = 7\<rparr>"])
      (simp add: scope_ok_def scope_key_def demo_key)
qed (simp_all add: demo_derive_db_def demo_repository_cache_def)

definition demo_turn :: derive_turn_env where
  "demo_turn = \<lparr>tu_ctxDone = False, tu_ctxDoneLater = False, tu_now = 100, tu_later = 101, tu_connect = False, tu_wait = PollElapsed,
     tu_pollElapsed = True\<rparr>"

theorem deriver_catches_up_witness:
  "\<exists>db'. Run_deriver demo_deriver demo_derive_opts [(demo_derive_env, demo_turn)] demo_derive_db = (db', None) \<and>
     rc_dirty (dd_cache db') = [] \<and> (\<forall>k. items_of db' k = expected_items demo_deriver db' k)"
proof (rule deriver_catches_up [OF demo_valid_deriver demo_derive_start demo_marks])
  show "derive_options_ok demo_derive_opts" by (simp add: derive_options_ok_def demo_derive_opts_def)
  show "\<forall>(env, t) \<in> set [(demo_derive_env, demo_turn)]. quiet env \<and> live_turn t"
    by (simp add: quiet_def live_turn_def demo_derive_env_def demo_turn_def)
  show "int (length (rc_dirty (dd_cache demo_derive_db))) \<le> int (length [(demo_derive_env, demo_turn)]) * do_dirtyCap demo_derive_opts"
    by (simp add: demo_derive_db_def demo_derive_opts_def)
qed

end
