(* ===== verification/Change_Stream.thy ===== *)
theory Change_Stream
  imports Heartbeat
begin

text \<open>
  The producing side of the change stream: the writer fence and the event table of
  \<open>src/internal/outbox/outbox.go\<close>, the watermarker of \<open>src/internal/stream/watermark.go\<close>, retention of
  \<open>src/internal/stream/retention.go\<close>, with the statements of \<open>src/db/queries/stream.sql\<close> and the sequence
  and trigger of \<open>src/db/migrations\<close>.

  A change event gets its sequence number when it is inserted and becomes visible when its
  transaction commits, in any order. Writers hold the shared side of an advisory lock from before the
  insert to the end of the transaction; the watermarker reads the greatest committed sequence while it
  holds the exclusive side. Every \<open>clock_timestamp()\<close> is an argument.
\<close>

section \<open>Tables\<close>

record Event =
  ev_seq :: int
  ev_stream :: string
  ev_kind :: string
  ev_entityKey :: string
  ev_occurredAt :: gotime
  ev_payload :: string

record watermark_row =
  wm_safeSeq :: int
  wm_candidateSeq :: "int option"
  wm_candidateXid :: "int option"
  wm_leaseToken :: "string option"
  wm_leaseUntil :: "gotime option"
  wm_updatedAt :: gotime

record horizon_row =
  hz_prunedThrough :: int
  hz_updatedAt :: gotime

text \<open>\<open>cc_version\<close> identifies the row version: every write of the row makes a new one.\<close>

record cursor_row =
  cc_seq :: int
  cc_updatedAt :: gotime
  cc_resyncCount :: int
  cc_lastResyncAt :: "gotime option"
  cc_version :: nat

type_synonym cursor_key = "string \<times> string"

text \<open>\<open>sd_seq\<close> is the last value of the sequence \<open>change_events_seq_seq\<close>; sequences are not transactional.\<close>

record stream_db =
  sd_events :: "Event list"
  sd_seq :: int
  sd_watermark :: watermark_row
  sd_horizons :: "(string \<times> horizon_row) list"
  sd_cursors :: "(cursor_key \<times> cursor_row) list"
  sd_heartbeats :: heartbeats

definition EntitiesStream :: string where "EntitiesStream = ''entities''"
definition WorkItemsStream :: string where "WorkItemsStream = ''work_items''"

section \<open>The outbox fence\<close>

text \<open>
  Holders of the advisory lock, by transaction. \<open>None\<close> means that the request waits: it is granted
  later, or refused with a lock timeout, in a state where it still waits.
\<close>

record outbox_fence =
  fn_shared :: "nat list"
  fn_exclusive :: "nat option"

definition AcquireWriterFence :: "nat \<Rightarrow> outbox_fence \<Rightarrow> outbox_fence option" where
  "AcquireWriterFence x f =
     (if fn_exclusive f \<noteq> None \<and> fn_exclusive f \<noteq> Some x then None
      else Some (f\<lparr>fn_shared := List.insert x (fn_shared f)\<rparr>))"

definition AcquireWatermarkFence :: "nat \<Rightarrow> outbox_fence \<Rightarrow> outbox_fence option" where
  "AcquireWatermarkFence x f =
     (if (fn_exclusive f \<noteq> None \<and> fn_exclusive f \<noteq> Some x) \<or> (\<exists>y \<in> set (fn_shared f). y \<noteq> x) then None
      else Some (f\<lparr>fn_exclusive := Some x\<rparr>))"

definition release_fence :: "nat \<Rightarrow> outbox_fence \<Rightarrow> outbox_fence" where
  "release_fence x f = \<lparr>fn_shared = removeAll x (fn_shared f),
     fn_exclusive = (if fn_exclusive f = Some x then None else fn_exclusive f)\<rparr>"

datatype FenceRole = SharedWriterFence | ExclusiveWatermarkFence

record FenceObservation =
  fo_role :: FenceRole
  fo_wait :: duration
  fo_hold :: duration
  fo_acquired :: bool

text \<open>A transaction with its observer, when there is one; \<open>ot_once\<close> is the \<open>sync.Once\<close>.\<close>

record observedFenceTx =
  ot_observation :: FenceObservation
  ot_acquiredAt :: gotime
  ot_once :: bool

text \<open>
  \<open>err\<close> is what \<open>acquire\<close> returned and the times are the clock before it, after it and at the return;
  the second component lists the observations made.
\<close>

definition acquireObservedFence ::
  "FenceRole \<Rightarrow> bool \<Rightarrow> gotime \<Rightarrow> gotime \<Rightarrow> gotime \<Rightarrow> gerror option \<Rightarrow>
   (gerror + observedFenceTx option) \<times> FenceObservation list" where
  "acquireObservedFence role observer waitStartedAt answeredAt acquiredAt err =
     (if \<not> observer then
        (case err of Some e \<Rightarrow> (Inl e, []) | None \<Rightarrow> (Inr None, []))
      else
        let observation = \<lparr>fo_role = role, fo_wait = answeredAt - waitStartedAt, fo_hold = 0, fo_acquired = (err = None)\<rparr>
        in case err of
             Some e \<Rightarrow> (Inl e, [observation])
           | None \<Rightarrow> (Inr (Some \<lparr>ot_observation = observation, ot_acquiredAt = acquiredAt, ot_once = False\<rparr>), []))"

definition observe :: "gotime \<Rightarrow> observedFenceTx \<Rightarrow> observedFenceTx \<times> FenceObservation list" where
  "observe now tx =
     (if ot_once tx then (tx, [])
      else let ob = (ot_observation tx)\<lparr>fo_hold := now - ot_acquiredAt tx\<rparr>
           in (tx\<lparr>ot_observation := ob, ot_once := True\<rparr>, [ob]))"

text \<open>The calls of \<open>Commit\<close> and \<open>Rollback\<close> on an observed transaction, at these times.\<close>

fun finish_calls :: "gotime list \<Rightarrow> observedFenceTx \<Rightarrow> FenceObservation list" where
  "finish_calls [] tx = []"
| "finish_calls (t # ts) tx = (let (tx', obs) = observe t tx in obs @ finish_calls ts tx')"

section \<open>Inserting events\<close>

text \<open>
  \<open>INSERT INTO change_events\<close> in transaction \<open>x\<close>: the column default takes a sequence number, the
  \<open>BEFORE\<close> trigger wants the shared fence, and the table has three checks. A number taken by a rejected
  row, or by a transaction that rolls back, is never used again.
\<close>

definition insert_change_event ::
  "nat \<Rightarrow> outbox_fence \<Rightarrow> string \<Rightarrow> string \<Rightarrow> string \<Rightarrow> gotime \<Rightarrow> string \<Rightarrow> stream_db \<Rightarrow>
   stream_db \<times> (gerror + Event)" where
  "insert_change_event x f stream kind entity at payload d =
     (if 2 ^ 63 - 1 \<le> sd_seq d then (d, Inl (PgError ''2200H''))
      else let d' = d\<lparr>sd_seq := sd_seq d + 1\<rparr> in
      if x \<notin> set (fn_shared f) then (d', Inl (PgError ''55000''))
      else if stream = [] \<or> kind = [] \<or> entity = [] then (d', Inl (PgError ''23514''))
      else (d', Inr \<lparr>ev_seq = sd_seq d + 1, ev_stream = stream, ev_kind = kind, ev_entityKey = entity,
                     ev_occurredAt = at, ev_payload = payload\<rparr>))"

section \<open>The watermark\<close>

fun max_seq :: "Event list \<Rightarrow> int" where
  "max_seq [] = 0"
| "max_seq [e] = ev_seq e"
| "max_seq (e # e' # es) = max (ev_seq e) (max_seq (e' # es))"

text \<open>\<open>lease_token = token AND lease_until > clock_timestamp()\<close>, unknown counting as false.\<close>

definition lease_valid :: "string \<Rightarrow> gotime \<Rightarrow> watermark_row \<Rightarrow> bool" where
  "lease_valid token now w = (wm_leaseToken w = Some token \<and>
     (case wm_leaseUntil w of None \<Rightarrow> False | Some u \<Rightarrow> now < u))"

definition ReadStreamWatermarkTarget :: "string \<Rightarrow> gotime \<Rightarrow> stream_db \<Rightarrow> int \<times> int \<times> bool" where
  "ReadStreamWatermarkTarget token now d =
     (wm_safeSeq (sd_watermark d), max_seq (sd_events d), lease_valid token now (sd_watermark d))"

definition PublishStreamWatermark :: "int \<Rightarrow> string \<Rightarrow> gotime \<Rightarrow> stream_db \<Rightarrow> (stream_db \<times> int) option" where
  "PublishStreamWatermark target token now d =
     (let w = sd_watermark d in
      if lease_valid token now w \<and> wm_safeSeq w < target
      then Some (d\<lparr>sd_watermark := w\<lparr>wm_safeSeq := target, wm_candidateSeq := None, wm_candidateXid := None,
                                       wm_updatedAt := now\<rparr>\<rparr>, target)
      else None)"

definition AcquireOrRenewStreamWatermarkLease :: "string \<Rightarrow> duration \<Rightarrow> gotime \<Rightarrow> stream_db \<Rightarrow> (stream_db \<times> string) option" where
  "AcquireOrRenewStreamWatermarkLease token ttl now d =
     (let w = sd_watermark d in
      if wm_leaseToken w = None \<or> (case wm_leaseUntil w of None \<Rightarrow> False | Some u \<Rightarrow> u \<le> now) \<or> wm_leaseToken w = Some token
      then Some (d\<lparr>sd_watermark := w\<lparr>wm_leaseToken := Some token, wm_leaseUntil := Some (now + ttl)\<rparr>\<rparr>, token)
      else None)"

definition ReleaseStreamWatermarkLease :: "string \<Rightarrow> stream_db \<Rightarrow> stream_db" where
  "ReleaseStreamWatermarkLease token d =
     (let w = sd_watermark d in
      if wm_leaseToken w = Some token
      then d\<lparr>sd_watermark := w\<lparr>wm_leaseToken := None, wm_leaseUntil := None\<rparr>\<rparr> else d)"

section \<open>The watermarker\<close>

definition defaultWatermarkRefresh :: duration where "defaultWatermarkRefresh = 100 * millisecond"
definition defaultWatermarkLease :: duration where "defaultWatermarkLease = 3 * second"
definition defaultWatermarkFenceLockTimeout :: duration where "defaultWatermarkFenceLockTimeout = second"
definition watermarkHeartbeatInterval :: duration where "watermarkHeartbeatInterval = second"

record WatermarkOptions =
  wo_refreshInterval :: duration
  wo_leaseTTL :: duration
  wo_fenceLockTimeout :: duration
  wo_owner :: string
  wo_installationID :: int

record Watermarker =
  wk_refreshInterval :: duration
  wk_leaseTTL :: duration
  wk_fenceLockTimeout :: duration
  wk_token :: string
  wk_installationID :: int
  wk_lastHeartbeatAt :: gotime

text \<open>\<open>random\<close> is the hexadecimal text of the 32 random bytes, or the error of \<open>rand.Read\<close>; the pool is not nil.\<close>

definition NewWatermarker :: "gerror + string \<Rightarrow> WatermarkOptions \<Rightarrow> gerror + Watermarker" where
  "NewWatermarker random opts =
     (let refresh = (if wo_refreshInterval opts \<le> 0 then defaultWatermarkRefresh else wo_refreshInterval opts);
          ttl = (if wo_leaseTTL opts \<le> 0 then defaultWatermarkLease else wo_leaseTTL opts);
          fence = (if wo_fenceLockTimeout opts = 0 then defaultWatermarkFenceLockTimeout else wo_fenceLockTimeout opts)
      in if fence < 0 then Inl (ErrText ''watermark fence lock timeout must be positive'')
         else if ttl sdiv 2 \<le> refresh then Inl (ErrText ''watermark refresh interval must be less than half the lease TTL'')
         else case random of
           Inl e \<Rightarrow> Inl (ErrWrap ''watermark lease token'' [e])
         | Inr hex \<Rightarrow>
             let owner = (if wo_owner opts = [] then ''ghsync-watermarker'' else wo_owner opts)
             in Inr \<lparr>wk_refreshInterval = refresh, wk_leaseTTL = ttl, wk_fenceLockTimeout = fence,
                      wk_token = owner @ '':'' @ hex, wk_installationID = wo_installationID opts,
                      wk_lastHeartbeatAt = 0\<rparr>)"

record WatermarkProgress =
  wp_safeSeq :: int
  wp_maxSeq :: int
  wp_advanced :: bool
  wp_fenceTimedOut :: bool

definition no_progress :: WatermarkProgress where
  "no_progress = \<lparr>wp_safeSeq = 0, wp_maxSeq = 0, wp_advanced = False, wp_fenceTimedOut = False\<rparr>"

definition is_pg_error :: "gerror \<Rightarrow> bool" where
  "is_pg_error e = (case e of PgError c \<Rightarrow> True | _ \<Rightarrow> False)"

definition pg_code :: "gerror \<Rightarrow> string option" where
  "pg_code e = (case errors_as is_pg_error e of Some (PgError c) \<Rightarrow> Some c | _ \<Rightarrow> None)"

definition isLockTimeout :: "gerror \<Rightarrow> bool" where
  "isLockTimeout e = (pg_code e = Some ''55P03'')"

text \<open>
  \<open>acquireOrRenew\<close> and \<open>release\<close>. \<open>interval\<close> is the server's reading of the text of the TTL.
\<close>

definition acquireOrRenew :: "(duration \<Rightarrow> gerror + duration) \<Rightarrow> gotime \<Rightarrow> Watermarker \<Rightarrow> stream_db \<Rightarrow> stream_db \<times> gerror option" where
  "acquireOrRenew interval now w d =
     (case interval (wk_leaseTTL w) of
        Inl e \<Rightarrow> (d, Some (ErrWrap ''acquire stream watermark lease'' [e]))
      | Inr ttl \<Rightarrow>
          (case AcquireOrRenewStreamWatermarkLease (wk_token w) ttl now d of
             None \<Rightarrow> (d, Some ErrWatermarkLeaseHeld)
           | Some (d', _) \<Rightarrow> (d', None)))"

definition release :: "Watermarker \<Rightarrow> stream_db \<Rightarrow> stream_db" where
  "release w d = ReleaseStreamWatermarkLease (wk_token w) d"

text \<open>
  The fenced transaction of a step, in its two statements: other transactions run between them, only
  writers cannot. \<open>Inl\<close> is a step that ends with a rollback.
\<close>

definition step_read :: "Watermarker \<Rightarrow> gotime \<Rightarrow> stream_db \<Rightarrow> gerror + (int \<times> int)" where
  "step_read w now d =
     (case ReadStreamWatermarkTarget (wk_token w) now d of
        (prior, target, valid) \<Rightarrow> if \<not> valid then Inl ErrWatermarkLeaseHeld else Inr (prior, target))"

definition step_publish :: "Watermarker \<Rightarrow> gotime \<Rightarrow> int \<Rightarrow> int \<Rightarrow> stream_db \<Rightarrow> gerror + (stream_db \<times> WatermarkProgress)" where
  "step_publish w now prior target d =
     (if target \<le> prior then
        Inr (d, \<lparr>wp_safeSeq = prior, wp_maxSeq = target, wp_advanced = False, wp_fenceTimedOut = False\<rparr>)
      else (case PublishStreamWatermark target (wk_token w) now d of
              None \<Rightarrow> Inl ErrWatermarkLeaseHeld
            | Some (d', safe) \<Rightarrow>
                Inr (d', \<lparr>wp_safeSeq = safe, wp_maxSeq = target, wp_advanced = prior < safe, wp_fenceTimedOut = False\<rparr>)))"

definition step_heartbeat :: "gotime \<Rightarrow> gotime \<Rightarrow> Watermarker \<Rightarrow> stream_db \<Rightarrow> stream_db \<times> Watermarker \<times> gerror option" where
  "step_heartbeat heartbeatAt now w d =
     (if 0 < wk_installationID w \<and>
         (isZero (wk_lastHeartbeatAt w) \<or> watermarkHeartbeatInterval \<le> heartbeatAt - wk_lastHeartbeatAt w)
      then (case RecordSuccessN now (wk_installationID w) ''watermarker'' EntitiesStream 1 (sd_heartbeats d) of
              Inl e \<Rightarrow> (d, w, Some (ErrWrap ''record heartbeat after committed stream watermark'' [e]))
            | Inr rows \<Rightarrow> (d\<lparr>sd_heartbeats := rows\<rparr>, w\<lparr>wk_lastHeartbeatAt := heartbeatAt\<rparr>, None))
      else (d, w, None))"

text \<open>
  What a step meets: the clock at each statement, what other transactions do before the fence is
  granted, between the two fenced statements and before the heartbeat, and the server's answer to the two
  lock statements.
\<close>

record watermark_env =
  me_interval :: "duration \<Rightarrow> gerror + duration"
  me_setTimeout :: "duration \<Rightarrow> gerror option"
  me_fence :: "stream_db \<Rightarrow> gerror option"
  me_beforeFence :: "stream_db \<Rightarrow> stream_db"
  me_fenced :: "stream_db \<Rightarrow> stream_db"
  me_afterCommit :: "stream_db \<Rightarrow> stream_db"
  me_now :: "nat \<Rightarrow> gotime"

text \<open>The result has the database, the watermarker, the progress and the error; the list is what the observer got.\<close>

definition Step ::
  "watermark_env \<Rightarrow> Watermarker \<Rightarrow> stream_db \<Rightarrow>
   stream_db \<times> Watermarker \<times> WatermarkProgress \<times> gerror option \<times> WatermarkProgress list" where
  "Step env w d =
     (let (d1, err) = acquireOrRenew (me_interval env) (me_now env 0) w d in
      case err of
        Some e \<Rightarrow> (d1, w, no_progress, Some e, [])
      | None \<Rightarrow>
          let d2 = me_beforeFence env d1 in
          (case me_setTimeout env (wk_fenceLockTimeout w) of
             Some e \<Rightarrow> (d2, w, no_progress, Some (ErrWrap ''set outbox watermark fence timeout'' [e]), [])
           | None \<Rightarrow>
               (case me_fence env d2 of
                  Some e \<Rightarrow>
                    if isLockTimeout e then
                      let p = no_progress\<lparr>wp_fenceTimedOut := True\<rparr> in (d2, w, p, None, [p])
                    else (d2, w, no_progress, Some (ErrWrap ''acquire outbox watermark fence'' [e]), [])
                | None \<Rightarrow>
                    (case step_read w (me_now env 1) d2 of
                       Inl e \<Rightarrow> (d2, w, no_progress, Some e, [])
                     | Inr (prior, target) \<Rightarrow>
                         let d3 = me_fenced env d2 in
                         (case step_publish w (me_now env 2) prior target d3 of
                            Inl e \<Rightarrow> (d3, w, no_progress, Some e, [])
                          | Inr (d4, p) \<Rightarrow>
                              let (d5, w', err) = step_heartbeat (me_now env 3) (me_now env 4) w (me_afterCommit env d4)
                              in (d5, w', p, err, [p]))))))"

text \<open>
  One turn of the loop of \<open>Run\<close>: \<open>None\<close> goes on after the refresh interval, \<open>Some r\<close> returns \<open>r\<close>.
  \<open>Run\<close> then releases the lease.
\<close>

definition run_turn :: "gerror option \<Rightarrow> gerror option option" where
  "run_turn err =
     (case err of
        None \<Rightarrow> None
      | Some e \<Rightarrow>
          if \<not> errors_is e ErrWatermarkLeaseHeld \<and> \<not> errors_is e (ErrContext ''context canceled'') then Some (Some e) else None)"

fun Run_loop :: "watermark_env list \<Rightarrow> Watermarker \<Rightarrow> stream_db \<Rightarrow> stream_db \<times> gerror option" where
  "Run_loop [] w d = (release w d, None)"
| "Run_loop (env # envs) w d =
     (case Step env w d of (d', w', _, err, _) \<Rightarrow>
        (case run_turn err of
           None \<Rightarrow> Run_loop envs w' d'
         | Some r \<Rightarrow> (release w' d', r)))"

section \<open>Retention\<close>

definition minimumRetentionAge :: duration where "minimumRetentionAge = 7 * 24 * 3600 * second"

record RetentionOptions =
  ro_age :: duration
  ro_period :: duration
  ro_batchSize :: int

definition NewRetention :: "RetentionOptions \<Rightarrow> gerror + RetentionOptions" where
  "NewRetention opts =
     (if ro_age opts < minimumRetentionAge then Inl (ErrText ''stream retention age must be at least 168h0m0s (C-S7)'')
      else if ro_period opts \<le> 0 then Inl (ErrText ''stream retention period must be positive'')
      else if ro_batchSize opts \<le> 0 then Inl (ErrText ''stream retention batch size must be positive'')
      else Inr opts)"

definition doomed_before :: "Event \<Rightarrow> Event \<Rightarrow> bool" where
  "doomed_before a b = (ev_occurredAt a < ev_occurredAt b \<or> (ev_occurredAt a = ev_occurredAt b \<and> ev_seq a \<le> ev_seq b))"

fun insort_event :: "Event \<Rightarrow> Event list \<Rightarrow> Event list" where
  "insort_event e [] = [e]"
| "insort_event e (x # xs) = (if doomed_before e x then e # x # xs else x # insort_event e xs)"

definition order_events :: "Event list \<Rightarrow> Event list" where
  "order_events es = foldr insort_event es []"

definition expired :: "gotime \<Rightarrow> stream_db \<Rightarrow> Event \<Rightarrow> bool" where
  "expired cutoff d e = (ev_occurredAt e < cutoff \<and> ev_seq e \<le> wm_safeSeq (sd_watermark d))"

text \<open>
  \<open>PruneChangeEvents\<close>: \<open>locked\<close> are the rows another transaction holds, which \<open>SKIP LOCKED\<close> leaves out
  before the limit counts.
\<close>

definition doomed :: "gotime \<Rightarrow> nat \<Rightarrow> (Event \<Rightarrow> bool) \<Rightarrow> stream_db \<Rightarrow> Event list" where
  "doomed cutoff limit locked d =
     take limit (filter (\<lambda>e. \<not> locked e) (order_events (filter (expired cutoff d) (sd_events d))))"

definition advance_horizon :: "gotime \<Rightarrow> string \<Rightarrow> int \<Rightarrow> (string \<times> horizon_row) list \<Rightarrow> (string \<times> horizon_row) list" where
  "advance_horizon now stream seq rows =
     AList.update stream
       (case map_of rows stream of
          None \<Rightarrow> \<lparr>hz_prunedThrough = seq, hz_updatedAt = now\<rparr>
        | Some r \<Rightarrow> \<lparr>hz_prunedThrough = max (hz_prunedThrough r) seq, hz_updatedAt = now\<rparr>) rows"

definition advance_horizons :: "gotime \<Rightarrow> Event list \<Rightarrow> (string \<times> horizon_row) list \<Rightarrow> (string \<times> horizon_row) list" where
  "advance_horizons now es rows =
     fold (\<lambda>s. advance_horizon now s (max_seq (filter (\<lambda>e. ev_stream e = s) es))) (remdups (map ev_stream es)) rows"

definition PruneChangeEvents ::
  "gotime \<Rightarrow> int \<Rightarrow> (Event \<Rightarrow> bool) \<Rightarrow> gotime \<Rightarrow> stream_db \<Rightarrow> gerror + (stream_db \<times> nat)" where
  "PruneChangeEvents cutoff limit locked now d =
     (if limit < 0 then Inl (PgError ''2201W'')
      else let es = doomed cutoff (nat limit) locked d;
               keep = filter (\<lambda>e. ev_seq e \<notin> ev_seq ` set es) (sd_events d)
           in Inr (d\<lparr>sd_events := keep, sd_horizons := advance_horizons now es (sd_horizons d)\<rparr>,
                   length (sd_events d) - length keep))"

text \<open>
  \<open>Prune\<close>: one statement per turn, and what other transactions do before turn \<open>i\<close>. The loop ends when a
  batch is short; \<open>None\<close> is the end of the fuel.
\<close>

record prune_env =
  pe_others :: "nat \<Rightarrow> stream_db \<Rightarrow> stream_db"
  pe_locked :: "nat \<Rightarrow> Event \<Rightarrow> bool"
  pe_now :: "nat \<Rightarrow> gotime"

fun prune_loop :: "nat \<Rightarrow> prune_env \<Rightarrow> nat \<Rightarrow> gotime \<Rightarrow> int \<Rightarrow> int \<Rightarrow> stream_db \<Rightarrow> (stream_db \<times> int \<times> gerror option) option" where
  "prune_loop 0 env i cutoff batch removed d = None"
| "prune_loop (Suc fuel) env i cutoff batch removed d =
     (let d1 = pe_others env i d in
      case PruneChangeEvents cutoff (wrap32 batch) (pe_locked env i) (pe_now env i) d1 of
        Inl e \<Rightarrow> Some (d1, removed, Some (ErrWrap ''prune change events'' [e]))
      | Inr (d2, deleted) \<Rightarrow>
          if int deleted < batch then Some (d2, removed + int deleted, None)
          else prune_loop fuel env (Suc i) cutoff batch (removed + int deleted) d2)"

definition Prune :: "nat \<Rightarrow> prune_env \<Rightarrow> gotime \<Rightarrow> RetentionOptions \<Rightarrow> stream_db \<Rightarrow> (stream_db \<times> int \<times> gerror option) option" where
  "Prune fuel env now r d = prune_loop fuel env 0 (now - ro_age r) (ro_batchSize r) 0 d"

end
