(* ===== verification/Stream_Client.thy ===== *)
theory Stream_Client
  imports Change_Stream
begin

text \<open>
  The consuming side of the change stream: \<open>src/pkg/streamclient/streamclient.go\<close> with the statements of
  \<open>src/db/queries/streamclient.sql\<close>.

  Pages and snapshots run in \<open>REPEATABLE READ\<close> transactions. A transaction is a record \<open>page_tx\<close> of the
  snapshot it reads and the cursor row it wrote; its statements on the cursor also see \<open>cur\<close>, the
  tables as they are committed then, and fail as Postgres does when the row has changed since the
  snapshot. From the lock on the row to the commit nobody else changes the row, so \<open>cur\<close> is also the
  database the commit meets. The consumer's own tables are a projection of any type, which a handler
  changes inside the transaction.
\<close>

section \<open>Configuration\<close>

definition streamBatchSize :: int where "streamBatchSize = 256"
definition defaultPollInterval :: duration where "defaultPollInterval = 500 * millisecond"
definition minListenerBackoff :: duration where "minListenerBackoff = 100 * millisecond"
definition maxListenerBackoff :: duration where "maxListenerBackoff = 5 * second"

record Client =
  cl_batchSize :: int
  cl_pollInterval :: duration
  cl_minBackoff :: duration
  cl_maxBackoff :: duration

definition NewClient :: "int \<Rightarrow> duration \<Rightarrow> gerror + Client" where
  "NewClient batchSize pollInterval =
     (let batch = (if batchSize = 0 then streamBatchSize else batchSize);
          poll = (if pollInterval = 0 then defaultPollInterval else pollInterval)
      in if batch < 0 then Inl (ErrText ''stream batch size must be positive'')
         else if poll < 0 then Inl (ErrText ''stream poll interval must be positive'')
         else Inr \<lparr>cl_batchSize = batch, cl_pollInterval = poll,
                   cl_minBackoff = minListenerBackoff, cl_maxBackoff = maxListenerBackoff\<rparr>)"

definition validateIdentity :: "string \<Rightarrow> string \<Rightarrow> gerror option" where
  "validateIdentity consumer stream =
     (if trim_space consumer = [] then Some (ErrText ''consumer name is required'')
      else if trim_space stream = [] then Some (ErrText ''stream name is required'')
      else if CHR 0x00 \<in> set consumer \<or> CHR 0x00 \<in> set stream
           then Some (ErrText ''consumer and stream names must not contain NUL'')
      else None)"

section \<open>Errors\<close>

abbreviation context_Canceled :: gerror where "context_Canceled \<equiv> ErrContext ''context canceled''"
abbreviation context_DeadlineExceeded :: gerror where "context_DeadlineExceeded \<equiv> ErrContext ''context deadline exceeded''"

definition is_contention :: "gerror \<Rightarrow> bool" where
  "is_contention e = (case e of ErrCursorContention c s x \<Rightarrow> True | _ \<Rightarrow> False)"

definition is_handler_error :: "gerror \<Rightarrow> bool" where
  "is_handler_error e = (case e of TailHandlerError n x \<Rightarrow> True | _ \<Rightarrow> False)"

text \<open>\<open>net.Error\<close>: transport errors, and the deadline error of a context, whose \<open>Timeout\<close> is true.\<close>

definition is_net_error :: "gerror \<Rightarrow> bool" where
  "is_net_error e = (case e of NetError t m \<Rightarrow> True | _ \<Rightarrow> e = context_DeadlineExceeded)"

definition net_timeout :: "gerror \<Rightarrow> bool" where
  "net_timeout e = (case e of NetError t m \<Rightarrow> t | _ \<Rightarrow> e = context_DeadlineExceeded)"

definition isSerializationFailure :: "gerror \<Rightarrow> bool" where
  "isSerializationFailure e = (pg_code e = Some ''40001'')"

definition retryable_codes :: "string list" where
  "retryable_codes = [''08000'', ''08001'', ''08003'', ''08004'', ''08006'', ''08007'', ''08P01'', ''40001'',
     ''40P01'', ''53300'', ''55P03'', ''57P01'', ''57P02'', ''57P03'']"

text \<open>\<open>safeToRetry\<close> is \<open>pgconn.SafeToRetry\<close>.\<close>

definition IsRetryable :: "(gerror \<Rightarrow> bool) \<Rightarrow> gerror option \<Rightarrow> bool" where
  "IsRetryable safeToRetry err =
     (case err of
        None \<Rightarrow> False
      | Some e \<Rightarrow>
          if errors_as is_contention e \<noteq> None \<or> errors_is e ErrListenerUnavailable then True
          else if errors_is e context_Canceled \<or> errors_is e context_DeadlineExceeded then False
          else if (case pg_code e of None \<Rightarrow> False | Some c \<Rightarrow> c \<in> set retryable_codes) then True
          else safeToRetry e)"

definition normalizeTailContextError :: "gerror option \<Rightarrow> gerror \<Rightarrow> gerror" where
  "normalizeTailContextError ctxErr e =
     (if errors_as is_handler_error e \<noteq> None then e
      else case ctxErr of
        None \<Rightarrow> e
      | Some c \<Rightarrow> (case errors_as is_net_error e of
            None \<Rightarrow> e
          | Some n \<Rightarrow> if net_timeout n then c else e))"

section \<open>Cursor transactions\<close>

record page_tx =
  tx_snap :: stream_db
  tx_own :: "cursor_row option"

definition tx_row :: "cursor_key \<Rightarrow> page_tx \<Rightarrow> cursor_row option" where
  "tx_row k tx = (case tx_own tx of Some r \<Rightarrow> Some r | None \<Rightarrow> map_of (sd_cursors (tx_snap tx)) k)"

text \<open>
  \<open>ON CONFLICT DO NOTHING\<close> on a row that was committed after the snapshot: Postgres raises a
  serialization failure (\<open>strict\<close>), or the row stays invisible and the next statement finds none.
\<close>

definition EnsureConsumerCursor :: "bool \<Rightarrow> gotime \<Rightarrow> cursor_key \<Rightarrow> stream_db \<Rightarrow> page_tx \<Rightarrow> gerror + page_tx" where
  "EnsureConsumerCursor strict now k cur tx =
     (if map_of (sd_cursors (tx_snap tx)) k \<noteq> None then Inr tx
      else if map_of (sd_cursors cur) k \<noteq> None then (if strict then Inl (PgError ''40001'') else Inr tx)
      else Inr (tx\<lparr>tx_own := Some \<lparr>cc_seq = 0, cc_updatedAt = now, cc_resyncCount = 0, cc_lastResyncAt = None,
                                     cc_version = 0\<rparr>\<rparr>))"

definition GetConsumerCursorForUpdate :: "cursor_key \<Rightarrow> stream_db \<Rightarrow> page_tx \<Rightarrow> gerror + int" where
  "GetConsumerCursorForUpdate k cur tx =
     (case tx_own tx of
        Some r \<Rightarrow> Inr (cc_seq r)
      | None \<Rightarrow> (case map_of (sd_cursors (tx_snap tx)) k of
            None \<Rightarrow> Inl ErrNoRows
          | Some r \<Rightarrow> if map_of (sd_cursors cur) k = Some r then Inr (cc_seq r) else Inl (PgError ''40001'')))"

definition write_row :: "cursor_key \<Rightarrow> (cursor_row \<Rightarrow> cursor_row) \<Rightarrow> page_tx \<Rightarrow> page_tx" where
  "write_row k f tx = (case tx_row k tx of
     None \<Rightarrow> tx
   | Some r \<Rightarrow> tx\<lparr>tx_own := Some ((f r)\<lparr>cc_version := cc_version r + 1\<rparr>)\<rparr>)"

definition UpdateConsumerCursor :: "gotime \<Rightarrow> cursor_key \<Rightarrow> int \<Rightarrow> page_tx \<Rightarrow> page_tx" where
  "UpdateConsumerCursor now k seq = write_row k (\<lambda>r. r\<lparr>cc_seq := seq, cc_updatedAt := now\<rparr>)"

definition RecordConsumerResync :: "gotime \<Rightarrow> cursor_key \<Rightarrow> page_tx \<Rightarrow> page_tx" where
  "RecordConsumerResync now k = write_row k
     (\<lambda>r. r\<lparr>cc_resyncCount := cc_resyncCount r + 1, cc_lastResyncAt := Some now, cc_updatedAt := now\<rparr>)"

definition commit_tx :: "cursor_key \<Rightarrow> page_tx \<Rightarrow> stream_db \<Rightarrow> stream_db" where
  "commit_tx k tx cur = (case tx_own tx of
     None \<Rightarrow> cur
   | Some r \<Rightarrow> cur\<lparr>sd_cursors := AList.update k r (sd_cursors cur)\<rparr>)"

definition GetStreamPrunedThroughSequence :: "string \<Rightarrow> stream_db \<Rightarrow> int" where
  "GetStreamPrunedThroughSequence stream d =
     (case map_of (sd_horizons d) stream of None \<Rightarrow> 0 | Some r \<Rightarrow> hz_prunedThrough r)"

definition GetStreamSafeSequence :: "stream_db \<Rightarrow> int" where
  "GetStreamSafeSequence d = wm_safeSeq (sd_watermark d)"

definition PageChangeEvents :: "string \<Rightarrow> int \<Rightarrow> int \<Rightarrow> int \<Rightarrow> stream_db \<Rightarrow> gerror + Event list" where
  "PageChangeEvents stream afterSeq throughSeq limit d =
     (if limit < 0 then Inl (PgError ''2201W'')
      else Inr (take (nat limit) (sort_key ev_seq
             (filter (\<lambda>e. ev_stream e = stream \<and> afterSeq < ev_seq e \<and> ev_seq e \<le> throughSeq) (sd_events d)))))"

section \<open>Delivering a page\<close>

text \<open>
  What a page transaction meets: a statement that fails, a commit that fails before or after it took
  effect, the answer to an invisible conflict, and the clock.
\<close>

datatype page_stmt = BeginTx | EnsureStmt | LockStmt | HorizonStmt | ResyncStmt | SafeStmt | PageStmt | AdvanceStmt

record page_env =
  pv_fail :: "page_stmt \<Rightarrow> gerror option"
  pv_commitFail :: "(gerror \<times> bool) option"
  pv_strict :: bool
  pv_now :: gotime

definition stmt :: "page_env \<Rightarrow> page_stmt \<Rightarrow> gerror + 'a \<Rightarrow> gerror + 'a" where
  "stmt env s r = (case pv_fail env s of Some e \<Rightarrow> Inl e | None \<Rightarrow> r)"

fun apply_events :: "(Event \<Rightarrow> 'p \<Rightarrow> gerror + 'p) \<Rightarrow> int \<Rightarrow> Event list \<Rightarrow> 'p \<Rightarrow> gerror + (int \<times> 'p)" where
  "apply_events handler cursor [] p = Inr (cursor, p)"
| "apply_events handler cursor (e # es) p =
     (case handler e p of
        Inl err \<Rightarrow> Inl (TailHandlerError (ev_seq e) err)
      | Inr p' \<Rightarrow> apply_events handler (ev_seq e) es p')"

text \<open>The end of the transaction: \<open>ok\<close> after a commit that is acknowledged, the wrapped error otherwise.\<close>

definition finish_tx :: "page_env \<Rightarrow> string \<Rightarrow> cursor_key \<Rightarrow> page_tx \<Rightarrow> 'p \<Rightarrow> gerror + nat \<Rightarrow> stream_db \<Rightarrow> 'p \<Rightarrow>
    stream_db \<times> 'p \<times> (gerror + nat)" where
  "finish_tx env what k tx p' ok cur p =
     (case pv_commitFail env of
        None \<Rightarrow> (commit_tx k tx cur, p', ok)
      | Some (e, applied) \<Rightarrow>
          (if applied then commit_tx k tx cur else cur, if applied then p' else p, Inl (ErrWrap what [e])))"

text \<open>\<open>lock_cursor\<close>: the statements of \<open>deliverPage\<close> up to the locked cursor.\<close>

definition lock_cursor :: "page_env \<Rightarrow> cursor_key \<Rightarrow> stream_db \<Rightarrow> stream_db \<Rightarrow> gerror + (page_tx \<times> int)" where
  "lock_cursor env k snap cur =
     (case stmt env BeginTx (Inr \<lparr>tx_snap = snap, tx_own = None\<rparr>) of
        Inl e \<Rightarrow> Inl (ErrWrap ''begin stream page'' [e])
      | Inr tx0 \<Rightarrow>
          (case stmt env EnsureStmt (EnsureConsumerCursor (pv_strict env) (pv_now env) k cur tx0) of
             Inl e \<Rightarrow> if isSerializationFailure e then Inl ErrCursorFirstTouchRace
                      else Inl (ErrWrap ''ensure consumer cursor'' [e])
           | Inr tx \<Rightarrow>
               (case stmt env LockStmt (GetConsumerCursorForUpdate k cur tx) of
                  Inl e \<Rightarrow> if errors_is e ErrNoRows then Inl ErrCursorFirstTouchRace
                           else if isSerializationFailure e then Inl (ErrCursorContention (fst k) (snd k) e)
                           else Inl (ErrWrap ''lock consumer cursor'' [e])
                | Inr cursor \<Rightarrow> Inr (tx, cursor))))"

definition deliverPage ::
  "Client \<Rightarrow> (Event \<Rightarrow> 'p \<Rightarrow> gerror + 'p) \<Rightarrow> cursor_key \<Rightarrow> page_env \<Rightarrow> stream_db \<Rightarrow> stream_db \<Rightarrow> 'p \<Rightarrow>
   stream_db \<times> 'p \<times> (gerror + nat)" where
  "deliverPage c handler k env snap cur p =
     (case lock_cursor env k snap cur of
        Inl e \<Rightarrow> (cur, p, Inl e)
      | Inr (tx, cursor) \<Rightarrow>
          (case stmt env HorizonStmt (Inr (GetStreamPrunedThroughSequence (snd k) snap)) of
             Inl e \<Rightarrow> (cur, p, Inl (ErrWrap ''read stream horizon'' [e]))
           | Inr prunedThrough \<Rightarrow>
               if cursor < prunedThrough then
                 (case stmt env ResyncStmt (Inr (RecordConsumerResync (pv_now env) k tx)) of
                    Inl e \<Rightarrow> (cur, p, Inl (ErrWrap ''record stream resync'' [e]))
                  | Inr tx' \<Rightarrow> finish_tx env ''commit stream resync'' k tx' p
                                 (Inl (ErrResyncRequired (fst k) (snd k) cursor prunedThrough)) cur p)
               else
                 (case stmt env SafeStmt (Inr (GetStreamSafeSequence snap)) of
                    Inl e \<Rightarrow> (cur, p, Inl (ErrWrap ''read stream watermark'' [e]))
                  | Inr safeSeq \<Rightarrow>
                      (case stmt env PageStmt (PageChangeEvents (snd k) cursor safeSeq (wrap32 (cl_batchSize c)) snap) of
                         Inl e \<Rightarrow> (cur, p, Inl (ErrWrap ''page change events'' [e]))
                       | Inr events \<Rightarrow>
                           (case apply_events handler cursor events p of
                              Inl e \<Rightarrow> (cur, p, Inl e)
                            | Inr (cursor', p') \<Rightarrow>
                                (case (if events = [] then Inr tx
                                       else stmt env AdvanceStmt (Inr (UpdateConsumerCursor (pv_now env) k cursor' tx))) of
                                   Inl e \<Rightarrow> (cur, p, Inl (ErrWrap ''advance consumer cursor'' [e]))
                                 | Inr tx' \<Rightarrow> finish_tx env ''commit stream page'' k tx' p' (Inr (length events)) cur p))))))"

section \<open>Bootstrap\<close>

text \<open>
  The snapshot's transaction stays open in the caller's hands: \<open>sx_done\<close> says that it was committed or
  rolled back, \<open>sx_projection\<close> is the caller's replacement of its tables.
\<close>

record 'p snapshot_tx =
  sx_key :: cursor_key
  sx_tx :: page_tx
  sx_projection :: "'p option"
  sx_done :: bool

record 'p StreamSnapshot =
  sn_safeSeq :: int
  sn_priorSeq :: int
  sn_tx :: "'p snapshot_tx option"
  sn_closed :: bool

definition Bootstrap :: "page_env \<Rightarrow> cursor_key \<Rightarrow> stream_db \<Rightarrow> stream_db \<Rightarrow> gerror + 'p StreamSnapshot" where
  "Bootstrap env k snap cur =
     (case validateIdentity (fst k) (snd k) of
        Some e \<Rightarrow> Inl e
      | None \<Rightarrow>
     (case stmt env BeginTx (Inr \<lparr>tx_snap = snap, tx_own = None\<rparr>) of
        Inl e \<Rightarrow> Inl (ErrWrap ''begin stream bootstrap'' [e])
      | Inr tx0 \<Rightarrow>
          (case stmt env EnsureStmt (EnsureConsumerCursor (pv_strict env) (pv_now env) k cur tx0) of
             Inl e \<Rightarrow> if isSerializationFailure e then Inl (ErrCursorContention (fst k) (snd k) e)
                      else Inl (ErrWrap ''ensure bootstrap cursor'' [e])
           | Inr tx \<Rightarrow>
               (case stmt env LockStmt (GetConsumerCursorForUpdate k cur tx) of
                  Inl e \<Rightarrow> if isSerializationFailure e then Inl (ErrCursorContention (fst k) (snd k) e)
                           else Inl (ErrWrap ''lock bootstrap cursor'' [e])
                | Inr prior \<Rightarrow>
                    (case stmt env SafeStmt (Inr (GetStreamSafeSequence snap)) of
                       Inl e \<Rightarrow> Inl (ErrWrap ''read bootstrap watermark'' [e])
                     | Inr safeSeq \<Rightarrow>
                         (case stmt env AdvanceStmt (Inr (UpdateConsumerCursor (pv_now env) k safeSeq tx)) of
                            Inl e \<Rightarrow> Inl (ErrWrap ''reset bootstrap cursor'' [e])
                          | Inr tx' \<Rightarrow> Inr \<lparr>sn_safeSeq = safeSeq, sn_priorSeq = prior,
                              sn_tx = Some \<lparr>sx_key = k, sx_tx = tx', sx_projection = None, sx_done = False\<rparr>,
                              sn_closed = False\<rparr>))))))"

text \<open>\<open>pgx.Tx\<close>: commit and rollback of the open transaction; both fail once it is finished.\<close>

definition sx_commit :: "(gerror \<times> bool) option \<Rightarrow> 'p snapshot_tx \<Rightarrow> stream_db \<Rightarrow> 'p \<Rightarrow> 'p snapshot_tx \<times> stream_db \<times> 'p \<times> gerror option" where
  "sx_commit fail sx cur p =
     (if sx_done sx then (sx, cur, p, Some ErrTxClosed)
      else let cur' = commit_tx (sx_key sx) (sx_tx sx) cur;
               p' = (case sx_projection sx of None \<Rightarrow> p | Some q \<Rightarrow> q)
           in case fail of
                None \<Rightarrow> (sx\<lparr>sx_done := True\<rparr>, cur', p', None)
              | Some (e, applied) \<Rightarrow>
                  (sx\<lparr>sx_done := True\<rparr>, if applied then cur' else cur, if applied then p' else p, Some e))"

definition sx_rollback :: "gerror option \<Rightarrow> 'p snapshot_tx \<Rightarrow> 'p snapshot_tx \<times> gerror option" where
  "sx_rollback fail sx = (if sx_done sx then (sx, Some ErrTxClosed) else (sx\<lparr>sx_done := True\<rparr>, fail))"

definition Snapshot_Commit :: "(gerror \<times> bool) option \<Rightarrow> 'p StreamSnapshot option \<Rightarrow> stream_db \<Rightarrow> 'p \<Rightarrow>
    'p StreamSnapshot option \<times> stream_db \<times> 'p \<times> gerror option" where
  "Snapshot_Commit fail s cur p =
     (case s of
        None \<Rightarrow> (None, cur, p, Some (ErrText ''commit nil stream snapshot''))
      | Some s \<Rightarrow>
          if sn_closed s then (Some s, cur, p, Some ErrTxClosed)
          else (case sn_tx s of
                  None \<Rightarrow> (Some (s\<lparr>sn_closed := True\<rparr>), cur, p, Some (ErrText ''commit stream snapshot without transaction''))
                | Some sx \<Rightarrow>
                    (case sx_commit fail sx cur p of (sx', cur', p', err) \<Rightarrow>
                       (Some (s\<lparr>sn_closed := True, sn_tx := Some sx'\<rparr>), cur', p', err))))"

definition Snapshot_Close :: "gerror option \<Rightarrow> 'p StreamSnapshot option \<Rightarrow> 'p StreamSnapshot option \<times> gerror option" where
  "Snapshot_Close fail s =
     (case s of
        None \<Rightarrow> (None, None)
      | Some s \<Rightarrow>
          if sn_closed s then (Some s, None)
          else (case sn_tx s of
                  None \<Rightarrow> (Some (s\<lparr>sn_closed := True\<rparr>), None)
                | Some sx \<Rightarrow>
                    (case sx_rollback fail sx of (sx', err) \<Rightarrow>
                       (Some (s\<lparr>sn_closed := True, sn_tx := Some sx'\<rparr>),
                        case err of None \<Rightarrow> None | Some e \<Rightarrow> if errors_is e ErrTxClosed then None else Some e))))"

section \<open>Tail\<close>

definition growBackoff :: "duration \<Rightarrow> duration \<Rightarrow> duration" where
  "growBackoff current maximum = (let c = wrap64 (current * 2) in if maximum < c then maximum else c)"

record tail_state =
  tl_listener :: bool
  tl_backoff :: duration
  tl_nextAttempt :: gotime

text \<open>
  What one turn of the loop meets: the clock, the result of \<open>acquireListener\<close> and of the wait, and
  \<open>ctx.Err()\<close> at the four places the loop asks for it.
\<close>

record tail_env =
  te_ctxPage :: "gerror option"
  te_now :: gotime
  te_acquire :: "gerror option"
  te_ctxAcquire :: "gerror option"
  te_failedAt :: gotime
  te_ctxPoll :: "gerror option"
  te_wait :: "gerror option"
  te_ctxWait :: "gerror option"
  te_lostAt :: gotime

datatype tail_next = TailAgain tail_state | TailReturn gerror

text \<open>The part of a turn that runs when the last page was short.\<close>

definition connect_listener :: "Client \<Rightarrow> tail_env \<Rightarrow> tail_state \<Rightarrow> tail_next" where
  "connect_listener c env st =
     (if \<not> tl_listener st \<and> \<not> te_now env < tl_nextAttempt st then
        (case te_acquire env of
           None \<Rightarrow> TailAgain (st\<lparr>tl_listener := True\<rparr>)
         | Some e \<Rightarrow>
             (case te_ctxAcquire env of
                Some x \<Rightarrow> TailReturn x
              | None \<Rightarrow> TailAgain (st\<lparr>tl_nextAttempt := te_failedAt env + tl_backoff st,
                                       tl_backoff := growBackoff (tl_backoff st) (cl_maxBackoff c)\<rparr>)))
      else TailAgain st)"

definition wait_for_wake :: "Client \<Rightarrow> tail_env \<Rightarrow> tail_state \<Rightarrow> tail_next" where
  "wait_for_wake c env st =
     (if \<not> tl_listener st then
        (case te_ctxPoll env of Some x \<Rightarrow> TailReturn x | None \<Rightarrow> TailAgain st)
      else (case te_wait env of
              None \<Rightarrow> TailAgain (st\<lparr>tl_backoff := cl_minBackoff c\<rparr>)
            | Some e \<Rightarrow>
                if errors_is e context_DeadlineExceeded then TailAgain (st\<lparr>tl_backoff := cl_minBackoff c\<rparr>)
                else (case te_ctxWait env of
                        Some x \<Rightarrow> TailReturn x
                      | None \<Rightarrow> TailAgain \<lparr>tl_listener = False, tl_backoff = growBackoff (tl_backoff st) (cl_maxBackoff c),
                                   tl_nextAttempt = te_lostAt env + tl_backoff st\<rparr>)))"

definition tail_turn :: "Client \<Rightarrow> tail_env \<Rightarrow> gerror + nat \<Rightarrow> tail_state \<Rightarrow> tail_next" where
  "tail_turn c env page st =
     (case page of
        Inl e \<Rightarrow> if errors_is e ErrCursorFirstTouchRace then TailAgain st
                 else TailReturn (normalizeTailContextError (te_ctxPage env) e)
      | Inr delivered \<Rightarrow>
          if int delivered = cl_batchSize c then TailAgain st
          else (case connect_listener c env st of
                  TailReturn e \<Rightarrow> TailReturn e
                | TailAgain st' \<Rightarrow> wait_for_wake c env st'))"

text \<open>
  A run of the loop over its turns, each with what other transactions do before its snapshot and
  between the snapshot and its cursor statements. \<open>None\<close>: still running after these turns.
\<close>

record tail_input =
  in_before :: "stream_db \<Rightarrow> stream_db"
  in_during :: "stream_db \<Rightarrow> stream_db"
  in_page :: page_env
  in_env :: tail_env

fun tail_loop :: "Client \<Rightarrow> (Event \<Rightarrow> 'p \<Rightarrow> gerror + 'p) \<Rightarrow> cursor_key \<Rightarrow> tail_state \<Rightarrow> tail_input list \<Rightarrow>
    stream_db \<Rightarrow> 'p \<Rightarrow> stream_db \<times> 'p \<times> gerror option" where
  "tail_loop c handler k st [] d p = (d, p, None)"
| "tail_loop c handler k st (i # inputs) d p =
     (let snap = in_before i d; cur = in_during i snap in
      case deliverPage c handler k (in_page i) snap cur p of
        (d', p', page) \<Rightarrow>
          (case tail_turn c (in_env i) page st of
             TailReturn e \<Rightarrow> (d', p', Some e)
           | TailAgain st' \<Rightarrow> tail_loop c handler k st' inputs d' p'))"

definition Tail :: "Client \<Rightarrow> (Event \<Rightarrow> 'p \<Rightarrow> gerror + 'p) option \<Rightarrow> cursor_key \<Rightarrow> tail_input list \<Rightarrow>
    stream_db \<Rightarrow> 'p \<Rightarrow> stream_db \<times> 'p \<times> gerror option" where
  "Tail c handler k inputs d p =
     (case validateIdentity (fst k) (snd k) of
        Some e \<Rightarrow> (d, p, Some e)
      | None \<Rightarrow> (case handler of
            None \<Rightarrow> (d, p, Some (ErrText ''stream handler is required''))
          | Some h \<Rightarrow> tail_loop c h k \<lparr>tl_listener = False, tl_backoff = cl_minBackoff c, tl_nextAttempt = 0\<rparr> inputs d p))"

end
