(* ===== verification/Stream_Log.thy ===== *)
theory Stream_Log
  imports Stream_Client "HOL-Library.Multiset"
begin

text \<open>
  The contract between the change stream and its consumers. The history of a stream is the list of
  events that were ever committed to it; the published part is what lies at or below the safe sequence,
  in sequence order. The locale \<open>published_log\<close> says what a page query must return for a consumer that
  is not behind the horizon, and derives that paging reads the published log as a list, position
  by position. It is interpreted on the tables and queries of the model.
\<close>

section \<open>Published events\<close>

definition published :: "Event list \<Rightarrow> int \<Rightarrow> string \<Rightarrow> Event list" where
  "published hist safe stream = sort_key ev_seq (filter (\<lambda>e. ev_stream e = stream \<and> ev_seq e \<le> safe) hist)"

definition position :: "int \<Rightarrow> Event list \<Rightarrow> nat" where
  "position cursor es = length (filter (\<lambda>e. ev_seq e \<le> cursor) es)"

lemma sorted_filter_split:
  fixes f :: "'a \<Rightarrow> int"
  assumes "sorted (map f xs)"
  shows "xs = filter (\<lambda>x. f x \<le> c) xs @ filter (\<lambda>x. c < f x) xs"
  using assms
proof (induction xs)
  case (Cons x xs)
  then have IH: "xs = filter (\<lambda>x. f x \<le> c) xs @ filter (\<lambda>x. c < f x) xs" by simp
  show ?case
  proof (cases "f x \<le> c")
    case True
    then show ?thesis using IH by simp
  next
    case False
    then have "filter (\<lambda>x. f x \<le> c) xs = []" using Cons.prems by (force simp: filter_empty_conv)
    with False IH show ?thesis by simp
  qed
qed simp

lemma sort_key_same_set:
  fixes f :: "'a \<Rightarrow> 'b::linorder"
  assumes "set xs = set ys" and "distinct (map f xs)" and "distinct (map f ys)"
  shows "sort_key f xs = sort_key f ys"
proof (rule sort_key_inj_key_eq)
  have "distinct xs" "distinct ys" using assms by (simp_all add: distinct_map)
  then have "mset xs = mset ys" using assms(1) by (simp add: set_eq_iff_mset_eq_distinct)
  then show "mset xs = mset (sort_key f ys)" by simp
  show "inj_on f (set xs)" using assms(2) by (simp add: distinct_map)
qed simp

lemma drop_position:
  "sorted (map ev_seq es) \<Longrightarrow> drop (position c es) es = filter (\<lambda>e. c < ev_seq e) es"
  using sorted_filter_split [of ev_seq es c] unfolding position_def by (metis append_eq_conv_conj)

lemma take_position:
  "sorted (map ev_seq es) \<Longrightarrow> take (position c es) es = filter (\<lambda>e. ev_seq e \<le> c) es"
  using sorted_filter_split [of ev_seq es c] unfolding position_def by (metis append_eq_conv_conj)

lemma position_le [simp]: "position c es \<le> length es"
  by (simp add: position_def)

lemma position_mono: "c \<le> c' \<Longrightarrow> position c es \<le> position c' es"
  unfolding position_def by (induction es) auto

lemma position_append: "position c (xs @ ys) = position c xs + position c ys"
  by (simp add: position_def)

lemma position_all: "(\<And>e. e \<in> set es \<Longrightarrow> ev_seq e \<le> c) \<Longrightarrow> position c es = length es"
  unfolding position_def by (simp add: filter_id_conv)

lemma position_none: "(\<And>e. e \<in> set es \<Longrightarrow> c < ev_seq e) \<Longrightarrow> position c es = 0"
  unfolding position_def by (simp add: filter_empty_conv not_le)

text \<open>The cursor after an element of a strictly sorted list points just behind that element.\<close>

lemma position_at:
  assumes "sorted_wrt (<) (map ev_seq (xs @ e # ys))"
  shows "position (ev_seq e) (xs @ e # ys) = Suc (length xs)"
proof -
  have "position (ev_seq e) xs = length xs" using assms by (intro position_all) (force simp: sorted_wrt_append)
  moreover have "position (ev_seq e) ys = 0" using assms by (intro position_none) (force simp: sorted_wrt_append)
  ultimately show ?thesis by (simp add: position_append) (simp add: position_def)
qed

lemma position_segment:
  assumes "es = xs @ seg @ ys" and "seg \<noteq> []" and "sorted_wrt (<) (map ev_seq es)"
  shows "position (ev_seq (last seg)) es = length xs + length seg"
proof -
  obtain b l where seg: "seg = b @ [l]" using assms(2) by (metis rev_exhaust)
  then have es: "es = (xs @ b) @ l # ys" using assms(1) by simp
  with assms(3) position_at [of "xs @ b" l ys] show ?thesis by (simp add: seg)
qed

lemma published_sorted [simp]: "sorted (map ev_seq (published hist safe s))"
  by (simp add: published_def)

lemma published_set [simp]: "set (published hist safe s) = {e \<in> set hist. ev_stream e = s \<and> ev_seq e \<le> safe}"
  by (auto simp: published_def)

lemma published_strict: "distinct (map ev_seq hist) \<Longrightarrow> sorted_wrt (<) (map ev_seq (published hist safe s))"
  by (simp add: strict_sorted_iff published_def distinct_map_filter
      mset_eq_imp_distinct_iff [of "map ev_seq (sort_key ev_seq xs)" "map ev_seq xs" for xs])

text \<open>Raising the safe sequence, or appending events above it, extends the published log at its end.\<close>

lemma published_extends:
  assumes "safe \<le> safe'"
  shows "published hist safe' s = published hist safe s @ filter (\<lambda>e. safe < ev_seq e) (published hist safe' s)"
proof -
  have "filter (\<lambda>e. ev_seq e \<le> safe) (published hist safe' s) = published hist safe s"
    unfolding published_def filter_sort filter_filter using assms by (intro arg_cong [where f = "sort_key ev_seq"] filter_cong) auto
  with sorted_filter_split [OF published_sorted, of hist safe' s safe] show ?thesis by simp
qed

lemma published_append:
  "(\<And>e. e \<in> set es \<Longrightarrow> safe < ev_seq e) \<Longrightarrow> published (hist @ es) safe s = published hist safe s"
proof -
  assume "\<And>e. e \<in> set es \<Longrightarrow> safe < ev_seq e"
  then have "filter (\<lambda>e. ev_stream e = s \<and> ev_seq e \<le> safe) es = []" by (fastforce simp: filter_empty_conv)
  then show ?thesis by (simp add: published_def)
qed

section \<open>The contract\<close>

locale published_log =
  fixes events :: "'d \<Rightarrow> string \<Rightarrow> Event list"
    and horizon :: "'d \<Rightarrow> string \<Rightarrow> int"
    and page :: "'d \<Rightarrow> string \<Rightarrow> int \<Rightarrow> nat \<Rightarrow> Event list"
    and valid :: "'d \<Rightarrow> bool"
  assumes events_sorted: "valid d \<Longrightarrow> sorted_wrt (<) (map ev_seq (events d s))"
    and page_complete: "valid d \<Longrightarrow> horizon d s \<le> c \<Longrightarrow>
      page d s c n = take n (filter (\<lambda>e. c < ev_seq e) (events d s))"
begin

lemma page_is_next:
  assumes "valid d" "horizon d s \<le> c"
  shows "page d s c n = take n (drop (position c (events d s)) (events d s))"
  using assms events_sorted [OF assms(1), of s] by (simp add: page_complete drop_position strict_sorted_imp_sorted)

text \<open>A cursor moved to the last event of a page has consumed exactly that page.\<close>

lemma cursor_after_page:
  assumes "valid d" "horizon d s \<le> c" "page d s c n \<noteq> []"
  shows "position (ev_seq (last (page d s c n))) (events d s) = position c (events d s) + length (page d s c n)"
proof -
  let ?es = "events d s" and ?p = "position c (events d s)" and ?pg = "page d s c n"
  have pg: "?pg = take n (drop ?p ?es)" by (rule page_is_next [OF assms(1,2)])
  then have split: "?es = take ?p ?es @ ?pg @ drop n (drop ?p ?es)" by (metis append_take_drop_id)
  from position_segment [OF split assms(3) events_sorted [OF assms(1)]] show ?thesis by simp
qed

text \<open>A page shorter than asked for leaves nothing behind it.\<close>

lemma short_page_catches_up:
  assumes "valid d" "horizon d s \<le> c" "length (page d s c n) < n"
  shows "position c (events d s) + length (page d s c n) = length (events d s)"
  using assms(3) position_le [of c "events d s"] by (simp add: page_is_next [OF assms(1,2)])

lemma page_members:
  assumes "valid d" "horizon d s \<le> c" "e \<in> set (page d s c n)"
  shows "c < ev_seq e \<and> e \<in> set (events d s)"
  using assms by (auto simp: page_complete dest!: in_set_takeD)

end

section \<open>The tables keep the contract\<close>

text \<open>
  \<open>covers hist d\<close>: the event table holds committed events only, and everything published that it does not
  hold lies at or below its stream's horizon.
\<close>

definition covers :: "Event list \<Rightarrow> stream_db \<Rightarrow> bool" where
  "covers hist d \<longleftrightarrow> distinct (map ev_seq hist) \<and> set (sd_events d) \<subseteq> set hist \<and> distinct (map ev_seq (sd_events d)) \<and>
     (\<forall>e \<in> set hist. ev_seq e \<le> GetStreamSafeSequence d \<longrightarrow> e \<in> set (sd_events d) \<or>
        ev_seq e \<le> GetStreamPrunedThroughSequence (ev_stream e) d)"

lemma coversD:
  assumes "covers hist d"
  shows "distinct (map ev_seq hist)" "set (sd_events d) \<subseteq> set hist" "distinct (map ev_seq (sd_events d))"
    "\<And>e. e \<in> set hist \<Longrightarrow> ev_seq e \<le> GetStreamSafeSequence d \<Longrightarrow> e \<notin> set (sd_events d) \<Longrightarrow>
       ev_seq e \<le> GetStreamPrunedThroughSequence (ev_stream e) d"
  using assms unfolding covers_def by blast+

definition table_page :: "string \<Rightarrow> int \<Rightarrow> nat \<Rightarrow> stream_db \<Rightarrow> Event list" where
  "table_page s c n d = take n (sort_key ev_seq
     (filter (\<lambda>e. ev_stream e = s \<and> c < ev_seq e \<and> ev_seq e \<le> GetStreamSafeSequence d) (sd_events d)))"

lemma table_page_complete:
  assumes "covers hist d" "GetStreamPrunedThroughSequence s d \<le> c"
  shows "table_page s c n d = take n (filter (\<lambda>e. c < ev_seq e) (published hist (GetStreamSafeSequence d) s))"
proof -
  let ?P = "\<lambda>e. ev_stream e = s \<and> c < ev_seq e \<and> ev_seq e \<le> GetStreamSafeSequence d"
  have "sort_key ev_seq (filter ?P (sd_events d)) = sort_key ev_seq (filter ?P hist)"
  proof (rule sort_key_same_set)
    show "set (filter ?P (sd_events d)) = set (filter ?P hist)"
      using coversD(2) [OF assms(1)] coversD(4) [OF assms(1)] assms(2) by force
    show "distinct (map ev_seq (filter ?P (sd_events d)))" "distinct (map ev_seq (filter ?P hist))"
      using coversD(1,3) [OF assms(1)] by (simp_all add: distinct_map_filter)
  qed
  also have "\<dots> = filter (\<lambda>e. c < ev_seq e) (published hist (GetStreamSafeSequence d) s)"
    unfolding published_def filter_sort filter_filter by (intro arg_cong [where f = "sort_key ev_seq"] filter_cong) auto
  finally show ?thesis by (simp add: table_page_def)
qed

interpretation pl: published_log
  "\<lambda>(hist, d). published hist (GetStreamSafeSequence d)"
  "\<lambda>(hist, d) s. GetStreamPrunedThroughSequence s d"
  "\<lambda>(hist, d) s c n. table_page s c n d"
  "\<lambda>(hist, d). covers hist d"
proof
  fix x :: "Event list \<times> stream_db" and s c n
  obtain hist d where x: "x = (hist, d)" by fastforce
  assume cov: "case x of (hist, d) \<Rightarrow> covers hist d"
  then show "sorted_wrt (<) (map ev_seq ((case x of (hist, d) \<Rightarrow> published hist (GetStreamSafeSequence d)) s))"
    using x coversD(1) by (simp add: published_strict)
  assume "(case x of (hist, d) \<Rightarrow> \<lambda>s. GetStreamPrunedThroughSequence s d) s \<le> c"
  with cov x show "(case x of (hist, d) \<Rightarrow> \<lambda>s c n. table_page s c n d) s c n =
      take n (filter (\<lambda>e. c < ev_seq e) ((case x of (hist, d) \<Rightarrow> published hist (GetStreamSafeSequence d)) s))"
    by (simp add: table_page_complete)
qed

end
