(* ===== verification/Stream_Steps.thy ===== *)
theory Stream_Steps
  imports Stream_Log
begin

text \<open>
  The change stream as a system: writer transactions, watermarkers, retention and consumers as steps on
  one database, in any interleaving. The invariant says that no event can become visible at or below the
  safe sequence, for the tables and for every snapshot a consumer may still hold.
\<close>

section \<open>Steps\<close>

text \<open>
  \<open>sw_writers\<close> has the rows an open writer transaction inserted, \<open>sw_marker\<close> the fenced transaction of a
  watermarker between its two statements, \<open>sw_snaps\<close> the snapshots taken so far, \<open>sw_views\<close> the tables of
  each consumer. \<open>sw_hist\<close> records every event ever committed; no operation reads it.
\<close>

record 'p stream_world =
  sw_db :: stream_db
  sw_fence :: outbox_fence
  sw_writers :: "nat \<Rightarrow> Event list"
  sw_marker :: "(nat \<times> Watermarker \<times> int \<times> int) option"
  sw_snaps :: "stream_db list"
  sw_views :: "cursor_key \<Rightarrow> 'p"
  sw_hist :: "Event list"

definition empty_db :: stream_db where
  "empty_db = \<lparr>sd_events = [], sd_seq = 0,
     sd_watermark = \<lparr>wm_safeSeq = 0, wm_candidateSeq = None, wm_candidateXid = None, wm_leaseToken = None,
       wm_leaseUntil = None, wm_updatedAt = 0\<rparr>,
     sd_horizons = [], sd_cursors = [], sd_heartbeats = []\<rparr>"

definition initial_world :: "(cursor_key \<Rightarrow> 'p) \<Rightarrow> 'p stream_world" where
  "initial_world views = \<lparr>sw_db = empty_db, sw_fence = \<lparr>fn_shared = [], fn_exclusive = None\<rparr>, sw_writers = (\<lambda>_. []),
     sw_marker = None, sw_snaps = [], sw_views = views, sw_hist = []\<rparr>"

definition with_projection :: "'p option \<Rightarrow> 'p StreamSnapshot \<Rightarrow> 'p StreamSnapshot" where
  "with_projection q s = s\<lparr>sn_tx := map_option (\<lambda>sx. sx\<lparr>sx_projection := q\<rparr>) (sn_tx s)\<rparr>"

inductive stream_step :: "Client \<Rightarrow> (Event \<Rightarrow> 'p \<Rightarrow> gerror + 'p) \<Rightarrow> 'p stream_world \<Rightarrow> 'p stream_world \<Rightarrow> bool"
  for c h where
  writer_begin: "AcquireWriterFence x (sw_fence w) = Some f \<Longrightarrow> fn_exclusive (sw_fence w) \<noteq> Some x \<Longrightarrow>
     stream_step c h w (w\<lparr>sw_fence := f\<rparr>)"
| writer_insert: "insert_change_event x (sw_fence w) st kind entity at payload (sw_db w) = (d, Inr e) \<Longrightarrow>
     stream_step c h w (w\<lparr>sw_db := d, sw_writers := (sw_writers w)(x := sw_writers w x @ [e])\<rparr>)"
| writer_reject: "insert_change_event x (sw_fence w) st kind entity at payload (sw_db w) = (d, Inl err) \<Longrightarrow>
     fn_exclusive (sw_fence w) \<noteq> Some x \<Longrightarrow>
     stream_step c h w (w\<lparr>sw_db := d, sw_writers := (sw_writers w)(x := []), sw_fence := release_fence x (sw_fence w)\<rparr>)"
| writer_commit: "x \<in> set (fn_shared (sw_fence w)) \<Longrightarrow>
     stream_step c h w (w\<lparr>sw_db := (sw_db w)\<lparr>sd_events := sd_events (sw_db w) @ sw_writers w x\<rparr>,
       sw_hist := sw_hist w @ sw_writers w x, sw_writers := (sw_writers w)(x := []),
       sw_fence := release_fence x (sw_fence w)\<rparr>)"
| writer_rollback: "x \<in> set (fn_shared (sw_fence w)) \<Longrightarrow>
     stream_step c h w (w\<lparr>sw_writers := (sw_writers w)(x := []), sw_fence := release_fence x (sw_fence w)\<rparr>)"
| lease_acquire: "acquireOrRenew interval now m (sw_db w) = (d, err) \<Longrightarrow> stream_step c h w (w\<lparr>sw_db := d\<rparr>)"
| lease_release: "stream_step c h w (w\<lparr>sw_db := release m (sw_db w)\<rparr>)"
| marker_read: "AcquireWatermarkFence x (sw_fence w) = Some f \<Longrightarrow> x \<notin> set (fn_shared (sw_fence w)) \<Longrightarrow> sw_marker w = None \<Longrightarrow>
     step_read m now (sw_db w) = Inr (prior, target) \<Longrightarrow>
     stream_step c h w (w\<lparr>sw_fence := f, sw_marker := Some (x, m, prior, target)\<rparr>)"
| marker_publish: "sw_marker w = Some (x, m, prior, target) \<Longrightarrow>
     step_publish m now prior target (sw_db w) = Inr (d, progress) \<Longrightarrow>
     stream_step c h w (w\<lparr>sw_db := d, sw_marker := None, sw_fence := release_fence x (sw_fence w)\<rparr>)"
| marker_abort: "sw_marker w = Some (x, m, prior, target) \<Longrightarrow>
     stream_step c h w (w\<lparr>sw_marker := None, sw_fence := release_fence x (sw_fence w)\<rparr>)"
| marker_heartbeat: "step_heartbeat at now m (sw_db w) = (d, m', err) \<Longrightarrow> stream_step c h w (w\<lparr>sw_db := d\<rparr>)"
| prune: "PruneChangeEvents cutoff limit locked now (sw_db w) = Inr (d, n) \<Longrightarrow> stream_step c h w (w\<lparr>sw_db := d\<rparr>)"
| snapshot: "stream_step c h w (w\<lparr>sw_snaps := sw_db w # sw_snaps w\<rparr>)"
| page: "snap \<in> set (sw_snaps w) \<Longrightarrow> deliverPage c h k env snap (sw_db w) (sw_views w k) = (d, p, r) \<Longrightarrow>
     stream_step c h w (w\<lparr>sw_db := d, sw_views := (sw_views w)(k := p)\<rparr>)"
| bootstrap: "snap \<in> set (sw_snaps w) \<Longrightarrow> Bootstrap env k snap (sw_db w) = Inr s \<Longrightarrow>
     Snapshot_Commit fail (Some (with_projection q s)) (sw_db w) (sw_views w k) = (s', d, p, err) \<Longrightarrow>
     stream_step c h w (w\<lparr>sw_db := d, sw_views := (sw_views w)(k := p)\<rparr>)"

section \<open>Invariant\<close>

abbreviation safe :: "stream_db \<Rightarrow> int" where "safe \<equiv> GetStreamSafeSequence"
abbreviation horizon :: "string \<Rightarrow> stream_db \<Rightarrow> int" where "horizon \<equiv> GetStreamPrunedThroughSequence"

definition cursor_of :: "cursor_key \<Rightarrow> stream_db \<Rightarrow> int" where
  "cursor_of k d = (case map_of (sd_cursors d) k of None \<Rightarrow> 0 | Some r \<Rightarrow> cc_seq r)"

definition db_ok :: "Event list \<Rightarrow> stream_db \<Rightarrow> bool" where
  "db_ok hist d \<longleftrightarrow> covers hist d \<and> 0 \<le> safe d \<and> (\<forall>s. horizon s d \<le> safe d) \<and> (\<forall>k. cursor_of k d \<le> safe d)"

definition writers_ok :: "'p stream_world \<Rightarrow> bool" where
  "writers_ok w \<longleftrightarrow>
     (\<forall>x. x \<notin> set (fn_shared (sw_fence w)) \<longrightarrow> sw_writers w x = []) \<and>
     (\<forall>x. \<forall>e \<in> set (sw_writers w x). safe (sw_db w) < ev_seq e \<and> ev_seq e \<le> sd_seq (sw_db w)) \<and>
     (\<forall>x. distinct (map ev_seq (sw_writers w x)) \<and> ev_seq ` set (sw_writers w x) \<inter> ev_seq ` set (sw_hist w) = {}) \<and>
     (\<forall>x y. x \<noteq> y \<longrightarrow> ev_seq ` set (sw_writers w x) \<inter> ev_seq ` set (sw_writers w y) = {})"

definition marker_ok :: "'p stream_world \<Rightarrow> bool" where
  "marker_ok w \<longleftrightarrow> (case sw_marker w of
     None \<Rightarrow> fn_exclusive (sw_fence w) = None
   | Some (x, m, prior, target) \<Rightarrow> fn_exclusive (sw_fence w) = Some x \<and> fn_shared (sw_fence w) = [] \<and>
       target \<le> sd_seq (sw_db w))"

definition tables_ok :: "Event list \<Rightarrow> stream_db \<Rightarrow> stream_db list \<Rightarrow> bool" where
  "tables_ok hist d snaps \<longleftrightarrow> db_ok hist d \<and> safe d \<le> sd_seq d \<and>
     (\<forall>e \<in> set hist. 0 < ev_seq e \<and> ev_seq e \<le> sd_seq d \<and> (e \<in> set (sd_events d) \<or> ev_seq e \<le> horizon (ev_stream e) d)) \<and>
     (\<forall>snap \<in> set snaps. db_ok hist snap \<and> safe snap \<le> safe d)"

definition stream_inv :: "'p stream_world \<Rightarrow> bool" where
  "stream_inv w \<longleftrightarrow> tables_ok (sw_hist w) (sw_db w) (sw_snaps w) \<and> writers_ok w \<and> marker_ok w"

lemma db_okD:
  assumes "db_ok hist d"
  shows "covers hist d" "0 \<le> safe d" "horizon s d \<le> safe d" "cursor_of k d \<le> safe d"
  using assms unfolding db_ok_def by (simp, simp, simp, metis)

lemma tables_okD:
  assumes "tables_ok hist d snaps"
  shows "db_ok hist d" "safe d \<le> sd_seq d"
    "e \<in> set hist \<Longrightarrow> 0 < ev_seq e" "e \<in> set hist \<Longrightarrow> ev_seq e \<le> sd_seq d"
    "e \<in> set hist \<Longrightarrow> e \<notin> set (sd_events d) \<Longrightarrow> ev_seq e \<le> horizon (ev_stream e) d"
    "snap \<in> set snaps \<Longrightarrow> db_ok hist snap" "snap \<in> set snaps \<Longrightarrow> safe snap \<le> safe d"
  using assms by (auto simp: tables_ok_def)

lemma writers_okD:
  assumes "writers_ok w"
  shows "x \<notin> set (fn_shared (sw_fence w)) \<Longrightarrow> sw_writers w x = []"
    "e \<in> set (sw_writers w x) \<Longrightarrow> safe (sw_db w) < ev_seq e" "e \<in> set (sw_writers w x) \<Longrightarrow> ev_seq e \<le> sd_seq (sw_db w)"
    "distinct (map ev_seq (sw_writers w x))" "ev_seq ` set (sw_writers w x) \<inter> ev_seq ` set (sw_hist w) = {}"
    "x \<noteq> y \<Longrightarrow> ev_seq ` set (sw_writers w x) \<inter> ev_seq ` set (sw_writers w y) = {}"
  using assms by (simp_all add: writers_ok_def)

lemma stream_invD:
  assumes "stream_inv w"
  shows "tables_ok (sw_hist w) (sw_db w) (sw_snaps w)" "writers_ok w" "marker_ok w"
  using assms unfolding stream_inv_def by simp_all

lemma stream_inv_cursor: "stream_inv w \<Longrightarrow> cursor_of k (sw_db w) \<le> safe (sw_db w)"
  by (rule db_okD(4) [OF tables_okD(1) [OF stream_invD(1)]])

subsection \<open>Changes that the invariant does not see\<close>

lemma safe_cong: "wm_safeSeq (sd_watermark d') = wm_safeSeq (sd_watermark d) \<Longrightarrow> safe d' = safe d"
  by (simp add: GetStreamSafeSequence_def)

lemma horizon_cong: "sd_horizons d' = sd_horizons d \<Longrightarrow> horizon s d' = horizon s d"
  by (simp add: GetStreamPrunedThroughSequence_def)

lemma covers_cong:
  assumes "sd_events d' = sd_events d" "safe d' = safe d" "sd_horizons d' = sd_horizons d"
  shows "covers hist d' = covers hist d"
  unfolding covers_def assms(1,2) horizon_cong [OF assms(3)] by (rule refl)

lemma tables_same:
  assumes ok: "tables_ok hist d snaps"
    and same: "sd_events d' = sd_events d" "safe d' = safe d" "sd_horizons d' = sd_horizons d"
    and grow: "sd_seq d \<le> sd_seq d'" and cur: "\<And>k. cursor_of k d' \<le> safe d"
  shows "tables_ok hist d' snaps"
proof -
  have hz: "horizon s d' = horizon s d" for s using horizon_cong [OF same(3)] .
  have db: "db_ok hist d'"
    using db_okD [OF tables_okD(1) [OF ok]] cur unfolding db_ok_def hz same(2) covers_cong [OF same] by (intro conjI allI)
  show ?thesis
    unfolding tables_ok_def same(1,2) hz
    using db tables_okD(2-7) [OF ok] grow by (intro conjI ballI) (blast intro: order_trans)+
qed

lemma cursor_of_cong: "sd_cursors d' = sd_cursors d \<Longrightarrow> cursor_of k d' = cursor_of k d"
  by (simp add: cursor_of_def)

lemma writers_cong:
  assumes "writers_ok w" and "sw_fence w' = sw_fence w" "sw_writers w' = sw_writers w" "sw_hist w' = sw_hist w"
    "safe (sw_db w') = safe (sw_db w)" "sd_seq (sw_db w') = sd_seq (sw_db w)"
  shows "writers_ok w'"
  using assms(1) unfolding writers_ok_def assms(2-6) .

lemma marker_cong:
  assumes "marker_ok w" and "sw_fence w' = sw_fence w" "sw_marker w' = sw_marker w" "sd_seq (sw_db w') = sd_seq (sw_db w)"
  shows "marker_ok w'"
  using assms(1) unfolding marker_ok_def assms(2-4) .

text \<open>A step that leaves events, horizons, the safe sequence and the sequence alone.\<close>

lemma quiet_inv:
  assumes inv: "stream_inv w"
    and same: "sd_events d' = sd_events (sw_db w)" "safe d' = safe (sw_db w)" "sd_horizons d' = sd_horizons (sw_db w)"
      "sd_seq d' = sd_seq (sw_db w)"
    and cur: "\<And>k. cursor_of k d' \<le> safe (sw_db w)"
  shows "stream_inv (w\<lparr>sw_db := d', sw_views := v\<rparr>)"
  unfolding stream_inv_def
proof (intro conjI)
  show "tables_ok (sw_hist (w\<lparr>sw_db := d', sw_views := v\<rparr>)) (sw_db (w\<lparr>sw_db := d', sw_views := v\<rparr>)) (sw_snaps (w\<lparr>sw_db := d', sw_views := v\<rparr>))"
    using tables_same [OF stream_invD(1) [OF inv] same(1-3) eq_refl [OF same(4) [symmetric]] cur] by simp
  show "writers_ok (w\<lparr>sw_db := d', sw_views := v\<rparr>)" using same by (intro writers_cong [OF stream_invD(2) [OF inv]]) simp_all
  show "marker_ok (w\<lparr>sw_db := d', sw_views := v\<rparr>)" using same by (intro marker_cong [OF stream_invD(3) [OF inv]]) simp_all
qed

lemma quiet_db_inv:
  assumes "stream_inv w" "sd_events d' = sd_events (sw_db w)" "safe d' = safe (sw_db w)" "sd_horizons d' = sd_horizons (sw_db w)"
      "sd_seq d' = sd_seq (sw_db w)" "sd_cursors d' = sd_cursors (sw_db w)"
  shows "stream_inv (w\<lparr>sw_db := d'\<rparr>)"
proof -
  have "cursor_of k d' \<le> safe (sw_db w)" for k
    unfolding cursor_of_cong [OF assms(6)] by (rule stream_inv_cursor [OF assms(1)])
  from quiet_inv [OF assms(1-5) this, of "sw_views w"] show ?thesis by simp
qed


section \<open>What the consumer's transactions do\<close>

lemma stmt_Inr: "stmt env s r = Inr x \<Longrightarrow> r = Inr x"
  by (auto simp: stmt_def split: option.splits)

lemma lock_cursor_Inr:
  assumes "lock_cursor env k snap cur = Inr (tx, cursor)"
  shows "tx_snap tx = snap \<and> cursor = cursor_of k cur \<and> (\<exists>r. tx_row k tx = Some r \<and> cc_seq r = cursor) \<and>
    (tx_own tx = None \<and> map_of (sd_cursors snap) k = map_of (sd_cursors cur) k \<or>
     map_of (sd_cursors cur) k = None \<and> map_of (sd_cursors snap) k = None \<and> (\<exists>r. tx_own tx = Some r \<and> cc_seq r = 0))"
proof -
  from assms have ens: "EnsureConsumerCursor (pv_strict env) (pv_now env) k cur \<lparr>tx_snap = snap, tx_own = None\<rparr> = Inr tx"
    and lock: "GetConsumerCursorForUpdate k cur tx = Inr cursor"
    by (auto simp: lock_cursor_def dest!: stmt_Inr split: sum.splits if_splits)
  show ?thesis
  proof (cases "tx_own tx")
    case None
    with ens have "tx = \<lparr>tx_snap = snap, tx_own = None\<rparr>"
      by (auto simp: EnsureConsumerCursor_def split: if_splits)
    with lock show ?thesis
      by (auto simp: GetConsumerCursorForUpdate_def tx_row_def cursor_of_def split: option.splits if_splits)
  next
    case (Some r)
    with ens lock show ?thesis
      by (auto simp: EnsureConsumerCursor_def GetConsumerCursorForUpdate_def tx_row_def cursor_of_def split: if_splits)
  qed
qed

lemma cursor_of_update:
  "cursor_of k' (d\<lparr>sd_cursors := AList.update k r (sd_cursors d)\<rparr>) = (if k' = k then cc_seq r else cursor_of k' d)"
  by (simp add: cursor_of_def AList.update_conv')

text \<open>A transaction that wrote the row, and one that did not, as the other tables and cursors see it.\<close>

definition only_cursor :: "cursor_key \<Rightarrow> int \<Rightarrow> stream_db \<Rightarrow> stream_db \<Rightarrow> bool" where
  "only_cursor k n d d' \<longleftrightarrow> sd_events d' = sd_events d \<and> sd_watermark d' = sd_watermark d \<and> sd_horizons d' = sd_horizons d \<and>
     sd_seq d' = sd_seq d \<and> cursor_of k d' = n \<and> (\<forall>k'. k' \<noteq> k \<longrightarrow> cursor_of k' d' = cursor_of k' d)"

lemma only_cursor_at: "only_cursor k n d d' \<Longrightarrow> cursor_of k' d' = (if k' = k then n else cursor_of k' d)"
  by (simp add: only_cursor_def del: split_paired_All)

lemma only_cursor_refl: "only_cursor k (cursor_of k d) d d"
  by (simp add: only_cursor_def)

lemma only_cursor_commit:
  assumes "tx_own tx = Some r" "cc_seq r = n"
  shows "only_cursor k n d (commit_tx k tx d)"
  using assms by (simp add: only_cursor_def commit_tx_def cursor_of_update)

lemma only_cursor_unwritten: "tx_own tx = None \<Longrightarrow> only_cursor k (cursor_of k d) d (commit_tx k tx d)"
  by (simp add: commit_tx_def only_cursor_refl)

lemma finish_tx_effect:
  assumes "finish_tx env what k tx p' ok cur p = (d, q, r)"
  shows "d = commit_tx k tx cur \<and> q = p' \<or> d = cur \<and> q = p"
  using assms by (auto simp: finish_tx_def split: option.splits prod.splits if_splits)

lemma apply_events_cursor:
  "apply_events h cursor es p = Inr (cursor', p') \<Longrightarrow> cursor' = (if es = [] then cursor else ev_seq (last es))"
proof (induction es arbitrary: cursor p)
  case (Cons e es)
  then obtain q where "apply_events h (ev_seq e) es q = Inr (cursor', p')" by (auto split: sum.splits)
  with Cons.IH show ?case by fastforce
qed simp

text \<open>
  Whatever fails, a page either changes neither the cursor nor the consumer's tables, or it applies the whole
  page it read and moves the cursor to its last event.
\<close>

lemma deliverPage_effect:
  assumes run: "deliverPage c h k env snap cur p = (d, q, r)"
  shows "only_cursor k (cursor_of k cur) cur d \<and> q = p \<or>
    (\<exists>es n. es = table_page (snd k) (cursor_of k cur) (nat (wrap32 (cl_batchSize c))) snap \<and> es \<noteq> [] \<and>
      horizon (snd k) snap \<le> cursor_of k cur \<and> apply_events h (cursor_of k cur) es p = Inr (n, q) \<and> n = ev_seq (last es) \<and>
      only_cursor k n cur d)"
proof (cases "lock_cursor env k snap cur")
  case (Inl e)
  with run show ?thesis by (simp add: deliverPage_def only_cursor_refl)
next
  case (Inr x)
  obtain tx cursor where x: "x = (tx, cursor)" by fastforce
  note lock = lock_cursor_Inr [OF Inr [unfolded x]]
  then obtain r0 where r0: "tx_row k tx = Some r0" "cc_seq r0 = cursor" and cu: "cursor = cursor_of k cur" by blast
  have resync: "only_cursor k (cursor_of k cur) cur (commit_tx k (RecordConsumerResync now k tx) cur)" for now
    using r0 cu by (auto simp: RecordConsumerResync_def write_row_def intro!: only_cursor_commit)
  have move: "only_cursor k n cur (commit_tx k (UpdateConsumerCursor now k n tx) cur)" for n now
    using r0 by (auto simp: UpdateConsumerCursor_def write_row_def intro!: only_cursor_commit)
  have idle: "only_cursor k (cursor_of k cur) cur (commit_tx k tx cur)"
  proof (cases "tx_own tx")
    case None
    then show ?thesis by (rule only_cursor_unwritten)
  next
    case (Some r)
    with lock have "cc_seq r = cursor_of k cur" by (auto simp: cursor_of_def)
    with Some show ?thesis by (rule only_cursor_commit)
  qed
  note run' = run [unfolded deliverPage_def, simplified Inr x, simplified, unfolded stmt_def]
  show ?thesis
  proof (cases "cursor < horizon (snd k) snap")
    case True
    with run' show ?thesis
      by (auto simp: cu only_cursor_refl resync split: option.splits dest!: finish_tx_effect)
  next
    case False
    show ?thesis
    proof (cases "\<exists>q' n. apply_events h cursor (table_page (snd k) cursor (nat (wrap32 (cl_batchSize c))) snap) p = Inr (n, q') \<and>
        \<not> wrap32 (cl_batchSize c) < 0")
      case app: True
      then obtain q' n where a: "apply_events h cursor (table_page (snd k) cursor (nat (wrap32 (cl_batchSize c))) snap) p = Inr (n, q')"
        and nn: "\<not> wrap32 (cl_batchSize c) < 0" by blast
      let ?es = "table_page (snd k) cursor (nat (wrap32 (cl_batchSize c))) snap"
      note n = apply_events_cursor [OF a]
      have pg: "PageChangeEvents (snd k) cursor (safe snap) (wrap32 (cl_batchSize c)) snap = Inr ?es"
        using nn by (simp add: PageChangeEvents_def table_page_def)
      show ?thesis
      proof (cases "?es = []")
        case True
        with a have "q' = p" by simp
        with run' pg a True False idle show ?thesis
          by (auto simp: cu only_cursor_refl split: option.splits dest!: finish_tx_effect)
      next
        case ne: False
        with run' pg a False n move [of "ev_seq (last ?es)"] show ?thesis
          by (auto simp: cu only_cursor_refl not_less split: option.splits dest!: finish_tx_effect)
      qed
    next
      case app: False
      have "only_cursor k (cursor_of k cur) cur d \<and> q = p"
        using run' False app
        by (auto simp: cu only_cursor_refl PageChangeEvents_def table_page_def GetStreamSafeSequence_def
            split: option.splits sum.splits if_splits)
      then show ?thesis ..
    qed
  qed
qed


text \<open>A bootstrap moves the cursor to the safe sequence of its snapshot, together with the replacement, or does nothing.\<close>

lemma bootstrap_effect:
  assumes b: "Bootstrap env k snap cur = Inr s"
    and com: "Snapshot_Commit fail (Some (with_projection q s)) cur p = (s', d, p', err)"
  shows "only_cursor k (cursor_of k cur) cur d \<and> p' = p \<or>
    only_cursor k (safe snap) cur d \<and> p' = (case q of None \<Rightarrow> p | Some x \<Rightarrow> x) \<and> cursor_of k cur = cursor_of k snap"
proof -
  from b obtain tx tx' prior where
    ens: "EnsureConsumerCursor (pv_strict env) (pv_now env) k cur \<lparr>tx_snap = snap, tx_own = None\<rparr> = Inr tx"
    and lock: "GetConsumerCursorForUpdate k cur tx = Inr prior"
    and tx': "tx' = UpdateConsumerCursor (pv_now env) k (safe snap) tx"
    and s: "s = \<lparr>sn_safeSeq = safe snap, sn_priorSeq = prior,
      sn_tx = Some \<lparr>sx_key = k, sx_tx = tx', sx_projection = None, sx_done = False\<rparr>, sn_closed = False\<rparr>"
    by (auto simp: Bootstrap_def dest!: stmt_Inr split: sum.splits option.splits if_splits)
  have "\<exists>r. tx_row k tx = Some r" and same: "cursor_of k cur = cursor_of k snap"
    using ens lock
    by (auto simp: EnsureConsumerCursor_def GetConsumerCursorForUpdate_def tx_row_def cursor_of_def split: option.splits if_splits)
  then have move: "only_cursor k (safe snap) cur (commit_tx k tx' cur)"
    unfolding tx' by (auto simp: UpdateConsumerCursor_def write_row_def intro!: only_cursor_commit)
  have "d = commit_tx k tx' cur \<and> p' = (case q of None \<Rightarrow> p | Some x \<Rightarrow> x) \<or> d = cur \<and> p' = p"
    using com by (auto simp: s with_projection_def Snapshot_Commit_def sx_commit_def Let_def split: option.splits prod.splits if_splits)
  then show ?thesis using move same only_cursor_refl [of k cur] by auto
qed

section \<open>Preservation\<close>

lemma only_cursor_inv:
  assumes inv: "stream_inv w" and oc: "only_cursor k n (sw_db w) d" and n: "n \<le> safe (sw_db w)"
  shows "stream_inv (w\<lparr>sw_db := d, sw_views := v\<rparr>)"
proof (rule quiet_inv [OF inv])
  from oc show "sd_events d = sd_events (sw_db w)" "safe d = safe (sw_db w)" "sd_horizons d = sd_horizons (sw_db w)"
    "sd_seq d = sd_seq (sw_db w)" by (simp_all add: only_cursor_def GetStreamSafeSequence_def)
  fix k'
  from only_cursor_at [OF oc, of k'] n stream_inv_cursor [OF inv, of k'] show "cursor_of k' d \<le> safe (sw_db w)" by simp
qed

lemma page_inv:
  assumes inv: "stream_inv w" and snap: "snap \<in> set (sw_snaps w)"
    and run: "deliverPage c h k env snap (sw_db w) p = (d, q, r)"
  shows "stream_inv (w\<lparr>sw_db := d, sw_views := v\<rparr>)"
  using deliverPage_effect [OF run]
proof (elim disjE exE conjE)
  assume "only_cursor k (cursor_of k (sw_db w)) (sw_db w) d"
  from only_cursor_inv [OF inv this stream_inv_cursor [OF inv]] show ?thesis .
next
  fix es n
  assume es: "es = table_page (snd k) (cursor_of k (sw_db w)) (nat (wrap32 (cl_batchSize c))) snap" "es \<noteq> []"
    and n: "n = ev_seq (last es)" and oc: "only_cursor k n (sw_db w) d"
  have "last es \<in> set es" using es(2) by simp
  then have "n \<le> safe snap" using es(1) n by (auto simp: table_page_def dest!: in_set_takeD)
  also have "safe snap \<le> safe (sw_db w)" by (rule tables_okD(7) [OF stream_invD(1) [OF inv] snap])
  finally show ?thesis by (rule only_cursor_inv [OF inv oc])
qed

lemma bootstrap_inv:
  assumes inv: "stream_inv w" and snap: "snap \<in> set (sw_snaps w)"
    and b: "Bootstrap env k snap (sw_db w) = Inr s"
    and com: "Snapshot_Commit fail (Some (with_projection q s)) (sw_db w) p = (s', d, p', err)"
  shows "stream_inv (w\<lparr>sw_db := d, sw_views := v\<rparr>)"
  using bootstrap_effect [OF b com] tables_okD(7) [OF stream_invD(1) [OF inv] snap]
    only_cursor_inv [OF inv _ stream_inv_cursor [OF inv]] only_cursor_inv [OF inv] by blast

subsection \<open>Writers\<close>

text \<open>Committing rows above the safe sequence keeps every snapshot's view of the published events.\<close>

lemma db_ok_append:
  assumes ok: "db_ok hist d" and new: "\<And>e. e \<in> set es \<Longrightarrow> safe d < ev_seq e"
    and dist: "distinct (map ev_seq (hist @ es))"
  shows "db_ok (hist @ es) d"
proof -
  note cov = coversD [OF db_okD(1) [OF ok]]
  have "e \<in> set (sd_events d) \<or> ev_seq e \<le> horizon (ev_stream e) d"
    if "e \<in> set (hist @ es)" "ev_seq e \<le> safe d" for e
    using that cov(4) [of e] new [of e] by auto
  then have "covers (hist @ es) d" unfolding covers_def using dist cov(2,3) by auto
  with db_okD(2-4) [OF ok] show ?thesis unfolding db_ok_def by blast
qed

lemma tables_commit:
  assumes ok: "tables_ok hist d snaps" and new: "\<And>e. e \<in> set es \<Longrightarrow> safe d < ev_seq e \<and> ev_seq e \<le> sd_seq d"
    and dist: "distinct (map ev_seq (hist @ es))"
  shows "tables_ok (hist @ es) (d\<lparr>sd_events := sd_events d @ es\<rparr>) snaps"
proof -
  let ?d = "d\<lparr>sd_events := sd_events d @ es\<rparr>"
  have sf: "safe ?d = safe d" and hz: "horizon s ?d = horizon s d" and cu: "cursor_of k ?d = cursor_of k d" for s k
    by (simp_all add: GetStreamSafeSequence_def GetStreamPrunedThroughSequence_def cursor_of_def)
  note db = tables_okD(1) [OF ok]
  have "db_ok (hist @ es) d" using db_ok_append [OF db _ dist] new by blast
  note app = this
  have inter: "set (sd_events d) \<subseteq> set hist" by (rule coversD(2) [OF db_okD(1) [OF db]])
  have "distinct (map ev_seq (sd_events d @ es))"
    using coversD(3) [OF db_okD(1) [OF db]] dist inter by auto
  then have "covers (hist @ es) ?d"
    unfolding covers_def sf hz using coversD(1,4) [OF db_okD(1) [OF app]] inter by auto
  then have 1: "db_ok (hist @ es) ?d" unfolding db_ok_def sf hz cu using db_okD(2-4) [OF db] by blast
  have 2: "db_ok (hist @ es) snap \<and> safe snap \<le> safe ?d" if "snap \<in> set snaps" for snap
  proof -
    have "safe snap < ev_seq e" if "e \<in> set es" for e
      using new [OF that] tables_okD(7) [OF ok \<open>snap \<in> set snaps\<close>] by linarith
    from db_ok_append [OF tables_okD(6) [OF ok that] this dist] show ?thesis
      using tables_okD(7) [OF ok that] by (simp add: sf)
  qed
  have 3: "0 < ev_seq e \<and> ev_seq e \<le> sd_seq ?d \<and> (e \<in> set (sd_events ?d) \<or> ev_seq e \<le> horizon (ev_stream e) ?d)"
    if "e \<in> set (hist @ es)" for e
    using that tables_okD(3-5) [OF ok, of e] new [of e] db_okD(2) [OF db] by (auto simp: hz)
  show ?thesis unfolding tables_ok_def using 1 2 3 tables_okD(2) [OF ok] by (simp add: sf)
qed


subsection \<open>Retention\<close>

lemma max_seq_ge: "e \<in> set es \<Longrightarrow> ev_seq e \<le> max_seq es"
  by (induction es rule: max_seq.induct) auto

lemma max_seq_in: "es \<noteq> [] \<Longrightarrow> max_seq es \<in> ev_seq ` set es"
  by (induction es rule: max_seq.induct) (auto simp: max_def)

lemma mset_insort_event: "mset (insort_event e es) = add_mset e (mset es)"
  by (induction es) auto

lemma mset_order_events [simp]: "mset (order_events es) = mset es"
  by (induction es) (simp_all add: order_events_def mset_insort_event)

lemma set_order_events [simp]: "set (order_events es) = set es"
  by (metis mset_order_events set_mset_mset)

lemma doomed_expired: "e \<in> set (doomed cutoff n locked d) \<Longrightarrow> e \<in> set (sd_events d) \<and> expired cutoff d e \<and> \<not> locked e"
  by (auto simp: doomed_def dest!: in_set_takeD)

definition horizon_in :: "(string \<times> horizon_row) list \<Rightarrow> string \<Rightarrow> int" where
  "horizon_in rows s = (case map_of rows s of None \<Rightarrow> 0 | Some r \<Rightarrow> hz_prunedThrough r)"

lemma horizon_in: "horizon s d = horizon_in (sd_horizons d) s"
  by (simp add: horizon_in_def GetStreamPrunedThroughSequence_def)

lemma horizon_in_advance:
  "0 \<le> n \<Longrightarrow> horizon_in rows s' \<le> horizon_in (advance_horizon now s n rows) s'"
  "n \<le> horizon_in (advance_horizon now s n rows) s"
  "n \<le> b \<Longrightarrow> horizon_in rows s' \<le> b \<Longrightarrow> horizon_in (advance_horizon now s n rows) s' \<le> b"
  by (auto simp: horizon_in_def advance_horizon_def AList.update_conv' split: option.splits)

lemma horizon_in_fold:
  assumes "\<And>s. s \<in> set ss \<Longrightarrow> 0 \<le> g s"
  shows "horizon_in rows s' \<le> horizon_in (fold (\<lambda>s. advance_horizon now s (g s)) ss rows) s'"
    and "s' \<in> set ss \<Longrightarrow> g s' \<le> horizon_in (fold (\<lambda>s. advance_horizon now s (g s)) ss rows) s'"
    and "(\<And>s. s \<in> set ss \<Longrightarrow> g s \<le> b) \<Longrightarrow> horizon_in rows s' \<le> b \<Longrightarrow>
      horizon_in (fold (\<lambda>s. advance_horizon now s (g s)) ss rows) s' \<le> b"
  using assms
proof (induction ss arbitrary: rows)
  case (Cons s ss)
  { case (1 rows)
    let ?r = "advance_horizon now s (g s) rows"
    have "horizon_in rows s' \<le> horizon_in ?r s'" by (rule horizon_in_advance(1)) (simp add: 1)
    also have "\<dots> \<le> horizon_in (fold (\<lambda>s. advance_horizon now s (g s)) ss ?r) s'" by (rule Cons.IH(1)) (simp add: 1)
    finally show ?case by simp
  next
    case (2 rows)
    let ?r = "advance_horizon now s (g s) rows"
    show ?case
    proof (cases "s' = s")
      case True
      have "g s' \<le> horizon_in ?r s'" unfolding True by (rule horizon_in_advance(2))
      also have "\<dots> \<le> horizon_in (fold (\<lambda>s. advance_horizon now s (g s)) ss ?r) s'" by (rule Cons.IH(1)) (simp add: 2)
      finally show ?thesis by simp
    next
      case False
      from False 2 Cons.IH(2) [of ?r] show ?thesis by simp
    qed
  next
    case (3 rows)
    let ?r = "advance_horizon now s (g s) rows"
    from 3 Cons.IH(3) [of ?r] horizon_in_advance(3) [of "g s" b rows s' now s] show ?case by simp
  }
qed simp_all

text \<open>One batch: what is gone was expired and lies at or below its stream's new horizon, which never exceeds the safe sequence.\<close>

lemma prune_effect:
  assumes run: "PruneChangeEvents cutoff limit locked now d = Inr (d', n)" and pos: "\<forall>e \<in> set (sd_events d). 0 < ev_seq e"
    and hz: "\<forall>s. horizon s d \<le> safe d"
  shows "sd_watermark d' = sd_watermark d" "sd_seq d' = sd_seq d" "sd_cursors d' = sd_cursors d"
    "\<exists>P. sd_events d' = filter P (sd_events d)"
    "e \<in> set (sd_events d) \<Longrightarrow> e \<notin> set (sd_events d') \<Longrightarrow> ev_seq e \<le> horizon (ev_stream e) d' \<or> (\<exists>e' \<in> set (sd_events d). e' \<noteq> e \<and> ev_seq e' = ev_seq e)"
    "horizon s d \<le> horizon s d'" "horizon s d' \<le> safe d"
proof -
  define es where "es = doomed cutoff (nat limit) locked d"
  define g where "g s = max_seq (filter (\<lambda>e. ev_stream e = s) es)" for s
  from run have d': "d' = d\<lparr>sd_events := filter (\<lambda>e. ev_seq e \<notin> ev_seq ` set es) (sd_events d),
      sd_horizons := advance_horizons now es (sd_horizons d)\<rparr>"
    by (auto simp: PruneChangeEvents_def Let_def es_def split: if_splits)
  show "sd_watermark d' = sd_watermark d" "sd_seq d' = sd_seq d" "sd_cursors d' = sd_cursors d"
    "\<exists>P. sd_events d' = filter P (sd_events d)" by (auto simp: d')
  have mem: "e \<in> set (sd_events d)" "ev_seq e \<le> safe d" if "e \<in> set es" for e
    using doomed_expired that by (auto simp: es_def expired_def GetStreamSafeSequence_def)
  have g_in: "\<exists>e \<in> set es. g s = ev_seq e" if "s \<in> set (remdups (map ev_stream es))" for s
  proof -
    have "filter (\<lambda>e. ev_stream e = s) es \<noteq> []" using that by (auto simp: filter_empty_conv)
    from max_seq_in [OF this] show ?thesis by (auto simp: g_def)
  qed
  have g: "0 \<le> g s" "g s \<le> safe d" if "s \<in> set (remdups (map ev_stream es))" for s
    using g_in [OF that] mem pos by (auto intro: less_imp_le)
  have adv: "horizon s d' = horizon_in (fold (\<lambda>s. advance_horizon now s (g s)) (remdups (map ev_stream es)) (sd_horizons d)) s" for s
    by (simp add: d' horizon_in advance_horizons_def g_def)
  show "horizon s d \<le> horizon s d'" unfolding adv unfolding horizon_in using g(1) by (rule horizon_in_fold(1))
  show "horizon s d' \<le> safe d" unfolding adv
    by (rule horizon_in_fold(3)) (use g hz [THEN spec, of s] in \<open>auto simp: horizon_in\<close>)
  have es_le: "ev_seq e' \<le> horizon (ev_stream e') d'" if "e' \<in> set es" for e'
  proof -
    have "ev_seq e' \<le> g (ev_stream e')" using that max_seq_ge unfolding g_def by simp
    also have "\<dots> \<le> horizon (ev_stream e') d'"
      unfolding adv using g(1) by (rule horizon_in_fold(2)) (use that in auto)
    finally show ?thesis .
  qed
  show "ev_seq e \<le> horizon (ev_stream e) d' \<or> (\<exists>e' \<in> set (sd_events d). e' \<noteq> e \<and> ev_seq e' = ev_seq e)"
    if "e \<in> set (sd_events d)" "e \<notin> set (sd_events d')"
  proof -
    from that obtain e' where e': "e' \<in> set es" "ev_seq e' = ev_seq e" by (auto simp: d')
    then show ?thesis using es_le [of e'] mem(1) [of e'] by (cases "e' = e") auto
  qed
qed

lemma tables_prune:
  assumes ok: "tables_ok hist d snaps" and run: "PruneChangeEvents cutoff limit locked now d = Inr (d', n)"
  shows "tables_ok hist d' snaps"
proof -
  note db = tables_okD(1) [OF ok] and cov = coversD [OF db_okD(1) [OF tables_okD(1) [OF ok]]]
  have pos: "\<forall>e \<in> set (sd_events d). 0 < ev_seq e" using tables_okD(3) [OF ok] cov(2) by blast
  note eff = prune_effect [OF run pos allI [OF db_okD(3) [OF db]]]
  have sf: "safe d' = safe d" using eff(1) by (simp add: GetStreamSafeSequence_def)
  obtain P where P: "sd_events d' = filter P (sd_events d)" using eff(4) by blast
  have gone: "ev_seq e \<le> horizon (ev_stream e) d'" if e: "e \<in> set hist" "e \<notin> set (sd_events d')" for e
  proof (cases "e \<in> set (sd_events d)")
    case True
    have "e' = e" if "e' \<in> set (sd_events d)" "ev_seq e' = ev_seq e" for e'
      using cov(3) that True by (auto simp: distinct_map dest: inj_onD)
    with eff(5) [OF True e(2)] show ?thesis by blast
  next
    case False
    from tables_okD(5) [OF ok e(1) this] eff(6) [of "ev_stream e"] show ?thesis by linarith
  qed
  have "covers hist d'" unfolding covers_def P using cov(1-3) gone P by (auto simp: distinct_map_filter)
  then have "db_ok hist d'"
    unfolding db_ok_def sf cursor_of_cong [OF eff(3)] using db_okD(2,4) [OF db] eff(7) by blast
  then show ?thesis
    unfolding tables_ok_def sf eff(2) using tables_okD(2-4,6,7) [OF ok] gone by blast
qed


subsection \<open>The fence\<close>

lemma insert_change_event_Inr:
  assumes "insert_change_event x f st kind entity at payload d = (d', Inr e)"
  shows "d' = d\<lparr>sd_seq := sd_seq d + 1\<rparr>" "ev_seq e = sd_seq d + 1" "x \<in> set (fn_shared f)"
  using assms by (auto simp: insert_change_event_def Let_def split: if_splits)

lemma insert_change_event_Inl:
  assumes "insert_change_event x f st kind entity at payload d = (d', Inl err)"
  shows "\<exists>n \<ge> sd_seq d. d' = d\<lparr>sd_seq := n\<rparr>"
proof -
  from assms have "d' = d \<or> d' = d\<lparr>sd_seq := sd_seq d + 1\<rparr>"
    by (auto simp: insert_change_event_def Let_def split: if_splits)
  then show ?thesis by (auto intro: exI [of _ "sd_seq d"] exI [of _ "sd_seq d + 1"])
qed

lemma seq_tables:
  assumes "tables_ok hist d snaps" "sd_seq d \<le> n"
  shows "tables_ok hist (d\<lparr>sd_seq := n\<rparr>) snaps"
proof (rule tables_same [OF assms(1)])
  show "cursor_of k (d\<lparr>sd_seq := n\<rparr>) \<le> safe d" for k
    using db_okD(4) [OF tables_okD(1) [OF assms(1)], of k] by (simp add: cursor_of_def)
qed (use assms(2) in \<open>simp_all add: GetStreamSafeSequence_def\<close>)

lemma safe_seq [simp]: "safe (d\<lparr>sd_seq := n\<rparr>) = safe d" "safe (d\<lparr>sd_events := es\<rparr>) = safe d"
  by (simp_all add: GetStreamSafeSequence_def)

lemma release_shared [simp]: "set (fn_shared (release_fence x f)) = set (fn_shared f) - {x}"
  by (simp add: release_fence_def)

lemma writer_insert_inv:
  assumes inv: "stream_inv w"
    and ins: "insert_change_event x (sw_fence w) st kind entity at payload (sw_db w) = (d, Inr e)"
  shows "stream_inv (w\<lparr>sw_db := d, sw_writers := (sw_writers w)(x := sw_writers w x @ [e])\<rparr>)" (is "stream_inv ?w")
proof -
  note eff = insert_change_event_Inr [OF ins] and wr = writers_okD [OF stream_invD(2) [OF inv]]
  note tab = stream_invD(1) [OF inv]
  have "tables_ok (sw_hist w) d (sw_snaps w)" unfolding eff(1) by (rule seq_tables [OF tab]) simp
  moreover have "writers_ok ?w" unfolding writers_ok_def
  proof (intro conjI allI ballI impI)
    have fresh: "ev_seq e' < ev_seq e" if "e' \<in> set (sw_writers w y) \<or> e' \<in> set (sw_hist w)" for e' y
      using that wr(3) [of e' y] tables_okD(4) [OF tab, of e'] eff(2) by auto
    have unused: "ev_seq e \<notin> ev_seq ` set (sw_writers w y)" for y using fresh [of _ y] by fastforce
    fix y z
    show "sw_writers ?w y = []" if "y \<notin> set (fn_shared (sw_fence ?w))" using that wr(1) [of y] eff(3) by auto
    show "safe (sw_db ?w) < ev_seq e'" if "e' \<in> set (sw_writers ?w y)" for e'
      using that wr(2) [of e'] eff(1,2) tables_okD(2) [OF tab] by (auto split: if_splits)
    show "ev_seq e' \<le> sd_seq (sw_db ?w)" if "e' \<in> set (sw_writers ?w y)" for e'
      using that wr(3) [of e'] eff(1,2) by (auto split: if_splits dest: less_imp_le) (meson add_increasing2 zero_le_one)+
    show "distinct (map ev_seq (sw_writers ?w y))" using wr(4) [of y] fresh by (fastforce split: if_splits)
    show "ev_seq ` set (sw_writers ?w y) \<inter> ev_seq ` set (sw_hist ?w) = {}"
      using wr(5) [of y] fresh by (fastforce split: if_splits)
    show "ev_seq ` set (sw_writers ?w y) \<inter> ev_seq ` set (sw_writers ?w z) = {}" if "y \<noteq> z"
      using that wr(6) [OF that] unused [of y] unused [of z] by (auto split: if_splits)
  qed
  moreover have "marker_ok ?w"
    using stream_invD(3) [OF inv] eff(1,3) unfolding marker_ok_def by (auto split: option.splits prod.splits)
  ultimately show ?thesis by (simp add: stream_inv_def)
qed

text \<open>The end of a writer transaction, with the rows it leaves behind.\<close>

lemma writer_end_inv:
  assumes inv: "stream_inv w" and rows: "rows = [] \<or> rows = sw_writers w x \<and> x \<in> set (fn_shared (sw_fence w))"
    and ex: "fn_exclusive (sw_fence w) \<noteq> Some x" and n: "sd_seq (sw_db w) \<le> n"
  shows "stream_inv (w\<lparr>sw_db := (sw_db w)\<lparr>sd_seq := n, sd_events := sd_events (sw_db w) @ rows\<rparr>, sw_hist := sw_hist w @ rows,
     sw_writers := (sw_writers w)(x := []), sw_fence := release_fence x (sw_fence w)\<rparr>)" (is "stream_inv ?w")
proof -
  note wr = writers_okD [OF stream_invD(2) [OF inv]] and tab = stream_invD(1) [OF inv]
  let ?d = "(sw_db w)\<lparr>sd_seq := n\<rparr>"
  note tab' = seq_tables [OF tab n]
  have "tables_ok (sw_hist w @ rows) (?d\<lparr>sd_events := sd_events ?d @ rows\<rparr>) (sw_snaps w)"
  proof (rule tables_commit [OF tab'])
    show "safe ?d < ev_seq e \<and> ev_seq e \<le> sd_seq ?d" if "e \<in> set rows" for e
      using that rows wr(2) [of e x] wr(3) [of e x] n by auto
    show "distinct (map ev_seq (sw_hist w @ rows))"
      using rows wr(4) [of x] wr(5) [of x] coversD(1) [OF db_okD(1) [OF tables_okD(1) [OF tab]]] by auto
  qed
  moreover have "writers_ok ?w" unfolding writers_ok_def
  proof (intro conjI allI ballI impI)
    fix y z
    show "sw_writers ?w y = []" if "y \<notin> set (fn_shared (sw_fence ?w))" using that wr(1) [of y] by auto
    show "safe (sw_db ?w) < ev_seq e" "ev_seq e \<le> sd_seq (sw_db ?w)" if "e \<in> set (sw_writers ?w y)" for e
      using that wr(2) [of e y] wr(3) [of e y] n by (auto split: if_splits)
    show "distinct (map ev_seq (sw_writers ?w y))" using wr(4) [of y] by simp
    show "ev_seq ` set (sw_writers ?w y) \<inter> ev_seq ` set (sw_hist ?w) = {}"
      using wr(5) [of y] wr(6) [of y x] rows by (auto split: if_splits)
    show "ev_seq ` set (sw_writers ?w y) \<inter> ev_seq ` set (sw_writers ?w z) = {}" if "y \<noteq> z"
      using wr(6) [OF that] by auto
  qed
  moreover have "marker_ok ?w"
    using stream_invD(3) [OF inv] ex n unfolding marker_ok_def by (auto simp: release_fence_def split: option.splits)
  ultimately show ?thesis by (simp add: stream_inv_def)
qed

subsection \<open>The watermark\<close>

lemma tables_publish:
  assumes ok: "tables_ok hist d snaps" and t: "safe d \<le> safe d'" "safe d' \<le> sd_seq d"
    and same: "sd_events d' = sd_events d" "sd_horizons d' = sd_horizons d" "sd_cursors d' = sd_cursors d" "sd_seq d' = sd_seq d"
  shows "tables_ok hist d' snaps"
proof -
  note db = tables_okD(1) [OF ok] and cov = coversD [OF db_okD(1) [OF tables_okD(1) [OF ok]]]
  note hz = horizon_cong [OF same(2)] and cu = cursor_of_cong [OF same(3)]
  have "covers hist d'" unfolding covers_def same(1) hz using cov(1-3) tables_okD(5) [OF ok] by blast
  then have "db_ok hist d'"
    unfolding db_ok_def hz cu using db_okD(2-4) [OF db] t(1) by (blast intro: order_trans)
  then show ?thesis
    unfolding tables_ok_def same hz using tables_okD(3-7) [OF ok] t by (blast intro: order_trans)
qed

lemma step_publish_Inr:
  assumes "step_publish m now prior target d = Inr (d', progress)"
  shows "d' = d \<or> safe d < target \<and> safe d' = target \<and> sd_events d' = sd_events d \<and> sd_horizons d' = sd_horizons d \<and>
    sd_cursors d' = sd_cursors d \<and> sd_seq d' = sd_seq d"
  using assms
  by (auto simp: step_publish_def PublishStreamWatermark_def GetStreamSafeSequence_def Let_def split: if_splits option.splits)

lemma marker_end_inv:
  assumes inv: "stream_inv w" and m: "sw_marker w = Some (x, m, prior, target)"
    and d: "d = sw_db w \<or> step_publish m now prior target (sw_db w) = Inr (d, progress)"
  shows "stream_inv (w\<lparr>sw_db := d, sw_marker := None, sw_fence := release_fence x (sw_fence w)\<rparr>)" (is "stream_inv ?w")
proof -
  note wr = writers_okD [OF stream_invD(2) [OF inv]] and tab = stream_invD(1) [OF inv]
  from stream_invD(3) [OF inv] m have fn: "fn_exclusive (sw_fence w) = Some x" "fn_shared (sw_fence w) = []"
    and t: "target \<le> sd_seq (sw_db w)" by (simp_all add: marker_ok_def)
  have eff: "d = sw_db w \<or> safe (sw_db w) < target \<and> safe d = target \<and> sd_events d = sd_events (sw_db w) \<and>
      sd_horizons d = sd_horizons (sw_db w) \<and> sd_cursors d = sd_cursors (sw_db w) \<and> sd_seq d = sd_seq (sw_db w)"
    using d step_publish_Inr by blast
  then have "tables_ok (sw_hist w) d (sw_snaps w)"
    using tab tables_publish [OF tab, of d] t by auto
  moreover have none: "sw_writers w y = []" for y using wr(1) [of y] fn by simp
  then have "writers_ok ?w" by (simp add: writers_ok_def)
  moreover have "marker_ok ?w" using fn by (simp add: marker_ok_def release_fence_def)
  ultimately show ?thesis by (simp add: stream_inv_def)
qed


lemma marker_read_inv:
  assumes inv: "stream_inv w" and fence: "AcquireWatermarkFence x (sw_fence w) = Some f" and x: "x \<notin> set (fn_shared (sw_fence w))"
    and rd: "step_read m now (sw_db w) = Inr (prior, target)"
  shows "stream_inv (w\<lparr>sw_fence := f, sw_marker := Some (x, m, prior, target)\<rparr>)" (is "stream_inv ?w")
proof -
  note tab = stream_invD(1) [OF inv]
  from fence have only: "\<forall>y \<in> set (fn_shared (sw_fence w)). y = x" and f2: "f = (sw_fence w)\<lparr>fn_exclusive := Some x\<rparr>"
    by (auto simp: AcquireWatermarkFence_def split: if_splits)
  have f1: "fn_shared (sw_fence w) = []" using only x by (cases "fn_shared (sw_fence w)") auto
  note f = f1 f2
  from rd have t: "target = max_seq (sd_events (sw_db w))"
    by (auto simp: step_read_def ReadStreamWatermarkTarget_def split: if_splits)
  have "target \<le> sd_seq (sw_db w)"
  proof (cases "sd_events (sw_db w) = []")
    case True
    then show ?thesis using t tables_okD(2) [OF tab] db_okD(2) [OF tables_okD(1) [OF tab]] by simp
  next
    case False
    from max_seq_in [OF this] obtain e where "e \<in> set (sd_events (sw_db w))" "target = ev_seq e" by (auto simp: t)
    then show ?thesis
      using coversD(2) [OF db_okD(1) [OF tables_okD(1) [OF tab]]] tables_okD(4) [OF tab] by blast
  qed
  then have "marker_ok ?w" by (simp add: marker_ok_def f)
  moreover have "writers_ok ?w" using stream_invD(2) [OF inv] by (simp add: writers_ok_def f)
  ultimately show ?thesis using tab by (simp add: stream_inv_def)
qed

lemma writer_begin_inv:
  assumes inv: "stream_inv w" and fence: "AcquireWriterFence x (sw_fence w) = Some f" and ex: "fn_exclusive (sw_fence w) \<noteq> Some x"
  shows "stream_inv (w\<lparr>sw_fence := f\<rparr>)"
proof -
  from fence ex have f: "f = (sw_fence w)\<lparr>fn_shared := List.insert x (fn_shared (sw_fence w))\<rparr>" "fn_exclusive (sw_fence w) = None"
    by (auto simp: AcquireWriterFence_def split: if_splits)
  then have "marker_ok (w\<lparr>sw_fence := f\<rparr>)"
    using stream_invD(3) [OF inv] by (auto simp: marker_ok_def split: option.splits)
  moreover have "writers_ok (w\<lparr>sw_fence := f\<rparr>)"
    using stream_invD(2) [OF inv] by (simp add: writers_ok_def f(1))
  ultimately show ?thesis using stream_invD(1) [OF inv] by (simp add: stream_inv_def)
qed

lemma prune_inv:
  assumes inv: "stream_inv w" and run: "PruneChangeEvents cutoff limit locked now (sw_db w) = Inr (d, n)"
  shows "stream_inv (w\<lparr>sw_db := d\<rparr>)"
proof -
  have same: "safe d = safe (sw_db w)" "sd_seq d = sd_seq (sw_db w)"
    using run by (auto simp: PruneChangeEvents_def GetStreamSafeSequence_def Let_def split: if_splits)
  show ?thesis
    unfolding stream_inv_def
    using tables_prune [OF stream_invD(1) [OF inv] run] writers_cong [OF stream_invD(2) [OF inv], of "w\<lparr>sw_db := d\<rparr>"]
      marker_cong [OF stream_invD(3) [OF inv], of "w\<lparr>sw_db := d\<rparr>"] same by simp
qed

lemma snapshot_inv:
  assumes inv: "stream_inv w"
  shows "stream_inv (w\<lparr>sw_snaps := sw_db w # sw_snaps w\<rparr>)"
proof -
  let ?w = "w\<lparr>sw_snaps := sw_db w # sw_snaps w\<rparr>"
  note tab = stream_invD(1) [OF inv]
  have "tables_ok (sw_hist w) (sw_db w) (sw_db w # sw_snaps w)" using tab tables_okD(1) [OF tab] by (simp add: tables_ok_def)
  moreover have "writers_ok ?w" by (rule writers_cong [OF stream_invD(2) [OF inv]]) simp_all
  moreover have "marker_ok ?w" by (rule marker_cong [OF stream_invD(3) [OF inv]]) simp_all
  ultimately show ?thesis by (simp add: stream_inv_def)
qed

lemma lease_fields:
  "acquireOrRenew interval now m d = (d', err) \<Longrightarrow> \<exists>r. d' = d\<lparr>sd_watermark := r\<rparr> \<and> wm_safeSeq r = wm_safeSeq (sd_watermark d)"
  "\<exists>r. release m d = d\<lparr>sd_watermark := r\<rparr> \<and> wm_safeSeq r = wm_safeSeq (sd_watermark d)"
  by (auto simp: acquireOrRenew_def AcquireOrRenewStreamWatermarkLease_def release_def ReleaseStreamWatermarkLease_def
      Let_def split: sum.splits option.splits if_splits intro: exI [of _ "sd_watermark d"])

lemma lease_inv:
  assumes inv: "stream_inv w" and d: "\<exists>r. d = (sw_db w)\<lparr>sd_watermark := r\<rparr> \<and> wm_safeSeq r = wm_safeSeq (sd_watermark (sw_db w))"
  shows "stream_inv (w\<lparr>sw_db := d\<rparr>)"
  by (rule quiet_db_inv [OF inv]) (use d in \<open>auto simp: GetStreamSafeSequence_def\<close>)

lemma marker_heartbeat_inv:
  assumes inv: "stream_inv w" and run: "step_heartbeat at now m (sw_db w) = (d, m', err)"
  shows "stream_inv (w\<lparr>sw_db := d\<rparr>)"
  by (rule quiet_db_inv [OF inv])
    (use run in \<open>auto simp: step_heartbeat_def GetStreamSafeSequence_def split: if_splits sum.splits\<close>)

lemma exclusive_not_shared:
  assumes inv: "stream_inv w" and "x \<in> set (fn_shared (sw_fence w))"
  shows "fn_exclusive (sw_fence w) \<noteq> Some x"
  using stream_invD(3) [OF inv] assms(2) by (auto simp: marker_ok_def split: option.splits)

lemma stream_step_inv: "stream_step c h w w' \<Longrightarrow> stream_inv w \<Longrightarrow> stream_inv w'"
proof (induction rule: stream_step.induct)
  case (writer_begin x w f)
  then show ?case by (simp add: writer_begin_inv)
next
  case (writer_insert x w st kind entity at payload d e)
  then show ?case by (simp add: writer_insert_inv)
next
  case (writer_reject x w st kind entity at payload d err)
  from insert_change_event_Inl [OF writer_reject(1)] obtain n where n: "sd_seq (sw_db w) \<le> n" "d = (sw_db w)\<lparr>sd_seq := n\<rparr>" by blast
  from writer_end_inv [OF writer_reject(3) disjI1 [OF refl] writer_reject(2) n(1)] show ?case by (simp add: n)
next
  case (writer_commit x w)
  from writer_end_inv [OF writer_commit(2) disjI2 [OF conjI [OF refl writer_commit(1)]]
      exclusive_not_shared [OF writer_commit(2,1)] order_refl]
  show ?case by simp
next
  case (writer_rollback x w)
  from writer_end_inv [OF writer_rollback(2) disjI1 [OF refl] exclusive_not_shared [OF writer_rollback(2,1)] order_refl]
  show ?case by simp
next
  case (lease_acquire interval now m w d err)
  then show ?case by (intro lease_inv [OF lease_acquire(2)] lease_fields(1))
next
  case (lease_release w m)
  then show ?case by (intro lease_inv [OF lease_release] lease_fields(2))
next
  case (marker_read x w f m now prior target)
  then show ?case by (simp add: marker_read_inv)
next
  case (marker_publish w x m prior target now d progress)
  then show ?case using marker_end_inv [OF marker_publish(3,1), of d now progress] by simp
next
  case (marker_abort w x m prior target)
  then show ?case using marker_end_inv [OF marker_abort(2,1), of "sw_db w"] by simp
next
  case (marker_heartbeat at now m w d m' err)
  then show ?case by (simp add: marker_heartbeat_inv)
next
  case (prune cutoff limit locked now w d n)
  then show ?case by (simp add: prune_inv)
next
  case (snapshot w)
  then show ?case by (simp add: snapshot_inv)
next
  case (page snap w k env d p r)
  show ?case by (rule page_inv [OF page(3,1,2)])
next
  case (bootstrap snap w env k s fail q s' d p err)
  show ?case by (rule bootstrap_inv [OF bootstrap(4,1,2,3)])
qed

lemma initial_inv: "stream_inv (initial_world v)"
  by (simp add: stream_inv_def initial_world_def tables_ok_def writers_ok_def marker_ok_def db_ok_def covers_def empty_db_def
      cursor_of_def GetStreamSafeSequence_def GetStreamPrunedThroughSequence_def)

lemma reachable_inv: "(stream_step c h)\<^sup>*\<^sup>* (initial_world v) w \<Longrightarrow> stream_inv w"
  by (induction rule: rtranclp_induct) (auto simp: initial_inv stream_step_inv)

end
