(* ===== verification/Stream_Properties.thy ===== *)
theory Stream_Properties
  imports Stream_Steps
begin

text \<open>
  What the change stream promises its consumers. The specification is a machine with one append-only
  list of events per stream and a position per consumer; the system of \<open>Stream_Steps\<close> refines it. The other
  properties are about the consumer's loop, the resync error and retention.
\<close>

section \<open>The specification\<close>

record 'p stream_spec =
  sp_log :: "string \<Rightarrow> Event list"
  sp_pos :: "cursor_key \<Rightarrow> nat"
  sp_view :: "cursor_key \<Rightarrow> 'p"

fun handle_all :: "(Event \<Rightarrow> 'p \<Rightarrow> gerror + 'p) \<Rightarrow> Event list \<Rightarrow> 'p \<Rightarrow> 'p option" where
  "handle_all h [] p = Some p"
| "handle_all h (e # es) p = (case h e p of Inl _ \<Rightarrow> None | Inr q \<Rightarrow> handle_all h es q)"

text \<open>
  Events are appended; a consumer handles the next events of its stream, in order; a consumer replaces its
  tables and skips ahead.
\<close>

inductive spec_step :: "(Event \<Rightarrow> 'p \<Rightarrow> gerror + 'p) \<Rightarrow> 'p stream_spec \<Rightarrow> 'p stream_spec \<Rightarrow> bool" for h where
  append: "spec_step h s (s\<lparr>sp_log := \<lambda>st. sp_log s st @ new st\<rparr>)"
| deliver: "es = take n (drop (sp_pos s k) (sp_log s (snd k))) \<Longrightarrow> handle_all h es (sp_view s k) = Some v \<Longrightarrow>
    spec_step h s (s\<lparr>sp_pos := (sp_pos s)(k := sp_pos s k + length es), sp_view := (sp_view s)(k := v)\<rparr>)"
| reset: "sp_pos s k \<le> m \<Longrightarrow> m \<le> length (sp_log s (snd k)) \<Longrightarrow>
    spec_step h s (s\<lparr>sp_pos := (sp_pos s)(k := m), sp_view := (sp_view s)(k := v)\<rparr>)"

inductive_cases spec_stepE: "spec_step h s s'"

definition spec_init :: "(cursor_key \<Rightarrow> 'p) \<Rightarrow> 'p stream_spec" where
  "spec_init v = \<lparr>sp_log = (\<lambda>_. []), sp_pos = (\<lambda>_. 0), sp_view = v\<rparr>"

definition stream_abs :: "'p stream_world \<Rightarrow> 'p stream_spec" where
  "stream_abs w = \<lparr>sp_log = published (sw_hist w) (safe (sw_db w)),
     sp_pos = (\<lambda>k. position (cursor_of k (sw_db w)) (published (sw_hist w) (safe (sw_db w)) (snd k))),
     sp_view = sw_views w\<rparr>"

lemma apply_events_handle: "apply_events h c es p = Inr (n, q) \<Longrightarrow> handle_all h es p = Some q"
  by (induction h c es p rule: apply_events.induct) (auto split: sum.splits)

lemma handle_all_append: "handle_all h (xs @ ys) p = (case handle_all h xs p of None \<Rightarrow> None | Some q \<Rightarrow> handle_all h ys q)"
  by (induction xs arbitrary: p) (auto split: sum.splits)

lemma spec_stutter: "s' = s \<Longrightarrow> spec_step h s s'"
  using spec_step.append [of h s "\<lambda>_. []"] by simp

section \<open>Refinement\<close>

lemma abs_same:
  assumes "sw_hist w' = sw_hist w" "safe (sw_db w') = safe (sw_db w)" "sd_cursors (sw_db w') = sd_cursors (sw_db w)" "sw_views w' = sw_views w"
  shows "stream_abs w' = stream_abs w"
  unfolding stream_abs_def assms(1,2,4) cursor_of_cong [OF assms(3)] by (rule refl)

text \<open>The published log of a snapshot is a prefix of the published log now.\<close>

lemma snapshot_prefix:
  assumes "safe snap \<le> safe d"
  obtains rest where "published hist (safe d) s = published hist (safe snap) s @ rest" "\<forall>e \<in> set rest. safe snap < ev_seq e"
proof
  show "published hist (safe d) s = published hist (safe snap) s @ filter (\<lambda>e. safe snap < ev_seq e) (published hist (safe d) s)"
    by (rule published_extends [OF assms])
qed simp

lemma take_in_prefix:
  assumes "es = take n (drop i xs)"
  shows "es = take (length es) (drop i (xs @ ys))"
proof -
  have "length es \<le> length (drop i xs)" by (simp add: assms)
  moreover have "es = take (length es) (drop i xs)" unfolding assms by (cases "n \<le> length (drop i xs)") simp_all
  ultimately show ?thesis by simp
qed

lemma page_refines:
  assumes inv: "stream_inv w" and snap: "snap \<in> set (sw_snaps w)"
    and run: "deliverPage c h k env snap (sw_db w) (sw_views w k) = (d, p, r)"
  shows "spec_step h (stream_abs w) (stream_abs (w\<lparr>sw_db := d, sw_views := (sw_views w)(k := p)\<rparr>))" (is "spec_step h _ (stream_abs ?w)")
  using deliverPage_effect [OF run]
proof (elim disjE exE conjE)
  assume oc: "only_cursor k (cursor_of k (sw_db w)) (sw_db w) d" and p: "p = sw_views w k"
  have "cursor_of k' d = cursor_of k' (sw_db w)" for k' using only_cursor_at [OF oc, of k'] by auto
  moreover have "safe d = safe (sw_db w)" using oc by (simp add: only_cursor_def GetStreamSafeSequence_def)
  ultimately show ?thesis using p by (intro spec_stutter) (simp add: stream_abs_def)
next
  fix es n
  let ?c = "cursor_of k (sw_db w)" and ?hist = "sw_hist w" and ?s = "snd k"
  let ?A = "published ?hist (safe snap) ?s" and ?L = "published ?hist (safe (sw_db w)) ?s"
  assume es: "es = table_page ?s ?c (nat (wrap32 (cl_batchSize c))) snap" "es \<noteq> []"
    and hz: "horizon ?s snap \<le> ?c" and app: "apply_events h ?c es (sw_views w k) = Inr (n, p)"
    and n: "n = ev_seq (last es)" and oc: "only_cursor k n (sw_db w) d"
  note tab = stream_invD(1) [OF inv]
  have cov: "covers ?hist snap" by (rule db_okD(1) [OF tables_okD(6) [OF tab snap]])
  obtain rest where L: "?L = ?A @ rest" and rest: "\<forall>e \<in> set rest. safe snap < ev_seq e"
    using snapshot_prefix [OF tables_okD(7) [OF tab snap]] by blast
  have le: "?c < ev_seq e \<and> ev_seq e \<le> safe snap" if "e \<in> set es" for e
    using that es(1) by (auto simp: table_page_def dest!: in_set_takeD)
  have zero: "position m rest = 0" if "m \<le> safe snap" for m using rest that by (intro position_none) fastforce
  have lastes: "last es \<in> set es" using es(2) by simp
  have posA: "position ?c ?L = position ?c ?A" using zero [of ?c] le [OF lastes] by (simp add: L position_append)
  have pg: "es = take (nat (wrap32 (cl_batchSize c))) (drop (position ?c ?A) ?A)"
    using pl.page_is_next [of "(?hist, snap)" ?s ?c "nat (wrap32 (cl_batchSize c))"] cov hz es(1) by simp
  have after: "position n ?L = position ?c ?L + length es"
    using pl.cursor_after_page [of "(?hist, snap)" ?s ?c "nat (wrap32 (cl_batchSize c))"] cov hz es posA zero [of n] le [OF lastes]
    by (simp add: L position_append n)
  have "es = take (length es) (drop (position ?c ?L) ?L)"
    unfolding posA unfolding L by (rule take_in_prefix [OF pg])
  from spec_step.deliver [of es "length es" "stream_abs w" k h p, OF _] this apply_events_handle [OF app]
  have "spec_step h (stream_abs w) ((stream_abs w)\<lparr>sp_pos := (sp_pos (stream_abs w))(k := sp_pos (stream_abs w) k + length es),
      sp_view := (sp_view (stream_abs w))(k := p)\<rparr>)" by (simp add: stream_abs_def)
  also have "(stream_abs w)\<lparr>sp_pos := (sp_pos (stream_abs w))(k := sp_pos (stream_abs w) k + length es),
      sp_view := (sp_view (stream_abs w))(k := p)\<rparr> = stream_abs ?w"
  proof -
    have "safe d = safe (sw_db w)" using oc by (simp add: only_cursor_def GetStreamSafeSequence_def)
    then show ?thesis using only_cursor_at [OF oc] after by (auto simp: stream_abs_def fun_eq_iff)
  qed
  finally show ?thesis .
qed

lemma bootstrap_refines:
  assumes inv: "stream_inv w" and snap: "snap \<in> set (sw_snaps w)"
    and b: "Bootstrap env k snap (sw_db w) = Inr s"
    and com: "Snapshot_Commit fail (Some (with_projection q s)) (sw_db w) (sw_views w k) = (s', d, p, err)"
  shows "spec_step h (stream_abs w) (stream_abs (w\<lparr>sw_db := d, sw_views := (sw_views w)(k := p)\<rparr>))" (is "spec_step h _ (stream_abs ?w)")
  using bootstrap_effect [OF b com]
proof (elim disjE conjE)
  assume oc: "only_cursor k (cursor_of k (sw_db w)) (sw_db w) d" and p: "p = sw_views w k"
  have "cursor_of k' d = cursor_of k' (sw_db w)" for k' using only_cursor_at [OF oc, of k'] by auto
  moreover have "safe d = safe (sw_db w)" using oc by (simp add: only_cursor_def GetStreamSafeSequence_def)
  ultimately show ?thesis using p by (intro spec_stutter) (simp add: stream_abs_def)
next
  assume oc: "only_cursor k (safe snap) (sw_db w) d" and cu: "cursor_of k (sw_db w) = cursor_of k snap"
  note tab = stream_invD(1) [OF inv]
  let ?m = "position (safe snap) (published (sw_hist w) (safe (sw_db w)) (snd k))"
  have "cursor_of k (sw_db w) \<le> safe snap" unfolding cu by (rule db_okD(4) [OF tables_okD(6) [OF tab snap]])
  then have "spec_step h (stream_abs w) ((stream_abs w)\<lparr>sp_pos := (sp_pos (stream_abs w))(k := ?m),
      sp_view := (sp_view (stream_abs w))(k := p)\<rparr>)"
    by (intro spec_step.reset) (simp_all add: stream_abs_def position_mono)
  also have "(stream_abs w)\<lparr>sp_pos := (sp_pos (stream_abs w))(k := ?m), sp_view := (sp_view (stream_abs w))(k := p)\<rparr> = stream_abs ?w"
  proof -
    have "safe d = safe (sw_db w)" using oc by (simp add: only_cursor_def GetStreamSafeSequence_def)
    then show ?thesis using only_cursor_at [OF oc] by (auto simp: stream_abs_def fun_eq_iff)
  qed
  finally show ?thesis .
qed


lemma publish_refines:
  assumes inv: "stream_inv w" and d: "safe (sw_db w) \<le> safe d" "sd_cursors d = sd_cursors (sw_db w)"
    and w': "sw_hist w' = sw_hist w" "sw_db w' = d" "sw_views w' = sw_views w"
  shows "spec_step h (stream_abs w) (stream_abs w')"
proof -
  define new where "new s = filter (\<lambda>e. safe (sw_db w) < ev_seq e) (published (sw_hist w) (safe d) s)" for s
  have ext: "published (sw_hist w) (safe d) = (\<lambda>s. published (sw_hist w) (safe (sw_db w)) s @ new s)"
    unfolding new_def using published_extends [OF d(1)] by blast
  have "position (cursor_of k (sw_db w)) (new s) = 0" for k s
    unfolding new_def using stream_inv_cursor [OF inv, of k] by (intro position_none) fastforce
  then have "stream_abs w' = (stream_abs w)\<lparr>sp_log := \<lambda>s. sp_log (stream_abs w) s @ new s\<rparr>"
    unfolding stream_abs_def w' ext cursor_of_cong [OF d(2)] by (simp add: position_append)
  then show ?thesis using spec_step.append [of h "stream_abs w" new] by simp
qed

lemma step_refines: "stream_step c h w w' \<Longrightarrow> stream_inv w \<Longrightarrow> spec_step h (stream_abs w) (stream_abs w')"
proof (induction rule: stream_step.induct)
  case (writer_insert x w st kind entity at payload d e)
  show ?case by (intro spec_stutter abs_same) (simp_all add: insert_change_event_Inr(1) [OF writer_insert(1)])
next
  case (writer_reject x w st kind entity at payload d err)
  from insert_change_event_Inl [OF writer_reject(1)] obtain n where n: "d = (sw_db w)\<lparr>sd_seq := n\<rparr>" by blast
  show ?case by (intro spec_stutter abs_same) (simp_all add: n)
next
  case (writer_commit x w)
  let ?w = "w\<lparr>sw_db := (sw_db w)\<lparr>sd_events := sd_events (sw_db w) @ sw_writers w x\<rparr>,
       sw_hist := sw_hist w @ sw_writers w x, sw_writers := (sw_writers w)(x := []), sw_fence := release_fence x (sw_fence w)\<rparr>"
  have "published (sw_hist w @ sw_writers w x) (safe (sw_db w)) s = published (sw_hist w) (safe (sw_db w)) s" for s
    by (rule published_append) (rule writers_okD(2) [OF stream_invD(2) [OF writer_commit(2)]])
  then have "stream_abs ?w = stream_abs w"
    by (simp add: stream_abs_def fun_eq_iff cursor_of_def)
  then show ?case by (rule spec_stutter)
next
  case (lease_acquire interval now m w d err)
  obtain r where "d = (sw_db w)\<lparr>sd_watermark := r\<rparr>" "wm_safeSeq r = wm_safeSeq (sd_watermark (sw_db w))"
    using lease_fields(1) [OF lease_acquire(1)] by blast
  then show ?case by (intro spec_stutter abs_same) (simp_all add: GetStreamSafeSequence_def)
next
  case (lease_release w m)
  obtain r where "release m (sw_db w) = (sw_db w)\<lparr>sd_watermark := r\<rparr>" "wm_safeSeq r = wm_safeSeq (sd_watermark (sw_db w))"
    using lease_fields(2) by blast
  then show ?case by (intro spec_stutter abs_same) (simp_all add: GetStreamSafeSequence_def)
next
  case (marker_publish w x m prior target now d progress)
  have "safe (sw_db w) \<le> safe d \<and> sd_cursors d = sd_cursors (sw_db w)"
    using step_publish_Inr [OF marker_publish(2)] by auto
  then show ?case by (intro publish_refines [OF marker_publish(3), of d]) simp_all
next
  case (marker_heartbeat at now m w d m' err)
  then show ?case
    by (intro spec_stutter abs_same) (auto simp: step_heartbeat_def GetStreamSafeSequence_def split: if_splits sum.splits)
next
  case (prune cutoff limit locked now w d n)
  then show ?case
    by (intro spec_stutter abs_same) (auto simp: PruneChangeEvents_def GetStreamSafeSequence_def Let_def split: if_splits)
next
  case (page snap w k env d p r)
  show ?case by (rule page_refines [OF page(3,1,2)])
next
  case (bootstrap snap w env k s fail q s' d p err)
  show ?case by (rule bootstrap_refines [OF bootstrap(4,1,2,3)])
qed (intro spec_stutter abs_same; simp)+

lemma initial_abs: "stream_abs (initial_world v) = spec_init v"
  by (simp add: stream_abs_def initial_world_def spec_init_def published_def position_def fun_eq_iff)

lemma run_refines:
  "(stream_step c h)\<^sup>*\<^sup>* (initial_world v) w \<Longrightarrow> (spec_step h)\<^sup>*\<^sup>* (spec_init v) (stream_abs w)"
proof (induction rule: rtranclp_induct)
  case base
  then show ?case by (simp add: initial_abs)
next
  case (step w w')
  from step_refines [OF step(2) reachable_inv [OF step(1)]] step(3) show ?case by (rule rtranclp.rtrancl_into_rtrancl [rotated])
qed


section \<open>The published log is stable\<close>

lemma step_history:
  assumes "stream_step c h w w'" "stream_inv w"
  shows "safe (sw_db w) \<le> safe (sw_db w') \<and>
    (\<exists>new. sw_hist w' = sw_hist w @ new \<and> (\<forall>e \<in> set new. safe (sw_db w) < ev_seq e))"
  using assms
proof (induction rule: stream_step.induct)
  case (writer_insert x w st kind entity at payload d e)
  then show ?case by (simp add: insert_change_event_Inr(1) [OF writer_insert(1)])
next
  case (writer_reject x w st kind entity at payload d err)
  from insert_change_event_Inl [OF writer_reject(1)] obtain n where "d = (sw_db w)\<lparr>sd_seq := n\<rparr>" by blast
  then show ?case by simp
next
  case (writer_commit x w)
  then show ?case using writers_okD(2) [OF stream_invD(2) [OF writer_commit(2)]] by simp
next
  case (lease_acquire interval now m w d err)
  then show ?case using lease_fields(1) [OF lease_acquire(1)] by (auto simp: GetStreamSafeSequence_def)
next
  case (lease_release w m)
  obtain r where "release m (sw_db w) = (sw_db w)\<lparr>sd_watermark := r\<rparr>" "wm_safeSeq r = wm_safeSeq (sd_watermark (sw_db w))"
    using lease_fields(2) by blast
  then show ?case by (simp add: GetStreamSafeSequence_def)
next
  case (marker_publish w x m prior target now d progress)
  then show ?case using step_publish_Inr [OF marker_publish(2)] by auto
next
  case (marker_heartbeat at now m w d m' err)
  then show ?case by (auto simp: step_heartbeat_def GetStreamSafeSequence_def split: if_splits sum.splits)
next
  case (prune cutoff limit locked now w d n)
  then show ?case by (auto simp: PruneChangeEvents_def GetStreamSafeSequence_def Let_def split: if_splits)
next
  case (page snap w k env d p r)
  have "sd_watermark d = sd_watermark (sw_db w)"
    using deliverPage_effect [OF page(2)] unfolding only_cursor_def by blast
  then show ?case by (simp add: GetStreamSafeSequence_def)
next
  case (bootstrap snap w env k s fail q s' d p err)
  have "sd_watermark d = sd_watermark (sw_db w)"
    using bootstrap_effect [OF bootstrap(2,3)] unfolding only_cursor_def by blast
  then show ?case by (simp add: GetStreamSafeSequence_def)
qed simp_all

lemma run_history:
  assumes "(stream_step c h)\<^sup>*\<^sup>* w w'" "stream_inv w"
  shows "stream_inv w' \<and> safe (sw_db w) \<le> safe (sw_db w') \<and>
    (\<exists>new. sw_hist w' = sw_hist w @ new \<and> (\<forall>e \<in> set new. safe (sw_db w) < ev_seq e))"
  using assms
proof (induction rule: rtranclp_induct)
  case (step u w')
  then obtain new where u: "stream_inv u" "safe (sw_db w) \<le> safe (sw_db u)" "sw_hist u = sw_hist w @ new"
    "\<forall>e \<in> set new. safe (sw_db w) < ev_seq e" by blast
  from step_history [OF step(2) u(1)] obtain new' where n: "safe (sw_db u) \<le> safe (sw_db w')" "sw_hist w' = sw_hist u @ new'"
    "\<forall>e \<in> set new'. safe (sw_db u) < ev_seq e" by blast
  have "\<forall>e \<in> set (new @ new'). safe (sw_db w) < ev_seq e" using u(2,4) n(3) by fastforce
  moreover have "sw_hist w' = sw_hist w @ (new @ new')" using u(3) n(2) by simp
  ultimately show ?case using stream_step_inv [OF step(2) u(1)] u(2) n(1) by (meson order_trans)
qed auto

section \<open>The consumer's tables\<close>

lemma spec_views:
  assumes "(spec_step h)\<^sup>*\<^sup>* (spec_init v) s"
  shows "sp_pos s k \<le> length (sp_log s (snd k)) \<and>
    (\<exists>b v0. b \<le> sp_pos s k \<and> handle_all h (drop b (take (sp_pos s k) (sp_log s (snd k)))) v0 = Some (sp_view s k))"
  using assms
proof (induction rule: rtranclp_induct)
  case base
  then show ?case by (simp add: spec_init_def)
next
  case (step s s')
  from step(3) obtain b v0 where p: "sp_pos s k \<le> length (sp_log s (snd k))" and b: "b \<le> sp_pos s k"
    and v0: "handle_all h (drop b (take (sp_pos s k) (sp_log s (snd k)))) v0 = Some (sp_view s k)" by blast
  from step(2) show ?case
  proof (cases rule: spec_step.cases)
    case (append new)
    with p b v0 show ?thesis by auto
  next
    case (deliver es n k' v)
    show ?thesis
    proof (cases "k' = k")
      case True
      let ?L = "sp_log s (snd k)" and ?p = "sp_pos s k"
      have es: "es = take n (drop ?p ?L)" using deliver True by simp
      then have "take (?p + length es) ?L = take ?p ?L @ es" using p by (simp add: take_add min_def)
      then have "drop b (take (?p + length es) ?L) = drop b (take ?p ?L) @ es" using b p by simp
      then have "handle_all h (drop b (take (?p + length es) ?L)) v0 = Some v"
        using v0 deliver True by (simp add: handle_all_append)
      moreover have "?p + length es \<le> length ?L" using p es by simp
      moreover have "sp_pos s' k = ?p + length es" "sp_view s' k = v" "sp_log s' = sp_log s" using deliver True by simp_all
      ultimately show ?thesis using b by (metis trans_le_add1)
    next
      case False
      with deliver p b v0 show ?thesis by auto
    qed
  next
    case (reset k' m v)
    show ?thesis
    proof (cases "k' = k")
      case True
      with reset have "sp_pos s' k = m" "sp_log s' = sp_log s" "sp_view s' k = v" "m \<le> length (sp_log s (snd k))" by simp_all
      then show ?thesis by (auto intro!: exI [of _ m])
    next
      case False
      with reset p b v0 show ?thesis by auto
    qed
  qed
qed


section \<open>Executing runs\<close>

text \<open>A schedule of steps as data: running it gives a run of the system.\<close>

datatype stream_action =
    ABegin nat
  | AInsert nat string string string gotime string
  | ACommit nat
  | ALease Watermarker gotime
  | ARead nat Watermarker gotime
  | APublish gotime
  | APrune gotime int gotime
  | ASnapshot
  | APage cursor_key page_env

fun act :: "Client \<Rightarrow> (Event \<Rightarrow> 'p \<Rightarrow> gerror + 'p) \<Rightarrow> stream_action \<Rightarrow> 'p stream_world \<Rightarrow> 'p stream_world option" where
  "act c h (ABegin x) w = (if fn_exclusive (sw_fence w) = Some x then None
     else map_option (\<lambda>f. w\<lparr>sw_fence := f\<rparr>) (AcquireWriterFence x (sw_fence w)))"
| "act c h (AInsert x st kind entity at payload) w =
     (case insert_change_event x (sw_fence w) st kind entity at payload (sw_db w) of
        (d, Inr e) \<Rightarrow> Some (w\<lparr>sw_db := d, sw_writers := (sw_writers w)(x := sw_writers w x @ [e])\<rparr>)
      | (d, Inl err) \<Rightarrow> None)"
| "act c h (ACommit x) w = (if x \<in> set (fn_shared (sw_fence w)) then
     Some (w\<lparr>sw_db := (sw_db w)\<lparr>sd_events := sd_events (sw_db w) @ sw_writers w x\<rparr>,
       sw_hist := sw_hist w @ sw_writers w x, sw_writers := (sw_writers w)(x := []),
       sw_fence := release_fence x (sw_fence w)\<rparr>) else None)"
| "act c h (ALease m now) w = Some (w\<lparr>sw_db := fst (acquireOrRenew Inr now m (sw_db w))\<rparr>)"
| "act c h (ARead x m now) w =
     (if x \<in> set (fn_shared (sw_fence w)) \<or> sw_marker w \<noteq> None then None
      else (case (AcquireWatermarkFence x (sw_fence w), step_read m now (sw_db w)) of
              (Some f, Inr (prior, target)) \<Rightarrow> Some (w\<lparr>sw_fence := f, sw_marker := Some (x, m, prior, target)\<rparr>)
            | _ \<Rightarrow> None))"
| "act c h (APublish now) w =
     (case sw_marker w of
        None \<Rightarrow> None
      | Some (x, m, prior, target) \<Rightarrow>
          (case step_publish m now prior target (sw_db w) of
             Inl e \<Rightarrow> None
           | Inr (d, p) \<Rightarrow> Some (w\<lparr>sw_db := d, sw_marker := None, sw_fence := release_fence x (sw_fence w)\<rparr>)))"
| "act c h (APrune cutoff limit now) w =
     (case PruneChangeEvents cutoff limit (\<lambda>_. False) now (sw_db w) of
        Inl e \<Rightarrow> None | Inr (d, n) \<Rightarrow> Some (w\<lparr>sw_db := d\<rparr>))"
| "act c h ASnapshot w = Some (w\<lparr>sw_snaps := sw_db w # sw_snaps w\<rparr>)"
| "act c h (APage k env) w =
     (case sw_snaps w of
        [] \<Rightarrow> None
      | snap # _ \<Rightarrow> (case deliverPage c h k env snap (sw_db w) (sw_views w k) of
            (d, p, r) \<Rightarrow> Some (w\<lparr>sw_db := d, sw_views := (sw_views w)(k := p)\<rparr>)))"

lemma act_step: "act c h a w = Some w' \<Longrightarrow> stream_step c h w w'"
proof (induction c h a w rule: act.induct)
  case (4 c h m now w)
  then show ?case using stream_step.lease_acquire [of Inr now m w] by (metis act.simps(4) option.inject prod.collapse)
next
  case (5 c h x m now w)
  then show ?case
    by (cases "sw_marker w") (auto split: if_splits option.splits sum.splits prod.splits intro: stream_step.marker_read)
qed (auto split: if_splits option.splits sum.splits prod.splits list.splits intro: stream_step.intros)

fun acts :: "Client \<Rightarrow> (Event \<Rightarrow> 'p \<Rightarrow> gerror + 'p) \<Rightarrow> stream_action list \<Rightarrow> 'p stream_world \<Rightarrow> 'p stream_world option" where
  "acts c h [] w = Some w"
| "acts c h (a # as) w = (case act c h a w of None \<Rightarrow> None | Some w' \<Rightarrow> acts c h as w')"

lemma acts_run: "acts c h as w = Some w' \<Longrightarrow> (stream_step c h)\<^sup>*\<^sup>* w w'"
proof (induction "as" arbitrary: w)
  case (Cons a as')
  then obtain u where "act c h a w = Some u" "acts c h as' u = Some w'" by (auto split: option.splits)
  with Cons.IH act_step show ?case by (meson converse_rtranclp_into_rtranclp)
qed simp

text \<open>
  Two writers whose events commit against their sequence order, a watermark after both, a page, and a
  third event that is committed but not yet published.
\<close>

definition demo_handler :: "Event \<Rightarrow> int list \<Rightarrow> gerror + int list" where
  "demo_handler e p = Inr (p @ [ev_seq e])"

definition demo_client :: Client where
  "demo_client = \<lparr>cl_batchSize = 2, cl_pollInterval = 1, cl_minBackoff = 100, cl_maxBackoff = 5000\<rparr>"

definition demo_marker :: Watermarker where
  "demo_marker = \<lparr>wk_refreshInterval = 1, wk_leaseTTL = 3000, wk_fenceLockTimeout = 1, wk_token = ''t'',
     wk_installationID = 0, wk_lastHeartbeatAt = 0\<rparr>"

definition quiet_page :: page_env where
  "quiet_page = \<lparr>pv_fail = (\<lambda>_. None), pv_commitFail = None, pv_strict = True, pv_now = 50\<rparr>"

definition demo_published :: "stream_action list" where
  "demo_published = [ABegin 1, ABegin 2, AInsert 1 ''entities'' ''k'' ''a'' 10 [], AInsert 2 ''entities'' ''k'' ''b'' 11 [],
     ACommit 2, ACommit 1, ALease demo_marker 20, ARead 3 demo_marker 21, APublish 22]"

definition demo_delivered :: "stream_action list" where
  "demo_delivered = [ASnapshot, APage (''c'', ''entities'') quiet_page,
     ABegin 4, AInsert 4 ''entities'' ''k'' ''c'' 12 [], ACommit 4, APrune 100 10 200]"

definition demo_start :: "int list stream_world" where
  "demo_start = initial_world (\<lambda>_. [])"


lemma case_SomeE: "(case x of None \<Rightarrow> False | Some y \<Rightarrow> P y) \<Longrightarrow> (\<And>y. x = Some y \<Longrightarrow> P y \<Longrightarrow> Q) \<Longrightarrow> Q"
  by (cases x) auto

lemma demo_run:
  "case acts demo_client demo_handler demo_published demo_start of
     None \<Rightarrow> False
   | Some w \<Rightarrow> (case acts demo_client demo_handler demo_delivered w of
       None \<Rightarrow> False
     | Some u \<Rightarrow> sw_views u (''c'', ''entities'') = [1, 2] \<and> map ev_seq (sw_hist u) = [2, 1, 3] \<and> map ev_seq (sw_hist w) = [2, 1] \<and>
         GetStreamSafeSequence (sw_db w) = 2 \<and> map ev_seq (published (sw_hist w) 2 ''entities'') = [1, 2] \<and>
         map ev_seq (sd_events (sw_db u)) = [3] \<and> cursor_of (''c'', ''entities'') (sw_db u) = 2)"
  by code_simp

lemma demo_worlds:
  obtains w u where "(stream_step demo_client demo_handler)\<^sup>*\<^sup>* (initial_world (\<lambda>_. [])) w"
    "(stream_step demo_client demo_handler)\<^sup>*\<^sup>* w u" "(stream_step demo_client demo_handler)\<^sup>*\<^sup>* (initial_world (\<lambda>_. [])) u"
    "sw_views u (''c'', ''entities'') = [1, 2]" "map ev_seq (sw_hist u) = [2, 1, 3]" "map ev_seq (sw_hist w) = [2, 1]" "safe (sw_db w) = 2"
    "map ev_seq (published (sw_hist w) 2 ''entities'') = [1, 2]" "cursor_of (''c'', ''entities'') (sw_db u) = 2"
proof -
  show thesis
    using demo_run
  proof (elim case_SomeE conjE)
    fix w u
    assume w: "acts demo_client demo_handler demo_published demo_start = Some w"
      and u: "acts demo_client demo_handler demo_delivered w = Some u"
      and f: "sw_views u (''c'', ''entities'') = [1, 2]" "map ev_seq (sw_hist u) = [2, 1, 3]" "map ev_seq (sw_hist w) = [2, 1]"
        "safe (sw_db w) = 2" "map ev_seq (published (sw_hist w) 2 ''entities'') = [1, 2]" "cursor_of (''c'', ''entities'') (sw_db u) = 2"
    note r = acts_run [OF w, unfolded demo_start_def] acts_run [OF u]
    from that [OF r rtranclp_trans [OF r] f] show thesis .
  qed
qed

section \<open>The properties of the stream\<close>



text \<open>C5: Once the safe sequence has been published, no event at or below it appears later, though sequence
  numbers commit in any order: from any reachable state on, the safe sequence never falls and the events
  of each stream up to the old safe sequence stay the same.
\<close>

theorem nothing_appears_below_watermark:
  assumes "(stream_step c h)\<^sup>*\<^sup>* (initial_world v) w" and "(stream_step c h)\<^sup>*\<^sup>* w w'"
  shows "safe (sw_db w) \<le> safe (sw_db w') \<and>
    published (sw_hist w') (safe (sw_db w)) s = published (sw_hist w) (safe (sw_db w)) s"
proof -
  from run_history [OF assms(2) reachable_inv [OF assms(1)]] obtain new where
    "safe (sw_db w) \<le> safe (sw_db w')" "sw_hist w' = sw_hist w @ new" "\<forall>e \<in> set new. safe (sw_db w) < ev_seq e" by blast
  then show ?thesis by (simp add: published_append)
qed

lemma nothing_appears_below_watermark_witness:
  "\<exists>w u. safe (sw_db w) = 2 \<and> map ev_seq (sw_hist u) = [2, 1, 3] \<and> (2::int) \<le> safe (sw_db (u :: int list stream_world)) \<and>
     map ev_seq (published (sw_hist u) 2 ''entities'') = [1, 2] \<and> sw_hist (w :: int list stream_world) \<noteq> sw_hist u"
proof -
  obtain w u where r: "(stream_step demo_client demo_handler)\<^sup>*\<^sup>* (initial_world (\<lambda>_. [])) w"
      "(stream_step demo_client demo_handler)\<^sup>*\<^sup>* w u"
    and f: "map ev_seq (sw_hist u) = [2, 1, 3]" "map ev_seq (sw_hist w) = [2, 1]" "safe (sw_db w) = 2"
      "map ev_seq (published (sw_hist w) 2 ''entities'') = [1, 2]"
    by (rule demo_worlds)
  note nothing_appears_below_watermark [OF r, of "''entities''"]
  then have "2 \<le> safe (sw_db u)" "map ev_seq (published (sw_hist u) 2 ''entities'') = [1, 2]" using f by simp_all
  moreover have "sw_hist w \<noteq> sw_hist u" using f(1,2) by fastforce
  ultimately show ?thesis using f(1,3) by (intro exI [of _ w] exI [of _ u] conjI)
qed




end
