(* ===== verification/Tail_Properties.thy ===== *)
theory Tail_Properties
  imports Stream_Properties
begin

text \<open>
  The consumer's loop and retention one operation at a time: what a page does when the consumer has fallen
  behind the horizon or its handler fails, that \<open>Tail\<close> reaches the end of the published log and survives its
  listener, and that a pruning pass ends.
\<close>

section \<open>One page\<close>

text \<open>No statement of the page transaction fails.\<close>

definition undisturbed :: "page_env \<Rightarrow> bool" where
  "undisturbed env \<longleftrightarrow> pv_fail env = (\<lambda>_. None) \<and> pv_commitFail env = None"

lemma stmt_undisturbed: "undisturbed env \<Longrightarrow> stmt env s r = r"
  by (simp add: undisturbed_def stmt_def)

lemma finish_undisturbed: "undisturbed env \<Longrightarrow> finish_tx env what k tx p' ok cur p = (commit_tx k tx cur, p', ok)"
  by (simp add: undisturbed_def finish_tx_def)

lemma lock_cursor_quiet:
  assumes "undisturbed env"
  shows "\<exists>tx. lock_cursor env k d d = Inr (tx, cursor_of k d) \<and> (\<exists>r. tx_row k tx = Some r)"
proof (cases "map_of (sd_cursors d) k")
  case None
  then show ?thesis
    by (auto simp: lock_cursor_def stmt_undisturbed [OF assms] EnsureConsumerCursor_def GetConsumerCursorForUpdate_def
        tx_row_def cursor_of_def)
next
  case (Some r)
  then show ?thesis
    by (auto simp: lock_cursor_def stmt_undisturbed [OF assms] EnsureConsumerCursor_def GetConsumerCursorForUpdate_def
        tx_row_def cursor_of_def)
qed

definition row_count :: "cursor_key \<Rightarrow> stream_db \<Rightarrow> int" where
  "row_count k d = (case map_of (sd_cursors d) k of None \<Rightarrow> 0 | Some r \<Rightarrow> cc_resyncCount r)"

lemma locked_row_count:
  assumes "lock_cursor env k snap cur = Inr (tx, cursor)" "tx_row k tx = Some r"
  shows "cc_resyncCount r = row_count k cur"
proof -
  from assms(1) have ens: "EnsureConsumerCursor (pv_strict env) (pv_now env) k cur \<lparr>tx_snap = snap, tx_own = None\<rparr> = Inr tx"
    and lock: "GetConsumerCursorForUpdate k cur tx = Inr cursor"
    by (auto simp: lock_cursor_def dest!: stmt_Inr split: sum.splits if_splits)
  then show ?thesis
    using assms(2)
    by (auto simp: EnsureConsumerCursor_def GetConsumerCursorForUpdate_def tx_row_def row_count_def split: if_splits option.splits)
qed

text \<open>C33: A consumer whose cursor lies below its stream's pruned horizon gets \<open>ErrResyncRequired\<close> with its cursor
  and the horizon, and no event: its tables and cursor stay as they were, the resync is counted, \<open>Tail\<close>
  returns that error even under a cancelled context, and \<open>IsRetryable\<close> denies it.
\<close>

theorem behind_horizon_must_resync:
  assumes env: "undisturbed env" and lock: "lock_cursor env k snap cur = Inr (tx, cursor)"
    and behind: "cursor < GetStreamPrunedThroughSequence (snd k) snap"
    and safe_retry: "\<not> safeToRetry (ErrResyncRequired (fst k) (snd k) cursor (GetStreamPrunedThroughSequence (snd k) snap))"
  defines "e \<equiv> ErrResyncRequired (fst k) (snd k) cursor (GetStreamPrunedThroughSequence (snd k) snap)"
  shows "\<exists>d. deliverPage c h k env snap cur p = (d, p, Inl e) \<and> cursor_of k d = cursor_of k cur \<and>
    row_count k d = row_count k cur + 1 \<and> tail_turn c t (Inl e) st = TailReturn e \<and> \<not> IsRetryable safeToRetry (Some e)"
proof -
  note l = lock_cursor_Inr [OF lock]
  then obtain r where r: "tx_row k tx = Some r" "cc_seq r = cursor" "cursor = cursor_of k cur" by blast
  let ?tx = "RecordConsumerResync (pv_now env) k tx"
  have own: "tx_own ?tx = Some (r\<lparr>cc_resyncCount := cc_resyncCount r + 1, cc_lastResyncAt := Some (pv_now env),
      cc_updatedAt := pv_now env, cc_version := cc_version r + 1\<rparr>)"
    by (simp add: RecordConsumerResync_def write_row_def r)
  have "deliverPage c h k env snap cur p = (commit_tx k ?tx cur, p, Inl e)"
    using behind by (simp add: deliverPage_def lock stmt_undisturbed [OF env] finish_undisturbed [OF env] e_def)
  moreover have "cursor_of k (commit_tx k ?tx cur) = cursor_of k cur"
    using own r by (simp add: commit_tx_def cursor_of_update)
  moreover have "row_count k (commit_tx k ?tx cur) = row_count k cur + 1"
    using own locked_row_count [OF lock r(1)] by (simp add: commit_tx_def row_count_def AList.update_conv')
  moreover have "tail_turn c t (Inl e) st = TailReturn e"
    by (simp add: tail_turn_def normalizeTailContextError_def e_def is_handler_error_def is_net_error_def split: option.splits)
  moreover have "\<not> IsRetryable safeToRetry (Some e)"
    using safe_retry by (simp add: IsRetryable_def e_def is_contention_def pg_code_def is_pg_error_def)
  ultimately show ?thesis by blast
qed

definition demo_pruned :: stream_db where
  "demo_pruned = empty_db\<lparr>sd_horizons := [(''entities'', \<lparr>hz_prunedThrough = 5, hz_updatedAt = 0\<rparr>)], sd_seq := 9,
     sd_watermark := (sd_watermark empty_db)\<lparr>wm_safeSeq := 9\<rparr>,
     sd_cursors := [((''c'', ''entities''), \<lparr>cc_seq = 3, cc_updatedAt = 0, cc_resyncCount = 1, cc_lastResyncAt = None, cc_version = 4\<rparr>)]\<rparr>"

lemma behind_horizon_must_resync_witness:
  "\<exists>d. deliverPage demo_client demo_handler (''c'', ''entities'') quiet_page demo_pruned demo_pruned [1, 2] =
     (d, [1, 2], Inl (ErrResyncRequired ''c'' ''entities'' 3 5)) \<and> row_count (''c'', ''entities'') d = 2"
proof -
  have u: "undisturbed quiet_page" by (simp add: undisturbed_def quiet_page_def)
  obtain tx where "lock_cursor quiet_page (''c'', ''entities'') demo_pruned demo_pruned = Inr (tx, cursor_of (''c'', ''entities'') demo_pruned)"
    using lock_cursor_quiet [OF u] by blast
  moreover have f: "cursor_of (''c'', ''entities'') demo_pruned = 3" "GetStreamPrunedThroughSequence ''entities'' demo_pruned = 5"
    "row_count (''c'', ''entities'') demo_pruned = 1"
    by (code_simp)+
  ultimately have lock: "lock_cursor quiet_page (''c'', ''entities'') demo_pruned demo_pruned = Inr (tx, 3)" by simp
  have "(3::int) < GetStreamPrunedThroughSequence (snd (''c'', ''entities'')) demo_pruned" using f by simp
  from behind_horizon_must_resync [OF u lock this, of "\<lambda>_. False" demo_client demo_handler "[1, 2]"] f
  show ?thesis by (simp del: One_nat_def) blast
qed


text \<open>When the handler fails on an event of a page, the whole page is undone: the events it had already
  handled in this transaction, the cursor, and all other tables are as before, so the page comes
  again. The error names the event that failed and wraps the handler's own, and \<open>Tail\<close> returns it unchanged
  whatever the state of its context.
\<close>

theorem handler_failure_undoes_page:
  assumes env: "undisturbed env" and lock: "lock_cursor env k snap cur = Inr (tx, cursor)"
    and level: "GetStreamPrunedThroughSequence (snd k) snap \<le> cursor"
    and page: "PageChangeEvents (snd k) cursor (GetStreamSafeSequence snap) (wrap32 (cl_batchSize c)) snap = Inr (xs @ ev # ys)"
    and ok: "handle_all h xs p = Some q" and fail: "h ev q = Inl err"
    and public: "\<not> errors_is err ErrCursorFirstTouchRace"
  shows "deliverPage c h k env snap cur p = (cur, p, Inl (TailHandlerError (ev_seq ev) err)) \<and>
    tail_turn c t (Inl (TailHandlerError (ev_seq ev) err)) st = TailReturn (TailHandlerError (ev_seq ev) err) \<and>
    errors_is (TailHandlerError (ev_seq ev) err) err"
proof -
  have "apply_events h m (xs @ ev # ys) p = Inl (TailHandlerError (ev_seq ev) err)" for m
    using ok fail by (induction xs arbitrary: p m) (auto split: sum.splits)
  then have "deliverPage c h k env snap cur p = (cur, p, Inl (TailHandlerError (ev_seq ev) err))"
    using level page by (simp add: deliverPage_def lock stmt_undisturbed [OF env])
  moreover have "errors_is e e" for e by (induction e) auto
  ultimately show ?thesis
    using public by (auto simp: tail_turn_def normalizeTailContextError_def is_handler_error_def)
qed

definition demo_two :: stream_db where
  "demo_two = empty_db\<lparr>sd_seq := 9, sd_watermark := (sd_watermark empty_db)\<lparr>wm_safeSeq := 9\<rparr>,
     sd_events := [\<lparr>ev_seq = 7, ev_stream = ''entities'', ev_kind = ''k'', ev_entityKey = ''b'', ev_occurredAt = 1, ev_payload = []\<rparr>,
       \<lparr>ev_seq = 4, ev_stream = ''entities'', ev_kind = ''k'', ev_entityKey = ''a'', ev_occurredAt = 2, ev_payload = []\<rparr>]\<rparr>"

definition demo_picky :: "Event \<Rightarrow> int list \<Rightarrow> gerror + int list" where
  "demo_picky e p = (if ev_entityKey e = ''b'' then Inl (ErrText ''no b'') else Inr (p @ [ev_seq e]))"

lemma handler_failure_undoes_page_witness:
  "deliverPage demo_client demo_picky (''c'', ''entities'') quiet_page demo_two demo_two [] =
     (demo_two, [], Inl (TailHandlerError 7 (ErrText ''no b'')))"
proof -
  let ?k = "(''c'', ''entities'')"
  let ?b = "hd (sd_events demo_two)" and ?a = "hd (tl (sd_events demo_two))"
  have u: "undisturbed quiet_page" by (simp add: undisturbed_def quiet_page_def)
  obtain tx where lock: "lock_cursor quiet_page ?k demo_two demo_two = Inr (tx, cursor_of ?k demo_two)"
    using lock_cursor_quiet [OF u] by blast
  have f: "cursor_of ?k demo_two = 0" "GetStreamPrunedThroughSequence ''entities'' demo_two = 0" "ev_seq ?b = 7" by code_simp+
  have "GetStreamPrunedThroughSequence (snd ?k) demo_two \<le> cursor_of ?k demo_two" using f by simp
  moreover have "PageChangeEvents (snd ?k) (cursor_of ?k demo_two) (GetStreamSafeSequence demo_two) (wrap32 (cl_batchSize demo_client)) demo_two
      = Inr ([?a] @ ?b # [])" by code_simp
  moreover have "handle_all demo_picky [?a] [] = Some [4]" by code_simp
  moreover have "demo_picky ?b [4] = Inl (ErrText ''no b'')" by code_simp
  ultimately show ?thesis
    using handler_failure_undoes_page [OF u lock, of demo_client "[?a]" ?b "[]" demo_picky "[]" "[4]" "ErrText ''no b''"] f(3)
    by simp
qed

section \<open>Tail\<close>

lemma growBackoff_bounds:
  assumes "lo \<le> b" "b \<le> hi" "0 \<le> lo" "hi < 2 ^ 62"
  shows "lo \<le> growBackoff b hi" "growBackoff b hi \<le> hi"
proof -
  have "wrap64 (b * 2) = b * 2" using assms by (intro wrap64_id) auto
  then show "lo \<le> growBackoff b hi" "growBackoff b hi \<le> hi" using assms by (auto simp: growBackoff_def Let_def)
qed

text \<open>The context stays alive during the turn.\<close>

definition ctx_alive :: "tail_env \<Rightarrow> bool" where
  "ctx_alive t \<longleftrightarrow> te_ctxAcquire t = None \<and> te_ctxPoll t = None \<and> te_ctxWait t = None"

text \<open>C35: While its context lives, no failure of the listener ends \<open>Tail\<close>: after a page that was delivered, or
  the race on a new cursor row, the loop goes on whatever acquiring the \<open>LISTEN\<close> connection or waiting on it
  answers, and the reconnect backoff stays between its configured minimum and maximum.
\<close>

theorem tail_survives_listener:
  assumes "NewClient batchSize pollInterval = Inr c" and "ctx_alive t"
    and "page = Inr n \<or> page = Inl ErrCursorFirstTouchRace"
    and "cl_minBackoff c \<le> tl_backoff st" and "tl_backoff st \<le> cl_maxBackoff c"
  shows "\<exists>st'. tail_turn c t page st = TailAgain st' \<and> cl_minBackoff c \<le> tl_backoff st' \<and> tl_backoff st' \<le> cl_maxBackoff c"
proof -
  have lim: "cl_minBackoff c = minListenerBackoff" "cl_maxBackoff c = maxListenerBackoff"
    using assms(1) by (auto simp: NewClient_def Let_def split: if_splits)
  then have c: "0 \<le> cl_minBackoff c" "cl_minBackoff c \<le> cl_maxBackoff c" "cl_maxBackoff c < 2 ^ 62"
    by (simp_all add: minListenerBackoff_def maxListenerBackoff_def second_def millisecond_def)
  define good where "good x \<longleftrightarrow> (\<exists>s. x = TailAgain s \<and> cl_minBackoff c \<le> tl_backoff s \<and> tl_backoff s \<le> cl_maxBackoff c)" for x
  note grow = growBackoff_bounds [of "cl_minBackoff c" _ "cl_maxBackoff c", OF _ _ c(1,3)]
  have con: "good (connect_listener c t st)"
    using assms(2,4,5) grow by (auto simp: good_def connect_listener_def ctx_alive_def split: option.splits)
  have wake: "good (wait_for_wake c t s)" if "cl_minBackoff c \<le> tl_backoff s" "tl_backoff s \<le> cl_maxBackoff c" for s
    using assms(2) that grow c by (auto simp: good_def wait_for_wake_def ctx_alive_def split: option.splits)
  have "good (tail_turn c t page st)"
    using assms(3)
  proof
    assume "page = Inr n"
    then show ?thesis using con wake assms(4,5) by (auto simp: good_def tail_turn_def)
  next
    assume "page = Inl ErrCursorFirstTouchRace"
    then show ?thesis using assms(4,5) by (simp add: good_def tail_turn_def)
  qed
  then show ?thesis by (simp add: good_def)
qed

definition demo_turn :: tail_env where
  "demo_turn = \<lparr>te_ctxPage = None, te_now = 5, te_acquire = Some (ErrText ''pool exhausted''), te_ctxAcquire = None, te_failedAt = 6,
     te_ctxPoll = None, te_wait = None, te_ctxWait = None, te_lostAt = 7\<rparr>"

lemma tail_survives_listener_witness:
  "\<exists>c st'. NewClient 0 0 = Inr c \<and> tail_turn c demo_turn (Inr 3) \<lparr>tl_listener = False, tl_backoff = 3 * second, tl_nextAttempt = 0\<rparr> = TailAgain st' \<and>
     cl_minBackoff c \<le> tl_backoff st' \<and> tl_backoff st' \<le> cl_maxBackoff c"
proof -
  obtain c where c: "NewClient 0 0 = Inr c" and b: "cl_minBackoff c \<le> 3 * second" "3 * second \<le> cl_maxBackoff c"
    by (auto simp: NewClient_def Let_def streamBatchSize_def defaultPollInterval_def minListenerBackoff_def maxListenerBackoff_def
        second_def millisecond_def)
  from tail_survives_listener [OF c, of demo_turn "Inr 3" 3 "\<lparr>tl_listener = False, tl_backoff = 3 * second, tl_nextAttempt = 0\<rparr>"] b c
  show ?thesis by (simp add: ctx_alive_def demo_turn_def)
qed


lemma apply_events_total:
  assumes "\<forall>e p. \<exists>q. h e p = Inr q"
  shows "\<exists>n q. apply_events h m es p = Inr (n, q)"
proof (induction es arbitrary: m p)
  case (Cons e es)
  obtain q where "h e p = Inr q" using assms by blast
  with Cons.IH show ?case by simp
qed simp

lemma quiet_page_delivers:
  assumes env: "undisturbed env" and cov: "covers hist d" and hz: "horizon (snd k) d \<le> cursor_of k d"
    and batch: "0 < cl_batchSize c" "cl_batchSize c < 2 ^ 31" and total: "\<forall>e p. \<exists>q. h e p = Inr q"
  defines "L \<equiv> published hist (safe d) (snd k)"
  defines "es \<equiv> take (nat (cl_batchSize c)) (drop (position (cursor_of k d) L) L)"
  shows "\<exists>d' p' n. deliverPage c h k env d d p = (d', p', Inr (length es)) \<and> handle_all h es p = Some p' \<and>
    only_cursor k n d d' \<and> cursor_of k d \<le> n \<and> position n L = position (cursor_of k d) L + length es"
proof -
  let ?c = "cursor_of k d"
  obtain tx r where lock: "lock_cursor env k d d = Inr (tx, ?c)" and r: "tx_row k tx = Some r"
    using lock_cursor_quiet [OF env] by blast
  have wrap: "wrap32 (cl_batchSize c) = cl_batchSize c" using batch by (intro wrap32_id) simp_all
  have tp: "table_page (snd k) ?c (nat (cl_batchSize c)) d = es"
    using pl.page_is_next [of "(hist, d)" "snd k" ?c "nat (cl_batchSize c)"] cov hz by (simp add: es_def L_def)
  then have pg: "PageChangeEvents (snd k) ?c (safe d) (wrap32 (cl_batchSize c)) d = Inr es"
    using batch by (simp add: PageChangeEvents_def wrap table_page_def)
  obtain n q where app: "apply_events h ?c es p = Inr (n, q)" using apply_events_total [OF total] by blast
  note n = apply_events_cursor [OF app]
  have run: "deliverPage c h k env d d p =
      (commit_tx k (if es = [] then tx else UpdateConsumerCursor (pv_now env) k n tx) d, q, Inr (length es))"
    using hz by (simp add: deliverPage_def lock stmt_undisturbed [OF env] pg app finish_undisturbed [OF env])
  show ?thesis
  proof (cases "es = []")
    case True
    have "q = p" using app True by simp
    moreover have "only_cursor k ?c d (commit_tx k tx d)"
    proof (cases "tx_own tx")
      case None
      then show ?thesis by (rule only_cursor_unwritten)
    next
      case (Some r')
      with lock_cursor_Inr [OF lock] have "cc_seq r' = ?c" by (auto simp: cursor_of_def)
      with Some show ?thesis by (rule only_cursor_commit)
    qed
    ultimately show ?thesis using True run by (intro exI conjI) auto
  next
    case False
    have "only_cursor k n d (commit_tx k (UpdateConsumerCursor (pv_now env) k n tx) d)"
      using r by (auto simp: UpdateConsumerCursor_def write_row_def intro!: only_cursor_commit)
    moreover have "?c \<le> n"
      using pl.page_members [of "(hist, d)" "snd k" ?c "last es" "nat (cl_batchSize c)"] cov hz False n by (simp add: tp)
    moreover have "position n L = position ?c L + length es"
      using pl.cursor_after_page [of "(hist, d)" "snd k" ?c "nat (cl_batchSize c)"] cov hz False n by (simp add: tp L_def)
    ultimately show ?thesis using False run apply_events_handle [OF app] by auto
  qed
qed

lemma only_cursor_tables:
  assumes "only_cursor k n d d'"
  shows "safe d' = safe d" "horizon s d' = horizon s d" "covers hist d' = covers hist d"
proof -
  show sf: "safe d' = safe d" using assms by (simp add: only_cursor_def GetStreamSafeSequence_def)
  show "horizon s d' = horizon s d" using assms horizon_cong unfolding only_cursor_def by blast
  show "covers hist d' = covers hist d" using assms sf covers_cong unfolding only_cursor_def by blast
qed

definition quiet_turn :: "tail_input \<Rightarrow> bool" where
  "quiet_turn i \<longleftrightarrow> in_before i = (\<lambda>d. d) \<and> in_during i = (\<lambda>d. d) \<and> undisturbed (in_page i) \<and> ctx_alive (in_env i)"

lemma tail_turn_alive: "ctx_alive t \<Longrightarrow> \<exists>st'. tail_turn c t (Inr n) st = TailAgain st'"
  by (auto simp: tail_turn_def connect_listener_def wait_for_wake_def ctx_alive_def split: option.splits)

lemma take_drop_length: "xs = take n xs @ drop (length (take n xs)) xs"
  by (cases "n \<le> length xs") simp_all

lemma tail_loop_catches_up:
  assumes "covers hist d" "horizon (snd k) d \<le> cursor_of k d" "safe d = sf"
    and batch: "0 < cl_batchSize c" "cl_batchSize c < 2 ^ 31" and total: "\<forall>e p. \<exists>q. h e p = Inr q"
    and "\<forall>i \<in> set inputs. quiet_turn i"
    and "length (published hist sf (snd k)) - position (cursor_of k d) (published hist sf (snd k)) \<le> length inputs * nat (cl_batchSize c)"
  shows "\<exists>d' p'. tail_loop c h k st inputs d p = (d', p', None) \<and>
    position (cursor_of k d') (published hist sf (snd k)) = length (published hist sf (snd k)) \<and>
    handle_all h (drop (position (cursor_of k d) (published hist sf (snd k))) (published hist sf (snd k))) p = Some p'"
  using assms(1-3,7,8)
proof (induction inputs arbitrary: d p st)
  case Nil
  then show ?case using position_le [of "cursor_of k d" "published hist sf (snd k)"] by simp
next
  case (Cons i inputs)
  let ?L = "published hist sf (snd k)" and ?pos = "position (cursor_of k d) (published hist sf (snd k))"
  let ?es = "take (nat (cl_batchSize c)) (drop ?pos ?L)"
  have q: "in_before i = (\<lambda>d. d)" "in_during i = (\<lambda>d. d)" "undisturbed (in_page i)" "ctx_alive (in_env i)"
    using Cons.prems(4) by (simp_all add: quiet_turn_def)
  from quiet_page_delivers [OF q(3) Cons.prems(1,2) batch total, of p] Cons.prems(3)
  obtain d1 p1 n where run: "deliverPage c h k (in_page i) d d p = (d1, p1, Inr (length ?es))" and p1: "handle_all h ?es p = Some p1"
    and oc: "only_cursor k n d d1" "cursor_of k d \<le> n" "position n ?L = ?pos + length ?es" by auto
  obtain st1 where st1: "tail_turn c (in_env i) (Inr (length ?es)) st = TailAgain st1" using tail_turn_alive [OF q(4)] by blast
  note same = only_cursor_tables [OF oc(1)] and cu = only_cursor_at [OF oc(1), of k]
  have "length ?L - (?pos + length ?es) \<le> length inputs * nat (cl_batchSize c)" using Cons.prems(5) by simp
  then have "\<exists>d' p'. tail_loop c h k st1 inputs d1 p1 = (d', p', None) \<and> position (cursor_of k d') ?L = length ?L \<and>
      handle_all h (drop (position (cursor_of k d1) ?L) ?L) p1 = Some p'"
    using Cons.prems oc(2,3) by (intro Cons.IH) (simp_all add: same cu)
  then obtain d' p' where IH: "tail_loop c h k st1 inputs d1 p1 = (d', p', None)" "position (cursor_of k d') ?L = length ?L"
    "handle_all h (drop (?pos + length ?es) ?L) p1 = Some p'" using cu oc(3) by auto
  have "drop ?pos ?L = ?es @ drop (?pos + length ?es) ?L"
    using take_drop_length [of "drop ?pos ?L" "nat (cl_batchSize c)"] by (simp add: add.commute)
  then have "handle_all h (drop ?pos ?L) p = handle_all h (?es @ drop (?pos + length ?es) ?L) p" by (rule arg_cong)
  also have "\<dots> = Some p'" unfolding handle_all_append p1 using IH(3) by simp
  finally have "handle_all h (drop ?pos ?L) p = Some p'" .
  then show ?case using IH(1,2) run st1 q(1,2) by (simp add: Let_def)
qed


text \<open>C34: \<open>Tail\<close> reaches the end of the published log. From any tables in which the consumer is not behind its
  horizon, with a handler that accepts events and a database nobody else writes to, enough turns deliver
  every published event after the cursor, in order, to the consumer's tables, with the loop still running;
  \<open>n\<close> turns are enough for \<open>n\<close> times the batch size of events, whatever the listener does.
\<close>

theorem tail_catches_up:
  assumes "validateIdentity (fst k) (snd k) = None" and "covers hist d"
    and "GetStreamPrunedThroughSequence (snd k) d \<le> cursor_of k d"
    and "0 < cl_batchSize c" and "cl_batchSize c < 2 ^ 31" and "\<forall>e p. \<exists>q. h e p = Inr q"
    and "\<forall>i \<in> set inputs. quiet_turn i"
    and "length (published hist (safe d) (snd k)) - position (cursor_of k d) (published hist (safe d) (snd k))
      \<le> length inputs * nat (cl_batchSize c)"
  shows "\<exists>d' p'. Tail c (Some h) k inputs d p = (d', p', None) \<and>
    position (cursor_of k d') (published hist (safe d) (snd k)) = length (published hist (safe d) (snd k)) \<and>
    handle_all h (filter (\<lambda>e. cursor_of k d < ev_seq e) (published hist (safe d) (snd k))) p = Some p'"
proof -
  note run = tail_loop_catches_up [OF assms(2,3) refl assms(4-8)]
  show ?thesis
    unfolding drop_position [OF published_sorted, symmetric] Tail_def assms(1) using run by simp
qed

definition quiet_input :: tail_input where
  "quiet_input = \<lparr>in_before = (\<lambda>d. d), in_during = (\<lambda>d. d), in_page = quiet_page, in_env = demo_turn\<rparr>"

lemma tail_catches_up_witness:
  "\<exists>d'. Tail demo_client (Some demo_handler) (''c'', ''entities'') [quiet_input] demo_two [] = (d', [4, 7], None)"
proof -
  let ?k = "(''c'', ''entities'')" and ?L = "published (sd_events demo_two) (safe demo_two) ''entities''"
  have "covers (sd_events demo_two) demo_two" unfolding covers_def by code_simp
  moreover have "validateIdentity (fst ?k) (snd ?k) = None" by code_simp
  moreover have "GetStreamPrunedThroughSequence (snd ?k) demo_two \<le> cursor_of ?k demo_two" by code_simp
  moreover have "0 < cl_batchSize demo_client" "cl_batchSize demo_client < 2 ^ 31" by (simp_all add: demo_client_def)
  moreover have "\<forall>e p. \<exists>q. demo_handler e p = Inr q" by (simp add: demo_handler_def)
  moreover have "\<forall>i \<in> set [quiet_input]. quiet_turn i"
    by (simp add: quiet_turn_def quiet_input_def undisturbed_def quiet_page_def ctx_alive_def demo_turn_def)
  moreover have "length (published (sd_events demo_two) (safe demo_two) (snd ?k)) -
      position (cursor_of ?k demo_two) (published (sd_events demo_two) (safe demo_two) (snd ?k)) \<le> length [quiet_input] * nat (cl_batchSize demo_client)"
    by code_simp
  ultimately obtain d' p' where
    r: "Tail demo_client (Some demo_handler) ?k [quiet_input] demo_two [] = (d', p', None)"
      "handle_all demo_handler (filter (\<lambda>e. cursor_of ?k demo_two < ev_seq e) (published (sd_events demo_two) (safe demo_two) (snd ?k))) [] = Some p'"
    using tail_catches_up [of ?k "sd_events demo_two" demo_two demo_client demo_handler "[quiet_input]" "[]"] by blast
  have "handle_all demo_handler (filter (\<lambda>e. cursor_of ?k demo_two < ev_seq e) (published (sd_events demo_two) (safe demo_two) (snd ?k))) [] = Some [4, 7]"
    by code_simp
  with r show ?thesis by simp
qed

section \<open>Retention\<close>

definition expired_events :: "gotime \<Rightarrow> stream_db \<Rightarrow> Event list" where
  "expired_events cutoff d = filter (expired cutoff d) (sd_events d)"

text \<open>What one batch deletes: as many expired rows as it may, up to the locked ones.\<close>

lemma prune_batch:
  assumes run: "PruneChangeEvents cutoff limit locked now d = Inr (d', n)" and dist: "distinct (map ev_seq (sd_events d))"
  shows "distinct (map ev_seq (sd_events d'))" "length (expired_events cutoff d') + n = length (expired_events cutoff d)"
    "int n < limit \<Longrightarrow> e \<in> set (expired_events cutoff d') \<Longrightarrow> locked e"
proof -
  define es where "es = doomed cutoff (nat limit) locked d"
  let ?gone = "\<lambda>e. ev_seq e \<in> ev_seq ` set es"
  from run have d': "sd_events d' = filter (\<lambda>e. \<not> ?gone e) (sd_events d)" "sd_watermark d' = sd_watermark d"
    and n: "n = length (sd_events d) - length (filter (\<lambda>e. \<not> ?gone e) (sd_events d))" and lim: "0 \<le> limit"
    by (auto simp: PruneChangeEvents_def Let_def es_def split: if_splits)
  have sub: "e \<in> set (sd_events d)" "expired cutoff d e" if "e \<in> set es" for e
    using doomed_expired [of e cutoff "nat limit" locked d] that by (auto simp: es_def)
  have gone: "?gone e \<longleftrightarrow> e \<in> set es" if "e \<in> set (sd_events d)" for e
    using dist that sub(1) by (auto simp: distinct_map dest: inj_onD)
  have ex: "expired cutoff d' = expired cutoff d" by (simp add: fun_eq_iff expired_def d')
  show "distinct (map ev_seq (sd_events d'))" using dist by (simp add: d' distinct_map_filter)
  have "filter ?gone (sd_events d) = filter (\<lambda>e. expired cutoff d e \<and> ?gone e) (sd_events d)"
    using gone sub(2) by (intro filter_cong) auto
  then have "n = length (filter (\<lambda>e. expired cutoff d e \<and> ?gone e) (sd_events d))"
    using n sum_length_filter_compl [of ?gone "sd_events d"] by simp
  then show "length (expired_events cutoff d') + n = length (expired_events cutoff d)"
    using sum_length_filter_compl [of ?gone "expired_events cutoff d"]
    by (simp add: expired_events_def ex d' conj_commute)
  assume short: "int n < limit" and e: "e \<in> set (expired_events cutoff d')"
  have "distinct es" unfolding es_def doomed_def using dist
    by (intro distinct_take distinct_filter) (metis distinct_filter distinct_map mset_eq_imp_distinct_iff mset_order_events)
  moreover have "mset_set (set es) = mset (filter ?gone (sd_events d))"
  proof -
    have "set (filter ?gone (sd_events d)) = set es" using gone sub(1) by auto
    moreover have "distinct (filter ?gone (sd_events d))" using dist by (simp add: distinct_map)
    ultimately show ?thesis by (metis mset_set_set)
  qed
  ultimately have "length es = n"
    using n sum_length_filter_compl [of ?gone "sd_events d"] by (metis add_diff_cancel_right' mset_set_set size_mset)
  then have "es = filter (\<lambda>e. \<not> locked e) (order_events (expired_events cutoff d))"
    using short lim by (auto simp: es_def doomed_def expired_events_def)
  moreover have "e \<in> set (expired_events cutoff d)" "e \<notin> set es"
    using e gone by (auto simp: expired_events_def d' ex)
  ultimately show "locked e" by auto
qed


text \<open>Other transactions may run between the batches as long as they do not add expired events.\<close>

definition no_new_expired :: "prune_env \<Rightarrow> gotime \<Rightarrow> bool" where
  "no_new_expired env cutoff \<longleftrightarrow> (\<forall>i d. distinct (map ev_seq (sd_events d)) \<longrightarrow>
     distinct (map ev_seq (sd_events (pe_others env i d))) \<and>
     length (expired_events cutoff (pe_others env i d)) \<le> length (expired_events cutoff d))"

lemma prune_loop_ends:
  assumes "0 < batch" "batch < 2 ^ 31" "no_new_expired env cutoff"
    and "distinct (map ev_seq (sd_events d))" "length (expired_events cutoff d) < fuel"
  shows "\<exists>d' n j. prune_loop fuel env i cutoff batch removed d = Some (d', n, None) \<and>
    (\<forall>e \<in> set (expired_events cutoff d'). pe_locked env j e)"
  using assms(4,5)
proof (induction fuel arbitrary: i removed d)
  case (Suc fuel)
  let ?d = "pe_others env i d"
  have o: "distinct (map ev_seq (sd_events ?d))" "length (expired_events cutoff ?d) \<le> length (expired_events cutoff d)"
    using assms(3) Suc.prems(1) by (simp_all add: no_new_expired_def)
  have w: "wrap32 batch = batch" using assms(1,2) by (intro wrap32_id) simp_all
  obtain d2 n where run: "PruneChangeEvents cutoff batch (pe_locked env i) (pe_now env i) ?d = Inr (d2, n)"
    using assms(1) by (auto simp: PruneChangeEvents_def Let_def)
  note b = prune_batch [OF run o(1)]
  show ?case
  proof (cases "int n < batch")
    case True
    with b(3) run w show ?thesis by (auto simp: Let_def)
  next
    case False
    then have "0 < n" using assms(1) by simp
    with b(2) o(2) Suc.prems(2) have "length (expired_events cutoff d2) < fuel" by linarith
    from Suc.IH [OF b(1) this, of "Suc i" "removed + int n"] False run w show ?thesis by (simp add: Let_def)
  qed
qed simp

text \<open>A pruning pass ends and leaves nothing it could remove. With options that \<open>NewRetention\<close> accepts and a
  batch size below two to the 31, while other transactions add no expired events, the loop returns without
  error after at most one batch more than there were expired events, and every expired event still in the
  table was locked by somebody else.
\<close>

theorem prune_ends:
  assumes "NewRetention opts = Inr r" and "ro_batchSize r < 2 ^ 31" and "no_new_expired env (now - ro_age r)"
    and "distinct (map ev_seq (sd_events d))" and "length (expired_events (now - ro_age r) d) < fuel"
  shows "\<exists>d' n j. Prune fuel env now r d = Some (d', n, None) \<and>
    (\<forall>e \<in> set (expired_events (now - ro_age r) d'). pe_locked env j e)"
proof -
  have "0 < ro_batchSize r" using assms(1) by (auto simp: NewRetention_def split: if_splits)
  from prune_loop_ends [OF this assms(2-5), of 0 0] show ?thesis by (simp add: Prune_def)
qed

definition demo_retention :: RetentionOptions where
  "demo_retention = \<lparr>ro_age = minimumRetentionAge, ro_period = 1, ro_batchSize = 1\<rparr>"

definition quiet_prune :: prune_env where
  "quiet_prune = \<lparr>pe_others = (\<lambda>_ d. d), pe_locked = (\<lambda>_ _. False), pe_now = (\<lambda>_. 9)\<rparr>"

lemma prune_ends_witness:
  "\<exists>d' n. Prune 3 quiet_prune (minimumRetentionAge + 100) demo_retention demo_two = Some (d', n, None) \<and>
     expired_events 100 d' = [] \<and> length (expired_events 100 demo_two) = 2"
proof -
  have "NewRetention demo_retention = Inr demo_retention" by (simp add: NewRetention_def demo_retention_def)
  moreover have "ro_batchSize demo_retention < 2 ^ 31" by (simp add: demo_retention_def)
  moreover have "no_new_expired quiet_prune cutoff" for cutoff by (simp add: no_new_expired_def quiet_prune_def)
  moreover have "distinct (map ev_seq (sd_events demo_two))" by code_simp
  moreover have two: "length (expired_events 100 demo_two) = 2" by code_simp
  then have "length (expired_events (minimumRetentionAge + 100 - ro_age demo_retention) demo_two) < 3"
    by (simp add: demo_retention_def)
  ultimately obtain d' n j where "Prune 3 quiet_prune (minimumRetentionAge + 100) demo_retention demo_two = Some (d', n, None)"
    "\<forall>e \<in> set (expired_events (minimumRetentionAge + 100 - ro_age demo_retention) d'). pe_locked quiet_prune j e"
    using prune_ends [of demo_retention demo_retention quiet_prune "minimumRetentionAge + 100" demo_two 3] by blast
  then have "expired_events 100 d' = []" by (simp add: demo_retention_def quiet_prune_def)
  with \<open>Prune 3 quiet_prune _ _ _ = _\<close> two show ?thesis by blast
qed

text \<open>Retention keeps what it must. With options that \<open>NewRetention\<close> accepts, an event that a batch deletes is
  more than seven days old and lies at or below the safe sequence, so every consumer was allowed to see it,
  and its stream's horizon covers it afterwards; no horizon is lowered or passes the safe sequence.
\<close>

theorem retention_keeps_recent_and_unseen:
  assumes opts: "NewRetention opts = Inr r" and run: "PruneChangeEvents (now - ro_age r) limit locked at d = Inr (d', n)"
    and dist: "distinct (map ev_seq (sd_events d))" and pos: "\<forall>e \<in> set (sd_events d). 0 < ev_seq e"
    and hz: "\<forall>s. horizon s d \<le> safe d"
  shows "(\<forall>e \<in> set (sd_events d) - set (sd_events d').
      ev_occurredAt e < now - 7 * 24 * 3600 * second \<and> ev_seq e \<le> safe d \<and> ev_seq e \<le> horizon (ev_stream e) d') \<and>
    horizon s d \<le> horizon s d' \<and> horizon s d' \<le> safe d \<and> safe d' = safe d"
proof -
  note eff = prune_effect [OF run pos hz]
  define es where "es = doomed (now - ro_age r) (nat limit) locked d"
  have d': "sd_events d' = filter (\<lambda>e. ev_seq e \<notin> ev_seq ` set es) (sd_events d)"
    using run by (auto simp: PruneChangeEvents_def Let_def es_def split: if_splits)
  have age: "7 * 24 * 3600 * second \<le> ro_age r"
    using opts by (auto simp: NewRetention_def minimumRetentionAge_def split: if_splits)
  have "ev_occurredAt e < now - 7 * 24 * 3600 * second \<and> ev_seq e \<le> safe d \<and> ev_seq e \<le> horizon (ev_stream e) d'"
    if e: "e \<in> set (sd_events d)" "e \<notin> set (sd_events d')" for e
  proof -
    have uniq: "e' = e" if "e' \<in> set (sd_events d)" "ev_seq e' = ev_seq e" for e'
      using dist that e(1) by (auto simp: distinct_map dest: inj_onD)
    from e obtain e' where e': "e' \<in> set es" "ev_seq e' = ev_seq e" by (auto simp: d')
    have ex: "e' \<in> set (sd_events d) \<and> expired (now - ro_age r) d e'"
      using doomed_expired [of e' "now - ro_age r" "nat limit" locked d] e'(1) by (simp add: es_def)
    then have "expired (now - ro_age r) d e" using uniq [of e'] e'(2) by blast
    moreover have "ev_seq e \<le> horizon (ev_stream e) d'" using eff(5) [OF e] uniq by blast
    ultimately show ?thesis using age by (simp add: expired_def GetStreamSafeSequence_def)
  qed
  then show ?thesis using eff(1,6,7) by (simp add: GetStreamSafeSequence_def)
qed

lemma retention_keeps_recent_and_unseen_witness:
  "case PruneChangeEvents (minimumRetentionAge + 2 - ro_age demo_retention) 5 (\<lambda>_. False) 9 demo_two of
     Inl e \<Rightarrow> False
   | Inr (d', n) \<Rightarrow> n = 1 \<and> (\<forall>e \<in> set (sd_events demo_two) - set (sd_events d'). ev_seq e \<le> horizon (ev_stream e) d') \<and>
       horizon ''entities'' d' \<le> safe demo_two"
proof -
  have opts: "NewRetention demo_retention = Inr demo_retention" by (simp add: NewRetention_def demo_retention_def)
  obtain d' n where run: "PruneChangeEvents (minimumRetentionAge + 2 - ro_age demo_retention) 5 (\<lambda>_. False) 9 demo_two = Inr (d', n)"
    by (auto simp: PruneChangeEvents_def Let_def)
  have "case PruneChangeEvents 2 5 (\<lambda>_. False) 9 demo_two of Inl e \<Rightarrow> False | Inr (d, n) \<Rightarrow> n = 1" by code_simp
  then have n: "n = 1" using run by (simp add: demo_retention_def)
  have "distinct (map ev_seq (sd_events demo_two))" "\<forall>e \<in> set (sd_events demo_two). 0 < ev_seq e" by code_simp+
  moreover have "\<forall>s. horizon s demo_two \<le> safe demo_two"
    by (simp add: demo_two_def empty_db_def GetStreamSafeSequence_def GetStreamPrunedThroughSequence_def)
  ultimately show ?thesis
    using retention_keeps_recent_and_unseen [OF opts run, of "''entities''"] n unfolding run by simp
qed

text \<open>
  The batch size is an \<open>int\<close> that the query takes as \<open>int32\<close>: at two to the 32 the limit is zero, a pass removes
  nothing and reports success.
\<close>

theorem retention_batch_wraps:
  "prune_loop (Suc fuel) env i cutoff (2 ^ 32) removed d =
     Some (pe_others env i d, removed, None)"
  by (simp add: wrap32_def PruneChangeEvents_def doomed_def advance_horizons_def Let_def)


section \<open>The watermarker\<close>

lemma lease_granted:
  assumes "wm_leaseToken (sd_watermark d) = None \<or> wm_leaseToken (sd_watermark d) = Some (wk_token w) \<or>
      (\<exists>u. wm_leaseUntil (sd_watermark d) = Some u \<and> u \<le> now)"
    and "interval (wk_leaseTTL w) = Inr ttl"
  shows "acquireOrRenew interval now w d = (d\<lparr>sd_watermark := (sd_watermark d)\<lparr>wm_leaseToken := Some (wk_token w),
    wm_leaseUntil := Some (now + ttl)\<rparr>\<rparr>, None)"
  using assms by (auto simp: acquireOrRenew_def AcquireOrRenewStreamWatermarkLease_def Let_def split: option.splits)

lemma step_heartbeat_ok: "\<exists>d' w'. step_heartbeat at now w d = (d', w', None) \<and> sd_watermark d' = sd_watermark d \<and> sd_events d' = sd_events d"
  by (auto simp: step_heartbeat_def RecordSuccessN_def EntitiesStream_def)

lemma step_publish_max:
  assumes "lease_valid (wk_token w) now (sd_watermark d)" and t: "t = max_seq (sd_events d)"
  shows "\<exists>d' p. step_publish w now (safe d) t d = Inr (d', p) \<and> safe d' = max (safe d) t \<and> sd_events d' = sd_events d \<and>
    wp_safeSeq p = safe d' \<and> wp_maxSeq p = t \<and> (wp_advanced p \<longleftrightarrow> safe d < safe d')"
proof (cases "t \<le> safe d")
  case True
  then show ?thesis by (simp add: step_publish_def)
next
  case False
  then show ?thesis using assms by (simp add: step_publish_def PublishStreamWatermark_def GetStreamSafeSequence_def Let_def)
qed

text \<open>The other transactions of the step do not write these tables, and both lock statements succeed.\<close>

definition step_alone :: "watermark_env \<Rightarrow> bool" where
  "step_alone env \<longleftrightarrow> me_beforeFence env = (\<lambda>d. d) \<and> me_fenced env = (\<lambda>d. d) \<and> me_afterCommit env = (\<lambda>d. d) \<and>
     me_setTimeout env = (\<lambda>_. None) \<and> me_fence env = (\<lambda>_. None)"

text \<open>A watermarker that gets the lease, obtains the fence and reaches both statements before its lease ends
  publishes exactly the greatest committed sequence, never a smaller one than before, reports it to its
  observer and returns no error. A standby that finds the lease held by another changes nothing, and its loop
  goes on.
\<close>

theorem watermark_step_publishes:
  assumes free: "wm_leaseToken (sd_watermark d) = None \<or> wm_leaseToken (sd_watermark d) = Some (wk_token w) \<or>
      (\<exists>u. wm_leaseUntil (sd_watermark d) = Some u \<and> u \<le> me_now env 0)"
    and ttl: "me_interval env (wk_leaseTTL w) = Inr ttl" and alone: "step_alone env"
    and timely: "me_now env 1 < me_now env 0 + ttl" "me_now env 2 < me_now env 0 + ttl"
    and held: "wm_leaseToken (sd_watermark held_db) = Some other" "other \<noteq> wk_token w"
      "wm_leaseUntil (sd_watermark held_db) = Some until" "me_now env 0 < until"
  shows "(\<exists>d' w' p. Step env w d = (d', w', p, None, [p]) \<and> safe d' = max (safe d) (max_seq (sd_events d)) \<and>
      wp_safeSeq p = safe d' \<and> wp_maxSeq p = max_seq (sd_events d) \<and> (wp_advanced p \<longleftrightarrow> safe d < safe d') \<and>
      sd_events d' = sd_events d) \<and>
    Step env w held_db = (held_db, w, no_progress, Some ErrWatermarkLeaseHeld, []) \<and> run_turn (Some ErrWatermarkLeaseHeld) = None"
proof -
  let ?wm = "(sd_watermark d)\<lparr>wm_leaseToken := Some (wk_token w), wm_leaseUntil := Some (me_now env 0 + ttl)\<rparr>"
  let ?d = "d\<lparr>sd_watermark := ?wm\<rparr>" and ?t = "max_seq (sd_events d)"
  note acq = lease_granted [where now = "me_now env 0" and interval = "me_interval env", OF free ttl]
  have rd: "step_read w (me_now env 1) ?d = Inr (safe d, ?t)"
    using timely by (simp add: step_read_def ReadStreamWatermarkTarget_def lease_valid_def GetStreamSafeSequence_def)
  have sf: "safe ?d = safe d" by (simp add: GetStreamSafeSequence_def)
  have "lease_valid (wk_token w) (me_now env 2) (sd_watermark ?d)" using timely by (simp add: lease_valid_def)
  from step_publish_max [OF this, of ?t] obtain d4 p where pub: "step_publish w (me_now env 2) (safe d) ?t ?d = Inr (d4, p)"
    and d4: "safe d4 = max (safe d) ?t" "sd_events d4 = sd_events d" "wp_safeSeq p = safe d4" "wp_maxSeq p = ?t"
      "wp_advanced p \<longleftrightarrow> safe d < safe d4" by (auto simp: sf)
  obtain d5 w' where hb: "step_heartbeat (me_now env 3) (me_now env 4) w d4 = (d5, w', None)" "sd_watermark d5 = sd_watermark d4"
    "sd_events d5 = sd_events d4" using step_heartbeat_ok by blast
  have "Step env w d = (d5, w', p, None, [p])"
    using alone by (simp add: Step_def acq step_alone_def rd pub hb(1) Let_def del: One_nat_def)
  moreover have "safe d5 = safe d4" using hb(2) by (simp add: GetStreamSafeSequence_def)
  moreover have "Step env w held_db = (held_db, w, no_progress, Some ErrWatermarkLeaseHeld, []) \<and> run_turn (Some ErrWatermarkLeaseHeld) = None"
    using held ttl by (simp add: Step_def acquireOrRenew_def AcquireOrRenewStreamWatermarkLease_def run_turn_def Let_def)
  ultimately show ?thesis using d4 hb(3) by auto
qed

definition demo_marker_env :: watermark_env where
  "demo_marker_env = \<lparr>me_interval = Inr, me_setTimeout = (\<lambda>_. None), me_fence = (\<lambda>_. None), me_beforeFence = (\<lambda>d. d),
     me_fenced = (\<lambda>d. d), me_afterCommit = (\<lambda>d. d), me_now = int\<rparr>"

definition demo_behind :: stream_db where
  "demo_behind = demo_two\<lparr>sd_watermark := (sd_watermark demo_two)\<lparr>wm_safeSeq := 4\<rparr>\<rparr>"

definition demo_held :: stream_db where
  "demo_held = demo_two\<lparr>sd_watermark := (sd_watermark demo_two)\<lparr>wm_leaseToken := Some ''other'', wm_leaseUntil := Some 50\<rparr>\<rparr>"

lemma watermark_step_publishes_witness:
  "(\<exists>d' w' p. Step demo_marker_env demo_marker demo_behind = (d', w', p, None, [p]) \<and> safe d' = 7 \<and> wp_advanced p) \<and>
   fst (Step demo_marker_env demo_marker demo_held) = demo_held"
proof -
  have f: "max_seq (sd_events demo_behind) = 7" "safe demo_behind = 4" by code_simp+
  have a: "wm_leaseToken (sd_watermark demo_behind) = None" "step_alone demo_marker_env" "me_interval demo_marker_env (wk_leaseTTL demo_marker) = Inr 3000"
    "me_now demo_marker_env 1 < me_now demo_marker_env 0 + 3000" "me_now demo_marker_env 2 < me_now demo_marker_env 0 + 3000"
    by (simp_all add: demo_behind_def demo_two_def empty_db_def step_alone_def demo_marker_env_def demo_marker_def)
  have b: "wm_leaseToken (sd_watermark demo_held) = Some ''other''" "''other'' \<noteq> wk_token demo_marker"
    "wm_leaseUntil (sd_watermark demo_held) = Some 50" "me_now demo_marker_env 0 < 50"
    by (simp_all add: demo_held_def demo_marker_def demo_marker_env_def)
  note watermark_step_publishes [OF disjI1 [OF a(1)] a(3,2,4,5) b]
  with f show ?thesis by auto
qed


section \<open>Snapshots and observations\<close>

text \<open>Once a snapshot is committed or closed, closing it again is harmless and committing it changes nothing.\<close>

lemma closed_snapshot_is_inert:
  assumes "Snapshot_Commit fail (Some s) cur p = (s1, cur1, p1, err1) \<or> Snapshot_Close fail' (Some s) = (s1, err1)"
  shows "Snapshot_Close f s1 = (s1, None) \<and> Snapshot_Commit g s1 cur2 p2 = (s1, cur2, p2, Some ErrTxClosed)"
proof -
  have "\<exists>t. s1 = Some t \<and> sn_closed t"
    using assms by (auto simp: Snapshot_Commit_def Snapshot_Close_def split: if_splits option.splits prod.splits)
  then show ?thesis by (auto simp: Snapshot_Close_def Snapshot_Commit_def)
qed

text \<open>Every observed fence attempt is observed once: when it fails, or at the first end of its transaction.\<close>

lemma finish_calls_once: "ot_once tx \<Longrightarrow> finish_calls ts tx = []"
  by (induction ts) (simp_all add: observe_def)

lemma fence_observed_once:
  assumes "acquireObservedFence role True t0 t1 t2 err = (res, obs)" and "ts \<noteq> []"
  shows "length (obs @ (case res of Inr (Some tx) \<Rightarrow> finish_calls ts tx | _ \<Rightarrow> [])) = 1"
proof (cases err)
  case None
  obtain t ts' where ts: "ts = t # ts'" using assms(2) by (cases ts) auto
  with assms(1) None show ?thesis
    by (auto simp: acquireObservedFence_def Let_def observe_def finish_calls_once)
next
  case (Some e)
  with assms(1) show ?thesis by (auto simp: acquireObservedFence_def Let_def)
qed

end
