(* ===== verification/Regexp.thy ===== *)
theory Regexp
  imports Prelude
begin

text \<open>Regular expressions of Go's \<open>regexp\<close> package, as far as the code owners compiler writes them:
  literals, \<open>.\<close>, the negated class of one character, \<open>^\<close> and \<open>$\<close> for the two ends of the text,
  non-capturing groups, alternation and the operators \<open>*\<close>, \<open>+\<close> and \<open>?\<close>. An expression is a
  string, lexed and parsed with a stack of open groups as \<open>regexp/syntax\<close> does, and matched by
  moving a set of positions through the text. A character stands for a code point, so the texts
  are those of the first 256 code points. \<open>spans\<close> is the declarative meaning of an expression and
  \<open>ends_spans\<close> shows that the matcher computes it.\<close>

section \<open>Syntax\<close>

datatype regex =
    Eps
  | Lit char
  | AnyNotNL
  | NotChar char
  | BeginText
  | EndText
  | Seq regex regex
  | Alt regex regex
  | Star regex
  | Plus regex
  | Opt regex

datatype rtoken =
    TLit char | TAny | TNot char | TBegin | TEnd | TOpen | TClose | TBar | TStar | TPlus | TQuest

abbreviation newline :: char where "newline \<equiv> CHR 0x0A"
abbreviation backslash :: char where "backslash \<equiv> CHR 0x5C"

definition meta_chars :: string where
  "meta_chars = backslash # ''.+*?()|[]{}^$''"

definition special :: "char \<Rightarrow> bool" where
  "special c = (c \<in> set meta_chars)"

text \<open>\<open>regexp.QuoteMeta\<close>.\<close>

primrec QuoteMeta :: "string \<Rightarrow> string" where
  "QuoteMeta [] = []"
| "QuoteMeta (c # cs) = (if special c then backslash # c # QuoteMeta cs else c # QuoteMeta cs)"

text \<open>The lexer; \<open>None\<close> for syntax outside the listed forms.\<close>

definition operator_token :: "char \<Rightarrow> rtoken option" where
  "operator_token c =
     (if c = CHR ''.'' then Some TAny else if c = CHR ''^'' then Some TBegin
      else if c = CHR ''$'' then Some TEnd else if c = CHR '')'' then Some TClose
      else if c = CHR ''|'' then Some TBar else if c = CHR ''*'' then Some TStar
      else if c = CHR ''+'' then Some TPlus else if c = CHR ''?'' then Some TQuest
      else if special c then None else Some (TLit c))"

fun lex_regexp :: "string \<Rightarrow> rtoken list option" where
  "lex_regexp [] = Some []"
| "lex_regexp (c # cs) =
     (if c = backslash then
        (case cs of [] \<Rightarrow> None
         | d # ds \<Rightarrow> if special d then map_option ((#) (TLit d)) (lex_regexp ds) else None)
      else if c = CHR ''['' then
        (case cs of a # d # b # ds \<Rightarrow>
           if a = CHR ''^'' \<and> b = CHR '']'' \<and> \<not> special d then map_option ((#) (TNot d)) (lex_regexp ds) else None
         | _ \<Rightarrow> None)
      else if c = CHR ''('' then
        (case cs of a # b # ds \<Rightarrow>
           if a = CHR ''?'' \<and> b = CHR '':'' then map_option ((#) TOpen) (lex_regexp ds) else None
         | _ \<Rightarrow> None)
      else case operator_token c of None \<Rightarrow> None | Some t \<Rightarrow> map_option ((#) t) (lex_regexp cs))"

text \<open>A frame is a group being read: the alternatives before the last bar and the items since, both
  in reverse order. The flag says that the last item was made by a repetition operator, which
  admits no second one.\<close>

type_synonym frame = "regex list \<times> regex list"

record parse_state =
  ps_repeated :: bool
  ps_top :: frame
  ps_below :: "frame list"

primrec cat :: "regex list \<Rightarrow> regex" where
  "cat [] = Eps"
| "cat (r # rs) = Seq (cat rs) r"

primrec alternatives :: "regex \<Rightarrow> regex list \<Rightarrow> regex" where
  "alternatives r [] = r"
| "alternatives r (a # as) = Alt (alternatives a as) r"

definition close_frame :: "frame \<Rightarrow> regex" where
  "close_frame f = alternatives (cat (snd f)) (fst f)"

definition push_item :: "regex \<Rightarrow> parse_state \<Rightarrow> parse_state" where
  "push_item r st = st\<lparr>ps_repeated := False, ps_top := (fst (ps_top st), r # snd (ps_top st))\<rparr>"

definition repeat_item :: "(regex \<Rightarrow> regex) \<Rightarrow> parse_state \<Rightarrow> parse_state option" where
  "repeat_item f st =
     (case snd (ps_top st) of
        [] \<Rightarrow> None
      | r # rs \<Rightarrow> if ps_repeated st then None
                  else Some (st\<lparr>ps_repeated := True, ps_top := (fst (ps_top st), f r # rs)\<rparr>))"

fun parse_token :: "rtoken \<Rightarrow> parse_state \<Rightarrow> parse_state option" where
  "parse_token (TLit c) st = Some (push_item (Lit c) st)"
| "parse_token TAny st = Some (push_item AnyNotNL st)"
| "parse_token (TNot c) st = Some (push_item (NotChar c) st)"
| "parse_token TBegin st = Some (push_item BeginText st)"
| "parse_token TEnd st = Some (push_item EndText st)"
| "parse_token TOpen st =
     Some \<lparr>ps_repeated = False, ps_top = ([], []), ps_below = ps_top st # ps_below st\<rparr>"
| "parse_token TClose st =
     (case ps_below st of
        [] \<Rightarrow> None
      | f # fs \<Rightarrow> Some (push_item (close_frame (ps_top st)) \<lparr>ps_repeated = False, ps_top = f, ps_below = fs\<rparr>))"
| "parse_token TBar st =
     Some (st\<lparr>ps_repeated := False, ps_top := (cat (snd (ps_top st)) # fst (ps_top st), [])\<rparr>)"
| "parse_token TStar st = repeat_item Star st"
| "parse_token TPlus st = repeat_item Plus st"
| "parse_token TQuest st = repeat_item Opt st"

fun parse_tokens :: "rtoken list \<Rightarrow> parse_state \<Rightarrow> parse_state option" where
  "parse_tokens [] st = Some st"
| "parse_tokens (t # ts) st = (case parse_token t st of None \<Rightarrow> None | Some st' \<Rightarrow> parse_tokens ts st')"

text \<open>\<open>regexp.Compile\<close>.\<close>

definition Compile :: "string \<Rightarrow> regex option" where
  "Compile e =
     (case lex_regexp e of None \<Rightarrow> None
      | Some ts \<Rightarrow>
          (case parse_tokens ts \<lparr>ps_repeated = False, ps_top = ([], []), ps_below = []\<rparr> of
             None \<Rightarrow> None
           | Some st \<Rightarrow> if ps_below st = [] then Some (close_frame (ps_top st)) else None))"

section \<open>Matching\<close>

text \<open>The positions after a match of the expression that starts at one of the given positions. A
  repetition advances at most \<open>length s\<close> times, since a round that consumes nothing adds nothing.\<close>

definition advance :: "(char \<Rightarrow> bool) \<Rightarrow> string \<Rightarrow> nat list \<Rightarrow> nat list" where
  "advance P s xs = map Suc (filter (\<lambda>i. i < length s \<and> P (s ! i)) xs)"

primrec rounds :: "nat \<Rightarrow> (nat list \<Rightarrow> nat list) \<Rightarrow> nat list \<Rightarrow> nat list" where
  "rounds 0 f xs = xs"
| "rounds (Suc n) f xs = rounds n f (remdups (xs @ f xs))"

primrec ends :: "regex \<Rightarrow> string \<Rightarrow> nat list \<Rightarrow> nat list" where
  "ends Eps s xs = xs"
| "ends (Lit c) s xs = advance (\<lambda>d. d = c) s xs"
| "ends AnyNotNL s xs = advance (\<lambda>d. d \<noteq> newline) s xs"
| "ends (NotChar c) s xs = advance (\<lambda>d. d \<noteq> c) s xs"
| "ends BeginText s xs = filter (\<lambda>i. i = 0) xs"
| "ends EndText s xs = filter (\<lambda>i. i = length s) xs"
| "ends (Seq r q) s xs = ends q s (ends r s xs)"
| "ends (Alt r q) s xs = ends r s xs @ ends q s xs"
| "ends (Star r) s xs = rounds (length s) (ends r s) xs"
| "ends (Plus r) s xs = rounds (length s) (ends r s) (ends r s xs)"
| "ends (Opt r) s xs = xs @ ends r s xs"

text \<open>\<open>(*Regexp).MatchString\<close>: a match may start anywhere in the text.\<close>

definition MatchString :: "regex \<Rightarrow> string \<Rightarrow> bool" where
  "MatchString r s = (ends r s [0..<Suc (length s)] \<noteq> [])"

section \<open>The matcher computes the meaning of the expression\<close>

definition step_rel :: "(char \<Rightarrow> bool) \<Rightarrow> string \<Rightarrow> nat rel" where
  "step_rel P s = {(i, Suc i) | i. i < length s \<and> P (s ! i)}"

primrec spans :: "regex \<Rightarrow> string \<Rightarrow> nat rel" where
  "spans Eps s = Id"
| "spans (Lit c) s = step_rel (\<lambda>d. d = c) s"
| "spans AnyNotNL s = step_rel (\<lambda>d. d \<noteq> newline) s"
| "spans (NotChar c) s = step_rel (\<lambda>d. d \<noteq> c) s"
| "spans BeginText s = {(0, 0)}"
| "spans EndText s = {(length s, length s)}"
| "spans (Seq r q) s = spans r s O spans q s"
| "spans (Alt r q) s = spans r s \<union> spans q s"
| "spans (Star r) s = (spans r s)\<^sup>*"
| "spans (Plus r) s = (spans r s)\<^sup>+"
| "spans (Opt r) s = Id \<union> spans r s"

text \<open>A path in a relation that never goes back needs no more steps than the distance it covers.\<close>

lemma rtrancl_short:
  assumes "(i, j) \<in> R\<^sup>*" and R: "\<forall>a b. (a, b) \<in> R \<longrightarrow> a \<le> n \<longrightarrow> a \<le> b \<and> b \<le> (n::nat)" and "i \<le> n"
  shows "i \<le> j \<and> j \<le> n \<and> (\<exists>k \<le> j - i. (i, j) \<in> R ^^ k)"
  using assms(1)
proof (induction rule: rtrancl_induct)
  case base
  show ?case using \<open>i \<le> n\<close> by simp
next
  case (step y z)
  then obtain k where k: "i \<le> y" "y \<le> n" "k \<le> y - i" "(i, y) \<in> R ^^ k" by auto
  from R step.hyps(2) k(2) have yz: "y \<le> z" "z \<le> n" by blast+
  show ?case
  proof (cases "y = z")
    case True
    with k show ?thesis by auto
  next
    case False
    with yz k have "Suc k \<le> z - i" by auto
    moreover have "(i, z) \<in> R ^^ Suc k" using k(4) step.hyps(2) by auto
    ultimately show ?thesis using yz k(1) by (meson le_trans)
  qed
qed

lemma spans_forward: "(i, j) \<in> spans r s \<Longrightarrow> i \<le> length s \<Longrightarrow> i \<le> j \<and> j \<le> length s"
proof (induction r arbitrary: i j)
  case (Seq r q)
  from Seq.prems(1) obtain k where "(i, k) \<in> spans r s" "(k, j) \<in> spans q s" by auto
  then show ?case using Seq.IH Seq.prems(2) by (meson order_trans)
next
  case (Star r)
  from Star.prems(1) have "(i, j) \<in> (spans r s)\<^sup>*" by simp
  from rtrancl_short [OF this _ Star.prems(2)] Star.IH show ?case by blast
next
  case (Plus r)
  from Plus.prems(1) have "(i, j) \<in> (spans r s)\<^sup>*" by (simp add: trancl_into_rtrancl)
  from rtrancl_short [OF this _ Plus.prems(2)] Plus.IH show ?case by blast
qed (auto simp: step_rel_def)

lemma rounds_relpow:
  assumes f: "\<forall>ys. set ys \<subseteq> D \<longrightarrow> set (f ys) = R `` set ys" and R: "R `` D \<subseteq> D" and "set xs \<subseteq> D"
  shows "set (rounds n f xs) = {j. \<exists>i \<in> set xs. \<exists>k \<le> n. (i, j) \<in> R ^^ k}"
  using assms(3)
proof (induction n arbitrary: xs)
  case 0
  show ?case by auto
next
  case (Suc n)
  have next_set: "set (remdups (xs @ f xs)) = set xs \<union> R `` set xs" using f Suc.prems by simp
  have "set (remdups (xs @ f xs)) \<subseteq> D" unfolding next_set using R Suc.prems by blast
  note IH = Suc.IH [OF this, unfolded next_set]
  have "(\<exists>i \<in> set xs \<union> R `` set xs. \<exists>k \<le> n. (i, j) \<in> R ^^ k) \<longleftrightarrow> (\<exists>i \<in> set xs. \<exists>k \<le> Suc n. (i, j) \<in> R ^^ k)" for j
  proof
    assume "\<exists>i \<in> set xs \<union> R `` set xs. \<exists>k \<le> n. (i, j) \<in> R ^^ k"
    then show "\<exists>i \<in> set xs. \<exists>k \<le> Suc n. (i, j) \<in> R ^^ k"
      by (metis ImageE Suc_le_mono UnE le_SucI relpow_Suc_I2)
  next
    assume "\<exists>i \<in> set xs. \<exists>k \<le> Suc n. (i, j) \<in> R ^^ k"
    then obtain i k where ik: "i \<in> set xs" "k \<le> Suc n" "(i, j) \<in> R ^^ k" by blast
    show "\<exists>i \<in> set xs \<union> R `` set xs. \<exists>k \<le> n. (i, j) \<in> R ^^ k"
    proof (cases k)
      case 0
      with ik have "i \<in> set xs \<union> R `` set xs" "(i, j) \<in> R ^^ 0" by auto
      then show ?thesis by blast
    next
      case (Suc m)
      with ik obtain y where "(i, y) \<in> R" "(y, j) \<in> R ^^ m" by (metis relpow_Suc_D2)
      with ik Suc show ?thesis by (auto intro!: bexI [of _ y])
    qed
  qed
  then show ?case using IH by simp
qed

lemma rounds_rtrancl:
  assumes f: "\<forall>ys. set ys \<subseteq> {..n} \<longrightarrow> set (f ys) = R `` set ys"
    and R: "\<forall>i j. (i, j) \<in> R \<longrightarrow> i \<le> n \<longrightarrow> i \<le> j \<and> j \<le> n" and xs: "set xs \<subseteq> {..n}"
  shows "set (rounds n f xs) = R\<^sup>* `` set xs"
proof -
  have stays: "R `` {..n} \<subseteq> {..n}" using R by fastforce
  have "(\<exists>k \<le> n. (i, j) \<in> R ^^ k) \<longleftrightarrow> (i, j) \<in> R\<^sup>*" if "i \<in> set xs" for i j
  proof
    assume path: "(i, j) \<in> R\<^sup>*"
    have "i \<le> n" using that xs by auto
    with rtrancl_short [OF path R] show "\<exists>k \<le> n. (i, j) \<in> R ^^ k"
      by (meson diff_le_self le_trans)
  qed (auto dest: relpow_imp_rtrancl)
  then show ?thesis unfolding rounds_relpow [OF f stays xs] by auto
qed

lemma advance_step: "set (advance P s xs) = step_rel P s `` set xs"
  by (auto simp: advance_def step_rel_def)

lemma ends_spans: "set xs \<subseteq> {..length s} \<Longrightarrow> set (ends r s xs) = spans r s `` set xs"
proof (induction r arbitrary: xs)
  case (Seq r q)
  then have "set (ends r s xs) = spans r s `` set xs" by blast
  moreover from this have "set (ends r s xs) \<subseteq> {..length s}" using Seq.prems spans_forward by fastforce
  ultimately show ?case using Seq.IH(2) by (auto simp: relcomp_Image)
next
  case (Star r)
  then show ?case using spans_forward by (auto simp: rounds_rtrancl)
next
  case (Plus r)
  have *: "set (ends r s xs) = spans r s `` set xs" using Plus by blast
  moreover from this have "set (ends r s xs) \<subseteq> {..length s}" using Plus.prems spans_forward by fastforce
  moreover have "set (rounds (length s) (ends r s) ys) = (spans r s)\<^sup>* `` set ys" if "set ys \<subseteq> {..length s}" for ys
    using rounds_rtrancl [OF _ _ that] Plus.IH spans_forward by blast
  ultimately have "set (ends (Plus r) s xs) = (spans r s)\<^sup>* `` (spans r s `` set xs)"
    by simp
  also have "\<dots> = (spans r s)\<^sup>+ `` set xs" by (simp add: trancl_unfold_left relcomp_Image)
  finally show ?case by simp
qed (auto simp: advance_step)

lemma MatchString_spans: "MatchString r s \<longleftrightarrow> (\<exists>i j. i \<le> length s \<and> (i, j) \<in> spans r s)"
proof -
  have "set [0..<Suc (length s)] \<subseteq> {..length s}" by auto
  from ends_spans [OF this, of r]
  have "set (ends r s [0..<Suc (length s)]) = spans r s `` {..length s}"
    by (simp only: set_upt atLeast0LessThan lessThan_Suc_atMost)
  then show ?thesis unfolding MatchString_def set_empty [symmetric] by (auto simp: Image_def)
qed

section \<open>The words of an expression without anchors\<close>

definition conc :: "string set \<Rightarrow> string set \<Rightarrow> string set" where
  "conc L M = {x @ y | x y. x \<in> L \<and> y \<in> M}"

lemma conc_iff: "w \<in> conc L M \<longleftrightarrow> (\<exists>x y. w = x @ y \<and> x \<in> L \<and> y \<in> M)"
  by (auto simp: conc_def)

lemma conc_assoc: "conc (conc K L) M = conc K (conc L M)"
proof (intro set_eqI iffI)
  fix w
  assume "w \<in> conc (conc K L) M"
  then obtain x y z where xyz: "w = x @ (y @ z)" "x \<in> K" "y \<in> L" "z \<in> M" unfolding conc_iff by auto
  then have "y @ z \<in> conc L M" unfolding conc_def by blast
  with xyz show "w \<in> conc K (conc L M)" unfolding conc_iff [of w] by blast
next
  fix w
  assume "w \<in> conc K (conc L M)"
  then obtain x y z where xyz: "w = (x @ y) @ z" "x \<in> K" "y \<in> L" "z \<in> M" unfolding conc_iff by auto
  then have "x @ y \<in> conc K L" unfolding conc_def by blast
  with xyz show "w \<in> conc (conc K L) M" unfolding conc_iff [of w] by blast
qed

lemma conc_Nil [simp]: "conc {[]} M = M" "conc L {[]} = L"
  by (auto simp: conc_def)

lemma conc_single: "w \<in> conc {[d] | d. P d} M \<longleftrightarrow> (\<exists>d v. w = d # v \<and> P d \<and> v \<in> M)"
proof (intro iffI)
  assume "\<exists>d v. w = d # v \<and> P d \<and> v \<in> M"
  then obtain d v where "w = [d] @ v" "P d" "v \<in> M" by auto
  then show "w \<in> conc {[d] | d. P d} M" unfolding conc_iff by blast
qed (auto simp: conc_iff)

lemma set_subset_image: "set ws \<subseteq> f ` A \<longleftrightarrow> (\<exists>ds. ws = map f ds \<and> set ds \<subseteq> A)"
proof -
  have "set ws \<subseteq> f ` A \<longleftrightarrow> ws \<in> lists (f ` A)" by (auto simp: in_lists_conv_set)
  also have "\<dots> \<longleftrightarrow> ws \<in> map f ` lists A" by (simp only: lists_image)
  also have "\<dots> \<longleftrightarrow> (\<exists>ds. ws = map f ds \<and> set ds \<subseteq> A)" by (auto simp: in_lists_conv_set)
  finally show ?thesis .
qed

primrec lang :: "regex \<Rightarrow> string set" where
  "lang Eps = {[]}"
| "lang (Lit c) = {[c]}"
| "lang AnyNotNL = {[d] | d. d \<noteq> newline}"
| "lang (NotChar c) = {[d] | d. d \<noteq> c}"
| "lang BeginText = {}"
| "lang EndText = {}"
| "lang (Seq r q) = conc (lang r) (lang q)"
| "lang (Alt r q) = lang r \<union> lang q"
| "lang (Star r) = {concat ws | ws. set ws \<subseteq> lang r}"
| "lang (Plus r) = {concat ws | ws. ws \<noteq> [] \<and> set ws \<subseteq> lang r}"
| "lang (Opt r) = insert [] (lang r)"

lemma star_lang_image:
  assumes "lang r = {f d | d. D d}"
  shows "lang (Star r) = {concat (map f ds) | ds. \<forall>d \<in> set ds. D d}"
proof -
  have "lang r = f ` Collect D" using assms by blast
  then have "set ws \<subseteq> lang r \<longleftrightarrow> (\<exists>ds. ws = map f ds \<and> (\<forall>d \<in> set ds. D d))" for ws
    using set_subset_image [of ws f "Collect D"] by (simp add: subset_eq)
  note words = this
  show ?thesis unfolding lang.simps words by blast
qed

primrec anchor_free :: "regex \<Rightarrow> bool" where
  "anchor_free Eps = True"
| "anchor_free (Lit c) = True"
| "anchor_free AnyNotNL = True"
| "anchor_free (NotChar c) = True"
| "anchor_free BeginText = False"
| "anchor_free EndText = False"
| "anchor_free (Seq r q) = (anchor_free r \<and> anchor_free q)"
| "anchor_free (Alt r q) = (anchor_free r \<and> anchor_free q)"
| "anchor_free (Star r) = anchor_free r"
| "anchor_free (Plus r) = anchor_free r"
| "anchor_free (Opt r) = anchor_free r"

text \<open>The text splits at a position into what was read and what is left; an expression without anchors
  matches there exactly when a word of its language is a prefix of what is left.\<close>

definition reads_word :: "string set \<Rightarrow> string \<Rightarrow> string \<Rightarrow> nat \<Rightarrow> bool" where
  "reads_word L u t j \<longleftrightarrow> (\<exists>w v. t = w @ v \<and> w \<in> L \<and> j = length u + length w)"

lemma step_rel_reads:
  "(length u, j) \<in> step_rel P (u @ t) \<longleftrightarrow> reads_word {[d] | d. P d} u t j"
proof (cases t)
  case (Cons c cs)
  have "(\<exists>w v. c # cs = w @ v \<and> w \<in> {[d] | d. P d} \<and> j = length u + length w) \<longleftrightarrow> P c \<and> j = Suc (length u)"
  proof (intro iffI)
    assume "P c \<and> j = Suc (length u)"
    then show "\<exists>w v. c # cs = w @ v \<and> w \<in> {[d] | d. P d} \<and> j = length u + length w"
      by (intro exI [of _ "[c]"] exI [of _ cs]) simp
  qed auto
  with Cons show ?thesis by (auto simp: step_rel_def reads_word_def)
qed (auto simp: step_rel_def reads_word_def)

lemma star_reads:
  assumes r: "\<forall>u t j. (length u, j) \<in> spans r (u @ t) \<longleftrightarrow> reads_word (lang r) u t j"
  shows "(length u, j) \<in> (spans r (u @ t))\<^sup>* \<longleftrightarrow> reads_word (lang (Star r)) u t j"
proof
  assume "(length u, j) \<in> (spans r (u @ t))\<^sup>*"
  then have "\<exists>ws v. t = concat ws @ v \<and> set ws \<subseteq> lang r \<and> j = length (u @ concat ws)"
  proof (induction rule: rtrancl_induct)
    case base
    show ?case by (rule exI [of _ "[]"]) simp
  next
    case (step y z)
    then obtain ws v where ws: "t = concat ws @ v" "set ws \<subseteq> lang r" "y = length (u @ concat ws)" by blast
    with step.hyps(2) r have "reads_word (lang r) (u @ concat ws) v z" by (metis append_assoc)
    then obtain w v' where "v = w @ v'" "w \<in> lang r" "z = length (u @ concat ws) + length w"
      by (auto simp: reads_word_def)
    with ws show ?case by (intro exI [of _ "ws @ [w]"]) simp
  qed
  then show "reads_word (lang (Star r)) u t j" by (auto simp: reads_word_def)
next
  have "(length u, length u + length (concat ws)) \<in> (spans r (u @ concat ws @ v))\<^sup>*" if "set ws \<subseteq> lang r" for ws v
    using that
  proof (induction ws arbitrary: u)
    case (Cons w ws)
    then have "(length u, length (u @ w)) \<in> spans r (u @ w @ concat ws @ v)"
      by (auto simp: r reads_word_def)
    moreover have "(length (u @ w), length (u @ w) + length (concat ws)) \<in> (spans r ((u @ w) @ concat ws @ v))\<^sup>*"
      using Cons.IH [of "u @ w"] Cons.prems by simp
    ultimately show ?case by (simp add: add.assoc converse_rtrancl_into_rtrancl)
  qed simp
  then show "(length u, j) \<in> (spans r (u @ t))\<^sup>*" if "reads_word (lang (Star r)) u t j"
    using that by (auto simp: reads_word_def)
qed

lemma seq_reads:
  assumes r: "\<forall>u t j. (length u, j) \<in> R (u @ t) \<longleftrightarrow> reads_word L u t j"
    and q: "\<forall>u t j. (length u, j) \<in> Q (u @ t) \<longleftrightarrow> reads_word M u t j"
  shows "(length u, j) \<in> R (u @ t) O Q (u @ t) \<longleftrightarrow> reads_word (conc L M) u t j"
proof
  assume "(length u, j) \<in> R (u @ t) O Q (u @ t)"
  then obtain k where k: "(length u, k) \<in> R (u @ t)" "(k, j) \<in> Q (u @ t)" by auto
  then obtain w v where w: "t = w @ v" "w \<in> L" "k = length (u @ w)" by (auto simp: r reads_word_def)
  with k(2) q have "reads_word M (u @ w) v j" by (metis append_assoc)
  then obtain y v' where y: "v = y @ v'" "y \<in> M" "j = length (u @ w) + length y" by (auto simp: reads_word_def)
  with w have "t = (w @ y) @ v' \<and> w @ y \<in> conc L M \<and> j = length u + length (w @ y)" by (auto simp: conc_def)
  then show "reads_word (conc L M) u t j" unfolding reads_word_def by blast
next
  assume "reads_word (conc L M) u t j"
  then obtain x y v where xy: "t = x @ y @ v" "x \<in> L" "y \<in> M" "j = length (u @ x) + length y"
    by (auto simp: reads_word_def conc_def)
  then have "reads_word L u t (length (u @ x))" "reads_word M (u @ x) (y @ v) j" by (auto simp: reads_word_def)
  then have "(length u, length (u @ x)) \<in> R (u @ t)" "(length (u @ x), j) \<in> Q (u @ t)"
    using r q xy(1) by (metis, metis append_assoc)
  then show "(length u, j) \<in> R (u @ t) O Q (u @ t)" by blast
qed

lemma plus_lang: "lang (Plus r) = conc (lang r) (lang (Star r))"
proof (intro set_eqI iffI)
  fix w
  assume "w \<in> lang (Plus r)"
  then obtain x ws where "w = x @ concat ws" "x \<in> lang r" "set ws \<subseteq> lang r" by (auto simp: neq_Nil_conv)
  then show "w \<in> conc (lang r) (lang (Star r))" by (auto simp: conc_def)
next
  fix w
  assume "w \<in> conc (lang r) (lang (Star r))"
  then obtain x ws where "w = concat (x # ws)" "set (x # ws) \<subseteq> lang r" by (auto simp: conc_def)
  then show "w \<in> lang (Plus r)" unfolding lang.simps by blast
qed

lemma spans_lang:
  "anchor_free r \<Longrightarrow> \<forall>u t j. (length u, j) \<in> spans r (u @ t) \<longleftrightarrow> reads_word (lang r) u t j"
proof (induction r)
  case (Seq r q)
  then show ?case using seq_reads [of "spans r" "lang r" "spans q" "lang q"] by simp
next
  case (Star r)
  then show ?case using star_reads [of r] by simp
next
  case (Plus r)
  then have r: "\<forall>u t j. (length u, j) \<in> spans r (u @ t) \<longleftrightarrow> reads_word (lang r) u t j" by simp
  moreover from this star_reads [of r]
  have "\<forall>u t j. (length u, j) \<in> spans (Star r) (u @ t) \<longleftrightarrow> reads_word (lang (Star r)) u t j" by simp
  ultimately show ?case using seq_reads [of "spans r" "lang r" "spans (Star r)" "lang (Star r)"] plus_lang [of r]
    by (simp add: trancl_unfold_left)
qed (auto simp: step_rel_reads, auto simp: reads_word_def)

section \<open>Reading an expression piece by piece\<close>

lemma parse_tokens_append:
  "parse_tokens (ts @ us) st = (case parse_tokens ts st of None \<Rightarrow> None | Some st' \<Rightarrow> parse_tokens us st')"
  by (induction ts arbitrary: st) (auto split: option.split)

lemma lex_quoted: "lex_regexp (QuoteMeta [c] @ e) = map_option ((#) (TLit c)) (lex_regexp e)"
  by (cases "special c") (auto simp: special_def meta_chars_def operator_token_def)

text \<open>A piece of an expression reads as one item when it lexes to tokens of its own, whatever
  follows it, and these push just that item.\<close>

definition reads_as :: "string \<Rightarrow> regex \<Rightarrow> bool" where
  "reads_as piece r \<longleftrightarrow>
     (\<exists>ts. (\<forall>e. lex_regexp (piece @ e) = map_option ((@) ts) (lex_regexp e)) \<and>
        (\<forall>st. \<exists>q. parse_tokens ts st = Some ((push_item r st)\<lparr>ps_repeated := q\<rparr>)))"

lemma push_item_False: "\<exists>q. push_item r st = (push_item r st)\<lparr>ps_repeated := q\<rparr>"
  by (rule exI [of _ False]) (simp add: push_item_def)

lemma reads_as_quoted: "reads_as (QuoteMeta [c]) (Lit c)"
  unfolding reads_as_def
  by (rule exI [of _ "[TLit c]"]) (auto simp: lex_quoted fun_eq_iff push_item_False simp del: QuoteMeta.simps intro!: option.map_cong)

lemma reads_as_pieces:
  assumes "list_all2 reads_as ps rs"
  shows "\<exists>ts. (\<forall>e. lex_regexp (concat ps @ e) = map_option ((@) ts) (lex_regexp e)) \<and>
    (\<forall>st. \<exists>q. parse_tokens ts st = Some (st\<lparr>ps_repeated := q, ps_top := (fst (ps_top st), rev rs @ snd (ps_top st))\<rparr>))"
  using assms
proof (induction ps rs rule: list_all2_induct)
  case Nil
  have "\<exists>q. Some st = Some (st\<lparr>ps_repeated := q, ps_top := (fst (ps_top st), snd (ps_top st))\<rparr>)" for st :: parse_state
    by (rule exI [of _ "ps_repeated st"]) simp
  then show ?case by (intro exI [of _ "[]"]) (simp add: option.map_id0 option.map_ident)
next
  case (Cons p ps r rs)
  from Cons.hyps(1) obtain ts where ts: "\<forall>e. lex_regexp (p @ e) = map_option ((@) ts) (lex_regexp e)"
      "\<forall>st. \<exists>q. parse_tokens ts st = Some ((push_item r st)\<lparr>ps_repeated := q\<rparr>)"
    unfolding reads_as_def by blast
  from Cons.IH obtain us where us: "\<forall>e. lex_regexp (concat ps @ e) = map_option ((@) us) (lex_regexp e)"
      "\<forall>st. \<exists>q. parse_tokens us st = Some (st\<lparr>ps_repeated := q, ps_top := (fst (ps_top st), rev rs @ snd (ps_top st))\<rparr>)"
    by blast
  have "lex_regexp (concat (p # ps) @ e) = map_option ((@) (ts @ us)) (lex_regexp e)" for e
    using ts(1) us(1) by (auto simp: option.map_comp intro!: option.map_cong)
  moreover have "\<exists>q. parse_tokens (ts @ us) st =
      Some (st\<lparr>ps_repeated := q, ps_top := (fst (ps_top st), rev (r # rs) @ snd (ps_top st))\<rparr>)" for st
  proof -
    from ts(2) obtain q where q: "parse_tokens ts st = Some ((push_item r st)\<lparr>ps_repeated := q\<rparr>)" by blast
    from us(2) obtain q' where "parse_tokens us ((push_item r st)\<lparr>ps_repeated := q\<rparr>) =
        Some ((push_item r st)\<lparr>ps_repeated := q', ps_top := (fst (ps_top st), rev rs @ r # snd (ps_top st))\<rparr>)"
      using that by (auto simp: push_item_def dest!: spec [of _ "(push_item r st)\<lparr>ps_repeated := q\<rparr>"])
    with q show ?thesis by (auto simp: parse_tokens_append push_item_def)
  qed
  ultimately show ?case by blast
qed

theorem Compile_pieces:
  assumes "list_all2 reads_as ps rs"
  shows "Compile (concat ps) = Some (cat (rev rs))"
proof -
  let ?st = "\<lparr>ps_repeated = False, ps_top = ([], []), ps_below = []\<rparr>"
  from reads_as_pieces [OF assms] obtain ts q
    where "lex_regexp (concat ps @ []) = map_option ((@) ts) (lex_regexp [])"
      and "parse_tokens ts ?st = Some (?st\<lparr>ps_repeated := q, ps_top := ([], rev rs @ [])\<rparr>)"
    by (metis fst_conv parse_state.select_convs(2) snd_conv)
  then show ?thesis by (simp add: Compile_def close_frame_def)
qed

lemma spans_cat_append: "spans (cat (qs @ rs)) s = spans (cat rs) s O spans (cat qs) s"
  by (induction qs) auto

lemma anchor_free_cat [simp]: "anchor_free (cat rs) \<longleftrightarrow> list_all anchor_free rs"
  by (induction rs) auto

lemma concat_singletons: "{concat ws | ws :: string list. set ws \<subseteq> {[d] | d. P d}} = {u. \<forall>c \<in> set u. P c}"
proof (intro set_eqI iffI)
  fix u :: string
  assume "u \<in> {concat ws | ws. set ws \<subseteq> {[d] | d. P d}}"
  then obtain ws where "u = concat ws" "set ws \<subseteq> {[d] | d. P d}" by blast
  then show "u \<in> {u. \<forall>c \<in> set u. P c}" by fastforce
next
  fix u :: string
  assume "u \<in> {u. \<forall>c \<in> set u. P c}"
  then show "u \<in> {concat ws | ws. set ws \<subseteq> {[d] | d. P d}}"
    by (intro CollectI exI [of _ "map (\<lambda>c. [c]) u"]) auto
qed

lemma lang_cat_append: "lang (cat (qs @ rs)) = conc (lang (cat rs)) (lang (cat qs))"
  by (induction qs) (auto simp: conc_assoc)

text \<open>An expression that ends at the end of the text matches a path when what is left after its
  opening is one of its words.\<close>

lemma match_to_end:
  assumes "anchor_free r"
  shows "(\<exists>k j. S k \<and> k \<le> length s \<and> (k, j) \<in> spans r s O {(length s, length s)}) \<longleftrightarrow>
    (\<exists>u t. s = u @ t \<and> S (length u) \<and> t \<in> lang r)"
proof
  assume "\<exists>k j. S k \<and> k \<le> length s \<and> (k, j) \<in> spans r s O {(length s, length s)}"
  then obtain k where k: "S k" "k \<le> length s" "(k, length s) \<in> spans r s" by auto
  then have "(length (take k s), length s) \<in> spans r (take k s @ drop k s)" by simp
  then have "reads_word (lang r) (take k s) (drop k s) (length s)" using spans_lang [OF assms] by blast
  then obtain w v where w: "drop k s = w @ v" "w \<in> lang r" "length s = length (take k s) + length w"
    unfolding reads_word_def by blast
  have "length s - k = length w + length v" using arg_cong [OF w(1), of length] by simp
  moreover have "length s = k + length w" using w(3) k(2) by simp
  ultimately have "length v = 0" by arith
  with w(1,2) have "drop k s \<in> lang r" by simp
  with k show "\<exists>u t. s = u @ t \<and> S (length u) \<and> t \<in> lang r" by (intro exI [of _ "take k s"] exI [of _ "drop k s"]) simp
next
  assume "\<exists>u t. s = u @ t \<and> S (length u) \<and> t \<in> lang r"
  then obtain u t where ut: "s = u @ t" "S (length u)" "t \<in> lang r" by blast
  then have "reads_word (lang r) u t (length s)" by (auto simp: reads_word_def)
  then have "(length u, length s) \<in> spans r s" using spans_lang [OF assms] ut(1) by blast
  then have "(length u, length s) \<in> spans r s O {(length s, length s)}" by blast
  moreover have "length u \<le> length s" using ut(1) by simp
  ultimately show "\<exists>k j. S k \<and> k \<le> length s \<and> (k, j) \<in> spans r s O {(length s, length s)}" using ut(2) by blast
qed

end
