(* ===== verification/Code_Owners.thy ===== *)
theory Code_Owners
  imports Regexp
begin

text \<open>The code owners resolver (\<open>internal/codeowners/resolver.go\<close>): the lines of a CODEOWNERS file
  become rules, a rule's pattern becomes a regular expression that is built as text and compiled,
  and the last rule that matches a path names its owners. A loop over the index of a line is a
  recursion on the rest of the line. The scans compare single bytes with ASCII characters only,
  so a character of the model stands for a whole code point.\<close>

section \<open>Rules and owners\<close>

datatype OwnerType = OwnerUser | OwnerTeam | OwnerEmail | OwnerMalformed

record Owner =
  ow_token :: string
  ow_type :: OwnerType
  ow_name :: string

record Rule =
  ru_pattern :: string
  ru_line :: nat
  ru_owners :: "Owner list"
  ru_matcher :: regex

record Match =
  ma_pattern :: string
  ma_line :: nat
  ma_owners :: "Owner list"

datatype pattern_error =
    NegationUnsupported
  | RangesUnsupported
  | EmptyPattern
  | DanglingEscape
  | CompileFailed

section \<open>Lines\<close>

definition isSpace :: "char \<Rightarrow> bool" where
  "isSpace c = (c = CHR '' '' \<or> c = CHR 0x09 \<or> c = CHR 0x0B \<or> c = CHR 0x0C)"

text \<open>The scan of a pattern: the pattern, the rest of the line and whether an escape is still open.\<close>

fun scan_pattern :: "bool \<Rightarrow> string \<Rightarrow> string \<times> string \<times> bool" where
  "scan_pattern escaped [] = ([], [], escaped)"
| "scan_pattern escaped (c # cs) =
     (if escaped then (case scan_pattern False cs of (p, rest, e) \<Rightarrow> (c # p, rest, e))
      else if c = backslash then (case scan_pattern True cs of (p, rest, e) \<Rightarrow> (c # p, rest, e))
      else if isSpace c then ([], c # cs, False)
      else (case scan_pattern False cs of (p, rest, e) \<Rightarrow> (c # p, rest, e)))"

function scan_tokens :: "string \<Rightarrow> string list" where
  "scan_tokens line =
     (let rest = dropWhile isSpace line in
      if rest = [] \<or> hd rest = CHR ''#'' then []
      else takeWhile (\<lambda>c. \<not> isSpace c) rest # scan_tokens (dropWhile (\<lambda>c. \<not> isSpace c) rest))"
  by pat_completeness auto
termination
proof (relation "measure length", simp)
  fix line rest :: string
  assume rest: "rest = dropWhile isSpace line" and "\<not> (rest = [] \<or> hd rest = CHR ''#'')"
  then have "rest \<noteq> []" "\<not> isSpace (hd rest)" using hd_dropWhile [of isSpace line] by simp_all
  then have "length (dropWhile (\<lambda>c. \<not> isSpace c) rest) < length rest"
    by (cases rest) (auto intro: le_imp_less_Suc length_dropWhile_le)
  also have "length rest \<le> length line" using rest by (simp add: length_dropWhile_le)
  finally show "(dropWhile (\<lambda>c. \<not> isSpace c) rest, line) \<in> measure length" by simp
qed

declare scan_tokens.simps [simp del]

definition trim_right_cr :: "string \<Rightarrow> string" where
  "trim_right_cr line = rev (dropWhile (\<lambda>c. c = CHR 0x0D) (rev line))"

definition splitRule :: "string \<Rightarrow> (string \<times> string list) option" where
  "splitRule line =
     (let rest = dropWhile isSpace (trim_right_cr line) in
      if rest = [] \<or> hd rest = CHR ''#'' then None
      else if take 2 rest = [backslash, CHR ''#''] then None
      else (case scan_pattern False rest of
              (pattern, tokens, escaped) \<Rightarrow>
                if escaped then None
                else if pattern = [] then None
                else Some (pattern, scan_tokens tokens)))"

section \<open>Patterns\<close>

fun hasUnescaped_from :: "bool \<Rightarrow> string \<Rightarrow> char \<Rightarrow> bool" where
  "hasUnescaped_from escaped [] target = False"
| "hasUnescaped_from escaped (c # cs) target =
     (if escaped then hasUnescaped_from False cs target
      else if c = backslash then hasUnescaped_from True cs target
      else if c = target then True
      else hasUnescaped_from False cs target)"

definition hasUnescaped :: "string \<Rightarrow> char \<Rightarrow> bool" where
  "hasUnescaped value target = hasUnescaped_from False value target"

definition hasUnescapedWildcard :: "string \<Rightarrow> bool" where
  "hasUnescapedWildcard value = (hasUnescaped value CHR ''*'' \<or> hasUnescaped value CHR ''?'')"

definition lastPatternComponent :: "string \<Rightarrow> string" where
  "lastPatternComponent pattern = rev (takeWhile (\<lambda>c. c \<noteq> CHR ''/'') (rev pattern))"

text \<open>The loop that writes the expression of a pattern; \<open>prev\<close> is the character before the index, and
  none at the start.\<close>

definition write_piece :: "string \<Rightarrow> pattern_error + string \<Rightarrow> pattern_error + string" where
  "write_piece piece res = (case res of Inl e \<Rightarrow> Inl e | Inr rest \<Rightarrow> Inr (piece @ rest))"

lemma write_piece_cong [fundef_cong]: "piece = piece' \<Longrightarrow> res = res' \<Longrightarrow> write_piece piece res = write_piece piece' res'"
  by simp

lemma dropWhile_shorter:
  "length (dropWhile P xs) < Suc (length xs)" "length (tl (dropWhile P xs)) < Suc (length xs)"
  using length_dropWhile_le [of P xs] by simp_all

function pattern_expression :: "char option \<Rightarrow> string \<Rightarrow> pattern_error + string" where
  "pattern_expression prev [] = Inr []"
| "pattern_expression prev (c # cs) =
     (if c = backslash then
        (case cs of [] \<Rightarrow> Inl DanglingEscape
         | d # ds \<Rightarrow> write_piece (QuoteMeta [d]) (pattern_expression (Some d) ds))
      else if c = CHR ''*'' then
        (let run = takeWhile (\<lambda>d. d = CHR ''*'') (c # cs);
             rest = dropWhile (\<lambda>d. d = CHR ''*'') cs;
             segmentStart = (prev = None \<or> prev = Some CHR ''/'') in
         if length run = 2 \<and> segmentStart \<and> rest = [] then Inr ''.*''
         else if length run = 2 \<and> segmentStart \<and> hd rest = CHR ''/'' then
           write_piece ''(?:[^/]+/)*'' (pattern_expression (Some CHR ''/'') (tl rest))
         else write_piece ''[^/]*'' (pattern_expression (Some CHR ''*'') rest))
      else if c = CHR ''?'' then write_piece ''[^/]'' (pattern_expression (Some c) cs)
      else write_piece (QuoteMeta [c]) (pattern_expression (Some c) cs))"
  by pat_completeness auto
termination
  by (relation "measure (length \<circ> snd)") (simp_all add: dropWhile_shorter del: length_tl)

definition compilePattern :: "string \<Rightarrow> pattern_error + regex" where
  "compilePattern source =
     (if take 1 source = ''!'' then Inl NegationUnsupported
      else if hasUnescaped source CHR ''['' \<or> hasUnescaped source CHR '']'' then Inl RangesUnsupported
      else
        let anchored = (take 1 source = ''/'');
            trimmed = (if anchored then tl source else source);
            directory = (trimmed \<noteq> [] \<and> last trimmed = CHR ''/'');
            pattern = (if directory then butlast trimmed else trimmed) in
        if pattern = [] then Inl EmptyPattern
        else
          let hasSlash = (CHR ''/'' \<in> set pattern);
              opening = (if anchored \<or> hasSlash then ''^'' else ''(?:^|.*/)'');
              below = (if directory \<or> \<not> hasUnescapedWildcard (lastPatternComponent pattern)
                       then ''(?:/.*)?'' else []) in
          case pattern_expression None pattern of
            Inl e \<Rightarrow> Inl e
          | Inr body \<Rightarrow>
              (case Compile (opening @ body @ below @ ''$'') of
                 None \<Rightarrow> Inl CompileFailed
               | Some matcher \<Rightarrow> Inr matcher))"

section \<open>Owners\<close>

text \<open>\<open>unicode.IsLetter\<close> and \<open>unicode.IsDigit\<close> on the first 256 code points.\<close>

definition IsLetter :: "char \<Rightarrow> bool" where
  "IsLetter c = (let n = (of_char c :: nat) in
     (65 \<le> n \<and> n \<le> 90) \<or> (97 \<le> n \<and> n \<le> 122) \<or> n = 170 \<or> n = 181 \<or> n = 186 \<or>
     (192 \<le> n \<and> n \<noteq> 215 \<and> n \<noteq> 247))"

definition IsDigit :: "char \<Rightarrow> bool" where
  "IsDigit c = (let n = (of_char c :: nat) in 48 \<le> n \<and> n \<le> 57)"

definition validOwnerPart :: "string \<Rightarrow> bool" where
  "validOwnerPart value =
     (value \<noteq> [] \<and> list_all (\<lambda>c. IsLetter c \<or> IsDigit c \<or> c = CHR ''-'' \<or> c = CHR ''_'') value)"

definition classifyOwner :: "string \<Rightarrow> Owner" where
  "classifyOwner token =
     (let malformed = \<lparr>ow_token = token, ow_type = OwnerMalformed, ow_name = []\<rparr> in
      case strip_prefix ''@'' token of
        Some name \<Rightarrow>
          (case split_char CHR ''/'' name of
             [part] \<Rightarrow>
               if validOwnerPart part then malformed\<lparr>ow_type := OwnerUser, ow_name := part\<rparr> else malformed
           | [org, team] \<Rightarrow>
               if validOwnerPart org \<and> validOwnerPart team
               then malformed\<lparr>ow_type := OwnerTeam, ow_name := name\<rparr> else malformed
           | _ \<Rightarrow> malformed)
      | None \<Rightarrow>
          if count_list token CHR ''@'' = 1 then
            (let local = takeWhile (\<lambda>c. c \<noteq> CHR ''@'') token;
                 domain = tl (dropWhile (\<lambda>c. c \<noteq> CHR ''@'') token) in
             if local \<noteq> [] \<and> domain \<noteq> [] \<and> \<not> list_ex (\<lambda>c. c = CHR '' '' \<or> c = CHR ''/'' \<or> c = CHR 0x09) token
             then malformed\<lparr>ow_type := OwnerEmail, ow_name := token\<rparr> else malformed)
          else malformed)"

section \<open>Parsing and resolving\<close>

fun replace_crlf :: "string \<Rightarrow> string" where
  "replace_crlf [] = []"
| "replace_crlf [c] = [c]"
| "replace_crlf (c # d # cs) =
     (if c = CHR 0x0D \<and> d = newline then newline # replace_crlf cs else c # replace_crlf (d # cs))"

definition source_lines :: "string \<Rightarrow> string list" where
  "source_lines source = split_char newline (replace_crlf source)"

definition parse_line :: "nat \<Rightarrow> string \<Rightarrow> Rule option" where
  "parse_line index line =
     (case splitRule line of
        None \<Rightarrow> None
      | Some (pattern, tokens) \<Rightarrow>
          (case compilePattern pattern of
             Inl _ \<Rightarrow> None
           | Inr matcher \<Rightarrow>
               Some \<lparr>ru_pattern = pattern, ru_line = index + 1, ru_owners = map classifyOwner tokens,
                     ru_matcher = matcher\<rparr>))"

primrec parse_lines :: "nat \<Rightarrow> string list \<Rightarrow> Rule list" where
  "parse_lines index [] = []"
| "parse_lines index (line # lines) =
     (case parse_line index line of None \<Rightarrow> [] | Some rule \<Rightarrow> [rule]) @ parse_lines (index + 1) lines"

definition Parse :: "string \<Rightarrow> Rule list" where
  "Parse source = parse_lines 0 (source_lines source)"

definition trim_slash :: "string \<Rightarrow> string" where
  "trim_slash path = (case strip_prefix ''/'' path of Some rest \<Rightarrow> rest | None \<Rightarrow> path)"

definition Resolve :: "Rule list \<Rightarrow> string \<Rightarrow> Match option" where
  "Resolve rules path =
     foldl (\<lambda>result rule.
        if MatchString (ru_matcher rule) (trim_slash path)
        then Some \<lparr>ma_pattern = ru_pattern rule, ma_line = ru_line rule, ma_owners = ru_owners rule\<rparr>
        else result) None rules"

end
