(* ===== verification/Owner_Patterns.thy ===== *)
theory Owner_Patterns
  imports Code_Owners
begin

text \<open>What a CODEOWNERS pattern means. A pattern is read as a list of glob tokens, \<open>globs\<close> says which
  words the tokens stand for, and \<open>pattern_matches\<close> says which paths the pattern covers. The
  regular expression that the code builds as text compiles, for every accepted pattern, and
  matches exactly these paths.\<close>

section \<open>The meaning of a pattern\<close>

datatype gtoken =
    GChar char
  | GOne
  | GRun
  | GDirs
  | GRest

text \<open>A token other than a character stands for one character of a component, a run of them, any
  number of whole directories, or the whole rest of a line.\<close>

inductive globs :: "gtoken list \<Rightarrow> string \<Rightarrow> bool" where
  globs_end: "globs [] []"
| globs_char: "globs g w \<Longrightarrow> globs (GChar c # g) (c # w)"
| globs_one: "c \<noteq> CHR ''/'' \<Longrightarrow> globs g w \<Longrightarrow> globs (GOne # g) (c # w)"
| globs_run: "CHR ''/'' \<notin> set u \<Longrightarrow> globs g w \<Longrightarrow> globs (GRun # g) (u @ w)"
| globs_dirs: "\<forall>d \<in> set ds. d \<noteq> [] \<and> CHR ''/'' \<notin> set d \<Longrightarrow> globs g w \<Longrightarrow>
     globs (GDirs # g) (concat (map (\<lambda>d. d @ ''/'') ds) @ w)"
| globs_rest: "newline \<notin> set u \<Longrightarrow> globs g w \<Longrightarrow> globs (GRest # g) (u @ w)"

inductive_cases globs_NilE: "globs [] w"
inductive_cases globs_CharE: "globs (GChar c # g) w"
inductive_cases globs_OneE: "globs (GOne # g) w"
inductive_cases globs_RunE: "globs (GRun # g) w"
inductive_cases globs_DirsE: "globs (GDirs # g) w"
inductive_cases globs_RestE: "globs (GRest # g) w"

text \<open>The tokens of a pattern, given the character before it.\<close>

function glob_tokens :: "char option \<Rightarrow> string \<Rightarrow> gtoken list option" where
  "glob_tokens prev [] = Some []"
| "glob_tokens prev (c # cs) =
     (if c = backslash then
        (case cs of [] \<Rightarrow> None | d # ds \<Rightarrow> map_option ((#) (GChar d)) (glob_tokens (Some d) ds))
      else if c = CHR ''*'' then
        (let run = takeWhile (\<lambda>d. d = CHR ''*'') (c # cs);
             rest = dropWhile (\<lambda>d. d = CHR ''*'') cs in
         if length run = 2 \<and> prev \<in> {None, Some CHR ''/''} \<and> rest = [] then Some [GRest]
         else if length run = 2 \<and> prev \<in> {None, Some CHR ''/''} \<and> hd rest = CHR ''/''
         then map_option ((#) GDirs) (glob_tokens (Some CHR ''/'') (tl rest))
         else map_option ((#) GRun) (glob_tokens (Some CHR ''*'') rest))
      else if c = CHR ''?'' then map_option ((#) GOne) (glob_tokens (Some c) cs)
      else map_option ((#) (GChar c)) (glob_tokens (Some c) cs))"
  by pat_completeness auto
termination
  by (relation "measure (length \<circ> snd)") (simp_all add: dropWhile_shorter del: length_tl)

text \<open>The parts of a pattern: whether it is tied to the root of the repository, whether it names a
  directory, and what is left between the slashes at its ends.\<close>

definition pattern_core :: "string \<Rightarrow> string" where
  "pattern_core source =
     (let t = (if take 1 source = ''/'' then tl source else source) in
      if t \<noteq> [] \<and> last t = CHR ''/'' then butlast t else t)"

definition names_directory :: "string \<Rightarrow> bool" where
  "names_directory source =
     (let t = (if take 1 source = ''/'' then tl source else source) in t \<noteq> [] \<and> last t = CHR ''/'')"

definition rooted :: "string \<Rightarrow> bool" where
  "rooted source = (take 1 source = ''/'' \<or> CHR ''/'' \<in> set (pattern_core source))"

text \<open>A pattern covers the files below what it names when it ends in a slash or its last component has
  no wildcard.\<close>

definition covers_below :: "string \<Rightarrow> bool" where
  "covers_below source =
     (names_directory source \<or> \<not> hasUnescapedWildcard (lastPatternComponent (pattern_core source)))"

definition pattern_matches :: "string \<Rightarrow> string \<Rightarrow> bool" where
  "pattern_matches source path \<longleftrightarrow>
     (\<exists>g before named after.
        glob_tokens None (pattern_core source) = Some g \<and> globs g named \<and>
        path = before @ named @ after \<and>
        (before = [] \<or> \<not> rooted source \<and> last before = CHR ''/'') \<and>
        (after = [] \<or> covers_below source \<and> hd after = CHR ''/'' \<and> newline \<notin> set after))"

text \<open>The patterns that the resolver supports.\<close>

definition supported_pattern :: "string \<Rightarrow> bool" where
  "supported_pattern source \<longleftrightarrow>
     take 1 source \<noteq> ''!'' \<and> \<not> hasUnescaped source CHR ''['' \<and> \<not> hasUnescaped source CHR '']'' \<and>
     pattern_core source \<noteq> [] \<and> glob_tokens None (pattern_core source) \<noteq> None"

section \<open>The expression of a pattern\<close>

fun piece_text :: "gtoken \<Rightarrow> string" where
  "piece_text (GChar c) = QuoteMeta [c]"
| "piece_text GOne = ''[^/]''"
| "piece_text GRun = ''[^/]*''"
| "piece_text GDirs = ''(?:[^/]+/)*''"
| "piece_text GRest = ''.*''"

fun piece_regex :: "gtoken \<Rightarrow> regex" where
  "piece_regex (GChar c) = Lit c"
| "piece_regex GOne = NotChar CHR ''/''"
| "piece_regex GRun = Star (NotChar CHR ''/'')"
| "piece_regex GDirs = Star (Seq (Seq Eps (Plus (NotChar CHR ''/''))) (Lit CHR ''/''))"
| "piece_regex GRest = Star AnyNotNL"

lemma pattern_expression_tokens:
  "pattern_expression prev p =
     (case glob_tokens prev p of None \<Rightarrow> Inl DanglingEscape | Some g \<Rightarrow> Inr (concat (map piece_text g)))"
proof (induction p arbitrary: prev rule: length_induct)
  case (1 p)
  note IH = 1 [rule_format]
  show ?case
  proof (cases p)
    case (Cons c cs)
    let ?rest = "dropWhile (\<lambda>d. d = CHR ''*'') cs"
    have shorter: "length ?rest < length p" "length (tl ?rest) < length p"
      using dropWhile_shorter [of "\<lambda>d. d = CHR ''*''" cs] Cons by auto
    consider "c = backslash" | "c = CHR ''*''" | "c \<noteq> backslash" "c \<noteq> CHR ''*''" by blast
    then show ?thesis
    proof cases
      case 1
      then show ?thesis using IH Cons by (cases cs) (auto simp: write_piece_def split: option.split)
    next
      case 2
      show ?thesis
        unfolding Cons pattern_expression.simps glob_tokens.simps Let_def IH [OF shorter(1)] IH [OF shorter(2)]
        by (auto simp: 2 write_piece_def split: option.split simp del: takeWhile.simps)
    next
      case 3
      then show ?thesis using IH [of cs] Cons by (auto simp: write_piece_def split: option.split)
    qed
  qed simp
qed

lemmas lex_simps = operator_token_def special_def meta_chars_def
lemmas parse_simps = push_item_def repeat_item_def close_frame_def

lemma reads_as_intro:
  assumes "\<forall>e. lex_regexp (piece @ e) = map_option ((@) ts) (lex_regexp e)"
    and "\<forall>st. parse_tokens ts st = Some ((push_item r st)\<lparr>ps_repeated := q\<rparr>)"
  shows "reads_as piece r"
  using assms unfolding reads_as_def by blast

lemma piece_reads_as: "reads_as (piece_text t) (piece_regex t)"
proof (cases t)
  case (GChar c)
  then show ?thesis by (simp only: piece_text.simps piece_regex.simps reads_as_quoted)
next
  case GOne
  show ?thesis unfolding GOne
    by (rule reads_as_intro [where ts = "[TNot CHR ''/'']" and q = False])
       (auto simp: lex_simps parse_simps option.map_comp intro!: option.map_cong)
next
  case GRun
  show ?thesis unfolding GRun
    by (rule reads_as_intro [where ts = "[TNot CHR ''/'', TStar]" and q = True])
       (auto simp: lex_simps parse_simps option.map_comp intro!: option.map_cong)
next
  case GDirs
  show ?thesis unfolding GDirs
    by (rule reads_as_intro [where ts = "[TOpen, TNot CHR ''/'', TPlus, TLit CHR ''/'', TClose, TStar]" and q = True])
       (auto simp: lex_simps parse_simps option.map_comp intro!: option.map_cong)
next
  case GRest
  show ?thesis unfolding GRest
    by (rule reads_as_intro [where ts = "[TAny, TStar]" and q = True])
       (auto simp: lex_simps parse_simps option.map_comp intro!: option.map_cong)
qed

definition any_directory :: regex where
  "any_directory = Alt (Seq Eps BeginText) (Seq (Seq Eps (Star AnyNotNL)) (Lit CHR ''/''))"

definition anything_below :: regex where
  "anything_below = Opt (Seq (Seq Eps (Lit CHR ''/'')) (Star AnyNotNL))"

lemma frame_reads_as:
  "reads_as ''^'' BeginText" "reads_as ''$'' EndText"
  "reads_as ''(?:^|.*/)'' any_directory" "reads_as ''(?:/.*)?'' anything_below"
  by (rule reads_as_intro [where ts = "[TBegin]" and q = False],
      auto simp: lex_simps parse_simps option.map_comp intro!: option.map_cong,
      rule reads_as_intro [where ts = "[TEnd]" and q = False],
      auto simp: lex_simps parse_simps option.map_comp intro!: option.map_cong,
      rule reads_as_intro [where ts = "[TOpen, TBegin, TBar, TAny, TStar, TLit CHR ''/'', TClose]" and q = False],
      auto simp: lex_simps parse_simps any_directory_def option.map_comp intro!: option.map_cong,
      rule reads_as_intro [where ts = "[TOpen, TLit CHR ''/'', TAny, TStar, TClose, TQuest]" and q = True],
      auto simp: lex_simps parse_simps anything_below_def option.map_comp intro!: option.map_cong)

text \<open>The matcher of a supported pattern.\<close>

definition pattern_regex :: "string \<Rightarrow> gtoken list \<Rightarrow> regex" where
  "pattern_regex source g =
     cat (rev ([if rooted source then BeginText else any_directory] @ map piece_regex g @
       (if covers_below source then [anything_below] else []) @ [EndText]))"

lemma compile_expression:
  "Compile ((if rooted source then ''^'' else ''(?:^|.*/)'') @ concat (map piece_text g) @
      (if covers_below source then ''(?:/.*)?'' else []) @ ''$'') = Some (pattern_regex source g)"
proof -
  let ?ps = "[if rooted source then ''^'' else ''(?:^|.*/)''] @ map piece_text g @
      (if covers_below source then [''(?:/.*)?''] else []) @ [''$'']"
  have "list_all2 reads_as (map piece_text g) (map piece_regex g)"
    by (simp add: list_all2_conv_all_nth piece_reads_as)
  then have "list_all2 reads_as ?ps ([if rooted source then BeginText else any_directory] @ map piece_regex g @
       (if covers_below source then [anything_below] else []) @ [EndText])"
    by (intro list_all2_appendI) (auto simp: frame_reads_as)
  note compiled = Compile_pieces [OF this]
  show ?thesis unfolding pattern_regex_def compiled [symmetric] by simp
qed

lemma compilePattern_parts:
  "compilePattern source =
     (if take 1 source = ''!'' then Inl NegationUnsupported
      else if hasUnescaped source CHR ''['' \<or> hasUnescaped source CHR '']'' then Inl RangesUnsupported
      else if pattern_core source = [] then Inl EmptyPattern
      else case pattern_expression None (pattern_core source) of
             Inl e \<Rightarrow> Inl e
           | Inr body \<Rightarrow>
               (case Compile ((if rooted source then ''^'' else ''(?:^|.*/)'') @ body @
                        (if covers_below source then ''(?:/.*)?'' else []) @ ''$'') of
                  None \<Rightarrow> Inl CompileFailed
                | Some matcher \<Rightarrow> Inr matcher))"
  unfolding compilePattern_def pattern_core_def names_directory_def rooted_def covers_below_def Let_def
  by (rule refl)

lemma compilePattern_result:
  "compilePattern source =
     (if take 1 source = ''!'' then Inl NegationUnsupported
      else if hasUnescaped source CHR ''['' \<or> hasUnescaped source CHR '']'' then Inl RangesUnsupported
      else if pattern_core source = [] then Inl EmptyPattern
      else case glob_tokens None (pattern_core source) of
             None \<Rightarrow> Inl DanglingEscape
           | Some g \<Rightarrow> Inr (pattern_regex source g))"
  unfolding compilePattern_parts pattern_expression_tokens
  by (cases "glob_tokens None (pattern_core source)")
     (simp_all only: option.case sum.case compile_expression)

section \<open>The words of the expression\<close>

lemma piece_lang:
  "lang (piece_regex (GChar c)) = {[c]}"
  "lang (piece_regex GOne) = {[d] | d. d \<noteq> CHR ''/''}"
  "lang (piece_regex GRun) = {u. CHR ''/'' \<notin> set u}"
  "lang (piece_regex GRest) = {u. newline \<notin> set u}"
  by (auto simp: concat_singletons)

lemma directory_lang:
  "lang (Seq (Seq Eps (Plus (NotChar CHR ''/''))) (Lit CHR ''/'')) =
     {d @ ''/'' | d. d \<noteq> [] \<and> CHR ''/'' \<notin> set d}"
proof -
  have "lang (Plus (NotChar CHR ''/'')) = {d. d \<noteq> [] \<and> CHR ''/'' \<notin> set d}" (is "?L = ?R")
  proof (intro set_eqI iffI)
    fix d
    assume "d \<in> ?L"
    then obtain c y where "d = [c] @ y" "c \<noteq> CHR ''/''" "y \<in> lang (Star (NotChar CHR ''/''))"
      by (auto simp: plus_lang conc_def simp del: lang.simps(9,10))
    then show "d \<in> ?R" by (auto simp: concat_singletons)
  next
    fix d
    assume "d \<in> ?R"
    then obtain c y where "d = [c] @ y" "c \<noteq> CHR ''/''" "CHR ''/'' \<notin> set y" by (cases d) auto
    then have "[c] \<in> lang (NotChar CHR ''/'')" "y \<in> lang (Star (NotChar CHR ''/''))" "d = [c] @ y"
      by (auto simp: concat_singletons)
    then show "d \<in> ?L" unfolding plus_lang conc_iff by blast
  qed
  then show ?thesis by (auto simp: conc_def simp del: lang.simps(10))
qed

lemma dirs_lang:
  "lang (piece_regex GDirs) = {concat (map (\<lambda>d. d @ ''/'') ds) | ds. \<forall>d \<in> set ds. d \<noteq> [] \<and> CHR ''/'' \<notin> set d}"
  unfolding piece_regex.simps by (rule star_lang_image [OF directory_lang])

lemma globs_Cons: "globs (t # g) w \<longleftrightarrow> w \<in> conc (lang (piece_regex t)) {v. globs g v}"
proof (cases t)
  case (GChar c)
  then show ?thesis unfolding GChar piece_lang conc_iff by (auto elim: globs_CharE intro: globs_char)
next
  case GOne
  then show ?thesis unfolding GOne piece_lang conc_single by (auto elim: globs_OneE intro: globs_one)
next
  case GRun
  show ?thesis unfolding GRun piece_lang conc_iff mem_Collect_eq by (blast elim: globs_RunE intro: globs_run)
next
  case GDirs
  show ?thesis unfolding GDirs dirs_lang conc_iff mem_Collect_eq by (blast elim: globs_DirsE intro: globs_dirs)
next
  case GRest
  show ?thesis unfolding GRest piece_lang conc_iff mem_Collect_eq by (blast elim: globs_RestE intro: globs_rest)
qed

lemma globs_lang: "lang (cat (rev (map piece_regex g))) = {w. globs g w}"
proof (induction g)
  case Nil
  show ?case by (auto intro: globs_end elim: globs_NilE)
next
  case (Cons t g)
  have "lang (cat (rev (map piece_regex (t # g)))) = conc (lang (piece_regex t)) {w. globs g w}"
    using lang_cat_append [of "rev (map piece_regex g)" "[piece_regex t]"] Cons by simp
  then show ?case by (auto simp: globs_Cons)
qed

lemma below_lang: "lang anything_below = {a. a = [] \<or> hd a = CHR ''/'' \<and> newline \<notin> set a \<and> a \<noteq> []}"
proof -
  have "lang (Star AnyNotNL) = {u. newline \<notin> set u}" by (auto simp: concat_singletons)
  then have "lang anything_below = insert [] {CHR ''/'' # u | u. newline \<notin> set u}"
    by (auto simp: anything_below_def conc_def simp del: lang.simps(9))
  also have "\<dots> = {a. a = [] \<or> hd a = CHR ''/'' \<and> newline \<notin> set a \<and> a \<noteq> []}"
    by (auto simp: neq_Nil_conv)
  finally show ?thesis .
qed

section \<open>The matcher of a pattern\<close>

text \<open>Where the named part may start: at the root, or after any slash.\<close>

lemma any_directory_spans:
  "k \<le> length s \<Longrightarrow>
    (\<exists>i \<le> length s. (i, k) \<in> spans any_directory s) \<longleftrightarrow> k = 0 \<or> last (take k s) = CHR ''/''"
proof
  assume k: "k \<le> length s" and "\<exists>i \<le> length s. (i, k) \<in> spans any_directory s"
  then obtain i where "k = 0 \<or> (i, k) \<in> (step_rel (\<lambda>d. d \<noteq> newline) s)\<^sup>* O step_rel (\<lambda>d. d = CHR ''/'') s"
    unfolding any_directory_def by auto
  then show "k = 0 \<or> last (take k s) = CHR ''/''"
    by (auto simp: step_rel_def take_Suc_conv_app_nth)
next
  assume k: "k \<le> length s" and "k = 0 \<or> last (take k s) = CHR ''/''"
  then show "\<exists>i \<le> length s. (i, k) \<in> spans any_directory s"
  proof (cases k)
    case 0
    then show ?thesis by (intro exI [of _ 0]) (simp add: any_directory_def)
  next
    case (Suc i)
    with k \<open>k = 0 \<or> last (take k s) = CHR ''/''\<close> have "(i, k) \<in> step_rel (\<lambda>d. d = CHR ''/'') s"
      by (auto simp: step_rel_def take_Suc_conv_app_nth Suc_le_eq)
    then have "(i, k) \<in> spans any_directory s" unfolding any_directory_def by auto
    with Suc k show ?thesis by (intro exI [of _ i]) simp
  qed
qed

lemma opening_spans:
  assumes "k \<le> length s"
  shows "(\<exists>i \<le> length s. (i, k) \<in> spans (if rooted source then BeginText else any_directory) s) \<longleftrightarrow>
    k = 0 \<or> \<not> rooted source \<and> last (take k s) = CHR ''/''"
  using any_directory_spans [OF assms] by (cases "rooted source") auto

definition pattern_tail :: "string \<Rightarrow> gtoken list \<Rightarrow> regex" where
  "pattern_tail source g = cat (rev (map piece_regex g @ (if covers_below source then [anything_below] else [])))"

lemma piece_anchor_free: "anchor_free (piece_regex t)"
  by (cases t) auto

lemma tail_anchor_free: "anchor_free (pattern_tail source g)"
  by (auto simp: pattern_tail_def anything_below_def piece_anchor_free list_all_iff)

lemma tail_lang:
  "t \<in> lang (pattern_tail source g) \<longleftrightarrow>
     (\<exists>named after. t = named @ after \<and> globs g named \<and>
        (after = [] \<or> covers_below source \<and> hd after = CHR ''/'' \<and> newline \<notin> set after))"
  unfolding pattern_tail_def rev_append lang_cat_append globs_lang conc_iff mem_Collect_eq
  by (auto simp: below_lang)

lemma pattern_regex_spans:
  "spans (pattern_regex source g) s =
     spans (if rooted source then BeginText else any_directory) s O
       (spans (pattern_tail source g) s O {(length s, length s)})"
  unfolding pattern_regex_def pattern_tail_def rev_append spans_cat_append by (simp add: O_assoc spans_cat_append)

lemma pattern_regex_matches:
  assumes g: "glob_tokens None (pattern_core source) = Some g"
  shows "MatchString (pattern_regex source g) path \<longleftrightarrow> pattern_matches source path"
proof -
  let ?S = "\<lambda>k. k = 0 \<or> \<not> rooted source \<and> last (take k path) = CHR ''/''"
  let ?T = "spans (pattern_tail source g) path O {(length path, length path)}"
  let ?P = "spans (if rooted source then BeginText else any_directory) path"
  have "MatchString (pattern_regex source g) path \<longleftrightarrow>
      (\<exists>k j. (\<exists>i \<le> length path. (i, k) \<in> ?P) \<and> k \<le> length path \<and> (k, j) \<in> ?T)"
    unfolding MatchString_spans pattern_regex_spans using spans_forward by (meson relcomp.simps)
  also have "\<dots> \<longleftrightarrow> (\<exists>k j. ?S k \<and> k \<le> length path \<and> (k, j) \<in> ?T)"
    using opening_spans [of _ path source] by blast
  also have "\<dots> \<longleftrightarrow> (\<exists>u t. path = u @ t \<and> ?S (length u) \<and> t \<in> lang (pattern_tail source g))"
    by (rule match_to_end [OF tail_anchor_free])
  also have "\<dots> \<longleftrightarrow> (\<exists>u t. path = u @ t \<and> (u = [] \<or> \<not> rooted source \<and> last u = CHR ''/'') \<and>
      t \<in> lang (pattern_tail source g))"
    by (intro arg_cong [where f = Ex] ext) auto
  also have "\<dots> \<longleftrightarrow> pattern_matches source path"
    unfolding pattern_matches_def tail_lang g option.inject by blast
  finally show ?thesis .
qed

text \<open>C22: A CODEOWNERS pattern compiles exactly when it is supported: not a negation, no character range,
  not empty between its slashes, and no dangling escape. The regular expression that the code
  writes as text is then valid, whatever characters the pattern has, and the compiled matcher
  accepts exactly the paths the pattern stands for: the named part starts at the root, or after
  any slash when the pattern has no slash of its own; a star or a question mark never crosses a
  slash, a double star that is a whole component spans directories, an escaped character stands
  for itself; and what follows the named part is nothing, or a path below it when the pattern
  ends in a slash or in a component without wildcards.\<close>

theorem compiled_pattern_means_pattern:
  "case compilePattern source of
     Inl e \<Rightarrow> \<not> supported_pattern source \<and> e \<noteq> CompileFailed
   | Inr matcher \<Rightarrow> supported_pattern source \<and> (\<forall>path. MatchString matcher path = pattern_matches source path)"
  unfolding compilePattern_result supported_pattern_def
  by (cases "glob_tokens None (pattern_core source)") (simp_all add: pattern_regex_matches)

end
