(* ===== verification/Owner_Properties.thy ===== *)
theory Owner_Properties
  imports Owner_Patterns
begin

text \<open>The resolver as a whole: which line of a CODEOWNERS file names the owners of a path, and what the
  kind of an owner says about its token.\<close>

section \<open>The line that decides\<close>

text \<open>A line covers a path when it is a rule with a supported pattern that stands for the path.\<close>

definition line_covers :: "string \<Rightarrow> string \<Rightarrow> bool" where
  "line_covers path line \<longleftrightarrow>
     (case splitRule line of
        None \<Rightarrow> False
      | Some (pattern, tokens) \<Rightarrow> supported_pattern pattern \<and> pattern_matches pattern (trim_slash path))"

definition line_match :: "nat \<Rightarrow> string \<Rightarrow> Match \<Rightarrow> bool" where
  "line_match index line m \<longleftrightarrow>
     (\<exists>tokens. splitRule line = Some (ma_pattern m, tokens) \<and> ma_line m = index + 1 \<and>
        ma_owners m = map classifyOwner tokens)"

lemma parse_line_cases:
  "case parse_line index line of
     None \<Rightarrow> \<not> line_covers path line
   | Some rule \<Rightarrow>
       MatchString (ru_matcher rule) (trim_slash path) = line_covers path line \<and>
       line_match index line \<lparr>ma_pattern = ru_pattern rule, ma_line = ru_line rule, ma_owners = ru_owners rule\<rparr>"
proof (cases "splitRule line")
  case None
  then show ?thesis by (simp add: parse_line_def line_covers_def)
next
  case (Some pt)
  obtain pattern tokens where pt: "pt = (pattern, tokens)" by fastforce
  show ?thesis
  proof (cases "glob_tokens None (pattern_core pattern)")
    case None
    then show ?thesis using Some pt
      by (simp add: parse_line_def line_covers_def supported_pattern_def compilePattern_result)
  next
    case (Some g)
    then show ?thesis using \<open>splitRule line = Some pt\<close> pt pattern_regex_matches [OF Some]
      by (simp add: parse_line_def line_covers_def supported_pattern_def compilePattern_result line_match_def)
  qed
qed

definition resolve_step :: "string \<Rightarrow> Match option \<Rightarrow> Rule \<Rightarrow> Match option" where
  "resolve_step path result rule =
     (if MatchString (ru_matcher rule) (trim_slash path)
      then Some \<lparr>ma_pattern = ru_pattern rule, ma_line = ru_line rule, ma_owners = ru_owners rule\<rparr>
      else result)"

lemma Resolve_foldl: "Resolve rules path = foldl (resolve_step path) None rules"
  by (simp add: Resolve_def resolve_step_def [abs_def])

text \<open>The outcome of resolving the lines from one index on: the last covering line decides, and with
  none the earlier result stays.\<close>

definition decided :: "string \<Rightarrow> nat \<Rightarrow> string list \<Rightarrow> Match option \<Rightarrow> Match option \<Rightarrow> bool" where
  "decided path index lines earlier result \<longleftrightarrow>
     \<not> list_ex (line_covers path) lines \<and> result = earlier \<or>
     (\<exists>before line after m. lines = before @ line # after \<and> line_covers path line \<and>
        \<not> list_ex (line_covers path) after \<and> result = Some m \<and> line_match (index + length before) line m)"

lemma decided_Cons:
  assumes "decided path (index + 1) lines mid result"
    and "mid = earlier \<and> \<not> line_covers path line \<or>
      line_covers path line \<and> (\<exists>m. mid = Some m \<and> line_match index line m)"
  shows "decided path index (line # lines) earlier result"
  using assms(1) unfolding decided_def
proof (elim disjE exE conjE)
  assume "\<not> list_ex (line_covers path) lines" "result = mid"
  note unchanged = this
  from assms(2) show "\<not> list_ex (line_covers path) (line # lines) \<and> result = earlier \<or>
      (\<exists>before line' after m. line # lines = before @ line' # after \<and> line_covers path line' \<and>
        \<not> list_ex (line_covers path) after \<and> result = Some m \<and> line_match (index + length before) line' m)"
  proof (elim disjE exE conjE)
    assume "mid = earlier" "\<not> line_covers path line"
    with unchanged show ?thesis by simp
  next
    fix m
    assume "line_covers path line" "mid = Some m" "line_match index line m"
    with unchanged show ?thesis
      by (intro disjI2 exI [of _ "[]"] exI [of _ line] exI [of _ lines] exI [of _ m]) simp
  qed
next
  fix before line' after m
  assume "lines = before @ line' # after" "line_covers path line'" "\<not> list_ex (line_covers path) after"
    "result = Some m" "line_match (index + 1 + length before) line' m"
  then show "\<not> list_ex (line_covers path) (line # lines) \<and> result = earlier \<or>
      (\<exists>before line' after m. line # lines = before @ line' # after \<and> line_covers path line' \<and>
        \<not> list_ex (line_covers path) after \<and> result = Some m \<and> line_match (index + length before) line' m)"
    by (intro disjI2 exI [of _ "line # before"] exI [of _ line'] exI [of _ after] exI [of _ m]) simp
qed

lemma parse_lines_decided: "decided path index lines earlier (foldl (resolve_step path) earlier (parse_lines index lines))"
proof (induction lines arbitrary: index earlier)
  case Nil
  show ?case by (simp add: decided_def)
next
  case (Cons line lines)
  show ?case
  proof (cases "parse_line index line")
    case None
    then have "\<not> line_covers path line" using parse_line_cases [where index = index and line = line and path = path] by simp
    with Cons.IH [of "index + 1" earlier] None show ?thesis by (auto intro: decided_Cons)
  next
    case (Some rule)
    note rule = parse_line_cases [where index = index and line = line and path = path, unfolded Some option.case]
    show ?thesis
      using decided_Cons [OF Cons.IH [of "index + 1" "resolve_step path earlier rule"]] rule
      by (simp add: Some resolve_step_def)
  qed
qed

lemma resolve_decides:
  "case Resolve (Parse source) path of
     None \<Rightarrow> \<not> list_ex (line_covers path) (source_lines source)
   | Some m \<Rightarrow>
       (\<exists>before line after tokens. source_lines source = before @ line # after \<and> line_covers path line \<and>
          \<not> list_ex (line_covers path) after \<and> ma_line m = length before + 1 \<and>
          splitRule line = Some (ma_pattern m, tokens) \<and> ma_owners m = map classifyOwner tokens)"
  using parse_lines_decided [of path 0 "source_lines source" None]
  unfolding Resolve_foldl Parse_def decided_def line_match_def
  by (fastforce split: option.split)

text \<open>C23: The owners of a path come from the last line of the CODEOWNERS file that covers it: the match
  carries that line's one-based number, its pattern as written and its owner tokens in order, and
  no later line covers the path, whatever its number of owners. There is no match exactly when no
  line covers the path. Comments, blank lines and lines with an unsupported pattern cover
  nothing, and still count for the numbers.\<close>

theorem last_covering_line_owns:
  "case Resolve (Parse source) path of
     None \<Rightarrow> \<not> list_ex (line_covers path) (source_lines source)
   | Some m \<Rightarrow>
       (\<exists>before line after tokens. source_lines source = before @ line # after \<and> line_covers path line \<and>
          \<not> list_ex (line_covers path) after \<and> ma_line m = length before + 1 \<and>
          splitRule line = Some (ma_pattern m, tokens) \<and> ma_owners m = map classifyOwner tokens)"
  by (rule resolve_decides)

section \<open>Owner tokens\<close>

lemma split_char_nonempty: "split_char c s \<noteq> []"
  by (induction s) (auto split: list.split)

lemma split_char_one: "split_char c s = [w] \<Longrightarrow> s = w \<and> c \<notin> set w"
  by (induction s arbitrary: w) (auto simp: split_char_nonempty split: if_splits list.splits)

lemma split_char_two: "split_char c s = [v, w] \<Longrightarrow> s = v @ c # w \<and> c \<notin> set v \<and> c \<notin> set w"
  by (induction s arbitrary: v) (auto split: if_splits list.splits dest: split_char_one)

lemma single_separator:
  "count_list s c = 1 \<Longrightarrow>
     s = takeWhile (\<lambda>d. d \<noteq> c) s @ c # tl (dropWhile (\<lambda>d. d \<noteq> c) s) \<and>
     c \<notin> set (takeWhile (\<lambda>d. d \<noteq> c) s) \<and> c \<notin> set (tl (dropWhile (\<lambda>d. d \<noteq> c) s))"
  by (induction s) (auto simp: count_list_0_iff split: if_splits dest: set_takeWhileD)

text \<open>An owner keeps its token as written and its kind says what the token is: a user is an at sign
  and a name, a team an at sign and an organization and a team name with one slash between, an
  email address has one at sign with text on both sides and no space, tab or slash, and the name
  of a malformed owner is empty. Names have letters, digits, hyphens and underscores only.\<close>

theorem owner_kind_describes_token:
  "ow_token (classifyOwner token) = token \<and>
   (case ow_type (classifyOwner token) of
      OwnerUser \<Rightarrow> token = ''@'' @ ow_name (classifyOwner token) \<and> validOwnerPart (ow_name (classifyOwner token))
    | OwnerTeam \<Rightarrow> token = ''@'' @ ow_name (classifyOwner token) \<and>
        (\<exists>org team. ow_name (classifyOwner token) = org @ ''/'' @ team \<and> validOwnerPart org \<and> validOwnerPart team)
    | OwnerEmail \<Rightarrow> ow_name (classifyOwner token) = token \<and> CHR ''/'' \<notin> set token \<and> CHR '' '' \<notin> set token \<and>
        (\<exists>user domain. token = user @ ''@'' @ domain \<and> user \<noteq> [] \<and> domain \<noteq> [] \<and>
           CHR ''@'' \<notin> set user \<and> CHR ''@'' \<notin> set domain)
    | OwnerMalformed \<Rightarrow> ow_name (classifyOwner token) = [])"
proof (cases "strip_prefix ''@'' token")
  case (Some name)
  then have token: "token = ''@'' @ name" by (simp add: strip_prefix_Some)
  consider part where "split_char CHR ''/'' name = [part]" | org team where "split_char CHR ''/'' name = [org, team]"
    | "\<forall>a. split_char CHR ''/'' name \<noteq> [a]" "\<forall>a b. split_char CHR ''/'' name \<noteq> [a, b]" by blast
  then show ?thesis
  proof cases
    case 1
    then show ?thesis using split_char_one [OF 1] Some token by (simp add: classifyOwner_def Let_def)
  next
    case 2
    then show ?thesis using split_char_two [OF 2] Some token by (auto simp: classifyOwner_def Let_def)
  next
    case 3
    then show ?thesis using Some by (simp add: classifyOwner_def Let_def split: list.split)
  qed
next
  case None
  show ?thesis
  proof (cases "count_list token CHR ''@'' = 1")
    case True
    then show ?thesis using single_separator [OF True] None by (auto simp: classifyOwner_def Let_def list_ex_iff)
  next
    case False
    then show ?thesis using None by (simp add: classifyOwner_def Let_def)
  qed
qed

end
