(* ===== verification/Gap_Healing.thy ===== *)
theory Gap_Healing
  imports Prelude
begin

text \<open>Delivery-gap healing (\<open>internal/sweep/gap.go\<close>, the gap queries of \<open>db/queries/sweep.sql\<close>): a pass
  walks GitHub's list of webhook deliveries page by page, newest first, asks for a redelivery of
  every delivery that was never received, and keeps its cursor, its lease and its boundaries in
  one row per installation. A run of the job is a state machine whose phases are the calls it
  waits for: listing a page, requesting redeliveries, committing the page. Between two phases
  other runs may change the row.\<close>

section \<open>Data\<close>

record AppHookDelivery =
  de_id :: int
  de_guid :: string
  de_at :: gotime

record GapHealCursor =
  gh_cursor :: string
  gh_cutoff :: "gotime option"
  gh_startedAt :: "gotime option"
  gh_updatedAt :: gotime
  gh_completedAt :: "gotime option"
  gh_leaseToken :: "string option"
  gh_leaseUntil :: "gotime option"
  gh_highWatermarkAt :: "gotime option"
  gh_passHighWatermarkAt :: "gotime option"
  gh_boundaryDeliveryID :: int
  gh_passBoundaryDeliveryID :: int
  gh_lastDeepStartedAt :: "gotime option"
  gh_lastDeepCompletedAt :: "gotime option"
  gh_scanMode :: string
  gh_cursorVersion :: int
  gh_lookbackDurationNs :: int
  gh_pageSize :: int

record GapHealArgs =
  ga_installation :: int
  ga_cursor :: string
  ga_leaseToken :: string

record gap_config =
  gf_installationID :: int
  gf_window :: duration
  gf_pageSize :: int
  gf_maxPages :: int
  gf_leaseTTL :: duration
  gf_continuationDelay :: duration
  gf_deepScanPeriod :: duration

definition gapCursorVersion :: int where "gapCursorVersion = 1"
definition gapScanDeep :: string where "gapScanDeep = ''deep''"
definition gapScanIncrement :: string where "gapScanIncrement = ''incremental''"
definition githubDeliveryRetention :: duration where "githubDeliveryRetention = 72 * 3600 * second"
definition defaultGapLeaseTTL :: duration where "defaultGapLeaseTTL = 5 * 60 * second"
definition defaultGapContinuationDelay :: duration where "defaultGapContinuationDelay = 30 * second"
definition defaultGapDeepScanPeriod :: duration where "defaultGapDeepScanPeriod = 24 * 3600 * second"

text \<open>The gap settings as \<open>New\<close> completes and checks them.\<close>

definition gap_defaults :: "gap_config \<Rightarrow> gap_config" where
  "gap_defaults c =
     c\<lparr>gf_leaseTTL := (if gf_leaseTTL c \<le> 0 then defaultGapLeaseTTL else gf_leaseTTL c),
       gf_continuationDelay := (if gf_continuationDelay c \<le> 0 then defaultGapContinuationDelay else gf_continuationDelay c),
       gf_deepScanPeriod := (if gf_deepScanPeriod c \<le> 0 then defaultGapDeepScanPeriod else gf_deepScanPeriod c)\<rparr>"

definition gap_config_valid :: "gap_config \<Rightarrow> bool" where
  "gap_config_valid c \<longleftrightarrow>
     0 < gf_leaseTTL c \<and> 0 < gf_continuationDelay c \<and> 0 < gf_deepScanPeriod c \<and> 0 < gf_window c \<and>
     0 < gf_pageSize c \<and> gf_pageSize c \<le> 100 \<and> 0 < gf_maxPages c \<and>
     gf_window c \<le> githubDeliveryRetention \<and> gf_deepScanPeriod c \<le> githubDeliveryRetention - gf_window c"

text \<open>What a run works on: the row of its installation, the received deliveries, the redeliveries that
  were requested, and the jobs that wait in the queue.\<close>

record gap_world =
  gw_row :: "GapHealCursor option"
  gw_received :: "string list"
  gw_requested :: "(int \<times> string) list"
  gw_jobs :: "(GapHealArgs \<times> gotime) list"

section \<open>Queries\<close>

definition new_gap_row :: "gotime \<Rightarrow> GapHealCursor" where
  "new_gap_row now =
     \<lparr>gh_cursor = [], gh_cutoff = None, gh_startedAt = None, gh_updatedAt = pg_timestamp now, gh_completedAt = None,
      gh_leaseToken = None, gh_leaseUntil = None, gh_highWatermarkAt = None, gh_passHighWatermarkAt = None,
      gh_boundaryDeliveryID = 0, gh_passBoundaryDeliveryID = 0, gh_lastDeepStartedAt = None,
      gh_lastDeepCompletedAt = None, gh_scanMode = gapScanDeep, gh_cursorVersion = 0, gh_lookbackDurationNs = 0,
      gh_pageSize = 0\<rparr>"

definition EnsureGapHealCursor :: "gotime \<Rightarrow> GapHealCursor option \<Rightarrow> GapHealCursor" where
  "EnsureGapHealCursor now r = (case r of None \<Rightarrow> new_gap_row now | Some row \<Rightarrow> row)"

definition StartGapHealCursor ::
  "gap_config \<Rightarrow> gotime \<Rightarrow> gotime \<Rightarrow> gotime option \<Rightarrow> int \<Rightarrow> string \<Rightarrow> string \<Rightarrow> GapHealCursor \<Rightarrow> GapHealCursor" where
  "StartGapHealCursor c now cutoff high boundary mode token r =
     r\<lparr>gh_cursor := [],
       gh_cutoff := Some (pg_timestamp cutoff),
       gh_startedAt := Some (pg_timestamp now),
       gh_updatedAt := pg_timestamp now,
       gh_completedAt := None,
       gh_highWatermarkAt := high,
       gh_passHighWatermarkAt := None,
       gh_boundaryDeliveryID := boundary,
       gh_passBoundaryDeliveryID := 0,
       gh_scanMode := mode,
       gh_lastDeepStartedAt := (if mode = gapScanDeep then Some (pg_timestamp now) else gh_lastDeepStartedAt r),
       gh_cursorVersion := gapCursorVersion,
       gh_lookbackDurationNs := gf_window c + gf_deepScanPeriod c,
       gh_pageSize := wrap32 (gf_pageSize c),
       gh_leaseToken := Some token,
       gh_leaseUntil := Some (pg_timestamp (now + gf_leaseTTL c))\<rparr>"

definition ClaimGapHealCursor :: "gap_config \<Rightarrow> gotime \<Rightarrow> string \<Rightarrow> GapHealCursor \<Rightarrow> GapHealCursor" where
  "ClaimGapHealCursor c now token r =
     r\<lparr>gh_leaseToken := Some token, gh_leaseUntil := Some (pg_timestamp (now + gf_leaseTTL c)),
       gh_updatedAt := pg_timestamp now\<rparr>"

text \<open>The condition of the fenced statements, and \<open>GREATEST\<close>, which skips nulls.\<close>

definition holds_pass :: "string \<Rightarrow> GapHealCursor \<Rightarrow> bool" where
  "holds_pass token r = (gh_leaseToken r = Some token \<and> gh_completedAt r = None)"

fun greatest :: "gotime option \<Rightarrow> gotime option \<Rightarrow> gotime option" where
  "greatest None b = b"
| "greatest a None = a"
| "greatest (Some a) (Some b) = Some (max a b)"

definition RenewGapHealLease :: "gap_config \<Rightarrow> gotime \<Rightarrow> string \<Rightarrow> GapHealCursor \<Rightarrow> GapHealCursor option" where
  "RenewGapHealLease c now token r =
     (if holds_pass token r then Some (r\<lparr>gh_leaseUntil := Some (pg_timestamp (now + gf_leaseTTL c))\<rparr>) else None)"

definition AdvanceGapHealCursor ::
  "gap_config \<Rightarrow> gotime \<Rightarrow> string \<Rightarrow> string \<Rightarrow> string \<Rightarrow> gotime option \<Rightarrow> int \<Rightarrow> GapHealCursor \<Rightarrow> GapHealCursor option" where
  "AdvanceGapHealCursor c now token expected next_cursor high boundary r =
     (if holds_pass token r \<and> gh_cursor r = expected
      then Some (r\<lparr>gh_cursor := next_cursor,
                   gh_passHighWatermarkAt := greatest (gh_passHighWatermarkAt r) (map_option pg_timestamp high),
                   gh_passBoundaryDeliveryID := (if gh_passBoundaryDeliveryID r = 0 then boundary else gh_passBoundaryDeliveryID r),
                   gh_updatedAt := pg_timestamp now,
                   gh_leaseUntil := Some (pg_timestamp (now + gf_leaseTTL c))\<rparr>)
      else None)"

definition RestartGapHealCursor :: "gap_config \<Rightarrow> gotime \<Rightarrow> string \<Rightarrow> string \<Rightarrow> GapHealCursor \<Rightarrow> GapHealCursor option" where
  "RestartGapHealCursor c now token expected r =
     (if holds_pass token r \<and> gh_cursor r = expected
      then Some (r\<lparr>gh_cursor := [], gh_passHighWatermarkAt := None, gh_passBoundaryDeliveryID := 0,
                   gh_updatedAt := pg_timestamp now,
                   gh_leaseUntil := Some (pg_timestamp (now + gf_leaseTTL c))\<rparr>)
      else None)"

definition CompleteGapHealCursor ::
  "gotime \<Rightarrow> string \<Rightarrow> string \<Rightarrow> gotime option \<Rightarrow> int \<Rightarrow> GapHealCursor \<Rightarrow> GapHealCursor option" where
  "CompleteGapHealCursor now token expected high boundary r =
     (if holds_pass token r \<and> gh_cursor r = expected
      then Some (r\<lparr>gh_cursor := [],
                   gh_highWatermarkAt := greatest (gh_highWatermarkAt r)
                     (greatest (gh_passHighWatermarkAt r) (map_option pg_timestamp high)),
                   gh_passHighWatermarkAt := None,
                   gh_boundaryDeliveryID :=
                     (if gh_passBoundaryDeliveryID r \<noteq> 0 then gh_passBoundaryDeliveryID r
                      else if boundary \<noteq> 0 then boundary else gh_boundaryDeliveryID r),
                   gh_passBoundaryDeliveryID := 0,
                   gh_lastDeepCompletedAt :=
                     (if gh_scanMode r = gapScanDeep then Some (pg_timestamp now) else gh_lastDeepCompletedAt r),
                   gh_updatedAt := pg_timestamp now,
                   gh_completedAt := Some (pg_timestamp now),
                   gh_leaseToken := None,
                   gh_leaseUntil := None\<rparr>)
      else None)"

section \<open>Opening a window\<close>

definition gapLookback :: "gap_config \<Rightarrow> duration" where
  "gapLookback c = gf_window c + gf_deepScanPeriod c"

definition gapDeepCutoff :: "gap_config \<Rightarrow> gotime \<Rightarrow> GapHealCursor \<Rightarrow> gotime" where
  "gapDeepCutoff c now state =
     (let cutoff0 = now - gapLookback c;
          cutoff = (case gh_lastDeepStartedAt state of
                      None \<Rightarrow> cutoff0
                    | Some t \<Rightarrow> if t - gf_window c < cutoff0 then t - gf_window c else cutoff0);
          oldestRetained = now - githubDeliveryRetention in
      if cutoff < oldestRetained then oldestRetained else cutoff)"

definition gapCursorShapeCompatible :: "gap_config \<Rightarrow> GapHealCursor \<Rightarrow> bool" where
  "gapCursorShapeCompatible c state =
     (gh_cursorVersion state = gapCursorVersion \<and> gh_lookbackDurationNs state = gapLookback c \<and>
      gh_pageSize state = wrap32 (gf_pageSize c))"

text \<open>The two ways to open a new window: at a fresh kickoff, and over a stale one.\<close>

definition start_fresh :: "gap_config \<Rightarrow> gotime \<Rightarrow> string \<Rightarrow> GapHealCursor \<Rightarrow> GapHealCursor" where
  "start_fresh c now token state =
     (let compatible = gapCursorShapeCompatible c state;
          deepDue = (\<not> compatible \<or> (case gh_lastDeepStartedAt state of
                        None \<Rightarrow> True | Some t \<Rightarrow> \<not> now - gf_deepScanPeriod c < t));
          scanMode = (if deepDue \<or> gh_highWatermarkAt state = None \<or> gh_boundaryDeliveryID state = 0
                      then gapScanDeep else gapScanIncrement);
          cutoff = (if scanMode = gapScanDeep then gapDeepCutoff c now state else now - gapLookback c) in
      StartGapHealCursor c now cutoff (if compatible then gh_highWatermarkAt state else None)
        (if compatible then gh_boundaryDeliveryID state else 0) scanMode token state)"

definition start_over :: "gap_config \<Rightarrow> gotime \<Rightarrow> string \<Rightarrow> GapHealCursor \<Rightarrow> GapHealCursor" where
  "start_over c now token state =
     (let compatible = gapCursorShapeCompatible c state in
      StartGapHealCursor c now (gapDeepCutoff c now state)
        (if compatible then gh_highWatermarkAt state else None)
        (if compatible then gh_boundaryDeliveryID state else 0) gapScanDeep token state)"

text \<open>The transaction at the start of a run: the new row, or \<open>None\<close> when the run has nothing to do and
  the transaction is rolled back.\<close>

definition open_window :: "gap_config \<Rightarrow> gotime \<Rightarrow> string \<Rightarrow> string \<Rightarrow> GapHealCursor \<Rightarrow> GapHealCursor option" where
  "open_window c now cursor token state =
     (if gh_startedAt state = None \<or> gh_completedAt state \<noteq> None then
        (if cursor \<noteq> [] then None else Some (start_fresh c now token state))
      else if cursor \<noteq> [] \<and> cursor \<noteq> gh_cursor state then None
      else if (case (gh_leaseToken state, gh_leaseUntil state) of
                 (Some t, Some until) \<Rightarrow> t \<noteq> token \<and> now < until | _ \<Rightarrow> False) then None
      else if \<not> gapCursorShapeCompatible c state \<or>
              (case gh_startedAt state of None \<Rightarrow> False | Some t \<Rightarrow> t < now - gapLookback c)
      then Some (start_over c now token state)
      else Some (ClaimGapHealCursor c now token state))"

definition loadOrStartGapWindow ::
  "gap_config \<Rightarrow> gotime \<Rightarrow> string \<Rightarrow> string \<Rightarrow> gap_world \<Rightarrow> GapHealCursor option \<times> gap_world" where
  "loadOrStartGapWindow c now cursor token w =
     (case open_window c now cursor token (EnsureGapHealCursor now (gw_row w)) of
        None \<Rightarrow> (None, w)
      | Some row \<Rightarrow> (Some row, w\<lparr>gw_row := Some row\<rparr>))"

section \<open>One page\<close>

text \<open>The local variables of the loop over the deliveries of a page.\<close>

record page_scan =
  sc_boundary :: int
  sc_high :: "gotime option"
  sc_reached :: bool
  sc_within :: bool
  sc_seen :: "string list"
  sc_candidates :: "AppHookDelivery list"

definition scan_delivery ::
  "GapHealCursor \<Rightarrow> string \<Rightarrow> gotime option \<Rightarrow> int \<Rightarrow> page_scan \<Rightarrow> AppHookDelivery \<Rightarrow> page_scan" where
  "scan_delivery state cursor highWatermark boundary sc d =
     (let sc1 = (if cursor = [] \<and> sc_boundary sc = 0 \<and> 0 < de_id d then sc\<lparr>sc_boundary := de_id d\<rparr> else sc);
          sc2 = (case sc_high sc1 of
                   None \<Rightarrow> sc1\<lparr>sc_high := Some (de_at d)\<rparr>
                 | Some t \<Rightarrow> if t < de_at d then sc1\<lparr>sc_high := Some (de_at d)\<rparr> else sc1);
          sc3 = (if gh_scanMode state = gapScanIncrement \<and> highWatermark \<noteq> None \<and> 0 < boundary \<and> de_id d = boundary
                 then sc2\<lparr>sc_reached := True\<rparr> else sc2) in
      if (case gh_cutoff state of None \<Rightarrow> False | Some cutoff \<Rightarrow> de_at d < cutoff) then sc3
      else
        let sc4 = sc3\<lparr>sc_within := True\<rparr> in
        if de_guid d = [] \<or> de_id d \<le> 0 then sc4
        else if de_guid d \<in> set (sc_seen sc4) then sc4
        else sc4\<lparr>sc_seen := de_guid d # sc_seen sc4, sc_candidates := sc_candidates sc4 @ [d]\<rparr>)"

definition ListExistingWebhookDeliveryGUIDs :: "string list \<Rightarrow> gap_world \<Rightarrow> string list" where
  "ListExistingWebhookDeliveryGUIDs guids w = filter (\<lambda>g. g \<in> set guids) (gw_received w)"

text \<open>The requests of \<open>redeliverMissing\<close>; \<open>reply\<close> is what GitHub answers for a delivery. An error ends
  the loop after the requests made so far.\<close>

fun request_missing ::
  "(int \<Rightarrow> gerror option) \<Rightarrow> string list \<Rightarrow> AppHookDelivery list \<Rightarrow> gap_world \<Rightarrow> gerror option \<times> gap_world" where
  "request_missing reply present [] w = (None, w)"
| "request_missing reply present (d # ds) w =
     (if de_guid d \<in> set present then request_missing reply present ds w
      else case reply (de_id d) of
             Some e \<Rightarrow> (Some (ErrWrap ''redeliver webhook delivery'' [e]), w)
           | None \<Rightarrow> request_missing reply present ds (w\<lparr>gw_requested := gw_requested w @ [(de_id d, de_guid d)]\<rparr>))"

definition redeliverMissing :: "(int \<Rightarrow> gerror option) \<Rightarrow> AppHookDelivery list \<Rightarrow> gap_world \<Rightarrow> gerror option \<times> gap_world" where
  "redeliverMissing reply ds w =
     (if ds = [] then (None, w)
      else request_missing reply (ListExistingWebhookDeliveryGUIDs (map de_guid ds) w) ds w)"

section \<open>A run\<close>

record page_result =
  pr_deliveries :: "AppHookDelivery list"
  pr_next :: string
  pr_candidates :: "AppHookDelivery list"
  pr_reached :: bool
  pr_within :: bool

datatype gap_phase =
    Listing
  | Redelivering page_result
  | Finishing page_result
  | Returned "gerror option"

text \<open>The variables of \<open>HealDeliveryGaps\<close>; \<open>hr_cause\<close> is the cause of the work context.\<close>

record heal_run =
  hr_token :: string
  hr_state :: GapHealCursor
  hr_cursor :: string
  hr_high :: "gotime option"
  hr_observedHigh :: "gotime option"
  hr_boundary :: int
  hr_observedBoundary :: int
  hr_seen :: "string list"
  hr_pageNumber :: int
  hr_restarted :: bool
  hr_cause :: "gerror option"
  hr_phase :: gap_phase

definition adopt_state :: "GapHealCursor \<Rightarrow> heal_run \<Rightarrow> heal_run" where
  "adopt_state state r =
     r\<lparr>hr_state := state, hr_cursor := gh_cursor state, hr_high := gh_highWatermarkAt state,
       hr_observedHigh := gh_passHighWatermarkAt state, hr_boundary := gh_boundaryDeliveryID state,
       hr_observedBoundary := gh_passBoundaryDeliveryID state\<rparr>"

definition new_run :: "string \<Rightarrow> GapHealCursor \<Rightarrow> heal_run" where
  "new_run token state = adopt_state state
     \<lparr>hr_token = token, hr_state = state, hr_cursor = [], hr_high = None, hr_observedHigh = None, hr_boundary = 0,
      hr_observedBoundary = 0, hr_seen = [], hr_pageNumber = 0, hr_restarted = False, hr_cause = None,
      hr_phase = Listing\<rparr>"

text \<open>The calls a run waits for, with their outcome: the listing, the redelivery requests and the
  statement that commits the page, executed at a time of the run's clock.\<close>

datatype gap_io =
    Listed "AppHookDelivery list" string
  | ListFailed gerror
  | Requested "int \<Rightarrow> gerror option"
  | Commit

definition is_http_error :: "gerror \<Rightarrow> bool" where
  "is_http_error e = (case e of HTTPError n \<Rightarrow> True | _ \<Rightarrow> False)"

definition isInvalidDeliveryCursor :: "gerror \<Rightarrow> bool" where
  "isInvalidDeliveryCursor e = (case errors_as is_http_error e of Some (HTTPError n) \<Rightarrow> n = 422 | _ \<Rightarrow> False)"

definition canceled :: gerror where "canceled = ErrContext ''context canceled''"

text \<open>The error of a call under the work context: the cause of the context, unless that is a plain
  cancellation.\<close>

definition under_cause :: "gerror option \<Rightarrow> gerror \<Rightarrow> gerror" where
  "under_cause cause e = (case cause of None \<Rightarrow> e | Some x \<Rightarrow> if errors_is x canceled then e else x)"

definition restartGapWindow ::
  "gap_config \<Rightarrow> gotime \<Rightarrow> string \<Rightarrow> string \<Rightarrow> gap_world \<Rightarrow> (gerror + GapHealCursor) \<times> gap_world" where
  "restartGapWindow c now token expected w =
     (case Option.bind (gw_row w) (RestartGapHealCursor c now token expected) of
        None \<Rightarrow> (Inl (ErrWrap ''restart invalid delivery-gap cursor'' [ErrGapHealLeaseLost]), w)
      | Some row \<Rightarrow> (Inr row, w\<lparr>gw_row := Some row\<rparr>))"

text \<open>A job is unique by its arguments among the jobs that are not finished.\<close>

definition insert_continuation :: "GapHealArgs \<Rightarrow> gotime \<Rightarrow> gap_world \<Rightarrow> gap_world" where
  "insert_continuation args at w =
     (if list_ex (\<lambda>(a, t). a = args) (gw_jobs w) then w else w\<lparr>gw_jobs := gw_jobs w @ [(args, at)]\<rparr>)"

definition advanceGapWindow ::
  "gap_config \<Rightarrow> bool \<Rightarrow> gotime \<Rightarrow> string \<Rightarrow> string \<Rightarrow> string \<Rightarrow> gotime option \<Rightarrow> int \<Rightarrow> bool \<Rightarrow> gap_world \<Rightarrow> gerror option \<times> gap_world" where
  "advanceGapWindow c hasClient now token expected next_cursor high boundary schedule w =
     (case Option.bind (gw_row w) (AdvanceGapHealCursor c now token expected next_cursor high boundary) of
        None \<Rightarrow> (Some (ErrWrap ''advance delivery-gap cursor'' [ErrGapHealLeaseLost]), w)
      | Some row \<Rightarrow>
          if schedule then
            (if \<not> hasClient then (Some (ErrText ''sweep River client is not configured''), w)
             else (None, insert_continuation
                     \<lparr>ga_installation = gf_installationID c, ga_cursor = next_cursor, ga_leaseToken = token\<rparr>
                     (now + gf_continuationDelay c) (w\<lparr>gw_row := Some row\<rparr>)))
          else (None, w\<lparr>gw_row := Some row\<rparr>))"

definition completeGapWindow ::
  "gotime \<Rightarrow> string \<Rightarrow> string \<Rightarrow> gotime option \<Rightarrow> int \<Rightarrow> gap_world \<Rightarrow> gerror option \<times> gap_world" where
  "completeGapWindow now token expected high boundary w =
     (case Option.bind (gw_row w) (CompleteGapHealCursor now token expected high boundary) of
        None \<Rightarrow> (Some (ErrWrap ''complete delivery-gap cursor'' [ErrGapHealLeaseLost]), w)
      | Some row \<Rightarrow> (None, w\<lparr>gw_row := Some row\<rparr>))"

definition scan_page :: "heal_run \<Rightarrow> AppHookDelivery list \<Rightarrow> page_scan" where
  "scan_page r ds =
     foldl (scan_delivery (hr_state r) (hr_cursor r) (hr_high r) (hr_boundary r))
       \<lparr>sc_boundary = hr_observedBoundary r, sc_high = hr_observedHigh r, sc_reached = False, sc_within = False,
        sc_seen = hr_seen r, sc_candidates = []\<rparr> ds"

definition on_listed :: "AppHookDelivery list \<Rightarrow> string \<Rightarrow> heal_run \<Rightarrow> heal_run" where
  "on_listed ds next_cursor r =
     (let sc = scan_page r ds in
      r\<lparr>hr_pageNumber := hr_pageNumber r + 1, hr_observedBoundary := sc_boundary sc, hr_observedHigh := sc_high sc,
        hr_seen := sc_seen sc,
        hr_phase := Redelivering \<lparr>pr_deliveries = ds, pr_next = next_cursor, pr_candidates = sc_candidates sc,
                                  pr_reached = sc_reached sc, pr_within = sc_within sc\<rparr>\<rparr>)"

definition on_list_failed :: "gap_config \<Rightarrow> gotime \<Rightarrow> gerror \<Rightarrow> heal_run \<Rightarrow> gap_world \<Rightarrow> heal_run \<times> gap_world" where
  "on_list_failed c now e r w =
     (if hr_cursor r \<noteq> [] \<and> \<not> hr_restarted r \<and> isInvalidDeliveryCursor e then
        (case restartGapWindow c now (hr_token r) (gh_cursor (hr_state r)) w of
           (Inl e', w') \<Rightarrow> (r\<lparr>hr_phase := Returned (Some e')\<rparr>, w')
         | (Inr state, w') \<Rightarrow> ((adopt_state state r)\<lparr>hr_restarted := True\<rparr>, w'))
      else (r\<lparr>hr_phase := Returned (Some (under_cause (hr_cause r) (ErrWrap ''list App webhook deliveries'' [e])))\<rparr>, w))"

definition finishes_pass :: "page_result \<Rightarrow> bool" where
  "finishes_pass p = (pr_next p = [] \<or> pr_reached p \<or> pr_deliveries p \<noteq> [] \<and> \<not> pr_within p)"

text \<open>The end of the loop body; the loop continues while pages are left.\<close>

definition on_commit :: "gap_config \<Rightarrow> bool \<Rightarrow> gotime \<Rightarrow> page_result \<Rightarrow> heal_run \<Rightarrow> gap_world \<Rightarrow> heal_run \<times> gap_world" where
  "on_commit c hasClient now p r w =
     (if finishes_pass p then
        (case completeGapWindow now (hr_token r) (hr_cursor r) (hr_observedHigh r) (hr_observedBoundary r) w of
           (e, w') \<Rightarrow> (r\<lparr>hr_phase := Returned e\<rparr>, w'))
      else
        let capped = (hr_pageNumber r = gf_maxPages c) in
        (case advanceGapWindow c hasClient now (hr_token r) (hr_cursor r) (pr_next p) (hr_observedHigh r)
                (hr_observedBoundary r) capped w of
           (Some e, w') \<Rightarrow> (r\<lparr>hr_phase := Returned (Some e)\<rparr>, w')
         | (None, w') \<Rightarrow>
             if capped then (r\<lparr>hr_cursor := pr_next p, hr_phase := Returned None\<rparr>, w')
             else (r\<lparr>hr_cursor := pr_next p,
                     hr_phase := (if hr_pageNumber r < gf_maxPages c then Listing else Returned None)\<rparr>, w')))"

fun heal_step :: "gap_config \<Rightarrow> bool \<Rightarrow> gotime \<Rightarrow> gap_io \<Rightarrow> heal_run \<Rightarrow> gap_world \<Rightarrow> heal_run \<times> gap_world" where
  "heal_step c hasClient now io r w =
     (case (hr_phase r, io) of
        (Listing, Listed ds next_cursor) \<Rightarrow> (on_listed ds next_cursor r, w)
      | (Listing, ListFailed e) \<Rightarrow> on_list_failed c now e r w
      | (Redelivering p, Requested reply) \<Rightarrow>
          (case redeliverMissing reply (pr_candidates p) w of
             (Some e, w') \<Rightarrow> (r\<lparr>hr_phase := Returned (Some (under_cause (hr_cause r) e))\<rparr>, w')
           | (None, w') \<Rightarrow> (r\<lparr>hr_phase := Finishing p\<rparr>, w'))
      | (Finishing p, Commit) \<Rightarrow> on_commit c hasClient now p r w
      | _ \<Rightarrow> (r, w))"

text \<open>The lease keeper of a run: a tick renews the lease, or ends the work context with the loss of the
  lease or with the failure of the statement.\<close>

definition maintainGapLease :: "gap_config \<Rightarrow> gotime \<Rightarrow> gerror option \<Rightarrow> heal_run \<Rightarrow> gap_world \<Rightarrow> heal_run \<times> gap_world" where
  "maintainGapLease c now failure r w =
     (case failure of
        Some e \<Rightarrow> (r\<lparr>hr_cause := Some (ErrWrap ''renew delivery-gap lease'' [e])\<rparr>, w)
      | None \<Rightarrow>
          (case Option.bind (gw_row w) (RenewGapHealLease c now (hr_token r)) of
             None \<Rightarrow> (r\<lparr>hr_cause := Some ErrGapHealLeaseLost\<rparr>, w)
           | Some row \<Rightarrow> (r, w\<lparr>gw_row := Some row\<rparr>)))"

text \<open>The start of \<open>HealDeliveryGaps\<close>: the run it enters, or the result it returns at once.
  \<open>fresh\<close> is a new lease token for arguments without one.\<close>

definition begin_heal ::
  "gap_config \<Rightarrow> bool \<Rightarrow> gotime \<Rightarrow> string \<Rightarrow> GapHealArgs \<Rightarrow> gap_world \<Rightarrow> (gerror option + heal_run) \<times> gap_world" where
  "begin_heal c hasDeliveries now fresh args w =
     (if ga_installation args \<noteq> gf_installationID c then (Inl None, w)
      else if \<not> hasDeliveries then (Inl (Some (ErrText ''deliveries client is not configured'')), w)
      else
        let token = (if ga_leaseToken args = [] then fresh else ga_leaseToken args) in
        (case loadOrStartGapWindow c now (ga_cursor args) token w of
           (None, w') \<Rightarrow> (Inl None, w')
         | (Some state, w') \<Rightarrow> (Inr (new_run token state), w')))"

text \<open>The whole run over a list of what its calls meet: the action of others before the call, the time,
  the page GitHub lists and its answers to redelivery requests. The result is \<open>None\<close> when the list
  ends before the run returns.\<close>

record call_env =
  ce_others :: "gap_world \<Rightarrow> gap_world"
  ce_now :: gotime
  ce_listing :: "gerror + AppHookDelivery list \<times> string"
  ce_reply :: "int \<Rightarrow> gerror option"

definition next_io :: "gap_phase \<Rightarrow> call_env \<Rightarrow> gap_io" where
  "next_io ph env =
     (case ph of
        Listing \<Rightarrow> (case ce_listing env of Inl e \<Rightarrow> ListFailed e | Inr (ds, nx) \<Rightarrow> Listed ds nx)
      | Redelivering p \<Rightarrow> Requested (ce_reply env)
      | _ \<Rightarrow> Commit)"

primrec heal_loop :: "gap_config \<Rightarrow> bool \<Rightarrow> call_env list \<Rightarrow> heal_run \<Rightarrow> gap_world \<Rightarrow> heal_run \<times> gap_world" where
  "heal_loop c hasClient [] r w = (r, w)"
| "heal_loop c hasClient (env # envs) r w =
     (case heal_step c hasClient (ce_now env) (next_io (hr_phase r) env) r (ce_others env w) of
        (r', w') \<Rightarrow> heal_loop c hasClient envs r' w')"

definition returned :: "heal_run \<Rightarrow> gerror option option" where
  "returned r = (case hr_phase r of Returned e \<Rightarrow> Some e | _ \<Rightarrow> None)"

definition HealDeliveryGaps ::
  "gap_config \<Rightarrow> bool \<Rightarrow> bool \<Rightarrow> gotime \<Rightarrow> string \<Rightarrow> GapHealArgs \<Rightarrow> call_env list \<Rightarrow> gap_world \<Rightarrow> gerror option option \<times> gap_world" where
  "HealDeliveryGaps c hasDeliveries hasClient now fresh args envs w =
     (case begin_heal c hasDeliveries now fresh args w of
        (Inl e, w') \<Rightarrow> (Some e, w')
      | (Inr r, w') \<Rightarrow> (case heal_loop c hasClient envs r w' of (r', w'') \<Rightarrow> (returned r', w'')))"

text \<open>\<open>gapHealWorker.Work\<close>: a lost lease completes the job without a retry.\<close>

definition gapHealWorker_Work :: "gerror option \<Rightarrow> gerror option" where
  "gapHealWorker_Work e = (case e of None \<Rightarrow> None | Some x \<Rightarrow> if errors_is x ErrGapHealLeaseLost then None else Some x)"

end
