(* ===== verification/Gap_Steps.thy ===== *)
theory Gap_Steps
  imports Gap_Healing
begin

text \<open>Runs of the gap healer as steps on one row. Any number of runs start, list, request, commit, lose
  their lease and vanish, in any order and with clocks that may differ; deliveries arrive
  meanwhile. The system also records, for the proofs, which pages were committed since the window
  was opened, its boundary delivery, and in which window a run works.\<close>

section \<open>The system\<close>

record visit =
  vi_cursor :: string
  vi_deliveries :: "AppHookDelivery list"
  vi_next :: string

record gap_sys =
  gs_world :: gap_world
  gs_runs :: "nat \<rightharpoonup> heal_run"
  gs_window :: nat
  gs_runWindow :: "nat \<Rightarrow> nat"
  gs_history :: "visit list"
  gs_boundary :: int

definition active :: "heal_run \<Rightarrow> bool" where
  "active r = (returned r = None)"

definition resumes :: "gap_config \<Rightarrow> gotime \<Rightarrow> GapHealCursor \<Rightarrow> bool" where
  "resumes c now state =
     (gh_startedAt state \<noteq> None \<and> gh_completedAt state = None \<and> gapCursorShapeCompatible c state \<and>
      (case gh_startedAt state of None \<Rightarrow> True | Some t \<Rightarrow> \<not> t < now - gapLookback c))"

text \<open>What a step of a run does to the committed pages.\<close>

definition track :: "heal_run \<Rightarrow> heal_run \<Rightarrow> visit list \<Rightarrow> visit list" where
  "track r r' history =
     (case hr_phase r of
        Listing \<Rightarrow> if hr_restarted r' \<and> \<not> hr_restarted r then [] else history
      | Finishing p \<Rightarrow>
          (case hr_phase r' of
             Returned (Some e) \<Rightarrow> history
           | Finishing q \<Rightarrow> history
           | _ \<Rightarrow> history @ [\<lparr>vi_cursor = hr_cursor r, vi_deliveries = pr_deliveries p, vi_next = pr_next p\<rparr>])
      | _ \<Rightarrow> history)"

text \<open>A lease token belongs to one kickoff and its continuations. A run may start with the token of
  another run only while both work in the same window; the queue does not run a job beside an
  earlier run of itself.\<close>

definition token_free :: "string \<Rightarrow> nat \<Rightarrow> gap_sys \<Rightarrow> bool" where
  "token_free token window s \<longleftrightarrow>
     (\<forall>j r. gs_runs s j = Some r \<longrightarrow> active r \<longrightarrow> hr_token r = token \<longrightarrow> gs_runWindow s j = window)"

inductive gap_step :: "gap_config \<Rightarrow> gap_sys \<Rightarrow> gap_sys \<Rightarrow> bool" for c where
  run_resumes: "gs_runs s i = None \<Longrightarrow>
    begin_heal c True now fresh args (gs_world s) = (Inr r, w') \<Longrightarrow>
    resumes c now (EnsureGapHealCursor now (gw_row (gs_world s))) \<Longrightarrow>
    token_free (hr_token r) (gs_window s) s \<Longrightarrow>
    gap_step c s (s\<lparr>gs_world := w', gs_runs := (gs_runs s)(i \<mapsto> r), gs_runWindow := (gs_runWindow s)(i := gs_window s)\<rparr>)"
| run_opens: "gs_runs s i = None \<Longrightarrow>
    begin_heal c True now fresh args (gs_world s) = (Inr r, w') \<Longrightarrow>
    \<not> resumes c now (EnsureGapHealCursor now (gw_row (gs_world s))) \<Longrightarrow>
    token_free (hr_token r) (Suc (gs_window s)) s \<Longrightarrow>
    gap_step c s (s\<lparr>gs_world := w', gs_runs := (gs_runs s)(i \<mapsto> r), gs_window := Suc (gs_window s),
                    gs_runWindow := (gs_runWindow s)(i := Suc (gs_window s)), gs_history := [],
                    gs_boundary := gh_boundaryDeliveryID (hr_state r)\<rparr>)"
| run_moves: "gs_runs s i = Some r \<Longrightarrow> heal_step c hasClient now io r (gs_world s) = (r', w') \<Longrightarrow>
    gap_step c s (s\<lparr>gs_world := w', gs_runs := (gs_runs s)(i \<mapsto> r'), gs_history := track r r' (gs_history s)\<rparr>)"
| lease_tick: "gs_runs s i = Some r \<Longrightarrow> maintainGapLease c now failure r (gs_world s) = (r', w') \<Longrightarrow>
    gap_step c s (s\<lparr>gs_world := w', gs_runs := (gs_runs s)(i \<mapsto> r')\<rparr>)"
| context_ends: "gs_runs s i = Some r \<Longrightarrow>
    gap_step c s (s\<lparr>gs_runs := (gs_runs s)(i \<mapsto> r\<lparr>hr_cause := Some e\<rparr>)\<rparr>)"
| run_vanishes: "gap_step c s (s\<lparr>gs_runs := (gs_runs s)(i := None)\<rparr>)"
| delivery_arrives: "gap_step c s (s\<lparr>gs_world := (gs_world s)\<lparr>gw_received := guid # gw_received (gs_world s)\<rparr>\<rparr>)"
| job_taken: "gap_step c s (s\<lparr>gs_world := (gs_world s)\<lparr>gw_jobs := jobs\<rparr>\<rparr>)"

definition gap_start :: gap_sys where
  "gap_start = \<lparr>gs_world = \<lparr>gw_row = None, gw_received = [], gw_requested = [], gw_jobs = []\<rparr>,
     gs_runs = Map.empty, gs_window = 0, gs_runWindow = (\<lambda>_. 0), gs_history = [], gs_boundary = 0\<rparr>"

inductive gap_reachable :: "gap_config \<Rightarrow> gap_sys \<Rightarrow> bool" for c where
  gap_initial: "gap_reachable c gap_start"
| gap_next: "gap_reachable c s \<Longrightarrow> gap_step c s s' \<Longrightarrow> gap_reachable c s'"

section \<open>Pages and what they cover\<close>

definition handled :: "gap_world \<Rightarrow> string set" where
  "handled w = set (gw_received w) \<union> snd ` set (gw_requested w)"

definition eligible :: "gotime option \<Rightarrow> AppHookDelivery \<Rightarrow> bool" where
  "eligible cutoff d \<longleftrightarrow>
     (case cutoff of None \<Rightarrow> True | Some t \<Rightarrow> \<not> de_at d < t) \<and> de_guid d \<noteq> [] \<and> 0 < de_id d"

definition covers_page :: "gotime option \<Rightarrow> string set \<Rightarrow> visit \<Rightarrow> bool" where
  "covers_page cutoff H v \<longleftrightarrow> (\<forall>d \<in> set (vi_deliveries v). eligible cutoff d \<longrightarrow> de_guid d \<in> H)"

text \<open>Pages follow each other by their cursors.\<close>

fun chain :: "string \<Rightarrow> visit list \<Rightarrow> string \<Rightarrow> bool" where
  "chain a [] b = (a = b)"
| "chain a (v # vs) b = (vi_cursor v = a \<and> chain (vi_next v) vs b)"

lemma chain_append: "chain a (vs @ ws) b \<longleftrightarrow> (\<exists>m. chain a vs m \<and> chain m ws b)"
  by (induction vs arbitrary: a) auto

text \<open>Why a pass may end with a page: it is the last one, it holds the boundary delivery of an
  incremental pass, or all its deliveries are older than the cutoff.\<close>

definition last_page :: "GapHealCursor \<Rightarrow> int \<Rightarrow> visit \<Rightarrow> bool" where
  "last_page state boundary v \<longleftrightarrow>
     vi_next v = [] \<or>
     gh_scanMode state = gapScanIncrement \<and> 0 < boundary \<and> (\<exists>d \<in> set (vi_deliveries v). de_id d = boundary) \<or>
     vi_deliveries v \<noteq> [] \<and> (\<exists>t. gh_cutoff state = Some t \<and> (\<forall>d \<in> set (vi_deliveries v). de_at d < t))"

section \<open>One page\<close>

lemma scan_delivery_seen:
  "set (sc_seen (scan_delivery st cur h b sc d)) \<union> de_guid ` set (sc_candidates sc) =
     set (sc_seen sc) \<union> de_guid ` set (sc_candidates (scan_delivery st cur h b sc d))"
  "set (sc_seen sc) \<subseteq> set (sc_seen (scan_delivery st cur h b sc d))"
  "de_guid ` set (sc_candidates sc) \<subseteq> de_guid ` set (sc_candidates (scan_delivery st cur h b sc d))"
  "eligible (gh_cutoff st) d \<Longrightarrow> de_guid d \<in> set (sc_seen (scan_delivery st cur h b sc d))"
  by (auto simp: scan_delivery_def Let_def eligible_def split: option.split if_splits)

lemma scan_delivery_flags:
  "sc_reached (scan_delivery st cur h b sc d) \<longleftrightarrow>
     sc_reached sc \<or> gh_scanMode st = gapScanIncrement \<and> h \<noteq> None \<and> 0 < b \<and> de_id d = b"
  "sc_within (scan_delivery st cur h b sc d) \<longleftrightarrow>
     sc_within sc \<or> \<not> (\<exists>t. gh_cutoff st = Some t \<and> de_at d < t)"
  by (auto simp: scan_delivery_def Let_def split: option.split if_splits)

lemma foldl_scan_seen:
  defines "scan st cur h b \<equiv> foldl (scan_delivery st cur h b)"
  shows "de_guid ` set (sc_candidates sc) \<subseteq> set (sc_seen sc) \<Longrightarrow>
     set (sc_seen (scan st cur h b sc ds)) =
       set (sc_seen sc) \<union> de_guid ` set (sc_candidates (scan st cur h b sc ds)) \<and>
     (\<forall>d \<in> set ds. eligible (gh_cutoff st) d \<longrightarrow> de_guid d \<in> set (sc_seen (scan st cur h b sc ds)))"
  unfolding scan_def
proof (induction ds arbitrary: sc)
  case (Cons d ds)
  let ?sc = "scan_delivery st cur h b sc d"
  have one: "set (sc_seen ?sc) = set (sc_seen sc) \<union> de_guid ` set (sc_candidates ?sc)"
    and sub: "de_guid ` set (sc_candidates ?sc) \<subseteq> set (sc_seen ?sc)"
    using scan_delivery_seen(1,2) [where st = st and cur = cur and h = h and b = b and sc = sc and d = d] Cons.prems
    by blast+
  from Cons.IH [OF sub] have IH: "set (sc_seen (foldl (scan_delivery st cur h b) ?sc ds)) =
       set (sc_seen ?sc) \<union> de_guid ` set (sc_candidates (foldl (scan_delivery st cur h b) ?sc ds))"
    "\<forall>d \<in> set ds. eligible (gh_cutoff st) d \<longrightarrow> de_guid d \<in> set (sc_seen (foldl (scan_delivery st cur h b) ?sc ds))"
    by blast+
  have grows: "de_guid ` set (sc_candidates x) \<subseteq> de_guid ` set (sc_candidates (foldl (scan_delivery st cur h b) x es))" for x es
  proof (induction es arbitrary: x)
    case (Cons e es)
    have "de_guid ` set (sc_candidates x) \<subseteq> de_guid ` set (sc_candidates (scan_delivery st cur h b x e))"
      by (rule scan_delivery_seen)
    also have "\<dots> \<subseteq> de_guid ` set (sc_candidates (foldl (scan_delivery st cur h b) (scan_delivery st cur h b x e) es))"
      by (rule Cons.IH)
    finally show ?case by simp
  qed simp
  have "set (sc_seen (foldl (scan_delivery st cur h b) ?sc ds)) =
      set (sc_seen sc) \<union> de_guid ` set (sc_candidates (foldl (scan_delivery st cur h b) ?sc ds))"
    unfolding IH(1) one using grows [of ?sc ds] by blast
  moreover have "eligible (gh_cutoff st) d \<Longrightarrow> de_guid d \<in> set (sc_seen (foldl (scan_delivery st cur h b) ?sc ds))"
    unfolding IH(1) using scan_delivery_seen(4) by blast
  ultimately show ?case using IH(2) by simp
qed auto

lemma foldl_scan_flags:
  "sc_reached (foldl (scan_delivery st cur h b) sc ds) \<longleftrightarrow>
     sc_reached sc \<or> gh_scanMode st = gapScanIncrement \<and> h \<noteq> None \<and> 0 < b \<and> (\<exists>d \<in> set ds. de_id d = b)"
  "sc_within (foldl (scan_delivery st cur h b) sc ds) \<longleftrightarrow>
     sc_within sc \<or> (\<exists>d \<in> set ds. \<not> (\<exists>t. gh_cutoff st = Some t \<and> de_at d < t))"
  by (induction ds arbitrary: sc) (simp_all only: foldl.simps scan_delivery_flags, auto)

text \<open>What a run knows about the page it works on.\<close>

definition page_facts :: "heal_run \<Rightarrow> page_result \<Rightarrow> bool" where
  "page_facts r p \<longleftrightarrow>
     (\<forall>d \<in> set (pr_deliveries p). eligible (gh_cutoff (hr_state r)) d \<longrightarrow> de_guid d \<in> set (hr_seen r)) \<and>
     (pr_reached p \<longrightarrow> gh_scanMode (hr_state r) = gapScanIncrement \<and> 0 < hr_boundary r \<and>
        (\<exists>d \<in> set (pr_deliveries p). de_id d = hr_boundary r)) \<and>
     (\<not> pr_within p \<longrightarrow> (\<forall>d \<in> set (pr_deliveries p). \<exists>t. gh_cutoff (hr_state r) = Some t \<and> de_at d < t))"

definition run_ok :: "string set \<Rightarrow> heal_run \<Rightarrow> bool" where
  "run_ok H r \<longleftrightarrow>
     hr_boundary r = gh_boundaryDeliveryID (hr_state r) \<and>
     (case hr_phase r of
        Listing \<Rightarrow> set (hr_seen r) \<subseteq> H
      | Redelivering p \<Rightarrow> page_facts r p \<and> set (hr_seen r) \<subseteq> H \<union> de_guid ` set (pr_candidates p)
      | Finishing p \<Rightarrow> page_facts r p \<and> set (hr_seen r) \<subseteq> H
      | Returned e \<Rightarrow> True)"

lemma run_ok_mono: "run_ok H r \<Longrightarrow> H \<subseteq> H' \<Longrightarrow> run_ok H' r"
  by (auto simp: run_ok_def split: gap_phase.splits)

lemma run_ok_cause: "run_ok H (r\<lparr>hr_cause := e\<rparr>) = run_ok H r"
  by (simp add: run_ok_def page_facts_def split: gap_phase.split)

lemma on_listed_ok:
  assumes "run_ok H r" and "hr_phase r = Listing"
  shows "run_ok H (on_listed ds nx r)"
proof -
  let ?sc = "scan_page r ds"
  let ?init = "\<lparr>sc_boundary = hr_observedBoundary r, sc_high = hr_observedHigh r, sc_reached = False, sc_within = False,
        sc_seen = hr_seen r, sc_candidates = []\<rparr>"
  have base: "de_guid ` set (sc_candidates ?init) \<subseteq> set (sc_seen ?init)" by simp
  note scanned = foldl_scan_seen [OF base, of "hr_state r" "hr_cursor r" "hr_high r" "hr_boundary r" ds,
      folded scan_page_def, unfolded page_scan.select_convs]
  have reached: "sc_reached ?sc \<Longrightarrow> gh_scanMode (hr_state r) = gapScanIncrement \<and> 0 < hr_boundary r \<and>
      (\<exists>d \<in> set ds. de_id d = hr_boundary r)"
    unfolding scan_page_def foldl_scan_flags by simp
  have "sc_within ?sc \<longleftrightarrow> (\<exists>d \<in> set ds. \<not> (\<exists>t. gh_cutoff (hr_state r) = Some t \<and> de_at d < t))"
    unfolding scan_page_def by (subst foldl_scan_flags) simp
  then have within: "\<not> sc_within ?sc \<Longrightarrow> \<forall>d \<in> set ds. \<exists>t. gh_cutoff (hr_state r) = Some t \<and> de_at d < t"
    by blast
  from assms have old: "hr_boundary r = gh_boundaryDeliveryID (hr_state r)" "set (hr_seen r) \<subseteq> H"
    by (simp_all add: run_ok_def)
  show ?thesis
    using scanned reached within old by (simp add: run_ok_def page_facts_def on_listed_def Let_def) blast
qed

lemma request_missing_requests:
  "request_missing reply present ds w = (e, w') \<Longrightarrow>
     gw_row w' = gw_row w \<and> gw_received w' = gw_received w \<and> set (gw_requested w) \<subseteq> set (gw_requested w') \<and>
     (e = None \<longrightarrow> (\<forall>d \<in> set ds. de_guid d \<in> set present \<union> snd ` set (gw_requested w')))"
  by (induction ds arbitrary: w) (force split: if_splits option.splits)+

lemma redeliverMissing_handles:
  assumes "redeliverMissing reply ds w = (e, w')"
  shows "gw_row w' = gw_row w" "handled w \<subseteq> handled w'" "e = None \<Longrightarrow> de_guid ` set ds \<subseteq> handled w'"
proof -
  have "gw_row w' = gw_row w \<and> handled w \<subseteq> handled w' \<and> (e = None \<longrightarrow> de_guid ` set ds \<subseteq> handled w')"
  proof (cases "ds = []")
    case True
    with assms show ?thesis by (simp add: redeliverMissing_def)
  next
    case False
    with assms have run: "request_missing reply (ListExistingWebhookDeliveryGUIDs (map de_guid ds) w) ds w = (e, w')"
      by (simp add: redeliverMissing_def)
    have "set (ListExistingWebhookDeliveryGUIDs (map de_guid ds) w) \<subseteq> set (gw_received w)"
      by (auto simp: ListExistingWebhookDeliveryGUIDs_def)
    with request_missing_requests [OF run] show ?thesis unfolding handled_def by auto
  qed
  then show "gw_row w' = gw_row w" "handled w \<subseteq> handled w'" "e = None \<Longrightarrow> de_guid ` set ds \<subseteq> handled w'" by blast+
qed

section \<open>The invariant\<close>

definition same_window :: "GapHealCursor \<Rightarrow> GapHealCursor \<Rightarrow> bool" where
  "same_window a b \<longleftrightarrow> gh_cutoff a = gh_cutoff b \<and> gh_scanMode a = gh_scanMode b \<and>
     gh_boundaryDeliveryID a = gh_boundaryDeliveryID b"

definition keeps_window :: "GapHealCursor \<Rightarrow> GapHealCursor \<Rightarrow> bool" where
  "keeps_window a b \<longleftrightarrow> same_window a b \<and> gh_leaseToken a = gh_leaseToken b \<and> gh_completedAt a = gh_completedAt b \<and>
     gh_startedAt a = gh_startedAt b"

text \<open>The committed pages of a window: while it is open they lead from the newest page to the cursor of
  the row, and when it is complete they end with a page that may end a pass.\<close>

definition window_ok :: "string set \<Rightarrow> visit list \<Rightarrow> int \<Rightarrow> GapHealCursor \<Rightarrow> bool" where
  "window_ok H history boundary R \<longleftrightarrow>
     gh_startedAt R \<noteq> None \<and> (\<forall>v \<in> set history. covers_page (gh_cutoff R) H v) \<and>
     (if gh_completedAt R = None then gh_boundaryDeliveryID R = boundary \<and> chain [] history (gh_cursor R)
      else \<exists>vs v. history = vs @ [v] \<and> chain [] vs (vi_cursor v) \<and> last_page R boundary v)"

text \<open>An active run that holds the lease works in the current window and has its cutoff and mode.\<close>

definition tied :: "nat \<Rightarrow> nat \<Rightarrow> heal_run \<Rightarrow> GapHealCursor \<Rightarrow> bool" where
  "tied window n r R \<longleftrightarrow>
     (holds_pass (hr_token r) R \<longrightarrow> n = window) \<and>
     (n = window \<longrightarrow> gh_completedAt R = None \<longrightarrow> same_window (hr_state r) R)"

definition gap_inv :: "gap_sys \<Rightarrow> bool" where
  "gap_inv s \<longleftrightarrow>
     (\<forall>i r. gs_runs s i = Some r \<longrightarrow> run_ok (handled (gs_world s)) r \<and> gs_runWindow s i \<le> gs_window s) \<and>
     (\<forall>R. gw_row (gs_world s) = Some R \<longrightarrow>
        window_ok (handled (gs_world s)) (gs_history s) (gs_boundary s) R \<and>
        (\<forall>i r. gs_runs s i = Some r \<longrightarrow> active r \<longrightarrow> tied (gs_window s) (gs_runWindow s i) r R))"

lemma covers_page_mono: "covers_page cutoff H v \<Longrightarrow> H \<subseteq> H' \<Longrightarrow> covers_page cutoff H' v"
  by (auto simp: covers_page_def)

lemma window_ok_mono: "window_ok H history b R \<Longrightarrow> H \<subseteq> H' \<Longrightarrow> window_ok H' history b R"
  by (auto simp: window_ok_def intro: covers_page_mono)

lemma tied_keeps: "tied window n r R \<Longrightarrow> keeps_window R R' \<Longrightarrow> tied window n r R'"
  by (auto simp: tied_def keeps_window_def same_window_def holds_pass_def)

lemma keeps_window_queries:
  "RenewGapHealLease c now token R = Some R' \<Longrightarrow> keeps_window R R' \<and> gh_cursor R' = gh_cursor R"
  "AdvanceGapHealCursor c now token expected nx high b R = Some R' \<Longrightarrow>
     keeps_window R R' \<and> holds_pass token R \<and> gh_cursor R = expected \<and> gh_cursor R' = nx"
  "RestartGapHealCursor c now token expected R = Some R' \<Longrightarrow>
     keeps_window R R' \<and> holds_pass token R \<and> gh_cursor R' = []"
  by (auto simp: RenewGapHealLease_def AdvanceGapHealCursor_def RestartGapHealCursor_def keeps_window_def
      same_window_def holds_pass_def split: if_splits)

lemma completed_row:
  "CompleteGapHealCursor now token expected high b R = Some R' \<Longrightarrow>
     holds_pass token R \<and> gh_cursor R = expected \<and> gh_completedAt R' \<noteq> None \<and> gh_leaseToken R' = None \<and>
     gh_startedAt R' = gh_startedAt R \<and> gh_cutoff R' = gh_cutoff R \<and> gh_scanMode R' = gh_scanMode R"
  by (auto simp: CompleteGapHealCursor_def split: if_splits)

text \<open>A change of the row and of one run keeps the invariant when the window is kept.\<close>

lemma gap_inv_row:
  assumes inv: "gap_inv s" and run: "gs_runs s i = Some r" and row: "gw_row (gs_world s) = Some R"
    and row': "gw_row w' = Some R'" and H: "handled (gs_world s) \<subseteq> handled w'"
    and ok: "run_ok (handled w') r'" and window: "window_ok (handled w') history (gs_boundary s) R'"
    and ties: "\<And>n q. tied (gs_window s) n q R \<Longrightarrow> tied (gs_window s) n q R'"
    and tie: "active r' \<Longrightarrow> tied (gs_window s) (gs_runWindow s i) r' R'"
  shows "gap_inv (s\<lparr>gs_world := w', gs_runs := (gs_runs s)(i \<mapsto> r'), gs_history := history\<rparr>)"
  unfolding gap_inv_def
proof (intro conjI allI impI, goal_cases)
  case (1 j q)
  then show ?case using inv ok H run by (auto simp: gap_inv_def intro: run_ok_mono split: if_splits)
next
  case (2 j q)
  then show ?case using inv run by (auto simp: gap_inv_def split: if_splits)
next
  case (3 Q)
  then show ?case using row' window by simp
next
  case (4 Q j q)
  then show ?case using inv row row' ties tie by (auto simp: gap_inv_def split: if_splits)
qed

text \<open>A change of one run alone.\<close>

lemma gap_inv_run:
  assumes inv: "gap_inv s" and run: "gs_runs s i = Some r" and row: "gw_row w' = gw_row (gs_world s)"
    and H: "handled (gs_world s) \<subseteq> handled w'" and ok: "run_ok (handled w') r'"
    and same: "active r' \<Longrightarrow> active r \<and> hr_token r' = hr_token r \<and> hr_state r' = hr_state r"
  shows "gap_inv (s\<lparr>gs_world := w', gs_runs := (gs_runs s)(i \<mapsto> r')\<rparr>)"
  unfolding gap_inv_def
proof (intro conjI allI impI, goal_cases)
  case (1 j q)
  then show ?case using inv ok H run by (auto simp: gap_inv_def intro: run_ok_mono split: if_splits)
next
  case (2 j q)
  then show ?case using inv run by (auto simp: gap_inv_def split: if_splits)
next
  case (3 Q)
  then show ?case using inv row H by (auto simp: gap_inv_def intro: window_ok_mono)
next
  case (4 Q j q)
  show ?case
  proof (cases "j = i")
    case True
    with 4 run same inv row show ?thesis by (auto simp: gap_inv_def tied_def)
  next
    case False
    with 4 inv row show ?thesis by (auto simp: gap_inv_def)
  qed
qed

lemma handled_row [simp]: "handled (w\<lparr>gw_row := x\<rparr>) = handled w"
  by (simp add: handled_def)

lemma handled_continuation [simp]:
  "handled (insert_continuation a t w) = handled w" "gw_row (insert_continuation a t w) = gw_row w"
  by (auto simp: insert_continuation_def handled_def)

lemma active_phase: "active r \<longleftrightarrow> (\<forall>e. hr_phase r \<noteq> Returned e)"
  by (auto simp: active_def returned_def split: gap_phase.split)

lemma returned_ok: "run_ok H r \<Longrightarrow> run_ok H (r\<lparr>hr_phase := Returned e\<rparr>)" "\<not> active (r\<lparr>hr_phase := Returned e\<rparr>)"
  by (auto simp: run_ok_def active_phase)

end
