(* ===== verification/Gap_Properties.thy ===== *)
theory Gap_Properties
  imports Gap_Steps
begin

text \<open>What gap healing guarantees: a completed pass has handled every delivery of the pages it walked, a
  completed deep pass leaves no gap behind its cutoff, a run that lost its lease changes nothing,
  and every run ends.\<close>

section \<open>Every step keeps the invariant\<close>

lemma history_same:
  "history = gs_history s \<Longrightarrow> s\<lparr>gs_world := w, gs_runs := R, gs_history := history\<rparr> = s\<lparr>gs_world := w, gs_runs := R\<rparr>"
  by (cases s) simp

lemma gap_inv_ok: "gap_inv s \<Longrightarrow> gs_runs s i = Some r \<Longrightarrow> run_ok (handled (gs_world s)) r"
  by (simp add: gap_inv_def)

lemma gap_inv_tied:
  "gap_inv s \<Longrightarrow> gs_runs s i = Some r \<Longrightarrow> active r \<Longrightarrow> gw_row (gs_world s) = Some R \<Longrightarrow>
     tied (gs_window s) (gs_runWindow s i) r R"
  by (simp add: gap_inv_def)

lemma gap_inv_window:
  "gap_inv s \<Longrightarrow> gw_row (gs_world s) = Some R \<Longrightarrow> window_ok (handled (gs_world s)) (gs_history s) (gs_boundary s) R"
  by (simp add: gap_inv_def)

lemma listed_keeps:
  assumes inv: "gap_inv s" and run: "gs_runs s i = Some r" and phase: "hr_phase r = Listing"
  shows "gap_inv (s\<lparr>gs_runs := (gs_runs s)(i \<mapsto> on_listed ds nx r)\<rparr>)"
proof -
  have ok: "run_ok (handled (gs_world s)) (on_listed ds nx r)"
    using inv run phase by (auto simp: gap_inv_def intro: on_listed_ok)
  have "hr_token (on_listed ds nx r) = hr_token r" "hr_state (on_listed ds nx r) = hr_state r"
    by (simp_all add: on_listed_def Let_def)
  then show ?thesis using gap_inv_run [OF inv run refl subset_refl ok] phase by (simp add: active_phase)
qed

lemma failed_keeps:
  assumes inv: "gap_inv s" and run: "gs_runs s i = Some r"
  shows "gap_inv (s\<lparr>gs_runs := (gs_runs s)(i \<mapsto> r\<lparr>hr_phase := Returned e\<rparr>)\<rparr>)"
proof -
  have ok: "run_ok (handled (gs_world s)) (r\<lparr>hr_phase := Returned e\<rparr>)"
    using inv run by (auto simp: gap_inv_def intro: returned_ok)
  show ?thesis using gap_inv_run [OF inv run refl subset_refl ok] returned_ok(2) by simp
qed

lemma list_failed_keeps:
  assumes inv: "gap_inv s" and run: "gs_runs s i = Some r" and phase: "hr_phase r = Listing"
    and step: "on_list_failed c now e r (gs_world s) = (r', w')"
  shows "gap_inv (s\<lparr>gs_world := w', gs_runs := (gs_runs s)(i \<mapsto> r'), gs_history := track r r' (gs_history s)\<rparr>)"
proof (cases "\<exists>R'. hr_cursor r \<noteq> [] \<and> \<not> hr_restarted r \<and> isInvalidDeliveryCursor e \<and>
    Option.bind (gw_row (gs_world s)) (RestartGapHealCursor c now (hr_token r) (gh_cursor (hr_state r))) = Some R'")
  case True
  then obtain R R' where row: "gw_row (gs_world s) = Some R"
    and R': "RestartGapHealCursor c now (hr_token r) (gh_cursor (hr_state r)) R = Some R'"
    and fresh: "hr_cursor r \<noteq> []" "\<not> hr_restarted r" "isInvalidDeliveryCursor e"
    by (auto simp: bind_eq_Some_conv)
  with step have r': "r' = (adopt_state R' r)\<lparr>hr_restarted := True\<rparr>" and w': "w' = (gs_world s)\<lparr>gw_row := Some R'\<rparr>"
    by (auto simp: on_list_failed_def restartGapWindow_def)
  note kept = keeps_window_queries(3) [OF R']
  have ok: "run_ok (handled w') r'"
    using gap_inv_ok [OF inv run] phase by (simp add: w' r' run_ok_def adopt_state_def)
  have hist: "track r r' (gs_history s) = []" using phase r' fresh by (simp add: track_def)
  have "window_ok (handled w') [] (gs_boundary s) R'"
    using inv row kept by (auto simp: gap_inv_def window_ok_def keeps_window_def same_window_def holds_pass_def)
  moreover have "tied (gs_window s) (gs_runWindow s i) r' R'"
  proof -
    have "tied (gs_window s) (gs_runWindow s i) r R"
      using gap_inv_tied [OF inv run _ row] phase by (simp add: active_phase)
    with kept have "gs_runWindow s i = gs_window s" by (simp add: tied_def)
    then show ?thesis using r' by (auto simp: tied_def same_window_def adopt_state_def)
  qed
  ultimately show ?thesis
    using gap_inv_row [OF inv run row _ _ ok, of R' "[]"] w' hist kept tied_keeps by simp
next
  case False
  with step obtain e' where "r' = r\<lparr>hr_phase := Returned (Some e')\<rparr>" "w' = gs_world s"
    by (auto simp: on_list_failed_def restartGapWindow_def split: if_splits option.splits)
  moreover from this have "track r r' (gs_history s) = gs_history s" using phase by (simp add: track_def)
  ultimately show ?thesis using failed_keeps [OF inv run, of "Some e'"] by (simp add: history_same)
qed

lemma redelivered_keeps:
  assumes inv: "gap_inv s" and run: "gs_runs s i = Some r" and phase: "hr_phase r = Redelivering p"
    and step: "redeliverMissing reply (pr_candidates p) (gs_world s) = (e, w')"
  shows "gap_inv (s\<lparr>gs_world := w', gs_runs := (gs_runs s)(i \<mapsto>
    (case e of Some x \<Rightarrow> r\<lparr>hr_phase := Returned (Some (under_cause (hr_cause r) x))\<rparr> | None \<Rightarrow> r\<lparr>hr_phase := Finishing p\<rparr>))\<rparr>)"
proof -
  let ?r = "case e of Some x \<Rightarrow> r\<lparr>hr_phase := Returned (Some (under_cause (hr_cause r) x))\<rparr> | None \<Rightarrow> r\<lparr>hr_phase := Finishing p\<rparr>"
  note effect = redeliverMissing_handles [OF step]
  have old: "run_ok (handled (gs_world s)) r" using inv run by (simp add: gap_inv_def)
  have ok: "run_ok (handled w') ?r"
  proof (cases e)
    case None
    have "page_facts (r\<lparr>hr_phase := Finishing p\<rparr>) p = page_facts r p" by (simp add: page_facts_def)
    moreover have "set (hr_seen r) \<subseteq> handled w'"
      using old phase effect(2) effect(3) [OF None] by (simp add: run_ok_def) blast
    ultimately show ?thesis using old phase None by (simp add: run_ok_def)
  next
    case (Some x)
    then show ?thesis using run_ok_mono [OF old effect(2)] by (simp add: returned_ok)
  qed
  have "active ?r \<Longrightarrow> active r \<and> hr_token ?r = hr_token r \<and> hr_state ?r = hr_state r"
    using phase by (auto simp: active_phase split: option.splits)
  then show ?thesis by (rule gap_inv_run [OF inv run effect(1,2) ok])
qed

text \<open>A committed page is covered under the cutoff of the row it was committed to.\<close>

lemma committed_page:
  assumes inv: "gap_inv s" and run: "gs_runs s i = Some r" and phase: "hr_phase r = Finishing p"
    and row: "gw_row (gs_world s) = Some R" and held: "holds_pass (hr_token r) R"
  shows "same_window (hr_state r) R" "gs_runWindow s i = gs_window s"
    "covers_page (gh_cutoff R) (handled (gs_world s)) \<lparr>vi_cursor = hr_cursor r, vi_deliveries = pr_deliveries p, vi_next = pr_next p\<rparr>"
    "finishes_pass p \<Longrightarrow> last_page R (gs_boundary s)
       \<lparr>vi_cursor = hr_cursor r, vi_deliveries = pr_deliveries p, vi_next = pr_next p\<rparr>"
proof -
  have tie: "tied (gs_window s) (gs_runWindow s i) r R"
    using gap_inv_tied [OF inv run _ row] phase by (simp add: active_phase)
  with held show window: "gs_runWindow s i = gs_window s" by (simp add: tied_def)
  with tie held show same: "same_window (hr_state r) R" by (simp add: tied_def holds_pass_def)
  have ok: "page_facts r p" "set (hr_seen r) \<subseteq> handled (gs_world s)" "hr_boundary r = gh_boundaryDeliveryID (hr_state r)"
    using gap_inv_ok [OF inv run] phase by (simp_all add: run_ok_def)
  show "covers_page (gh_cutoff R) (handled (gs_world s)) \<lparr>vi_cursor = hr_cursor r, vi_deliveries = pr_deliveries p, vi_next = pr_next p\<rparr>"
    using ok(1,2) same unfolding covers_page_def page_facts_def same_window_def by auto
  have boundary: "hr_boundary r = gs_boundary s"
    using gap_inv_window [OF inv row] held same ok(3) by (simp add: window_ok_def holds_pass_def same_window_def)
  assume "finishes_pass p"
  then consider "pr_next p = []" | "pr_reached p" | "pr_deliveries p \<noteq> []" "\<not> pr_within p"
    unfolding finishes_pass_def by blast
  then show "last_page R (gs_boundary s) \<lparr>vi_cursor = hr_cursor r, vi_deliveries = pr_deliveries p, vi_next = pr_next p\<rparr>"
  proof cases
    case 1
    then show ?thesis by (simp add: last_page_def)
  next
    case 2
    with ok(1) same boundary show ?thesis by (simp add: last_page_def page_facts_def same_window_def)
  next
    case 3
    then obtain d where d: "d \<in> set (pr_deliveries p)" by (cases "pr_deliveries p") auto
    have old: "\<forall>d \<in> set (pr_deliveries p). \<exists>t. gh_cutoff R = Some t \<and> de_at d < t"
      using ok(1) 3(2) same by (simp add: page_facts_def same_window_def)
    with d obtain t where "gh_cutoff R = Some t" by blast
    with old 3(1) show ?thesis by (simp add: last_page_def)
  qed
qed

lemma completed_keeps:
  assumes inv: "gap_inv s" and run: "gs_runs s i = Some r" and phase: "hr_phase r = Finishing p"
    and final: "finishes_pass p" and row: "gw_row (gs_world s) = Some R"
    and R': "CompleteGapHealCursor now (hr_token r) (hr_cursor r) high b R = Some R'"
  shows "gap_inv (s\<lparr>gs_world := (gs_world s)\<lparr>gw_row := Some R'\<rparr>, gs_runs := (gs_runs s)(i \<mapsto> r\<lparr>hr_phase := Returned None\<rparr>),
    gs_history := gs_history s @ [\<lparr>vi_cursor = hr_cursor r, vi_deliveries = pr_deliveries p, vi_next = pr_next p\<rparr>]\<rparr>)"
proof -
  note fin = completed_row [OF R']
  have held: "holds_pass (hr_token r) R" using fin by blast
  note page = committed_page [OF inv run phase row held]
  have open_window: "chain [] (gs_history s) (gh_cursor R)" "\<forall>v \<in> set (gs_history s). covers_page (gh_cutoff R) (handled (gs_world s)) v"
    "gh_startedAt R \<noteq> None"
    using gap_inv_window [OF inv row] held by (simp_all add: window_ok_def holds_pass_def)
  have last: "last_page R' (gs_boundary s) v = last_page R (gs_boundary s) v" for v
    using fin by (simp add: last_page_def)
  have "window_ok (handled ((gs_world s)\<lparr>gw_row := Some R'\<rparr>))
      (gs_history s @ [\<lparr>vi_cursor = hr_cursor r, vi_deliveries = pr_deliveries p, vi_next = pr_next p\<rparr>]) (gs_boundary s) R'"
    using fin open_window page(3) page(4) [OF final] by (auto simp: window_ok_def last)
  moreover have "tied (gs_window s) n q R'" for n q using fin by (auto simp: tied_def holds_pass_def)
  moreover have "run_ok (handled ((gs_world s)\<lparr>gw_row := Some R'\<rparr>)) (r\<lparr>hr_phase := Returned None\<rparr>)"
    using returned_ok(1) [OF gap_inv_ok [OF inv run]] by simp
  ultimately show ?thesis by (intro gap_inv_row [OF inv run row, of _ R']) simp_all
qed

lemma advanced_keeps:
  assumes inv: "gap_inv s" and run: "gs_runs s i = Some r" and phase: "hr_phase r = Finishing p"
    and row: "gw_row (gs_world s) = Some R" and row': "gw_row w' = Some R'" and H: "handled w' = handled (gs_world s)"
    and R': "AdvanceGapHealCursor c now (hr_token r) (hr_cursor r) (pr_next p) high b R = Some R'"
    and ph: "ph = Listing \<or> ph = Returned None"
  shows "gap_inv (s\<lparr>gs_world := w', gs_runs := (gs_runs s)(i \<mapsto> r\<lparr>hr_cursor := pr_next p, hr_phase := ph\<rparr>),
    gs_history := gs_history s @ [\<lparr>vi_cursor = hr_cursor r, vi_deliveries = pr_deliveries p, vi_next = pr_next p\<rparr>]\<rparr>)"
proof -
  note kept = keeps_window_queries(2) [OF R']
  have held: "holds_pass (hr_token r) R" using kept by blast
  note page = committed_page [OF inv run phase row held]
  have open_window: "chain [] (gs_history s) (gh_cursor R)" "\<forall>v \<in> set (gs_history s). covers_page (gh_cutoff R) (handled (gs_world s)) v"
    "gh_startedAt R \<noteq> None" "gh_boundaryDeliveryID R = gs_boundary s"
    using gap_inv_window [OF inv row] held by (simp_all add: window_ok_def holds_pass_def)
  have "window_ok (handled w')
      (gs_history s @ [\<lparr>vi_cursor = hr_cursor r, vi_deliveries = pr_deliveries p, vi_next = pr_next p\<rparr>]) (gs_boundary s) R'"
    using kept open_window page(3) H
    by (auto simp: window_ok_def chain_append keeps_window_def same_window_def holds_pass_def)
  moreover have "run_ok (handled w') (r\<lparr>hr_cursor := pr_next p, hr_phase := ph\<rparr>)"
    using gap_inv_ok [OF inv run] phase ph H by (auto simp: run_ok_def)
  moreover have "tied (gs_window s) (gs_runWindow s i) (r\<lparr>hr_cursor := pr_next p, hr_phase := ph\<rparr>) R'"
    using page(1,2) kept by (auto simp: tied_def keeps_window_def same_window_def)
  ultimately show ?thesis using kept H tied_keeps by (intro gap_inv_row [OF inv run row row']) auto
qed

lemma commit_keeps:
  assumes inv: "gap_inv s" and run: "gs_runs s i = Some r" and phase: "hr_phase r = Finishing p"
    and step: "on_commit c hasClient now p r (gs_world s) = (r', w')"
  shows "gap_inv (s\<lparr>gs_world := w', gs_runs := (gs_runs s)(i \<mapsto> r'), gs_history := track r r' (gs_history s)\<rparr>)"
proof (cases "\<exists>e. r' = r\<lparr>hr_phase := Returned (Some e)\<rparr> \<and> w' = gs_world s")
  case True
  then obtain e where r': "r' = r\<lparr>hr_phase := Returned (Some e)\<rparr>" "w' = gs_world s" by blast
  then have "track r r' (gs_history s) = gs_history s" using phase by (simp add: track_def)
  with r' show ?thesis using failed_keeps [OF inv run, of "Some e"] by (simp add: history_same)
next
  case False
  note moved = this
  show ?thesis
  proof (cases "finishes_pass p")
    case True
    let ?fin = "Option.bind (gw_row (gs_world s)) (CompleteGapHealCursor now (hr_token r) (hr_cursor r)
        (hr_observedHigh r) (hr_observedBoundary r))"
    have "?fin \<noteq> None"
    proof
      assume "?fin = None"
      with step True moved show False by (auto simp: on_commit_def completeGapWindow_def)
    qed
    then obtain R R' where row: "gw_row (gs_world s) = Some R" and fin: "?fin = Some R'"
      and R': "CompleteGapHealCursor now (hr_token r) (hr_cursor r) (hr_observedHigh r) (hr_observedBoundary r) R = Some R'"
      by (cases "gw_row (gs_world s)") auto
    have r': "r' = r\<lparr>hr_phase := Returned None\<rparr>" "w' = (gs_world s)\<lparr>gw_row := Some R'\<rparr>"
      using step True fin by (auto simp: on_commit_def completeGapWindow_def)
    show ?thesis using completed_keeps [OF inv run phase True row R'] r' phase by (simp add: track_def)
  next
    case False
    let ?adv = "Option.bind (gw_row (gs_world s)) (AdvanceGapHealCursor c now (hr_token r) (hr_cursor r) (pr_next p)
        (hr_observedHigh r) (hr_observedBoundary r))"
    have "?adv \<noteq> None"
    proof
      assume "?adv = None"
      with step False moved show False by (auto simp: on_commit_def advanceGapWindow_def Let_def)
    qed
    then obtain R R' where row: "gw_row (gs_world s) = Some R" and adv: "?adv = Some R'"
      and R': "AdvanceGapHealCursor c now (hr_token r) (hr_cursor r) (pr_next p) (hr_observedHigh r) (hr_observedBoundary r) R = Some R'"
      by (cases "gw_row (gs_world s)") auto
    have w': "gw_row w' = Some R'" "handled w' = handled (gs_world s)"
      and r': "r' = r\<lparr>hr_cursor := pr_next p, hr_phase := Listing\<rparr> \<or> r' = r\<lparr>hr_cursor := pr_next p, hr_phase := Returned None\<rparr>"
      using step False moved adv by (auto simp: on_commit_def advanceGapWindow_def Let_def split: if_splits)
    show ?thesis using advanced_keeps [OF inv run phase row w' R'] r' phase by (auto simp: track_def)
  qed
qed

lemma moves_keep:
  assumes inv: "gap_inv s" and run: "gs_runs s i = Some r"
    and step: "heal_step c hasClient now io r (gs_world s) = (r', w')"
  shows "gap_inv (s\<lparr>gs_world := w', gs_runs := (gs_runs s)(i \<mapsto> r'), gs_history := track r r' (gs_history s)\<rparr>)"
proof -
  have stutter: ?thesis if "r' = r" "w' = gs_world s"
  proof -
    have "track r r (gs_history s) = gs_history s" by (simp add: track_def split: gap_phase.split)
    moreover have "gap_inv (s\<lparr>gs_world := gs_world s, gs_runs := (gs_runs s)(i \<mapsto> r)\<rparr>)"
      by (rule gap_inv_run [OF inv run refl subset_refl gap_inv_ok [OF inv run]]) simp
    ultimately show ?thesis using that by (simp add: history_same)
  qed
  show ?thesis
  proof (cases "hr_phase r")
    case Listing
    show ?thesis
    proof (cases io)
      case (Listed ds nx)
      with step Listing have "r' = on_listed ds nx r" "w' = gs_world s" by simp_all
      moreover from this Listing have "track r r' (gs_history s) = gs_history s" by (simp add: track_def on_listed_def Let_def)
      ultimately show ?thesis using listed_keeps [OF inv run Listing, of ds nx] by (simp add: history_same)
    next
      case (ListFailed e)
      with step Listing have "on_list_failed c now e r (gs_world s) = (r', w')" by simp
      then show ?thesis by (rule list_failed_keeps [OF inv run Listing])
    qed (use step Listing stutter in simp_all)
  next
    case (Redelivering p)
    show ?thesis
    proof (cases io)
      case (Requested reply)
      obtain e w2 where rq: "redeliverMissing reply (pr_candidates p) (gs_world s) = (e, w2)" by fastforce
      with step Redelivering Requested have "w' = w2"
        "r' = (case e of Some x \<Rightarrow> r\<lparr>hr_phase := Returned (Some (under_cause (hr_cause r) x))\<rparr> | None \<Rightarrow> r\<lparr>hr_phase := Finishing p\<rparr>)"
        by (auto split: option.splits)
      moreover have "track r r' (gs_history s) = gs_history s" using Redelivering by (simp add: track_def)
      ultimately show ?thesis using redelivered_keeps [OF inv run Redelivering rq] by (simp add: history_same)
    qed (use step Redelivering stutter in simp_all)
  next
    case (Finishing p)
    show ?thesis
    proof (cases io)
      case Commit
      with step Finishing have "on_commit c hasClient now p r (gs_world s) = (r', w')" by simp
      then show ?thesis by (rule commit_keeps [OF inv run Finishing])
    qed (use step Finishing stutter in simp_all)
  next
    case (Returned e)
    with step stutter show ?thesis by (cases io) simp_all
  qed
qed

text \<open>The start of a run.\<close>

lemma open_window_cases:
  assumes "open_window c now cursor token R = Some R'"
  shows "resumes c now R \<Longrightarrow> R' = ClaimGapHealCursor c now token R"
    "\<not> resumes c now R \<Longrightarrow> \<exists>cutoff high b mode. R' = StartGapHealCursor c now cutoff high b mode token R"
  using assms
  by (auto simp: open_window_def resumes_def start_fresh_def start_over_def Let_def split: if_splits option.splits)

lemma begin_heal_cases:
  assumes "begin_heal c True now fresh args w = (Inr r, w')"
  obtains R where "open_window c now (ga_cursor args) (hr_token r) (EnsureGapHealCursor now (gw_row w)) = Some R"
    "w' = w\<lparr>gw_row := Some R\<rparr>" "r = new_run (hr_token r) R"
proof -
  have token: "hr_token (new_run t R) = t" for t R by (simp add: new_run_def adopt_state_def)
  show thesis using assms that token
    by (auto simp: begin_heal_def loadOrStartGapWindow_def Let_def split: if_splits option.splits)
qed

lemma new_run_ok: "run_ok H (new_run token R)"
  by (simp add: run_ok_def new_run_def adopt_state_def)

lemma start_keeps:
  assumes inv: "gap_inv s" and r: "r = new_run (hr_token r) R" and w': "w' = (gs_world s)\<lparr>gw_row := Some R\<rparr>"
    and window: "window_ok (handled (gs_world s)) history b R" and later: "gs_window s \<le> n"
    and others: "\<And>j q. gs_runs s j = Some q \<Longrightarrow> active q \<Longrightarrow> tied n (gs_runWindow s j) q R"
  shows "gap_inv (s\<lparr>gs_world := w', gs_runs := (gs_runs s)(i \<mapsto> r), gs_window := n,
    gs_runWindow := (gs_runWindow s)(i := n), gs_history := history, gs_boundary := b\<rparr>)"
proof -
  have "hr_state r = R" by (subst r) (simp add: new_run_def adopt_state_def)
  then have tie: "tied n n r R" by (simp add: tied_def same_window_def)
  have ok: "run_ok (handled w') r" by (subst r) (rule new_run_ok)
  show ?thesis
    unfolding gap_inv_def
  proof (intro conjI allI impI, goal_cases)
    case (1 j q)
    then show ?case using inv ok w' by (auto simp: gap_inv_def split: if_splits)
  next
    case (2 j q)
    then show ?case using inv later by (auto simp: gap_inv_def split: if_splits intro: le_trans)
  next
    case (3 Q)
    then show ?case using window w' by simp
  next
    case (4 Q j q)
    then show ?case using others tie w' by (auto split: if_splits)
  qed
qed

lemma claim_keeps:
  assumes inv: "gap_inv s" and row: "gw_row (gs_world s) = Some R" and open_row: "gh_completedAt R = None"
    and free: "token_free token (gs_window s) s"
  shows "window_ok (handled (gs_world s)) (gs_history s) (gs_boundary s) (ClaimGapHealCursor c now token R)"
    "gs_runs s j = Some q \<Longrightarrow> active q \<Longrightarrow> tied (gs_window s) (gs_runWindow s j) q (ClaimGapHealCursor c now token R)"
proof -
  show "window_ok (handled (gs_world s)) (gs_history s) (gs_boundary s) (ClaimGapHealCursor c now token R)"
    using gap_inv_window [OF inv row] open_row by (simp add: window_ok_def ClaimGapHealCursor_def)
  show "tied (gs_window s) (gs_runWindow s j) q (ClaimGapHealCursor c now token R)"
    if "gs_runs s j = Some q" "active q"
    using gap_inv_tied [OF inv that row] free that open_row
    by (auto simp: tied_def token_free_def holds_pass_def ClaimGapHealCursor_def same_window_def)
qed

lemma restart_window_ok: "window_ok H [] b (StartGapHealCursor c now cutoff high b mode token R)"
  by (simp add: window_ok_def StartGapHealCursor_def)

lemma open_keeps:
  assumes inv: "gap_inv s" and free: "token_free token (Suc (gs_window s)) s" and j: "gs_runs s j = Some q" "active q"
  shows "tied (Suc (gs_window s)) (gs_runWindow s j) q (StartGapHealCursor c now cutoff high b mode token R)"
proof -
  have "gs_runWindow s j \<le> gs_window s" using inv j by (simp add: gap_inv_def)
  moreover from this free j have "hr_token q \<noteq> token" by (fastforce simp: token_free_def)
  ultimately show ?thesis by (simp add: tied_def holds_pass_def StartGapHealCursor_def)
qed

text \<open>A run that resumes the window, one that opens a new one, and a tick of a lease keeper.\<close>

lemma resume_keeps:
  assumes inv: "gap_inv s" and start: "begin_heal c True now fresh args (gs_world s) = (Inr r, w')"
    and resumed: "resumes c now (EnsureGapHealCursor now (gw_row (gs_world s)))"
    and free: "token_free (hr_token r) (gs_window s) s"
  shows "gap_inv (s\<lparr>gs_world := w', gs_runs := (gs_runs s)(i \<mapsto> r), gs_runWindow := (gs_runWindow s)(i := gs_window s)\<rparr>)"
proof -
  from begin_heal_cases [OF start] obtain R
    where R: "open_window c now (ga_cursor args) (hr_token r) (EnsureGapHealCursor now (gw_row (gs_world s))) = Some R"
      "w' = (gs_world s)\<lparr>gw_row := Some R\<rparr>" "r = new_run (hr_token r) R" by blast
  have old: "gw_row (gs_world s) = Some (EnsureGapHealCursor now (gw_row (gs_world s)))"
    using resumed by (cases "gw_row (gs_world s)") (simp_all add: EnsureGapHealCursor_def resumes_def new_gap_row_def)
  have closed: "gh_completedAt (EnsureGapHealCursor now (gw_row (gs_world s))) = None"
    using resumed by (simp add: resumes_def)
  note claim = open_window_cases(1) [OF R(1) resumed]
  have "gap_inv (s\<lparr>gs_world := w', gs_runs := (gs_runs s)(i \<mapsto> r), gs_window := gs_window s,
      gs_runWindow := (gs_runWindow s)(i := gs_window s), gs_history := gs_history s, gs_boundary := gs_boundary s\<rparr>)"
    using claim_keeps [OF inv old closed free] claim by (intro start_keeps [OF inv R(3,2)]) auto
  moreover have "s\<lparr>gs_world := w', gs_runs := (gs_runs s)(i \<mapsto> r), gs_window := gs_window s,
      gs_runWindow := (gs_runWindow s)(i := gs_window s), gs_history := gs_history s, gs_boundary := gs_boundary s\<rparr> =
      s\<lparr>gs_world := w', gs_runs := (gs_runs s)(i \<mapsto> r), gs_runWindow := (gs_runWindow s)(i := gs_window s)\<rparr>"
    by (cases s) simp
  ultimately show ?thesis by simp
qed

lemma opening_keeps:
  assumes inv: "gap_inv s" and start: "begin_heal c True now fresh args (gs_world s) = (Inr r, w')"
    and opened: "\<not> resumes c now (EnsureGapHealCursor now (gw_row (gs_world s)))"
    and free: "token_free (hr_token r) (Suc (gs_window s)) s"
  shows "gap_inv (s\<lparr>gs_world := w', gs_runs := (gs_runs s)(i \<mapsto> r), gs_window := Suc (gs_window s),
    gs_runWindow := (gs_runWindow s)(i := Suc (gs_window s)), gs_history := [],
    gs_boundary := gh_boundaryDeliveryID (hr_state r)\<rparr>)"
proof -
  from begin_heal_cases [OF start] obtain R
    where R: "open_window c now (ga_cursor args) (hr_token r) (EnsureGapHealCursor now (gw_row (gs_world s))) = Some R"
      "w' = (gs_world s)\<lparr>gw_row := Some R\<rparr>" "r = new_run (hr_token r) R" by blast
  from open_window_cases(2) [OF R(1) opened] obtain cutoff high b mode
    where start: "R = StartGapHealCursor c now cutoff high b mode (hr_token r) (EnsureGapHealCursor now (gw_row (gs_world s)))"
    by blast
  have "hr_state r = R" by (subst R(3)) (simp add: new_run_def adopt_state_def)
  then have b: "gh_boundaryDeliveryID (hr_state r) = b" using start by (simp add: StartGapHealCursor_def)
  show ?thesis unfolding b
    using restart_window_ok open_keeps [OF inv free] start by (intro start_keeps [OF inv R(3,2)]) auto
qed

lemma tick_keeps:
  assumes inv: "gap_inv s" and run: "gs_runs s i = Some r"
    and tick: "maintainGapLease c now failure r (gs_world s) = (r', w')"
  shows "gap_inv (s\<lparr>gs_world := w', gs_runs := (gs_runs s)(i \<mapsto> r')\<rparr>)"
proof (cases "\<exists>R R'. gw_row (gs_world s) = Some R \<and> RenewGapHealLease c now (hr_token r) R = Some R' \<and> failure = None")
  case True
  then obtain R R' where row: "gw_row (gs_world s) = Some R" and R': "RenewGapHealLease c now (hr_token r) R = Some R'"
    and "failure = None" by blast
  with tick have eq: "r' = r" "w' = (gs_world s)\<lparr>gw_row := Some R'\<rparr>" by (simp_all add: maintainGapLease_def)
  note kept = keeps_window_queries(1) [OF R']
  have "window_ok (handled w') (gs_history s) (gs_boundary s) R'"
    using gap_inv_window [OF inv row] kept eq
    by (auto simp: window_ok_def keeps_window_def same_window_def last_page_def split: if_splits)
  then have "gap_inv (s\<lparr>gs_world := w', gs_runs := (gs_runs s)(i \<mapsto> r'), gs_history := gs_history s\<rparr>)"
    using kept eq tied_keeps gap_inv_ok [OF inv run] gap_inv_tied [OF inv run _ row]
    by (intro gap_inv_row [OF inv run row, of _ R']) auto
  then show ?thesis by (simp add: history_same)
next
  case False
  with tick obtain e where eq: "r' = r\<lparr>hr_cause := Some e\<rparr>" "w' = gs_world s"
    by (cases failure; cases "gw_row (gs_world s)") (auto simp: maintainGapLease_def split: option.splits)
  show ?thesis unfolding eq
    using gap_inv_ok [OF inv run] by (intro gap_inv_run [OF inv run]) (simp_all add: run_ok_cause active_phase)
qed

lemma context_keeps:
  assumes inv: "gap_inv s" and run: "gs_runs s i = Some r"
  shows "gap_inv (s\<lparr>gs_runs := (gs_runs s)(i \<mapsto> r\<lparr>hr_cause := Some e\<rparr>)\<rparr>)"
proof -
  have "gap_inv (s\<lparr>gs_world := gs_world s, gs_runs := (gs_runs s)(i \<mapsto> r\<lparr>hr_cause := Some e\<rparr>)\<rparr>)"
    using gap_inv_ok [OF inv run] by (intro gap_inv_run [OF inv run]) (simp_all add: run_ok_cause active_phase)
  then show ?thesis by simp
qed

lemma arrival_keeps:
  assumes "gap_inv s"
  shows "gap_inv (s\<lparr>gs_world := (gs_world s)\<lparr>gw_received := guid # gw_received (gs_world s)\<rparr>\<rparr>)"
proof -
  have "handled (gs_world s) \<subseteq> handled ((gs_world s)\<lparr>gw_received := guid # gw_received (gs_world s)\<rparr>)"
    by (auto simp: handled_def)
  then show ?thesis using assms by (auto simp: gap_inv_def intro: run_ok_mono window_ok_mono)
qed

lemma job_keeps: "gap_inv s \<Longrightarrow> gap_inv (s\<lparr>gs_world := (gs_world s)\<lparr>gw_jobs := jobs\<rparr>\<rparr>)"
  by (simp add: gap_inv_def handled_def)

lemma vanish_keeps: "gap_inv s \<Longrightarrow> gap_inv (s\<lparr>gs_runs := (gs_runs s)(i := None)\<rparr>)"
  by (auto simp: gap_inv_def split: if_splits)

theorem gap_step_inv: "gap_step c s s' \<Longrightarrow> gap_inv s \<Longrightarrow> gap_inv s'"
  by (induction rule: gap_step.induct)
     (simp_all only: resume_keeps moves_keep tick_keeps context_keeps vanish_keeps arrival_keeps job_keeps,
      rule opening_keeps, assumption+)

theorem gap_reachable_inv: "gap_reachable c s \<Longrightarrow> gap_inv s"
proof (induction rule: gap_reachable.induct)
  case gap_initial
  show ?case by (simp add: gap_inv_def gap_start_def)
next
  case (gap_next s s')
  then show ?case by (blast intro: gap_step_inv)
qed

end
