(* ===== verification/Gap_Passes.thy ===== *)
theory Gap_Passes
  imports Gap_Properties
begin

text \<open>The properties of a gap-healing pass.\<close>

section \<open>A concrete pass\<close>

text \<open>One run of the demonstration lists one page with one delivery that was never received, requests it,
  and completes the pass.\<close>

definition demo_gap :: gap_config where
  "demo_gap = \<lparr>gf_installationID = 1, gf_window = 10000, gf_pageSize = 2, gf_maxPages = 2, gf_leaseTTL = 5000,
     gf_continuationDelay = 1000, gf_deepScanPeriod = 10000\<rparr>"

definition demo_missed :: AppHookDelivery where
  "demo_missed = \<lparr>de_id = 5, de_guid = ''g'', de_at = 990000\<rparr>"

definition demo_opened :: GapHealCursor where
  "demo_opened = start_fresh demo_gap 1000000 ''t'' (new_gap_row 1000000)"

definition demo_gap_start :: gap_sys where
  "demo_gap_start = gap_start\<lparr>gs_world := (gs_world gap_start)\<lparr>gw_row := Some demo_opened\<rparr>,
     gs_runs := (gs_runs gap_start)(0 \<mapsto> new_run ''t'' demo_opened), gs_window := Suc (gs_window gap_start),
     gs_runWindow := (gs_runWindow gap_start)(0 := Suc (gs_window gap_start)), gs_history := [],
     gs_boundary := gh_boundaryDeliveryID (hr_state (new_run ''t'' demo_opened))\<rparr>"

definition demo_move :: "gap_io \<Rightarrow> gap_sys \<Rightarrow> gap_sys" where
  "demo_move io s =
     (case gs_runs s 0 of
        None \<Rightarrow> s
      | Some r \<Rightarrow>
          (case heal_step demo_gap True 1000000 io r (gs_world s) of
             (r', w') \<Rightarrow> s\<lparr>gs_world := w', gs_runs := (gs_runs s)(0 \<mapsto> r'), gs_history := track r r' (gs_history s)\<rparr>))"

definition demo_gap_done :: gap_sys where
  "demo_gap_done = demo_move Commit (demo_move (Requested (\<lambda>_. None)) (demo_move (Listed [demo_missed] []) demo_gap_start))"

definition demo_gap_row :: GapHealCursor where
  "demo_gap_row = the (gw_row (gs_world demo_gap_done))"

lemma demo_gap_start_reachable: "gap_reachable demo_gap demo_gap_start"
proof -
  have start: "begin_heal demo_gap True 1000000 [] \<lparr>ga_installation = 1, ga_cursor = [], ga_leaseToken = ''t''\<rparr> (gs_world gap_start) =
      (Inr (new_run ''t'' demo_opened), (gs_world gap_start)\<lparr>gw_row := Some demo_opened\<rparr>)"
    by (simp add: begin_heal_def loadOrStartGapWindow_def open_window_def EnsureGapHealCursor_def gap_start_def demo_opened_def
        demo_gap_def new_gap_row_def Let_def)
  have opened: "\<not> resumes demo_gap 1000000 (EnsureGapHealCursor 1000000 (gw_row (gs_world gap_start)))"
    by (simp add: resumes_def EnsureGapHealCursor_def gap_start_def new_gap_row_def)
  have free: "token_free (hr_token (new_run ''t'' demo_opened)) (Suc (gs_window gap_start)) gap_start"
    by (simp add: token_free_def gap_start_def)
  have "gs_runs gap_start 0 = None" by (simp add: gap_start_def)
  from gap_next [OF gap_initial run_opens [OF this start opened free]] show ?thesis unfolding demo_gap_start_def .
qed

lemma demo_move_reachable: "gap_reachable demo_gap s \<Longrightarrow> gap_reachable demo_gap (demo_move io s)"
  unfolding demo_move_def
  by (auto simp del: heal_step.simps split: option.split prod.split intro: gap_next run_moves)

lemma demo_gap_done_reachable: "gap_reachable demo_gap demo_gap_done"
  unfolding demo_gap_done_def by (intro demo_move_reachable demo_gap_start_reachable)

lemma demo_gap_done_state:
  "gw_row (gs_world demo_gap_done) = Some demo_gap_row" "gh_completedAt demo_gap_row \<noteq> None"
  "gh_scanMode demo_gap_row = gapScanDeep" "eligible (gh_cutoff demo_gap_row) demo_missed"
  "map vi_deliveries (gs_history demo_gap_done) = [[demo_missed]]"
  by code_simp+

section \<open>Completed passes\<close>

text \<open>C18: However runs of the gap healer interleave, fail, lose their lease and resume, when the row of an
  installation says that a pass is complete then its committed pages lead from the newest page
  on by their cursors, every delivery on them that is not older than the cutoff and has a GUID
  and an ID was received or its redelivery was requested, and the last page may end a pass: the
  list ended there, or all of the page is older than the cutoff, or the pass was incremental and
  the page holds the root delivery of the last completed pass.\<close>

theorem completed_pass_handled_its_pages:
  assumes "gap_reachable c s" and "gw_row (gs_world s) = Some R" and "gh_completedAt R \<noteq> None"
  shows "\<exists>vs v. gs_history s = vs @ [v] \<and> chain [] vs (vi_cursor v) \<and> last_page R (gs_boundary s) v \<and>
    (\<forall>u \<in> set (gs_history s). \<forall>d \<in> set (vi_deliveries u). eligible (gh_cutoff R) d \<longrightarrow>
       de_guid d \<in> set (gw_received (gs_world s)) \<union> snd ` set (gw_requested (gs_world s)))"
  using gap_inv_window [OF gap_reachable_inv [OF assms(1)] assms(2)] assms(3)
  unfolding window_ok_def covers_page_def handled_def by auto

theorem completed_pass_handled_its_pages_witness:
  "gap_reachable demo_gap demo_gap_done \<and>
   (\<exists>vs v. gs_history demo_gap_done = vs @ [v] \<and> chain [] vs (vi_cursor v) \<and>
      last_page demo_gap_row (gs_boundary demo_gap_done) v)"
  using demo_gap_done_reachable
    completed_pass_handled_its_pages [OF demo_gap_done_reachable demo_gap_done_state(1,2)] by blast

text \<open>C19: A completed deep pass leaves no gap: when GitHub's list is the committed pages followed by what
  was not listed, newest first, then every delivery of the list that is not older than the cutoff
  was received or its redelivery was requested, also those that were not listed.\<close>

theorem completed_deep_pass_leaves_no_gap:
  assumes reach: "gap_reachable c s" and row: "gw_row (gs_world s) = Some R" "gh_completedAt R \<noteq> None"
    and deep: "gh_scanMode R = gapScanDeep"
    and listing: "listing = concat (map vi_deliveries (gs_history s)) @ rest"
    and newest_first: "sorted_wrt (\<lambda>a b. de_at b \<le> de_at a) listing"
    and ended: "vi_next (last (gs_history s)) = [] \<longrightarrow> rest = []"
    and d: "d \<in> set listing" "eligible (gh_cutoff R) d"
  shows "de_guid d \<in> set (gw_received (gs_world s)) \<union> snd ` set (gw_requested (gs_world s))"
proof -
  have ok: "window_ok (handled (gs_world s)) (gs_history s) (gs_boundary s) R"
    by (rule gap_inv_window [OF gap_reachable_inv [OF reach] row(1)])
  then obtain vs v where hist: "gs_history s = vs @ [v]" and last: "last_page R (gs_boundary s) v"
    using row(2) by (auto simp: window_ok_def)
  have "d \<in> set (concat (map vi_deliveries (gs_history s)))"
  proof (rule ccontr)
    assume "d \<notin> set (concat (map vi_deliveries (gs_history s)))"
    with d(1) listing have rest: "d \<in> set rest" by auto
    with ended hist have "vi_next v \<noteq> []" by auto
    with last deep obtain t e where t: "gh_cutoff R = Some t" "e \<in> set (vi_deliveries v)" "de_at e < t"
      by (cases "vi_deliveries v") (auto simp: last_page_def gapScanDeep_def gapScanIncrement_def)
    from newest_first listing have "\<forall>a \<in> set (concat (map vi_deliveries (gs_history s))). \<forall>b \<in> set rest. de_at b \<le> de_at a"
      by (simp add: sorted_wrt_append)
    moreover have "e \<in> set (concat (map vi_deliveries (gs_history s)))" using t(2) hist by auto
    ultimately have "de_at d \<le> de_at e" using rest by blast
    with t d(2) show False by (simp add: eligible_def)
  qed
  then obtain u where "u \<in> set (gs_history s)" "d \<in> set (vi_deliveries u)" by auto
  with ok d(2) show ?thesis unfolding window_ok_def covers_page_def handled_def by blast
qed

theorem completed_deep_pass_leaves_no_gap_witness:
  "gap_reachable demo_gap demo_gap_done \<and>
   ''g'' \<in> set (gw_received (gs_world demo_gap_done)) \<union> snd ` set (gw_requested (gs_world demo_gap_done))"
proof -
  have "de_guid demo_missed \<in> set (gw_received (gs_world demo_gap_done)) \<union> snd ` set (gw_requested (gs_world demo_gap_done))"
    by (rule completed_deep_pass_leaves_no_gap [OF demo_gap_done_reachable demo_gap_done_state(1,2,3) refl, of "[]"])
       (simp_all add: demo_gap_done_state)
  then show ?thesis using demo_gap_done_reachable by (simp add: demo_missed_def)
qed

section \<open>Leases\<close>

text \<open>A run whose token is not the one in the row, or whose pass is complete, changes nothing in the
  database with its restart, advance, completion or renewal: each reports the lost lease, and the
  job then ends without a retry.\<close>

theorem stale_run_changes_nothing:
  assumes "gw_row w = Some R" and "\<not> holds_pass (hr_token r) R"
  shows "restartGapWindow c now (hr_token r) expected w =
      (Inl (ErrWrap ''restart invalid delivery-gap cursor'' [ErrGapHealLeaseLost]), w) \<and>
    advanceGapWindow c hasClient now (hr_token r) expected nx high b schedule w =
      (Some (ErrWrap ''advance delivery-gap cursor'' [ErrGapHealLeaseLost]), w) \<and>
    completeGapWindow now (hr_token r) expected high b w =
      (Some (ErrWrap ''complete delivery-gap cursor'' [ErrGapHealLeaseLost]), w) \<and>
    maintainGapLease c now None r w = (r\<lparr>hr_cause := Some ErrGapHealLeaseLost\<rparr>, w) \<and>
    gapHealWorker_Work (Some (ErrWrap ''advance delivery-gap cursor'' [ErrGapHealLeaseLost])) = None"
  using assms
  by (simp add: restartGapWindow_def advanceGapWindow_def completeGapWindow_def maintainGapLease_def
      RestartGapHealCursor_def AdvanceGapHealCursor_def CompleteGapHealCursor_def RenewGapHealLease_def
      gapHealWorker_Work_def)

theorem stale_run_changes_nothing_witness:
  "completeGapWindow 0 ''t'' [] None 0 (gs_world demo_gap_done) =
     (Some (ErrWrap ''complete delivery-gap cursor'' [ErrGapHealLeaseLost]), gs_world demo_gap_done)"
proof -
  have "\<not> holds_pass (hr_token (new_run ''t'' demo_opened)) demo_gap_row"
    using demo_gap_done_state(2) by (simp add: holds_pass_def)
  from stale_run_changes_nothing [OF demo_gap_done_state(1) this] show ?thesis
    by (simp add: new_run_def adopt_state_def)
qed

section \<open>Runs end\<close>

text \<open>How many calls a run still makes at most.\<close>

definition calls_left :: "gap_config \<Rightarrow> heal_run \<Rightarrow> nat" where
  "calls_left c r =
     (let pages = nat (gf_maxPages c - hr_pageNumber r); restart = (if hr_restarted r then 0 else 1) in
      case hr_phase r of
        Listing \<Rightarrow> 3 * pages + restart
      | Redelivering p \<Rightarrow> 3 * pages + 2 + restart
      | Finishing p \<Rightarrow> 3 * pages + 1 + restart
      | Returned e \<Rightarrow> 0)"

definition listing_bound :: "gap_config \<Rightarrow> heal_run \<Rightarrow> bool" where
  "listing_bound c r \<longleftrightarrow> (hr_phase r = Listing \<longrightarrow> hr_pageNumber r < gf_maxPages c)"

lemma heal_step_decreases:
  assumes "heal_step c hasClient now (next_io (hr_phase r) env) r w = (r', w')" and "listing_bound c r" and "active r"
  shows "calls_left c r' < calls_left c r \<and> listing_bound c r'"
proof (cases "hr_phase r")
  case Listing
  show ?thesis
  proof (cases "ce_listing env")
    case (Inl e)
    with assms Listing show ?thesis
      by (auto simp: next_io_def on_list_failed_def restartGapWindow_def adopt_state_def calls_left_def listing_bound_def
          split: if_splits option.splits)
  next
    case (Inr p)
    with assms Listing show ?thesis
      by (auto simp: next_io_def on_listed_def calls_left_def listing_bound_def Let_def split: prod.splits)
  qed
next
  case (Redelivering p)
  obtain e w2 where "redeliverMissing (ce_reply env) (pr_candidates p) w = (e, w2)" by fastforce
  with assms Redelivering show ?thesis
    by (cases e) (auto simp: next_io_def calls_left_def listing_bound_def Let_def)
next
  case (Finishing p)
  have step: "on_commit c hasClient now p r w = (r', w')" using assms(1) Finishing by (simp add: next_io_def)
  obtain e w2 where adv: "advanceGapWindow c hasClient now (hr_token r) (hr_cursor r) (pr_next p) (hr_observedHigh r)
      (hr_observedBoundary r) (hr_pageNumber r = gf_maxPages c) w = (e, w2)" by fastforce
  show ?thesis
  proof (cases "finishes_pass p")
    case True
    with step Finishing show ?thesis
      by (auto simp: on_commit_def calls_left_def listing_bound_def Let_def split: prod.splits)
  next
    case False
    with step Finishing adv show ?thesis
      by (cases e) (auto simp: on_commit_def calls_left_def listing_bound_def Let_def split: if_splits)
  qed
next
  case (Returned e)
  with assms(3) show ?thesis by (simp add: active_phase)
qed

lemma returned_stays:
  "hr_phase r = Returned e \<Longrightarrow> returned (fst (heal_loop c hasClient envs r w)) = Some e"
proof (induction envs arbitrary: w)
  case Nil
  then show ?case by (simp add: returned_def)
next
  case (Cons env envs)
  then show ?case by (simp add: next_io_def)
qed

lemma heal_loop_returns:
  "calls_left c r \<le> length envs \<Longrightarrow> listing_bound c r \<Longrightarrow> returned (fst (heal_loop c hasClient envs r w)) \<noteq> None"
proof (induction envs arbitrary: r w)
  case Nil
  then show ?case
    by (auto simp: calls_left_def listing_bound_def returned_def Let_def split: gap_phase.splits)
next
  case (Cons env envs)
  show ?case
  proof (cases "active r")
    case True
    obtain r' w' where step: "heal_step c hasClient (ce_now env) (next_io (hr_phase r) env) r (ce_others env w) = (r', w')"
      by fastforce
    from heal_step_decreases [OF step Cons.prems(2) True] Cons.prems(1) have "calls_left c r' \<le> length envs" "listing_bound c r'"
      by simp_all
    from Cons.IH [OF this] step show ?thesis by (simp del: heal_step.simps)
  next
    case False
    then obtain e where "hr_phase r = Returned e" by (auto simp: active_phase)
    from returned_stays [OF this] show ?thesis by (simp del: heal_loop.simps)
  qed
qed

text \<open>C21: A run of \<open>HealDeliveryGaps\<close> returns after at most three calls per page and one restart,
  whatever GitHub lists or answers and whatever other runs do meanwhile; it then has its result.\<close>

theorem heal_run_returns:
  assumes "0 < gf_maxPages c" and "3 * nat (gf_maxPages c) + 1 \<le> length envs"
  shows "\<exists>e. fst (HealDeliveryGaps c hasDeliveries hasClient now fresh args envs w) = Some e"
proof (cases "begin_heal c hasDeliveries now fresh args w")
  case (Pair res w')
  show ?thesis
  proof (cases res)
    case (Inr r)
    have "hr_phase r = Listing" "hr_pageNumber r = 0" "\<not> hr_restarted r"
      using Pair Inr by (auto simp: begin_heal_def Let_def new_run_def adopt_state_def split: if_splits option.splits prod.splits)
    then have "calls_left c r \<le> length envs" "listing_bound c r"
      using assms by (simp_all add: calls_left_def listing_bound_def)
    from heal_loop_returns [OF this, of hasClient w'] Pair Inr show ?thesis
      by (auto simp: HealDeliveryGaps_def split: prod.split)
  qed (use Pair in \<open>simp add: HealDeliveryGaps_def\<close>)
qed

theorem heal_run_returns_witness:
  "0 < gf_maxPages demo_gap \<and> (\<exists>e. fst (HealDeliveryGaps demo_gap True True 0 ''t''
     \<lparr>ga_installation = 1, ga_cursor = [], ga_leaseToken = []\<rparr>
     (replicate 7 \<lparr>ce_others = (\<lambda>w. w), ce_now = 0, ce_listing = Inr ([demo_missed], ''c''), ce_reply = (\<lambda>_. None)\<rparr>)
     (gs_world gap_start)) = Some e)"
proof -
  have pages: "gf_maxPages demo_gap = 2" by (simp add: demo_gap_def)
  show ?thesis by (intro conjI heal_run_returns) (simp_all add: pages)
qed

section \<open>Cutoffs\<close>

text \<open>The cutoff of a deep pass lies within GitHub's retention, reaches back at least the configured
  lookback, and reaches back to the comparison window before the last deep start where the
  retention allows it.\<close>

lemma deep_cutoff_bounds:
  assumes "gap_config_valid c"
  shows "now - githubDeliveryRetention \<le> gapDeepCutoff c now R" "gapDeepCutoff c now R \<le> now - gapLookback c"
    "gh_lastDeepStartedAt R = Some t \<Longrightarrow> gapDeepCutoff c now R \<le> max (t - gf_window c) (now - githubDeliveryRetention)"
  using assms by (auto simp: gapDeepCutoff_def Let_def gapLookback_def gap_config_valid_def split: option.split)

text \<open>A deep pass that is over-age is started over, and the new cutoff is the comparison window before the
  start of the abandoned pass: what the abandoned pass had still to compare before that time is
  outside the new window, although it was never compared.\<close>

lemma abandoned_deep_pass_moves_cutoff:
  assumes valid: "gap_config_valid c" and started: "gh_startedAt R = Some t" "gh_completedAt R = None"
    and deep: "gh_lastDeepStartedAt R = Some t" and stale: "t < now - gapLookback c"
    and retained: "now - githubDeliveryRetention \<le> t - gf_window c"
    and lease: "gh_leaseToken R = None \<or> gh_leaseToken R = Some token"
  shows "\<exists>R'. open_window c now [] token R = Some R' \<and> gh_cutoff R' = Some (pg_timestamp (t - gf_window c))"
proof -
  have "gapDeepCutoff c now R = t - gf_window c"
    using deep stale retained valid by (simp add: gapDeepCutoff_def Let_def gapLookback_def gap_config_valid_def)
  then show ?thesis
    using started stale lease
    by (auto simp: open_window_def start_over_def StartGapHealCursor_def Let_def split: option.splits)
qed

section \<open>An invalid cursor\<close>

text \<open>C20: A run that already advanced the cursor and then gets the cursor it was given rejected by GitHub
  (status 422) cannot restart its pass: it compares the row with the cursor it started from, so
  although it holds the lease it reports a lost lease, leaves the rejected cursor in the row, and
  the job counts as done. The pass stays open until a later kickoff.\<close>

theorem invalid_cursor_after_advance_leaves_pass_open:
  assumes row: "gw_row w = Some R" and held: "holds_pass (hr_token r) R" and cursor: "gh_cursor R = hr_cursor r"
    and advanced: "gh_cursor (hr_state r) \<noteq> hr_cursor r" and later: "hr_cursor r \<noteq> []" "\<not> hr_restarted r"
    and phase: "hr_phase r = Listing"
  shows "heal_step c hasClient now (ListFailed (HTTPError 422)) r w =
      (r\<lparr>hr_phase := Returned (Some (ErrWrap ''restart invalid delivery-gap cursor'' [ErrGapHealLeaseLost]))\<rparr>, w) \<and>
    gapHealWorker_Work (Some (ErrWrap ''restart invalid delivery-gap cursor'' [ErrGapHealLeaseLost])) = None \<and>
    gh_completedAt R = None"
  using assms
  by (auto simp: on_list_failed_def isInvalidDeliveryCursor_def is_http_error_def restartGapWindow_def
      RestartGapHealCursor_def gapHealWorker_Work_def holds_pass_def)

definition demo_advanced :: "heal_run \<times> gap_world" where
  "demo_advanced =
     (let s = demo_move Commit (demo_move (Requested (\<lambda>_. None)) (demo_move (Listed [demo_missed] ''c'') demo_gap_start))
      in (the (gs_runs s 0), gs_world s))"

theorem invalid_cursor_after_advance_leaves_pass_open_witness:
  "snd (heal_step demo_gap True 0 (ListFailed (HTTPError 422)) (fst demo_advanced) (snd demo_advanced)) = snd demo_advanced"
proof -
  have "gw_row (snd demo_advanced) = Some (the (gw_row (snd demo_advanced)))"
    "holds_pass (hr_token (fst demo_advanced)) (the (gw_row (snd demo_advanced)))"
    "gh_cursor (the (gw_row (snd demo_advanced))) = hr_cursor (fst demo_advanced)"
    "gh_cursor (hr_state (fst demo_advanced)) \<noteq> hr_cursor (fst demo_advanced)"
    "hr_cursor (fst demo_advanced) \<noteq> []" "\<not> hr_restarted (fst demo_advanced)" "hr_phase (fst demo_advanced) = Listing"
    by code_simp+
  from invalid_cursor_after_advance_leaves_pass_open [OF this, of demo_gap True 0] show ?thesis
    by (simp del: heal_step.simps)
qed

text \<open>A restart keeps the mode of the pass, so an incremental pass goes on as an incremental one.\<close>

lemma restart_keeps_scan_mode:
  "gw_row w = Some R \<Longrightarrow> restartGapWindow c now token expected w = (Inr R', w') \<Longrightarrow> gh_scanMode R' = gh_scanMode R"
  by (auto simp: restartGapWindow_def RestartGapHealCursor_def split: if_splits)

end
