(* ===== verification/Owner_Sources.thy ===== *)
theory Owner_Sources
  imports Code_Owners
begin

text \<open>Where CODEOWNERS content comes from: \<open>FindCodeowners\<close> of \<open>internal/gh/rest.go\<close> probes three paths at
  a commit, and the \<open>SourceResolver\<close> of \<open>internal/changeinputs/source.go\<close> keeps one source per
  repository and ref, reuses it and the mirrored record while their commit matches, and lets one
  caller probe while the others wait. The replies of GitHub are a parameter, and so is the digest.
  Sizes count characters, so the size limit is exact for ASCII content.\<close>

section \<open>Sources\<close>

record CodeownersSource =
  cs_ref :: string
  cs_path :: string
  cs_content :: string
  cs_state :: string
  cs_etag :: string

record CodeownersSourceRecord =
  sr_ref :: string
  sr_sha :: string
  sr_path :: string
  sr_state :: string
  sr_content :: string
  sr_hash :: string
  sr_etag :: string

definition CodeownersPresent :: string where "CodeownersPresent = ''present''"
definition CodeownersMissing :: string where "CodeownersMissing = ''missing''"
definition CodeownersOversized :: string where "CodeownersOversized = ''oversized''"
definition CodeownersUnavailable :: string where "CodeownersUnavailable = ''unavailable''"

definition MaxCodeownersBytes :: nat where "MaxCodeownersBytes = 3 * 2 ^ 20"

definition no_source :: CodeownersSource where
  "no_source = \<lparr>cs_ref = [], cs_path = [], cs_content = [], cs_state = [], cs_etag = []\<rparr>"

section \<open>Probing GitHub\<close>

text \<open>A reply to a content request: status, validator, body and the error of reading the body, if any. A
  failed request has no reply.\<close>

record http_reply =
  ht_status :: int
  ht_etag :: string
  ht_body :: string
  ht_read :: "gerror option"

record content_result =
  cr_status :: int
  cr_etag :: string
  cr_notModified :: bool

text \<open>\<open>getRepositoryContent\<close>: the body, the metadata that is there unless the request failed, and the
  error.\<close>

definition getRepositoryContent ::
  "string \<Rightarrow> gerror + http_reply \<Rightarrow> string \<times> content_result option \<times> gerror option" where
  "getRepositoryContent etag reply =
     (case reply of
        Inl e \<Rightarrow> ([], None, Some e)
      | Inr h \<Rightarrow>
          let meta = \<lparr>cr_status = ht_status h,
                      cr_etag = (if ht_status h = 304 \<and> ht_etag h = [] then etag else ht_etag h),
                      cr_notModified = (ht_status h = 304)\<rparr> in
          if ht_status h = 304 then ([], Some meta, None)
          else if ht_status h < 200 \<or> 299 < ht_status h then ([], Some meta, Some (HTTPError (ht_status h)))
          else (case ht_read h of
                  Some e \<Rightarrow> ([], Some meta, Some (ErrWrap ''read repository content'' [e]))
                | None \<Rightarrow> (take (MaxCodeownersBytes + 1) (ht_body h), Some meta, None)))"

definition codeowners_paths :: "string list" where
  "codeowners_paths = [''.github/CODEOWNERS'', ''CODEOWNERS'', ''docs/CODEOWNERS'']"

text \<open>The loop over the paths; \<open>remote\<close> answers a request for a path with a validator.\<close>

fun probe_paths ::
  "(string \<Rightarrow> string \<Rightarrow> gerror + http_reply) \<Rightarrow> string \<Rightarrow> CodeownersSource option \<Rightarrow> string list \<Rightarrow> gerror + CodeownersSource" where
  "probe_paths remote ref prior [] =
     Inr \<lparr>cs_ref = ref, cs_path = [], cs_content = [], cs_state = CodeownersMissing, cs_etag = []\<rparr>"
| "probe_paths remote ref prior (path # paths) =
     (let etag = (case prior of Some p \<Rightarrow> if cs_path p = path then cs_etag p else [] | None \<Rightarrow> []) in
      case getRepositoryContent etag (remote path etag) of
        (body, response, err) \<Rightarrow>
          if (case response of Some m \<Rightarrow> cr_status m = 404 | None \<Rightarrow> False) then probe_paths remote ref prior paths
          else (case err of
                  Some e \<Rightarrow> Inl (ErrWrap ''fetch CODEOWNERS'' [e])
                | None \<Rightarrow>
                    (case response of
                       None \<Rightarrow> Inl (ErrText ''no response'')
                     | Some m \<Rightarrow>
                         if cr_notModified m then
                           (case prior of
                              None \<Rightarrow> Inl (ErrText ''304 without prior source'')
                            | Some p \<Rightarrow>
                                if cs_path p \<noteq> path \<or> (cs_state p \<noteq> CodeownersPresent \<and> cs_state p \<noteq> CodeownersOversized)
                                then Inl (ErrText ''304 without prior source'')
                                else Inr (p\<lparr>cs_ref := ref, cs_etag := cr_etag m\<rparr>))
                         else if MaxCodeownersBytes \<le> length body then
                           Inr \<lparr>cs_ref = ref, cs_path = path, cs_content = [], cs_state = CodeownersOversized, cs_etag = cr_etag m\<rparr>
                         else
                           Inr \<lparr>cs_ref = ref, cs_path = path, cs_content = body, cs_state = CodeownersPresent, cs_etag = cr_etag m\<rparr>)))"

definition FindCodeowners ::
  "(string \<Rightarrow> string \<Rightarrow> gerror + http_reply) \<Rightarrow> string \<Rightarrow> CodeownersSource option \<Rightarrow> gerror + CodeownersSource" where
  "FindCodeowners remote ref prior =
     (case prior of
        Some p \<Rightarrow>
          if cs_ref p = ref then
            (if cs_state p = CodeownersMissing then Inr p
             else probe_paths remote ref prior
                    (if cs_path p \<in> set codeowners_paths then dropWhile (\<lambda>q. q \<noteq> cs_path p) codeowners_paths
                     else codeowners_paths))
          else probe_paths remote ref prior codeowners_paths
      | None \<Rightarrow> probe_paths remote ref prior codeowners_paths)"

section \<open>Mirrored records\<close>

definition sourceHash :: "(string \<Rightarrow> string) \<Rightarrow> CodeownersSource \<Rightarrow> string" where
  "sourceHash digest src = digest (cs_state src @ [CHR 0x00] @ cs_path src @ [CHR 0x00] @ cs_content src)"

definition sourceFromRecord :: "CodeownersSourceRecord option \<Rightarrow> CodeownersSource" where
  "sourceFromRecord rec =
     (case rec of
        None \<Rightarrow> no_source
      | Some r \<Rightarrow> \<lparr>cs_ref = sr_sha r, cs_path = sr_path r, cs_content = sr_content r, cs_state = sr_state r, cs_etag = sr_etag r\<rparr>)"

definition codeownersPath :: "string \<Rightarrow> bool" where
  "codeownersPath path = (path = ''.github/CODEOWNERS'' \<or> path = ''CODEOWNERS'' \<or> path = ''docs/CODEOWNERS'')"

definition validPriorRecord :: "(string \<Rightarrow> string) \<Rightarrow> CodeownersSourceRecord option \<Rightarrow> string \<Rightarrow> bool" where
  "validPriorRecord digest rec ref =
     (case rec of
        None \<Rightarrow> False
      | Some r \<Rightarrow>
          if sr_ref r \<noteq> ref \<or> sr_sha r = [] then False
          else if sr_hash r = [] \<or> sr_hash r \<noteq> sourceHash digest (sourceFromRecord rec) then False
          else if sr_state r = CodeownersPresent then codeownersPath (sr_path r)
          else if sr_state r = CodeownersOversized then codeownersPath (sr_path r) \<and> sr_content r = []
          else if sr_state r = CodeownersMissing then sr_path r = [] \<and> sr_content r = []
          else False)"

definition validSourceRecord :: "(string \<Rightarrow> string) \<Rightarrow> CodeownersSourceRecord option \<Rightarrow> string \<Rightarrow> string \<Rightarrow> bool" where
  "validSourceRecord digest rec ref sha =
     (case rec of
        None \<Rightarrow> False
      | Some r \<Rightarrow> sr_ref r = ref \<and> sr_sha r = sha \<and> validPriorRecord digest rec ref)"

section \<open>The resolver\<close>

type_synonym sourceKey = "int \<times> string"

record sourceEntry =
  se_sha :: string
  se_source :: CodeownersSource
  se_fetching :: bool
  se_lastUsed :: nat

text \<open>The entries are listed in the order of an iteration over the map, which Go leaves open.\<close>

record SourceResolver =
  rs_entries :: "(sourceKey \<times> sourceEntry) list"
  rs_clock :: nat

definition maxSourceEntries :: nat where "maxSourceEntries = 1024"

definition NewSourceResolver :: SourceResolver where
  "NewSourceResolver = \<lparr>rs_entries = [], rs_clock = 0\<rparr>"

fun oldest_entry :: "(sourceKey \<times> sourceEntry) option \<Rightarrow> (sourceKey \<times> sourceEntry) list \<Rightarrow> (sourceKey \<times> sourceEntry) option" where
  "oldest_entry oldest [] = oldest"
| "oldest_entry oldest ((key, entry) # es) =
     (if se_fetching entry \<or> (case oldest of Some (k, old) \<Rightarrow> se_lastUsed old \<le> se_lastUsed entry | None \<Rightarrow> False)
      then oldest_entry oldest es
      else oldest_entry (Some (key, entry)) es)"

definition evictLocked :: "(sourceKey \<times> sourceEntry) list \<Rightarrow> (sourceKey \<times> sourceEntry) list" where
  "evictLocked es =
     (if length es < maxSourceEntries then es
      else case oldest_entry None es of
             None \<Rightarrow> es
           | Some (key, old) \<Rightarrow> filter (\<lambda>e. fst e \<noteq> key) es)"

definition new_entry :: sourceEntry where
  "new_entry = \<lparr>se_sha = [], se_source = no_source, se_fetching = False, se_lastUsed = 0\<rparr>"

definition put_entry :: "sourceKey \<Rightarrow> sourceEntry \<Rightarrow> (sourceKey \<times> sourceEntry) list \<Rightarrow> (sourceKey \<times> sourceEntry) list" where
  "put_entry key entry es = map (\<lambda>(k, e). if k = key then (k, entry) else (k, e)) es"

text \<open>A call of \<open>Resolve\<close> and the outcome of its first critical section.\<close>

record resolve_call =
  rc_repo :: int
  rc_owner :: string
  rc_name :: string
  rc_ref :: string
  rc_sha :: string
  rc_mirrored :: "CodeownersSourceRecord option"

datatype resolve_outcome =
    WaitReady
  | ReturnSource CodeownersSource
  | Probe "CodeownersSource option"

definition call_error :: "resolve_call \<Rightarrow> gerror option" where
  "call_error rc =
     (if rc_repo rc \<le> 0 \<or> rc_owner rc = [] \<or> rc_name rc = [] \<or> rc_sha rc = []
      then Some (ErrText ''CODEOWNERS resolver requires repository and SHA'') else None)"

definition call_key :: "resolve_call \<Rightarrow> sourceKey" where
  "call_key rc = (rc_repo rc, if rc_ref rc = [] then rc_sha rc else rc_ref rc)"

definition enter_resolve ::
  "(string \<Rightarrow> string) \<Rightarrow> resolve_call \<Rightarrow> SourceResolver \<Rightarrow> resolve_outcome \<times> SourceResolver" where
  "enter_resolve digest rc st =
     (let key = call_key rc;
          es = (case map_of (rs_entries st) key of
                  None \<Rightarrow> (key, new_entry) # evictLocked (rs_entries st)
                | Some _ \<Rightarrow> rs_entries st);
          clock = rs_clock st + 1;
          entry = (the (map_of es key))\<lparr>se_lastUsed := clock\<rparr>;
          commit = (\<lambda>e. \<lparr>rs_entries = put_entry key e es, rs_clock = clock\<rparr>) in
      if se_fetching entry then (WaitReady, commit entry)
      else if validSourceRecord digest (rc_mirrored rc) (rc_ref rc) (rc_sha rc) then
        (ReturnSource (sourceFromRecord (rc_mirrored rc)),
         commit (entry\<lparr>se_sha := rc_sha rc, se_source := sourceFromRecord (rc_mirrored rc)\<rparr>))
      else if se_sha entry = rc_sha rc then (ReturnSource (se_source entry), commit entry)
      else
        let prior = (if cs_state (se_source entry) = [] \<and> validPriorRecord digest (rc_mirrored rc) (rc_ref rc)
                     then sourceFromRecord (rc_mirrored rc) else se_source entry) in
        (Probe (if cs_state prior \<noteq> [] then Some prior else None), commit (entry\<lparr>se_fetching := True\<rparr>)))"

text \<open>The second critical section, after the probe.\<close>

definition leave_resolve ::
  "resolve_call \<Rightarrow> gerror + CodeownersSource \<Rightarrow> SourceResolver \<Rightarrow> (gerror + CodeownersSource) \<times> SourceResolver" where
  "leave_resolve rc result st =
     (let key = call_key rc;
          entry = (the (map_of (rs_entries st) key))\<lparr>se_fetching := False\<rparr> in
      case result of
        Inl e \<Rightarrow> (Inl (ErrWrap ''refresh CODEOWNERS source'' [e]), st\<lparr>rs_entries := put_entry key entry (rs_entries st)\<rparr>)
      | Inr src \<Rightarrow> (Inr src, st\<lparr>rs_entries := put_entry key (entry\<lparr>se_sha := rc_sha rc, se_source := src\<rparr>) (rs_entries st)\<rparr>))"

end
