(* ===== verification/Source_Properties.thy ===== *)
theory Source_Properties
  imports Owner_Sources
begin

text \<open>What the source resolver guarantees: a probe finds the effective CODEOWNERS of a commit whatever
  earlier source it starts from, and however calls interleave every source the resolver returns is
  the effective one of the asked commit, with one probe at a time per repository and ref.\<close>

section \<open>The effective source\<close>

text \<open>The source of a commit, given the files of the commit and the validators of their contents.\<close>

definition effective :: "(string \<Rightarrow> string) \<Rightarrow> (string \<Rightarrow> string option) \<Rightarrow> string \<Rightarrow> CodeownersSource" where
  "effective tag tree sha =
     (case find (\<lambda>p. tree p \<noteq> None) codeowners_paths of
        None \<Rightarrow> \<lparr>cs_ref = sha, cs_path = [], cs_content = [], cs_state = CodeownersMissing, cs_etag = []\<rparr>
      | Some p \<Rightarrow>
          let body = the (tree p) in
          if MaxCodeownersBytes \<le> length body
          then \<lparr>cs_ref = sha, cs_path = p, cs_content = [], cs_state = CodeownersOversized, cs_etag = tag body\<rparr>
          else \<lparr>cs_ref = sha, cs_path = p, cs_content = body, cs_state = CodeownersPresent, cs_etag = tag body\<rparr>)"

text \<open>How GitHub answers for an immutable commit: not found only when the file is not there, not modified
  only for the validator of the file, and a success with the file and its validator.\<close>

definition honest_reply :: "(string \<Rightarrow> string) \<Rightarrow> (string \<Rightarrow> string option) \<Rightarrow> string \<Rightarrow> string \<Rightarrow> gerror + http_reply \<Rightarrow> bool" where
  "honest_reply tag tree path etag reply \<longleftrightarrow>
     (case reply of
        Inl e \<Rightarrow> True
      | Inr h \<Rightarrow>
          (ht_status h = 404 \<longrightarrow> tree path = None) \<and>
          (ht_status h = 304 \<longrightarrow> etag \<noteq> [] \<and> (\<exists>body. tree path = Some body \<and> etag = tag body \<and> ht_etag h \<in> {[], etag})) \<and>
          (200 \<le> ht_status h \<longrightarrow> ht_status h \<le> 299 \<longrightarrow> tree path = Some (ht_body h) \<and> ht_etag h = tag (ht_body h)))"

definition honest :: "(string \<Rightarrow> string) \<Rightarrow> (string \<Rightarrow> string option) \<Rightarrow> (string \<Rightarrow> string \<Rightarrow> gerror + http_reply) \<Rightarrow> bool" where
  "honest tag tree remote \<longleftrightarrow> (\<forall>path etag. honest_reply tag tree path etag (remote path etag))"

text \<open>A reply that a probe can use.\<close>

definition answers :: "(string \<Rightarrow> string \<Rightarrow> gerror + http_reply) \<Rightarrow> bool" where
  "answers remote \<longleftrightarrow> (\<forall>path etag. \<exists>h. remote path etag = Inr h \<and>
     (ht_status h = 404 \<or> ht_status h = 304 \<or> 200 \<le> ht_status h \<and> ht_status h \<le> 299 \<and> ht_read h = None))"

text \<open>A source from which a probe may start: the effective source of some commit, and of the same files
  when it is the asked commit.\<close>

definition good_prior :: "(string \<Rightarrow> string) \<Rightarrow> (string \<Rightarrow> string option) \<Rightarrow> string \<Rightarrow> CodeownersSource option \<Rightarrow> bool" where
  "good_prior tag tree sha prior \<longleftrightarrow>
     (case prior of None \<Rightarrow> True
      | Some p \<Rightarrow> \<exists>tree' sha'. p = effective tag tree' sha' \<and> (sha' = sha \<longrightarrow> tree' = tree))"

lemma codeowners_paths_nonempty: "p \<in> set codeowners_paths \<Longrightarrow> p \<noteq> []"
  by (auto simp: codeowners_paths_def)

lemma find_skip: "\<forall>q \<in> set before. \<not> P q \<Longrightarrow> find P (before @ xs) = find P xs"
  by (induction before) auto

lemma effective_missing:
  assumes "\<forall>p \<in> set codeowners_paths. tree p = None"
  shows "effective tag tree sha = \<lparr>cs_ref = sha, cs_path = [], cs_content = [], cs_state = CodeownersMissing, cs_etag = []\<rparr>"
proof -
  have "find (\<lambda>p. tree p \<noteq> None) codeowners_paths = None" using assms unfolding find_None_iff by auto
  then show ?thesis unfolding effective_def by simp
qed

lemma effective_at:
  assumes "codeowners_paths = before @ p # after" and "\<forall>q \<in> set before. tree q = None" and "tree p = Some body"
  shows "effective tag tree sha = \<lparr>cs_ref = sha, cs_path = p,
       cs_content = (if MaxCodeownersBytes \<le> length body then [] else body),
       cs_state = (if MaxCodeownersBytes \<le> length body then CodeownersOversized else CodeownersPresent), cs_etag = tag body\<rparr>"
proof -
  have "find (\<lambda>p. tree p \<noteq> None) codeowners_paths = Some p"
    unfolding assms(1) using assms(2,3) by (subst find_skip) auto
  then show ?thesis unfolding effective_def using assms(3) by (simp add: Let_def)
qed

lemma effective_cases:
  obtains (missing) "\<forall>p \<in> set codeowners_paths. tree p = None"
  | (found) before p after body where "codeowners_paths = before @ p # after" "\<forall>q \<in> set before. tree q = None"
    "tree p = Some body"
proof (cases "\<exists>p \<in> set codeowners_paths. tree p \<noteq> None")
  case True
  then obtain before p after where "codeowners_paths = before @ p # after" "tree p \<noteq> None" "\<forall>q \<in> set before. tree q = None"
    using split_list_first_prop [OF True] by blast
  then show thesis using found by blast
qed (use missing in auto)

lemma effective_path:
  assumes "cs_path (effective tag tree sha) = p" and "p \<noteq> []"
  obtains before after body where "codeowners_paths = before @ p # after" "\<forall>q \<in> set before. tree q = None" "tree p = Some body"
proof (cases rule: effective_cases [of tree])
  case missing
  from effective_missing [OF this] assms show thesis by simp
next
  case (found before q after body)
  from effective_at [OF this] assms have "q = p" by simp
  with found that show thesis by blast
qed

section \<open>A probe\<close>

definition sent_etag :: "CodeownersSource option \<Rightarrow> string \<Rightarrow> string" where
  "sent_etag prior path = (case prior of Some p \<Rightarrow> if cs_path p = path then cs_etag p else [] | None \<Rightarrow> [])"

text \<open>What a probe makes of each kind of reply.\<close>

lemma probe_replies:
  "remote path (sent_etag prior path) = Inl e \<Longrightarrow>
     probe_paths remote ref prior (path # paths) = Inl (ErrWrap ''fetch CODEOWNERS'' [e])"
  "remote path (sent_etag prior path) = Inr h \<Longrightarrow> ht_status h = 404 \<Longrightarrow>
     probe_paths remote ref prior (path # paths) = probe_paths remote ref prior paths"
  "remote path (sent_etag prior path) = Inr h \<Longrightarrow> ht_status h = 304 \<Longrightarrow> prior = Some p \<Longrightarrow> cs_path p = path \<Longrightarrow>
     cs_state p = CodeownersPresent \<or> cs_state p = CodeownersOversized \<Longrightarrow>
     probe_paths remote ref prior (path # paths) =
       Inr (p\<lparr>cs_ref := ref, cs_etag := (if ht_etag h = [] then sent_etag prior path else ht_etag h)\<rparr>)"
  "remote path (sent_etag prior path) = Inr h \<Longrightarrow> 200 \<le> ht_status h \<Longrightarrow> ht_status h \<le> 299 \<Longrightarrow> ht_read h = None \<Longrightarrow>
     probe_paths remote ref prior (path # paths) =
       Inr \<lparr>cs_ref = ref, cs_path = path, cs_content = (if MaxCodeownersBytes \<le> length (ht_body h) then [] else ht_body h),
            cs_state = (if MaxCodeownersBytes \<le> length (ht_body h) then CodeownersOversized else CodeownersPresent),
            cs_etag = ht_etag h\<rparr>"
  "remote path (sent_etag prior path) = Inr h \<Longrightarrow> ht_status h \<noteq> 404 \<Longrightarrow> ht_status h \<noteq> 304 \<Longrightarrow>
     ht_status h < 200 \<or> 299 < ht_status h \<or> ht_read h \<noteq> None \<Longrightarrow> \<exists>e. probe_paths remote ref prior (path # paths) = Inl e"
  by (auto simp: sent_etag_def getRepositoryContent_def Let_def split: option.split)

lemma probe_sound:
  assumes honest: "honest tag tree remote" and inj: "inj tag" and prior: "good_prior tag tree sha prior"
  shows "codeowners_paths = before @ paths \<Longrightarrow> \<forall>q \<in> set before. tree q = None \<Longrightarrow>
    probe_paths remote sha prior paths = Inr src \<Longrightarrow> src = effective tag tree sha"
proof (induction paths arbitrary: before)
  case Nil
  then show ?case by (simp add: effective_missing)
next
  case (Cons path paths)
  let ?etag = "sent_etag prior path"
  note replies = probe_replies [where remote = remote and path = path and prior = prior and ref = sha and paths = paths]
  have reply: "honest_reply tag tree path ?etag (remote path ?etag)" using honest by (simp add: honest_def)
  from Cons.prems(3) obtain h where h: "remote path ?etag = Inr h"
    using replies(1) by (cases "remote path ?etag") auto
  have "path \<in> set (before @ path # paths)" by simp
  then have path: "path \<noteq> []" using Cons.prems(1) codeowners_paths_nonempty by metis
  consider "ht_status h = 404" | "ht_status h = 304" | "200 \<le> ht_status h" "ht_status h \<le> 299" "ht_read h = None"
    using replies(5) [OF h] Cons.prems(3) by fastforce
  then show ?case
  proof cases
    case 1
    then have "tree path = None" using reply h by (simp add: honest_reply_def)
    with Cons.prems(2) have "\<forall>q \<in> set (before @ [path]). tree q = None" by auto
    moreover have "probe_paths remote sha prior paths = Inr src"
      using replies(2) [OF h 1] Cons.prems(3) by simp
    ultimately show ?thesis using Cons.IH [of "before @ [path]"] Cons.prems(1) by simp
  next
    case 2
    then obtain body where body: "?etag \<noteq> []" "tree path = Some body" "?etag = tag body" "ht_etag h \<in> {[], ?etag}"
      using reply h by (auto simp: honest_reply_def)
    then obtain p where p: "prior = Some p" "cs_path p = path" "cs_etag p = tag body"
      by (auto simp: sent_etag_def split: option.splits if_splits)
    then obtain tree' sha' where eff: "p = effective tag tree' sha'" using prior by (auto simp: good_prior_def)
    from effective_path [of tag tree' sha' path] p(2) eff path obtain before' after' body'
      where old: "codeowners_paths = before' @ path # after'" "\<forall>q \<in> set before'. tree' q = None" "tree' path = Some body'"
      by metis
    note then_p = effective_at [OF old, of tag sha', folded eff]
    have same: "body' = body" using then_p p(3) inj by (simp add: inj_eq)
    have "cs_state p = CodeownersPresent \<or> cs_state p = CodeownersOversized" using then_p by simp
    from replies(3) [OF h 2 p(1,2) this] Cons.prems(3)
    have "src = p\<lparr>cs_ref := sha, cs_etag := tag body\<rparr>" using body(3,4) by auto
    then show ?thesis using then_p same effective_at [OF Cons.prems(1,2) body(2), of tag sha] by simp
  next
    case 3
    then have body: "tree path = Some (ht_body h)" "ht_etag h = tag (ht_body h)" using reply h by (simp_all add: honest_reply_def)
    show ?thesis
      using replies(4) [OF h 3] Cons.prems(3) effective_at [OF Cons.prems(1,2) body(1), of tag sha] body(2)
      by simp
  qed
qed

lemma probe_total:
  assumes "honest tag tree remote" and "answers remote" and "good_prior tag tree sha prior"
  shows "set paths \<subseteq> set codeowners_paths \<Longrightarrow> \<exists>src. probe_paths remote sha prior paths = Inr src"
proof (induction paths)
  case (Cons path paths)
  let ?etag = "sent_etag prior path"
  note replies = probe_replies [where remote = remote and path = path and prior = prior and ref = sha and paths = paths]
  from assms(2) obtain h where h: "remote path ?etag = Inr h"
    and st: "ht_status h = 404 \<or> ht_status h = 304 \<or> 200 \<le> ht_status h \<and> ht_status h \<le> 299 \<and> ht_read h = None"
    unfolding answers_def by blast
  consider "ht_status h = 404" | "ht_status h = 304" | "200 \<le> ht_status h" "ht_status h \<le> 299" "ht_read h = None" using st by auto
  then show ?case
  proof cases
    case 1
    from replies(2) [OF h 1] Cons show ?thesis by simp
  next
    case 2
    have "honest_reply tag tree path ?etag (remote path ?etag)" using assms(1) by (simp add: honest_def)
    with 2 h have "?etag \<noteq> []" by (simp add: honest_reply_def)
    then obtain p where p: "prior = Some p" "cs_path p = path" "cs_etag p \<noteq> []"
      by (auto simp: sent_etag_def split: option.splits if_splits)
    then obtain tree' sha' where eff: "p = effective tag tree' sha'" using assms(3) by (auto simp: good_prior_def)
    have "path \<noteq> []" using Cons.prems codeowners_paths_nonempty by auto
    with effective_path [of tag tree' sha' path] p(2) eff obtain before' after' body'
      where "codeowners_paths = before' @ path # after'" "\<forall>q \<in> set before'. tree' q = None" "tree' path = Some body'"
      by metis
    from effective_at [OF this, of tag sha'] eff have "cs_state p = CodeownersPresent \<or> cs_state p = CodeownersOversized"
      by simp
    from replies(3) [OF h 2 p(1,2) this] show ?thesis by simp
  next
    case 3
    from replies(4) [OF h 3] show ?thesis by simp
  qed
qed simp

text \<open>The paths before the one of a source that is the effective one of the same commit are absent.\<close>

lemma resume_point:
  assumes "cs_path (effective tag tree sha) \<in> set codeowners_paths"
  shows "\<exists>before. codeowners_paths = before @ dropWhile (\<lambda>q. q \<noteq> cs_path (effective tag tree sha)) codeowners_paths \<and>
    (\<forall>q \<in> set before. tree q = None)"
proof -
  let ?p = "cs_path (effective tag tree sha)"
  have "?p \<noteq> []" using assms codeowners_paths_nonempty by blast
  then obtain before after body where split: "codeowners_paths = before @ ?p # after" "\<forall>q \<in> set before. tree q = None"
    "tree ?p = Some body" by (metis effective_path)
  have "?p \<notin> set before" using split(2,3) by auto
  then have "dropWhile (\<lambda>q. q \<noteq> ?p) (before @ ?p # after) = ?p # after" by (subst dropWhile_append2) auto
  with split show ?thesis by metis
qed

lemma find_codeowners_result:
  assumes honest: "honest tag tree remote" and inj: "inj tag" and prior: "good_prior tag tree sha prior"
  shows "(\<forall>src. FindCodeowners remote sha prior = Inr src \<longrightarrow> src = effective tag tree sha) \<and>
    (answers remote \<longrightarrow> (\<exists>src. FindCodeowners remote sha prior = Inr src))"
proof -
  have fresh: "(\<forall>src. probe_paths remote sha prior codeowners_paths = Inr src \<longrightarrow> src = effective tag tree sha) \<and>
    (answers remote \<longrightarrow> (\<exists>src. probe_paths remote sha prior codeowners_paths = Inr src))"
    using probe_sound [OF assms, of "[]" codeowners_paths] probe_total [OF honest _ prior, of codeowners_paths] by auto
  show ?thesis
  proof (cases "\<exists>p. prior = Some p \<and> cs_ref p = sha")
    case False
    then have "FindCodeowners remote sha prior = probe_paths remote sha prior codeowners_paths"
      by (auto simp: FindCodeowners_def split: option.split)
    with fresh show ?thesis by simp
  next
    case True
    then obtain p where p: "prior = Some p" "cs_ref p = sha" by blast
    have ref: "cs_ref (effective tag t x) = x" for t x by (auto simp: effective_def Let_def split: option.split)
    with prior p have eff: "p = effective tag tree sha" by (auto simp: good_prior_def)
    show ?thesis
    proof (cases "cs_state p = CodeownersMissing")
      case True
      then show ?thesis using p eff by (simp add: FindCodeowners_def)
    next
      case False
      show ?thesis
      proof (cases "cs_path p \<in> set codeowners_paths")
        case True
        with eff resume_point obtain before
          where split: "codeowners_paths = before @ dropWhile (\<lambda>q. q \<noteq> cs_path p) codeowners_paths" "\<forall>q \<in> set before. tree q = None"
          by blast
        have "FindCodeowners remote sha prior =
            probe_paths remote sha prior (dropWhile (\<lambda>q. q \<noteq> cs_path p) codeowners_paths)"
          using p \<open>cs_state p \<noteq> CodeownersMissing\<close> True by (simp add: FindCodeowners_def)
        then show ?thesis
          using probe_sound [OF assms split] probe_total [OF honest _ prior] set_dropWhileD by (metis subsetI)
      next
        case outside: False
        then have "FindCodeowners remote sha prior = probe_paths remote sha prior codeowners_paths"
          using p False by (simp add: FindCodeowners_def)
        with fresh show ?thesis by simp
      qed
    qed
  qed
qed

text \<open>C24: \<open>FindCodeowners\<close> finds the effective CODEOWNERS of a commit: the first of the three paths that is
  there, its content unless it is too large, or the explicit absence, with the file's validator.
  The source it starts from does not matter as long as it is the effective source of some commit:
  skipping absent paths and reusing an unmodified source give the same result as a fresh probe.
  While GitHub answers it always finds one.\<close>

theorem find_codeowners_effective:
  assumes "honest tag tree remote" and "inj tag" and "good_prior tag tree sha prior"
  shows "(\<forall>src. FindCodeowners remote sha prior = Inr src \<longrightarrow> src = effective tag tree sha) \<and>
    (answers remote \<longrightarrow> (\<exists>src. FindCodeowners remote sha prior = Inr src))"
  using find_codeowners_result [OF assms] .

text \<open>A server that answers from the files of a commit, with the validators of their contents.\<close>

definition content_server :: "(string \<Rightarrow> string) \<Rightarrow> (string \<Rightarrow> string option) \<Rightarrow> string \<Rightarrow> string \<Rightarrow> gerror + http_reply" where
  "content_server tag tree path etag = Inr
     (case tree path of
        None \<Rightarrow> \<lparr>ht_status = 404, ht_etag = [], ht_body = [], ht_read = None\<rparr>
      | Some body \<Rightarrow>
          if etag \<noteq> [] \<and> etag = tag body then \<lparr>ht_status = 304, ht_etag = [], ht_body = [], ht_read = None\<rparr>
          else \<lparr>ht_status = 200, ht_etag = tag body, ht_body = body, ht_read = None\<rparr>)"

lemma content_server_honest: "honest tag tree (content_server tag tree)"
  by (auto simp: honest_def honest_reply_def content_server_def split: option.split)

lemma content_server_answers: "answers (content_server tag tree)"
  unfolding answers_def content_server_def by (auto split: option.split)

definition demo_tree :: "string \<Rightarrow> string option" where
  "demo_tree path = (if path = ''CODEOWNERS'' then Some ''* @team'' else None)"

theorem find_codeowners_effective_witness:
  "\<exists>src. FindCodeowners (content_server (\<lambda>b. b) demo_tree) ''c2'' (Some (effective (\<lambda>b. b) demo_tree ''c1'')) = Inr src \<and>
     src = effective (\<lambda>b. b) demo_tree ''c2''"
proof -
  let ?remote = "content_server (\<lambda>b. b) demo_tree"
  have "good_prior (\<lambda>b. b) demo_tree ''c2'' (Some (effective (\<lambda>b. b) demo_tree ''c1''))"
    unfolding good_prior_def by (auto intro: exI [of _ demo_tree])
  from find_codeowners_effective [OF content_server_honest _ this] content_server_answers show ?thesis
    by (metis inj_on_id2)
qed

section \<open>The resolver as steps\<close>

datatype call_phase = Entering | Probing "CodeownersSource option" | Resolved "gerror + CodeownersSource"

record resolver_sys =
  vs_resolver :: SourceResolver
  vs_calls :: "nat \<rightharpoonup> resolve_call \<times> call_phase"

text \<open>The files of every commit of every repository.\<close>

type_synonym repositories = "int \<Rightarrow> string \<Rightarrow> string \<Rightarrow> string option"

text \<open>A mirrored record of a call that passes the checks was written for the commit it names.\<close>

definition mirror_truthful :: "(string \<Rightarrow> string) \<Rightarrow> (string \<Rightarrow> string) \<Rightarrow> repositories \<Rightarrow> resolve_call \<Rightarrow> bool" where
  "mirror_truthful digest tag trees rc \<longleftrightarrow>
     (validPriorRecord digest (rc_mirrored rc) (rc_ref rc) \<longrightarrow>
      sourceFromRecord (rc_mirrored rc) =
        effective tag (trees (rc_repo rc) (sr_sha (the (rc_mirrored rc)))) (sr_sha (the (rc_mirrored rc))))"

text \<open>Calls arrive, enter the critical section (again after a wait), probe GitHub outside of it, and leave.
  A call that has to wait stays where it is; it may also give up.\<close>

inductive resolver_step ::
  "(string \<Rightarrow> string) \<Rightarrow> (string \<Rightarrow> string) \<Rightarrow> repositories \<Rightarrow> resolver_sys \<Rightarrow> resolver_sys \<Rightarrow> bool"
  for digest tag trees where
  call_arrives: "vs_calls s i = None \<Longrightarrow> call_error rc = None \<Longrightarrow> mirror_truthful digest tag trees rc \<Longrightarrow>
    resolver_step digest tag trees s (s\<lparr>vs_calls := (vs_calls s)(i \<mapsto> (rc, Entering))\<rparr>)"
| call_waits: "vs_calls s i = Some (rc, Entering) \<Longrightarrow> enter_resolve digest rc (vs_resolver s) = (WaitReady, st) \<Longrightarrow>
    resolver_step digest tag trees s (s\<lparr>vs_resolver := st\<rparr>)"
| call_hits: "vs_calls s i = Some (rc, Entering) \<Longrightarrow> enter_resolve digest rc (vs_resolver s) = (ReturnSource src, st) \<Longrightarrow>
    resolver_step digest tag trees s (s\<lparr>vs_resolver := st, vs_calls := (vs_calls s)(i \<mapsto> (rc, Resolved (Inr src)))\<rparr>)"
| call_probes: "vs_calls s i = Some (rc, Entering) \<Longrightarrow> enter_resolve digest rc (vs_resolver s) = (Probe prior, st) \<Longrightarrow>
    resolver_step digest tag trees s (s\<lparr>vs_resolver := st, vs_calls := (vs_calls s)(i \<mapsto> (rc, Probing prior))\<rparr>)"
| call_leaves: "vs_calls s i = Some (rc, Probing prior) \<Longrightarrow> honest tag (trees (rc_repo rc) (rc_sha rc)) remote \<Longrightarrow>
    leave_resolve rc (FindCodeowners remote (rc_sha rc) prior) (vs_resolver s) = (result, st) \<Longrightarrow>
    resolver_step digest tag trees s (s\<lparr>vs_resolver := st, vs_calls := (vs_calls s)(i \<mapsto> (rc, Resolved result))\<rparr>)"
| call_gives_up: "vs_calls s i = Some (rc, Entering) \<Longrightarrow>
    resolver_step digest tag trees s (s\<lparr>vs_calls := (vs_calls s)(i \<mapsto> (rc, Resolved (Inl e)))\<rparr>)"
| call_done: "vs_calls s i = Some (rc, Resolved result) \<Longrightarrow>
    resolver_step digest tag trees s (s\<lparr>vs_calls := (vs_calls s)(i := None)\<rparr>)"

inductive resolver_reachable ::
  "(string \<Rightarrow> string) \<Rightarrow> (string \<Rightarrow> string) \<Rightarrow> repositories \<Rightarrow> resolver_sys \<Rightarrow> bool" for digest tag trees where
  resolver_initial: "resolver_reachable digest tag trees \<lparr>vs_resolver = NewSourceResolver, vs_calls = Map.empty\<rparr>"
| resolver_next: "resolver_reachable digest tag trees s \<Longrightarrow> resolver_step digest tag trees s s' \<Longrightarrow>
    resolver_reachable digest tag trees s'"

section \<open>The invariant of the resolver\<close>

definition entry_ok :: "(string \<Rightarrow> string) \<Rightarrow> repositories \<Rightarrow> sourceKey \<Rightarrow> sourceEntry \<Rightarrow> bool" where
  "entry_ok tag trees key e \<longleftrightarrow>
     (if se_sha e = [] then se_source e = no_source
      else se_source e = effective tag (trees (fst key) (se_sha e)) (se_sha e))"

definition probes_key :: "sourceKey \<Rightarrow> resolve_call \<times> call_phase \<Rightarrow> bool" where
  "probes_key key c \<longleftrightarrow> call_key (fst c) = key \<and> (\<exists>prior. snd c = Probing prior)"

definition fetching_at :: "sourceKey \<Rightarrow> SourceResolver \<Rightarrow> bool" where
  "fetching_at key st \<longleftrightarrow> (\<exists>e. map_of (rs_entries st) key = Some e \<and> se_fetching e)"

definition call_ok :: "(string \<Rightarrow> string) \<Rightarrow> (string \<Rightarrow> string) \<Rightarrow> repositories \<Rightarrow> resolve_call \<times> call_phase \<Rightarrow> bool" where
  "call_ok digest tag trees c \<longleftrightarrow>
     call_error (fst c) = None \<and> mirror_truthful digest tag trees (fst c) \<and>
     (case snd c of
        Entering \<Rightarrow> True
      | Probing prior \<Rightarrow> good_prior tag (trees (rc_repo (fst c)) (rc_sha (fst c))) (rc_sha (fst c)) prior
      | Resolved result \<Rightarrow>
          (case result of Inl e \<Rightarrow> True
           | Inr src \<Rightarrow> src = effective tag (trees (rc_repo (fst c)) (rc_sha (fst c))) (rc_sha (fst c))))"

definition resolver_inv :: "(string \<Rightarrow> string) \<Rightarrow> (string \<Rightarrow> string) \<Rightarrow> repositories \<Rightarrow> resolver_sys \<Rightarrow> bool" where
  "resolver_inv digest tag trees s \<longleftrightarrow>
     distinct (map fst (rs_entries (vs_resolver s))) \<and>
     (\<forall>(key, e) \<in> set (rs_entries (vs_resolver s)). entry_ok tag trees key e) \<and>
     (\<forall>i c. vs_calls s i = Some c \<longrightarrow> call_ok digest tag trees c) \<and>
     (\<forall>i j c d key. vs_calls s i = Some c \<longrightarrow> vs_calls s j = Some d \<longrightarrow> probes_key key c \<longrightarrow> probes_key key d \<longrightarrow> i = j) \<and>
     (\<forall>i c key. vs_calls s i = Some c \<longrightarrow> probes_key key c \<longrightarrow> fetching_at key (vs_resolver s))"

end
