(* ===== verification/Resolver_Properties.thy ===== *)
theory Resolver_Properties
  imports Source_Properties
begin

text \<open>Every step of the source resolver keeps its invariant; what the resolver returns, how often it
  probes and how many entries it keeps.\<close>

section \<open>Entries\<close>

lemma oldest_entry_member:
  "oldest_entry old es = Some (k, e) \<Longrightarrow> old = Some (k, e) \<or> (k, e) \<in> set es \<and> \<not> se_fetching e"
  by (induction old es rule: oldest_entry.induct) (auto split: if_splits)

lemma evict_keeps:
  assumes "distinct (map fst es)"
  shows "set (evictLocked es) \<subseteq> set es" "distinct (map fst (evictLocked es))"
    "map_of es key = Some e \<Longrightarrow> se_fetching e \<Longrightarrow> map_of (evictLocked es) key = Some e"
proof -
  show "set (evictLocked es) \<subseteq> set es" by (auto simp: evictLocked_def split: option.split)
  show d: "distinct (map fst (evictLocked es))"
    using assms by (simp add: evictLocked_def distinct_map_filter split: option.split)
  show "map_of (evictLocked es) key = Some e" if "map_of es key = Some e" "se_fetching e"
  proof -
    have "(key, e) \<in> set (evictLocked es)"
    proof (cases "oldest_entry None es")
      case None
      then show ?thesis using that(1) by (auto simp: evictLocked_def dest: map_of_SomeD)
    next
      case (Some kv)
      obtain k old where kv: "kv = (k, old)" by fastforce
      from Some kv oldest_entry_member have "(k, old) \<in> set es" "\<not> se_fetching old" by blast+
      with that assms have "k \<noteq> key" by (metis map_of_is_SomeI option.inject)
      then show ?thesis using that(1) Some kv by (auto simp: evictLocked_def dest: map_of_SomeD)
    qed
    then show ?thesis using d by (simp add: map_of_is_SomeI)
  qed
qed

lemma put_entry_keys [simp]: "map fst (put_entry key e es) = map fst es"
  by (auto simp: put_entry_def)

lemma put_entry_lookup: "map_of (put_entry key e es) k = (if k = key then map_option (\<lambda>_. e) (map_of es key) else map_of es k)"
  by (induction es) (auto simp: put_entry_def)

lemma put_entry_set: "(k, x) \<in> set (put_entry key e es) \<Longrightarrow> k = key \<and> x = e \<or> (k, x) \<in> set es"
  by (auto simp: put_entry_def split: if_splits)

text \<open>The entries a call sees: the entry of its key is there, perhaps new.\<close>

definition entered :: "sourceKey \<Rightarrow> (sourceKey \<times> sourceEntry) list \<Rightarrow> (sourceKey \<times> sourceEntry) list" where
  "entered key es = (case map_of es key of None \<Rightarrow> (key, new_entry) # evictLocked es | Some _ \<Rightarrow> es)"

lemma entered_facts:
  assumes d: "distinct (map fst es)" and ok: "\<forall>(k, e) \<in> set es. entry_ok tag trees k e"
  shows "distinct (map fst (entered key es))" "\<forall>(k, e) \<in> set (entered key es). entry_ok tag trees k e"
    "\<exists>e. map_of (entered key es) key = Some e \<and> entry_ok tag trees key e \<and> (se_fetching e \<longleftrightarrow> (\<exists>x. map_of es key = Some x \<and> se_fetching x))"
    "map_of es k = Some e \<Longrightarrow> se_fetching e \<Longrightarrow> map_of (entered key es) k = Some e"
proof -
  have new: "entry_ok tag trees k new_entry" "\<not> se_fetching new_entry" for k by (simp_all add: entry_ok_def new_entry_def)
  note evict = evict_keeps [OF d]
  have absent: "map_of es key = None \<Longrightarrow> key \<notin> fst ` set (evictLocked es)"
    using evict(1) by (auto simp: map_of_eq_None_iff)
  show "distinct (map fst (entered key es))" using d evict(2) absent by (auto simp: entered_def split: option.split)
  show "\<forall>(k, e) \<in> set (entered key es). entry_ok tag trees k e"
    using ok evict(1) new(1) by (auto simp: entered_def split: option.split)
  show "\<exists>e. map_of (entered key es) key = Some e \<and> entry_ok tag trees key e \<and> (se_fetching e \<longleftrightarrow> (\<exists>x. map_of es key = Some x \<and> se_fetching x))"
    using ok new by (auto simp: entered_def split: option.split dest: map_of_SomeD)
  show "map_of es k = Some e \<Longrightarrow> se_fetching e \<Longrightarrow> map_of (entered key es) k = Some e"
    using evict(3) by (auto simp: entered_def split: option.split)
qed

lemma enter_resolve_entered:
  "enter_resolve digest rc st =
     (let key = call_key rc;
          es = entered key (rs_entries st);
          clock = rs_clock st + 1;
          entry = (the (map_of es key))\<lparr>se_lastUsed := clock\<rparr>;
          commit = (\<lambda>e. \<lparr>rs_entries = put_entry key e es, rs_clock = clock\<rparr>) in
      if se_fetching entry then (WaitReady, commit entry)
      else if validSourceRecord digest (rc_mirrored rc) (rc_ref rc) (rc_sha rc) then
        (ReturnSource (sourceFromRecord (rc_mirrored rc)),
         commit (entry\<lparr>se_sha := rc_sha rc, se_source := sourceFromRecord (rc_mirrored rc)\<rparr>))
      else if se_sha entry = rc_sha rc then (ReturnSource (se_source entry), commit entry)
      else
        let prior = (if cs_state (se_source entry) = [] \<and> validPriorRecord digest (rc_mirrored rc) (rc_ref rc)
                     then sourceFromRecord (rc_mirrored rc) else se_source entry) in
        (Probe (if cs_state prior \<noteq> [] then Some prior else None), commit (entry\<lparr>se_fetching := True\<rparr>)))"
  unfolding enter_resolve_def entered_def by (simp only: Let_def)

lemma effective_state: "cs_state (effective tag tree sha) \<noteq> []"
  by (auto simp: effective_def Let_def CodeownersMissing_def CodeownersOversized_def CodeownersPresent_def split: option.split)

lemma good_prior_effective: "good_prior tag (T sha) sha (Some (effective tag (T at) at))"
  unfolding good_prior_def option.case by (intro exI [of _ "T at"] exI [of _ at]) simp

lemma valid_is_prior:
  "validSourceRecord digest r ref sha \<Longrightarrow> validPriorRecord digest r ref \<and> sr_sha (the r) = sha"
  by (auto simp: validSourceRecord_def split: option.splits)

text \<open>What the first critical section does to the entries and which outcome it has.\<close>

lemma enter_facts:
  assumes step: "enter_resolve digest rc st = (outcome, st')" and call: "call_error rc = None" "mirror_truthful digest tag trees rc"
    and d: "distinct (map fst (rs_entries st))" and ok: "\<forall>(k, e) \<in> set (rs_entries st). entry_ok tag trees k e"
  shows "\<exists>e. rs_entries st' = put_entry (call_key rc) e (entered (call_key rc) (rs_entries st)) \<and> entry_ok tag trees (call_key rc) e \<and>
    (case outcome of
       WaitReady \<Rightarrow> fetching_at (call_key rc) st \<and> se_fetching e
     | ReturnSource src \<Rightarrow> \<not> fetching_at (call_key rc) st \<and> \<not> se_fetching e \<and> src = effective tag (trees (rc_repo rc) (rc_sha rc)) (rc_sha rc)
     | Probe prior \<Rightarrow> \<not> fetching_at (call_key rc) st \<and> se_fetching e \<and>
         good_prior tag (trees (rc_repo rc) (rc_sha rc)) (rc_sha rc) prior)"
proof -
  let ?key = "call_key rc"
  obtain e where e: "map_of (entered ?key (rs_entries st)) ?key = Some e" "entry_ok tag trees ?key e"
    "se_fetching e \<longleftrightarrow> fetching_at ?key st"
    using entered_facts(3) [OF d ok, of ?key] unfolding fetching_at_def by blast
  have sha: "rc_sha rc \<noteq> []" and repo: "fst ?key = rc_repo rc"
    using call(1) by (auto simp: call_error_def call_key_def split: if_splits)
  have source: "se_sha e = [] \<longleftrightarrow> cs_state (se_source e) = []"
    using e(2) effective_state by (auto simp: entry_ok_def no_source_def split: if_splits)
  have mirror: "validPriorRecord digest (rc_mirrored rc) (rc_ref rc) \<Longrightarrow> sourceFromRecord (rc_mirrored rc) =
      effective tag (trees (rc_repo rc) (sr_sha (the (rc_mirrored rc)))) (sr_sha (the (rc_mirrored rc)))"
    using call(2) by (simp add: mirror_truthful_def)
  let ?n = "rs_clock st + 1"
  have ok': "entry_ok tag trees ?key (e\<lparr>se_lastUsed := ?n\<rparr>)" "entry_ok tag trees ?key (e\<lparr>se_lastUsed := ?n, se_fetching := True\<rparr>)"
    using e(2) by (simp_all add: entry_ok_def)
  consider "se_fetching e" | "\<not> se_fetching e" "validSourceRecord digest (rc_mirrored rc) (rc_ref rc) (rc_sha rc)"
    | "\<not> se_fetching e" "\<not> validSourceRecord digest (rc_mirrored rc) (rc_ref rc) (rc_sha rc)" "se_sha e = rc_sha rc"
    | "\<not> se_fetching e" "\<not> validSourceRecord digest (rc_mirrored rc) (rc_ref rc) (rc_sha rc)" "se_sha e \<noteq> rc_sha rc"
    by blast
  then show ?thesis
  proof cases
    case 1
    with step e(1) have "outcome = WaitReady" "rs_entries st' = put_entry ?key (e\<lparr>se_lastUsed := ?n\<rparr>) (entered ?key (rs_entries st))"
      by (auto simp: enter_resolve_entered Let_def)
    with 1 e(3) ok'(1) show ?thesis by (intro exI [of _ "e\<lparr>se_lastUsed := ?n\<rparr>"]) simp
  next
    case 2
    let ?e = "e\<lparr>se_lastUsed := ?n, se_sha := rc_sha rc, se_source := sourceFromRecord (rc_mirrored rc)\<rparr>"
    from 2 step e(1) have out: "outcome = ReturnSource (sourceFromRecord (rc_mirrored rc))"
      "rs_entries st' = put_entry ?key ?e (entered ?key (rs_entries st))"
      by (auto simp: enter_resolve_entered Let_def)
    have src: "sourceFromRecord (rc_mirrored rc) = effective tag (trees (rc_repo rc) (rc_sha rc)) (rc_sha rc)"
      using mirror valid_is_prior [OF 2(2)] by simp
    then have "entry_ok tag trees ?key ?e" using sha repo by (simp add: entry_ok_def)
    with 2 e(3) out src show ?thesis by (intro exI [of _ ?e]) simp
  next
    case 3
    with step e(1) have out: "outcome = ReturnSource (se_source e)"
      "rs_entries st' = put_entry ?key (e\<lparr>se_lastUsed := ?n\<rparr>) (entered ?key (rs_entries st))"
      by (auto simp: enter_resolve_entered Let_def)
    have "se_source e = effective tag (trees (rc_repo rc) (rc_sha rc)) (rc_sha rc)"
      using e(2) 3(3) sha repo by (simp add: entry_ok_def)
    with 3 e(3) out ok'(1) show ?thesis by (intro exI [of _ "e\<lparr>se_lastUsed := ?n\<rparr>"]) simp
  next
    case 4
    define prior where "prior = (if cs_state (se_source e) = [] \<and> validPriorRecord digest (rc_mirrored rc) (rc_ref rc)
        then sourceFromRecord (rc_mirrored rc) else se_source e)"
    from 4 step e(1) have out: "outcome = Probe (if cs_state prior \<noteq> [] then Some prior else None)"
      "rs_entries st' = put_entry ?key (e\<lparr>se_lastUsed := ?n, se_fetching := True\<rparr>) (entered ?key (rs_entries st))"
      by (auto simp: enter_resolve_entered Let_def prior_def)
    have "good_prior tag (trees (rc_repo rc) (rc_sha rc)) (rc_sha rc) (if cs_state prior \<noteq> [] then Some prior else None)"
    proof (cases "se_sha e = []")
      case True
      show ?thesis
      proof (cases "validPriorRecord digest (rc_mirrored rc) (rc_ref rc)")
        case valid: True
        let ?at = "sr_sha (the (rc_mirrored rc))"
        have "prior = effective tag (trees (rc_repo rc) ?at) ?at" using True source mirror valid by (simp add: prior_def)
        then show ?thesis using good_prior_effective [where T = "trees (rc_repo rc)"] effective_state by simp
      next
        case False
        then have "cs_state prior = []" using True source by (simp add: prior_def)
        then show ?thesis by (simp add: good_prior_def)
      qed
    next
      case False
      then have "prior = effective tag (trees (rc_repo rc) (se_sha e)) (se_sha e)"
        using source e(2) repo by (simp add: prior_def entry_ok_def)
      with 4(3) show ?thesis unfolding good_prior_def by auto
    qed
    with 4 e(3) out ok'(2) show ?thesis by (intro exI [of _ "e\<lparr>se_lastUsed := ?n, se_fetching := True\<rparr>"]) simp
  qed
qed

text \<open>A probe in flight at another key, or at this key while it waits, stays in flight.\<close>

lemma enter_fetching:
  assumes "rs_entries st' = put_entry key e (entered key (rs_entries st))" and "distinct (map fst (rs_entries st))"
    and "\<forall>(k, e) \<in> set (rs_entries st). entry_ok tag trees k e" and "fetching_at k st" and "k = key \<Longrightarrow> se_fetching e"
  shows "fetching_at k st'"
proof -
  from assms(4) obtain x where "map_of (rs_entries st) k = Some x" "se_fetching x" by (auto simp: fetching_at_def)
  from this entered_facts(4) [OF assms(2,3) this, where key = key] assms(5) show ?thesis
    unfolding fetching_at_def assms(1) put_entry_lookup by auto
qed

lemma enter_entries:
  assumes "rs_entries st' = put_entry key e (entered key (rs_entries st))" and "entry_ok tag trees key e"
    and "distinct (map fst (rs_entries st))" and "\<forall>(k, e) \<in> set (rs_entries st). entry_ok tag trees k e"
  shows "distinct (map fst (rs_entries st'))" "\<forall>(k, e) \<in> set (rs_entries st'). entry_ok tag trees k e"
    "se_fetching e \<Longrightarrow> fetching_at key st'"
proof -
  show "distinct (map fst (rs_entries st'))" using entered_facts(1) [OF assms(3,4)] assms(1) by simp
  show "\<forall>(k, e) \<in> set (rs_entries st'). entry_ok tag trees k e"
    using entered_facts(2) [OF assms(3,4), of key] assms(1,2) by (auto dest: put_entry_set)
  show "se_fetching e \<Longrightarrow> fetching_at key st'"
    using entered_facts(3) [OF assms(3,4), of key] unfolding fetching_at_def assms(1) put_entry_lookup by auto
qed

lemma leave_facts:
  assumes "leave_resolve rc result st = (out, st')" and "call_error rc = None" and "fetching_at (call_key rc) st"
    and "\<forall>(k, e) \<in> set (rs_entries st). entry_ok tag trees k e"
    and "\<forall>src. result = Inr src \<longrightarrow> src = effective tag (trees (rc_repo rc) (rc_sha rc)) (rc_sha rc)"
  shows "\<exists>e. rs_entries st' = put_entry (call_key rc) e (rs_entries st) \<and> entry_ok tag trees (call_key rc) e \<and> \<not> se_fetching e \<and>
    (\<forall>src. out = Inr src \<longrightarrow> src = effective tag (trees (rc_repo rc) (rc_sha rc)) (rc_sha rc))"
proof -
  let ?key = "call_key rc"
  from assms(3) obtain x where x: "map_of (rs_entries st) ?key = Some x" by (auto simp: fetching_at_def)
  have ok: "entry_ok tag trees ?key x" using assms(4) map_of_SomeD [OF x] by auto
  have sha: "rc_sha rc \<noteq> []" and repo: "fst ?key = rc_repo rc"
    using assms(2) by (auto simp: call_error_def call_key_def split: if_splits)
  show ?thesis
  proof (cases result)
    case (Inl err)
    with assms(1) x have "rs_entries st' = put_entry ?key (x\<lparr>se_fetching := False\<rparr>) (rs_entries st)" "isl out"
      by (auto simp: leave_resolve_def Let_def)
    then show ?thesis using ok by (intro exI [of _ "x\<lparr>se_fetching := False\<rparr>"]) (auto simp: entry_ok_def)
  next
    case (Inr src)
    let ?e = "x\<lparr>se_fetching := False, se_sha := rc_sha rc, se_source := src\<rparr>"
    from Inr assms(1) x have "rs_entries st' = put_entry ?key ?e (rs_entries st)" "out = Inr src"
      by (auto simp: leave_resolve_def Let_def)
    then show ?thesis using assms(5) Inr sha repo by (intro exI [of _ ?e]) (auto simp: entry_ok_def)
  qed
qed

section \<open>Steps keep the invariant\<close>

text \<open>A step that changes one call keeps the invariant when the entries stay sound, the probes of the other
  calls stay marked, and the changed call probes alone.\<close>

lemma change_call:
  assumes inv: "resolver_inv digest tag trees s"
    and entries: "distinct (map fst (rs_entries st))" "\<forall>(k, e) \<in> set (rs_entries st). entry_ok tag trees k e"
    and call: "call_ok digest tag trees c"
    and marked: "\<And>j d k. j \<noteq> i \<Longrightarrow> vs_calls s j = Some d \<Longrightarrow> probes_key k d \<Longrightarrow> fetching_at k st"
    and alone: "\<And>k. probes_key k c \<Longrightarrow> fetching_at k st \<and> (\<forall>j d. j \<noteq> i \<longrightarrow> vs_calls s j = Some d \<longrightarrow> \<not> probes_key k d)"
  shows "resolver_inv digest tag trees (s\<lparr>vs_resolver := st, vs_calls := (vs_calls s)(i \<mapsto> c)\<rparr>)"
proof -
  let ?calls = "(vs_calls s)(i \<mapsto> c)"
  have old: "\<And>j d. vs_calls s j = Some d \<Longrightarrow> call_ok digest tag trees d"
    "\<And>j k x y key. vs_calls s j = Some x \<Longrightarrow> vs_calls s k = Some y \<Longrightarrow> probes_key key x \<Longrightarrow> probes_key key y \<Longrightarrow> j = k"
    using inv unfolding resolver_inv_def by blast+
  have ok: "call_ok digest tag trees d" if "?calls j = Some d" for j d using that old(1) call by (cases "j = i") auto
  have unique: "j = k" if "?calls j = Some x" "?calls k = Some y" "probes_key key x" "probes_key key y" for j k x y key
    using that old(2) alone [of key] by (cases "j = i"; cases "k = i") auto
  have at: "fetching_at key st" if "?calls j = Some x" "probes_key key x" for j x key
    using that marked alone by (cases "j = i") auto
  have simps: "vs_resolver (s\<lparr>vs_resolver := st, vs_calls := ?calls\<rparr>) = st" "vs_calls (s\<lparr>vs_resolver := st, vs_calls := ?calls\<rparr>) = ?calls"
    by simp_all
  show ?thesis unfolding resolver_inv_def simps using entries ok unique at by blast
qed

lemma resolver_invD:
  assumes "resolver_inv digest tag trees s"
  shows "distinct (map fst (rs_entries (vs_resolver s)))"
    "\<forall>(k, e) \<in> set (rs_entries (vs_resolver s)). entry_ok tag trees k e"
    "vs_calls s i = Some c \<Longrightarrow> call_ok digest tag trees c"
    "vs_calls s i = Some c \<Longrightarrow> vs_calls s j = Some d \<Longrightarrow> probes_key k c \<Longrightarrow> probes_key k d \<Longrightarrow> i = j"
    "vs_calls s i = Some c \<Longrightarrow> probes_key k c \<Longrightarrow> fetching_at k (vs_resolver s)"
  using assms unfolding resolver_inv_def by blast+

lemma idle_call:
  assumes "call_ok digest tag trees c" and idle: "\<forall>k. \<not> probes_key k c" and inv: "resolver_inv digest tag trees s"
  shows "resolver_inv digest tag trees (s\<lparr>vs_calls := (vs_calls s)(i \<mapsto> c)\<rparr>)"
proof -
  note i = resolver_invD [OF inv]
  have "resolver_inv digest tag trees (s\<lparr>vs_resolver := vs_resolver s, vs_calls := (vs_calls s)(i \<mapsto> c)\<rparr>)"
    by (rule change_call [OF inv i(1,2) assms(1)]) (use i(5) idle in blast)+
  then show ?thesis by simp
qed

lemma probes_key_simps [simp]:
  "\<not> probes_key k (rc, Entering)" "\<not> probes_key k (rc, Resolved result)"
  "probes_key k (rc, Probing prior) \<longleftrightarrow> k = call_key rc"
  by (auto simp: probes_key_def)

lemma enter_keeps:
  assumes inv: "resolver_inv digest tag trees s" and call: "vs_calls s i = Some (rc, Entering)"
    and step: "enter_resolve digest rc (vs_resolver s) = (outcome, st)"
    and c: "c = (rc, case outcome of WaitReady \<Rightarrow> Entering | ReturnSource src \<Rightarrow> Resolved (Inr src) | Probe prior \<Rightarrow> Probing prior)"
  shows "resolver_inv digest tag trees (s\<lparr>vs_resolver := st, vs_calls := (vs_calls s)(i \<mapsto> c)\<rparr>)"
proof -
  note i = resolver_invD [OF inv]
  from i(3) [OF call] have rc: "call_error rc = None" "mirror_truthful digest tag trees rc" by (simp_all add: call_ok_def)
  let ?key = "call_key rc"
  from enter_facts [OF step rc i(1,2)] obtain e
    where e: "rs_entries st = put_entry ?key e (entered ?key (rs_entries (vs_resolver s)))" "entry_ok tag trees ?key e"
    and out: "case outcome of
       WaitReady \<Rightarrow> fetching_at ?key (vs_resolver s) \<and> se_fetching e
     | ReturnSource src \<Rightarrow> \<not> fetching_at ?key (vs_resolver s) \<and> \<not> se_fetching e \<and> src = effective tag (trees (rc_repo rc) (rc_sha rc)) (rc_sha rc)
     | Probe prior \<Rightarrow> \<not> fetching_at ?key (vs_resolver s) \<and> se_fetching e \<and>
         good_prior tag (trees (rc_repo rc) (rc_sha rc)) (rc_sha rc) prior" by blast
  note entries = enter_entries [OF e i(1,2)]
  have keep: "fetching_at k st" if "fetching_at k (vs_resolver s)" for k
    using enter_fetching [OF e(1) i(1,2) that] out that by (cases outcome) auto
  have alone: "\<not> fetching_at ?key (vs_resolver s) \<Longrightarrow> \<forall>j d. vs_calls s j = Some d \<longrightarrow> \<not> probes_key ?key d"
    using i(5) by blast
  show ?thesis
  proof (rule change_call [OF inv entries(1,2)])
    show "call_ok digest tag trees c" using rc out unfolding c call_ok_def by (cases outcome) auto
    show "fetching_at k st" if "j \<noteq> i" "vs_calls s j = Some d" "probes_key k d" for j d k
      using keep i(5) that(2,3) by blast
    show "fetching_at k st \<and> (\<forall>j d. j \<noteq> i \<longrightarrow> vs_calls s j = Some d \<longrightarrow> \<not> probes_key k d)" if "probes_key k c" for k
      using that out entries(3) alone unfolding c by (cases outcome) auto
  qed
qed

lemma leave_keeps:
  assumes inv: "resolver_inv digest tag trees s" and inj: "inj tag" and call: "vs_calls s i = Some (rc, Probing prior)"
    and honest: "honest tag (trees (rc_repo rc) (rc_sha rc)) remote"
    and step: "leave_resolve rc (FindCodeowners remote (rc_sha rc) prior) (vs_resolver s) = (result, st)"
  shows "resolver_inv digest tag trees (s\<lparr>vs_resolver := st, vs_calls := (vs_calls s)(i \<mapsto> (rc, Resolved result))\<rparr>)"
proof -
  note i = resolver_invD [OF inv]
  let ?key = "call_key rc"
  from i(3) [OF call] have rc: "call_error rc = None" "mirror_truthful digest tag trees rc"
    "good_prior tag (trees (rc_repo rc) (rc_sha rc)) (rc_sha rc) prior" by (simp_all add: call_ok_def)
  have mine: "fetching_at ?key (vs_resolver s)" using i(5) [OF call] by simp
  from leave_facts [OF step rc(1) mine i(2)] find_codeowners_result [OF honest inj rc(3)] obtain e
    where e: "rs_entries st = put_entry ?key e (rs_entries (vs_resolver s))" "entry_ok tag trees ?key e"
    and out: "\<forall>src. result = Inr src \<longrightarrow> src = effective tag (trees (rc_repo rc) (rc_sha rc)) (rc_sha rc)" by blast
  show ?thesis
  proof (rule change_call [OF inv])
    show "distinct (map fst (rs_entries st))" using e(1) i(1) by simp
    show "\<forall>(k, x) \<in> set (rs_entries st). entry_ok tag trees k x" using e i(2) by (auto dest: put_entry_set)
    show "call_ok digest tag trees (rc, Resolved result)" using rc out by (auto simp: call_ok_def split: sum.split)
    show "fetching_at k st" if "j \<noteq> i" "vs_calls s j = Some d" "probes_key k d" for j d k
    proof -
      have "k \<noteq> ?key" using i(4) [OF call that(2)] that by auto
      then show ?thesis using i(5) [OF that(2,3)] e(1) by (simp add: fetching_at_def put_entry_lookup)
    qed
  qed simp
qed

lemma resolver_step_inv:
  assumes "resolver_step digest tag trees s s'" and "inj tag" and "resolver_inv digest tag trees s"
  shows "resolver_inv digest tag trees s'"
  using assms(1)
proof cases
  case (call_arrives i rc)
  then show ?thesis using idle_call [OF _ _ assms(3), of "(rc, Entering)"] by (simp add: call_ok_def)
next
  case (call_waits i rc st)
  have same: "(vs_calls s)(i \<mapsto> (rc, Entering)) = vs_calls s" using call_waits(2) by auto
  from enter_keeps [OF assms(3) call_waits(2,3) refl] show ?thesis unfolding call_waits(1) by (simp add: same)
next
  case (call_hits i rc src st)
  from enter_keeps [OF assms(3) call_hits(2,3) refl] show ?thesis unfolding call_hits(1) by simp
next
  case (call_probes i rc prior st)
  from enter_keeps [OF assms(3) call_probes(2,3) refl] show ?thesis unfolding call_probes(1) by simp
next
  case (call_leaves i rc prior remote result st)
  from leave_keeps [OF assms(3,2) call_leaves(2,3,4)] show ?thesis unfolding call_leaves(1) .
next
  case (call_gives_up i rc e)
  then show ?thesis
    using idle_call [OF _ _ assms(3), of "(rc, Resolved (Inl e))"] resolver_invD(3) [OF assms(3) call_gives_up(2)]
    by (simp add: call_ok_def)
next
  case (call_done i rc result)
  then show ?thesis using assms(3) unfolding resolver_inv_def by (auto split: if_splits)
qed

lemma resolver_reachable_inv:
  "resolver_reachable digest tag trees s \<Longrightarrow> inj tag \<Longrightarrow> resolver_inv digest tag trees s"
proof (induction rule: resolver_reachable.induct)
  case resolver_initial
  then show ?case by (simp add: resolver_inv_def NewSourceResolver_def)
next
  case (resolver_next s s')
  then show ?case by (blast intro: resolver_step_inv)
qed

section \<open>Marks and probes\<close>

lemma entered_back:
  assumes "distinct (map fst es)" and "map_of (entered key es) k = Some e" and "k \<noteq> key"
  shows "map_of es k = Some e"
proof (cases "map_of es key")
  case None
  then have "(k, e) \<in> set (evictLocked es)" using assms(2,3) by (auto simp: entered_def dest: map_of_SomeD)
  then show ?thesis using evict_keeps(1) [OF assms(1)] assms(1) by (auto intro: map_of_is_SomeI)
qed (use assms in \<open>simp add: entered_def\<close>)

definition marked_by_probe :: "resolver_sys \<Rightarrow> bool" where
  "marked_by_probe s \<longleftrightarrow>
     (\<forall>key. fetching_at key (vs_resolver s) \<longrightarrow> (\<exists>i c. vs_calls s i = Some c \<and> probes_key key c))"

lemma change_call_marked:
  assumes "marked_by_probe s" and "\<And>k. fetching_at k st \<Longrightarrow> probes_key k c \<or> fetching_at k (vs_resolver s) \<and> (\<forall>d. vs_calls s i = Some d \<longrightarrow> \<not> probes_key k d)"
  shows "marked_by_probe (s\<lparr>vs_resolver := st, vs_calls := (vs_calls s)(i \<mapsto> c)\<rparr>)"
  unfolding marked_by_probe_def
proof (intro allI impI)
  fix key assume "fetching_at key (vs_resolver (s\<lparr>vs_resolver := st, vs_calls := (vs_calls s)(i \<mapsto> c)\<rparr>))"
  then have at: "fetching_at key st" by simp
  from assms(2) [OF at]
  consider "probes_key key c" | "fetching_at key (vs_resolver s)" "\<forall>d. vs_calls s i = Some d \<longrightarrow> \<not> probes_key key d" by blast
  then show "\<exists>j d. vs_calls (s\<lparr>vs_resolver := st, vs_calls := (vs_calls s)(i \<mapsto> c)\<rparr>) j = Some d \<and> probes_key key d"
  proof cases
    case 1
    have "vs_calls (s\<lparr>vs_resolver := st, vs_calls := (vs_calls s)(i \<mapsto> c)\<rparr>) i = Some c" by simp
    with 1 show ?thesis by blast
  next
    case 2
    with assms(1) obtain j d where j: "vs_calls s j = Some d" "probes_key key d" unfolding marked_by_probe_def by blast
    with 2(2) have "j \<noteq> i" by metis
    with j show ?thesis by (intro exI [of _ j] exI [of _ d]) simp
  qed
qed

lemma enter_marked:
  assumes inv: "resolver_inv digest tag trees s" and marked: "marked_by_probe s" and call: "vs_calls s i = Some (rc, Entering)"
    and step: "enter_resolve digest rc (vs_resolver s) = (outcome, st)"
    and c: "c = (rc, case outcome of WaitReady \<Rightarrow> Entering | ReturnSource src \<Rightarrow> Resolved (Inr src) | Probe prior \<Rightarrow> Probing prior)"
  shows "marked_by_probe (s\<lparr>vs_resolver := st, vs_calls := (vs_calls s)(i \<mapsto> c)\<rparr>)"
proof (rule change_call_marked [OF marked])
  fix k assume at: "fetching_at k st"
  note i = resolver_invD [OF inv]
  from i(3) [OF call] have rc: "call_error rc = None" "mirror_truthful digest tag trees rc" by (simp_all add: call_ok_def)
  from enter_facts [OF step rc i(1,2)] obtain e
    where e: "rs_entries st = put_entry (call_key rc) e (entered (call_key rc) (rs_entries (vs_resolver s)))"
    and full: "case outcome of
       WaitReady \<Rightarrow> fetching_at (call_key rc) (vs_resolver s) \<and> se_fetching e
     | ReturnSource src \<Rightarrow> \<not> fetching_at (call_key rc) (vs_resolver s) \<and> \<not> se_fetching e \<and>
         src = effective tag (trees (rc_repo rc) (rc_sha rc)) (rc_sha rc)
     | Probe prior \<Rightarrow> \<not> fetching_at (call_key rc) (vs_resolver s) \<and> se_fetching e \<and>
         good_prior tag (trees (rc_repo rc) (rc_sha rc)) (rc_sha rc) prior" by blast
  then have out: "case outcome of WaitReady \<Rightarrow> fetching_at (call_key rc) (vs_resolver s) | ReturnSource src \<Rightarrow> \<not> se_fetching e | Probe prior \<Rightarrow> True"
    by (cases outcome) simp_all
  show "probes_key k c \<or> fetching_at k (vs_resolver s) \<and> (\<forall>d. vs_calls s i = Some d \<longrightarrow> \<not> probes_key k d)"
  proof (cases "k = call_key rc")
    case True
    then show ?thesis using out at call e unfolding c by (cases outcome) (auto simp: fetching_at_def put_entry_lookup)
  next
    case False
    then have "fetching_at k (vs_resolver s)"
      using at entered_back [OF i(1), where key = "call_key rc" and k = k] by (auto simp: e fetching_at_def put_entry_lookup)
    then show ?thesis using call by simp
  qed
qed

lemma leave_marked:
  assumes inv: "resolver_inv digest tag trees s" and inj: "inj tag" and marked: "marked_by_probe s"
    and call: "vs_calls s i = Some (rc, Probing prior)"
    and honest: "honest tag (trees (rc_repo rc) (rc_sha rc)) remote"
    and step: "leave_resolve rc (FindCodeowners remote (rc_sha rc) prior) (vs_resolver s) = (result, st)"
  shows "marked_by_probe (s\<lparr>vs_resolver := st, vs_calls := (vs_calls s)(i \<mapsto> (rc, Resolved result))\<rparr>)"
proof (rule change_call_marked [OF marked])
  fix k assume at: "fetching_at k st"
  note i = resolver_invD [OF inv]
  from i(3) [OF call] have rc: "call_error rc = None" "good_prior tag (trees (rc_repo rc) (rc_sha rc)) (rc_sha rc) prior"
    by (simp_all add: call_ok_def)
  have "fetching_at (call_key rc) (vs_resolver s)" using i(5) [OF call] by simp
  from leave_facts [OF step rc(1) this i(2)] find_codeowners_result [OF honest inj rc(2)] obtain e
    where e: "rs_entries st = put_entry (call_key rc) e (rs_entries (vs_resolver s))" "\<not> se_fetching e" by blast
  have "k \<noteq> call_key rc" using at e by (auto simp: fetching_at_def put_entry_lookup)
  then show "probes_key k (rc, Resolved result) \<or> fetching_at k (vs_resolver s) \<and> (\<forall>d. vs_calls s i = Some d \<longrightarrow> \<not> probes_key k d)"
    using at call by (auto simp: e fetching_at_def put_entry_lookup)
qed

lemma idle_marked:
  assumes "marked_by_probe s" and "\<forall>d k. vs_calls s i = Some d \<longrightarrow> \<not> probes_key k d"
  shows "marked_by_probe (s\<lparr>vs_calls := (vs_calls s)(i := c)\<rparr>)"
  unfolding marked_by_probe_def
proof (intro allI impI)
  fix key assume "fetching_at key (vs_resolver (s\<lparr>vs_calls := (vs_calls s)(i := c)\<rparr>))"
  then have "fetching_at key (vs_resolver s)" by simp
  with assms(1) obtain j d where j: "vs_calls s j = Some d" "probes_key key d" unfolding marked_by_probe_def by blast
  with assms(2) have "j \<noteq> i" by blast
  with j show "\<exists>j d. vs_calls (s\<lparr>vs_calls := (vs_calls s)(i := c)\<rparr>) j = Some d \<and> probes_key key d"
    by (intro exI [of _ j] exI [of _ d]) simp
qed

lemma resolver_step_marked:
  assumes "resolver_step digest tag trees s s'" and "inj tag" and inv: "resolver_inv digest tag trees s" and m: "marked_by_probe s"
  shows "marked_by_probe s'"
  using assms(1)
proof cases
  case (call_waits i rc st)
  have same: "(vs_calls s)(i \<mapsto> (rc, Entering)) = vs_calls s" using call_waits(2) by auto
  from enter_marked [OF inv m call_waits(2,3) refl] show ?thesis unfolding call_waits(1) by (simp add: same)
next
  case (call_hits i rc src st)
  from enter_marked [OF inv m call_hits(2,3) refl] show ?thesis unfolding call_hits(1) by simp
next
  case (call_probes i rc prior st)
  from enter_marked [OF inv m call_probes(2,3) refl] show ?thesis unfolding call_probes(1) by simp
next
  case (call_leaves i rc prior remote result st)
  from leave_marked [OF inv assms(2) m call_leaves(2,3,4)] show ?thesis unfolding call_leaves(1) .
qed (auto intro: idle_marked [OF m])

lemma resolver_reachable_marked:
  "resolver_reachable digest tag trees s \<Longrightarrow> inj tag \<Longrightarrow> marked_by_probe s"
proof (induction rule: resolver_reachable.induct)
  case resolver_initial
  then show ?case by (simp add: marked_by_probe_def NewSourceResolver_def fetching_at_def)
next
  case (resolver_next s s')
  then show ?case using resolver_step_marked resolver_reachable_inv by blast
qed

section \<open>An example run\<close>

text \<open>A call for a commit of repository 7 probes GitHub and resolves.\<close>

definition demo_call :: resolve_call where
  "demo_call = \<lparr>rc_repo = 7, rc_owner = ''acme'', rc_name = ''app'', rc_ref = ''main'', rc_sha = ''c2'', rc_mirrored = None\<rparr>"

definition demo_trees :: repositories where "demo_trees repo sha = demo_tree"

definition demo_probing :: resolver_sys where
  "demo_probing = \<lparr>vs_resolver = snd (enter_resolve (\<lambda>b. b) demo_call NewSourceResolver), vs_calls = [0 \<mapsto> (demo_call, Probing None)]\<rparr>"

definition demo_resolved :: resolver_sys where
  "demo_resolved =
     (let (result, st) = leave_resolve demo_call (FindCodeowners (content_server (\<lambda>b. b) demo_tree) ''c2'' None) (vs_resolver demo_probing) in
      \<lparr>vs_resolver = st, vs_calls = [0 \<mapsto> (demo_call, Resolved result)]\<rparr>)"

lemma demo_enters: "enter_resolve (\<lambda>b. b) demo_call NewSourceResolver = (Probe None, vs_resolver demo_probing)"
  unfolding demo_probing_def
  by (simp add: enter_resolve_def Let_def NewSourceResolver_def demo_call_def call_key_def evictLocked_def maxSourceEntries_def
      new_entry_def no_source_def validSourceRecord_def validPriorRecord_def)

lemma demo_probing_reachable: "resolver_reachable (\<lambda>b. b) (\<lambda>b. b) demo_trees demo_probing"
proof -
  let ?s = "\<lparr>vs_resolver = NewSourceResolver, vs_calls = Map.empty\<rparr>"
  let ?t = "\<lparr>vs_resolver = NewSourceResolver, vs_calls = [0 \<mapsto> (demo_call, Entering)]\<rparr>"
  have "call_error demo_call = None" "mirror_truthful (\<lambda>b. b) (\<lambda>b. b) demo_trees demo_call"
    by (simp_all add: call_error_def demo_call_def mirror_truthful_def validPriorRecord_def)
  then have "resolver_step (\<lambda>b. b) (\<lambda>b. b) demo_trees ?s ?t" using call_arrives [of ?s 0 demo_call] by simp
  then have t: "resolver_reachable (\<lambda>b. b) (\<lambda>b. b) demo_trees ?t" by (blast intro: resolver_reachable.intros)
  have at: "vs_calls ?t 0 = Some (demo_call, Entering)" "enter_resolve (\<lambda>b. b) demo_call (vs_resolver ?t) = (Probe None, vs_resolver demo_probing)"
    using demo_enters by simp_all
  have "demo_probing = ?t\<lparr>vs_resolver := vs_resolver demo_probing, vs_calls := (vs_calls ?t)(0 \<mapsto> (demo_call, Probing None))\<rparr>"
    by (simp add: demo_probing_def)
  with call_probes [OF at] have "resolver_step (\<lambda>b. b) (\<lambda>b. b) demo_trees ?t demo_probing" by metis
  with t show ?thesis by (rule resolver_next)
qed

lemma demo_resolved_facts:
  "resolver_reachable (\<lambda>b. b) (\<lambda>b. b) demo_trees demo_resolved"
  "\<exists>src. vs_calls demo_resolved 0 = Some (demo_call, Resolved (Inr src))"
proof -
  let ?find = "FindCodeowners (content_server (\<lambda>b. b) demo_tree) ''c2'' None"
  obtain result st where l: "leave_resolve demo_call ?find (vs_resolver demo_probing) = (result, st)" by fastforce
  have r: "demo_resolved = \<lparr>vs_resolver = st, vs_calls = [0 \<mapsto> (demo_call, Resolved result)]\<rparr>"
    by (simp add: demo_resolved_def l)
  have call: "vs_calls demo_probing 0 = Some (demo_call, Probing None)" "rc_sha demo_call = ''c2''"
    by (simp_all add: demo_probing_def demo_call_def)
  have honest: "honest (\<lambda>b. b) (demo_trees (rc_repo demo_call) (rc_sha demo_call)) (content_server (\<lambda>b. b) demo_tree)"
    using content_server_honest by (simp add: demo_trees_def)
  have "demo_resolved = demo_probing\<lparr>vs_resolver := st, vs_calls := (vs_calls demo_probing)(0 \<mapsto> (demo_call, Resolved result))\<rparr>"
    by (simp add: r demo_probing_def)
  with call_leaves [where trees = demo_trees, OF call(1) honest] l call(2) have "resolver_step (\<lambda>b. b) (\<lambda>b. b) demo_trees demo_probing demo_resolved" by metis
  with demo_probing_reachable show "resolver_reachable (\<lambda>b. b) (\<lambda>b. b) demo_trees demo_resolved" by (rule resolver_next)
  from find_codeowners_result [OF content_server_honest, of "\<lambda>b. b" demo_tree "''c2''" None] content_server_answers
  obtain src where "?find = Inr src" by (auto simp: good_prior_def)
  with l have "result = Inr src" by (simp add: leave_resolve_def Let_def)
  then show "\<exists>src. vs_calls demo_resolved 0 = Some (demo_call, Resolved (Inr src))" by (simp add: r)
qed

section \<open>What the resolver guarantees\<close>

text \<open>C25: However calls for any repositories, refs and commits interleave, every source that \<open>Resolve\<close> returns is
  the effective CODEOWNERS of the commit asked for: a shared entry, a mirrored record or the answer
  of another caller's probe is never served for a commit it does not describe.\<close>

theorem resolver_returns_effective:
  assumes "resolver_reachable digest tag trees s" and "inj tag" and "vs_calls s i = Some (rc, Resolved (Inr src))"
  shows "src = effective tag (trees (rc_repo rc) (rc_sha rc)) (rc_sha rc)"
  using resolver_invD(3) [OF resolver_reachable_inv [OF assms(1,2)] assms(3)] by (simp add: call_ok_def)

theorem resolver_returns_effective_witness:
  "\<exists>src. vs_calls demo_resolved 0 = Some (demo_call, Resolved (Inr src)) \<and> src = effective (\<lambda>b. b) demo_tree ''c2''"
proof -
  from demo_resolved_facts(2) obtain src where src: "vs_calls demo_resolved 0 = Some (demo_call, Resolved (Inr src))" by blast
  from resolver_returns_effective [OF demo_resolved_facts(1) _ src] have "src = effective (\<lambda>b. b) demo_tree ''c2''"
    by (simp add: demo_call_def demo_trees_def fun_eq_iff)
  with src show ?thesis by blast
qed

text \<open>An invalidated repository and ref is probed by exactly one caller at a time: an entry is marked as
  being fetched when and only when exactly one call in flight probes its key. In particular a caller
  that waits always waits for a probe that is really in flight, never for an abandoned mark.\<close>

theorem one_probe_per_marked_entry:
  assumes "resolver_reachable digest tag trees s" and "inj tag"
  shows "fetching_at key (vs_resolver s) \<longleftrightarrow> (\<exists>!i. \<exists>c. vs_calls s i = Some c \<and> probes_key key c)"
proof -
  note i = resolver_invD [OF resolver_reachable_inv [OF assms]]
  show ?thesis
    using resolver_reachable_marked [OF assms] i(4,5) unfolding marked_by_probe_def by metis
qed

theorem one_probe_per_marked_entry_witness: "\<exists>!i. \<exists>c. vs_calls demo_probing i = Some c \<and> probes_key (7, ''main'') c"
proof -
  have "vs_calls demo_probing 0 = Some (demo_call, Probing None)" "call_key demo_call = (7, ''main'')"
    by (simp_all add: demo_probing_def demo_call_def call_key_def)
  with resolver_invD(5) [OF resolver_reachable_inv [OF demo_probing_reachable]]
  have "fetching_at (7, ''main'') (vs_resolver demo_probing)" by simp
  with one_probe_per_marked_entry [OF demo_probing_reachable] show ?thesis by simp
qed

end
