(* ===== verification/Pull_Nodes.thy ===== *)
theory Pull_Nodes
  imports Prelude
begin

text \<open>The GraphQL pull-request nodes of \<open>internal/gh/graphql.go\<close>: the node shapes, the batch query and the
  loops that complete its connections. The replies of GitHub are a parameter: the list of the calls
  to come, each answering whichever query is asked. A loop that has no call left has not returned.\<close>

section \<open>Nodes\<close>

record PageInfo =
  pi_hasNextPage :: bool
  pi_endCursor :: "string option"

record 'a connection =
  cn_nodes :: "'a list"
  cn_pageInfo :: PageInfo

record PullRequestChangedFileNode =
  cf_path :: string
  cf_changeType :: string

record PullRequestFilesConnection =
  fc_nodes :: "PullRequestChangedFileNode list"
  fc_pageInfo :: PageInfo
  fc_totalCount :: int
  fc_truncated :: bool

record ActorNode =
  an_typename :: string
  an_id :: string
  an_login :: string

record PullRequestReviewNode =
  rn_id :: string
  rn_databaseID :: "int option"
  rn_state :: string
  rn_submittedAt :: "gotime option"
  rn_updatedAt :: gotime
  rn_author :: "ActorNode option"
  rn_commit :: "string option"

record IssueCommentNode =
  ic_id :: string
  ic_databaseID :: "int option"
  ic_createdAt :: gotime
  ic_updatedAt :: gotime
  ic_author :: "ActorNode option"

record ReviewRequestNode =
  rw_typename :: string
  rw_id :: string
  rw_databaseID :: int
  rw_login :: string
  rw_slug :: string

record ReviewCommentNode =
  co_id :: string
  co_body :: string
  co_updatedAt :: gotime
  co_author :: "string option"

record ReviewThreadNode =
  tn_id :: string
  tn_isResolved :: bool
  tn_isOutdated :: bool
  tn_path :: string
  tn_line :: "int option"
  tn_comments :: "ReviewCommentNode connection"

record RepositoryNode =
  rx_id :: string
  rx_databaseID :: int
  rx_name :: string
  rx_nameWithOwner :: string
  rx_isArchived :: bool
  rx_updatedAt :: gotime
  rx_defaultBranchRef :: "(string \<times> string) option"
  rx_owner :: string

record PullRequestNode =
  pn_id :: string
  pn_databaseID :: int
  pn_number :: int
  pn_title :: string
  pn_state :: string
  pn_isDraft :: bool
  pn_updatedAt :: gotime
  pn_reviewDecision :: string
  pn_mergeable :: string
  pn_headRefName :: string
  pn_headRefOID :: string
  pn_baseRefName :: string
  pn_baseRefOID :: string
  pn_changedFiles :: int
  pn_author :: string
  pn_repository :: RepositoryNode
  pn_files :: "PullRequestFilesConnection option"
  pn_reviewRequests :: "ReviewRequestNode connection"
  pn_reviews :: "PullRequestReviewNode connection"
  pn_comments :: "IssueCommentNode connection"
  pn_reviewThreads :: "ReviewThreadNode connection"

definition MaxPullRequestBatch :: nat where "MaxPullRequestBatch = 25"
definition MaxPullRequestFiles :: nat where "MaxPullRequestFiles = 3000"

section \<open>Calls\<close>

text \<open>A page of files carries the commits of the pull request it was read at.\<close>

record files_page =
  fp_baseRefOID :: string
  fp_headRefOID :: string
  fp_files :: "PullRequestFilesConnection option"

text \<open>What one call answers: to the batch query, or to a page query for an object and a cursor, with no
  node when the object is gone.\<close>

record graphql_call =
  gq_nodes :: "string list \<Rightarrow> gerror + PullRequestNode option list"
  gq_files :: "string \<Rightarrow> string \<Rightarrow> gerror + files_page option"
  gq_reviewRequests :: "string \<Rightarrow> string \<Rightarrow> gerror + ReviewRequestNode connection option"
  gq_reviews :: "string \<Rightarrow> string \<Rightarrow> gerror + PullRequestReviewNode connection option"
  gq_comments :: "string \<Rightarrow> string \<Rightarrow> gerror + IssueCommentNode connection option"
  gq_reviewThreads :: "string \<Rightarrow> string \<Rightarrow> gerror + ReviewThreadNode connection option"
  gq_threadComments :: "string \<Rightarrow> string \<Rightarrow> gerror + ReviewCommentNode connection option"

type_synonym 'a graphql_result = "((gerror + 'a) \<times> graphql_call list) option"

definition and_then :: "'a graphql_result \<Rightarrow> ('a \<Rightarrow> graphql_call list \<Rightarrow> 'b graphql_result) \<Rightarrow> 'b graphql_result" where
  "and_then r f =
     (case r of
        None \<Rightarrow> None
      | Some (Inl e, calls) \<Rightarrow> Some (Inl e, calls)
      | Some (Inr x, calls) \<Rightarrow> f x calls)"

section \<open>Completing a connection\<close>

fun complete_connection ::
  "string \<Rightarrow> (graphql_call \<Rightarrow> string \<Rightarrow> gerror + 'a connection option) \<Rightarrow> 'a connection \<Rightarrow> graphql_call list \<Rightarrow> 'a connection graphql_result" where
  "complete_connection what ask conn calls =
     (if \<not> pi_hasNextPage (cn_pageInfo conn) then Some (Inr conn, calls)
      else case pi_endCursor (cn_pageInfo conn) of
             None \<Rightarrow> Some (Inl (ErrText (what @ '' hasNextPage without endCursor'')), calls)
           | Some after \<Rightarrow>
               (case calls of
                  [] \<Rightarrow> None
                | call # rest \<Rightarrow>
                    (case ask call after of
                       Inl e \<Rightarrow> Some (Inl (ErrWrap (''paginate '' @ what) [e]), rest)
                     | Inr None \<Rightarrow> Some (Inl (ErrText (''paginate '' @ what @ '': node disappeared'')), rest)
                     | Inr (Some page) \<Rightarrow>
                         complete_connection what ask
                           (conn\<lparr>cn_nodes := cn_nodes conn @ cn_nodes page, cn_pageInfo := cn_pageInfo page\<rparr>) rest)))"

declare complete_connection.simps [simp del]

section \<open>Files\<close>

fun files_loop ::
  "string \<Rightarrow> string \<Rightarrow> string \<Rightarrow> PullRequestFilesConnection \<Rightarrow> graphql_call list \<Rightarrow> PullRequestFilesConnection graphql_result" where
  "files_loop pid base head files calls =
     (if \<not> (pi_hasNextPage (fc_pageInfo files) \<and> length (fc_nodes files) < MaxPullRequestFiles) then Some (Inr files, calls)
      else case pi_endCursor (fc_pageInfo files) of
             None \<Rightarrow> Some (Inl (ErrText ''files hasNextPage without endCursor''), calls)
           | Some after \<Rightarrow>
               (case calls of
                  [] \<Rightarrow> None
                | call # rest \<Rightarrow>
                    (case gq_files call pid after of
                       Inl e \<Rightarrow> Some (Inl (ErrWrap ''paginate files'' [e]), rest)
                     | Inr None \<Rightarrow> Some (Inr (files\<lparr>fc_truncated := True\<rparr>), rest)
                     | Inr (Some page) \<Rightarrow>
                         (case fp_files page of
                            None \<Rightarrow> Some (Inr (files\<lparr>fc_truncated := True\<rparr>), rest)
                          | Some found \<Rightarrow>
                              if fp_baseRefOID page \<noteq> base \<or> fp_headRefOID page \<noteq> head then
                                Some (Inl (ErrText ''paginate files: pull request SHA fence changed''), rest)
                              else
                                let remaining = MaxPullRequestFiles - length (fc_nodes files) in
                                files_loop pid base head
                                  (files\<lparr>fc_nodes := fc_nodes files @ take remaining (fc_nodes found),
                                         fc_pageInfo := fc_pageInfo found,
                                         fc_truncated := (fc_truncated files \<or> remaining < length (fc_nodes found) \<or>
                                                          fc_totalCount found \<noteq> fc_totalCount files)\<rparr>) rest))))"

declare files_loop.simps [simp del]

definition cap_files :: "PullRequestFilesConnection \<Rightarrow> PullRequestFilesConnection" where
  "cap_files files =
     (if MaxPullRequestFiles < length (fc_nodes files)
      then files\<lparr>fc_nodes := take MaxPullRequestFiles (fc_nodes files), fc_truncated := True\<rparr> else files)"

definition flag_files :: "PullRequestFilesConnection \<Rightarrow> PullRequestFilesConnection" where
  "flag_files files =
     (if pi_hasNextPage (fc_pageInfo files) \<or> fc_totalCount files \<noteq> int (length (fc_nodes files)) \<or>
         int MaxPullRequestFiles < fc_totalCount files
      then files\<lparr>fc_truncated := True\<rparr> else files)"

definition complete_files :: "PullRequestNode \<Rightarrow> graphql_call list \<Rightarrow> PullRequestNode graphql_result" where
  "complete_files pull calls =
     (case pn_files pull of
        None \<Rightarrow> Some (Inr pull, calls)
      | Some files \<Rightarrow>
          and_then (files_loop (pn_id pull) (pn_baseRefOID pull) (pn_headRefOID pull) (cap_files files) calls)
            (\<lambda>files calls. Some (Inr (pull\<lparr>pn_files := Some (flag_files files)\<rparr>), calls)))"

section \<open>Review threads\<close>

definition completeReviewThreadComments :: "ReviewThreadNode \<Rightarrow> graphql_call list \<Rightarrow> ReviewThreadNode graphql_result" where
  "completeReviewThreadComments thread calls =
     and_then (complete_connection ''review thread comments'' (\<lambda>call. gq_threadComments call (tn_id thread)) (tn_comments thread) calls)
       (\<lambda>comments calls. Some (Inr (thread\<lparr>tn_comments := comments\<rparr>), calls))"

fun complete_threads :: "ReviewThreadNode list \<Rightarrow> graphql_call list \<Rightarrow> ReviewThreadNode list graphql_result" where
  "complete_threads [] calls = Some (Inr [], calls)"
| "complete_threads (thread # threads) calls =
     and_then (completeReviewThreadComments thread calls)
       (\<lambda>thread calls. and_then (complete_threads threads calls) (\<lambda>threads calls. Some (Inr (thread # threads), calls)))"

text \<open>The threads of a page are completed before they are appended, so the calls left after them are
  given to the next turn; the number of calls bounds the turns.\<close>

fun threads_loop ::
  "nat \<Rightarrow> string \<Rightarrow> ReviewThreadNode connection \<Rightarrow> graphql_call list \<Rightarrow> ReviewThreadNode connection graphql_result" where
  "threads_loop fuel pid conn calls =
     (if \<not> pi_hasNextPage (cn_pageInfo conn) then Some (Inr conn, calls)
      else case pi_endCursor (cn_pageInfo conn) of
             None \<Rightarrow> Some (Inl (ErrText ''reviewThreads hasNextPage without endCursor''), calls)
           | Some after \<Rightarrow>
               (case fuel of 0 \<Rightarrow> None | Suc fuel' \<Rightarrow>
               (case calls of
                  [] \<Rightarrow> None
                | call # rest \<Rightarrow>
                    (case gq_reviewThreads call pid after of
                       Inl e \<Rightarrow> Some (Inl (ErrWrap ''paginate reviewThreads'' [e]), rest)
                     | Inr None \<Rightarrow> Some (Inl (ErrText ''paginate reviewThreads: node disappeared''), rest)
                     | Inr (Some page) \<Rightarrow>
                         and_then (complete_threads (cn_nodes page) rest)
                           (\<lambda>threads rest. threads_loop fuel' pid
                              (conn\<lparr>cn_nodes := cn_nodes conn @ threads, cn_pageInfo := cn_pageInfo page\<rparr>) rest)))))"

declare threads_loop.simps [simp del]

definition complete_reviewThreads :: "PullRequestNode \<Rightarrow> graphql_call list \<Rightarrow> PullRequestNode graphql_result" where
  "complete_reviewThreads pull calls =
     and_then (complete_threads (cn_nodes (pn_reviewThreads pull)) calls)
       (\<lambda>threads calls.
          and_then (threads_loop (length calls) (pn_id pull) ((pn_reviewThreads pull)\<lparr>cn_nodes := threads\<rparr>) calls)
            (\<lambda>conn calls. Some (Inr (pull\<lparr>pn_reviewThreads := conn\<rparr>), calls)))"

section \<open>A node and a batch\<close>

definition complete_reviewRequests :: "PullRequestNode \<Rightarrow> graphql_call list \<Rightarrow> PullRequestNode graphql_result" where
  "complete_reviewRequests pull calls =
     and_then (complete_connection ''reviewRequests'' (\<lambda>call. gq_reviewRequests call (pn_id pull)) (pn_reviewRequests pull) calls)
       (\<lambda>conn calls. Some (Inr (pull\<lparr>pn_reviewRequests := conn\<rparr>), calls))"

definition complete_reviews :: "PullRequestNode \<Rightarrow> graphql_call list \<Rightarrow> PullRequestNode graphql_result" where
  "complete_reviews pull calls =
     and_then (complete_connection ''reviews'' (\<lambda>call. gq_reviews call (pn_id pull)) (pn_reviews pull) calls)
       (\<lambda>conn calls. Some (Inr (pull\<lparr>pn_reviews := conn\<rparr>), calls))"

definition complete_comments :: "PullRequestNode \<Rightarrow> graphql_call list \<Rightarrow> PullRequestNode graphql_result" where
  "complete_comments pull calls =
     and_then (complete_connection ''comments'' (\<lambda>call. gq_comments call (pn_id pull)) (pn_comments pull) calls)
       (\<lambda>conn calls. Some (Inr (pull\<lparr>pn_comments := conn\<rparr>), calls))"

definition completePullRequestReviewConnections :: "PullRequestNode \<Rightarrow> graphql_call list \<Rightarrow> PullRequestNode graphql_result" where
  "completePullRequestReviewConnections pull calls =
     and_then (complete_files pull calls) (\<lambda>pull calls.
     and_then (complete_reviewRequests pull calls) (\<lambda>pull calls.
     and_then (complete_reviews pull calls) (\<lambda>pull calls.
     and_then (complete_comments pull calls) (\<lambda>pull calls.
       complete_reviewThreads pull calls))))"

fun complete_nodes :: "PullRequestNode option list \<Rightarrow> graphql_call list \<Rightarrow> PullRequestNode option list graphql_result" where
  "complete_nodes [] calls = Some (Inr [], calls)"
| "complete_nodes (None # nodes) calls =
     and_then (complete_nodes nodes calls) (\<lambda>nodes calls. Some (Inr (None # nodes), calls))"
| "complete_nodes (Some node # nodes) calls =
     and_then (completePullRequestReviewConnections node calls)
       (\<lambda>node calls. and_then (complete_nodes nodes calls) (\<lambda>nodes calls. Some (Inr (Some node # nodes), calls)))"

definition BatchPullRequests :: "string list \<Rightarrow> graphql_call list \<Rightarrow> PullRequestNode option list graphql_result" where
  "BatchPullRequests nodeIDs calls =
     (if nodeIDs = [] then Some (Inl (ErrText ''GraphQL PR batch must not be empty''), calls)
      else if MaxPullRequestBatch < length nodeIDs then Some (Inl (ErrText ''GraphQL PR batch has too many nodes''), calls)
      else case calls of
             [] \<Rightarrow> None
           | call # rest \<Rightarrow>
               (case gq_nodes call nodeIDs of
                  Inl e \<Rightarrow> Some (Inl e, rest)
                | Inr nodes \<Rightarrow>
                    if length nodes \<noteq> length nodeIDs then Some (Inl (ErrText ''GraphQL PR batch returned too few nodes''), rest)
                    else complete_nodes nodes rest))"

end
