(* ===== verification/Change_Inputs.thy ===== *)
theory Change_Inputs
  imports Owner_Sources Pull_Nodes "HOL-Library.Char_ord" "HOL-Library.List_Lexorder" "HOL-Library.Product_Lexorder"
begin

text \<open>The change inputs of a pull request (\<open>internal/changeinputs/changeinputs.go\<close>): the changed files with
  their rename sources, the effective CODEOWNERS and the owners of every file, and the fence that
  ties them to one base and head. With it the rename listing of \<open>internal/gh/rest.go\<close> and the identity
  lookup of \<open>internal/store/codeowners.go\<close>. What GitHub and the database answer is a parameter.
  \<open>sort.Slice\<close> leaves the order of equal keys open; the model keeps their input order.\<close>

section \<open>Records\<close>

record ChangedFileRecord =
  fl_path :: string
  fl_previousPath :: string
  fl_changeType :: string

record FileOwnerRecord =
  fo_path :: string
  fo_token :: string
  fo_type :: string
  fo_name :: string
  fo_state :: string
  fo_githubID :: int
  fo_nodeID :: string
  fo_login :: string
  fo_pattern :: string
  fo_line :: nat

record PullRequestChangeSnapshotRecord =
  sp_baseSHA :: string
  sp_headSHA :: string
  sp_etag :: string
  sp_filesTotalCount :: int
  sp_filesTruncated :: bool
  sp_codeownersRef :: string
  sp_codeownersSHA :: string
  sp_codeownersPath :: string
  sp_codeownersState :: string
  sp_codeownersSource :: string
  sp_codeownersHash :: string
  sp_codeownersETag :: string
  sp_files :: "ChangedFileRecord list"
  sp_owners :: "FileOwnerRecord list"

record PullRequestChangeFetchMetadata =
  cm_etag :: string
  cm_previousPaths :: "string \<rightharpoonup> string"

text \<open>The representation that the final fence reads.\<close>

record StackSummaryRecord =
  ss_githubID :: int
  ss_number :: int
  ss_size :: int
  ss_position :: int
  ss_baseRef :: string
  ss_baseSHA :: string

record rest_pull =
  lp_baseSHA :: string
  lp_headSHA :: string
  lp_updatedAt :: gotime
  lp_stack :: "StackSummaryRecord option"

record PullRequestFence =
  pf_etag :: string
  pf_pull :: "rest_pull option"

definition EqualFold :: "string \<Rightarrow> string \<Rightarrow> bool" where
  "EqualFold s t = (to_lower s = to_lower t)"

section \<open>Rename sources\<close>

text \<open>The rows of the stored snapshot: validator, path and previous path.\<close>

definition PullRequestChangeMetadata :: "(string \<times> string \<times> string) list \<Rightarrow> PullRequestChangeFetchMetadata" where
  "PullRequestChangeMetadata rows =
     foldl (\<lambda>m (etag, path, previous).
        m\<lparr>cm_etag := etag,
          cm_previousPaths := (if path \<noteq> [] \<and> previous \<noteq> [] then (cm_previousPaths m)(path \<mapsto> previous) else cm_previousPaths m)\<rparr>)
       \<lparr>cm_etag = [], cm_previousPaths = Map.empty\<rparr> rows"

record PullRequestFile =
  gf_path :: string
  gf_previousPath :: string
  gf_status :: string

text \<open>A page of the REST listing; the page after the last one is 0.\<close>

record rest_files_page =
  rf_files :: "PullRequestFile list"
  rf_etag :: string
  rf_notModified :: bool
  rf_nextPage :: int

record PullRequestFileRenamesResponse =
  fr_etag :: string
  fr_notModified :: bool
  fr_truncated :: bool

definition add_rename :: "(string \<rightharpoonup> string) \<Rightarrow> PullRequestFile \<Rightarrow> string \<rightharpoonup> string" where
  "add_rename renames file =
     (if EqualFold (gf_status file) ''renamed'' \<and> gf_path file \<noteq> [] \<and> gf_previousPath file \<noteq> []
      then renames(gf_path file \<mapsto> gf_previousPath file) else renames)"

fun renames_loop ::
  "int \<Rightarrow> string \<Rightarrow> nat \<Rightarrow> (string \<rightharpoonup> string) \<Rightarrow> PullRequestFileRenamesResponse \<Rightarrow>
     (int \<Rightarrow> string \<Rightarrow> gerror + rest_files_page) list \<Rightarrow> (gerror + (string \<rightharpoonup> string) \<times> PullRequestFileRenamesResponse) option" where
  "renames_loop page etag count renames result calls =
     (if \<not> count < MaxPullRequestFiles then Some (Inr (renames, result\<lparr>fr_truncated := True\<rparr>))
      else case calls of
             [] \<Rightarrow> None
           | call # rest \<Rightarrow>
               (case call page (if page = 1 then etag else []) of
                  Inl e \<Rightarrow> Some (Inl (ErrWrap ''list PR files'' [e]))
                | Inr response \<Rightarrow>
                    if rf_notModified response then
                      (if page \<noteq> 1 then Some (Inl (ErrText ''list PR files: unexpected 304''))
                       else Some (Inr (Map.empty, result\<lparr>fr_etag := rf_etag response, fr_notModified := True\<rparr>)))
                    else
                      let result' = (if page = 1 then result\<lparr>fr_etag := rf_etag response\<rparr> else result);
                          files = take (MaxPullRequestFiles - count) (rf_files response);
                          renames' = foldl add_rename renames files;
                          count' = count + length files in
                      if rf_nextPage response = 0 then Some (Inr (renames', result'))
                      else if count' = MaxPullRequestFiles then Some (Inr (renames', result'\<lparr>fr_truncated := True\<rparr>))
                      else renames_loop (rf_nextPage response) etag count' renames' result' rest))"

declare renames_loop.simps [simp del]

definition PullRequestFileRenamesConditional ::
  "string \<Rightarrow> (int \<Rightarrow> string \<Rightarrow> gerror + rest_files_page) list \<Rightarrow> (gerror + (string \<rightharpoonup> string) \<times> PullRequestFileRenamesResponse) option" where
  "PullRequestFileRenamesConditional etag calls =
     renames_loop 1 etag 0 Map.empty \<lparr>fr_etag = [], fr_notModified = False, fr_truncated = False\<rparr> calls"

section \<open>Files\<close>

text \<open>The files of a node, their count and whether the list is known to be incomplete.\<close>

definition snapshot_files :: "PullRequestNode \<Rightarrow> ChangedFileRecord list \<times> int \<times> bool" where
  "snapshot_files node =
     (case pn_files node of
        None \<Rightarrow> ([], pn_changedFiles node, True)
      | Some conn \<Rightarrow>
          let files = map (\<lambda>f. \<lparr>fl_path = cf_path f, fl_previousPath = [], fl_changeType = to_lower (cf_changeType f)\<rparr>) (fc_nodes conn);
              differ = (fc_totalCount conn \<noteq> pn_changedFiles node);
              count = (if differ then max (fc_totalCount conn) (pn_changedFiles node) else pn_changedFiles node);
              short = (count < int (length files)) in
          (files, if short then int (length files) else count, fc_truncated conn \<or> differ \<or> short))"

definition is_rename :: "ChangedFileRecord \<Rightarrow> bool" where
  "is_rename file = (fl_changeType file = ''renamed'')"

definition rename_file :: "(string \<rightharpoonup> string) \<Rightarrow> ChangedFileRecord \<Rightarrow> ChangedFileRecord" where
  "rename_file renames file =
     (if is_rename file then file\<lparr>fl_previousPath := (case renames (fl_path file) of Some p \<Rightarrow> p | None \<Rightarrow> [])\<rparr> else file)"

definition lacks_source :: "ChangedFileRecord \<Rightarrow> bool" where
  "lacks_source file = (is_rename file \<and> fl_previousPath file = [])"

section \<open>Owners\<close>

definition owner_type :: "OwnerType \<Rightarrow> string" where
  "owner_type t = (case t of OwnerUser \<Rightarrow> ''user'' | OwnerTeam \<Rightarrow> ''team'' | OwnerEmail \<Rightarrow> ''email'' | OwnerMalformed \<Rightarrow> ''malformed'')"

fun first_tokens :: "string list \<Rightarrow> Owner list \<Rightarrow> Owner list" where
  "first_tokens seen [] = []"
| "first_tokens seen (owner # owners) =
     (if ow_token owner \<in> set seen then first_tokens seen owners
      else owner # first_tokens (ow_token owner # seen) owners)"

definition file_owners :: "Rule list \<Rightarrow> string \<Rightarrow> FileOwnerRecord list" where
  "file_owners rules path =
     (case Resolve rules path of
        None \<Rightarrow> []
      | Some m \<Rightarrow>
          map (\<lambda>owner. \<lparr>fo_path = path, fo_token = ow_token owner, fo_type = owner_type (ow_type owner), fo_name = ow_name owner,
                          fo_state = ''unresolved'', fo_githubID = 0, fo_nodeID = [], fo_login = [],
                          fo_pattern = ma_pattern m, fo_line = ma_line m\<rparr>) (first_tokens [] (ma_owners m)))"

definition snapshot_owners :: "CodeownersSource \<Rightarrow> ChangedFileRecord list \<Rightarrow> FileOwnerRecord list" where
  "snapshot_owners source files =
     (if cs_state source = CodeownersPresent
      then concat (map (\<lambda>file. file_owners (Parse (cs_content source)) (fl_path file)) files) else [])"

section \<open>Identities\<close>

record identity =
  id_githubID :: int
  id_nodeID :: string
  id_login :: string

definition identity_key :: "string \<Rightarrow> string \<Rightarrow> string" where
  "identity_key kind login = kind @ [CHR 0x00] @ to_lower login"

text \<open>\<open>strings.SplitN(s, "/", 2)\<close> with two parts.\<close>

definition split_slash :: "string \<Rightarrow> (string \<times> string) option" where
  "split_slash s =
     (if CHR ''/'' \<in> set s
      then Some (takeWhile (\<lambda>c. c \<noteq> CHR ''/'') s, tl (dropWhile (\<lambda>c. c \<noteq> CHR ''/'') s)) else None)"

text \<open>The name under which an owner is looked up: a user by name, a team of the repository's own
  organization by its own name.\<close>

definition lookup_name :: "string \<Rightarrow> FileOwnerRecord \<Rightarrow> string option" where
  "lookup_name repositoryOwner owner =
     (if fo_type owner = ''user'' then Some (fo_name owner)
      else if fo_type owner = ''team'' then
        (case split_slash (fo_name owner) of
           None \<Rightarrow> None
         | Some (org, team) \<Rightarrow> if EqualFold org repositoryOwner then Some team else None)
      else None)"

definition resolve_owner :: "(string \<rightharpoonup> identity) \<Rightarrow> string \<Rightarrow> FileOwnerRecord \<Rightarrow> FileOwnerRecord" where
  "resolve_owner known repositoryOwner owner =
     (case lookup_name repositoryOwner owner of
        None \<Rightarrow> owner
      | Some name \<Rightarrow>
          (case known (identity_key (fo_type owner) name) of
             None \<Rightarrow> owner
           | Some i \<Rightarrow> owner\<lparr>fo_state := ''resolved'', fo_githubID := id_githubID i, fo_nodeID := id_nodeID i, fo_login := id_login i\<rparr>))"

text \<open>The rows of known identities: kind, identifiers and login.\<close>

definition known_rows :: "(string \<times> int \<times> string \<times> string) list \<Rightarrow> string \<rightharpoonup> identity" where
  "known_rows rows = foldl (\<lambda>known (kind, githubID, nodeID, login).
      known(identity_key kind login \<mapsto> \<lparr>id_githubID = githubID, id_nodeID = nodeID, id_login = login\<rparr>)) Map.empty rows"

definition ResolveFileOwnerIdentities ::
  "gerror + int \<Rightarrow> (int \<Rightarrow> gerror + (string \<times> int \<times> string \<times> string) list) \<Rightarrow> string \<Rightarrow> FileOwnerRecord list \<Rightarrow> gerror + FileOwnerRecord list" where
  "ResolveFileOwnerIdentities repo identities repositoryOwner owners =
     (case repo of
        Inl e \<Rightarrow> Inl (ErrWrap ''find CODEOWNERS repository'' [e])
      | Inr repoID \<Rightarrow>
          (case identities repoID of
             Inl e \<Rightarrow> Inl (ErrWrap ''list known CODEOWNERS identities'' [e])
           | Inr rows \<Rightarrow>
               Inr (map (\<lambda>owner. resolve_owner (known_rows rows) repositoryOwner (owner\<lparr>fo_state := ''unresolved''\<rparr>)) owners)))"

definition observe_request :: "(string \<rightharpoonup> identity) \<Rightarrow> ReviewRequestNode \<Rightarrow> string \<rightharpoonup> identity" where
  "observe_request known r =
     (if rw_typename r = ''User'' then
        (if rw_id r \<noteq> [] \<and> rw_login r \<noteq> []
         then known(identity_key ''user'' (rw_login r) \<mapsto> \<lparr>id_githubID = rw_databaseID r, id_nodeID = rw_id r, id_login = rw_login r\<rparr>)
         else known)
      else if rw_typename r = ''Team'' then
        (if rw_id r \<noteq> [] \<and> rw_slug r \<noteq> []
         then known(identity_key ''team'' (rw_slug r) \<mapsto> \<lparr>id_githubID = rw_databaseID r, id_nodeID = rw_id r, id_login = rw_slug r\<rparr>)
         else known)
      else known)"

definition observe_author :: "(string \<rightharpoonup> identity) \<Rightarrow> ActorNode option \<Rightarrow> string \<rightharpoonup> identity" where
  "observe_author known author =
     (case author of
        None \<Rightarrow> known
      | Some a \<Rightarrow>
          if an_typename a = ''User'' \<and> an_id a \<noteq> [] \<and> an_login a \<noteq> []
          then known(identity_key ''user'' (an_login a) \<mapsto> \<lparr>id_githubID = 0, id_nodeID = an_id a, id_login = an_login a\<rparr>)
          else known)"

definition observed_identities :: "PullRequestNode \<Rightarrow> string \<rightharpoonup> identity" where
  "observed_identities node =
     foldl observe_author
       (foldl observe_author
          (foldl observe_request Map.empty (cn_nodes (pn_reviewRequests node)))
          (map rn_author (cn_nodes (pn_reviews node))))
       (map ic_author (cn_nodes (pn_comments node)))"

definition resolveObservedIdentities :: "FileOwnerRecord list \<Rightarrow> string \<Rightarrow> PullRequestNode \<Rightarrow> FileOwnerRecord list" where
  "resolveObservedIdentities owners repositoryOwner node =
     map (\<lambda>owner. if fo_state owner \<noteq> ''unresolved'' then owner
                   else resolve_owner (observed_identities node) repositoryOwner owner) owners"

section \<open>Hydration\<close>

text \<open>What a hydration meets: the stored snapshot rows, the pages of the REST listing, the content replies and
  the shared resolver, the identity queries, and the final fence, which answers no representation when
  the validator still holds.\<close>

record hydrate_env =
  he_rows :: "gerror + (string \<times> string \<times> string) list"
  he_pages :: "(int \<Rightarrow> string \<Rightarrow> gerror + rest_files_page) list"
  he_content :: "string \<Rightarrow> string \<Rightarrow> string \<Rightarrow> gerror + http_reply"
  he_resolve :: "resolve_call \<Rightarrow> gerror + CodeownersSource"
  he_repo :: "gerror + int"
  he_identities :: "int \<Rightarrow> gerror + (string \<times> int \<times> string \<times> string) list"
  he_latest :: "string \<Rightarrow> gerror + string \<times> rest_pull option"

record hydrate_request =
  hr_repositoryID :: int
  hr_owner :: string
  hr_name :: string
  hr_node :: PullRequestNode
  hr_mirrored :: "CodeownersSourceRecord option"
  hr_force :: bool
  hr_pullETag :: string

text \<open>Files with their rename sources, the validator and the flag.\<close>

definition hydrate_files ::
  "hydrate_env \<Rightarrow> PullRequestChangeFetchMetadata \<Rightarrow> ChangedFileRecord list \<Rightarrow> bool \<Rightarrow> (gerror + ChangedFileRecord list \<times> string \<times> bool) option" where
  "hydrate_files env metadata files truncated =
     (if \<not> list_ex is_rename files then Some (Inr (files, cm_etag metadata, truncated))
      else case PullRequestFileRenamesConditional (cm_etag metadata) (he_pages env) of
             None \<Rightarrow> None
           | Some (Inl e) \<Rightarrow> Some (Inl (ErrWrap ''fetch PR rename paths'' [e]))
           | Some (Inr (listed, response)) \<Rightarrow>
               let renames = (if fr_notModified response then cm_previousPaths metadata else listed);
                   renamed = map (rename_file renames) files in
               Some (Inr (renamed, fr_etag response, truncated \<or> fr_truncated response \<or> list_ex lacks_source renamed)))"

definition hydrate_source :: "hydrate_env \<Rightarrow> hydrate_request \<Rightarrow> gerror + CodeownersSource" where
  "hydrate_source env rq =
     (let node = hr_node rq in
      if pn_baseRefOID node = [] then Inr (no_source\<lparr>cs_state := CodeownersUnavailable\<rparr>)
      else if hr_force rq then FindCodeowners (he_content env (pn_baseRefOID node)) (pn_baseRefOID node) None
      else he_resolve env \<lparr>rc_repo = hr_repositoryID rq, rc_owner = hr_owner rq, rc_name = hr_name rq, rc_ref = pn_baseRefName node,
                           rc_sha = pn_baseRefOID node, rc_mirrored = hr_mirrored rq\<rparr>)"

definition verify_fence :: "hydrate_env \<Rightarrow> hydrate_request \<Rightarrow> PullRequestChangeSnapshotRecord \<Rightarrow> gerror + PullRequestChangeSnapshotRecord \<times> PullRequestFence" where
  "verify_fence env rq snapshot =
     (case he_latest env (hr_pullETag rq) of
        Inl e \<Rightarrow> Inl (ErrWrap ''verify PR change-input fence'' [e])
      | Inr (etag, None) \<Rightarrow> Inr (snapshot, \<lparr>pf_etag = etag, pf_pull = None\<rparr>)
      | Inr (etag, Some latest) \<Rightarrow>
          if lp_baseSHA latest \<noteq> sp_baseSHA snapshot \<or> lp_headSHA latest \<noteq> sp_headSHA snapshot then
            Inl (ErrText ''verify PR change-input fence: base/head changed during observation'')
          else if lp_updatedAt latest \<noteq> pn_updatedAt (hr_node rq) then
            Inl (ErrText ''verify PR change-input fence: parent updated_at changed during observation'')
          else Inr (snapshot, \<lparr>pf_etag = etag, pf_pull = Some latest\<rparr>))"

definition hydrateFromMirror ::
  "(string \<Rightarrow> string) \<Rightarrow> hydrate_env \<Rightarrow> hydrate_request \<Rightarrow> (gerror + PullRequestChangeSnapshotRecord \<times> PullRequestFence) option" where
  "hydrateFromMirror digest env rq =
     (let node = hr_node rq in
      case he_rows env of
        Inl e \<Rightarrow> Some (Inl (ErrWrap ''read PR changed-files validator'' [e]))
      | Inr rows \<Rightarrow>
          (case snapshot_files node of
             (files, count, truncated) \<Rightarrow>
               (case hydrate_files env (PullRequestChangeMetadata rows) files truncated of
                  None \<Rightarrow> None
                | Some (Inl e) \<Rightarrow> Some (Inl e)
                | Some (Inr (files, etag, truncated)) \<Rightarrow>
                    (case hydrate_source env rq of
                       Inl e \<Rightarrow> Some (Inl (ErrWrap ''fetch effective CODEOWNERS'' [e]))
                     | Inr source \<Rightarrow>
                         (case ResolveFileOwnerIdentities (he_repo env) (he_identities env) (hr_owner rq) (snapshot_owners source files) of
                            Inl e \<Rightarrow> Some (Inl (ErrWrap ''resolve CODEOWNERS identities'' [e]))
                          | Inr resolved \<Rightarrow>
                              Some (verify_fence env rq
                                \<lparr>sp_baseSHA = pn_baseRefOID node, sp_headSHA = pn_headRefOID node, sp_etag = etag,
                                 sp_filesTotalCount = count, sp_filesTruncated = truncated,
                                 sp_codeownersRef = pn_baseRefName node, sp_codeownersSHA = pn_baseRefOID node,
                                 sp_codeownersPath = cs_path source, sp_codeownersState = cs_state source,
                                 sp_codeownersSource = cs_content source, sp_codeownersHash = sourceHash digest source,
                                 sp_codeownersETag = cs_etag source,
                                 sp_files = sort_key fl_path files,
                                 sp_owners = sort_key (\<lambda>owner. (fo_path owner, fo_token owner))
                                   (resolveObservedIdentities resolved (hr_owner rq) node)\<rparr>))))))"

text \<open>The three entry points: drift inspection reads CODEOWNERS afresh with a resolver of its own, refreshes start
  from the mirrored record, with or without the validator of the pull request.\<close>

definition without_fence :: "gerror + PullRequestChangeSnapshotRecord \<times> PullRequestFence \<Rightarrow> gerror + PullRequestChangeSnapshotRecord" where
  "without_fence r = (case r of Inl e \<Rightarrow> Inl e | Inr (snapshot, fence) \<Rightarrow> Inr snapshot)"

definition Hydrate :: "(string \<Rightarrow> string) \<Rightarrow> hydrate_env \<Rightarrow> hydrate_request \<Rightarrow> (gerror + PullRequestChangeSnapshotRecord) option" where
  "Hydrate digest env rq = map_option without_fence (hydrateFromMirror digest env (rq\<lparr>hr_mirrored := None, hr_force := True, hr_pullETag := []\<rparr>))"

definition HydrateFromMirror :: "(string \<Rightarrow> string) \<Rightarrow> hydrate_env \<Rightarrow> hydrate_request \<Rightarrow> (gerror + PullRequestChangeSnapshotRecord) option" where
  "HydrateFromMirror digest env rq = map_option without_fence (hydrateFromMirror digest env (rq\<lparr>hr_pullETag := []\<rparr>))"

definition HydrateFromMirrorConditional ::
  "(string \<Rightarrow> string) \<Rightarrow> hydrate_env \<Rightarrow> hydrate_request \<Rightarrow> (gerror + PullRequestChangeSnapshotRecord \<times> PullRequestFence) option" where
  "HydrateFromMirrorConditional digest env rq = hydrateFromMirror digest env rq"

end
