(* ===== verification/Node_Properties.thy ===== *)
theory Node_Properties
  imports Pull_Nodes
begin

text \<open>What completing a pull-request node gives: every connection is whole, each node once and in the
  server's order; the changed files are the whole diff of the node's commits unless they are flagged
  as truncated, though the pull request may move while its pages are read.\<close>

section \<open>Pages of a list\<close>

text \<open>A page of a list from a position on: the next nodes, whether more follow, and the cursor after it.\<close>

definition served :: "(nat \<Rightarrow> string) \<Rightarrow> 'a list \<Rightarrow> nat \<Rightarrow> 'a list \<Rightarrow> PageInfo \<Rightarrow> bool" where
  "served cur all p nodes info \<longleftrightarrow>
     p \<le> length all \<and> nodes = take (length nodes) (drop p all) \<and>
     (pi_hasNextPage info \<longleftrightarrow> p + length nodes < length all) \<and>
     (pi_hasNextPage info \<longrightarrow> pi_endCursor info = Some (cur (p + length nodes)))"

lemma served_append:
  assumes "served cur all 0 xs info" and "served cur all (length xs) ys info'"
  shows "served cur all 0 (xs @ ys) info'"
proof -
  from assms have xs: "xs = take (length xs) all" and ys: "ys = take (length ys) (drop (length xs) all)"
    by (simp_all add: served_def)
  have "take (length xs + length ys) all = xs @ ys" by (subst take_add) (use xs ys in simp)
  then show ?thesis using assms(2) by (simp add: served_def)
qed

lemma served_whole:
  assumes "served cur all 0 xs info" and "\<not> pi_hasNextPage info"
  shows "xs = all"
  using assms unfolding served_def by (metis add_0 drop_0 linorder_not_less take_all)

lemma served_prefix: "served cur all 0 xs info \<Longrightarrow> xs = take (length xs) all"
  by (simp add: served_def)

lemma served_length: "served cur all 0 xs info \<Longrightarrow> length xs \<le> length all"
  by (metis length_take min.cobounded1 served_prefix)

text \<open>Every page a call gives for a position is a page of the list from there.\<close>

definition pages_honest :: "(nat \<Rightarrow> string) \<Rightarrow> 'a list \<Rightarrow> (string \<Rightarrow> gerror + 'a connection option) \<Rightarrow> bool" where
  "pages_honest cur all ask \<longleftrightarrow>
     (\<forall>p page. ask (cur p) = Inr (Some page) \<longrightarrow> served cur all p (cn_nodes page) (cn_pageInfo page))"

text \<open>Every call answers, and moves on.\<close>

definition pages_answered :: "(nat \<Rightarrow> string) \<Rightarrow> 'a list \<Rightarrow> (string \<Rightarrow> gerror + 'a connection option) \<Rightarrow> bool" where
  "pages_answered cur all ask \<longleftrightarrow>
     (\<forall>p < length all. \<exists>page. ask (cur p) = Inr (Some page) \<and> cn_nodes page \<noteq> [])"

definition conn_served :: "(nat \<Rightarrow> string) \<Rightarrow> 'a list \<Rightarrow> 'a connection \<Rightarrow> bool" where
  "conn_served cur all conn \<longleftrightarrow> served cur all 0 (cn_nodes conn) (cn_pageInfo conn)"

lemma connection_step:
  assumes "conn_served cur all conn" and "pi_hasNextPage (cn_pageInfo conn)" and "pages_honest cur all answer"
    and "answer after = Inr (Some page)" and "pi_endCursor (cn_pageInfo conn) = Some after"
  shows "conn_served cur all (conn\<lparr>cn_nodes := cn_nodes conn @ cn_nodes page, cn_pageInfo := cn_pageInfo page\<rparr>)"
proof -
  have "after = cur (length (cn_nodes conn))" using assms(1,2,5) by (simp add: conn_served_def served_def)
  with assms(3,4) have "served cur all (length (cn_nodes conn)) (cn_nodes page) (cn_pageInfo page)" by (simp add: pages_honest_def)
  with assms(1) show ?thesis by (simp add: conn_served_def served_append)
qed

lemma complete_connection_whole:
  assumes "complete_connection what ask conn calls = Some (Inr conn', rest)" and "conn_served cur all conn"
    and "\<forall>call \<in> set calls. pages_honest cur all (ask call)"
  shows "cn_nodes conn' = all" "set rest \<subseteq> set calls"
proof -
  have "cn_nodes conn' = all \<and> set rest \<subseteq> set calls" using assms
  proof (induction what ask conn calls rule: complete_connection.induct)
    case (1 what ask conn calls)
    show ?case
    proof (cases "pi_hasNextPage (cn_pageInfo conn)")
      case False
      then show ?thesis using "1.prems" served_whole
        by (subst (asm) complete_connection.simps) (auto simp: conn_served_def)
    next
      case more: True
      with "1.prems"(1) obtain after call rs page
        where s: "pi_endCursor (cn_pageInfo conn) = Some after" "calls = call # rs" "ask call after = Inr (Some page)"
        and rec: "complete_connection what ask (conn\<lparr>cn_nodes := cn_nodes conn @ cn_nodes page, cn_pageInfo := cn_pageInfo page\<rparr>) rs =
          Some (Inr conn', rest)"
        by (subst (asm) complete_connection.simps) (auto split: option.splits list.splits sum.splits)
      have "conn_served cur all (conn\<lparr>cn_nodes := cn_nodes conn @ cn_nodes page, cn_pageInfo := cn_pageInfo page\<rparr>)"
        using connection_step [where answer = "ask call", OF "1.prems"(2) more _ s(3,1)] "1.prems"(3) s(2) by simp
      with "1.IH" [of after call rs] more s rec "1.prems"(3) show ?thesis by auto
    qed
  qed
  then show "cn_nodes conn' = all" "set rest \<subseteq> set calls" by simp_all
qed

lemma complete_connection_returns:
  assumes "conn_served cur all conn" and "\<forall>call \<in> set calls. pages_honest cur all (ask call) \<and> pages_answered cur all (ask call)"
    and "length all \<le> length (cn_nodes conn) + length calls"
  shows "\<exists>conn' rest. complete_connection what ask conn calls = Some (Inr conn', rest) \<and>
    length calls + length (cn_nodes conn) \<le> length rest + length all"
  using assms
proof (induction what ask conn calls rule: complete_connection.induct)
  case (1 what ask conn calls)
  show ?case
  proof (cases "pi_hasNextPage (cn_pageInfo conn)")
    case False
    then show ?thesis using served_length "1.prems"(1) by (subst complete_connection.simps) (auto simp: conn_served_def)
  next
    case more: True
    let ?p = "length (cn_nodes conn)"
    from more "1.prems"(1) have p: "?p < length all" "pi_endCursor (cn_pageInfo conn) = Some (cur ?p)"
      by (simp_all add: conn_served_def served_def)
    with "1.prems"(3) obtain call rs where calls: "calls = call # rs" by (cases calls) auto
    with "1.prems"(2) p(1) obtain page where page: "ask call (cur ?p) = Inr (Some page)" "cn_nodes page \<noteq> []"
      by (auto simp: pages_answered_def)
    let ?conn = "conn\<lparr>cn_nodes := cn_nodes conn @ cn_nodes page, cn_pageInfo := cn_pageInfo page\<rparr>"
    have "conn_served cur all ?conn"
      using connection_step [where answer = "ask call", OF "1.prems"(1) more _ page(1) p(2)] "1.prems"(2) calls by simp
    moreover have "length all \<le> length (cn_nodes ?conn) + length rs"
      using "1.prems"(3) calls page(2) by (cases "cn_nodes page") auto
    ultimately obtain conn' rest where "complete_connection what ask ?conn rs = Some (Inr conn', rest)"
      "length rs + length (cn_nodes ?conn) \<le> length rest + length all"
      using "1.IH" [of "cur ?p" call rs "Some page" page] more p(2) calls page(1) "1.prems"(2) by auto
    moreover have "length calls + ?p \<le> length rs + length (cn_nodes ?conn)" using calls page(2) by (cases "cn_nodes page") auto
    ultimately show ?thesis using more p(2) calls page(1) by (subst complete_connection.simps) simp
  qed
qed

section \<open>Files\<close>

text \<open>Every page of files that was read at the node's commits is a page of their diff; other replies may
  be anything.\<close>

definition files_honest :: "(nat \<Rightarrow> string) \<Rightarrow> PullRequestChangedFileNode list \<Rightarrow> string \<Rightarrow> string \<Rightarrow> string \<Rightarrow> graphql_call \<Rightarrow> bool" where
  "files_honest cur diff pid base head call \<longleftrightarrow>
     (\<forall>p page found. gq_files call pid (cur p) = Inr (Some page) \<longrightarrow> fp_baseRefOID page = base \<longrightarrow> fp_headRefOID page = head \<longrightarrow>
        fp_files page = Some found \<longrightarrow> served cur diff p (fc_nodes found) (fc_pageInfo found))"

text \<open>While files are collected they are a beginning of the diff within the limit, and the cursor
  continues it unless they were cut.\<close>

definition files_ok :: "(nat \<Rightarrow> string) \<Rightarrow> PullRequestChangedFileNode list \<Rightarrow> PullRequestFilesConnection \<Rightarrow> bool" where
  "files_ok cur diff files \<longleftrightarrow>
     fc_nodes files = take (length (fc_nodes files)) diff \<and> length (fc_nodes files) \<le> MaxPullRequestFiles \<and>
     (served cur diff 0 (fc_nodes files) (fc_pageInfo files) \<or>
      fc_truncated files \<and> length (fc_nodes files) = MaxPullRequestFiles)"

lemma files_okI:
  "fc_nodes files = xs \<Longrightarrow> fc_pageInfo files = info \<Longrightarrow> xs = take (length xs) diff \<Longrightarrow> length xs \<le> MaxPullRequestFiles \<Longrightarrow>
    served cur diff 0 xs info \<Longrightarrow> files_ok cur diff files"
  by (simp add: files_ok_def)

lemma cap_files_ok:
  assumes "served cur diff 0 (fc_nodes files) (fc_pageInfo files)"
  shows "files_ok cur diff (cap_files files)"
proof (cases "MaxPullRequestFiles < length (fc_nodes files)")
  case True
  have "take MaxPullRequestFiles (fc_nodes files) = take MaxPullRequestFiles diff"
    using served_prefix [OF assms] True by (metis min.absorb1 less_imp_le take_take)
  then show ?thesis using True served_length [OF assms] by (simp add: cap_files_def files_ok_def min_def)
next
  case False
  then show ?thesis using assms served_prefix [OF assms] by (simp add: cap_files_def files_ok_def)
qed

lemma files_step:
  assumes "files_ok cur diff files" and "length (fc_nodes files) < MaxPullRequestFiles"
    and "served cur diff (length (fc_nodes files)) (fc_nodes found) (fc_pageInfo found)"
  shows "files_ok cur diff (files\<lparr>fc_nodes := fc_nodes files @ take (MaxPullRequestFiles - length (fc_nodes files)) (fc_nodes found),
      fc_pageInfo := fc_pageInfo found,
      fc_truncated := (fc_truncated files \<or> MaxPullRequestFiles - length (fc_nodes files) < length (fc_nodes found) \<or>
        fc_totalCount found \<noteq> fc_totalCount files)\<rparr>)"
proof -
  let ?n = "length (fc_nodes files)"
  let ?r = "MaxPullRequestFiles - ?n"
  have at: "served cur diff 0 (fc_nodes files) (fc_pageInfo files)" using assms(1,2) by (auto simp: files_ok_def)
  note all = served_append [OF at assms(3)]
  have pre: "fc_nodes files @ fc_nodes found = take (length (fc_nodes files @ fc_nodes found)) diff" by (rule served_prefix [OF all])
  have "fc_nodes files @ take ?r (fc_nodes found) = take (?n + min ?r (length (fc_nodes found))) (fc_nodes files @ fc_nodes found)"
    by (simp add: min_def)
  also have "\<dots> = take (?n + min ?r (length (fc_nodes found))) diff"
    by (subst pre) (simp add: min_def)
  finally have cut: "fc_nodes files @ take ?r (fc_nodes found) = take (?n + min ?r (length (fc_nodes found))) diff" .
  show ?thesis
  proof (cases "?r < length (fc_nodes found)")
    case True
    then have "MaxPullRequestFiles < length diff" using assms(2) served_length [OF all] by simp
    then show ?thesis using True cut assms(2) by (simp add: files_ok_def min_def)
  next
    case False
    then have "length (fc_nodes files @ fc_nodes found) \<le> MaxPullRequestFiles" using assms(2) by simp
    moreover from False have "take ?r (fc_nodes found) = fc_nodes found" by simp
    ultimately show ?thesis by (intro files_okI [OF _ _ pre _ all]) simp_all
  qed
qed

lemma files_loop_ok:
  assumes "files_loop pid base head files calls = Some (Inr files', rest)" and "files_ok cur diff files"
    and "\<forall>call \<in> set calls. files_honest cur diff pid base head call"
  shows "files_ok cur diff files' \<and> set rest \<subseteq> set calls"
  using assms
proof (induction pid base head files calls rule: files_loop.induct)
  case (1 pid base head files calls)
  show ?case
  proof (cases "pi_hasNextPage (fc_pageInfo files) \<and> length (fc_nodes files) < MaxPullRequestFiles")
    case False
    then show ?thesis using "1.prems" by (subst (asm) files_loop.simps) auto
  next
    case more: True
    with "1.prems"(1) obtain after call rs where s: "pi_endCursor (fc_pageInfo files) = Some after" "calls = call # rs"
      by (subst (asm) files_loop.simps) (auto split: option.splits list.splits)
    have flagged: "files_ok cur diff (files\<lparr>fc_truncated := True\<rparr>)" using "1.prems"(2) by (auto simp: files_ok_def)
    consider "files' = files\<lparr>fc_truncated := True\<rparr>" "rest = rs"
      | page found where "gq_files call pid after = Inr (Some page)" "fp_files page = Some found"
        "fp_baseRefOID page = base" "fp_headRefOID page = head"
      using "1.prems"(1) more s by (subst (asm) files_loop.simps) (auto split: option.splits sum.splits if_splits)
    then show ?thesis
    proof cases
      case 1
      then show ?thesis using flagged s(2) by auto
    next
      case 2
      have "served cur diff 0 (fc_nodes files) (fc_pageInfo files)" using "1.prems"(2) more by (auto simp: files_ok_def)
      then have "after = cur (length (fc_nodes files))" using more s(1) by (simp add: served_def)
      with 2 "1.prems"(3) s(2) have "served cur diff (length (fc_nodes files)) (fc_nodes found) (fc_pageInfo found)"
        by (simp add: files_honest_def)
      note next_ok = files_step [OF "1.prems"(2) conjunct2 [OF more] this]
      have "files_loop pid base head (files\<lparr>fc_nodes := fc_nodes files @ take (MaxPullRequestFiles - length (fc_nodes files)) (fc_nodes found),
          fc_pageInfo := fc_pageInfo found,
          fc_truncated := (fc_truncated files \<or> MaxPullRequestFiles - length (fc_nodes files) < length (fc_nodes found) \<or>
            fc_totalCount found \<noteq> fc_totalCount files)\<rparr>) rs = Some (Inr files', rest)"
        using "1.prems"(1) more s 2 by (subst (asm) files_loop.simps) (simp add: Let_def)
      with "1.IH" [of after call rs "Some page" page found] next_ok more s 2 "1.prems"(3) show ?thesis by (auto simp: Let_def)
    qed
  qed
qed

text \<open>The files of a completed node.\<close>

definition files_whole :: "PullRequestChangedFileNode list \<Rightarrow> PullRequestFilesConnection \<Rightarrow> bool" where
  "files_whole diff files \<longleftrightarrow>
     fc_nodes files = take (length (fc_nodes files)) diff \<and> length (fc_nodes files) \<le> MaxPullRequestFiles \<and>
     (fc_truncated files \<or> fc_nodes files = diff \<and> fc_totalCount files = int (length diff))"

lemma flag_files_whole: "files_ok cur diff files \<Longrightarrow> files_whole diff (flag_files files)"
  using served_whole [of cur diff "fc_nodes files" "fc_pageInfo files"]
  by (auto simp: files_ok_def files_whole_def flag_files_def)

lemma and_then_Inr:
  "and_then r f = Some (Inr y, rest) \<longleftrightarrow> (\<exists>x calls. r = Some (Inr x, calls) \<and> f x calls = Some (Inr y, rest))"
  by (auto simp: and_then_def split: option.split sum.split)

lemma complete_files_whole:
  assumes "complete_files pull calls = Some (Inr pull', rest)"
    and "\<forall>files. pn_files pull = Some files \<longrightarrow> served cur diff 0 (fc_nodes files) (fc_pageInfo files)"
    and "\<forall>call \<in> set calls. files_honest cur diff (pn_id pull) (pn_baseRefOID pull) (pn_headRefOID pull) call"
  shows "pull' = pull\<lparr>pn_files := pn_files pull'\<rparr> \<and> set rest \<subseteq> set calls \<and>
    (pn_files pull' = None \<longleftrightarrow> pn_files pull = None) \<and> (\<forall>files. pn_files pull' = Some files \<longrightarrow> files_whole diff files)"
proof (cases "pn_files pull")
  case None
  then show ?thesis using assms(1) by (auto simp: complete_files_def)
next
  case (Some files)
  with assms(1) obtain files' where loop: "files_loop (pn_id pull) (pn_baseRefOID pull) (pn_headRefOID pull) (cap_files files) calls =
      Some (Inr files', rest)" and pull': "pull' = pull\<lparr>pn_files := Some (flag_files files')\<rparr>"
    by (auto simp: complete_files_def and_then_Inr)
  have "files_ok cur diff (cap_files files)" using assms(2) Some by (simp add: cap_files_ok)
  from files_loop_ok [OF loop this assms(3)] show ?thesis using pull' Some flag_files_whole by fastforce
qed

text \<open>Calls that answer for files: a page at the node's commits that moves on.\<close>

definition files_answered :: "(nat \<Rightarrow> string) \<Rightarrow> PullRequestChangedFileNode list \<Rightarrow> string \<Rightarrow> string \<Rightarrow> string \<Rightarrow> graphql_call \<Rightarrow> bool" where
  "files_answered cur diff pid base head call \<longleftrightarrow>
     (\<forall>p < length diff. \<exists>page found. gq_files call pid (cur p) = Inr (Some page) \<and> fp_baseRefOID page = base \<and>
        fp_headRefOID page = head \<and> fp_files page = Some found \<and> fc_nodes found \<noteq> [])"

lemma files_loop_returns:
  assumes "files_ok cur diff files"
    and "\<forall>call \<in> set calls. files_honest cur diff pid base head call \<and> files_answered cur diff pid base head call"
    and "length diff \<le> length (fc_nodes files) + length calls"
  shows "\<exists>files' rest. files_loop pid base head files calls = Some (Inr files', rest) \<and>
    length calls + length (fc_nodes files) \<le> length rest + length diff"
  using assms
proof (induction pid base head files calls rule: files_loop.induct)
  case (1 pid base head files calls)
  let ?p = "length (fc_nodes files)"
  show ?case
  proof (cases "pi_hasNextPage (fc_pageInfo files) \<and> ?p < MaxPullRequestFiles")
    case False
    have "?p \<le> length diff" using "1.prems"(1) unfolding files_ok_def by (metis length_take min.cobounded1)
    then show ?thesis using False by (subst files_loop.simps) auto
  next
    case more: True
    have "served cur diff 0 (fc_nodes files) (fc_pageInfo files)" using "1.prems"(1) more by (auto simp: files_ok_def)
    with more have p: "?p < length diff" "pi_endCursor (fc_pageInfo files) = Some (cur ?p)" by (simp_all add: served_def)
    with "1.prems"(3) obtain call rs where calls: "calls = call # rs" by (cases calls) auto
    with "1.prems"(2) p(1) obtain page found where page: "gq_files call pid (cur ?p) = Inr (Some page)" "fp_baseRefOID page = base"
      "fp_headRefOID page = head" "fp_files page = Some found" "fc_nodes found \<noteq> []"
      unfolding files_answered_def by (metis list.set_intros(1))
    let ?r = "MaxPullRequestFiles - ?p"
    let ?files = "files\<lparr>fc_nodes := fc_nodes files @ take ?r (fc_nodes found), fc_pageInfo := fc_pageInfo found,
          fc_truncated := (fc_truncated files \<or> ?r < length (fc_nodes found) \<or> fc_totalCount found \<noteq> fc_totalCount files)\<rparr>"
    have "served cur diff ?p (fc_nodes found) (fc_pageInfo found)"
      using "1.prems"(2) calls page unfolding files_honest_def by auto
    with "1.prems"(1) more have ok: "files_ok cur diff ?files" by (intro files_step) auto
    have "1 \<le> length (take ?r (fc_nodes found))" using more page(5) by (cases "fc_nodes found") auto
    then have grows: "length calls + ?p \<le> length rs + length (fc_nodes ?files)" using calls by simp
    then have "length diff \<le> length (fc_nodes ?files) + length rs" using "1.prems"(3) by linarith
    note enough = this
    have "\<exists>files' rest. files_loop pid base head ?files rs = Some (Inr files', rest) \<and>
      length rs + length (fc_nodes ?files) \<le> length rest + length diff"
      by (rule "1.IH" [of "cur ?p" call rs "Some page" page found ?r]) (use more p(2) calls page "1.prems"(2) ok enough in simp_all)
    then obtain files' rest where rec: "files_loop pid base head ?files rs = Some (Inr files', rest)"
      and used: "length rs + length (fc_nodes ?files) \<le> length rest + length diff" by blast
    have "files_loop pid base head files calls = Some (Inr files', rest)"
      using rec more p(2) calls page by (subst files_loop.simps) (simp add: Let_def)
    moreover have "length calls + ?p \<le> length rest + length diff" using grows used by linarith
    ultimately show ?thesis by blast
  qed
qed

section \<open>Review threads\<close>

definition thread_head :: "ReviewThreadNode \<Rightarrow> string \<times> bool \<times> bool \<times> string \<times> int option" where
  "thread_head t = (tn_id t, tn_isResolved t, tn_isOutdated t, tn_path t, tn_line t)"

text \<open>What a server holds of a pull request: the lists behind its connections, and their cursors.\<close>

record pull_truth =
  tr_files :: "PullRequestChangedFileNode list"
  tr_reviewRequests :: "ReviewRequestNode list"
  tr_reviews :: "PullRequestReviewNode list"
  tr_comments :: "IssueCommentNode list"
  tr_threads :: "(string \<times> bool \<times> bool \<times> string \<times> int option) list"
  tr_threadComments :: "string \<Rightarrow> ReviewCommentNode list"
  tr_cursor :: "string \<Rightarrow> nat \<Rightarrow> string"

definition thread_served :: "pull_truth \<Rightarrow> ReviewThreadNode \<Rightarrow> bool" where
  "thread_served tr t \<longleftrightarrow> conn_served (tr_cursor tr (tn_id t)) (tr_threadComments tr (tn_id t)) (tn_comments t)"

definition thread_whole :: "pull_truth \<Rightarrow> ReviewThreadNode \<Rightarrow> bool" where
  "thread_whole tr t \<longleftrightarrow> cn_nodes (tn_comments t) = tr_threadComments tr (tn_id t)"

definition threads_honest :: "pull_truth \<Rightarrow> string \<Rightarrow> graphql_call \<Rightarrow> bool" where
  "threads_honest tr pid call \<longleftrightarrow>
     (\<forall>tid. pages_honest (tr_cursor tr tid) (tr_threadComments tr tid) (gq_threadComments call tid)) \<and>
     (\<forall>p page. gq_reviewThreads call pid (tr_cursor tr ''reviewThreads'' p) = Inr (Some page) \<longrightarrow>
        served (tr_cursor tr ''reviewThreads'') (tr_threads tr) p (map thread_head (cn_nodes page)) (cn_pageInfo page) \<and>
        (\<forall>t \<in> set (cn_nodes page). thread_served tr t))"

definition threads_answered :: "pull_truth \<Rightarrow> string \<Rightarrow> graphql_call \<Rightarrow> bool" where
  "threads_answered tr pid call \<longleftrightarrow>
     (\<forall>tid. pages_answered (tr_cursor tr tid) (tr_threadComments tr tid) (gq_threadComments call tid)) \<and>
     (\<forall>p < length (tr_threads tr). \<exists>page. gq_reviewThreads call pid (tr_cursor tr ''reviewThreads'' p) = Inr (Some page) \<and>
        cn_nodes page \<noteq> [])"

lemma thread_comments_whole:
  assumes "completeReviewThreadComments t calls = Some (Inr t', rest)" and "thread_served tr t"
    and "\<forall>call \<in> set calls. threads_honest tr pid call"
  shows "thread_head t' = thread_head t" "thread_whole tr t'" "set rest \<subseteq> set calls"
proof -
  from assms(1) obtain conn where c: "complete_connection ''review thread comments'' (\<lambda>call. gq_threadComments call (tn_id t)) (tn_comments t) calls =
      Some (Inr conn, rest)" and t': "t' = t\<lparr>tn_comments := conn\<rparr>"
    by (auto simp: completeReviewThreadComments_def and_then_Inr)
  note w = complete_connection_whole [OF c, of "tr_cursor tr (tn_id t)" "tr_threadComments tr (tn_id t)"]
  show "thread_head t' = thread_head t" "thread_whole tr t'" "set rest \<subseteq> set calls"
    using w assms(2,3) t' by (simp_all add: thread_head_def thread_whole_def thread_served_def threads_honest_def)
qed

lemma complete_threads_whole:
  assumes "complete_threads ts calls = Some (Inr ts', rest)" and "\<forall>t \<in> set ts. thread_served tr t"
    and "\<forall>call \<in> set calls. threads_honest tr pid call"
  shows "map thread_head ts' = map thread_head ts \<and> (\<forall>t \<in> set ts'. thread_whole tr t) \<and> set rest \<subseteq> set calls"
  using assms
proof (induction ts arbitrary: calls ts')
  case (Cons t ts)
  from Cons.prems(1) obtain t1 mid ts1 where first: "completeReviewThreadComments t calls = Some (Inr t1, mid)"
    and others: "complete_threads ts mid = Some (Inr ts1, rest)" and ts': "ts' = t1 # ts1" by (auto simp: and_then_Inr)
  note f = thread_comments_whole [OF first _ Cons.prems(3)]
  with Cons.prems(2,3) Cons.IH [OF others] ts' show ?case by fastforce
qed auto

lemma thread_comments_return:
  assumes "thread_served tr t" and "\<forall>call \<in> set calls. threads_honest tr pid call \<and> threads_answered tr pid call"
    and "length (tr_threadComments tr (tn_id t)) \<le> length calls"
  shows "\<exists>t' rest. completeReviewThreadComments t calls = Some (Inr t', rest) \<and>
    length calls \<le> length rest + length (tr_threadComments tr (tn_id t))"
proof -
  have "\<exists>conn rest. complete_connection ''review thread comments'' (\<lambda>call. gq_threadComments call (tn_id t)) (tn_comments t) calls =
      Some (Inr conn, rest) \<and> length calls + length (cn_nodes (tn_comments t)) \<le> length rest + length (tr_threadComments tr (tn_id t))"
    using assms by (intro complete_connection_returns) (auto simp: thread_served_def threads_honest_def threads_answered_def)
  then show ?thesis unfolding completeReviewThreadComments_def and_then_def by fastforce
qed

text \<open>The calls that threads may need: one each, and one per comment.\<close>

definition comment_calls :: "pull_truth \<Rightarrow> ReviewThreadNode list \<Rightarrow> nat" where
  "comment_calls tr ts = (\<Sum>t \<leftarrow> ts. length (tr_threadComments tr (tn_id t)))"

definition thread_calls :: "pull_truth \<Rightarrow> (string \<times> bool \<times> bool \<times> string \<times> int option) list \<Rightarrow> nat" where
  "thread_calls tr hs = (\<Sum>h \<leftarrow> hs. 1 + length (tr_threadComments tr (fst h)))"

lemma thread_calls_append: "thread_calls tr (xs @ ys) = thread_calls tr xs + thread_calls tr ys"
  by (simp add: thread_calls_def)

lemma thread_calls_heads: "thread_calls tr (map thread_head ts) = length ts + comment_calls tr ts"
  by (induction ts) (simp_all add: thread_calls_def comment_calls_def thread_head_def)

lemma complete_threads_return:
  assumes "\<forall>t \<in> set ts. thread_served tr t" and "\<forall>call \<in> set calls. threads_honest tr pid call \<and> threads_answered tr pid call"
    and "comment_calls tr ts \<le> length calls"
  shows "\<exists>ts' rest. complete_threads ts calls = Some (Inr ts', rest) \<and> length calls \<le> length rest + comment_calls tr ts"
  using assms
proof (induction ts arbitrary: calls)
  case (Cons t ts)
  have "length (tr_threadComments tr (tn_id t)) \<le> length calls" using Cons.prems(3) by (simp add: comment_calls_def)
  with Cons.prems obtain t' mid where first: "completeReviewThreadComments t calls = Some (Inr t', mid)"
    "length calls \<le> length mid + length (tr_threadComments tr (tn_id t))"
    using thread_comments_return [of tr t calls pid] by auto
  have "set mid \<subseteq> set calls" using thread_comments_whole(3) [OF first(1), of tr pid] Cons.prems(1,2) by simp
  then have left: "\<forall>call \<in> set mid. threads_honest tr pid call \<and> threads_answered tr pid call" using Cons.prems(2) by blast
  have "comment_calls tr ts \<le> length mid" using Cons.prems(3) first(2) by (simp add: comment_calls_def)
  with Cons.IH [OF _ left] Cons.prems(1) obtain ts' rest
    where "complete_threads ts mid = Some (Inr ts', rest)" "length mid \<le> length rest + comment_calls tr ts" by auto
  with first show ?case by (simp add: and_then_def comment_calls_def)
qed (simp add: comment_calls_def)

lemma threads_loop_whole:
  assumes "threads_loop fuel pid conn calls = Some (Inr conn', rest)"
    and "served (tr_cursor tr ''reviewThreads'') (tr_threads tr) 0 (map thread_head (cn_nodes conn)) (cn_pageInfo conn)"
    and "\<forall>t \<in> set (cn_nodes conn). thread_whole tr t" and "\<forall>call \<in> set calls. threads_honest tr pid call"
  shows "map thread_head (cn_nodes conn') = tr_threads tr \<and> (\<forall>t \<in> set (cn_nodes conn'). thread_whole tr t)"
  using assms
proof (induction fuel arbitrary: conn calls)
  case 0
  have "\<not> pi_hasNextPage (cn_pageInfo conn) \<and> conn' = conn"
    using "0.prems"(1) by (simp add: threads_loop.simps [of 0] split: option.splits if_splits)
  then show ?case using 0 served_whole by blast
next
  case (Suc fuel)
  let ?at = "\<lambda>conn. served (tr_cursor tr ''reviewThreads'') (tr_threads tr) 0 (map thread_head (cn_nodes conn)) (cn_pageInfo conn)"
  show ?case
  proof (cases "pi_hasNextPage (cn_pageInfo conn)")
    case False
    then show ?thesis using Suc.prems served_whole by (subst (asm) threads_loop.simps) auto
  next
    case more: True
    with Suc.prems(1) obtain after call rs page threads mid
      where s: "pi_endCursor (cn_pageInfo conn) = Some after" "calls = call # rs" "gq_reviewThreads call pid after = Inr (Some page)"
        "complete_threads (cn_nodes page) rs = Some (Inr threads, mid)"
      and rec: "threads_loop fuel pid (conn\<lparr>cn_nodes := cn_nodes conn @ threads, cn_pageInfo := cn_pageInfo page\<rparr>) mid = Some (Inr conn', rest)"
      by (subst (asm) threads_loop.simps) (auto simp: and_then_Inr split: option.splits list.splits sum.splits)
    have "after = tr_cursor tr ''reviewThreads'' (length (map thread_head (cn_nodes conn)))"
      using Suc.prems(2) more s(1) by (simp add: served_def)
    with s(2,3) Suc.prems(4) have page: "served (tr_cursor tr ''reviewThreads'') (tr_threads tr) (length (map thread_head (cn_nodes conn)))
        (map thread_head (cn_nodes page)) (cn_pageInfo page)" "\<forall>t \<in> set (cn_nodes page). thread_served tr t"
      by (auto simp: threads_honest_def)
    have "\<forall>call \<in> set rs. threads_honest tr pid call" using Suc.prems(4) s(2) by simp
    note w = complete_threads_whole [OF s(4) page(2) this]
    have "?at (conn\<lparr>cn_nodes := cn_nodes conn @ threads, cn_pageInfo := cn_pageInfo page\<rparr>)"
      using served_append [OF Suc.prems(2) page(1)] w by simp
    with Suc.IH [OF rec] w Suc.prems(3,4) s(2) show ?thesis by auto
  qed
qed

lemma threads_loop_returns:
  assumes "served (tr_cursor tr ''reviewThreads'') (tr_threads tr) 0 (map thread_head (cn_nodes conn)) (cn_pageInfo conn)"
    and "\<forall>call \<in> set calls. threads_honest tr pid call \<and> threads_answered tr pid call"
    and "thread_calls tr (drop (length (cn_nodes conn)) (tr_threads tr)) \<le> length calls"
    and "thread_calls tr (drop (length (cn_nodes conn)) (tr_threads tr)) \<le> fuel"
  shows "\<exists>conn' rest. threads_loop fuel pid conn calls = Some (Inr conn', rest)"
  using assms
proof (induction fuel arbitrary: conn calls)
  let ?cur = "tr_cursor tr ''reviewThreads''" and ?all = "tr_threads tr"
  have enough: "0 < thread_calls tr (drop (length (cn_nodes conn)) ?all)" if "length (cn_nodes conn) < length ?all" for conn :: "ReviewThreadNode connection"
    using that by (cases "drop (length (cn_nodes conn)) ?all") (auto simp: thread_calls_def)
  {
    case 0
    then have "\<not> pi_hasNextPage (cn_pageInfo conn)" using enough [of conn] by (auto simp: served_def)
    then show ?case by (subst threads_loop.simps) simp
  next
    case (Suc fuel)
    show ?case
    proof (cases "pi_hasNextPage (cn_pageInfo conn)")
      case False
      then show ?thesis by (subst threads_loop.simps) simp
    next
      case more: True
      let ?p = "length (cn_nodes conn)"
      from more Suc.prems(1) have p: "?p < length ?all" "pi_endCursor (cn_pageInfo conn) = Some (?cur ?p)"
        by (simp_all add: served_def)
      with Suc.prems(3) enough [of conn] obtain call rs where calls: "calls = call # rs" by (cases calls) auto
      with Suc.prems(2) p(1) obtain page where page: "gq_reviewThreads call pid (?cur ?p) = Inr (Some page)" "cn_nodes page \<noteq> []"
        by (auto simp: threads_answered_def)
      have hon: "served ?cur ?all ?p (map thread_head (cn_nodes page)) (cn_pageInfo page)" "\<forall>t \<in> set (cn_nodes page). thread_served tr t"
        using Suc.prems(2) calls page(1) by (auto simp: threads_honest_def)
      have "map thread_head (cn_nodes page) = take (length (cn_nodes page)) (drop ?p ?all)" using hon(1) by (simp add: served_def)
      then have "drop ?p ?all = map thread_head (cn_nodes page) @ drop (length (cn_nodes page)) (drop ?p ?all)"
        by (metis append_take_drop_id)
      then have split: "thread_calls tr (drop ?p ?all) =
          length (cn_nodes page) + comment_calls tr (cn_nodes page) + thread_calls tr (drop (?p + length (cn_nodes page)) ?all)"
        using thread_calls_append [of tr "map thread_head (cn_nodes page)" "drop (length (cn_nodes page)) (drop ?p ?all)"]
        by (simp add: thread_calls_heads add.commute)
      have one: "1 \<le> length (cn_nodes page)" using page(2) by (cases "cn_nodes page") auto
      have rs: "\<forall>call \<in> set rs. threads_honest tr pid call \<and> threads_answered tr pid call" using Suc.prems(2) calls by simp
      have "comment_calls tr (cn_nodes page) \<le> length rs" using split one Suc.prems(3) calls by simp
      with complete_threads_return [OF hon(2) rs] obtain threads mid
        where t: "complete_threads (cn_nodes page) rs = Some (Inr threads, mid)" "length rs \<le> length mid + comment_calls tr (cn_nodes page)"
        by blast
      have w: "map thread_head threads = map thread_head (cn_nodes page)" "set mid \<subseteq> set rs"
        using complete_threads_whole [OF t(1) hon(2), of pid] rs by auto
      then have len: "length threads = length (cn_nodes page)" by (metis length_map)
      let ?conn = "conn\<lparr>cn_nodes := cn_nodes conn @ threads, cn_pageInfo := cn_pageInfo page\<rparr>"
      have "served ?cur ?all 0 (map thread_head (cn_nodes ?conn)) (cn_pageInfo ?conn)"
        using served_append [OF Suc.prems(1)] hon(1) w(1) by simp
      moreover have "\<forall>call \<in> set mid. threads_honest tr pid call \<and> threads_answered tr pid call" using rs w(2) by blast
      moreover have "thread_calls tr (drop (length (cn_nodes ?conn)) ?all) \<le> length mid"
        using split one t(2) Suc.prems(3) calls len by simp
      moreover have "thread_calls tr (drop (length (cn_nodes ?conn)) ?all) \<le> fuel"
        using split one Suc.prems(4) len by simp
      ultimately have "\<exists>conn' rest. threads_loop fuel pid ?conn mid = Some (Inr conn', rest)" by (rule Suc.IH)
      then show ?thesis using more p(2) calls page(1) t(1) by (subst threads_loop.simps) (simp add: and_then_def)
    qed
  }
qed

section \<open>A whole node\<close>

text \<open>The connections of a node as the batch query returned them, and calls that answer from the same lists.\<close>

definition node_served :: "pull_truth \<Rightarrow> PullRequestNode \<Rightarrow> bool" where
  "node_served tr pull \<longleftrightarrow>
     (\<forall>files. pn_files pull = Some files \<longrightarrow> served (tr_cursor tr ''files'') (tr_files tr) 0 (fc_nodes files) (fc_pageInfo files)) \<and>
     conn_served (tr_cursor tr ''reviewRequests'') (tr_reviewRequests tr) (pn_reviewRequests pull) \<and>
     conn_served (tr_cursor tr ''reviews'') (tr_reviews tr) (pn_reviews pull) \<and>
     conn_served (tr_cursor tr ''comments'') (tr_comments tr) (pn_comments pull) \<and>
     served (tr_cursor tr ''reviewThreads'') (tr_threads tr) 0
       (map thread_head (cn_nodes (pn_reviewThreads pull))) (cn_pageInfo (pn_reviewThreads pull)) \<and>
     (\<forall>t \<in> set (cn_nodes (pn_reviewThreads pull)). thread_served tr t)"

definition call_honest :: "pull_truth \<Rightarrow> PullRequestNode \<Rightarrow> graphql_call \<Rightarrow> bool" where
  "call_honest tr pull call \<longleftrightarrow>
     files_honest (tr_cursor tr ''files'') (tr_files tr) (pn_id pull) (pn_baseRefOID pull) (pn_headRefOID pull) call \<and>
     pages_honest (tr_cursor tr ''reviewRequests'') (tr_reviewRequests tr) (gq_reviewRequests call (pn_id pull)) \<and>
     pages_honest (tr_cursor tr ''reviews'') (tr_reviews tr) (gq_reviews call (pn_id pull)) \<and>
     pages_honest (tr_cursor tr ''comments'') (tr_comments tr) (gq_comments call (pn_id pull)) \<and>
     threads_honest tr (pn_id pull) call"

definition call_answers :: "pull_truth \<Rightarrow> PullRequestNode \<Rightarrow> graphql_call \<Rightarrow> bool" where
  "call_answers tr pull call \<longleftrightarrow>
     files_answered (tr_cursor tr ''files'') (tr_files tr) (pn_id pull) (pn_baseRefOID pull) (pn_headRefOID pull) call \<and>
     pages_answered (tr_cursor tr ''reviewRequests'') (tr_reviewRequests tr) (gq_reviewRequests call (pn_id pull)) \<and>
     pages_answered (tr_cursor tr ''reviews'') (tr_reviews tr) (gq_reviews call (pn_id pull)) \<and>
     pages_answered (tr_cursor tr ''comments'') (tr_comments tr) (gq_comments call (pn_id pull)) \<and>
     threads_answered tr (pn_id pull) call"

text \<open>A completed node: the fields of the node, files that are whole unless flagged, and every other
  connection whole.\<close>

definition node_whole :: "pull_truth \<Rightarrow> PullRequestNode \<Rightarrow> PullRequestNode \<Rightarrow> bool" where
  "node_whole tr pull pull' \<longleftrightarrow>
     pull' = pull\<lparr>pn_files := pn_files pull', pn_reviewRequests := pn_reviewRequests pull', pn_reviews := pn_reviews pull',
                  pn_comments := pn_comments pull', pn_reviewThreads := pn_reviewThreads pull'\<rparr> \<and>
     (case pn_files pull' of None \<Rightarrow> pn_files pull = None | Some files \<Rightarrow> files_whole (tr_files tr) files) \<and>
     cn_nodes (pn_reviewRequests pull') = tr_reviewRequests tr \<and>
     cn_nodes (pn_reviews pull') = tr_reviews tr \<and>
     cn_nodes (pn_comments pull') = tr_comments tr \<and>
     map thread_head (cn_nodes (pn_reviewThreads pull')) = tr_threads tr \<and>
     (\<forall>t \<in> set (cn_nodes (pn_reviewThreads pull')). thread_whole tr t)"

lemma node_whole_fields:
  assumes "node_whole tr pull p"
  shows "pn_baseRefOID p = pn_baseRefOID pull \<and> pn_headRefOID p = pn_headRefOID pull \<and> pn_updatedAt p = pn_updatedAt pull"
proof -
  have eq: "p = pull\<lparr>pn_files := pn_files p, pn_reviewRequests := pn_reviewRequests p, pn_reviews := pn_reviews p,
      pn_comments := pn_comments p, pn_reviewThreads := pn_reviewThreads p\<rparr>" using assms by (simp add: node_whole_def)
  from arg_cong [OF eq, of pn_baseRefOID] arg_cong [OF eq, of pn_headRefOID] arg_cong [OF eq, of pn_updatedAt] show ?thesis by simp
qed

lemma complete_reviewRequests_whole:
  assumes "complete_reviewRequests pull calls = Some (Inr p, rest)" and "\<forall>call \<in> set calls. call_honest tr pull call"
    and "conn_served (tr_cursor tr ''reviewRequests'') (tr_reviewRequests tr) (pn_reviewRequests pull)"
  shows "\<exists>conn. p = pull\<lparr>pn_reviewRequests := conn\<rparr> \<and> cn_nodes conn = tr_reviewRequests tr \<and> set rest \<subseteq> set calls"
proof -
  from assms(1) obtain conn where c: "complete_connection ''reviewRequests'' (\<lambda>call. gq_reviewRequests call (pn_id pull)) (pn_reviewRequests pull) calls =
      Some (Inr conn, rest)" "p = pull\<lparr>pn_reviewRequests := conn\<rparr>" by (auto simp: complete_reviewRequests_def and_then_Inr)
  have "\<forall>call \<in> set calls. pages_honest (tr_cursor tr ''reviewRequests'') (tr_reviewRequests tr) (gq_reviewRequests call (pn_id pull))"
    using assms(2) by (simp add: call_honest_def)
  from complete_connection_whole [OF c(1) assms(3) this] c(2) show ?thesis by blast
qed

lemma complete_reviews_whole:
  assumes "complete_reviews pull calls = Some (Inr p, rest)" and "\<forall>call \<in> set calls. call_honest tr pull call"
    and "conn_served (tr_cursor tr ''reviews'') (tr_reviews tr) (pn_reviews pull)"
  shows "\<exists>conn. p = pull\<lparr>pn_reviews := conn\<rparr> \<and> cn_nodes conn = tr_reviews tr \<and> set rest \<subseteq> set calls"
proof -
  from assms(1) obtain conn where c: "complete_connection ''reviews'' (\<lambda>call. gq_reviews call (pn_id pull)) (pn_reviews pull) calls =
      Some (Inr conn, rest)" "p = pull\<lparr>pn_reviews := conn\<rparr>" by (auto simp: complete_reviews_def and_then_Inr)
  have "\<forall>call \<in> set calls. pages_honest (tr_cursor tr ''reviews'') (tr_reviews tr) (gq_reviews call (pn_id pull))"
    using assms(2) by (simp add: call_honest_def)
  from complete_connection_whole [OF c(1) assms(3) this] c(2) show ?thesis by blast
qed

lemma complete_comments_whole:
  assumes "complete_comments pull calls = Some (Inr p, rest)" and "\<forall>call \<in> set calls. call_honest tr pull call"
    and "conn_served (tr_cursor tr ''comments'') (tr_comments tr) (pn_comments pull)"
  shows "\<exists>conn. p = pull\<lparr>pn_comments := conn\<rparr> \<and> cn_nodes conn = tr_comments tr \<and> set rest \<subseteq> set calls"
proof -
  from assms(1) obtain conn where c: "complete_connection ''comments'' (\<lambda>call. gq_comments call (pn_id pull)) (pn_comments pull) calls =
      Some (Inr conn, rest)" "p = pull\<lparr>pn_comments := conn\<rparr>" by (auto simp: complete_comments_def and_then_Inr)
  have "\<forall>call \<in> set calls. pages_honest (tr_cursor tr ''comments'') (tr_comments tr) (gq_comments call (pn_id pull))"
    using assms(2) by (simp add: call_honest_def)
  from complete_connection_whole [OF c(1) assms(3) this] c(2) show ?thesis by blast
qed

lemma complete_reviewThreads_whole:
  assumes "complete_reviewThreads pull calls = Some (Inr p, rest)" and "\<forall>call \<in> set calls. call_honest tr pull call"
    and first: "served (tr_cursor tr ''reviewThreads'') (tr_threads tr) 0
       (map thread_head (cn_nodes (pn_reviewThreads pull))) (cn_pageInfo (pn_reviewThreads pull))"
      "\<forall>t \<in> set (cn_nodes (pn_reviewThreads pull)). thread_served tr t"
  shows "\<exists>conn. p = pull\<lparr>pn_reviewThreads := conn\<rparr> \<and> map thread_head (cn_nodes conn) = tr_threads tr \<and>
    (\<forall>t \<in> set (cn_nodes conn). thread_whole tr t)"
proof -
  from assms(1) obtain threads mid conn where t: "complete_threads (cn_nodes (pn_reviewThreads pull)) calls = Some (Inr threads, mid)"
    and l: "threads_loop (length mid) (pn_id pull) ((pn_reviewThreads pull)\<lparr>cn_nodes := threads\<rparr>) mid = Some (Inr conn, rest)"
    and p: "p = pull\<lparr>pn_reviewThreads := conn\<rparr>"
    by (auto simp: complete_reviewThreads_def and_then_Inr)
  have hon: "\<forall>call \<in> set calls. threads_honest tr (pn_id pull) call" using assms(2) by (simp add: call_honest_def)
  have w: "map thread_head threads = map thread_head (cn_nodes (pn_reviewThreads pull))" "\<forall>t \<in> set threads. thread_whole tr t" "set mid \<subseteq> set calls"
    using complete_threads_whole [OF t first(2) hon] by simp_all
  have "map thread_head (cn_nodes conn) = tr_threads tr \<and> (\<forall>t \<in> set (cn_nodes conn). thread_whole tr t)"
    by (rule threads_loop_whole [OF l]) (use w hon first(1) in auto)
  with p show ?thesis by blast
qed

lemma completion_whole:
  assumes "completePullRequestReviewConnections pull calls = Some (Inr pull', rest)" and srv: "node_served tr pull"
    and hon: "\<forall>call \<in> set calls. call_honest tr pull call"
  shows "node_whole tr pull pull'"
proof -
  from assms(1) obtain p1 c1 p2 c2 p3 c3 p4 c4 where
    1: "complete_files pull calls = Some (Inr p1, c1)" and 2: "complete_reviewRequests p1 c1 = Some (Inr p2, c2)"
    and 3: "complete_reviews p2 c2 = Some (Inr p3, c3)" and 4: "complete_comments p3 c3 = Some (Inr p4, c4)"
    and 5: "complete_reviewThreads p4 c4 = Some (Inr pull', rest)"
    by (auto simp: completePullRequestReviewConnections_def and_then_Inr)
  note s = srv [unfolded node_served_def]
  have "\<forall>call \<in> set calls. files_honest (tr_cursor tr ''files'') (tr_files tr) (pn_id pull) (pn_baseRefOID pull) (pn_headRefOID pull) call"
    using hon by (simp add: call_honest_def)
  from complete_files_whole [OF 1 conjunct1 [OF s] this]
  obtain files where f: "p1 = pull\<lparr>pn_files := files\<rparr>" "set c1 \<subseteq> set calls" "files = None \<longleftrightarrow> pn_files pull = None"
    "\<forall>x. files = Some x \<longrightarrow> files_whole (tr_files tr) x" by metis
  have same: "call_honest tr (pull\<lparr>pn_files := files\<rparr>) = call_honest tr pull"
    "call_honest tr (pull\<lparr>pn_files := files, pn_reviewRequests := a\<rparr>) = call_honest tr pull"
    "call_honest tr (pull\<lparr>pn_files := files, pn_reviewRequests := a, pn_reviews := b\<rparr>) = call_honest tr pull"
    "call_honest tr (pull\<lparr>pn_files := files, pn_reviewRequests := a, pn_reviews := b, pn_comments := c\<rparr>) = call_honest tr pull" for a b c
    by (simp_all add: call_honest_def fun_eq_iff)
  have h: "\<forall>call \<in> set c1. call_honest tr p1 call" using f(1,2) hon by (auto simp: same)
  have "conn_served (tr_cursor tr ''reviewRequests'') (tr_reviewRequests tr) (pn_reviewRequests p1)" using s f(1) by simp
  from complete_reviewRequests_whole [OF 2 h this] obtain a where
    a: "p2 = p1\<lparr>pn_reviewRequests := a\<rparr>" "cn_nodes a = tr_reviewRequests tr" "set c2 \<subseteq> set c1" by (elim exE conjE)
  have h: "\<forall>call \<in> set c2. call_honest tr p2 call" using a(1,3) f(1,2) hon by (auto simp: same)
  have "conn_served (tr_cursor tr ''reviews'') (tr_reviews tr) (pn_reviews p2)" using s a(1) f(1) by simp
  from complete_reviews_whole [OF 3 h this] obtain b where
    b: "p3 = p2\<lparr>pn_reviews := b\<rparr>" "cn_nodes b = tr_reviews tr" "set c3 \<subseteq> set c2" by (elim exE conjE)
  have h: "\<forall>call \<in> set c3. call_honest tr p3 call" using b(1,3) a(1,3) f(1,2) hon by (auto simp: same)
  have "conn_served (tr_cursor tr ''comments'') (tr_comments tr) (pn_comments p3)" using s b(1) a(1) f(1) by simp
  from complete_comments_whole [OF 4 h this] obtain c where
    c: "p4 = p3\<lparr>pn_comments := c\<rparr>" "cn_nodes c = tr_comments tr" "set c4 \<subseteq> set c3" by (elim exE conjE)
  have "set c4 \<subseteq> set calls" using c(3) b(3) a(3) f(2) by blast
  then have h: "\<forall>call \<in> set c4. call_honest tr p4 call" using c(1) b(1) a(1) f(1) hon by (auto simp: same)
  have "pn_reviewThreads p4 = pn_reviewThreads pull" using c(1) b(1) a(1) f(1) by simp
  with complete_reviewThreads_whole [OF 5 h] s obtain d where
    d: "pull' = p4\<lparr>pn_reviewThreads := d\<rparr>" "map thread_head (cn_nodes d) = tr_threads tr" "\<forall>t \<in> set (cn_nodes d). thread_whole tr t"
    by metis
  then show ?thesis unfolding node_whole_def using f a(1,2) b(1,2) c(1,2) by (simp split: option.split)
qed

text \<open>The calls that completing a node may need.\<close>

definition node_calls :: "pull_truth \<Rightarrow> nat" where
  "node_calls tr = length (tr_files tr) + length (tr_reviewRequests tr) + length (tr_reviews tr) + length (tr_comments tr) +
     thread_calls tr (tr_threads tr)"

lemma complete_files_returns:
  assumes "\<forall>files. pn_files pull = Some files \<longrightarrow> served (tr_cursor tr ''files'') (tr_files tr) 0 (fc_nodes files) (fc_pageInfo files)"
    and "\<forall>call \<in> set calls. call_honest tr pull call \<and> call_answers tr pull call" and "length (tr_files tr) \<le> length calls"
  shows "\<exists>p rest. complete_files pull calls = Some (Inr p, rest) \<and> length calls \<le> length rest + length (tr_files tr)"
proof (cases "pn_files pull")
  case None
  then show ?thesis by (simp add: complete_files_def)
next
  case (Some files)
  have "files_ok (tr_cursor tr ''files'') (tr_files tr) (cap_files files)" using assms(1) Some by (simp add: cap_files_ok)
  note ok = this
  have "\<forall>call \<in> set calls.
      files_honest (tr_cursor tr ''files'') (tr_files tr) (pn_id pull) (pn_baseRefOID pull) (pn_headRefOID pull) call \<and>
      files_answered (tr_cursor tr ''files'') (tr_files tr) (pn_id pull) (pn_baseRefOID pull) (pn_headRefOID pull) call"
    using assms(2) by (simp add: call_honest_def call_answers_def)
  from files_loop_returns [OF ok this trans_le_add2 [OF assms(3)]] obtain files' rest
    where "files_loop (pn_id pull) (pn_baseRefOID pull) (pn_headRefOID pull) (cap_files files) calls = Some (Inr files', rest)"
    "length calls + length (fc_nodes (cap_files files)) \<le> length rest + length (tr_files tr)" by (elim exE conjE)
  then show ?thesis using Some by (simp add: complete_files_def and_then_def)
qed

lemma complete_reviewThreads_returns:
  assumes "\<forall>call \<in> set calls. call_honest tr pull call \<and> call_answers tr pull call"
    and first: "served (tr_cursor tr ''reviewThreads'') (tr_threads tr) 0
       (map thread_head (cn_nodes (pn_reviewThreads pull))) (cn_pageInfo (pn_reviewThreads pull))"
      "\<forall>t \<in> set (cn_nodes (pn_reviewThreads pull)). thread_served tr t"
    and "thread_calls tr (tr_threads tr) \<le> length calls"
  shows "\<exists>p rest. complete_reviewThreads pull calls = Some (Inr p, rest)"
proof -
  let ?ts = "cn_nodes (pn_reviewThreads pull)"
  have calls: "\<forall>call \<in> set calls. threads_honest tr (pn_id pull) call \<and> threads_answered tr (pn_id pull) call"
    using assms(1) by (simp add: call_honest_def call_answers_def)
  have "map thread_head ?ts = take (length ?ts) (tr_threads tr)" using served_prefix [OF first(1)] by simp
  then have "tr_threads tr = map thread_head ?ts @ drop (length ?ts) (tr_threads tr)" by (metis append_take_drop_id)
  then have split: "thread_calls tr (tr_threads tr) = length ?ts + comment_calls tr ?ts + thread_calls tr (drop (length ?ts) (tr_threads tr))"
    using thread_calls_append [of tr "map thread_head ?ts" "drop (length ?ts) (tr_threads tr)"] by (simp add: thread_calls_heads)
  with complete_threads_return [OF first(2) calls] assms(4) obtain threads mid
    where t: "complete_threads ?ts calls = Some (Inr threads, mid)" "length calls \<le> length mid + comment_calls tr ?ts" by auto
  have w: "map thread_head threads = map thread_head ?ts" "set mid \<subseteq> set calls"
    using complete_threads_whole [OF t(1) first(2), of "pn_id pull"] calls by auto
  then have len: "length threads = length ?ts" by (metis length_map)
  have "\<exists>conn rest. threads_loop (length mid) (pn_id pull) ((pn_reviewThreads pull)\<lparr>cn_nodes := threads\<rparr>) mid = Some (Inr conn, rest)"
    by (rule threads_loop_returns [where tr = tr]) (use first(1) w calls split assms(4) t(2) len in auto)
  then show ?thesis using t(1) by (auto simp: complete_reviewThreads_def and_then_def)
qed

lemma complete_reviewRequests_returns:
  assumes "\<forall>call \<in> set calls. call_honest tr pull call \<and> call_answers tr pull call"
    and "conn_served (tr_cursor tr ''reviewRequests'') (tr_reviewRequests tr) (pn_reviewRequests pull)" and "length (tr_reviewRequests tr) \<le> length calls"
  shows "\<exists>p rest. complete_reviewRequests pull calls = Some (Inr p, rest) \<and> length calls \<le> length rest + length (tr_reviewRequests tr)"
proof -
  have "\<forall>call \<in> set calls. pages_honest (tr_cursor tr ''reviewRequests'') (tr_reviewRequests tr) (gq_reviewRequests call (pn_id pull)) \<and>
      pages_answered (tr_cursor tr ''reviewRequests'') (tr_reviewRequests tr) (gq_reviewRequests call (pn_id pull))"
    using assms(1) by (simp add: call_honest_def call_answers_def)
  from complete_connection_returns [where calls = calls and what = "''reviewRequests''", OF assms(2) this] assms(3) obtain conn rest
    where "complete_connection ''reviewRequests'' (\<lambda>call. gq_reviewRequests call (pn_id pull)) (pn_reviewRequests pull) calls = Some (Inr conn, rest)"
    "length calls \<le> length rest + length (tr_reviewRequests tr)" by auto
  then show ?thesis by (simp add: complete_reviewRequests_def and_then_def)
qed

lemma complete_reviews_returns:
  assumes "\<forall>call \<in> set calls. call_honest tr pull call \<and> call_answers tr pull call"
    and "conn_served (tr_cursor tr ''reviews'') (tr_reviews tr) (pn_reviews pull)" and "length (tr_reviews tr) \<le> length calls"
  shows "\<exists>p rest. complete_reviews pull calls = Some (Inr p, rest) \<and> length calls \<le> length rest + length (tr_reviews tr)"
proof -
  have "\<forall>call \<in> set calls. pages_honest (tr_cursor tr ''reviews'') (tr_reviews tr) (gq_reviews call (pn_id pull)) \<and>
      pages_answered (tr_cursor tr ''reviews'') (tr_reviews tr) (gq_reviews call (pn_id pull))"
    using assms(1) by (simp add: call_honest_def call_answers_def)
  from complete_connection_returns [where calls = calls and what = "''reviews''", OF assms(2) this] assms(3) obtain conn rest
    where "complete_connection ''reviews'' (\<lambda>call. gq_reviews call (pn_id pull)) (pn_reviews pull) calls = Some (Inr conn, rest)"
    "length calls \<le> length rest + length (tr_reviews tr)" by auto
  then show ?thesis by (simp add: complete_reviews_def and_then_def)
qed

lemma complete_comments_returns:
  assumes "\<forall>call \<in> set calls. call_honest tr pull call \<and> call_answers tr pull call"
    and "conn_served (tr_cursor tr ''comments'') (tr_comments tr) (pn_comments pull)" and "length (tr_comments tr) \<le> length calls"
  shows "\<exists>p rest. complete_comments pull calls = Some (Inr p, rest) \<and> length calls \<le> length rest + length (tr_comments tr)"
proof -
  have "\<forall>call \<in> set calls. pages_honest (tr_cursor tr ''comments'') (tr_comments tr) (gq_comments call (pn_id pull)) \<and>
      pages_answered (tr_cursor tr ''comments'') (tr_comments tr) (gq_comments call (pn_id pull))"
    using assms(1) by (simp add: call_honest_def call_answers_def)
  from complete_connection_returns [where calls = calls and what = "''comments''", OF assms(2) this] assms(3) obtain conn rest
    where "complete_connection ''comments'' (\<lambda>call. gq_comments call (pn_id pull)) (pn_comments pull) calls = Some (Inr conn, rest)"
    "length calls \<le> length rest + length (tr_comments tr)" by auto
  then show ?thesis by (simp add: complete_comments_def and_then_def)
qed

lemma completion_returns:
  assumes srv: "node_served tr pull" and hon: "\<forall>call \<in> set calls. call_honest tr pull call \<and> call_answers tr pull call"
    and enough: "node_calls tr \<le> length calls"
  shows "\<exists>pull' rest. completePullRequestReviewConnections pull calls = Some (Inr pull', rest)"
proof -
  note s = srv [unfolded node_served_def]
  have honest: "\<forall>call \<in> set calls. call_honest tr pull call" using hon by blast
  have n: "length (tr_files tr) \<le> length calls" using enough by (simp add: node_calls_def)
  from complete_files_returns [OF conjunct1 [OF s] hon n] obtain p1 c1
    where 1: "complete_files pull calls = Some (Inr p1, c1)" and n1: "length calls \<le> length c1 + length (tr_files tr)" by (elim exE conjE)
  have "\<forall>call \<in> set calls. files_honest (tr_cursor tr ''files'') (tr_files tr) (pn_id pull) (pn_baseRefOID pull) (pn_headRefOID pull) call"
    using honest by (simp add: call_honest_def)
  from complete_files_whole [OF 1 conjunct1 [OF s] this] obtain files
    where f: "p1 = pull\<lparr>pn_files := files\<rparr>" "set c1 \<subseteq> set calls" by metis
  have same: "call_honest tr (q\<lparr>pn_files := x\<rparr>) = call_honest tr q" "call_answers tr (q\<lparr>pn_files := x\<rparr>) = call_answers tr q"
    "call_honest tr (q\<lparr>pn_reviewRequests := a\<rparr>) = call_honest tr q" "call_answers tr (q\<lparr>pn_reviewRequests := a\<rparr>) = call_answers tr q"
    "call_honest tr (q\<lparr>pn_reviews := b\<rparr>) = call_honest tr q" "call_answers tr (q\<lparr>pn_reviews := b\<rparr>) = call_answers tr q"
    "call_honest tr (q\<lparr>pn_comments := c\<rparr>) = call_honest tr q" "call_answers tr (q\<lparr>pn_comments := c\<rparr>) = call_answers tr q" for q x a b c
    by (simp_all add: call_honest_def call_answers_def fun_eq_iff)
  have h: "\<forall>call \<in> set c1. call_honest tr p1 call \<and> call_answers tr p1 call" using f hon unfolding f(1) same by blast
  have sv: "conn_served (tr_cursor tr ''reviewRequests'') (tr_reviewRequests tr) (pn_reviewRequests p1)" using s f(1) by simp
  have "length (tr_reviewRequests tr) \<le> length c1" using enough n1 by (simp add: node_calls_def)
  from complete_reviewRequests_returns [OF h sv this] obtain p2 c2
    where 2: "complete_reviewRequests p1 c1 = Some (Inr p2, c2)" and n2: "length c1 \<le> length c2 + length (tr_reviewRequests tr)" by (elim exE conjE)
  from complete_reviewRequests_whole [OF 2 _ sv] h obtain a where a: "p2 = p1\<lparr>pn_reviewRequests := a\<rparr>" "set c2 \<subseteq> set c1" by blast
  have h: "\<forall>call \<in> set c2. call_honest tr p2 call \<and> call_answers tr p2 call" using a(2) h unfolding a(1) same by blast
  have sv: "conn_served (tr_cursor tr ''reviews'') (tr_reviews tr) (pn_reviews p2)" using s a(1) f(1) by simp
  have "length (tr_reviews tr) \<le> length c2" using enough n1 n2 by (simp add: node_calls_def)
  from complete_reviews_returns [OF h sv this] obtain p3 c3
    where 3: "complete_reviews p2 c2 = Some (Inr p3, c3)" and n3: "length c2 \<le> length c3 + length (tr_reviews tr)" by (elim exE conjE)
  from complete_reviews_whole [OF 3 _ sv] h obtain b where b: "p3 = p2\<lparr>pn_reviews := b\<rparr>" "set c3 \<subseteq> set c2" by blast
  have h: "\<forall>call \<in> set c3. call_honest tr p3 call \<and> call_answers tr p3 call" using b(2) h unfolding b(1) same by blast
  have sv: "conn_served (tr_cursor tr ''comments'') (tr_comments tr) (pn_comments p3)" using s b(1) a(1) f(1) by simp
  have "length (tr_comments tr) \<le> length c3" using enough n1 n2 n3 by (simp add: node_calls_def)
  from complete_comments_returns [OF h sv this] obtain p4 c4
    where 4: "complete_comments p3 c3 = Some (Inr p4, c4)" and n4: "length c3 \<le> length c4 + length (tr_comments tr)" by (elim exE conjE)
  from complete_comments_whole [OF 4 _ sv] h obtain c where c: "p4 = p3\<lparr>pn_comments := c\<rparr>" "set c4 \<subseteq> set c3" by blast
  have h: "\<forall>call \<in> set c4. call_honest tr p4 call \<and> call_answers tr p4 call" using c(2) h unfolding c(1) same by blast
  have "thread_calls tr (tr_threads tr) \<le> length c4" using enough n1 n2 n3 n4 by (simp add: node_calls_def)
  moreover have "pn_reviewThreads p4 = pn_reviewThreads pull" using c(1) b(1) a(1) f(1) by simp
  ultimately have "\<exists>p rest. complete_reviewThreads p4 c4 = Some (Inr p, rest)"
    using complete_reviewThreads_returns [OF h] s by simp
  with 1 2 3 4 show ?thesis by (auto simp: completePullRequestReviewConnections_def and_then_def)
qed

text \<open>C26: Completing a pull-request node of the batch query gives whole connections: every review request,
  review, comment, review thread and thread comment once and in GitHub's order, and a beginning of
  the diff of the node's commits of at most 3,000 files, which is the whole diff with its true count
  unless it is flagged as truncated. This holds whatever page sizes GitHub chooses, also when it
  answers for other commits in between. While GitHub answers, completion returns within as many
  calls as there are nodes.\<close>

theorem completed_node_is_whole:
  assumes "node_served tr pull" and "\<forall>call \<in> set calls. call_honest tr pull call"
  shows "(\<forall>pull' rest. completePullRequestReviewConnections pull calls = Some (Inr pull', rest) \<longrightarrow> node_whole tr pull pull') \<and>
    ((\<forall>call \<in> set calls. call_answers tr pull call) \<longrightarrow> node_calls tr \<le> length calls \<longrightarrow>
      (\<exists>pull' rest. completePullRequestReviewConnections pull calls = Some (Inr pull', rest)))"
  using completion_whole [OF _ assms] completion_returns [OF assms(1)] assms(2) by blast

text \<open>A pull request with two files, served one at a time.\<close>

definition demo_diff :: "PullRequestChangedFileNode list" where
  "demo_diff = [\<lparr>cf_path = ''a.go'', cf_changeType = ''MODIFIED''\<rparr>, \<lparr>cf_path = ''b.go'', cf_changeType = ''ADDED''\<rparr>]"

definition demo_truth :: pull_truth where
  "demo_truth = \<lparr>tr_files = demo_diff, tr_reviewRequests = [], tr_reviews = [], tr_comments = [], tr_threads = [],
     tr_threadComments = (\<lambda>tid. []), tr_cursor = (\<lambda>what p. replicate p CHR ''x'')\<rparr>"

definition demo_files_page :: "nat \<Rightarrow> PullRequestFilesConnection" where
  "demo_files_page p = \<lparr>fc_nodes = take 1 (drop p demo_diff),
     fc_pageInfo = \<lparr>pi_hasNextPage = p + 1 < 2, pi_endCursor = Some (replicate (p + 1) CHR ''x'')\<rparr>,
     fc_totalCount = 2, fc_truncated = False\<rparr>"

definition whole_list :: "'a connection" where
  "whole_list = \<lparr>cn_nodes = [], cn_pageInfo = \<lparr>pi_hasNextPage = False, pi_endCursor = None\<rparr>\<rparr>"

definition demo_pull_node :: PullRequestNode where
  "demo_pull_node = \<lparr>pn_id = ''PR_1'', pn_databaseID = 1, pn_number = 7, pn_title = ''Title'', pn_state = ''OPEN'', pn_isDraft = False,
     pn_updatedAt = 5, pn_reviewDecision = [], pn_mergeable = ''MERGEABLE'', pn_headRefName = ''topic'', pn_headRefOID = ''h1'',
     pn_baseRefName = ''main'', pn_baseRefOID = ''c2'', pn_changedFiles = 2, pn_author = ''ann'',
     pn_repository = \<lparr>rx_id = ''R_1'', rx_databaseID = 7, rx_name = ''app'', rx_nameWithOwner = ''acme/app'', rx_isArchived = False,
       rx_updatedAt = 4, rx_defaultBranchRef = Some (''main'', ''c2''), rx_owner = ''acme''\<rparr>,
     pn_files = Some (demo_files_page 0), pn_reviewRequests = whole_list, pn_reviews = whole_list, pn_comments = whole_list,
     pn_reviewThreads = whole_list\<rparr>"

definition demo_answer :: graphql_call where
  "demo_answer = \<lparr>gq_nodes = (\<lambda>ids. Inl ErrClosed),
     gq_files = (\<lambda>pid after. if length after \<le> 2
       then Inr (Some \<lparr>fp_baseRefOID = ''c2'', fp_headRefOID = ''h1'', fp_files = Some (demo_files_page (length after))\<rparr>) else Inl ErrClosed),
     gq_reviewRequests = (\<lambda>pid after. Inl ErrClosed), gq_reviews = (\<lambda>pid after. Inl ErrClosed),
     gq_comments = (\<lambda>pid after. Inl ErrClosed), gq_reviewThreads = (\<lambda>pid after. Inl ErrClosed),
     gq_threadComments = (\<lambda>tid after. Inl ErrClosed)\<rparr>"

lemma demo_files_page_served: "p \<le> 2 \<Longrightarrow> served (\<lambda>p. replicate p CHR ''x'') demo_diff p (fc_nodes (demo_files_page p)) (fc_pageInfo (demo_files_page p))"
  by (auto simp: served_def demo_files_page_def demo_diff_def take_Cons' drop_Cons')

lemma demo_node_served: "node_served demo_truth demo_pull_node"
  using demo_files_page_served [of 0]
  by (simp add: node_served_def demo_truth_def demo_pull_node_def conn_served_def served_def whole_list_def)

lemma demo_answer_honest: "call_honest demo_truth demo_pull_node demo_answer"
  by (auto simp: call_honest_def demo_truth_def demo_pull_node_def demo_answer_def files_honest_def pages_honest_def threads_honest_def
      demo_files_page_served split: if_splits)

lemma demo_answer_answers: "call_answers demo_truth demo_pull_node demo_answer"
  by (auto simp: call_answers_def demo_truth_def demo_pull_node_def demo_answer_def files_answered_def pages_answered_def
      threads_answered_def demo_files_page_def demo_diff_def take_Cons' drop_Cons' less_Suc_eq)

theorem completed_node_is_whole_witness:
  "\<exists>pull' rest. completePullRequestReviewConnections demo_pull_node [demo_answer, demo_answer] = Some (Inr pull', rest) \<and>
     node_whole demo_truth demo_pull_node pull'"
proof -
  have "node_calls demo_truth \<le> length [demo_answer, demo_answer]"
    by (simp add: node_calls_def demo_truth_def demo_diff_def thread_calls_def)
  with completed_node_is_whole [OF demo_node_served, of "[demo_answer, demo_answer]"] demo_answer_honest demo_answer_answers show ?thesis by auto
qed

end
