(* ===== verification/Input_Properties.thy ===== *)
theory Input_Properties
  imports Change_Inputs Node_Properties Owner_Properties Source_Properties "HOL-Library.Multiset"
begin

text \<open>What a hydrated change snapshot says: an unflagged list of files is the whole diff of its base and
  head, and the owners are those of the last covering line of the effective CODEOWNERS of the base.\<close>

section \<open>Sorting\<close>

lemma sort_key_facts: "mset (sort_key f xs) = mset xs" "set (sort_key f xs) = set xs" "sorted (map f (sort_key f xs))"
  by simp_all

section \<open>The line that owns a path\<close>

definition covering_lines :: "string \<Rightarrow> string \<Rightarrow> (nat \<times> string) list" where
  "covering_lines content path = filter (\<lambda>(i, line). line_covers path line) (enumerate 0 (source_lines content))"

text \<open>A token owns a path by a line: the line is the last one that covers the path, and has the token.\<close>

definition owns :: "string \<Rightarrow> string \<Rightarrow> string \<Rightarrow> string \<Rightarrow> nat \<Rightarrow> bool" where
  "owns content path token pattern number \<longleftrightarrow>
     covering_lines content path \<noteq> [] \<and>
     (case last (covering_lines content path) of
        (i, line) \<Rightarrow> number = i + 1 \<and> (\<exists>tokens. splitRule line = Some (pattern, tokens) \<and> token \<in> set tokens))"

lemma covering_lines_last:
  assumes "source_lines content = before @ line # after" and "line_covers path line" and "\<not> list_ex (line_covers path) after"
  shows "covering_lines content path \<noteq> []" "last (covering_lines content path) = (length before, line)"
proof -
  have "filter (\<lambda>(i, line). line_covers path line) (enumerate n after) = []" for n
    using assms(3) by (induction after arbitrary: n) auto
  then have "covering_lines content path =
      filter (\<lambda>(i, line). line_covers path line) (enumerate 0 before) @ [(length before, line)]"
    using assms(1,2) by (simp add: covering_lines_def enumerate_append_eq)
  then show "covering_lines content path \<noteq> []" "last (covering_lines content path) = (length before, line)" by simp_all
qed

lemma covering_lines_none: "\<not> list_ex (line_covers path) (source_lines content) \<Longrightarrow> covering_lines content path = []"
  unfolding covering_lines_def by (auto simp: filter_empty_conv list_ex_iff in_set_enumerate_eq)

lemma classify_token [simp]: "ow_token (classifyOwner token) = token"
  by (rule conjunct1 [OF owner_kind_describes_token])

lemma owns_resolve:
  "owns content path token pattern number \<longleftrightarrow>
     (\<exists>m. Resolve (Parse content) path = Some m \<and> pattern = ma_pattern m \<and> number = ma_line m \<and>
        token \<in> ow_token ` set (ma_owners m))"
proof (cases "Resolve (Parse content) path")
  case None
  then have "\<not> list_ex (line_covers path) (source_lines content)" using resolve_decides [where source = content and path = path] by simp
  then show ?thesis using None covering_lines_none by (simp add: owns_def)
next
  case (Some m)
  then obtain before line after tokens where d: "source_lines content = before @ line # after" "line_covers path line"
    "\<not> list_ex (line_covers path) after" "ma_line m = length before + 1" "splitRule line = Some (ma_pattern m, tokens)"
    "ma_owners m = map classifyOwner tokens"
    using resolve_decides [where source = content and path = path] by auto
  have "ow_token ` set (ma_owners m) = set tokens"
    by (simp add: d(6) image_image)
  then show ?thesis using covering_lines_last [OF d(1-3)] d(4,5) Some by (auto simp: owns_def)
qed

section \<open>Owners of files\<close>

lemma first_tokens_tokens:
  "ow_token ` set (first_tokens seen owners) = ow_token ` set owners - set seen" "distinct (map ow_token (first_tokens seen owners))"
proof (induction owners arbitrary: seen)
  case (Cons owner owners)
  { case 1 show ?case using Cons(1) by (auto simp: image_iff) }
  { case 2 show ?case using Cons(2) Cons(1) [of "ow_token owner # seen"] by (auto simp: image_iff) }
qed simp_all

definition owner_site :: "FileOwnerRecord \<Rightarrow> string \<times> string \<times> string \<times> nat" where
  "owner_site r = (fo_path r, fo_token r, fo_pattern r, fo_line r)"

lemma file_owners_sites:
  "owner_site ` set (file_owners (Parse content) path) = {(path, token, pattern, number) |token pattern number. owns content path token pattern number}"
proof (cases "Resolve (Parse content) path")
  case None
  then show ?thesis by (simp add: file_owners_def owns_resolve)
next
  case (Some m)
  have "owner_site ` set (file_owners (Parse content) path) =
      (\<lambda>token. (path, token, ma_pattern m, ma_line m)) ` ow_token ` set (first_tokens [] (ma_owners m))"
    using Some by (simp add: file_owners_def image_image owner_site_def)
  also have "\<dots> = (\<lambda>token. (path, token, ma_pattern m, ma_line m)) ` ow_token ` set (ma_owners m)"
    by (simp add: first_tokens_tokens(1))
  finally show ?thesis using Some by (auto simp: owns_resolve)
qed

lemma file_owners_keys:
  "distinct (map fo_token (file_owners rules path))" "r \<in> set (file_owners rules path) \<Longrightarrow> fo_path r = path"
  by (auto simp: file_owners_def comp_def first_tokens_tokens(2) split: option.split)

lemma resolve_owner_site [simp]:
  "owner_site (resolve_owner known org r) = owner_site r" "owner_site (r\<lparr>fo_state := x\<rparr>) = owner_site r"
  by (simp_all add: owner_site_def resolve_owner_def split: option.split)

lemma observed_sites: "map owner_site (resolveObservedIdentities owners org node) = map owner_site owners"
  by (simp add: resolveObservedIdentities_def)

lemma no_content_no_owner: "\<not> owns [] path token pattern number"
  by (simp add: owns_def covering_lines_def source_lines_def line_covers_def splitRule_def trim_right_cr_def)

text \<open>The content of a source that is not present is empty.\<close>

lemma effective_content: "cs_state (effective tag tree sha) \<noteq> CodeownersPresent \<Longrightarrow> cs_content (effective tag tree sha) = []"
  by (auto simp: effective_def Let_def split: option.splits if_splits)

lemma snapshot_owner_sites:
  "owner_site ` set (snapshot_owners (effective tag tree sha) files) =
     {(path, token, pattern, number). path \<in> fl_path ` set files \<and> owns (cs_content (effective tag tree sha)) path token pattern number}"
proof (cases "cs_state (effective tag tree sha) = CodeownersPresent")
  case True
  have "owner_site ` set (snapshot_owners (effective tag tree sha) files) =
      (\<Union>file \<in> set files. owner_site ` set (file_owners (Parse (cs_content (effective tag tree sha))) (fl_path file)))"
    using True by (auto simp: snapshot_owners_def)
  then show ?thesis by (auto simp: file_owners_sites)
next
  case False
  then show ?thesis using effective_content [OF False] by (simp add: snapshot_owners_def no_content_no_owner)
qed

section \<open>A hydration\<close>

text \<open>The parts of a hydration that returned a snapshot.\<close>

lemma hydrate_parts:
  assumes "hydrateFromMirror digest env rq = Some (Inr (snapshot, fence))"
  obtains rows files count truncated files' etag truncated' source resolved where
    "snapshot_files (hr_node rq) = (files, count, truncated)"
    "hydrate_files env (PullRequestChangeMetadata rows) files truncated = Some (Inr (files', etag, truncated'))"
    "hydrate_source env rq = Inr source"
    "ResolveFileOwnerIdentities (he_repo env) (he_identities env) (hr_owner rq) (snapshot_owners source files') = Inr resolved"
    "sp_baseSHA snapshot = pn_baseRefOID (hr_node rq)" "sp_headSHA snapshot = pn_headRefOID (hr_node rq)"
    "sp_filesTotalCount snapshot = count" "sp_filesTruncated snapshot = truncated'"
    "sp_codeownersPath snapshot = cs_path source" "sp_codeownersState snapshot = cs_state source"
    "sp_codeownersSource snapshot = cs_content source"
    "sp_files snapshot = sort_key fl_path files'"
    "sp_owners snapshot = sort_key (\<lambda>owner. (fo_path owner, fo_token owner)) (resolveObservedIdentities resolved (hr_owner rq) (hr_node rq))"
    "verify_fence env rq snapshot = Inr (snapshot, fence)"
proof -
  from assms obtain rows where r: "he_rows env = Inr rows" by (auto simp: hydrateFromMirror_def Let_def split: sum.splits)
  obtain files count truncated where f: "snapshot_files (hr_node rq) = (files, count, truncated)" by (metis prod_cases3)
  from assms r f obtain files' etag truncated' where
    h: "hydrate_files env (PullRequestChangeMetadata rows) files truncated = Some (Inr (files', etag, truncated'))"
    by (auto simp: hydrateFromMirror_def Let_def split: option.splits sum.splits)
  from assms r f h obtain source where s: "hydrate_source env rq = Inr source"
    by (auto simp: hydrateFromMirror_def Let_def split: sum.splits)
  from assms r f h s obtain resolved where
    i: "ResolveFileOwnerIdentities (he_repo env) (he_identities env) (hr_owner rq) (snapshot_owners source files') = Inr resolved"
    by (auto simp: hydrateFromMirror_def Let_def split: sum.splits)
  note all = assms [unfolded hydrateFromMirror_def Let_def r f h s i option.case sum.case prod.case option.inject]
  have same: "verify_fence env rq x = Inr (y, z) \<Longrightarrow> y = x" for x y z
    by (auto simp: verify_fence_def split: sum.splits option.splits if_splits)
  show thesis by (rule that [OF f h s i]) (use same [OF all] all in simp_all)
qed

lemma verify_fence_facts:
  "verify_fence env rq snapshot = Inr (snapshot', fence) \<Longrightarrow>
     (case pf_pull fence of None \<Rightarrow> he_latest env (hr_pullETag rq) = Inr (pf_etag fence, None)
      | Some latest \<Rightarrow> lp_baseSHA latest = sp_baseSHA snapshot \<and> lp_headSHA latest = sp_headSHA snapshot \<and>
          lp_updatedAt latest = pn_updatedAt (hr_node rq))"
  by (auto simp: verify_fence_def split: sum.splits option.splits if_splits)

section \<open>An example\<close>

text \<open>The pull request of the node example, its files listed, in a repository whose CODEOWNERS gives everything to one user.\<close>

definition demo_node :: PullRequestNode where
  "demo_node = demo_pull_node\<lparr>pn_files := Some \<lparr>fc_nodes = demo_diff, fc_pageInfo = \<lparr>pi_hasNextPage = False, pi_endCursor = None\<rparr>,
     fc_totalCount = 2, fc_truncated = False\<rparr>\<rparr>"

definition demo_hydrate_env :: hydrate_env where
  "demo_hydrate_env = \<lparr>he_rows = Inr [], he_pages = [], he_content = (\<lambda>sha. content_server (\<lambda>b. b) demo_tree),
     he_resolve = (\<lambda>rc. Inr (effective (\<lambda>b. b) demo_tree (rc_sha rc))), he_repo = Inr 1,
     he_identities = (\<lambda>repo. Inr [(''user'', 5, ''U_1'', ''Team'')]),
     he_latest = (\<lambda>etag. Inr (''e1'', Some \<lparr>lp_baseSHA = ''c2'', lp_headSHA = ''h1'', lp_updatedAt = 5, lp_stack = None\<rparr>))\<rparr>"

definition demo_hydrate_request :: hydrate_request where
  "demo_hydrate_request = \<lparr>hr_repositoryID = 7, hr_owner = ''acme'', hr_name = ''app'', hr_node = demo_node, hr_mirrored = None, hr_force = False,
     hr_pullETag = []\<rparr>"

lemma demo_lower: "to_lower ''MODIFIED'' = ''modified''" "to_lower ''ADDED'' = ''added''"
  by code_simp+

lemma demo_snapshot_files: "snapshot_files demo_node =
    ([\<lparr>fl_path = ''a.go'', fl_previousPath = [], fl_changeType = ''modified''\<rparr>,
      \<lparr>fl_path = ''b.go'', fl_previousPath = [], fl_changeType = ''added''\<rparr>], 2, False)"
  by (simp add: snapshot_files_def demo_node_def demo_pull_node_def demo_diff_def demo_lower)

lemma demo_hydrate_env_facts:
  "he_rows demo_hydrate_env = Inr []" "he_repo demo_hydrate_env = Inr 1" "he_identities demo_hydrate_env repo = Inr [(''user'', 5, ''U_1'', ''Team'')]"
  "he_latest demo_hydrate_env etag = Inr (''e1'', Some \<lparr>lp_baseSHA = ''c2'', lp_headSHA = ''h1'', lp_updatedAt = 5, lp_stack = None\<rparr>)"
  by (simp_all add: demo_hydrate_env_def)

lemma demo_hydrates:
  "\<exists>snapshot fence. hydrateFromMirror (\<lambda>b. b) demo_hydrate_env demo_hydrate_request = Some (Inr (snapshot, fence)) \<and> \<not> sp_filesTruncated snapshot \<and>
     fl_path ` set (sp_files snapshot) = {''a.go'', ''b.go''}"
proof -
  have node: "hr_node demo_hydrate_request = demo_node" "pn_baseRefOID demo_node = ''c2''" "pn_headRefOID demo_node = ''h1''" "pn_updatedAt demo_node = 5"
    by (simp_all add: demo_hydrate_request_def demo_node_def demo_pull_node_def)
  have "hydrate_files demo_hydrate_env (PullRequestChangeMetadata []) (fst (snapshot_files demo_node)) False =
      Some (Inr (fst (snapshot_files demo_node), [], False))"
    by (simp add: hydrate_files_def demo_snapshot_files is_rename_def PullRequestChangeMetadata_def)
  moreover have "hydrate_source demo_hydrate_env demo_hydrate_request = Inr (effective (\<lambda>b. b) demo_tree ''c2'')"
    by (simp add: hydrate_source_def node demo_hydrate_env_def demo_hydrate_request_def Let_def)
  ultimately show ?thesis
    by (simp add: hydrateFromMirror_def Let_def node demo_snapshot_files ResolveFileOwnerIdentities_def verify_fence_def demo_hydrate_env_facts
        insert_commute)
qed

section \<open>Owners\<close>

text \<open>The sources a hydration reads: content replies for the base commit, and a resolver that answers with
  the effective source of the commit it is asked for.\<close>

definition sources_sound :: "(string \<Rightarrow> string) \<Rightarrow> repositories \<Rightarrow> hydrate_env \<Rightarrow> hydrate_request \<Rightarrow> bool" where
  "sources_sound tag trees env rq \<longleftrightarrow>
     inj tag \<and>
     honest tag (trees (hr_repositoryID rq) (pn_baseRefOID (hr_node rq))) (he_content env (pn_baseRefOID (hr_node rq))) \<and>
     (\<forall>rc src. he_resolve env rc = Inr src \<longrightarrow> src = effective tag (trees (rc_repo rc) (rc_sha rc)) (rc_sha rc))"

definition base_source :: "(string \<Rightarrow> string) \<Rightarrow> repositories \<Rightarrow> hydrate_request \<Rightarrow> CodeownersSource" where
  "base_source tag trees rq =
     effective tag (trees (hr_repositoryID rq) (pn_baseRefOID (hr_node rq))) (pn_baseRefOID (hr_node rq))"

lemma hydrate_source_effective:
  assumes "sources_sound tag trees env rq" and "pn_baseRefOID (hr_node rq) \<noteq> []" and "hydrate_source env rq = Inr source"
  shows "source = base_source tag trees rq"
proof (cases "hr_force rq")
  case True
  let ?base = "pn_baseRefOID (hr_node rq)"
  have "FindCodeowners (he_content env ?base) ?base None = Inr source" using True assms(2,3) by (simp add: hydrate_source_def Let_def)
  moreover have "good_prior tag (trees (hr_repositoryID rq) ?base) ?base None" by (simp add: good_prior_def)
  ultimately show ?thesis using find_codeowners_result assms(1) unfolding sources_sound_def base_source_def by blast
next
  case False
  let ?rc = "\<lparr>rc_repo = hr_repositoryID rq, rc_owner = hr_owner rq, rc_name = hr_name rq, rc_ref = pn_baseRefName (hr_node rq),
      rc_sha = pn_baseRefOID (hr_node rq), rc_mirrored = hr_mirrored rq\<rparr>"
  have "he_resolve env ?rc = Inr source" using False assms(2,3) by (simp add: hydrate_source_def Let_def)
  with assms(1) have "source = effective tag (trees (rc_repo ?rc) (rc_sha ?rc)) (rc_sha ?rc)" unfolding sources_sound_def by blast
  then show ?thesis by (simp add: base_source_def)
qed

lemma hydrated_owner_sites:
  assumes "hydrateFromMirror digest env rq = Some (Inr (snapshot, fence))"
    and "sources_sound tag trees env rq" and "pn_baseRefOID (hr_node rq) \<noteq> []"
  shows "owner_site ` set (sp_owners snapshot) =
      {(path, token, pattern, number). path \<in> fl_path ` set (sp_files snapshot) \<and>
         owns (cs_content (base_source tag trees rq)) path token pattern number} \<and>
    sorted (map (\<lambda>r. (fo_path r, fo_token r)) (sp_owners snapshot)) \<and>
    sp_codeownersPath snapshot = cs_path (base_source tag trees rq) \<and>
    sp_codeownersState snapshot = cs_state (base_source tag trees rq) \<and>
    sp_codeownersSource snapshot = cs_content (base_source tag trees rq)"
proof (rule hydrate_parts [OF assms(1)])
  fix rows files count truncated files' etag truncated' source resolved
  assume s: "hydrate_source env rq = Inr source"
    and i: "ResolveFileOwnerIdentities (he_repo env) (he_identities env) (hr_owner rq) (snapshot_owners source files') = Inr resolved"
    and out: "sp_codeownersPath snapshot = cs_path source" "sp_codeownersState snapshot = cs_state source"
      "sp_codeownersSource snapshot = cs_content source" "sp_files snapshot = sort_key fl_path files'"
    and o: "sp_owners snapshot = sort_key (\<lambda>owner. (fo_path owner, fo_token owner)) (resolveObservedIdentities resolved (hr_owner rq) (hr_node rq))"
  have source: "source = base_source tag trees rq" using hydrate_source_effective [OF assms(2,3) s] .
  have "owner_site ` set resolved = owner_site ` set (snapshot_owners source files')"
    using i by (auto simp: ResolveFileOwnerIdentities_def image_image split: sum.splits)
  moreover have "owner_site ` set (sp_owners snapshot) = owner_site ` set resolved"
    unfolding o sort_key_facts using observed_sites by (metis set_map)
  ultimately have "owner_site ` set (sp_owners snapshot) =
      {(path, token, pattern, number). path \<in> fl_path ` set files' \<and> owns (cs_content source) path token pattern number}"
    unfolding source base_source_def by (simp add: snapshot_owner_sites)
  then show ?thesis using out source by (simp add: o sort_key_facts(3) comp_def)
qed

text \<open>C31: The owners of a hydrated snapshot are those of the effective CODEOWNERS of the pull request's base commit:
  for every changed file exactly the tokens of the last line that covers it, with that line's number
  and pattern, ordered by path and token, and none when the file is missing or too large. The snapshot
  records that source. Whether CODEOWNERS was read afresh or came from the shared resolver does not
  matter, nor which identities are known.\<close>

theorem hydrated_owners_are_effective:
  assumes "hydrateFromMirror digest env rq = Some (Inr (snapshot, fence))"
    and "sources_sound tag trees env rq" and "pn_baseRefOID (hr_node rq) \<noteq> []"
  shows "owner_site ` set (sp_owners snapshot) =
      {(path, token, pattern, number). path \<in> fl_path ` set (sp_files snapshot) \<and>
         owns (cs_content (base_source tag trees rq)) path token pattern number} \<and>
    sorted (map (\<lambda>r. (fo_path r, fo_token r)) (sp_owners snapshot)) \<and>
    sp_codeownersPath snapshot = cs_path (base_source tag trees rq) \<and>
    sp_codeownersState snapshot = cs_state (base_source tag trees rq) \<and>
    sp_codeownersSource snapshot = cs_content (base_source tag trees rq)"
  by (rule hydrated_owner_sites [OF assms])

lemma demo_sources_sound: "sources_sound (\<lambda>b. b) (\<lambda>repo sha. demo_tree) demo_hydrate_env demo_hydrate_request" "pn_baseRefOID (hr_node demo_hydrate_request) \<noteq> []"
  by (simp_all add: sources_sound_def demo_hydrate_env_def demo_hydrate_request_def demo_node_def demo_pull_node_def content_server_honest)

theorem hydrated_owners_are_effective_witness:
  "\<exists>snapshot fence. hydrateFromMirror (\<lambda>b. b) demo_hydrate_env demo_hydrate_request = Some (Inr (snapshot, fence)) \<and>
     owner_site ` set (sp_owners snapshot) =
       {(path, token, pattern, number). path \<in> {''a.go'', ''b.go''} \<and>
          owns (cs_content (base_source (\<lambda>b. b) (\<lambda>repo sha. demo_tree) demo_hydrate_request)) path token pattern number}"
proof -
  from demo_hydrates obtain snapshot fence where h: "hydrateFromMirror (\<lambda>b. b) demo_hydrate_env demo_hydrate_request = Some (Inr (snapshot, fence))"
    "fl_path ` set (sp_files snapshot) = {''a.go'', ''b.go''}" by (elim exE conjE)
  from hydrated_owners_are_effective [OF h(1) demo_sources_sound] h(2)
  have "owner_site ` set (sp_owners snapshot) =
       {(path, token, pattern, number). path \<in> {''a.go'', ''b.go''} \<and>
          owns (cs_content (base_source (\<lambda>b. b) (\<lambda>repo sha. demo_tree) demo_hydrate_request)) path token pattern number}" by simp
  with h(1) show ?thesis by (intro exI [of _ snapshot] exI [of _ fence] conjI)
qed

section \<open>Files\<close>

lemma rename_file_facts [simp]:
  "fl_path (rename_file renames f) = fl_path f" "fl_changeType (rename_file renames f) = fl_changeType f"
  "is_rename (rename_file renames f) = is_rename f"
  by (simp_all add: rename_file_def is_rename_def)

lemma hydrate_files_facts:
  assumes "hydrate_files env m files truncated = Some (Inr (files', etag, truncated'))" and "\<forall>f \<in> set files. fl_previousPath f = []"
  shows "map (\<lambda>f. (fl_path f, fl_changeType f)) files' = map (\<lambda>f. (fl_path f, fl_changeType f)) files"
    "\<not> truncated' \<Longrightarrow> \<not> truncated \<and> (\<forall>f \<in> set files'. is_rename f \<longleftrightarrow> fl_previousPath f \<noteq> [])"
proof -
  consider "\<not> list_ex is_rename files" "files' = files" "truncated' = truncated"
    | renames flag where "files' = map (rename_file renames) files" "truncated' = (truncated \<or> flag \<or> list_ex lacks_source files')"
    using assms(1) by (auto simp: hydrate_files_def Let_def split: if_splits option.splits sum.splits)
  note cases = this
  show "map (\<lambda>f. (fl_path f, fl_changeType f)) files' = map (\<lambda>f. (fl_path f, fl_changeType f)) files"
    by (rule cases) (simp_all add: comp_def)
  assume ok: "\<not> truncated'"
  show "\<not> truncated \<and> (\<forall>f \<in> set files'. is_rename f \<longleftrightarrow> fl_previousPath f \<noteq> [])"
  proof (rule cases)
    assume "\<not> list_ex is_rename files" "files' = files" "truncated' = truncated"
    then show ?thesis using ok assms(2) by (auto simp: list_ex_iff)
  next
    fix renames flag
    assume r: "files' = map (rename_file renames) files" "truncated' = (truncated \<or> flag \<or> list_ex lacks_source files')"
    have "\<not> is_rename f \<Longrightarrow> fl_previousPath f = []" if f: "f \<in> set files'" for f
      using f r(1) assms(2) by (auto simp: rename_file_def is_rename_def split: if_splits)
    moreover have "is_rename f \<Longrightarrow> fl_previousPath f \<noteq> []" if "f \<in> set files'" for f
      using that ok r(2) by (auto simp: list_ex_iff lacks_source_def)
    ultimately show ?thesis using ok r(2) by blast
  qed
qed


lemma demo_node_whole: "node_whole demo_truth demo_pull_node demo_node"
  by (simp add: node_whole_def demo_node_def demo_pull_node_def demo_truth_def files_whole_def demo_diff_def MaxPullRequestFiles_def whole_list_def)


section \<open>Hydration returns\<close>

text \<open>A page of the rename listing is the last one or has a file.\<close>

definition moves_on :: "(int \<Rightarrow> string \<Rightarrow> gerror + rest_files_page) \<Rightarrow> bool" where
  "moves_on call \<longleftrightarrow>
     (\<forall>page etag. case call page etag of Inl e \<Rightarrow> True | Inr r \<Rightarrow> rf_notModified r \<or> rf_nextPage r = 0 \<or> rf_files r \<noteq> [])"

lemma renames_loop_returns:
  "\<forall>call \<in> set calls. moves_on call \<Longrightarrow> MaxPullRequestFiles \<le> seen + length calls \<Longrightarrow>
     renames_loop page etag seen renames result calls \<noteq> None"
proof (induction calls arbitrary: page seen renames result)
  case Nil
  then show ?case by (subst renames_loop.simps) simp
next
  case (Cons call calls)
  show ?case
  proof (cases "seen < MaxPullRequestFiles")
    case False
    then show ?thesis by (subst renames_loop.simps) simp
  next
    case True
    show ?thesis
    proof (cases "call page (if page = 1 then etag else [])")
      case (Inl e)
      then show ?thesis using True by (subst renames_loop.simps) simp
    next
      case (Inr r)
      let ?files = "take (MaxPullRequestFiles - seen) (rf_files r)"
      have "moves_on call" using Cons.prems(1) by simp
      then have "case call page (if page = 1 then etag else []) of Inl e \<Rightarrow> True
          | Inr r \<Rightarrow> rf_notModified r \<or> rf_nextPage r = 0 \<or> rf_files r \<noteq> []" unfolding moves_on_def by blast
      then have "rf_notModified r \<or> rf_nextPage r = 0 \<or> rf_files r \<noteq> []" using Inr by simp
      then consider "rf_notModified r" | "rf_nextPage r = 0" | "1 \<le> length ?files" using True by (cases "rf_files r") auto
      then show ?thesis
      proof cases
        case 3
        moreover have "MaxPullRequestFiles \<le> seen + (1 + length calls)" using Cons.prems(2) by simp
        ultimately have "MaxPullRequestFiles \<le> (seen + length ?files) + length calls" by linarith
        with Cons.IH Cons.prems(1) have rec: "renames_loop p etag (seen + length ?files) rn res calls \<noteq> None" for p rn res by simp
        define fs where "fs = ?files"
        show ?thesis using rec Inr True unfolding fs_def [symmetric]
          by (subst renames_loop.simps) (simp add: Let_def flip: fs_def)
      qed (use Inr True in \<open>(subst renames_loop.simps, simp add: Let_def)+\<close>)
    qed
  qed
qed

text \<open>A hydration returns, with a snapshot or an error: the rename listing ends within 3,000 pages, because
  every page before the last has a file and 3,000 files are the limit.\<close>

theorem hydration_returns:
  assumes "\<forall>call \<in> set (he_pages env). moves_on call" and "MaxPullRequestFiles \<le> length (he_pages env)"
  shows "hydrateFromMirror digest env rq \<noteq> None"
proof -
  have returns: "hydrate_files env m files truncated \<noteq> None" for m files truncated
    using renames_loop_returns [OF assms(1), of 0 1 "cm_etag m" Map.empty "\<lparr>fr_etag = [], fr_notModified = False, fr_truncated = False\<rparr>"] assms(2)
    by (auto simp: hydrate_files_def PullRequestFileRenamesConditional_def Let_def split: option.splits sum.splits)
  show ?thesis
  proof (cases "he_rows env")
    case (Inr rows)
    obtain files total truncated where f: "snapshot_files (hr_node rq) = (files, total, truncated)" by (metis prod_cases3)
    from returns obtain result where "hydrate_files env (PullRequestChangeMetadata rows) files truncated = Some result" by blast
    then show ?thesis by (simp add: hydrateFromMirror_def Let_def Inr f split: sum.split prod.split)
  qed (simp add: hydrateFromMirror_def Let_def)
qed

theorem hydration_returns_witness:
  "hydrateFromMirror (\<lambda>b. b) (demo_hydrate_env\<lparr>he_pages := replicate MaxPullRequestFiles (\<lambda>page etag. Inl ErrClosed)\<rparr>) demo_hydrate_request \<noteq> None"
  by (rule hydration_returns) (simp_all add: moves_on_def)

section \<open>Identities\<close>

lemma first_separator_unique: "xs @ c # us = ys @ c # vs \<Longrightarrow> c \<notin> set xs \<Longrightarrow> c \<notin> set ys \<Longrightarrow> us = vs"
proof (induction xs arbitrary: ys)
  case Nil
  then show ?case by (cases ys) auto
next
  case (Cons x xs)
  then show ?case by (cases ys) auto
qed

lemma identity_key_inj:
  assumes "identity_key kind login = identity_key kind' login'" and "CHR 0x00 \<notin> set kind" and "CHR 0x00 \<notin> set kind'"
  shows "to_lower login = to_lower login'"
  by (rule first_separator_unique [of kind "CHR 0x00" _ kind']) (use assms in \<open>simp_all add: identity_key_def\<close>)

lemma known_rows_key:
  "known_rows rows k = Some i \<Longrightarrow> \<exists>kind. kind \<in> fst ` set rows \<and> k = identity_key kind (id_login i)"
proof (induction rows rule: rev_induct)
  case Nil
  then show ?case by (simp add: known_rows_def)
next
  case (snoc row rows)
  obtain kind g n l where row: "row = (kind, g, n, l)" by (cases row) auto
  have upd: "known_rows (rows @ [row]) = (known_rows rows)(identity_key kind l \<mapsto> \<lparr>id_githubID = g, id_nodeID = n, id_login = l\<rparr>)"
    by (simp add: known_rows_def row)
  show ?case
  proof (cases "k = identity_key kind l")
    case True
    then have "id_login i = l" using snoc.prems upd by auto
    then show ?thesis using True row by (intro exI [of _ kind]) simp
  next
    case False
    then have "known_rows rows k = Some i" using snoc.prems by (simp add: upd)
    then show ?thesis using snoc.IH by auto
  qed
qed

definition named_keys :: "(string \<rightharpoonup> identity) \<Rightarrow> bool" where
  "named_keys known \<longleftrightarrow> (\<forall>k i. known k = Some i \<longrightarrow> (\<exists>kind. CHR 0x00 \<notin> set kind \<and> k = identity_key kind (id_login i)))"

lemma named_update: "named_keys known \<Longrightarrow> CHR 0x00 \<notin> set kind \<Longrightarrow> id_login i = login \<Longrightarrow> named_keys (known(identity_key kind login \<mapsto> i))"
  by (auto simp: named_keys_def)

lemma observe_named:
  "named_keys known \<Longrightarrow> named_keys (observe_request known r)" "named_keys known \<Longrightarrow> named_keys (observe_author known a)"
  unfolding observe_request_def observe_author_def by (auto intro!: named_update split: option.split)

lemma observed_named: "named_keys (observed_identities node)"
proof -
  have req: "named_keys known \<Longrightarrow> named_keys (foldl observe_request known rs)" for known rs
    by (induction rs arbitrary: known) (simp_all add: observe_named)
  have auth: "named_keys known \<Longrightarrow> named_keys (foldl observe_author known as)" for known as
    by (induction as arbitrary: known) (simp_all add: observe_named)
  show ?thesis unfolding observed_identities_def by (intro auth req) (simp add: named_keys_def)
qed

text \<open>The identity of a requested reviewer is replaced by the one of the same user as author of a review or a
  comment, and the numeric identifier is lost; the stored identities prefer the one that has it.\<close>

lemma author_replaces_requested_reviewer:
  assumes "rw_typename r = ''User''" and "rw_id r \<noteq> []" and "rw_login r \<noteq> []"
    and "an_typename a = ''User''" and "an_id a \<noteq> []" and "an_login a = rw_login r"
  shows "observe_request known r (identity_key ''user'' (rw_login r)) =
      Some \<lparr>id_githubID = rw_databaseID r, id_nodeID = rw_id r, id_login = rw_login r\<rparr>"
    "observe_author (observe_request known r) (Some a) (identity_key ''user'' (rw_login r)) =
      Some \<lparr>id_githubID = 0, id_nodeID = an_id a, id_login = rw_login r\<rparr>"
  using assms by (simp_all add: observe_request_def observe_author_def)

text \<open>An owner is resolved to the identity its token names, or has no identity.\<close>

definition identified :: "string \<Rightarrow> FileOwnerRecord \<Rightarrow> bool" where
  "identified org r \<longleftrightarrow>
     (if fo_state r = ''resolved''
      then (\<exists>name. lookup_name org r = Some name \<and> to_lower (fo_login r) = to_lower name)
      else fo_state r = ''unresolved'' \<and> fo_githubID r = 0 \<and> fo_nodeID r = [] \<and> fo_login r = [])"

lemma lookup_name_cong: "fo_type r = fo_type s \<Longrightarrow> fo_name r = fo_name s \<Longrightarrow> lookup_name org r = lookup_name org s"
  by (simp add: lookup_name_def)

lemma lookup_name_kind: "lookup_name org r = Some name \<Longrightarrow> CHR 0x00 \<notin> set (fo_type r)"
  by (auto simp: lookup_name_def split: if_splits)

lemma resolve_owner_identified:
  assumes "named_keys known" and "identified org r" and "fo_state r = ''unresolved''"
  shows "identified org (resolve_owner known org r)"
proof (cases "lookup_name org r")
  case None
  then show ?thesis using assms(2) by (simp add: resolve_owner_def)
next
  case (Some name)
  show ?thesis
  proof (cases "known (identity_key (fo_type r) name)")
    case None
    then show ?thesis using assms(2) Some by (simp add: resolve_owner_def)
  next
    case i: (Some i)
    then obtain kind where "CHR 0x00 \<notin> set kind" "identity_key (fo_type r) name = identity_key kind (id_login i)"
      using assms(1) by (auto simp: named_keys_def)
    then have "to_lower name = to_lower (id_login i)" using identity_key_inj lookup_name_kind [OF Some] by metis
    moreover have "lookup_name org (resolve_owner known org r) = Some name"
      using Some i lookup_name_cong [of "resolve_owner known org r" r] by (simp add: resolve_owner_def)
    ultimately show ?thesis using Some i by (simp add: identified_def resolve_owner_def)
  qed
qed


lemma demo_owned: "owns ''* @team'' ''a.go'' ''@team'' ''*'' 1"
proof -
  have "Resolve (Parse ''* @team'') ''a.go'' = Some \<lparr>ma_pattern = ''*'', ma_line = 1, ma_owners = [classifyOwner ''@team'']\<rparr>" by code_simp
  then show ?thesis by (simp add: owns_resolve)
qed


end
