(* ===== verification/Pull_Records.thy ===== *)
theory Pull_Records
  imports Change_Inputs Entity_Writer
begin

text \<open>Refresh keys and pull-request records of the fetch path: \<open>internal/fetch/key.go\<close>, the conversions of
  \<open>internal/fetch/convert.go\<close> that a GraphQL node goes through, the record types of
  \<open>internal/store/records.go\<close> and the fence of \<open>internal/fetch/handler.go\<close> that completes a record.\<close>

section \<open>Entity keys\<close>

record entityKey =
  ek_kind :: string
  ek_repo :: string
  ek_value :: string
  ek_number :: int

text \<open>\<open>strings.Cut\<close> on a one-character separator.\<close>

definition cut_char :: "char \<Rightarrow> string \<Rightarrow> (string \<times> string) option" where
  "cut_char sep s =
     (if sep \<in> set s then Some (takeWhile (\<lambda>c. c \<noteq> sep) s, tl (dropWhile (\<lambda>c. c \<noteq> sep) s)) else None)"

definition parseEntityKey :: "string \<Rightarrow> string \<Rightarrow> gerror + entityKey" where
  "parseEntityKey raw wantKind =
     (case strip_prefix (wantKind @ '':'') raw of
        None \<Rightarrow> Inl (ErrText ''key is of another kind'')
      | Some remainder \<Rightarrow>
          (case cut_char (CHR '':'') remainder of
             None \<Rightarrow> Inl (ErrText ''invalid key'')
           | Some (repo, value) \<Rightarrow>
               if repo = [] \<or> value = [] \<or> CHR ''/'' \<notin> set repo then Inl (ErrText ''invalid key'')
               else let key = \<lparr>ek_kind = wantKind, ek_repo = repo, ek_value = value, ek_number = 0\<rparr> in
                 if wantKind = ''pr'' \<or> wantKind = ''stack'' then
                   (case parse_int64 value of
                      None \<Rightarrow> Inl (ErrText ''invalid number in key'')
                    | Some number \<Rightarrow>
                        if number \<le> 0 then Inl (ErrText ''invalid number in key'') else Inr (key\<lparr>ek_number := number\<rparr>))
                 else Inr key))"

definition requestKey :: "entityKey \<Rightarrow> string" where
  "requestKey key = ek_kind key @ '':'' @ ek_repo key @ '':'' @ ek_value key"

section \<open>Records\<close>

record ReviewRequestRecord =
  qr_kind :: string
  qr_githubID :: int
  qr_nodeID :: string
  qr_login :: string
  qr_requestedAt :: "gotime option"

record PullRequestReviewRecord =
  vr_githubID :: int
  vr_nodeID :: string
  vr_authorKind :: string
  vr_authorNodeID :: string
  vr_authorLogin :: string
  vr_state :: string
  vr_submittedAt :: "gotime option"
  vr_commitOID :: string
  vr_updatedAt :: gotime

record PullRequestCommentRecord =
  mr_githubID :: int
  mr_nodeID :: string
  mr_authorKind :: string
  mr_authorNodeID :: string
  mr_authorLogin :: string
  mr_createdAt :: gotime
  mr_updatedAt :: gotime

record ReviewCommentRecord =
  kr_id :: string
  kr_body :: string
  kr_updatedAt :: gotime
  kr_authorLogin :: string

record ReviewThreadRecord =
  dr_id :: string
  dr_isResolved :: bool
  dr_isOutdated :: bool
  dr_path :: string
  dr_line :: "int option"
  dr_comments :: "ReviewCommentRecord list"
  dr_updatedAt :: gotime

record PullRequestRecord =
  pd_repository :: RepositoryRecord
  pd_githubID :: int
  pd_nodeID :: string
  pd_number :: int
  pd_title :: string
  pd_state :: string
  pd_draft :: bool
  pd_authorLogin :: string
  pd_headRef :: string
  pd_headSHA :: string
  pd_baseRef :: string
  pd_baseSHA :: string
  pd_reviewDecision :: string
  pd_mergeableState :: string
  pd_stackNumber :: "int option"
  pd_stackPosition :: "int option"
  pd_stackSummary :: "StackSummaryRecord option"
  pd_membershipKnown :: bool
  pd_updatedAt :: gotime
  pd_threads :: "ReviewThreadRecord list"
  pd_threadsKnown :: bool
  pd_reviewRequests :: "ReviewRequestRecord list"
  pd_reviewRequestsKnown :: bool
  pd_reviews :: "PullRequestReviewRecord list"
  pd_reviewsKnown :: bool
  pd_comments :: "PullRequestCommentRecord list"
  pd_commentsKnown :: bool
  pd_changeSnapshot :: "PullRequestChangeSnapshotRecord option"
  pd_changeInputsKnown :: bool
  pd_etag :: string
  pd_syncedAt :: gotime
  pd_source :: string

record FetchMetadata =
  fm_nodeID :: string
  fm_etag :: string
  fm_title :: string
  fm_state :: string
  fm_draft :: bool
  fm_authorLogin :: string
  fm_headRef :: string
  fm_baseRef :: string
  fm_reviewDecision :: string
  fm_mergeableState :: string
  fm_stackNumber :: "int option"
  fm_stackPosition :: "int option"
  fm_updatedAt :: gotime
  fm_baseSHA :: string
  fm_headSHA :: string
  fm_repoGitHubID :: int
  fm_installationID :: int
  fm_repoFullName :: string
  fm_codeowners :: "CodeownersSourceRecord option"
  fm_forceCodeowners :: bool

section \<open>Conversions\<close>

definition repositoryRecordFromNode :: "RepositoryNode \<Rightarrow> int \<Rightarrow> int \<Rightarrow> RepositoryRecord" where
  "repositoryRecordFromNode repository installationID orgID =
     \<lparr>rd_installation = installationID, rd_org = orgID, rd_ghID = rx_databaseID repository, rd_nodeID = rx_id repository,
      rd_owner = rx_owner repository, rd_name = rx_name repository, rd_fullName = rx_nameWithOwner repository,
      rd_defaultBranch = (case rx_defaultBranchRef repository of None \<Rightarrow> [] | Some (name, oid) \<Rightarrow> name),
      rd_defaultHeadSHA = (case rx_defaultBranchRef repository of None \<Rightarrow> [] | Some (name, oid) \<Rightarrow> oid),
      rd_archived = rx_isArchived repository, rd_ghUpdatedAt = rx_updatedAt repository\<rparr>"

definition graphQLDatabaseID :: "int option \<Rightarrow> int" where
  "graphQLDatabaseID i = (case i of None \<Rightarrow> 0 | Some n \<Rightarrow> n)"

definition actor_kind :: "string \<Rightarrow> string" where
  "actor_kind typename =
     (case map_of [(''User'', ''user''), (''Bot'', ''bot''), (''Mannequin'', ''mannequin''), (''Organization'', ''organization''),
                   (''EnterpriseUserAccount'', ''enterprise_user_account'')] typename of
        None \<Rightarrow> ''unknown'' | Some kind \<Rightarrow> kind)"

definition actorIdentity :: "ActorNode option \<Rightarrow> string \<times> string \<times> string" where
  "actorIdentity actor =
     (case actor of None \<Rightarrow> (''deleted'', [], []) | Some a \<Rightarrow> (actor_kind (an_typename a), an_id a, an_login a))"

text \<open>A requested reviewer outside the public contract has no record.\<close>

definition request_record :: "ReviewRequestNode \<Rightarrow> ReviewRequestRecord option" where
  "request_record reviewer =
     (let supported = (if rw_typename reviewer = ''User'' then Some (''user'', rw_login reviewer)
                       else if rw_typename reviewer = ''Team'' then Some (''team'', rw_slug reviewer) else None) in
      case supported of
        None \<Rightarrow> None
      | Some (kind, login) \<Rightarrow>
          if rw_databaseID reviewer \<le> 0 \<or> rw_id reviewer = [] \<or> login = [] then None
          else Some \<lparr>qr_kind = kind, qr_githubID = rw_databaseID reviewer, qr_nodeID = rw_id reviewer, qr_login = login,
                     qr_requestedAt = None\<rparr>)"

definition review_record :: "PullRequestReviewNode \<Rightarrow> PullRequestReviewRecord" where
  "review_record review =
     (case actorIdentity (rn_author review) of
        (kind, nodeID, login) \<Rightarrow>
          \<lparr>vr_githubID = graphQLDatabaseID (rn_databaseID review), vr_nodeID = rn_id review, vr_authorKind = kind,
           vr_authorNodeID = nodeID, vr_authorLogin = login, vr_state = to_lower (rn_state review),
           vr_submittedAt = rn_submittedAt review, vr_commitOID = (case rn_commit review of None \<Rightarrow> [] | Some oid \<Rightarrow> oid),
           vr_updatedAt = rn_updatedAt review\<rparr>)"

definition comment_record :: "IssueCommentNode \<Rightarrow> PullRequestCommentRecord" where
  "comment_record comment =
     (case actorIdentity (ic_author comment) of
        (kind, nodeID, login) \<Rightarrow>
          \<lparr>mr_githubID = graphQLDatabaseID (ic_databaseID comment), mr_nodeID = ic_id comment, mr_authorKind = kind,
           mr_authorNodeID = nodeID, mr_authorLogin = login, mr_createdAt = ic_createdAt comment,
           mr_updatedAt = ic_updatedAt comment\<rparr>)"

definition thread_comment :: "ReviewCommentNode \<Rightarrow> ReviewCommentRecord" where
  "thread_comment comment =
     \<lparr>kr_id = co_id comment, kr_body = co_body comment, kr_updatedAt = co_updatedAt comment,
      kr_authorLogin = (case co_author comment of None \<Rightarrow> [] | Some login \<Rightarrow> login)\<rparr>"

definition thread_record :: "gotime \<Rightarrow> ReviewThreadNode \<Rightarrow> ReviewThreadRecord" where
  "thread_record parentUpdatedAt thread =
     \<lparr>dr_id = tn_id thread, dr_isResolved = tn_isResolved thread, dr_isOutdated = tn_isOutdated thread,
      dr_path = tn_path thread, dr_line = tn_line thread,
      dr_comments = map thread_comment (cn_nodes (tn_comments thread)),
      dr_updatedAt = foldl (\<lambda>latest comment. if latest < co_updatedAt comment then co_updatedAt comment else latest)
                       parentUpdatedAt (cn_nodes (tn_comments thread))\<rparr>"

text \<open>What the conversion reads of the queued item: its metadata, start and source.\<close>

definition pullRecordFromNode ::
  "PullRequestNode \<Rightarrow> FetchMetadata \<Rightarrow> gotime \<Rightarrow> string \<Rightarrow> int \<Rightarrow> int \<Rightarrow> PullRequestRecord" where
  "pullRecordFromNode node metadata startedAt source installationID orgID =
     \<lparr>pd_repository = repositoryRecordFromNode (pn_repository node) installationID orgID,
      pd_githubID = pn_databaseID node, pd_nodeID = pn_id node, pd_number = pn_number node, pd_title = pn_title node,
      pd_state = to_lower (pn_state node), pd_draft = pn_isDraft node, pd_authorLogin = pn_author node,
      pd_headRef = pn_headRefName node, pd_headSHA = pn_headRefOID node, pd_baseRef = pn_baseRefName node,
      pd_baseSHA = pn_baseRefOID node, pd_reviewDecision = pn_reviewDecision node, pd_mergeableState = pn_mergeable node,
      pd_stackNumber = fm_stackNumber metadata, pd_stackPosition = fm_stackPosition metadata, pd_stackSummary = None,
      pd_membershipKnown = False, pd_updatedAt = pn_updatedAt node,
      pd_threads = map (thread_record (pn_updatedAt node)) (cn_nodes (pn_reviewThreads node)), pd_threadsKnown = True,
      pd_reviewRequests = List.map_filter request_record (cn_nodes (pn_reviewRequests node)), pd_reviewRequestsKnown = True,
      pd_reviews = map review_record (cn_nodes (pn_reviews node)), pd_reviewsKnown = True,
      pd_comments = map comment_record (cn_nodes (pn_comments node)), pd_commentsKnown = True,
      pd_changeSnapshot = None, pd_changeInputsKnown = False, pd_etag = fm_etag metadata, pd_syncedAt = startedAt,
      pd_source = source\<rparr>"

text \<open>The stack of a REST representation, which is all that the fence takes of it.\<close>

definition applyPullFence :: "PullRequestRecord \<Rightarrow> PullRequestFence \<Rightarrow> PullRequestRecord" where
  "applyPullFence record fence =
     (let tagged = record\<lparr>pd_etag := pf_etag fence\<rparr> in
      case pf_pull fence of
        None \<Rightarrow> tagged
      | Some pull \<Rightarrow>
          tagged\<lparr>pd_stackNumber := map_option ss_number (lp_stack pull),
                 pd_stackPosition := map_option ss_position (lp_stack pull),
                 pd_stackSummary := lp_stack pull, pd_membershipKnown := True\<rparr>)"

definition matchingPullETag :: "FetchMetadata \<Rightarrow> PullRequestNode \<Rightarrow> string" where
  "matchingPullETag metadata node =
     (if fm_etag metadata = [] \<or> pn_updatedAt node \<noteq> fm_updatedAt metadata \<or> pn_title node \<noteq> fm_title metadata \<or>
         \<not> EqualFold (pn_state node) (fm_state metadata) \<or> pn_isDraft node \<noteq> fm_draft metadata \<or>
         pn_author node \<noteq> fm_authorLogin metadata \<or> pn_headRefName node \<noteq> fm_headRef metadata \<or>
         pn_baseRefName node \<noteq> fm_baseRef metadata \<or> pn_reviewDecision node \<noteq> fm_reviewDecision metadata \<or>
         pn_mergeable node \<noteq> fm_mergeableState metadata \<or> pn_baseRefOID node \<noteq> fm_baseSHA metadata \<or>
         pn_headRefOID node \<noteq> fm_headSHA metadata
      then [] else fm_etag metadata)"

end
