(* ===== verification/Coordinator.thy ===== *)
theory Coordinator
  imports Pull_Records Branch_Pages Attribution
begin

text \<open>The pull-request coordinator (\<open>internal/fetch/coordinator.go\<close>): submissions gather into one batch per class
  and source, a full batch or its timer starts it, and the execution of a batch fetches the nodes together,
  isolates a failing one, applies each parent repository once and writes every pull request in a
  transaction of its own. With it the batch write of \<open>internal/store/pull_request.go\<close> and the retry of
  \<open>internal/fetch/handler.go\<close>.

  The write of one pull request is an argument, as are GitHub's answers, the reads of the database and
  what other writers commit in between. An item's identity is its pointer, a number.\<close>

type_synonym database = "repository_cache entity_state"

section \<open>Items\<close>

text \<open>The context of an item: the fences it carries into its writes, and whether it leaves the parent repository alone.\<close>

record 'h pullBatchItem =
  qi_pointer :: nat
  qi_ctx :: entity_ctx
  qi_skips :: bool
  qi_key :: entityKey
  qi_nodeID :: string
  qi_metadata :: FetchMetadata
  qi_source :: string
  qi_class :: Class
  qi_startedAt :: gotime
  qi_hook :: "string \<Rightarrow> 'h"
  qi_repositoryGeneration :: int
  qi_repositoryObservation :: "Observation option"

datatype pullBatchKey = PullBatchKey (bk_class: Class) (bk_source: string)

definition batch_key :: "'h pullBatchItem \<Rightarrow> pullBatchKey" where
  "batch_key item = PullBatchKey (qi_class item) (qi_source item)"

definition immutablePRKey :: "'h pullBatchItem \<Rightarrow> string" where
  "immutablePRKey item =
     PullRequestKey (fm_installationID (qi_metadata item)) (fm_repoGitHubID (qi_metadata item)) (ek_number (qi_key item))"

section \<open>Batches\<close>

text \<open>A timer is armed, has fired with its flush still to take the lock, or is over.\<close>

datatype batch_timer = Armed | Fired | Over

record 'h pendingPullBatch =
  pb_key :: pullBatchKey
  pb_items :: "'h pullBatchItem list"
  pb_timer :: batch_timer
  pb_closed :: bool

text \<open>The batches ever made are in the order of their making, and the table and the started executions point
  into them.\<close>

record 'h prCoordinator =
  qc_batches :: "pullBatchKey \<rightharpoonup> nat"
  qc_heap :: "'h pendingPullBatch list"
  qc_started :: "nat list"

definition newPRCoordinator :: "'h prCoordinator" where
  "newPRCoordinator = \<lparr>qc_batches = Map.empty, qc_heap = [], qc_started = []\<rparr>"

definition update_batch :: "nat \<Rightarrow> ('h pendingPullBatch \<Rightarrow> 'h pendingPullBatch) \<Rightarrow> 'h prCoordinator \<Rightarrow> 'h prCoordinator" where
  "update_batch i f c = c\<lparr>qc_heap := (qc_heap c)[i := f (qc_heap c ! i)]\<rparr>"

text \<open>\<open>delete\<close>, \<open>closed\<close> and the start of the execution. \<open>Stop\<close> cannot call back a timer that has fired.\<close>

definition start_batch :: "pullBatchKey \<Rightarrow> nat \<Rightarrow> 'h prCoordinator \<Rightarrow> 'h prCoordinator" where
  "start_batch key i c =
     (update_batch i (\<lambda>b. b\<lparr>pb_closed := True\<rparr>) c)
       \<lparr>qc_batches := (qc_batches c)(key := None), qc_started := qc_started c @ [i]\<rparr>"

definition stop_timer :: "'h pendingPullBatch \<Rightarrow> 'h pendingPullBatch" where
  "stop_timer b = b\<lparr>pb_timer := (if pb_timer b = Armed then Over else pb_timer b)\<rparr>"

definition open_batch :: "pullBatchKey \<Rightarrow> 'h prCoordinator \<Rightarrow> nat \<times> 'h prCoordinator" where
  "open_batch key c =
     (case qc_batches c key of
        Some i \<Rightarrow> (i, c)
      | None \<Rightarrow>
          (length (qc_heap c),
           c\<lparr>qc_batches := (qc_batches c)(key \<mapsto> length (qc_heap c)),
             qc_heap := qc_heap c @ [\<lparr>pb_key = key, pb_items = [], pb_timer = Armed, pb_closed = False\<rparr>]\<rparr>))"

text \<open>The part of \<open>submit\<close> under the lock; then the caller waits for the item's result or its own cancellation.\<close>

definition submit :: "'h pullBatchItem \<Rightarrow> 'h prCoordinator \<Rightarrow> 'h prCoordinator" where
  "submit item c =
     (case open_batch (batch_key item) c of
        (i, c1) \<Rightarrow>
          let c2 = update_batch i (\<lambda>b. b\<lparr>pb_items := pb_items b @ [item]\<rparr>) c1 in
          if length (pb_items (qc_heap c2 ! i)) = defaultBatchSize
          then update_batch i stop_timer (start_batch (batch_key item) i c2) else c2)"

definition flush :: "pullBatchKey \<Rightarrow> nat \<Rightarrow> 'h prCoordinator \<Rightarrow> 'h prCoordinator" where
  "flush key i c =
     (if pb_closed (qc_heap c ! i) \<or> qc_batches c key \<noteq> Some i then c else start_batch key i c)"

inductive coordinator_step :: "'h prCoordinator \<Rightarrow> 'h pullBatchItem list \<Rightarrow> 'h prCoordinator \<Rightarrow> bool" where
  submits: "coordinator_step c [item] (submit item c)"
| fires: "i < length (qc_heap c) \<Longrightarrow> pb_timer (qc_heap c ! i) = Armed \<Longrightarrow>
    coordinator_step c [] (update_batch i (\<lambda>b. b\<lparr>pb_timer := Fired\<rparr>) c)"
| flushes: "i < length (qc_heap c) \<Longrightarrow> pb_timer (qc_heap c ! i) = Fired \<Longrightarrow>
    coordinator_step c [] (flush (pb_key (qc_heap c ! i)) i (update_batch i (\<lambda>b. b\<lparr>pb_timer := Over\<rparr>) c))"

text \<open>The states that submissions and timers lead to, with the items submitted so far.\<close>

inductive coordinator_reaches :: "'h prCoordinator \<Rightarrow> 'h pullBatchItem list \<Rightarrow> 'h prCoordinator \<Rightarrow> bool" where
  stays: "coordinator_reaches c [] c"
| steps: "coordinator_reaches c items c' \<Longrightarrow> coordinator_step c' new c'' \<Longrightarrow> coordinator_reaches c (items @ new) c''"

section \<open>Nodes\<close>

fun isolate_nodes :: "gerror \<Rightarrow> string list \<Rightarrow> graphql_call list \<Rightarrow> ((gerror + PullRequestNode option) list \<times> graphql_call list) option" where
  "isolate_nodes batchErr [] calls = Some ([], calls)"
| "isolate_nodes batchErr (i # ids) calls =
     (case BatchPullRequests [i] calls of
        None \<Rightarrow> None
      | Some (r, calls) \<Rightarrow>
          let node = (case r of Inl e \<Rightarrow> Inl (ErrWrap ''GraphQL PR batch failed; isolate node'' [batchErr, e]) | Inr nodes \<Rightarrow> Inr (hd nodes)) in
          map_option (\<lambda>(nodes, calls). (node # nodes, calls)) (isolate_nodes batchErr ids calls))"

definition fetchPullRequestNodes :: "string list \<Rightarrow> graphql_call list \<Rightarrow> ((gerror + PullRequestNode option) list \<times> graphql_call list) option" where
  "fetchPullRequestNodes ids calls =
     (case BatchPullRequests ids calls of
        None \<Rightarrow> None
      | Some (Inr nodes, calls) \<Rightarrow> Some (map Inr nodes, calls)
      | Some (Inl batchErr, calls) \<Rightarrow>
          if length ids = 1 then Some ([Inl batchErr], calls) else isolate_nodes batchErr ids calls)"

section \<open>The parent repository\<close>

definition incidentalRepositoryApplyAttempts :: nat where "incidentalRepositoryApplyAttempts = 5"

text \<open>What an attempt meets: a failing read of the version, the commits of others before its observation and
  between the observation and its transaction, and the clock of the transaction.\<close>

record repository_attempt =
  at_readError :: "gerror option"
  at_before :: "database \<Rightarrow> database"
  at_between :: "database \<Rightarrow> database"
  at_clock :: gotime

definition repository_ctx :: "'h pullBatchItem \<Rightarrow> gotime \<Rightarrow> entity_ctx" where
  "repository_ctx item clock =
     (qi_ctx item)\<lparr>cx_refresh := Some \<lparr>fe_kind = KindRefreshRepository, fe_key = metadata_key (fm_repoFullName (qi_metadata item)),
                                       fe_generation = qi_repositoryGeneration item\<rparr>, cx_clock := clock\<rparr>"

definition item_repository_key :: "'h pullBatchItem \<Rightarrow> string" where
  "item_repository_key item = RepositoryKey (fm_installationID (qi_metadata item)) (fm_repoGitHubID (qi_metadata item))"

fun apply_attempts ::
  "'h pullBatchItem \<Rightarrow> RepositoryRecord \<Rightarrow> Observation option \<Rightarrow> nat \<Rightarrow> (nat \<Rightarrow> repository_attempt) \<Rightarrow> nat \<Rightarrow> database \<Rightarrow> database \<times> gerror option" where
  "apply_attempts item repository ob attempt env left s =
     (case ApplyRepositoryObserved (repository_ctx item (at_clock (env attempt))) ob repository (qi_source item) []
             (at_between (env attempt) s) of
        (s1, Inr _, _) \<Rightarrow> (s1, None)
      | (s1, Inl e, _) \<Rightarrow>
          if \<not> errors_is e ErrObservationSuperseded then (s1, Some e)
          else case left of
                 0 \<Rightarrow> (s1, Some e)
               | Suc n \<Rightarrow>
                   let s2 = at_before (env (attempt + 1)) s1 in
                   (case (case at_readError (env (attempt + 1)) of Some e \<Rightarrow> Inl e | None \<Rightarrow> BeginObservation (item_repository_key item) s2) of
                      Inl e \<Rightarrow> (s2, Some e)
                    | Inr ob' \<Rightarrow> apply_attempts item repository (Some ob') (attempt + 1) env n s2))"

declare apply_attempts.simps [simp del]

definition applyIncidentalRepository ::
  "'h pullBatchItem \<Rightarrow> RepositoryRecord \<Rightarrow> (nat \<Rightarrow> repository_attempt) \<Rightarrow> database \<Rightarrow> database \<times> gerror option" where
  "applyIncidentalRepository item repository env s =
     apply_attempts item repository (qi_repositoryObservation item) 0 env (incidentalRepositoryApplyAttempts - 1) s"

section \<open>The batch write\<close>

record 'h PullRequestApply =
  ap_context :: entity_ctx
  ap_record :: PullRequestRecord
  ap_observation :: "Observation option"
  ap_hook :: 'h

type_synonym ('h, 'r) pull_write = "entity_ctx \<Rightarrow> Observation option \<Rightarrow> PullRequestRecord \<Rightarrow> 'h \<Rightarrow> database \<Rightarrow> database \<times> (gerror + 'r)"

definition record_key :: "PullRequestRecord \<Rightarrow> string" where
  "record_key record = PullRequestKey (rd_installation (pd_repository record)) (rd_ghID (pd_repository record)) (pd_number record)"

text \<open>The writes in order, each after what others have committed, and the outcomes by key: a later one of the
  same key replaces an earlier one.\<close>

fun apply_all ::
  "('h, 'r) pull_write \<Rightarrow> (nat \<Rightarrow> database \<Rightarrow> database) \<Rightarrow> nat \<Rightarrow> 'h PullRequestApply list \<Rightarrow> (string \<rightharpoonup> gerror + 'r) \<Rightarrow> database \<Rightarrow>
     database \<times> (string \<rightharpoonup> gerror + 'r)" where
  "apply_all write_pull others n [] outcomes s = (s, outcomes)"
| "apply_all write_pull others n (a # applies) outcomes s =
     (case write_pull (ap_context a) (ap_observation a) (ap_record a) (ap_hook a) (others n s) of
        (s1, outcome) \<Rightarrow> apply_all write_pull others (n + 1) applies (outcomes(record_key (ap_record a) \<mapsto> outcome)) s1)"

definition ApplyPullRequestBatch ::
  "('h, 'r) pull_write \<Rightarrow> (nat \<Rightarrow> database \<Rightarrow> database) \<Rightarrow> 'h PullRequestApply list \<Rightarrow> database \<Rightarrow> database \<times> (string \<rightharpoonup> gerror + 'r)" where
  "ApplyPullRequestBatch write_pull others applies s =
     apply_all write_pull others 0 (sort_key (\<lambda>a. record_key (ap_record a)) applies) Map.empty s"

section \<open>Execution\<close>

text \<open>What an execution meets, by item where it is the item's own.\<close>

record batch_env =
  xe_beginPull :: "nat \<Rightarrow> string \<Rightarrow> gerror + Observation"
  xe_metadata :: "nat \<Rightarrow> string \<Rightarrow> int \<Rightarrow> gerror + FetchMetadata"
  xe_generation :: "nat \<Rightarrow> string \<Rightarrow> string \<Rightarrow> gerror + int"
  xe_beginRepository :: "nat \<Rightarrow> string \<Rightarrow> gerror + Observation"
  xe_calls :: "graphql_call list"
  xe_hydrate :: "nat \<Rightarrow> hydrate_env"
  xe_attempts :: "int \<Rightarrow> nat \<Rightarrow> repository_attempt"
  xe_others :: "nat \<Rightarrow> database \<Rightarrow> database"

text \<open>The reads before the fetch: the item with its fresh metadata, and the observation of its pull request.\<close>

definition observe_item :: "batch_env \<Rightarrow> 'h pullBatchItem \<Rightarrow> gerror + 'h pullBatchItem \<times> Observation" where
  "observe_item env item =
     (let p = qi_pointer item in
      case xe_beginPull env p (immutablePRKey item) of
        Inl e \<Rightarrow> Inl e
      | Inr observation \<Rightarrow>
          (case xe_metadata env p (ek_repo (qi_key item)) (ek_number (qi_key item)) of
             Inl e \<Rightarrow> Inl e
           | Inr metadata \<Rightarrow>
               let item1 = item\<lparr>qi_metadata := metadata, qi_nodeID := fm_nodeID metadata\<rparr> in
               (case xe_generation env p KindRefreshRepository (metadata_key (fm_repoFullName metadata)) of
                  Inl e \<Rightarrow> Inl e
                | Inr generation \<Rightarrow>
                    (case xe_beginRepository env p (item_repository_key item1) of
                       Inl e \<Rightarrow> Inl e
                     | Inr repositoryObservation \<Rightarrow>
                         Inr (item1\<lparr>qi_repositoryGeneration := generation, qi_repositoryObservation := Some repositoryObservation\<rparr>,
                              observation)))))"

record 'h preparedPull =
  pq_item :: "'h pullBatchItem"
  pq_observation :: Observation
  pq_record :: PullRequestRecord

definition errGraphQLNodeNotFound :: gerror where "errGraphQLNodeNotFound = ErrText ''GraphQL PR node was not found''"

text \<open>The record of an item from its node; no result while the hydration has not returned.\<close>

definition prepare_item ::
  "(string \<Rightarrow> string) \<Rightarrow> batch_env \<Rightarrow> int \<Rightarrow> int \<Rightarrow> 'h pullBatchItem \<times> Observation \<Rightarrow> gerror + PullRequestNode option \<Rightarrow>
     (gerror + 'h preparedPull) option" where
  "prepare_item digest env installationID orgID observed answer =
     (case answer of
        Inl e \<Rightarrow> Some (Inl e)
      | Inr None \<Rightarrow> Some (Inl (ErrWrap ''node'' [errGraphQLNodeNotFound]))
      | Inr (Some node) \<Rightarrow>
          let item = fst observed;
              fenceETag = matchingPullETag (qi_metadata item) node;
              item1 = item\<lparr>qi_metadata := (qi_metadata item)\<lparr>fm_etag := fenceETag\<rparr>\<rparr>;
              record = pullRecordFromNode node (qi_metadata item1) (qi_startedAt item) (qi_source item) installationID orgID;
              request = \<lparr>hr_repositoryID = rd_ghID (pd_repository record), hr_owner = rd_owner (pd_repository record),
                         hr_name = rd_name (pd_repository record), hr_node = node, hr_mirrored = fm_codeowners (qi_metadata item),
                         hr_force = fm_forceCodeowners (qi_metadata item), hr_pullETag = fenceETag\<rparr> in
          (case HydrateFromMirrorConditional digest (xe_hydrate env (qi_pointer item)) request of
             None \<Rightarrow> None
           | Some (Inl e) \<Rightarrow> Some (Inl (ErrWrap ''hydrate PR change inputs'' [e]))
           | Some (Inr (snapshot, fence)) \<Rightarrow>
               Some (Inr \<lparr>pq_item = item1, pq_observation = snd observed,
                          pq_record = (applyPullFence record fence)\<lparr>pd_changeSnapshot := Some snapshot, pd_changeInputsKnown := True\<rparr>\<rparr>)))"

fun prepare_all ::
  "(string \<Rightarrow> string) \<Rightarrow> batch_env \<Rightarrow> int \<Rightarrow> int \<Rightarrow> (('h pullBatchItem \<times> Observation) \<times> (gerror + PullRequestNode option)) list \<Rightarrow>
     (nat \<times> (gerror + 'h preparedPull)) list option" where
  "prepare_all digest env installationID orgID [] = Some []"
| "prepare_all digest env installationID orgID ((observed, answer) # rest) =
     (case prepare_item digest env installationID orgID observed answer of
        None \<Rightarrow> None
      | Some r \<Rightarrow> map_option (\<lambda>rs. (qi_pointer (fst observed), r) # rs) (prepare_all digest env installationID orgID rest))"

definition repository_id :: "'h preparedPull \<Rightarrow> int" where
  "repository_id p = rd_ghID (pd_repository (pq_record p))"

text \<open>The first item of a repository that does not skip it stands for it.\<close>

definition repositoryCandidates :: "'h preparedPull list \<Rightarrow> int \<rightharpoonup> 'h preparedPull" where
  "repositoryCandidates prepared repoID = List.find (\<lambda>p. repository_id p = repoID \<and> \<not> qi_skips (pq_item p)) prepared"

definition candidate_ids :: "'h preparedPull list \<Rightarrow> int list" where
  "candidate_ids prepared = sort (remdups (map repository_id (filter (\<lambda>p. \<not> qi_skips (pq_item p)) prepared)))"

definition failure_of :: "gerror option \<Rightarrow> gerror option" where
  "failure_of e = (case e of None \<Rightarrow> None | Some e \<Rightarrow> if errors_is e ErrRefreshGenerationSuperseded then None else Some e)"

fun apply_repositories ::
  "batch_env \<Rightarrow> 'h preparedPull list \<Rightarrow> int list \<Rightarrow> (int \<rightharpoonup> gerror) \<Rightarrow> database \<Rightarrow> database \<times> (int \<rightharpoonup> gerror)" where
  "apply_repositories env prepared [] failures s = (s, failures)"
| "apply_repositories env prepared (repoID # ids) failures s =
     (case repositoryCandidates prepared repoID of
        None \<Rightarrow> apply_repositories env prepared ids failures s
      | Some p \<Rightarrow>
          (case applyIncidentalRepository (pq_item p) (pd_repository (pq_record p)) (xe_attempts env repoID) s of
             (s1, e) \<Rightarrow>
               apply_repositories env prepared ids
                 (case failure_of e of None \<Rightarrow> failures | Some err \<Rightarrow> failures(repoID \<mapsto> err)) s1))"

definition blocked :: "(int \<rightharpoonup> gerror) \<Rightarrow> 'h preparedPull \<Rightarrow> gerror option" where
  "blocked failures p = (if qi_skips (pq_item p) then None else failures (repository_id p))"

definition pull_apply :: "'h preparedPull \<Rightarrow> 'h PullRequestApply" where
  "pull_apply p = \<lparr>ap_context = qi_ctx (pq_item p), ap_record = pq_record p, ap_observation = Some (pq_observation p),
                   ap_hook = qi_hook (pq_item p) (rd_fullName (pd_repository (pq_record p)))\<rparr>"

text \<open>\<open>applyItems\<close>: the last item of a key.\<close>

definition applyItems :: "'h preparedPull list \<Rightarrow> string \<rightharpoonup> nat" where
  "applyItems prepared = foldl (\<lambda>m p. m(record_key (pq_record p) \<mapsto> qi_pointer (pq_item p))) Map.empty prepared"

text \<open>The result that the coordinator has for an item: its failed reads, its failed preparation, the failure of its
  repository, or the outcome of the key that the item stands for. \<open>finishAll\<close> sends an error where it has none.\<close>

definition omitted :: "'h pullBatchItem \<Rightarrow> gerror" where
  "omitted item = ErrText (''PR batch omitted result for '' @ requestKey (qi_key item))"

definition finishAll :: "'h pullBatchItem list \<Rightarrow> (nat \<rightharpoonup> gerror + 'r) \<Rightarrow> (nat \<times> (gerror + 'r)) list" where
  "finishAll items results =
     map (\<lambda>item. (qi_pointer item, case results (qi_pointer item) of Some r \<Rightarrow> r | None \<Rightarrow> Inl (omitted item))) items"

definition read_failures :: "batch_env \<Rightarrow> 'h pullBatchItem list \<Rightarrow> nat \<rightharpoonup> gerror + 'r" where
  "read_failures env items =
     map_of (List.map_filter (\<lambda>item. case observe_item env item of Inl e \<Rightarrow> Some (qi_pointer item, Inl e) | Inr _ \<Rightarrow> None) items)"

definition active_items :: "batch_env \<Rightarrow> 'h pullBatchItem list \<Rightarrow> ('h pullBatchItem \<times> Observation) list" where
  "active_items env items = List.map_filter (\<lambda>item. case observe_item env item of Inl e \<Rightarrow> None | Inr r \<Rightarrow> Some r) items"

definition prepare_failures :: "(nat \<times> (gerror + 'h preparedPull)) list \<Rightarrow> nat \<rightharpoonup> gerror + 'r" where
  "prepare_failures rs = map_of (List.map_filter (\<lambda>(i, r). case r of Inl e \<Rightarrow> Some (i, Inl e) | Inr _ \<Rightarrow> None) rs)"

definition prepared_pulls :: "(nat \<times> (gerror + 'h preparedPull)) list \<Rightarrow> 'h preparedPull list" where
  "prepared_pulls rs = List.map_filter (\<lambda>(i, r). case r of Inl e \<Rightarrow> None | Inr p \<Rightarrow> Some p) rs"

definition repository_results :: "(int \<rightharpoonup> gerror) \<Rightarrow> 'h preparedPull list \<Rightarrow> nat \<rightharpoonup> gerror + 'r" where
  "repository_results failures prepared =
     map_of (List.map_filter (\<lambda>p. map_option (\<lambda>e. (qi_pointer (pq_item p), Inl e)) (blocked failures p)) prepared)"

definition outcome_results :: "(string \<rightharpoonup> gerror + 'r) \<Rightarrow> (string \<rightharpoonup> nat) \<Rightarrow> 'h preparedPull list \<Rightarrow> nat \<rightharpoonup> gerror + 'r" where
  "outcome_results outcomes stands prepared =
     map_of (List.map_filter (\<lambda>p. case stands (record_key (pq_record p)) of
         None \<Rightarrow> None
       | Some i \<Rightarrow> map_option (\<lambda>outcome. (i, outcome)) (outcomes (record_key (pq_record p)))) prepared)"

definition execute ::
  "(string \<Rightarrow> string) \<Rightarrow> ('h, 'r) pull_write \<Rightarrow> batch_env \<Rightarrow> int \<Rightarrow> int \<Rightarrow> 'h pullBatchItem list \<Rightarrow> database \<Rightarrow>
     (database \<times> (nat \<times> (gerror + 'r)) list) option" where
  "execute digest write_pull env installationID orgID items s =
     (let items = sort_key immutablePRKey items;
          active = active_items env items in
      if active = [] then Some (s, finishAll items (read_failures env items))
      else case fetchPullRequestNodes (map (\<lambda>a. qi_nodeID (fst a)) active) (xe_calls env) of
             None \<Rightarrow> None
           | Some (answers, _) \<Rightarrow>
               (case prepare_all digest env installationID orgID (zip active answers) of
                  None \<Rightarrow> None
                | Some rs \<Rightarrow>
                    let prepared = prepared_pulls rs in
                    (case apply_repositories env prepared (candidate_ids prepared) Map.empty s of
                       (s1, failures) \<Rightarrow>
                         let writable = filter (\<lambda>p. blocked failures p = None) prepared in
                         (case ApplyPullRequestBatch write_pull (xe_others env) (map pull_apply writable) s1 of
                            (s2, outcomes) \<Rightarrow>
                              Some (s2, finishAll items
                                ((((read_failures env items) ++ (prepare_failures rs)) ++ (repository_results failures prepared)) ++
                                 (outcome_results outcomes (applyItems writable) writable)))))))"

section \<open>The retry of the handler\<close>

definition observationRetryLimit :: nat where "observationRetryLimit = 3"

text \<open>Each attempt with whether the context ends during the wait after it.\<close>

fun retry_attempts :: "nat \<Rightarrow> (nat \<Rightarrow> gerror option \<times> gerror option) \<Rightarrow> nat \<Rightarrow> gerror option" where
  "retry_attempts attempt run left =
     (case run attempt of
        (None, _) \<Rightarrow> None
      | (Some e, cancelled) \<Rightarrow>
          if \<not> errors_is e ErrObservationSuperseded then Some e
          else case left of
                 0 \<Rightarrow> Some e
               | Suc n \<Rightarrow> (case cancelled of Some ctxErr \<Rightarrow> Some ctxErr | None \<Rightarrow> retry_attempts (attempt + 1) run n))"

declare retry_attempts.simps [simp del]

definition retrySupersededObservation :: "(nat \<Rightarrow> gerror option \<times> gerror option) \<Rightarrow> gerror option" where
  "retrySupersededObservation run = retry_attempts 0 run (observationRetryLimit - 1)"

end
