(* ===== verification/Coordinator_Steps.thy ===== *)
theory Coordinator_Steps
  imports Coordinator "HOL-Library.Multiset"
begin

text \<open>The batching of the coordinator as a state machine: every submitted item is in one batch, which waits for
  its timer or has been started once, and a started batch does not change any more.\<close>

section \<open>Invariant\<close>

text \<open>The batches of \<open>J\<close> may be full or without a timer while a step is under way.\<close>

definition batch_ok :: "nat set \<Rightarrow> 'h prCoordinator \<Rightarrow> nat \<Rightarrow> bool" where
  "batch_ok J c i =
     (let b = qc_heap c ! i in
      pb_items b \<noteq> [] \<and> length (pb_items b) \<le> defaultBatchSize \<and> (\<forall>item \<in> set (pb_items b). batch_key item = pb_key b) \<and>
      (\<not> pb_closed b \<longrightarrow> qc_batches c (pb_key b) = Some i) \<and>
      (\<not> pb_closed b \<longrightarrow> i \<notin> J \<longrightarrow> length (pb_items b) < defaultBatchSize \<and> pb_timer b \<noteq> Over))"

definition started_ok :: "'h prCoordinator \<Rightarrow> bool" where
  "started_ok c = (distinct (qc_started c) \<and> set (qc_started c) = {i. i < length (qc_heap c) \<and> pb_closed (qc_heap c ! i)})"

definition table_ok :: "'h prCoordinator \<Rightarrow> bool" where
  "table_ok c = (\<forall>key i. qc_batches c key = Some i \<longrightarrow> i < length (qc_heap c) \<and> pb_key (qc_heap c ! i) = key \<and> \<not> pb_closed (qc_heap c ! i))"

definition coordinator_inv :: "nat set \<Rightarrow> 'h prCoordinator \<Rightarrow> bool" where
  "coordinator_inv J c = (started_ok c \<and> table_ok c \<and> (\<forall>i < length (qc_heap c). batch_ok J c i))"

lemmas coordinator_inv_defs = coordinator_inv_def started_ok_def table_ok_def batch_ok_def Let_def

lemma table_okD:
  "table_ok c \<Longrightarrow> qc_batches c key = Some i \<Longrightarrow> i < length (qc_heap c) \<and> pb_key (qc_heap c ! i) = key \<and> \<not> pb_closed (qc_heap c ! i)"
  unfolding table_ok_def by blast

lemma new_inv: "coordinator_inv {} newPRCoordinator"
  by (simp add: coordinator_inv_defs newPRCoordinator_def)

lemma update_batch_simps [simp]:
  "qc_batches (update_batch i f c) = qc_batches c"
  "qc_started (update_batch i f c) = qc_started c"
  "length (qc_heap (update_batch i f c)) = length (qc_heap c)"
  "i < length (qc_heap c) \<Longrightarrow> qc_heap (update_batch i f c) ! j = (if i = j then f (qc_heap c ! i) else qc_heap c ! j)"
  by (simp_all add: update_batch_def)

lemma start_batch_simps [simp]:
  "qc_batches (start_batch key i c) = (qc_batches c)(key := None)"
  "qc_started (start_batch key i c) = qc_started c @ [i]"
  "length (qc_heap (start_batch key i c)) = length (qc_heap c)"
  "i < length (qc_heap c) \<Longrightarrow>
     qc_heap (start_batch key i c) ! j = (if i = j then (qc_heap c ! i)\<lparr>pb_closed := True\<rparr> else qc_heap c ! j)"
  by (simp_all add: start_batch_def update_batch_def)

lemma start_keeps_inv:
  assumes "coordinator_inv {i} c" "qc_batches c key = Some i"
  shows "coordinator_inv {} (start_batch key i c)"
proof -
  have i: "i < length (qc_heap c)" "pb_key (qc_heap c ! i) = key" "\<not> pb_closed (qc_heap c ! i)"
    using assms by (auto simp: coordinator_inv_defs)
  have "started_ok (start_batch key i c)" using assms(1) i by (auto simp: coordinator_inv_def started_ok_def)
  moreover have "table_ok (start_batch key i c)"
    unfolding table_ok_def
  proof (intro allI impI)
    fix k j assume k: "qc_batches (start_batch key i c) k = Some j"
    then have "k \<noteq> key" "qc_batches c k = Some j" by (auto split: if_splits)
    moreover have "table_ok c" using assms(1) by (simp add: coordinator_inv_def)
    ultimately have "j < length (qc_heap c) \<and> pb_key (qc_heap c ! j) = k \<and> \<not> pb_closed (qc_heap c ! j)" "j \<noteq> i"
      using table_okD i(2) by blast+
    then show "j < length (qc_heap (start_batch key i c)) \<and> pb_key (qc_heap (start_batch key i c) ! j) = k \<and>
      \<not> pb_closed (qc_heap (start_batch key i c) ! j)" using i(1) by simp
  qed
  moreover have "batch_ok {} (start_batch key i c) j" if "j < length (qc_heap c)" for j
  proof -
    have "batch_ok {i} c j" using assms(1) that by (simp add: coordinator_inv_def)
    then show ?thesis using i assms(2) by (auto simp: batch_ok_def Let_def)
  qed
  ultimately show ?thesis by (simp add: coordinator_inv_def)
qed

text \<open>A change of a timer keeps the invariant, but for the batch itself when its timer is over.\<close>

lemma timer_inv:
  assumes "coordinator_inv J c" "i < length (qc_heap c)"
    and "\<And>b. pb_key (f b) = pb_key b \<and> pb_items (f b) = pb_items b \<and> pb_closed (f b) = pb_closed b"
    and "i \<in> K \<or> pb_closed (qc_heap c ! i) \<or> pb_timer (f (qc_heap c ! i)) \<noteq> Over" "J \<subseteq> K"
  shows "coordinator_inv K (update_batch i f c)"
proof -
  have "started_ok (update_batch i f c)" using assms by (auto simp: coordinator_inv_def started_ok_def)
  moreover have "table_ok (update_batch i f c)" using assms by (auto simp: coordinator_inv_def table_ok_def)
  moreover have "batch_ok K (update_batch i f c) j" if "j < length (qc_heap c)" for j
  proof -
    have "batch_ok J c j" using assms(1) that by (simp add: coordinator_inv_def)
    then show ?thesis using assms(2-5) by (auto simp: batch_ok_def Let_def)
  qed
  ultimately show ?thesis by (simp add: coordinator_inv_def)
qed

section \<open>Submission\<close>

definition append_item :: "'h pullBatchItem \<Rightarrow> 'h prCoordinator \<Rightarrow> 'h prCoordinator" where
  "append_item item c =
     (case open_batch (batch_key item) c of (i, c1) \<Rightarrow> update_batch i (\<lambda>b. b\<lparr>pb_items := pb_items b @ [item]\<rparr>) c1)"

lemma submit_append:
  "submit item c =
     (let i = fst (open_batch (batch_key item) c); c2 = append_item item c in
      if length (pb_items (qc_heap c2 ! i)) = defaultBatchSize
      then update_batch i stop_timer (start_batch (batch_key item) i c2) else c2)"
  by (simp add: submit_def append_item_def split: prod.splits)

lemma append_item_inv:
  assumes inv: "coordinator_inv {} c" and i: "i = fst (open_batch (batch_key item) c)"
  shows "coordinator_inv {i} (append_item item c)" "qc_batches (append_item item c) (batch_key item) = Some i"
    "pb_timer (qc_heap (append_item item c) ! i) \<noteq> Over" "length (pb_items (qc_heap (append_item item c) ! i)) \<le> defaultBatchSize"
proof -
  consider (new) "qc_batches c (batch_key item) = None" | (old) j where "qc_batches c (batch_key item) = Some j" by (cases "qc_batches c (batch_key item)") auto
  then have "coordinator_inv {i} (append_item item c) \<and> qc_batches (append_item item c) (batch_key item) = Some i \<and>
    pb_timer (qc_heap (append_item item c) ! i) \<noteq> Over \<and> length (pb_items (qc_heap (append_item item c) ! i)) \<le> defaultBatchSize"
  proof cases
    case new
    have c: "append_item item c =
        c\<lparr>qc_batches := (qc_batches c)(batch_key item \<mapsto> length (qc_heap c)),
          qc_heap := qc_heap c @ [\<lparr>pb_key = batch_key item, pb_items = [item], pb_timer = Armed, pb_closed = False\<rparr>]\<rparr>"
      and n: "i = length (qc_heap c)"
      using new i by (simp_all add: append_item_def open_batch_def update_batch_def)
    have "batch_ok {i} (append_item item c) j" if "j \<le> length (qc_heap c)" for j
    proof (cases "j < length (qc_heap c)")
      case True
      then have "batch_ok {} c j" using inv by (simp add: coordinator_inv_def)
      then show ?thesis using True new c n by (auto simp: batch_ok_def Let_def nth_append)
    next
      case False
      with that have "j = length (qc_heap c)" by simp
      then show ?thesis using c n by (simp add: batch_ok_def Let_def nth_append defaultBatchSize_def)
    qed
    moreover have "started_ok (append_item item c)"
      using inv c by (auto simp: coordinator_inv_def started_ok_def nth_append)
    moreover have "table_ok (append_item item c)"
      using table_okD [of c] inv c unfolding coordinator_inv_def table_ok_def by (auto simp: nth_append less_Suc_eq)
    ultimately show ?thesis using c n by (simp add: coordinator_inv_def nth_append defaultBatchSize_def less_Suc_eq_le)
  next
    case old
    have j: "i = j" "j < length (qc_heap c)" "pb_key (qc_heap c ! j) = batch_key item" "\<not> pb_closed (qc_heap c ! j)"
      using old i inv by (auto simp: open_batch_def coordinator_inv_defs)
    have c: "append_item item c = update_batch j (\<lambda>b. b\<lparr>pb_items := pb_items b @ [item]\<rparr>) c"
      using old by (simp add: append_item_def open_batch_def)
    have room: "length (pb_items (qc_heap c ! j)) < defaultBatchSize" "pb_timer (qc_heap c ! j) \<noteq> Over"
      using inv j by (auto simp: coordinator_inv_def batch_ok_def Let_def)
    have "batch_ok {i} (append_item item c) k" if "k < length (qc_heap c)" for k
    proof -
      have "batch_ok {} c k" using inv that by (simp add: coordinator_inv_def)
      then show ?thesis using j c room by (auto simp: batch_ok_def Let_def)
    qed
    moreover have "started_ok (append_item item c)" "table_ok (append_item item c)"
      using inv c j by (auto simp: coordinator_inv_def started_ok_def table_ok_def)
    ultimately show ?thesis using c j old room by (simp add: coordinator_inv_def)
  qed
  then show "coordinator_inv {i} (append_item item c)" "qc_batches (append_item item c) (batch_key item) = Some i"
    "pb_timer (qc_heap (append_item item c) ! i) \<noteq> Over" "length (pb_items (qc_heap (append_item item c) ! i)) \<le> defaultBatchSize"
    by simp_all
qed

lemma submit_inv:
  assumes inv: "coordinator_inv {} c" shows "coordinator_inv {} (submit item c)"
proof -
  define i where "i = fst (open_batch (batch_key item) c)"
  note a = append_item_inv [OF inv i_def]
  have i: "i < length (qc_heap (append_item item c))" using a(1,2) by (auto simp: coordinator_inv_defs)
  show ?thesis
  proof (cases "length (pb_items (qc_heap (append_item item c) ! i)) = defaultBatchSize")
    case True
    have "coordinator_inv {} (start_batch (batch_key item) i (append_item item c))" by (rule start_keeps_inv [OF a(1,2)])
    then have "coordinator_inv {} (update_batch i stop_timer (start_batch (batch_key item) i (append_item item c)))"
      by (rule timer_inv) (use i in \<open>simp_all add: stop_timer_def\<close>)
    then show ?thesis using True by (simp add: submit_append i_def Let_def)
  next
    case False
    have "batch_ok {} (append_item item c) j" if "j < length (qc_heap (append_item item c))" for j
    proof -
      have "batch_ok {i} (append_item item c) j" using a(1) that by (simp add: coordinator_inv_def)
      then show ?thesis using a(3,4) False by (auto simp: batch_ok_def Let_def)
    qed
    then have "coordinator_inv {} (append_item item c)" using a(1) by (simp add: coordinator_inv_def)
    then show ?thesis using False by (simp add: submit_append i_def Let_def)
  qed
qed

section \<open>Steps\<close>

inductive_simps coordinator_step_iff: "coordinator_step c new c'"

lemma flush_inv:
  assumes "coordinator_inv {} c" "i < length (qc_heap c)"
  shows "coordinator_inv {} (flush (pb_key (qc_heap c ! i)) i (update_batch i (\<lambda>b. b\<lparr>pb_timer := Over\<rparr>) c))"
proof (cases "pb_closed (qc_heap c ! i)")
  case True
  have "coordinator_inv {} (update_batch i (\<lambda>b. b\<lparr>pb_timer := Over\<rparr>) c)"
    by (rule timer_inv [OF assms]) (use True in simp_all)
  then show ?thesis using True assms by (simp add: flush_def)
next
  case False
  have "coordinator_inv {i} (update_batch i (\<lambda>b. b\<lparr>pb_timer := Over\<rparr>) c)"
    by (rule timer_inv [OF assms]) simp_all
  moreover have "qc_batches c (pb_key (qc_heap c ! i)) = Some i"
    using assms False by (auto simp: coordinator_inv_def batch_ok_def Let_def)
  ultimately show ?thesis using False assms(2) by (simp add: flush_def start_keeps_inv)
qed

lemma step_inv: "coordinator_step c new c' \<Longrightarrow> coordinator_inv {} c \<Longrightarrow> coordinator_inv {} c'"
proof (induction rule: coordinator_step.induct)
  case (submits c item)
  then show ?case by (rule submit_inv)
next
  case (fires i c)
  then show ?case by (intro timer_inv [of "{}" c]) auto
next
  case (flushes i c)
  then show ?case by (intro flush_inv)
qed

lemma reaches_inv: "coordinator_reaches c items c' \<Longrightarrow> coordinator_inv {} c \<Longrightarrow> coordinator_inv {} c'"
  by (induction rule: coordinator_reaches.induct) (auto intro: step_inv)

text \<open>The items of all batches.\<close>

definition batched_items :: "'h prCoordinator \<Rightarrow> 'h pullBatchItem multiset" where
  "batched_items c = mset (concat (map pb_items (qc_heap c)))"

lemma batched_update:
  assumes "i < length (qc_heap c)" "mset (pb_items (f (qc_heap c ! i))) = mset (pb_items (qc_heap c ! i)) + M"
  shows "batched_items (update_batch i f c) = batched_items c + M"
proof -
  have "mset (concat (map pb_items (xs[i := f (xs ! i)]))) = mset (concat (map pb_items xs)) + M"
    if "i < length xs" "mset (pb_items (f (xs ! i))) = mset (pb_items (xs ! i)) + M" for xs :: "'a pendingPullBatch list" and i
    using that by (induction xs arbitrary: i) (auto split: nat.splits simp: nth_Cons)
  with assms show ?thesis by (simp add: batched_items_def update_batch_def)
qed

lemma batched_start: "i < length (qc_heap c) \<Longrightarrow> batched_items (start_batch key i c) = batched_items c"
  using batched_update [of i c "\<lambda>b. b\<lparr>pb_closed := True\<rparr>" "{#}"]
  by (simp add: start_batch_def batched_items_def)

lemma batched_append:
  assumes inv: "coordinator_inv {} c" shows "batched_items (append_item item c) = batched_items c + {#item#}"
proof (cases "qc_batches c (batch_key item)")
  case None
  then show ?thesis by (simp add: append_item_def open_batch_def update_batch_def batched_items_def)
next
  case (Some j)
  then have "j < length (qc_heap c)" using inv by (auto simp: coordinator_inv_defs)
  then show ?thesis using Some by (simp add: append_item_def open_batch_def batched_update)
qed

lemma batched_submit:
  assumes inv: "coordinator_inv {} c" shows "batched_items (submit item c) = batched_items c + {#item#}"
proof -
  define i where "i = fst (open_batch (batch_key item) c)"
  note a = append_item_inv [OF inv i_def]
  have i: "i < length (qc_heap (append_item item c))" using a(1,2) by (auto simp: coordinator_inv_defs)
  then show ?thesis using batched_append [OF inv]
    by (simp add: submit_append i_def [symmetric] Let_def batched_start batched_update [where M = "{#}"] stop_timer_def)
qed

lemma step_batched: "coordinator_step c new c' \<Longrightarrow> coordinator_inv {} c \<Longrightarrow> batched_items c' = batched_items c + mset new"
proof (induction rule: coordinator_step.induct)
  case (submits c item)
  then show ?case by (simp add: batched_submit)
next
  case (fires i c)
  then show ?case by (simp add: batched_update [where M = "{#}"])
next
  case (flushes i c)
  then show ?case by (simp add: flush_def batched_start batched_update [where M = "{#}"])
qed

lemma reaches_batched:
  "coordinator_reaches c items c' \<Longrightarrow> coordinator_inv {} c \<Longrightarrow> batched_items c' = batched_items c + mset items"
  by (induction rule: coordinator_reaches.induct) (auto simp: step_batched reaches_inv)

section \<open>Started batches\<close>

lemma append_item_frozen:
  assumes "coordinator_inv {} c" "j \<in> set (qc_started c)"
  shows "j < length (qc_heap (append_item item c)) \<and> qc_heap (append_item item c) ! j = qc_heap c ! j"
  using assms by (cases "qc_batches c (batch_key item)")
    (auto simp: append_item_def open_batch_def coordinator_inv_def started_ok_def table_ok_def update_batch_def nth_append nth_list_update)

lemma step_frozen:
  assumes "coordinator_step c new c'" "coordinator_inv {} c" "j \<in> set (qc_started c)"
  shows "j \<in> set (qc_started c') \<and> pb_items (qc_heap c' ! j) = pb_items (qc_heap c ! j)"
  using assms
proof (induction rule: coordinator_step.induct)
  case (submits c item)
  define i where "i = fst (open_batch (batch_key item) c)"
  note a = append_item_inv [OF submits(1) i_def] and frozen = append_item_frozen [OF submits, of item]
  have i: "i < length (qc_heap (append_item item c))" using a(1,2) by (auto simp: coordinator_inv_defs)
  have "qc_started (append_item item c) = qc_started c"
    by (simp add: append_item_def open_batch_def split: option.splits prod.splits)
  then show ?case using i frozen submits(2) by (simp add: submit_append i_def [symmetric] Let_def stop_timer_def)
next
  case (fires i c)
  then show ?case by simp
next
  case (flushes i c)
  then show ?case by (simp add: flush_def)
qed

lemma flush_starts:
  assumes "i < length (qc_heap c)" "\<not> pb_closed (qc_heap c ! i)" "qc_batches c (pb_key (qc_heap c ! i)) = Some i"
    "pb_timer (qc_heap c ! i) = Fired"
  shows "\<exists>c'. coordinator_step c [] c' \<and> i \<in> set (qc_started c')"
proof -
  let ?c = "flush (pb_key (qc_heap c ! i)) i (update_batch i (\<lambda>b. b\<lparr>pb_timer := Over\<rparr>) c)"
  have "coordinator_step c [] ?c" by (rule coordinator_step.flushes [OF assms(1,4)])
  moreover have "i \<in> set (qc_started ?c)" using assms(1-3) by (simp add: flush_def)
  ultimately show ?thesis by blast
qed

lemma pending_starts:
  assumes inv: "coordinator_inv {} c" and i: "i < length (qc_heap c)" "i \<notin> set (qc_started c)"
  obtains c' where "coordinator_reaches c [] c'" "i \<in> set (qc_started c')"
proof -
  have b: "\<not> pb_closed (qc_heap c ! i)" "qc_batches c (pb_key (qc_heap c ! i)) = Some i" "pb_timer (qc_heap c ! i) \<noteq> Over"
    using inv i by (auto simp: coordinator_inv_defs)
  show thesis
  proof (cases "pb_timer (qc_heap c ! i) = Fired")
    case True
    then obtain c' where "coordinator_step c [] c'" "i \<in> set (qc_started c')" using flush_starts i b by blast
    then show thesis using that coordinator_reaches.steps [OF coordinator_reaches.stays] by fastforce
  next
    case False
    then have armed: "pb_timer (qc_heap c ! i) = Armed" using b(3) by (cases "pb_timer (qc_heap c ! i)") auto
    let ?d = "update_batch i (\<lambda>b. b\<lparr>pb_timer := Fired\<rparr>) c"
    have "\<exists>c'. coordinator_step ?d [] c' \<and> i \<in> set (qc_started c')" by (rule flush_starts) (use i b in simp_all)
    then obtain c' where c': "coordinator_step ?d [] c'" "i \<in> set (qc_started c')" by blast
    have "coordinator_reaches c ([] @ []) ?d"
      by (rule coordinator_reaches.steps [OF coordinator_reaches.stays]) (rule coordinator_step.fires [OF i(1) armed])
    then have "coordinator_reaches c (([] @ []) @ []) c'" by (rule coordinator_reaches.steps) (rule c'(1))
    then show thesis using that c'(2) by simp
  qed
qed

end
