(* ===== verification/Coordinator_Properties.thy ===== *)
theory Coordinator_Properties
  imports Coordinator_Steps Derive_Properties Entity_Properties
begin

text \<open>What the coordinator promises its callers: keys survive the way from the dispatcher to the handler, every
  submitted item runs in one batch, one quiet attempt is enough for the parent repository, and an item's
  result is its own.\<close>

section \<open>Keys\<close>

lemma cut_char_append: "sep \<notin> set xs \<Longrightarrow> cut_char sep (xs @ sep # ys) = Some (xs, ys)"
  by (simp add: cut_char_def takeWhile_append dropWhile_append)

lemma cut_char_Some: "cut_char sep s = Some (xs, ys) \<Longrightarrow> s = xs @ sep # ys"
proof -
  assume "cut_char sep s = Some (xs, ys)"
  then have "sep \<in> set s" "xs = takeWhile (\<lambda>c. c \<noteq> sep) s" "ys = tl (dropWhile (\<lambda>c. c \<noteq> sep) s)"
    by (auto simp: cut_char_def split: if_splits)
  moreover from this(1) obtain us vs where "s = us @ sep # vs" "sep \<notin> set us" by (meson split_list_first)
  ultimately show ?thesis by (simp add: takeWhile_append dropWhile_append)
qed

definition numbered_kind :: "string \<Rightarrow> bool" where
  "numbered_kind kind = (kind = ''pr'' \<or> kind = ''stack'')"

lemma parse_request_key:
  assumes "CHR '':'' \<notin> set repo" "CHR ''/'' \<in> set repo" "value \<noteq> []"
    and "numbered_kind kind \<Longrightarrow> parse_int64 value = Some n \<and> 0 < n"
  shows "parseEntityKey (kind @ '':'' @ repo @ '':'' @ value) kind =
    Inr \<lparr>ek_kind = kind, ek_repo = repo, ek_value = value, ek_number = (if numbered_kind kind then n else 0)\<rparr>"
proof -
  have "strip_prefix (kind @ '':'') (kind @ '':'' @ repo @ '':'' @ value) = Some (repo @ CHR '':'' # value)"
    by (simp add: strip_prefix_Some)
  moreover have "repo \<noteq> []" using assms(2) by auto
  ultimately show ?thesis using assms
    by (auto simp: parseEntityKey_def cut_char_append Let_def numbered_kind_def)
qed

lemma parsed_key_prints:
  assumes "parseEntityKey raw kind = Inr k"
  shows "requestKey k = raw \<and> CHR ''/'' \<in> set (ek_repo k) \<and> ek_value k \<noteq> []"
proof -
  obtain remainder repo "value" where r: "raw = (kind @ '':'') @ remainder" "cut_char CHR '':'' remainder = Some (repo, value)"
    and k: "ek_kind k = kind" "ek_repo k = repo" "ek_value k = value" "CHR ''/'' \<in> set repo" "value \<noteq> []"
    using assms by (auto simp: parseEntityKey_def strip_prefix_Some Let_def split: option.splits if_splits)
  from cut_char_Some [OF r(2)] r(1) k show ?thesis by (simp add: requestKey_def)
qed

text \<open>The kind of key that the handler of a target asks for.\<close>

fun target_kind :: "Target \<Rightarrow> string" where
  "target_kind TargetStack = ''stack''"
| "target_kind TargetChecks = ''checks''"
| "target_kind TargetBranch = ''branch''"
| "target_kind TargetCodeowners = ''branch''"
| "target_kind _ = ''pr''"

definition payload_numbers_fit :: "payloadEnvelope \<Rightarrow> bool" where
  "payload_numbers_fit p = (pl_issueNumber p < 2 ^ 63 \<and> pl_number p < 2 ^ 63 \<and> pl_prNumber p < 2 ^ 63 \<and>
     (case payloadStack p of None \<Rightarrow> True | Some n \<Rightarrow> n < 2 ^ 63))"

lemma numbered_intent_key:
  assumes "intentKey target event p = Inr (Some raw)" "payload_numbers_fit p" "numbered_kind (target_kind target)"
  shows "\<exists>n. raw = target_kind target @ '':'' @ pl_repo p @ '':'' @ itoa n \<and> 0 < n \<and> n < 2 ^ 63"
proof -
  define key where "key = (if target = TargetStack then stack_key else pr_key)"
  have "\<exists>n. raw = key (pl_repo p) n \<and> 0 < n \<and> n < 2 ^ 63"
    using assms by (cases target) (auto simp: key_def numbered_kind_def payload_numbers_fit_def Let_def not_le split: if_splits option.splits)
  moreover have "key (pl_repo p) n = target_kind target @ '':'' @ pl_repo p @ '':'' @ itoa n" for n
    using assms(3) by (cases target) (simp_all add: key_def pr_key_def stack_key_def numbered_kind_def)
  ultimately show ?thesis by simp
qed

lemma named_intent_key:
  assumes "intentKey target event p = Inr (Some raw)" "\<not> numbered_kind (target_kind target)"
  shows "\<exists>v. raw = target_kind target @ '':'' @ pl_repo p @ '':'' @ v \<and> v \<noteq> []"
  using assms
  by (cases target)
    (auto simp: checks_key_def branch_key_def numbered_kind_def Let_def split: if_splits option.splits)

lemma itoa_parses: "0 < n \<Longrightarrow> n < 2 ^ 63 \<Longrightarrow> itoa n \<noteq> [] \<and> parse_int64 (itoa n) = Some n"
  using parse_itoa [of n] nat_digits_Cons [of "nat n"] by (auto simp: itoa_pos)

lemma intent_key_shape:
  assumes "intentKey target event p = Inr (Some raw)" "payload_numbers_fit p"
  obtains v n where "raw = target_kind target @ '':'' @ pl_repo p @ '':'' @ v" "v \<noteq> []"
    "numbered_kind (target_kind target) \<Longrightarrow> parse_int64 v = Some n \<and> 0 < n"
proof (cases "numbered_kind (target_kind target)")
  case True
  from numbered_intent_key [OF assms True] obtain n where
    n: "raw = target_kind target @ '':'' @ pl_repo p @ '':'' @ itoa n" "0 < n" "n < 2 ^ 63" by (elim exE conjE)
  show thesis by (rule that [OF n(1)]) (use itoa_parses [OF n(2,3)] n(2) in simp_all)
next
  case False
  from named_intent_key [OF assms(1) False] obtain v where
    v: "raw = target_kind target @ '':'' @ pl_repo p @ '':'' @ v" "v \<noteq> []" by (elim exE conjE)
  show thesis by (rule that [OF v]) (use False in simp)
qed

text \<open>C38: A key that the dispatcher writes for a delivery is parsed back by the handler of its target: the
  repository is the delivery's, the number of a pull request or stack is positive, and printing the parsed
  key gives the dispatched one.\<close>

theorem dispatched_key_parses:
  assumes "intentKey target event p = Inr (Some raw)" "payload_numbers_fit p"
    and "CHR ''/'' \<in> set (pl_repo p)" "CHR '':'' \<notin> set (pl_repo p)"
  shows "\<exists>k. parseEntityKey raw (target_kind target) = Inr k \<and> ek_repo k = pl_repo p \<and> requestKey k = raw \<and>
    (numbered_kind (target_kind target) \<longrightarrow> 0 < ek_number k \<and> parse_int64 (ek_value k) = Some (ek_number k))"
proof -
  obtain v n where v: "raw = target_kind target @ '':'' @ pl_repo p @ '':'' @ v" "v \<noteq> []"
    "numbered_kind (target_kind target) \<Longrightarrow> parse_int64 v = Some n \<and> 0 < n"
    by (rule intent_key_shape [OF assms(1,2)]) (rule that)
  have k: "parseEntityKey raw (target_kind target) =
      Inr \<lparr>ek_kind = target_kind target, ek_repo = pl_repo p, ek_value = v,
           ek_number = (if numbered_kind (target_kind target) then n else 0)\<rparr>"
    unfolding v(1) by (rule parse_request_key [OF assms(4,3) v(2)]) (rule v(3))
  then show ?thesis using parsed_key_prints [OF k] v(3) by simp
qed

definition demo_review_payload :: payloadEnvelope where
  "demo_review_payload = \<lparr>pl_action = ''submitted'', pl_number = 0, pl_ref = [], pl_before = [], pl_after = [], pl_created = False,
     pl_deleted = False, pl_forced = False, pl_repo = ''o/r'', pl_defaultBranch = ''main'', pl_commits = [], pl_headCommit = None,
     pl_prNumber = 12, pl_prStack = None, pl_issueNumber = 0, pl_issuePullRequest = False, pl_stackNumber = None,
     pl_checkRunSHA = [], pl_checkSuiteSHA = []\<rparr>"

lemma dispatched_key_parses_witness:
  "intentKey TargetPullRequest ''pull_request_review'' demo_review_payload = Inr (Some ''pr:o/r:12'') \<and>
   (\<exists>k. parseEntityKey ''pr:o/r:12'' ''pr'' = Inr k \<and> ek_repo k = ''o/r'' \<and> 0 < ek_number k)"
proof -
  have key: "intentKey TargetPullRequest ''pull_request_review'' demo_review_payload = Inr (Some ''pr:o/r:12'')" by code_simp
  have fits: "payload_numbers_fit demo_review_payload"
    by (simp add: payload_numbers_fit_def demo_review_payload_def payloadStack_def)
  have repo: "pl_repo demo_review_payload = ''o/r''" by (simp add: demo_review_payload_def)
  have "\<exists>k. parseEntityKey ''pr:o/r:12'' (target_kind TargetPullRequest) = Inr k \<and> ek_repo k = pl_repo demo_review_payload \<and>
      requestKey k = ''pr:o/r:12'' \<and> (numbered_kind (target_kind TargetPullRequest) \<longrightarrow>
        0 < ek_number k \<and> parse_int64 (ek_value k) = Some (ek_number k))"
    by (rule dispatched_key_parses [OF key fits]) (simp_all add: repo)
  then show ?thesis using key by (auto simp: repo numbered_kind_def)
qed

section \<open>Batching\<close>

definition demo_metadata :: FetchMetadata where
  "demo_metadata = \<lparr>fm_nodeID = ''PR_1'', fm_etag = [], fm_title = ''Title'', fm_state = ''open'', fm_draft = False, fm_authorLogin = ''ann'',
     fm_headRef = ''topic'', fm_baseRef = ''main'', fm_reviewDecision = [], fm_mergeableState = ''MERGEABLE'', fm_stackNumber = None,
     fm_stackPosition = None, fm_updatedAt = 5, fm_baseSHA = [], fm_headSHA = ''h1'', fm_repoGitHubID = 9, fm_installationID = 5,
     fm_repoFullName = ''o/r'', fm_codeowners = None, fm_forceCodeowners = False\<rparr>"

definition demo_batch_item :: "nat \<Rightarrow> int \<Rightarrow> unit pullBatchItem" where
  "demo_batch_item ptr number =
     \<lparr>qi_pointer = ptr, qi_ctx = demo_ctx, qi_skips = False,
      qi_key = \<lparr>ek_kind = ''pr'', ek_repo = ''o/r'', ek_value = itoa number, ek_number = number\<rparr>, qi_nodeID = ''PR_1'',
      qi_metadata = demo_metadata, qi_source = ''webhook'', qi_class = Event, qi_startedAt = 7, qi_hook = (\<lambda>_. ()),
      qi_repositoryGeneration = 0, qi_repositoryObservation = Some \<lparr>ob_key = ''repo:5:9'', ob_version = 3\<rparr>\<rparr>"

text \<open>C29: Whatever the interleaving of submissions, timers that fire and flushes: every submitted item is in
  exactly one batch; a batch has at least one and at most 25 items, all of its class and source; no batch is
  started twice; and a batch that has not been started is the one open for its key and still has a timer to
  start it.\<close>

theorem items_are_batched_once:
  assumes "coordinator_reaches newPRCoordinator items c"
  shows "mset (concat (map pb_items (qc_heap c))) = mset items \<and> distinct (qc_started c) \<and>
    set (qc_started c) \<subseteq> {..< length (qc_heap c)} \<and>
    (\<forall>i < length (qc_heap c).
       0 < length (pb_items (qc_heap c ! i)) \<and> length (pb_items (qc_heap c ! i)) \<le> defaultBatchSize \<and>
       (\<forall>item \<in> set (pb_items (qc_heap c ! i)). batch_key item = pb_key (qc_heap c ! i)) \<and>
       (i \<notin> set (qc_started c) \<longrightarrow> qc_batches c (pb_key (qc_heap c ! i)) = Some i \<and> pb_timer (qc_heap c ! i) \<noteq> Over))"
proof -
  have inv: "coordinator_inv {} c" by (rule reaches_inv [OF assms(1) new_inv])
  have "batched_items c = mset items" using reaches_batched [OF assms new_inv] by (simp add: batched_items_def newPRCoordinator_def)
  then show ?thesis using inv by (auto simp: coordinator_inv_defs batched_items_def)
qed

lemma items_are_batched_once_witness:
  "\<exists>c. coordinator_reaches newPRCoordinator [demo_batch_item 2 12, demo_batch_item 3 13] c \<and> qc_started c = [0] \<and>
     mset (concat (map pb_items (qc_heap c))) = {#demo_batch_item 2 12, demo_batch_item 3 13#}"
proof -
  let ?a = "demo_batch_item 2 12" and ?b = "demo_batch_item 3 13" and ?n = newPRCoordinator
  let ?c = "submit ?b (submit ?a ?n)"
  let ?f = "update_batch 0 (\<lambda>b. b\<lparr>pb_timer := Fired\<rparr>) ?c"
  let ?d = "flush (pb_key (qc_heap ?f ! 0)) 0 (update_batch 0 (\<lambda>b. b\<lparr>pb_timer := Over\<rparr>) ?f)"
  have keys: "batch_key ?a = PullBatchKey Event ''webhook''" "batch_key ?b = PullBatchKey Event ''webhook''"
    by (simp_all add: batch_key_def demo_batch_item_def)
  have c: "?c = \<lparr>qc_batches = [PullBatchKey Event ''webhook'' \<mapsto> 0],
      qc_heap = [\<lparr>pb_key = PullBatchKey Event ''webhook'', pb_items = [?a, ?b], pb_timer = Armed, pb_closed = False\<rparr>], qc_started = []\<rparr>"
    by (simp add: submit_def open_batch_def newPRCoordinator_def update_batch_def keys defaultBatchSize_def Let_def)
  have "coordinator_reaches ?n ((([] @ [?a]) @ [?b]) @ []) ?f"
    by (rule coordinator_reaches.steps, rule coordinator_reaches.steps, rule coordinator_reaches.steps, rule coordinator_reaches.stays)
      (rule coordinator_step.intros | simp add: c)+
  then have r: "coordinator_reaches ?n (((([] @ [?a]) @ [?b]) @ []) @ []) ?d"
    by (rule coordinator_reaches.steps) (rule coordinator_step.flushes; simp add: c)
  have "qc_started ?d = [0]" by (simp add: c flush_def)
  with r items_are_batched_once [OF r] show ?thesis by (intro exI [of _ ?d]) simp
qed

text \<open>A batch that waits is started by its timer, and a started batch keeps its items.\<close>

theorem waiting_batch_is_started:
  assumes "coordinator_reaches newPRCoordinator items c" "i < length (qc_heap c)"
  shows "(\<exists>c'. coordinator_reaches c [] c' \<and> i \<in> set (qc_started c')) \<and>
    (\<forall>c' new. coordinator_step c new c' \<longrightarrow> i \<in> set (qc_started c) \<longrightarrow> pb_items (qc_heap c' ! i) = pb_items (qc_heap c ! i))"
proof -
  have inv: "coordinator_inv {} c" by (rule reaches_inv [OF assms(1) new_inv])
  have "\<exists>c'. coordinator_reaches c [] c' \<and> i \<in> set (qc_started c')"
  proof (cases "i \<in> set (qc_started c)")
    case True
    then show ?thesis using coordinator_reaches.stays by blast
  next
    case False
    from pending_starts [OF inv assms(2) False] show ?thesis by blast
  qed
  then show ?thesis using step_frozen [OF _ inv] by blast
qed

section \<open>The parent repository\<close>

lemma repository_tx_error:
  assumes "applyRepositoryTx (\<lambda>_. None) r source etag at c = Inl e" shows "\<not> errors_is e ErrObservationSuperseded"
  using assms
  by (auto simp: applyRepositoryTx_def validateRepository_def markAndEmit_def Let_def map_sum_def split: option.splits if_splits prod.splits)

lemma refresh_fence_error:
  assumes "checkRefreshGenerationFence f s = Some e" shows "\<not> errors_is e ErrObservationSuperseded"
  using assms by (auto simp: checkRefreshGenerationFence_def split: option.splits if_splits)

lemma branch_fence_error:
  assumes "checkBranchReconciliationFence key f s = Some e" shows "\<not> errors_is e ErrObservationSuperseded"
  using assms by (auto simp: checkBranchReconciliationFence_def split: option.splits if_splits)

lemma fence_errors_not_superseded: "fence_errors cx key s = Some e \<Longrightarrow> \<not> errors_is e ErrObservationSuperseded"
  unfolding fence_errors_def
  by (cases "cx_refresh cx"; cases "cx_branch cx")
    (auto split: option.splits dest: refresh_fence_error branch_fence_error simp del: errors_is.simps)

lemma fresh_apply_not_superseded:
  assumes "BeginObservation key s = Inr ob" "entity_version key t = entity_version key s"
    and "cx_hook cx = (\<lambda>_. None)" "ApplyRepositoryObserved cx (Some ob) r source etag t = (s', Inl e, writes)"
  shows "\<not> errors_is e ErrObservationSuperseded"
proof -
  have ob: "ob_key ob = key" "ob_version ob = entity_version key s"
    using assms(1) by (auto simp: BeginObservation_def split: if_splits)
  let ?key = "RepositoryKey (rd_installation r) (rd_ghID r)"
  have fresh: "verifyObservationVersion ob t = None" using ob assms(2) by (simp add: verifyObservationVersion_def)
  show ?thesis
  proof (cases "requireObservation (Some ob) ?key")
    case None
    let ?fn = "\<lambda>at c. Sum_Type.map_sum id (\<lambda>(c', row, applied). (c', applied)) (applyRepositoryTx (cx_hook cx) r source etag at c)"
    obtain x where e: "e = ErrWrap ''apply repository'' [x]" and tx: "snd (withEntityTx cx (Some ob) ?key ?fn t) = Inl x"
      using assms(4) None by (auto simp: ApplyRepositoryObserved_def applyRepository_def split: prod.splits sum.splits)
    have "(\<exists>at c. applyRepositoryTx (\<lambda>_. None) r source etag at c = Inl x) \<or> fence_errors cx ?key t = Some x"
      using tx fresh None assms(3) unfolding withEntityTx_def beginEntityTx_def
      by (cases "applyRepositoryTx (cx_hook cx) r source etag (cx_clock cx) (es_cache t)") (auto split: option.splits)
    then have "\<not> errors_is x ErrObservationSuperseded" using repository_tx_error fence_errors_not_superseded by blast
    then show ?thesis by (simp add: e)
  next
    case (Some x)
    then have "e = x" using assms(4) by (simp add: ApplyRepositoryObserved_def)
    then show ?thesis using Some by (auto simp: requireObservation_def split: if_splits)
  qed
qed

definition quiet_attempt :: "string \<Rightarrow> repository_attempt \<Rightarrow> bool" where
  "quiet_attempt key a = (\<forall>s. entity_version key (at_between a s) = entity_version key s)"

definition reads_fail_cleanly :: "(nat \<Rightarrow> repository_attempt) \<Rightarrow> bool" where
  "reads_fail_cleanly env = (\<forall>j e. at_readError (env j) = Some e \<longrightarrow> \<not> errors_is e ErrObservationSuperseded)"

lemma begin_observation_error: "BeginObservation key s = Inl e \<Longrightarrow> \<not> errors_is e ErrObservationSuperseded"
  by (auto simp: BeginObservation_def split: if_splits)

lemma attempts_settle:
  assumes "attempt < k" "k \<le> attempt + left" "quiet_attempt (item_repository_key item) (env k)" "reads_fail_cleanly env"
    and "cx_hook (qi_ctx item) = (\<lambda>_. None)" "apply_attempts item r ob attempt env left s = (s', Some e)"
  shows "\<not> errors_is e ErrObservationSuperseded"
  using assms
proof (induction left arbitrary: attempt ob s)
  case 0
  then show ?case by simp
next
  case (Suc n)
  obtain s1 res writes where a: "ApplyRepositoryObserved (repository_ctx item (at_clock (env attempt))) ob r (qi_source item) []
      (at_between (env attempt) s) = (s1, res, writes)" by (metis prod_cases3)
  let ?s2 = "at_before (env (attempt + 1)) s1" and ?key = "item_repository_key item"
  consider (clean) "\<not> errors_is e ErrObservationSuperseded"
    | (again) ob' where "at_readError (env (attempt + 1)) = None" "BeginObservation ?key ?s2 = Inr ob'"
        "apply_attempts item r (Some ob') (attempt + 1) env n ?s2 = (s', Some e)"
    using Suc.prems(4,6) a begin_observation_error [of ?key ?s2]
    by (auto simp: apply_attempts.simps [of item r ob attempt] reads_fail_cleanly_def Let_def
        split: sum.splits if_splits option.splits simp del: errors_is.simps)
  then show ?case
  proof cases
    case again
    show ?thesis
    proof (cases "attempt + 1 = k")
      case True
      obtain s3 res3 writes3 where b: "ApplyRepositoryObserved (repository_ctx item (at_clock (env k))) (Some ob') r (qi_source item) []
        (at_between (env k) ?s2) = (s3, res3, writes3)" by (metis prod_cases3)
      have hook: "cx_hook (repository_ctx item t) = (\<lambda>_. None)" for t using Suc.prems(5) by (simp add: repository_ctx_def)
      have quiet: "entity_version ?key (at_between (env k) ?s2) = entity_version ?key ?s2"
        using Suc.prems(3) by (simp add: quiet_attempt_def)
      have "\<not> errors_is x ErrObservationSuperseded" if "res3 = Inl x" for x
        by (rule fresh_apply_not_superseded [OF again(2) quiet hook]) (use b that in simp)
      then show ?thesis using again(3) b True
        by (auto simp: apply_attempts.simps [of item r "Some ob'"] split: sum.splits if_splits simp del: errors_is.simps)
    next
      case False
      show ?thesis by (rule Suc.IH [OF _ _ Suc.prems(3-5) again(3)]) (use False Suc.prems(1,2) in simp_all)
    qed
  qed
qed

text \<open>C30: A conflict on the parent repository escapes the coordinator only under sustained churn: if during one
  of the retries no other writer commits that repository between the retry's fresh observation and its
  transaction, what the apply returns is not \<open>ErrObservationSuperseded\<close>, whatever happened in the attempts
  before.\<close>

theorem quiet_retry_settles_repository:
  assumes "0 < k" "k < incidentalRepositoryApplyAttempts" "quiet_attempt (item_repository_key item) (env k)"
    and "reads_fail_cleanly env" "cx_hook (qi_ctx item) = (\<lambda>_. None)"
  shows "\<forall>s' e. applyIncidentalRepository item r env s = (s', Some e) \<longrightarrow> \<not> errors_is e ErrObservationSuperseded"
  unfolding applyIncidentalRepository_def
  using attempts_settle [OF assms(1) _ assms(3-5), of "incidentalRepositoryApplyAttempts - 1"] assms(2) by simp

definition demo_churn :: "nat \<Rightarrow> repository_attempt" where
  "demo_churn attempt = \<lparr>at_readError = None, at_before = (\<lambda>s. s),
     at_between = (if attempt = 0 then (\<lambda>s. s\<lparr>es_versions := [(''repo:5:9'', 4)]\<rparr>) else (\<lambda>s. s)), at_clock = 90\<rparr>"

definition demo_database :: database where
  "demo_database = \<lparr>es_versions = [(''repo:5:9'', 3)], es_gens = [], es_branches = [], es_cache = demo_repository_cache\<rparr>"

lemma quiet_retry_settles_repository_witness:
  "snd (ApplyRepositoryObserved (repository_ctx (demo_batch_item 1 12) 90) (qi_repositoryObservation (demo_batch_item 1 12)) demo_repository
     ''webhook'' [] (at_between (demo_churn 0) demo_database)) = (Inl (ErrWrap ''apply repository'' [ErrObservationSuperseded]), []) \<and>
   snd (applyIncidentalRepository (demo_batch_item 1 12) demo_repository demo_churn demo_database) = None \<and>
   \<not> (\<exists>s s' e. applyIncidentalRepository (demo_batch_item 1 12) demo_repository demo_churn s = (s', Some e) \<and>
      errors_is e ErrObservationSuperseded)"
proof (intro conjI)
  show "snd (ApplyRepositoryObserved (repository_ctx (demo_batch_item 1 12) 90) (qi_repositoryObservation (demo_batch_item 1 12)) demo_repository
     ''webhook'' [] (at_between (demo_churn 0) demo_database)) = (Inl (ErrWrap ''apply repository'' [ErrObservationSuperseded]), [])"
    by code_simp
  show "snd (applyIncidentalRepository (demo_batch_item 1 12) demo_repository demo_churn demo_database) = None" by code_simp
next
  have "\<forall>s' e. applyIncidentalRepository (demo_batch_item 1 12) demo_repository demo_churn s = (s', Some e) \<longrightarrow> \<not> errors_is e ErrObservationSuperseded" for s
    by (rule quiet_retry_settles_repository [of 1])
      (simp_all add: incidentalRepositoryApplyAttempts_def quiet_attempt_def demo_churn_def reads_fail_cleanly_def demo_batch_item_def demo_ctx_def)
  then show "\<not> (\<exists>s s' e. applyIncidentalRepository (demo_batch_item 1 12) demo_repository demo_churn s = (s', Some e) \<and>
      errors_is e ErrObservationSuperseded)" by blast
qed

section \<open>Nodes\<close>

lemma and_then_Some: "and_then r f = Some x \<Longrightarrow> (\<exists>e c. r = Some (Inl e, c) \<and> x = (Inl e, c)) \<or> (\<exists>y c. r = Some (Inr y, c) \<and> f y c = Some x)"
  by (auto simp: and_then_def split: option.splits sum.splits)

lemma complete_nodes_length: "complete_nodes nodes calls = Some (Inr out, rest) \<Longrightarrow> length out = length nodes"
proof (induction nodes calls arbitrary: out rest rule: complete_nodes.induct)
  case (2 nodes calls)
  from and_then_Some [OF 2(2) [simplified]] 2(1) show ?case by auto
next
  case (3 node nodes calls)
  from and_then_Some [OF 3(2) [simplified]] obtain y c where
    y: "and_then (complete_nodes nodes c) (\<lambda>nodes calls. Some (Inr (Some y # nodes), calls)) = Some (Inr out, rest)" by auto
  from and_then_Some [OF y] 3(1) show ?case by auto
qed auto

lemma batch_length: "BatchPullRequests ids calls = Some (Inr nodes, rest) \<Longrightarrow> length nodes = length ids"
  by (auto simp: BatchPullRequests_def dest: complete_nodes_length split: if_splits list.splits sum.splits)

lemma isolate_length: "isolate_nodes e ids calls = Some (answers, rest) \<Longrightarrow> length answers = length ids"
  by (induction e ids calls arbitrary: answers rest rule: isolate_nodes.induct)
    (auto simp: Let_def split: option.splits prod.splits)

lemma fetch_length: "fetchPullRequestNodes ids calls = Some (answers, rest) \<Longrightarrow> length answers = length ids"
  by (auto simp: fetchPullRequestNodes_def dest: batch_length isolate_length split: option.splits prod.splits sum.splits if_splits)

section \<open>The retry of the handler\<close>

text \<open>A handler reports a superseded observation only when all three attempts met one.\<close>

theorem retry_gives_up_after_three:
  assumes "retrySupersededObservation run = Some e" "errors_is e ErrObservationSuperseded"
    and "\<And>j c. snd (run j) = Some c \<Longrightarrow> \<not> errors_is c ErrObservationSuperseded"
  shows "j < observationRetryLimit \<Longrightarrow> \<exists>x. fst (run j) = Some x \<and> errors_is x ErrObservationSuperseded"
proof -
  have step: "(\<exists>x. fst (run n) = Some x \<and> errors_is x ErrObservationSuperseded) \<and>
      (\<forall>m. left = Suc m \<longrightarrow> retry_attempts (n + 1) run m = Some e)" if "retry_attempts n run left = Some e" for n left
    using that assms(2) assms(3) [of n] by (cases "run n") (auto simp: retry_attempts.simps [of n] split: option.splits if_splits nat.splits simp del: errors_is.simps)
  have all: "\<exists>x. fst (run (n + k)) = Some x \<and> errors_is x ErrObservationSuperseded"
    if "retry_attempts n run left = Some e" "k \<le> left" for n left k
    using that
  proof (induction left arbitrary: n k)
    case (Suc left)
    then show ?case using step [OF Suc.prems(1)] Suc.IH [of "n + 1" "k - 1"] by (cases k) auto
  qed (use step in auto)
  show "j < observationRetryLimit \<Longrightarrow> \<exists>x. fst (run j) = Some x \<and> errors_is x ErrObservationSuperseded"
    using all [of 0 "observationRetryLimit - 1" j] assms(1) by (simp add: retrySupersededObservation_def observationRetryLimit_def)
qed

end
