(* ===== verification/Batch_Results.thy ===== *)
theory Batch_Results
  imports Coordinator_Properties
begin

text \<open>The results of a batch: as long as GitHub's answer names no pull request twice, the result of an item comes
  from its own reads, its own node, its own hydration, its own repository or its own write.\<close>

section \<open>Lookups\<close>

lemma map_filter_lookup: "map_of (List.map_filter f xs) k = Some v \<Longrightarrow> \<exists>x \<in> set xs. f x = Some (k, v)"
  by (drule map_of_SomeD) (auto simp: map_filter_def)

lemma map_filter_present:
  assumes "x \<in> set xs" "f x = Some (k, v)" shows "map_of (List.map_filter f xs) k \<noteq> None"
proof -
  have "(k, v) \<in> set (List.map_filter f xs)" using assms by (force simp: map_filter_def)
  then show ?thesis by (metis fst_conv image_eqI map_of_eq_None_iff)
qed

lemma set_map_filter: "y \<in> set (List.map_filter f xs) \<longleftrightarrow> (\<exists>x \<in> set xs. f x = Some y)"
  by (auto simp: map_filter_def) force

lemma applyItems_snoc: "applyItems (ps @ [p]) = (applyItems ps)(record_key (pq_record p) \<mapsto> qi_pointer (pq_item p))"
  by (simp add: applyItems_def)

lemma applyItems_from: "applyItems ps key = Some i \<Longrightarrow> \<exists>p \<in> set ps. record_key (pq_record p) = key \<and> qi_pointer (pq_item p) = i"
proof (induction ps rule: rev_induct)
  case Nil
  then show ?case by (simp add: applyItems_def)
next
  case (snoc p ps)
  then show ?case by (cases "key = record_key (pq_record p)") (auto simp: applyItems_snoc)
qed

lemma applyItems_present: "p \<in> set ps \<Longrightarrow> applyItems ps (record_key (pq_record p)) \<noteq> None"
  by (induction ps rule: rev_induct) (auto simp: applyItems_snoc)

lemma apply_all_from:
  "apply_all write_pull others n applies outcomes s = (s', outcomes') \<Longrightarrow> outcomes' key = Some r \<Longrightarrow>
     outcomes key = Some r \<or> (\<exists>a \<in> set applies. record_key (ap_record a) = key \<and>
       (\<exists>s0. r = snd (write_pull (ap_context a) (ap_observation a) (ap_record a) (ap_hook a) s0)))"
proof (induction applies arbitrary: n outcomes s)
  case (Cons a applies)
  let ?w = "write_pull (ap_context a) (ap_observation a) (ap_record a) (ap_hook a) (others n s)"
  have "apply_all write_pull others (n + 1) applies (outcomes(record_key (ap_record a) \<mapsto> snd ?w)) (fst ?w) = (s', outcomes')"
    using Cons.prems(1) by (simp add: case_prod_beta)
  from Cons.IH [OF this Cons.prems(2)] show ?case by (cases "key = record_key (ap_record a)") auto
qed simp

lemma apply_all_present:
  "apply_all write_pull others n applies outcomes s = (s', outcomes') \<Longrightarrow>
     outcomes key \<noteq> None \<or> (\<exists>a \<in> set applies. record_key (ap_record a) = key) \<Longrightarrow> outcomes' key \<noteq> None"
proof (induction applies arbitrary: n outcomes s)
  case (Cons a applies)
  let ?w = "write_pull (ap_context a) (ap_observation a) (ap_record a) (ap_hook a) (others n s)"
  have "apply_all write_pull others (n + 1) applies (outcomes(record_key (ap_record a) \<mapsto> snd ?w)) (fst ?w) = (s', outcomes')"
    using Cons.prems(1) by (simp add: case_prod_beta)
  from Cons.IH [OF this] Cons.prems(2) show ?case by (cases "key = record_key (ap_record a)") auto
qed simp

section \<open>The stages\<close>

lemma observe_item_keeps:
  assumes "observe_item env item = Inr a"
  shows "qi_pointer (fst a) = qi_pointer item \<and> qi_ctx (fst a) = qi_ctx item \<and> qi_skips (fst a) = qi_skips item \<and>
    qi_hook (fst a) = qi_hook item"
  using assms by (auto simp: observe_item_def Let_def split: sum.splits)

definition node_key :: "int \<Rightarrow> PullRequestNode \<Rightarrow> string" where
  "node_key installationID node = PullRequestKey installationID (rx_databaseID (pn_repository node)) (pn_number node)"

lemma fence_keeps:
  "pd_repository (applyPullFence record fence) = pd_repository record" "pd_number (applyPullFence record fence) = pd_number record"
  by (simp_all add: applyPullFence_def Let_def split: option.splits)

lemma prepare_item_keeps:
  assumes "prepare_item digest env inst org a answer = Some (Inr p)"
  obtains node where "answer = Inr (Some node)" "record_key (pq_record p) = node_key inst node"
    "qi_pointer (pq_item p) = qi_pointer (fst a)" "qi_ctx (pq_item p) = qi_ctx (fst a)"
    "qi_skips (pq_item p) = qi_skips (fst a)" "qi_hook (pq_item p) = qi_hook (fst a)" "pq_observation p = snd a"
proof -
  obtain node where n: "answer = Inr (Some node)" using assms by (auto simp: prepare_item_def split: sum.splits option.splits)
  show thesis
    by (rule that [OF n]) (use assms n in \<open>auto simp: prepare_item_def Let_def record_key_def node_key_def fence_keeps
      pullRecordFromNode_def repositoryRecordFromNode_def split: option.splits sum.splits prod.splits\<close>)
qed

lemma prepare_all_from:
  "prepare_all digest env inst org zs = Some rs \<Longrightarrow>
     list_all2 (\<lambda>z r. fst r = qi_pointer (fst (fst z)) \<and> prepare_item digest env inst org (fst z) (snd z) = Some (snd r)) zs rs"
  by (induction digest env inst org zs arbitrary: rs rule: prepare_all.induct) (auto split: option.splits)

definition answered_keys :: "int \<Rightarrow> (gerror + PullRequestNode option) list \<Rightarrow> string list" where
  "answered_keys inst answers =
     List.map_filter (\<lambda>a. case a of Inl e \<Rightarrow> None | Inr node \<Rightarrow> map_option (node_key inst) node) answers"

lemma map_filter_Cons: "List.map_filter f (x # xs) = (case f x of None \<Rightarrow> List.map_filter f xs | Some y \<Rightarrow> y # List.map_filter f xs)"
  by (simp add: map_filter_def split: option.splits)

lemma map_filter_Nil: "List.map_filter f [] = []"
  by (simp add: map_filter_def)

lemma prepared_keys:
  assumes "list_all2 (\<lambda>z r. fst r = qi_pointer (fst (fst z)) \<and> prepare_item digest env inst org (fst z) (snd z) = Some (snd r)) zs rs"
    and "distinct (answered_keys inst (map snd zs))"
  shows "distinct (map (\<lambda>p. record_key (pq_record p)) (prepared_pulls rs)) \<and>
    set (map (\<lambda>p. record_key (pq_record p)) (prepared_pulls rs)) \<subseteq> set (answered_keys inst (map snd zs))"
  using assms
proof (induction rule: list_all2_induct)
  case Nil
  then show ?case by (simp add: prepared_pulls_def map_filter_Nil)
next
  case (Cons z zs r rs)
  have tail: "set (answered_keys inst (map snd zs)) \<subseteq> set (answered_keys inst (map snd (z # zs)))"
    "distinct (answered_keys inst (map snd zs))"
    using Cons.prems by (auto simp: answered_keys_def map_filter_Cons split: option.splits)
  note ih = Cons.IH [OF tail(2)]
  show ?case
  proof (cases "snd r")
    case (Inl e)
    then have "prepared_pulls (r # rs) = prepared_pulls rs" by (cases r) (simp add: prepared_pulls_def map_filter_Cons)
    then show ?thesis using ih tail by auto
  next
    case (Inr p)
    then have ps: "prepared_pulls (r # rs) = p # prepared_pulls rs" by (cases r) (simp add: prepared_pulls_def map_filter_Cons)
    from Cons.hyps(1) Inr obtain node where "snd z = Inr (Some node)" "record_key (pq_record p) = node_key inst node"
      by (metis prepare_item_keeps)
    then have "answered_keys inst (map snd (z # zs)) = record_key (pq_record p) # answered_keys inst (map snd zs)"
      by (simp add: answered_keys_def map_filter_Cons)
    then show ?thesis using ps ih Cons.prems by auto
  qed
qed

lemma failures_from:
  "apply_repositories env prepared ids failures s = (s', failures') \<Longrightarrow> failures' repoID = Some e \<Longrightarrow>
     failures repoID = Some e \<or> (\<exists>q s0. repositoryCandidates prepared repoID = Some q \<and> \<not> errors_is e ErrRefreshGenerationSuperseded \<and>
       snd (applyIncidentalRepository (pq_item q) (pd_repository (pq_record q)) (xe_attempts env repoID) s0) = Some e)"
proof (induction ids arbitrary: failures s)
  case (Cons i ids)
  show ?case
  proof (cases "repositoryCandidates prepared i")
    case None
    then show ?thesis using Cons.IH [of failures s] Cons.prems by simp
  next
    case (Some q)
    let ?a = "applyIncidentalRepository (pq_item q) (pd_repository (pq_record q)) (xe_attempts env i) s"
    let ?f = "case failure_of (snd ?a) of None \<Rightarrow> failures | Some err \<Rightarrow> failures(i \<mapsto> err)"
    have "apply_repositories env prepared ids ?f (fst ?a) = (s', failures')" using Cons.prems(1) Some by (simp add: case_prod_beta)
    from Cons.IH [OF this Cons.prems(2)] show ?thesis
    proof
      assume f: "?f repoID = Some e"
      show ?thesis
      proof (cases "failures repoID = Some e")
        case False
        with f have "i = repoID" "failure_of (snd ?a) = Some e" by (auto split: option.splits if_splits)
        moreover then have "snd ?a = Some e" "\<not> errors_is e ErrRefreshGenerationSuperseded"
          by (auto simp: failure_of_def split: option.splits if_splits)
        ultimately show ?thesis using Some by blast
      qed simp
    qed blast
  qed
qed simp

section \<open>An item's own result\<close>

text \<open>Where the result of an item may come from. \<open>zs\<close> pairs the items that were read with GitHub's answers.\<close>

inductive own_result ::
  "(string \<Rightarrow> string) \<Rightarrow> ('h, 'r) pull_write \<Rightarrow> batch_env \<Rightarrow> int \<Rightarrow> int \<Rightarrow>
     (('h pullBatchItem \<times> Observation) \<times> (gerror + PullRequestNode option)) list \<Rightarrow> 'h pullBatchItem \<Rightarrow> gerror + 'r \<Rightarrow> bool"
  for digest write_pull env inst org zs item where
  unread: "observe_item env item = Inl e \<Longrightarrow> own_result digest write_pull env inst org zs item (Inl e)"
| unprepared: "observe_item env item = Inr a \<Longrightarrow> (a, answer) \<in> set zs \<Longrightarrow> prepare_item digest env inst org a answer = Some (Inl e) \<Longrightarrow>
    own_result digest write_pull env inst org zs item (Inl e)"
| parent_failed: "observe_item env item = Inr a \<Longrightarrow> (a, answer) \<in> set zs \<Longrightarrow> prepare_item digest env inst org a answer = Some (Inr p) \<Longrightarrow>
    \<not> qi_skips item \<Longrightarrow> repository_id (q :: 'h preparedPull) = repository_id p \<Longrightarrow> \<not> errors_is e ErrRefreshGenerationSuperseded \<Longrightarrow>
    snd (applyIncidentalRepository (pq_item q) (pd_repository (pq_record q)) (xe_attempts env (repository_id p)) s0) = Some e \<Longrightarrow>
    own_result digest write_pull env inst org zs item (Inl e)"
| written: "observe_item env item = Inr a \<Longrightarrow> (a, answer) \<in> set zs \<Longrightarrow> prepare_item digest env inst org a answer = Some (Inr p) \<Longrightarrow>
    r = snd (write_pull (qi_ctx item) (Some (snd a)) (pq_record p) (qi_hook item (rd_fullName (pd_repository (pq_record p)))) s0) \<Longrightarrow>
    own_result digest write_pull env inst org zs item r"

definition read_answers :: "batch_env \<Rightarrow> 'h pullBatchItem list \<Rightarrow> (('h pullBatchItem \<times> Observation) \<times> (gerror + PullRequestNode option)) list option" where
  "read_answers env items =
     (let active = active_items env (sort_key immutablePRKey items) in
      if active = [] then Some []
      else map_option (\<lambda>(answers, rest). zip active answers) (fetchPullRequestNodes (map (\<lambda>a. qi_nodeID (fst a)) active) (xe_calls env)))"

text \<open>One execution that got past the reads, with the values of its stages.\<close>

record ('h, 'r) execution =
  zx_digest :: "string \<Rightarrow> string"
  zx_write :: "('h, 'r) pull_write"
  zx_env :: batch_env
  zx_inst :: int
  zx_org :: int
  zx_items :: "'h pullBatchItem list"
  zx_answers :: "(gerror + PullRequestNode option) list"
  zx_stages :: "(nat \<times> (gerror + 'h preparedPull)) list"
  zx_start :: database
  zx_applied :: database
  zx_final :: database
  zx_failures :: "int \<rightharpoonup> gerror"
  zx_outcomes :: "string \<rightharpoonup> gerror + 'r"

abbreviation zx_prepared where "zx_prepared x \<equiv> prepared_pulls (zx_stages x)"
abbreviation zx_pairs where "zx_pairs x \<equiv> zip (active_items (zx_env x) (zx_items x)) (zx_answers x)"
abbreviation zx_writable where "zx_writable x \<equiv> filter (\<lambda>p. blocked (zx_failures x) p = None) (zx_prepared x)"
abbreviation zx_results where
  "zx_results x \<equiv> (((read_failures (zx_env x) (zx_items x)) ++ (prepare_failures (zx_stages x))) ++
       (repository_results (zx_failures x) (zx_prepared x))) ++ (outcome_results (zx_outcomes x) (applyItems (zx_writable x)) (zx_writable x))"

definition executed :: "('h, 'r) execution \<Rightarrow> bool" where
  "executed x = (distinct (map qi_pointer (zx_items x)) \<and> length (zx_answers x) = length (active_items (zx_env x) (zx_items x)) \<and>
     distinct (answered_keys (zx_inst x) (zx_answers x)) \<and>
     prepare_all (zx_digest x) (zx_env x) (zx_inst x) (zx_org x) (zx_pairs x) = Some (zx_stages x) \<and>
     apply_repositories (zx_env x) (zx_prepared x) (candidate_ids (zx_prepared x)) Map.empty (zx_start x) = (zx_applied x, zx_failures x) \<and>
     ApplyPullRequestBatch (zx_write x) (xe_others (zx_env x)) (map pull_apply (zx_writable x)) (zx_applied x) = (zx_final x, zx_outcomes x))"

abbreviation owns_result :: "('h, 'r) execution \<Rightarrow> 'h pullBatchItem \<Rightarrow> gerror + 'r \<Rightarrow> bool" where
  "owns_result x \<equiv> own_result (zx_digest x) (zx_write x) (zx_env x) (zx_inst x) (zx_org x) (zx_pairs x)"

abbreviation stage :: "('h, 'r) execution \<Rightarrow> 'h pullBatchItem \<times> Observation \<Rightarrow> gerror + PullRequestNode option \<Rightarrow> (gerror + 'h preparedPull) option" where
  "stage x \<equiv> prepare_item (zx_digest x) (zx_env x) (zx_inst x) (zx_org x)"

lemma executedD:
  assumes "executed x"
  shows "distinct (map qi_pointer (zx_items x))" "length (zx_answers x) = length (active_items (zx_env x) (zx_items x))"
    "distinct (answered_keys (zx_inst x) (zx_answers x))"
    "prepare_all (zx_digest x) (zx_env x) (zx_inst x) (zx_org x) (zx_pairs x) = Some (zx_stages x)"
    "apply_repositories (zx_env x) (zx_prepared x) (candidate_ids (zx_prepared x)) Map.empty (zx_start x) = (zx_applied x, zx_failures x)"
    "ApplyPullRequestBatch (zx_write x) (xe_others (zx_env x)) (map pull_apply (zx_writable x)) (zx_applied x) = (zx_final x, zx_outcomes x)"
  using assms by (simp_all add: executed_def)

lemma list_all2_right: "list_all2 P xs ys \<Longrightarrow> y \<in> set ys \<Longrightarrow> \<exists>x \<in> set xs. P x y"
  by (induction rule: list_all2_induct) auto

lemma right_of [simp]: "(case r of Inl e \<Rightarrow> None | Inr y \<Rightarrow> Some y) = Some z \<longleftrightarrow> r = Inr z"
  by (cases r) auto

lemma left_of [simp]: "(case r of Inl e \<Rightarrow> Some (i, Inl e) | Inr y \<Rightarrow> None) = Some (k, v) \<longleftrightarrow> (\<exists>e. r = Inl e \<and> k = i \<and> v = Inl e)"
  by (cases r) auto

lemma writableD: "p \<in> set (zx_writable x) \<Longrightarrow> p \<in> set (zx_prepared x)"
  by simp

lemma same_pointer:
  assumes run: "executed x" shows "u \<in> set (zx_items x) \<Longrightarrow> v \<in> set (zx_items x) \<Longrightarrow> qi_pointer u = qi_pointer v \<Longrightarrow> u = v"
  using executedD(1) [OF run] by (simp add: distinct_map inj_on_def)

lemma active_from: "a \<in> set (active_items (zx_env x) (zx_items x)) \<longleftrightarrow> (\<exists>item \<in> set (zx_items x). observe_item (zx_env x) item = Inr a)"
  unfolding active_items_def set_map_filter by simp

lemma stage_of:
  assumes run: "executed x" and "(i, r) \<in> set (zx_stages x)"
  shows "\<exists>item \<in> set (zx_items x). \<exists>a answer. qi_pointer item = i \<and> observe_item (zx_env x) item = Inr a \<and> (a, answer) \<in> set (zx_pairs x) \<and>
    stage x a answer = Some r"
proof -
  from list_all2_right [OF prepare_all_from [OF executedD(4) [OF run]] assms(2)] obtain a answer where z: "(a, answer) \<in> set (zx_pairs x)" "i = qi_pointer (fst a)" "stage x a answer = Some r"
    by auto
  moreover from set_zip_leftD [OF z(1)] obtain item where "item \<in> set (zx_items x)" "observe_item (zx_env x) item = Inr a"
    using active_from by blast
  ultimately show ?thesis using observe_item_keeps by metis
qed

lemma stage_present:
  assumes run: "executed x" and "item \<in> set (zx_items x)" "observe_item (zx_env x) item = Inr a"
  shows "\<exists>r. (qi_pointer item, r) \<in> set (zx_stages x)"
proof -
  obtain n where n: "n < length (active_items (zx_env x) (zx_items x))" "active_items (zx_env x) (zx_items x) ! n = a"
    using active_from assms(2,3) by (metis in_set_conv_nth)
  then have "n < length (zx_pairs x)" "fst ((zx_pairs x) ! n) = a" using executedD(2) [OF run] by simp_all
  then have "n < length (zx_stages x) \<and> fst ((zx_stages x) ! n) = qi_pointer (fst a)"
    using prepare_all_from [OF executedD(4) [OF run]] by (auto simp: list_all2_conv_all_nth)
  then show ?thesis using observe_item_keeps [OF assms(3)] by (metis nth_mem prod.collapse)
qed

lemma prepared_from: "p \<in> set (zx_prepared x) \<longleftrightarrow> (\<exists>i. (i, Inr p) \<in> set (zx_stages x))"
  unfolding prepared_pulls_def set_map_filter by force

lemma prepared_unique:
  assumes run: "executed x" and "p \<in> set (zx_prepared x)" "q \<in> set (zx_prepared x)" "record_key (pq_record p) = record_key (pq_record q)"
  shows "p = q"
proof -
  have "map snd (zx_pairs x) = (zx_answers x)" using executedD(2) [OF run] by simp
  then have "distinct (map (\<lambda>p. record_key (pq_record p)) (zx_prepared x))"
    using prepared_keys [OF prepare_all_from [OF executedD(4) [OF run]]] executedD(3) [OF run] by simp
  with assms(2-4) show ?thesis by (auto simp: distinct_map dest: inj_onD)
qed

text \<open>The item behind a prepared pull request.\<close>

lemma prepared_item:
  assumes run: "executed x" and "p \<in> set (zx_prepared x)"
  obtains item a answer where "item \<in> set (zx_items x)" "observe_item (zx_env x) item = Inr a" "(a, answer) \<in> set (zx_pairs x)"
    "stage x a answer = Some (Inr p)" "qi_pointer (pq_item p) = qi_pointer item"
    "qi_ctx (pq_item p) = qi_ctx item" "qi_skips (pq_item p) = qi_skips item" "qi_hook (pq_item p) = qi_hook item"
    "pq_observation p = snd a"
proof -
  from assms(2) obtain i where "(i, Inr p) \<in> set (zx_stages x)" using prepared_from by blast
  from stage_of [OF run this] obtain item a answer where *: "item \<in> set (zx_items x)" "observe_item (zx_env x) item = Inr a" "(a, answer) \<in> set (zx_pairs x)"
    "stage x a answer = Some (Inr p)" by blast
  from observe_item_keeps [OF *(2)] show thesis
    by (rule_tac prepare_item_keeps [OF *(4)]) (rule that [OF *], simp_all)
qed

lemma outcome_from:
  assumes run: "executed x" and "(zx_outcomes x) key = Some r"
  shows "\<exists>p \<in> set (zx_writable x). record_key (pq_record p) = key \<and>
    (\<exists>s0. r = snd ((zx_write x) (qi_ctx (pq_item p)) (Some (pq_observation p)) (pq_record p)
       (qi_hook (pq_item p) (rd_fullName (pd_repository (pq_record p)))) s0))"
  using apply_all_from [OF executedD(6) [OF run, unfolded ApplyPullRequestBatch_def] assms(2)] by (auto simp: pull_apply_def)

lemma outcome_present:
  assumes run: "executed x" and "p \<in> set (zx_writable x)"
  shows "(zx_outcomes x) (record_key (pq_record p)) \<noteq> None"
  by (rule apply_all_present [OF executedD(6) [OF run, unfolded ApplyPullRequestBatch_def]]) (use assms(2) in \<open>force simp: pull_apply_def\<close>)

lemma failure_from:
  fixes x :: "('h, 'r) execution"
  assumes run: "executed x" and "(zx_failures x) repoID = Some e"
  shows "\<exists>(q :: 'h preparedPull) s0. repository_id q = repoID \<and> \<not> errors_is e ErrRefreshGenerationSuperseded \<and>
     snd (applyIncidentalRepository (pq_item q) (pd_repository (pq_record q)) (xe_attempts (zx_env x) repoID) s0) = Some e"
  using failures_from [OF executedD(5) [OF run], of repoID e] assms(2) unfolding repositoryCandidates_def find_Some_iff
  by (metis option.distinct(1))

lemma read_result:
  assumes run: "executed x" and "item \<in> set (zx_items x)" "read_failures (zx_env x) (zx_items x) (qi_pointer item) = Some r"
  shows "owns_result x item r"
proof -
  from map_filter_lookup [OF assms(3) [unfolded read_failures_def]] obtain y where "y \<in> set (zx_items x)"
    "qi_pointer y = qi_pointer item" "\<exists>e. observe_item (zx_env x) y = Inl e \<and> r = Inl e" by auto
  with same_pointer [OF run assms(2)] show ?thesis using own_result.unread by metis
qed

lemma prepare_result:
  assumes run: "executed x" and "item \<in> set (zx_items x)" "prepare_failures (zx_stages x) (qi_pointer item) = Some r"
  shows "owns_result x item r"
proof -
  from map_filter_lookup [OF assms(3) [unfolded prepare_failures_def]] obtain e where e: "(qi_pointer item, Inl e) \<in> set (zx_stages x)" "r = Inl e"
    by auto
  from stage_of [OF run e(1)] same_pointer [OF run assms(2)] show ?thesis unfolding e(2) by (metis own_result.unprepared)
qed

lemma repository_result:
  assumes run: "executed x" and "item \<in> set (zx_items x)" "repository_results (zx_failures x) (zx_prepared x) (qi_pointer item) = Some r"
  shows "owns_result x item r"
proof -
  from map_filter_lookup [OF assms(3) [unfolded repository_results_def]] obtain p e where p: "p \<in> set (zx_prepared x)"
    "blocked (zx_failures x) p = Some e" "r = Inl e" "qi_pointer (pq_item p) = qi_pointer item" by auto
  obtain y a answer where y: "y \<in> set (zx_items x)" "observe_item (zx_env x) y = Inr a" "(a, answer) \<in> set (zx_pairs x)"
    "stage x a answer = Some (Inr p)" "qi_pointer (pq_item p) = qi_pointer y"
    "qi_skips (pq_item p) = qi_skips y" by (rule prepared_item [OF run p(1)])
  have "y = item" using same_pointer [OF run y(1) assms(2)] y(5) p(4) by simp
  moreover have "\<not> qi_skips y" "(zx_failures x) (repository_id p) = Some e" using p(2) y(6) by (auto simp: blocked_def split: if_splits)
  ultimately show ?thesis using failure_from [OF run] own_result.parent_failed y(2-4) p(3) by metis
qed

lemma outcome_result:
  assumes run: "executed x" and "item \<in> set (zx_items x)" "outcome_results (zx_outcomes x) (applyItems (zx_writable x)) (zx_writable x) (qi_pointer item) = Some r"
  shows "owns_result x item r"
proof -
  from map_filter_lookup [OF assms(3) [unfolded outcome_results_def]] obtain p where p: "p \<in> set (zx_writable x)"
    "applyItems (zx_writable x) (record_key (pq_record p)) = Some (qi_pointer item)" "(zx_outcomes x) (record_key (pq_record p)) = Some r"
    by (auto split: option.splits)
  from applyItems_from [OF p(2)] p(1) prepared_unique [OF run] have pointer: "qi_pointer (pq_item p) = qi_pointer item"
    by (metis writableD)
  have mem: "p \<in> set (zx_prepared x)" using p(1) by simp
  obtain y a answer where y: "y \<in> set (zx_items x)" "observe_item (zx_env x) y = Inr a" "(a, answer) \<in> set (zx_pairs x)"
    "stage x a answer = Some (Inr p)" "qi_pointer (pq_item p) = qi_pointer y"
    "qi_ctx (pq_item p) = qi_ctx y" "qi_hook (pq_item p) = qi_hook y" "pq_observation p = snd a"
    by (rule prepared_item [OF run mem])
  have "y = item" using same_pointer [OF run y(1) assms(2)] y(5) pointer by simp
  moreover obtain s0 where "r = snd ((zx_write x) (qi_ctx (pq_item p)) (Some (pq_observation p)) (pq_record p)
       (qi_hook (pq_item p) (rd_fullName (pd_repository (pq_record p)))) s0)"
    using outcome_from [OF run p(3)] prepared_unique [OF run] mem by (metis writableD)
  ultimately show ?thesis using y(6-8) by (intro own_result.written [of "zx_env x" item a answer "zx_pairs x" "zx_digest x" "zx_inst x" "zx_org x" p]) (use y(2-4) in simp_all)
qed

lemma result_present:
  assumes run: "executed x" and "item \<in> set (zx_items x)" shows "(zx_results x) (qi_pointer item) \<noteq> None"
proof (cases "observe_item (zx_env x) item")
  case (Inl e)
  have "read_failures (zx_env x) (zx_items x) (qi_pointer item) \<noteq> None" unfolding read_failures_def
    by (rule map_filter_present [OF assms(2)]) (simp add: Inl)
  then show ?thesis by auto
next
  case (Inr a)
  from stage_present [OF assms this] obtain r where r: "(qi_pointer item, r) \<in> set (zx_stages x)" by blast
  show ?thesis
  proof (cases r)
    case (Inl e)
    have "prepare_failures (zx_stages x) (qi_pointer item) \<noteq> None" unfolding prepare_failures_def
      by (rule map_filter_present [OF r]) (simp add: Inl)
    then show ?thesis by auto
  next
    case (Inr p)
    then have p: "p \<in> set (zx_prepared x)" using r prepared_from by blast
    from stage_of [OF run r] Inr obtain y a answer where "y \<in> set (zx_items x)" "qi_pointer y = qi_pointer item" "observe_item (zx_env x) y = Inr a"
      "stage x a answer = Some (Inr p)" by blast
    then have pointer: "qi_pointer (pq_item p) = qi_pointer item" using observe_item_keeps prepare_item_keeps by metis
    show ?thesis
    proof (cases "blocked (zx_failures x) p")
      case (Some e)
      have "repository_results (zx_failures x) (zx_prepared x) (qi_pointer item) \<noteq> None" unfolding repository_results_def
        by (rule map_filter_present [OF p]) (simp add: Some pointer)
      then show ?thesis by auto
    next
      case None
      with p have w: "p \<in> set (zx_writable x)" by simp
      from applyItems_present [OF w] obtain i where i: "applyItems (zx_writable x) (record_key (pq_record p)) = Some i" by blast
      from applyItems_from [OF i] prepared_unique [OF run] p pointer have "i = qi_pointer item" by (metis writableD)
      moreover from outcome_present [OF run w] obtain r where "(zx_outcomes x) (record_key (pq_record p)) = Some r" by blast
      ultimately have "outcome_results (zx_outcomes x) (applyItems (zx_writable x)) (zx_writable x) (qi_pointer item) \<noteq> None"
        unfolding outcome_results_def by (intro map_filter_present [OF w]) (simp add: i)
      then show ?thesis by auto
    qed
  qed
qed

lemma results_own:
  assumes run: "executed x" and "item \<in> set (zx_items x)" "(zx_results x) (qi_pointer item) = Some r"
  shows "owns_result x item r"
  using assms(3) read_result [OF assms(1,2)] prepare_result [OF assms(1,2)] repository_result [OF assms(1,2)] outcome_result [OF assms(1,2)]
  by (auto simp: map_add_Some_iff)

lemma sorted_items: "set (sort_key immutablePRKey items) = set items"
  "distinct (map qi_pointer items) \<Longrightarrow> distinct (map qi_pointer (sort_key immutablePRKey items))"
  by (simp_all add: distinct_map)

lemma finish_results:
  assumes "\<And>item. item \<in> set items \<Longrightarrow> results (qi_pointer item) \<noteq> None"
    and "\<And>item r. item \<in> set items \<Longrightarrow> results (qi_pointer item) = Some r \<Longrightarrow> P item r"
  shows "list_all2 (\<lambda>item (i, r). i = qi_pointer item \<and> P item r) items (finishAll items results)"
  using assms unfolding finishAll_def by (induction items) (auto split: option.splits)


section \<open>Example batches\<close>

definition demo_batch_node :: "int \<Rightarrow> PullRequestNode" where
  "demo_batch_node number =
     (let none = \<lparr>pi_hasNextPage = False, pi_endCursor = None\<rparr> in
      \<lparr>pn_id = ''PR_1'', pn_databaseID = 1, pn_number = number, pn_title = ''Title'', pn_state = ''OPEN'', pn_isDraft = False,
       pn_updatedAt = 5, pn_reviewDecision = [], pn_mergeable = ''MERGEABLE'', pn_headRefName = ''topic'', pn_headRefOID = ''h1'',
       pn_baseRefName = ''main'', pn_baseRefOID = [], pn_changedFiles = 0, pn_author = ''ann'',
       pn_repository = \<lparr>rx_id = ''R_9'', rx_databaseID = 9, rx_name = ''r'', rx_nameWithOwner = ''o/r'', rx_isArchived = False,
         rx_updatedAt = 50 * second, rx_defaultBranchRef = Some (''main'', ''c2''), rx_owner = ''o''\<rparr>,
       pn_files = None, pn_reviewRequests = \<lparr>cn_nodes = [], cn_pageInfo = none\<rparr>, pn_reviews = \<lparr>cn_nodes = [], cn_pageInfo = none\<rparr>,
       pn_comments = \<lparr>cn_nodes = [], cn_pageInfo = none\<rparr>, pn_reviewThreads = \<lparr>cn_nodes = [], cn_pageInfo = none\<rparr>\<rparr>)"

text \<open>A call that only answers the batch query.\<close>

definition nodes_call :: "gerror + PullRequestNode option list \<Rightarrow> graphql_call" where
  "nodes_call reply = \<lparr>gq_nodes = (\<lambda>ids. reply), gq_files = (\<lambda>i after. Inl ErrClosed), gq_reviewRequests = (\<lambda>i after. Inl ErrClosed),
     gq_reviews = (\<lambda>i after. Inl ErrClosed), gq_comments = (\<lambda>i after. Inl ErrClosed), gq_reviewThreads = (\<lambda>i after. Inl ErrClosed),
     gq_threadComments = (\<lambda>i after. Inl ErrClosed)\<rparr>"

definition demo_batch_hydrate :: hydrate_env where
  "demo_batch_hydrate = \<lparr>he_rows = Inr [], he_pages = [], he_content = (\<lambda>sha ref path. Inl ErrClosed), he_resolve = (\<lambda>rc. Inl ErrClosed),
     he_repo = Inr 1, he_identities = (\<lambda>repo. Inr []), he_latest = (\<lambda>etag. Inr (''e1'', None))\<rparr>"

definition demo_batch_env :: "graphql_call list \<Rightarrow> batch_env" where
  "demo_batch_env calls =
     \<lparr>xe_beginPull = (\<lambda>i key. Inr \<lparr>ob_key = key, ob_version = 0\<rparr>), xe_metadata = (\<lambda>i repo number. Inr demo_metadata),
      xe_generation = (\<lambda>i kind key. Inr 0), xe_beginRepository = (\<lambda>i key. Inr \<lparr>ob_key = key, ob_version = 3\<rparr>), xe_calls = calls,
      xe_hydrate = (\<lambda>i. demo_batch_hydrate), xe_attempts = (\<lambda>repo. demo_churn), xe_others = (\<lambda>n s. s)\<rparr>"

definition demo_pull_write :: "(unit, int) pull_write" where
  "demo_pull_write cx ob record hook s = (s, Inr (pd_number record))"

text \<open>The batch query fails, the isolated query of the first item succeeds and that of the second fails.\<close>

definition demo_isolating :: batch_env where
  "demo_isolating = demo_batch_env [nodes_call (Inl ErrClosed), nodes_call (Inr [Some (demo_batch_node 12)]), nodes_call (Inl ErrTxClosed)]"

lemma demo_isolating_run:
  "map_option snd (execute (\<lambda>b. b) demo_pull_write demo_isolating 5 6 [demo_batch_item 3 13, demo_batch_item 2 12] demo_database) =
     Some [(2, Inr 12), (3, Inl (ErrWrap ''GraphQL PR batch failed; isolate node'' [ErrClosed, ErrTxClosed]))]"
  by code_simp

lemma demo_isolating_keys:
  "map_option (\<lambda>zs. answered_keys 5 (map snd zs)) (read_answers demo_isolating [demo_batch_item 3 13, demo_batch_item 2 12]) = Some [''pr:5:9:12'']"
  by code_simp

lemma mapped_Some: "map_option f x = Some y \<Longrightarrow> \<exists>z. x = Some z \<and> f z = y"
  by (cases x) auto


text \<open>Two items of the same pull request in one batch: both writes run, and the first caller is told that its result
  was omitted. \<open>applyItems\<close> keeps one item for a key.\<close>

theorem duplicate_item_loses_its_result:
  "map_option snd (execute (\<lambda>b. b) demo_pull_write (demo_batch_env [nodes_call (Inr [Some (demo_batch_node 12), Some (demo_batch_node 12)])]) 5 6
     [demo_batch_item 2 12, demo_batch_item 3 12] demo_database) =
   Some [(2, Inl (ErrText ''PR batch omitted result for pr:o/r:12'')), (3, Inr 12)]"
  by code_simp

end
