(* ===== verification/Spec2Isabelle.thy ===== *)
theory Spec2Isabelle
  imports Lease_Properties Page_Properties Derive_Drain Tail_Properties Owner_Properties Gap_Passes
    Resolver_Properties Input_Properties Batch_Results
begin

text \<open>
  A verification development for ghsync, a mirror of GitHub state in Postgres.

  \<^bold>\<open>The program.\<close> Webhooks and sweeps signal that an entity of GitHub may have changed; the
  dispatcher turns signals into refresh pointers; the refresh queue runs each pointer at least once
  after its last signal; a refresh fetches from GitHub through the budget gate and commits
  observations to the cache, which a change stream publishes.

  \<^bold>\<open>The theories.\<close>
  \<^item> \<open>Prelude\<close>: times, errors, 64-bit integers, \<open>float64\<close> products, string functions, and the locale
    \<open>observation_merge\<close> of idempotent, commutative merges with its order-independence lemmas.
  \<^item> \<open>Attribution\<close> (\<open>internal/budget/types.go\<close>, \<open>attribution.go\<close>): request classes, credentials,
    request constructors, the endpoint family of a request.
  \<^item> \<open>Budget_Gate\<close> (\<open>internal/budget/gate.go\<close>): the gate's state as the record \<open>Gate\<close>; \<open>New\<close>,
    \<open>tryAdmit\<close>, \<open>finishAdmission\<close>, \<open>cancelAdmissions\<close>, the rate and secondary-limit observers,
    \<open>doAdmitted\<close>, the admission loop and \<open>Do\<close>. \<open>Gate_Invariants\<close> has the ledger invariant and its
    preservation, \<open>Gate_Properties\<close> the properties: the ledger of slots and reservations, the
    reserved floors and the priority between classes, closing on lease loss, order-independence of
    rate observations, backoff, nested token mints, termination of the admission loop.
  \<^item> \<open>Budget_Lease\<close> (\<open>internal/budget/lease.go\<close>, \<open>db/queries/installation_budgets.sql\<close>): the
    \<open>installation_budgets\<close> table, its queries, the store's methods, option normalization, the
    branches of the maintenance loop, \<open>NewLeased\<close>, \<open>Close\<close> and the standby loop.
    \<open>Lease_Properties\<close> states the protocol as a step relation over one table, one clock and any
    number of runtimes: at most one admitting gate, fencing of a stale owner, snapshot handoff,
    takeover, bounds of the options and delays.
  \<^item> \<open>Refresh_Queue\<close> (\<open>internal/queue/refresh.go\<close>, \<open>orphan.go\<close>, \<open>queue.go\<close>,
    \<open>internal/pipeline/event.go\<close>, \<open>db/queries/refresh_intent_generations.sql\<close>): job arguments, the
    generation table, generation locks, producers, workers, orphan reconciliation.
    \<open>Queue_Properties\<close>: no signal is lost, a run completes what it saw, coalescing is independent
    of order, one bump per key, orphans are restored, locks are all-or-nothing.
  \<^item> \<open>Classify\<close> (\<open>internal/dispatch/classify.go\<close>): the rule table and the classification of a delivery.
    \<open>Dispatcher\<close> (\<open>internal/dispatch/dispatcher.go\<close>, \<open>db/queries/webhook_deliveries.sql\<close>): claiming
    deliveries, the batch transaction and its retry loop. \<open>Dispatch_Properties\<close>: the locale
    \<open>entity_writer\<close> of what the transaction relies on in the entity writer, emitted intents are accepted
    and distinct, keys determine entities, pages partition the targets of a push, backoff bounds,
    schedules of coalesced pointers.
  \<^item> \<open>Heartbeat\<close> (\<open>internal/opsstate/heartbeat.go\<close>): the operation heartbeats two components write.
  \<^item> \<open>Branch_Writer\<close> (\<open>internal/store/branch.go\<close>, \<open>db/queries/branch.sql\<close>): the push transaction, the branch
    generations, the moved SHAs, claimed targets and page manifest. \<open>Branch_Pages\<close>
    (\<open>internal/fetch/handler.go\<close>): the page queries and \<open>ReconcileBranchPage\<close>. \<open>Branch_Properties\<close>
    interprets \<open>entity_writer\<close> on the branch writer and has the end-to-end property of a dispatch batch, and
    what a push moves, publishes and claims; \<open>Page_Properties\<close> has the life of a reconciliation as a
    step relation: it is complete exactly when no page is pending.
  \<^item> \<open>Entity_Writer\<close> (\<open>internal/store/observation.go\<close>, \<open>repository.go\<close>, \<open>db/queries/observation_versions.sql\<close>,
    \<open>cache.sql\<close>): observations, generation fences, the entity transaction, repository writes.
    \<open>Entity_Properties\<close>: no lost update, an overtaken fetch writes nothing, write-if-newer.
  \<^item> \<open>Deriver\<close> (\<open>internal/derive/derive.go\<close>, \<open>snapshot.go\<close>, \<open>db/queries/derive.sql\<close>): dirty scopes, the snapshot,
    validation, the work-item statement, the pass and its loop. \<open>Derive_Properties\<close>: scope keys round trip, what
    validation and the statement give. \<open>Derive_Steps\<close>: the locale \<open>scope_deriver\<close> of what a pass relies on in a
    deriver, passes and store writes as steps, and the invariant that work items agree with the cache off the
    dirty set. \<open>Derive_Runs\<close>: calls of \<open>runOnce\<close> are runs of steps, repository writes mark what they make stale,
    what a pass publishes. \<open>Derive_Drain\<close>: the locale \<open>valid_deriver\<close>, and the loop drains the dirty set.
  \<^item> \<open>Regexp\<close>: the part of Go's \<open>regexp\<close> that the code owners compiler uses, as text, syntax and matcher, with the
    declarative meaning the matcher computes. \<open>Code_Owners\<close> (\<open>internal/codeowners/resolver.go\<close>): lines, patterns,
    owners, \<open>Parse\<close> and \<open>Resolve\<close>. \<open>Owner_Patterns\<close>: the glob meaning of a pattern and that the compiled
    expression has it. \<open>Owner_Properties\<close>: the last covering line owns a path, what the kind of an owner says.
  \<^item> \<open>Owner_Sources\<close> (\<open>internal/gh/rest.go\<close>, \<open>internal/changeinputs/source.go\<close>): the probe for the CODEOWNERS of a commit,
    mirrored records, the shared resolver and its two critical sections. \<open>Source_Properties\<close>: a probe finds the
    effective source of its commit from any earlier source; calls of the resolver as steps, and the invariant.
    \<open>Resolver_Properties\<close>: every step keeps it, every returned source is the effective one, one probe per key.
  \<^item> \<open>Pull_Nodes\<close> (\<open>internal/gh/graphql.go\<close>): the pull-request nodes, the batch query and the loops that complete its
    connections. \<open>Node_Properties\<close>: a completed node is whole and completion returns.
  \<^item> \<open>Change_Inputs\<close> (\<open>internal/changeinputs/changeinputs.go\<close>, \<open>internal/store/codeowners.go\<close>, \<open>internal/gh/rest.go\<close>): the rename
    listing, the files, owners and identities of a change snapshot, and its fence. \<open>Input_Properties\<close>: an unflagged
    snapshot is the whole diff, its owners are those of the effective CODEOWNERS, identities match their tokens.
  \<^item> \<open>Pull_Records\<close> (\<open>internal/fetch/key.go\<close>, \<open>convert.go\<close>, \<open>handler.go\<close>, \<open>internal/store/records.go\<close>): refresh keys, the records of a
    pull request and their conversion from a node, the fence and its validator. \<open>Coordinator\<close>
    (\<open>internal/fetch/coordinator.go\<close>, \<open>internal/store/pull_request.go\<close>): batches and their timers, the execution of a batch with
    the isolation of a failing node, the incidental apply of the parent repository, the batch write.
    \<open>Coordinator_Steps\<close>: submissions, timers and flushes as steps, and the invariant. \<open>Coordinator_Properties\<close>: keys
    round trip from the dispatcher to the handlers, items are batched once, one quiet retry settles a
    repository. \<open>Batch_Results\<close>: every item gets its own result, and what happens to two items of one key.
  \<^item> \<open>Gap_Healing\<close> (\<open>internal/sweep/gap.go\<close>, \<open>db/queries/sweep.sql\<close>): the cursor row and its statements, opening a
    window, scanning a page, a run as a state machine over the calls it waits for, its lease keeper.
    \<open>Gap_Steps\<close>: any number of runs as steps on one row, with the committed pages, and the invariant.
    \<open>Gap_Properties\<close>: every step keeps it. \<open>Gap_Passes\<close>: completed passes leave no gap, stale runs change
    nothing, runs end, the cutoffs, and what happens on a rejected cursor.
  \<^item> \<open>Change_Stream\<close> (\<open>internal/outbox/outbox.go\<close>, \<open>internal/stream/watermark.go\<close>, \<open>retention.go\<close>,
    \<open>db/queries/stream.sql\<close>): the writer fence, the event table and its sequence, the watermarker with its
    lease, retention. \<open>Stream_Client\<close> (\<open>pkg/streamclient/streamclient.go\<close>, \<open>db/queries/streamclient.sql\<close>):
    cursor transactions, \<open>deliverPage\<close>, \<open>Bootstrap\<close> and its snapshot, \<open>Tail\<close>, error classification.
    \<open>Stream_Log\<close>: the locale \<open>published_log\<close> of what a consumer relies on, interpreted on the tables.
    \<open>Stream_Steps\<close>: writers, watermarkers, retention and consumers as steps on one database, and the
    invariant. \<open>Stream_Properties\<close>: the system refines an append-only log with a position per consumer; nothing
    appears below the watermark; a consumer's tables come from a gap-free run of events.
    \<open>Tail_Properties\<close>: resync, handler failures, catching up, the listener's backoff, retention and the
    watermarker's step.

  \<^bold>\<open>Conventions.\<close> A Go function on mutable state is a function from state to state, with its
  result; a mutex-protected method is one step. Database statements are functions on tables; a
  statement that reads the volatile clock per row takes one reading per row. Connection and server
  failures roll a transaction back and leave the state as it was; they are not branches of the
  model, except where the code's reaction is a branch of its own (a failed renewal, a lost reply).
  Loops that wait for other parties take fuel: \<open>admit_loop\<close>, \<open>standby_loop\<close> and \<open>lock_loop\<close> return
  \<open>None\<close> when the fuel ends, and the theorems about them give the fuel that is enough, the number
  of the attempt that finds no reason to wait; \<open>dispatch_loop\<close> is fuelled the same way, and
  \<open>prune_loop\<close> with one more turn than there are expired events. The loops of \<open>Tail\<close> and of the watermarker's
  \<open>Run\<close>, and a gap-healing run, go over the list of what each turn or call meets; a gap-healing run needs three
  calls per page and one more. The pagination loops go over the list of the calls to come, one per node is enough. A \<open>REPEATABLE READ\<close> transaction reads the snapshot it was
  given and fails on a row that changed since.

  \<^bold>\<open>Parameters.\<close> River (\<open>River\<close>, hypotheses \<open>river_ok\<close>), Postgres's text-to-timestamp conversion
  and lock hash, \<open>http.ParseTime\<close>, random numbers and tokens, the fetch handlers as seen by the
  queue's workers, the decoding of webhook bodies and stored headers, the remote phase of a branch page
  (\<open>branch_page_work\<close>), lock grants and hooks of the branch writer (\<open>writer_env\<close>), \<open>pgconn.SafeToRetry\<close>, the
  handler of a stream consumer, and what each statement of a turn meets (\<open>watermark_env\<close>, \<open>page_env\<close>,
  \<open>tail_env\<close>, \<open>call_env\<close>), the replies of GitHub to content requests (hypothesis \<open>honest\<close>: what a commit holds does not
  change and a validator belongs to one content) and the digest of a source, the calls of the GraphQL
  client (\<open>graphql_call\<close>), what a hydration meets (\<open>hydrate_env\<close>), what a batch of pull requests meets (\<open>batch_env\<close>,
  with the commits of other writers as functions on the database) and the write of one pull request
  (\<open>pull_write\<close>). A step relation over runs of one queue (\<open>gap_step\<close>) lets a run start with a token in use only
  inside the same window.

  \<^bold>\<open>Not modelled yet\<close>, in the order of the plan: the pull-request, stack, check and rule
  writes of the store, the REST handlers, list reconciliation, drift sampling. Tracing, metrics, HTTP and JSON decoding, process
  wiring and generated query code are outside the model.
\<close>

end
